(* ===== verification/QXPrelude.thy ===== *)
theory QXPrelude
  imports Main "HOL-Library.Word"
begin

text \<open>
  What the component theories share: bytes, the little-endian accesses that the C code
  makes through casted pointers (\<open>*(uint16_t*)p\<close>, \<open>*(uint32_t*)p\<close>) on the 32-bit
  little-endian x86 that QNX 6 runs on, the byte swap of \<open>gulliver.h\<close>, C strings,
  \<open>toupper\<close> and \<open>stricmp\<close>, and two interfaces as locales: a codec that stores a
  value of fixed width at an offset of a buffer, and a machine whose steps keep an invariant.
\<close>

unbundle bit_operations_syntax

named_theorems codec_simps "reads after writes in a byte buffer"

section \<open>Bytes and words\<close>

type_synonym byte = "8 word"
type_synonym u16 = "16 word"
type_synonym u32 = "32 word"
type_synonym bytes = "byte list"

definition get16 :: "bytes \<Rightarrow> nat \<Rightarrow> u16" where
  "get16 bs i = word_of_nat (unat (bs ! i) + 256 * unat (bs ! (i + 1)))"

definition put16 :: "bytes \<Rightarrow> nat \<Rightarrow> u16 \<Rightarrow> bytes" where
  "put16 bs i v = bs[i := word_of_nat (unat v mod 256), i + 1 := word_of_nat (unat v div 256)]"

definition get32 :: "bytes \<Rightarrow> nat \<Rightarrow> u32" where
  "get32 bs i = word_of_nat (unat (bs ! i) + 256 * unat (bs ! (i + 1))
     + 65536 * unat (bs ! (i + 2)) + 16777216 * unat (bs ! (i + 3)))"

definition put32 :: "bytes \<Rightarrow> nat \<Rightarrow> u32 \<Rightarrow> bytes" where
  "put32 bs i v = bs[i := word_of_nat (unat v mod 256),
     i + 1 := word_of_nat (unat v div 256 mod 256),
     i + 2 := word_of_nat (unat v div 65536 mod 256),
     i + 3 := word_of_nat (unat v div 16777216)]"

text \<open>\<open>ENDIAN_RET16\<close>, \<open>ENDIAN_RET32\<close>, and \<open>ENDIAN_BE16\<close>, \<open>ENDIAN_BE32\<close>
  on a little-endian machine: the byte swap.\<close>

definition swap16 :: "u16 \<Rightarrow> u16" where
  "swap16 v = word_of_nat (unat v div 256 + 256 * (unat v mod 256))"

definition swap32 :: "u32 \<Rightarrow> u32" where
  "swap32 v = word_of_nat (unat v div 16777216 + 256 * (unat v div 65536 mod 256)
     + 65536 * (unat v div 256 mod 256) + 16777216 * (unat v mod 256))"

text \<open>\<open>memcpy (dst + off, src, length src)\<close> inside a buffer that is long enough.\<close>

definition blit :: "bytes \<Rightarrow> nat \<Rightarrow> bytes \<Rightarrow> bytes" where
  "blit dst off src = take off dst @ src @ drop (off + length src) dst"

text \<open>\<open>uint32_t\<close> arithmetic on counters that are kept as natural numbers.\<close>

definition w32 :: "nat \<Rightarrow> nat" where
  "w32 n = n mod 4294967296"

lemma w32_id [simp]: "n < 4294967296 \<Longrightarrow> w32 n = n"
  by (simp add: w32_def)

lemma w32_less [simp]: "w32 n < 4294967296"
  by (simp add: w32_def)

section \<open>The codec interface\<close>

locale le_codec =
  fixes rd :: "bytes \<Rightarrow> nat \<Rightarrow> 'v"
    and wr :: "bytes \<Rightarrow> nat \<Rightarrow> 'v \<Rightarrow> bytes"
    and width :: nat
  assumes length_wr: "length (wr bs i v) = length bs"
    and rd_wr: "i + width \<le> length bs \<Longrightarrow> rd (wr bs i v) i = v"
    and nth_wr: "k < i \<or> i + width \<le> k \<Longrightarrow> wr bs i v ! k = bs ! k"
    and rd_cong: "(\<And>k. i \<le> k \<Longrightarrow> k < i + width \<Longrightarrow> bs ! k = cs ! k) \<Longrightarrow> rd bs i = rd cs i"
begin

lemma rd_wr_disjoint:
  "i + width \<le> j \<or> j + width \<le> i \<Longrightarrow> rd (wr bs j v) i = rd bs i"
  by (rule rd_cong, rule nth_wr) auto

lemma rd_append:
  "i + width \<le> length bs \<Longrightarrow> rd (bs @ cs) i = rd bs i"
  by (rule rd_cong) (simp add: nth_append)

lemma rd_update:
  "k < i \<or> i + width \<le> k \<Longrightarrow> rd (bs[k := b]) i = rd bs i"
  by (rule rd_cong) auto

lemma take_wr: "n \<le> i \<Longrightarrow> take n (wr bs i v) = take n bs"
  by (rule nth_equalityI) (auto simp: length_wr nth_wr)

lemma drop_wr: "i + width \<le> n \<Longrightarrow> drop n (wr bs i v) = drop n bs"
  by (rule nth_equalityI) (auto simp: length_wr nth_wr)

lemma rd_blit_after:
  assumes "off + length src \<le> i" "off + length src \<le> length dst"
  shows "rd (blit dst off src) i = rd dst i"
  using assms by (intro rd_cong) (auto simp: blit_def nth_append)

lemma rd_blit_before:
  assumes "i + width \<le> off" "off \<le> length dst"
  shows "rd (blit dst off src) i = rd dst i"
  using assms by (intro rd_cong) (auto simp: blit_def nth_append)

end

text \<open>Two codecs on the same buffer: writes of one leave disjoint reads of the other alone.\<close>

locale le_codec_pair = a: le_codec rda wra wa + b: le_codec rdb wrb wb
  for rda :: "bytes \<Rightarrow> nat \<Rightarrow> 'v" and wra and wa :: nat
  and rdb :: "bytes \<Rightarrow> nat \<Rightarrow> 'w" and wrb and wb :: nat
begin

lemma rda_wrb: "i + wa \<le> j \<or> j + wb \<le> i \<Longrightarrow> rda (wrb bs j v) i = rda bs i"
  by (rule a.rd_cong, rule b.nth_wr) auto

lemma rdb_wra: "i + wb \<le> j \<or> j + wa \<le> i \<Longrightarrow> rdb (wra bs j v) i = rdb bs i"
  by (rule b.rd_cong, rule a.nth_wr) auto

end

lemma unat_byte_of_nat: "n < 256 \<Longrightarrow> unat (word_of_nat n :: byte) = n"
  by (simp add: unat_of_nat take_bit_nat_eq_self)

lemma byte_bound: "unat (b :: byte) < 256"
  using unsigned_less [of b] by simp

interpretation le16: le_codec get16 put16 2
proof
  fix bs :: bytes and i and v :: u16
  assume len: "i + 2 \<le> length bs"
  have "unat v < 65536" using unsigned_less [of v] by simp
  then have "unat v div 256 < 256" by simp
  with len show "get16 (put16 bs i v) i = v"
    by (simp add: get16_def put16_def unat_byte_of_nat del: of_nat_add)
qed (auto simp: get16_def put16_def)

lemma nat_bytes4:
  "n mod 256 + 256 * (n div 256 mod 256) + 65536 * (n div 65536 mod 256)
     + 16777216 * (n div 16777216) = (n :: nat)"
proof -
  let ?a = "n div 256" let ?b = "?a div 256" let ?c = "?b div 256"
  have d: "n div 65536 = ?b" "n div 16777216 = ?c"
    by (simp_all add: div_mult2_eq [symmetric])
  have "n = n mod 256 + 256 * ?a" "?a = ?a mod 256 + 256 * ?b" "?b = ?b mod 256 + 256 * ?c"
    by simp_all
  then show ?thesis unfolding d by linarith
qed

interpretation le32: le_codec get32 put32 4
proof
  fix bs :: bytes and i and v :: u32
  assume len: "i + 4 \<le> length bs"
  have b: "unat v < 4294967296" using unsigned_less [of v] by simp
  then have "unat v div 16777216 < 256" by simp
  with len show "get32 (put32 bs i v) i = v"
    by (simp add: get32_def put32_def unat_byte_of_nat nat_bytes4
      del: of_nat_add of_nat_mult)
qed (auto simp: get32_def put32_def)

interpretation le16_32: le_codec_pair get16 put16 2 get32 put32 4 ..

lemmas [codec_simps] = le16.length_wr le32.length_wr le16.rd_wr le32.rd_wr
  le16.rd_wr_disjoint le32.rd_wr_disjoint le16_32.rda_wrb le16_32.rdb_wra
  le16.nth_wr le32.nth_wr le16.rd_update le32.rd_update

lemma swap16_swap16 [simp]: "swap16 (swap16 v) = v"
proof -
  have "unat v < 65536" using unsigned_less [of v] by simp
  then have d: "unat v div 256 < 256" by simp
  let ?n = "unat v div 256 + 256 * (unat v mod 256)"
  have b: "?n < 65536" using d by simp
  then have "unat (swap16 v) = ?n"
    by (simp add: swap16_def unat_of_nat take_bit_nat_eq_self del: of_nat_add)
  moreover have "?n div 256 = unat v mod 256" "?n mod 256 = unat v div 256"
    using d by simp_all
  ultimately show ?thesis
    by (simp add: swap16_def [of "swap16 v"] del: of_nat_add)
qed

lemma length_blit: "off + length src \<le> length dst \<Longrightarrow> length (blit dst off src) = length dst"
  by (simp add: blit_def)

lemma take_blit: "off \<le> length dst \<Longrightarrow> n \<le> off \<Longrightarrow> take n (blit dst off src) = take n dst"
  by (simp add: blit_def min_absorb1)

lemma nth_blit:
  "off + length src \<le> length dst \<Longrightarrow>
   blit dst off src ! k = (if off \<le> k \<and> k < off + length src then src ! (k - off) else dst ! k)"
  by (auto simp: blit_def nth_append)

lemma slice_blit:
  "off \<le> length dst \<Longrightarrow> n = length src \<Longrightarrow> take n (drop off (blit dst off src)) = src"
  by (simp add: blit_def)

section \<open>List facts\<close>

lemma length_dropWhile_both:
  "dropWhile P s \<noteq> [] \<Longrightarrow> length (dropWhile (\<lambda>x. \<not> P x) (dropWhile P s)) < length s"
  by (induction s) (auto simp: less_Suc_eq_le length_dropWhile_le)

lemma hd_dropWhile_not: "dropWhile P s = c # u \<Longrightarrow> \<not> P c"
  by (induction s) (auto split: if_splits)

lemma takeWhile_stop: "\<forall>x \<in> set w. P x \<Longrightarrow> \<not> P c \<Longrightarrow> takeWhile P (w @ c # r) = w"
  by (simp add: takeWhile_append2)

lemma length_takeWhile_stop: "\<exists>x \<in> set xs. \<not> P x \<Longrightarrow> length (takeWhile P xs) < length xs"
  by (induction xs) auto

section \<open>C strings\<close>

text \<open>The bytes of the C string at the start of a buffer, and \<open>stricmp (a, b) == 0\<close>.\<close>

definition cstr :: "bytes \<Rightarrow> bytes" where
  "cstr bs = takeWhile (\<lambda>b. b \<noteq> 0) bs"

definition c_toupper :: "byte \<Rightarrow> byte" where
  "c_toupper b = (if 97 \<le> b \<and> b \<le> 122 then b - 32 else b)"

definition stricmp_eq :: "bytes \<Rightarrow> bytes \<Rightarrow> bool" where
  "stricmp_eq a b \<longleftrightarrow> map c_toupper (cstr a) = map c_toupper (cstr b)"

text \<open>The same on configuration text, which is kept as \<open>string\<close>.\<close>

definition char_upper :: "char \<Rightarrow> char" where
  "char_upper c = (let n = of_char c :: nat in
     if 97 \<le> n \<and> n \<le> 122 then char_of (n - 32) else c)"

definition str_ieq :: "string \<Rightarrow> string \<Rightarrow> bool" where
  "str_ieq a b \<longleftrightarrow> map char_upper a = map char_upper b"

definition bytes_of :: "string \<Rightarrow> bytes" where
  "bytes_of s = map (\<lambda>c. word_of_nat (of_char c)) s"

lemma length_bytes_of [simp]: "length (bytes_of s) = length s"
  by (simp add: bytes_of_def)

lemma stricmp_eq_refl [simp]: "stricmp_eq a a"
  by (simp add: stricmp_eq_def)

lemma stricmp_eq_sym: "stricmp_eq a b \<Longrightarrow> stricmp_eq b a"
  by (simp add: stricmp_eq_def)

section \<open>Machines with an invariant\<close>

text \<open>
  A component that handles one event after another: the invariant of one step, under the
  condition \<open>ok\<close> on the event, is lifted to every run once and for all.
\<close>

locale machine =
  fixes step :: "'s \<Rightarrow> 'e \<Rightarrow> 's"
    and ok :: "'s \<Rightarrow> 'e \<Rightarrow> bool"
    and inv :: "'s \<Rightarrow> bool"
  assumes step_inv: "inv s \<Longrightarrow> ok s e \<Longrightarrow> inv (step s e)"
begin

fun run :: "'s \<Rightarrow> 'e list \<Rightarrow> 's" where
  "run s [] = s"
| "run s (e # es) = run (step s e) es"

fun run_ok :: "'s \<Rightarrow> 'e list \<Rightarrow> bool" where
  "run_ok s [] \<longleftrightarrow> True"
| "run_ok s (e # es) \<longleftrightarrow> ok s e \<and> run_ok (step s e) es"

lemma run_inv: "inv s \<Longrightarrow> run_ok s es \<Longrightarrow> inv (run s es)"
  by (induction es arbitrary: s) (auto intro: step_inv)

lemma run_append: "run s (es @ fs) = run (run s es) fs"
  by (induction es arbitrary: s) auto

end

end
