(* ===== verification/QBaseTypes.thy ===== *)
theory QBaseTypes
  imports QXPrelude
begin

text \<open>
  \<open>QX-base/qbase_common.h\<close>, \<open>qbase_errors.h\<close> and the operating system as the
  database uses it. A table descriptor is the block of bytes that the client sends, the server
  keeps and the header file stores; its members are read at the offsets that the 32-bit layout
  of \<open>Qbase_table_desc_t\<close> gives them. Files are byte strings by name. \<open>malloc\<close> answers
  from a script: a failure, or a block with arbitrary contents.
\<close>

section \<open>Result codes\<close>

datatype qerr =
    QBASE_E_OK | QBASE_E_NOCONN | QBASE_E_BUF | QBASE_E_MEM | QBASE_E_NOTSUPP
  | QBASE_E_NOTBLSEL | QBASE_E_NOTBLEXIST | QBASE_E_ALREADY | QBASE_E_TBLLOCK | QBASE_E_FEWPLOCKS
  | QBASE_E_FLTR | QBASE_E_INS | QBASE_E_NOFLD | QBASE_E_LASTROW | QBASE_E_PAGING | QBASE_E_PKEY

primrec qcode :: "qerr \<Rightarrow> nat" where
  "qcode QBASE_E_OK = 0" | "qcode QBASE_E_NOCONN = 1" | "qcode QBASE_E_BUF = 2"
| "qcode QBASE_E_MEM = 3" | "qcode QBASE_E_NOTSUPP = 4" | "qcode QBASE_E_NOTBLSEL = 5"
| "qcode QBASE_E_NOTBLEXIST = 6" | "qcode QBASE_E_ALREADY = 7" | "qcode QBASE_E_TBLLOCK = 8"
| "qcode QBASE_E_FEWPLOCKS = 9" | "qcode QBASE_E_FLTR = 10" | "qcode QBASE_E_INS = 11"
| "qcode QBASE_E_NOFLD = 12" | "qcode QBASE_E_LASTROW = 13" | "qcode QBASE_E_PAGING = 14"
| "qcode QBASE_E_PKEY = 15"

text \<open>What ends the server instead of a reply: a machine trap, or an access that the C
  program has no right to make.\<close>

datatype crash = DivideError | NullPointer | OutOfBounds | Uninitialised | BrokenChain | UseAfterFree

datatype 'a outcome = Ok 'a | Crash crash

primrec bindo :: "'a outcome \<Rightarrow> ('a \<Rightarrow> 'b outcome) \<Rightarrow> 'b outcome" where
  "bindo (Ok x) f = f x"
| "bindo (Crash c) f = Crash c"

lemma bindo_Ok_iff: "bindo m f = Ok y \<longleftrightarrow> (\<exists>x. m = Ok x \<and> f x = Ok y)"
  by (cases m) auto

lemma bindo_cong [fundef_cong]:
  "m = m' \<Longrightarrow> (\<And>x. m' = Ok x \<Longrightarrow> f x = g x) \<Longrightarrow> bindo m f = bindo m' g"
  by (cases m') auto

section \<open>Table and field descriptors\<close>

type_synonym desc = bytes

definition QBASE_TAB_NAMELEN :: nat where "QBASE_TAB_NAMELEN = 32"
definition sizeof_table_desc :: nat where "sizeof_table_desc = 80"
definition sizeof_field_desc :: nat where "sizeof_field_desc = 12"

definition td_Version :: "desc \<Rightarrow> nat" where "td_Version d = unat (get32 d 0)"
definition td_Size :: "desc \<Rightarrow> nat" where "td_Size d = unat (get32 d 4)"
definition td_Name :: "desc \<Rightarrow> bytes" where "td_Name d = take 32 (drop 8 d)"
definition td_NameTerm :: "desc \<Rightarrow> nat" where "td_NameTerm d = unat (get32 d 40)"
definition FieldNum :: "desc \<Rightarrow> nat" where "FieldNum d = unat (get32 d 44)"
definition RowLen :: "desc \<Rightarrow> nat" where "RowLen d = unat (get32 d 48)"
definition RefCounter :: "desc \<Rightarrow> nat" where "RefCounter d = unat (get32 d 52)"
definition td_Index :: "desc \<Rightarrow> nat" where "td_Index d = unat (get32 d 56)"
definition PageRows :: "desc \<Rightarrow> nat" where "PageRows d = unat (get32 d 60)"
definition LockPages :: "desc \<Rightarrow> nat" where "LockPages d = unat (get32 d 64)"

definition fd_Type :: "desc \<Rightarrow> nat \<Rightarrow> nat" where "fd_Type d j = unat (get32 d (68 + 12 * j))"
definition fd_Length :: "desc \<Rightarrow> nat \<Rightarrow> nat" where "fd_Length d j = unat (get32 d (72 + 12 * j))"
definition fd_Offset :: "desc \<Rightarrow> nat \<Rightarrow> nat" where "fd_Offset d j = unat (get32 d (76 + 12 * j))"

definition set_Index :: "desc \<Rightarrow> nat \<Rightarrow> desc" where "set_Index d n = put32 d 56 (word_of_nat n)"

text \<open>The name with the terminator that \<open>NameTerm\<close> provides, as a C string.\<close>

definition td_cname :: "desc \<Rightarrow> bytes" where "td_cname d = cstr (drop 8 d)"

definition QBASE_TYPE_UINT :: nat where "QBASE_TYPE_UINT = 0"
definition QBASE_TYPE_INT :: nat where "QBASE_TYPE_INT = 1"
definition QBASE_TYPE_UINT16 :: nat where "QBASE_TYPE_UINT16 = 2"
definition QBASE_TYPE_INT16 :: nat where "QBASE_TYPE_INT16 = 3"
definition QBASE_TYPE_DOUBLE :: nat where "QBASE_TYPE_DOUBLE = 4"
definition QBASE_TYPE_TIMESTAMP :: nat where "QBASE_TYPE_TIMESTAMP = 5"
definition QBASE_TYPE_BINARY :: nat where "QBASE_TYPE_BINARY = 6"
definition QBASE_TYPE_STRING :: nat where "QBASE_TYPE_STRING = 7"
definition QBASE_TYPE_VARLEN :: nat where "QBASE_TYPE_VARLEN = 6"

lemmas qbase_type_defs = QBASE_TYPE_UINT_def QBASE_TYPE_INT_def QBASE_TYPE_UINT16_def
  QBASE_TYPE_INT16_def QBASE_TYPE_DOUBLE_def QBASE_TYPE_TIMESTAMP_def QBASE_TYPE_BINARY_def
  QBASE_TYPE_STRING_def QBASE_TYPE_VARLEN_def

datatype update_op = U_NONE | U_SET | U_ADD | U_SUB | U_MUL | U_DIV | U_OTHER

definition update_op_of :: "byte \<Rightarrow> update_op" where
  "update_op_of b = (if b = 0 then U_NONE else if b = 1 then U_SET else if b = 2 then U_ADD
     else if b = 3 then U_SUB else if b = 4 then U_MUL else if b = 5 then U_DIV else U_OTHER)"

lemmas desc_defs = td_Version_def td_Size_def td_Name_def td_NameTerm_def FieldNum_def RowLen_def
  RefCounter_def td_Index_def PageRows_def LockPages_def fd_Type_def fd_Length_def fd_Offset_def

lemma length_set_Index [simp]: "length (set_Index d n) = length d"
  by (simp add: set_Index_def codec_simps)

lemma set_Index_frame [simp]:
  "td_Size (set_Index d n) = td_Size d" "FieldNum (set_Index d n) = FieldNum d"
  "RowLen (set_Index d n) = RowLen d" "PageRows (set_Index d n) = PageRows d"
  "LockPages (set_Index d n) = LockPages d" "fd_Type (set_Index d n) j = fd_Type d j"
  "fd_Length (set_Index d n) j = fd_Length d j" "fd_Offset (set_Index d n) j = fd_Offset d j"
  by (simp_all add: desc_defs set_Index_def codec_simps)

lemma td_Index_set [simp]: "60 \<le> length d \<Longrightarrow> td_Index (set_Index d n) = w32 n"
  by (simp add: td_Index_def set_Index_def codec_simps unat_of_nat w32_def take_bit_eq_mod)

lemma desc_bounds: "RowLen d < 4294967296" "PageRows d < 4294967296" "td_Index d < 4294967296"
  using unsigned_less [of "get32 d 48"] unsigned_less [of "get32 d 60"] unsigned_less [of "get32 d 56"]
  by (simp_all add: desc_defs)

section \<open>Files\<close>

type_synonym disk = "bytes \<Rightarrow> bytes option"

text \<open>A descriptor variable of the server: zero where none was opened, minus one where
  \<open>open\<close> failed, or a file.\<close>

datatype fdesc = NoFile | BadFile | File bytes

definition os_open :: "disk \<Rightarrow> bytes \<Rightarrow> fdesc" where
  "os_open fs name = (if fs name = None then BadFile else File name)"

definition os_create :: "disk \<Rightarrow> bytes \<Rightarrow> disk" where
  "os_create fs name = fs(name \<mapsto> [])"

definition pwrite :: "bytes \<Rightarrow> nat \<Rightarrow> bytes \<Rightarrow> bytes" where
  "pwrite f off bs = take off (f @ replicate (off - length f) 0) @ bs @ drop (off + length bs) f"

text \<open>\<open>lseek (fd, off, SEEK_SET)\<close> then \<open>write\<close>; \<open>lseek\<close> then \<open>read\<close> of
  \<open>length old\<close> bytes into a buffer that holds \<open>old\<close>.\<close>

definition os_write :: "disk \<Rightarrow> fdesc \<Rightarrow> nat \<Rightarrow> bytes \<Rightarrow> disk" where
  "os_write fs f off bs = (case f of
     File name \<Rightarrow> (case fs name of Some c \<Rightarrow> fs(name \<mapsto> pwrite c off bs) | None \<Rightarrow> fs)
   | _ \<Rightarrow> fs)"

definition os_read :: "disk \<Rightarrow> fdesc \<Rightarrow> nat \<Rightarrow> bytes \<Rightarrow> bytes" where
  "os_read fs f off old = (case f of
     File name \<Rightarrow> (case fs name of
         Some c \<Rightarrow> (let got = take (length old) (drop off c) in got @ drop (length got) old)
       | None \<Rightarrow> old)
   | _ \<Rightarrow> old)"

definition os_size :: "disk \<Rightarrow> fdesc \<Rightarrow> nat" where
  "os_size fs f = (case f of File name \<Rightarrow> (case fs name of Some c \<Rightarrow> length c | None \<Rightarrow> 0) | _ \<Rightarrow> 0)"

lemma length_os_read [simp]: "length (os_read fs f off old) = length old"
  by (auto simp: os_read_def Let_def split: fdesc.split option.split)

lemma length_pwrite: "length (pwrite f off bs) = max (length f) (off + length bs)"
  by (auto simp: pwrite_def)

lemma pwrite_slice: "take (length bs) (drop off (pwrite f off bs)) = bs"
  by (simp add: pwrite_def)

lemma nth_pwrite:
  "i < length f \<Longrightarrow> i < off \<or> off + length bs \<le> i \<Longrightarrow> pwrite f off bs ! i = f ! i"
  by (auto simp: pwrite_def nth_append min_def)

lemma pwrite_other:
  assumes "a + n \<le> off \<or> off + length bs \<le> a" "a + n \<le> length f"
  shows "take n (drop a (pwrite f off bs)) = take n (drop a f)"
proof (rule nth_equalityI)
  show "length (take n (drop a (pwrite f off bs))) = length (take n (drop a f))"
    using assms(2) by (simp add: length_pwrite)
next
  fix i assume "i < length (take n (drop a (pwrite f off bs)))"
  then have "i < n" by simp
  with assms show "take n (drop a (pwrite f off bs)) ! i = take n (drop a f) ! i"
    by (auto simp: nth_pwrite length_pwrite)
qed

section \<open>Memory\<close>

record world =
  w_disk :: disk
  w_mem :: "bytes option list"

definition malloc :: "nat \<Rightarrow> world \<Rightarrow> bytes option \<times> world" where
  "malloc n w = (case w_mem w of
     [] \<Rightarrow> (Some (replicate n 0), w)
   | None # ms \<Rightarrow> (None, w\<lparr>w_mem := ms\<rparr>)
   | Some junk # ms \<Rightarrow> (Some (take n (junk @ replicate n 0)), w\<lparr>w_mem := ms\<rparr>))"

lemma malloc_disk [simp]: "w_disk (snd (malloc n w)) = w_disk w"
  by (simp add: malloc_def split: list.split option.split)

lemma malloc_length: "malloc n w = (Some b, w') \<Longrightarrow> length b = n"
  by (auto simp: malloc_def split: list.splits option.splits)

lemma malloc_disk_eq: "malloc n w = (r, w') \<Longrightarrow> w_disk w' = w_disk w"
  using malloc_disk [of n w] by simp

section \<open>A sample descriptor\<close>

text \<open>The table \<open>t\<close> with the key and one 16-bit column, two rows per page and three
  pages in memory; the closed examples of the following theories use it.\<close>

definition demo_desc :: desc where
  "demo_desc = [1, 0, 0, 0, 92, 0, 0, 0,
     116, 0, 0, 0, 0, 0, 0, 0, 0, 0, 0, 0, 0, 0, 0, 0, 0, 0, 0, 0, 0, 0, 0, 0, 0, 0, 0, 0, 0, 0, 0, 0,
     0, 0, 0, 0, 2, 0, 0, 0, 6, 0, 0, 0, 0, 0, 0, 0, 0, 0, 0, 0, 2, 0, 0, 0, 3, 0, 0, 0,
     0, 0, 0, 0, 4, 0, 0, 0, 0, 0, 0, 0, 2, 0, 0, 0, 2, 0, 0, 0, 4, 0, 0, 0]"

lemma demo_desc_facts [simp]:
  "FieldNum demo_desc = 2" "RowLen demo_desc = 6" "PageRows demo_desc = 2"
  "LockPages demo_desc = 3" "td_Index demo_desc = 0" "td_Size demo_desc = 92"
  "fd_Offset demo_desc 0 = 0" "fd_Offset demo_desc (Suc 0) = 4"
  "fd_Type demo_desc 0 = 0" "fd_Type demo_desc (Suc 0) = 2"
  "fd_Length demo_desc 0 = 4" "fd_Length demo_desc (Suc 0) = 2" "length demo_desc = 92"
  by (simp_all add: desc_defs demo_desc_def get32_def)

end
