(* ===== verification/QBaseFilter.thy ===== *)
theory QBaseFilter
  imports QBaseTypes "HOL-Library.Signed_Division"
begin

text \<open>
  \<open>QX-base/qbase_filterfunc.c\<close> (the comparison of one field with the value of a filter
  rule, by field type), \<open>Qbase_data_filter\<close> (the rules of a connection applied to a row)
  and the update engine of \<open>QBASE_CMD_UPDATE\<close> for one row. A comparison or an update that
  reaches outside the row or outside the message has no result. \<open>double\<close> values are their
  eight bytes, and the floating-point unit is a parameter, as is the magnitude of what
  \<open>memcmp\<close> and \<open>memicmp\<close> return, of which C fixes only the sign.
\<close>

section \<open>The environment of the comparison functions\<close>

record cenv =
  cmp_magnitude :: "bytes \<Rightarrow> bytes \<Rightarrow> nat"
  fpu_eq :: "bytes \<Rightarrow> bytes \<Rightarrow> bool"
  fpu_gt :: "bytes \<Rightarrow> bytes \<Rightarrow> bool"
  fpu_lt :: "bytes \<Rightarrow> bytes \<Rightarrow> bool"
  fpu_add :: "bytes \<Rightarrow> bytes \<Rightarrow> bytes"
  fpu_sub :: "bytes \<Rightarrow> bytes \<Rightarrow> bytes"
  fpu_mul :: "bytes \<Rightarrow> bytes \<Rightarrow> bytes"
  fpu_div :: "bytes \<Rightarrow> bytes \<Rightarrow> bytes"

fun memcmp_sign :: "bytes \<Rightarrow> bytes \<Rightarrow> int" where
  "memcmp_sign (x # xs) (y # ys) = (if x < y then - 1 else if y < x then 1 else memcmp_sign xs ys)"
| "memcmp_sign _ _ = 0"

definition memcmp :: "cenv \<Rightarrow> bytes \<Rightarrow> bytes \<Rightarrow> int" where
  "memcmp e a b = memcmp_sign a b * (1 + int (cmp_magnitude e a b))"

definition memicmp :: "cenv \<Rightarrow> bytes \<Rightarrow> bytes \<Rightarrow> int" where
  "memicmp e a b = memcmp e (map c_toupper a) (map c_toupper b)"

section \<open>Filter rules\<close>

record Qbase_filter =
  Flags :: u32
  FNum :: nat
  Field :: nat
  FSize :: nat
  VSize :: nat
  cmp_func :: nat
  Value :: bytes

definition Q_CMP_EQ :: u32 where "Q_CMP_EQ = 1"
definition Q_CMP_G :: u32 where "Q_CMP_G = 2"
definition Q_CMP_L :: u32 where "Q_CMP_L = 4"
definition Q_CMP_INCL :: u32 where "Q_CMP_INCL = 8"
definition Q_CMP_CEQ :: u32 where "Q_CMP_CEQ = 16"
definition Q_CMP_CG :: u32 where "Q_CMP_CG = 32"
definition Q_CMP_CL :: u32 where "Q_CMP_CL = 64"
definition Q_CMP_STRICT :: u32 where "Q_CMP_STRICT = 0x80000000"

lemmas q_cmp_defs = Q_CMP_EQ_def Q_CMP_G_def Q_CMP_L_def Q_CMP_INCL_def Q_CMP_CEQ_def
  Q_CMP_CG_def Q_CMP_CL_def Q_CMP_STRICT_def

definition flag :: "Qbase_filter \<Rightarrow> u32 \<Rightarrow> bool" where
  "flag c m \<longleftrightarrow> Flags c AND m \<noteq> 0"

text \<open>Reads of the value and of the field, which may lie outside what was allocated.\<close>

definition slice :: "bytes \<Rightarrow> nat \<Rightarrow> nat \<Rightarrow> bytes option" where
  "slice bs off n = (if off + n \<le> length bs then Some (take n (drop off bs)) else None)"

definition rd16 :: "bytes \<Rightarrow> nat \<Rightarrow> u16 option" where
  "rd16 bs off = map_option (\<lambda>s. get16 s 0) (slice bs off 2)"

definition rd32 :: "bytes \<Rightarrow> nat \<Rightarrow> u32 option" where
  "rd32 bs off = map_option (\<lambda>s. get32 s 0) (slice bs off 4)"

definition ordered :: "Qbase_filter \<Rightarrow> bool \<Rightarrow> bool \<Rightarrow> bool \<Rightarrow> bool" where
  "ordered c eq gt lt \<longleftrightarrow>
     (if flag c Q_CMP_EQ \<and> eq then True
      else if flag c Q_CMP_G \<and> gt then True
      else if flag c Q_CMP_L \<and> lt then True else False)"

definition Qbase_filter_uint16 :: "cenv \<Rightarrow> Qbase_filter \<Rightarrow> bytes \<Rightarrow> bool option" where
  "Qbase_filter_uint16 e c row = (case (rd16 (Value c) 0, rd16 row (Field c)) of
     (Some v, Some f) \<Rightarrow> Some (ordered c (f = v) (f > v) (f < v)) | _ \<Rightarrow> None)"

definition Qbase_filter_int16 :: "cenv \<Rightarrow> Qbase_filter \<Rightarrow> bytes \<Rightarrow> bool option" where
  "Qbase_filter_int16 e c row = (case (rd16 (Value c) 0, rd16 row (Field c)) of
     (Some v, Some f) \<Rightarrow> Some (ordered c (f = v) (sint f > sint v) (sint f < sint v)) | _ \<Rightarrow> None)"

definition Qbase_filter_uint :: "cenv \<Rightarrow> Qbase_filter \<Rightarrow> bytes \<Rightarrow> bool option" where
  "Qbase_filter_uint e c row = (case (rd32 (Value c) 0, rd32 row (Field c)) of
     (Some v, Some f) \<Rightarrow> Some (ordered c (f = v) (f > v) (f < v)) | _ \<Rightarrow> None)"

definition Qbase_filter_int :: "cenv \<Rightarrow> Qbase_filter \<Rightarrow> bytes \<Rightarrow> bool option" where
  "Qbase_filter_int e c row = (case (rd32 (Value c) 0, rd32 row (Field c)) of
     (Some v, Some f) \<Rightarrow> Some (ordered c (f = v) (sint f > sint v) (sint f < sint v)) | _ \<Rightarrow> None)"

definition Qbase_filter_double :: "cenv \<Rightarrow> Qbase_filter \<Rightarrow> bytes \<Rightarrow> bool option" where
  "Qbase_filter_double e c row = (case (slice (Value c) 0 8, slice row (Field c) 8) of
     (Some v, Some f) \<Rightarrow> Some (ordered c (fpu_eq e f v) (fpu_gt e f v) (fpu_lt e f v)) | _ \<Rightarrow> None)"

text \<open>\<open>tv_sec\<close>, an unsigned 32-bit count on this platform, is the first member.\<close>

definition Qbase_filter_timestamp :: "cenv \<Rightarrow> Qbase_filter \<Rightarrow> bytes \<Rightarrow> bool option" where
  "Qbase_filter_timestamp e c row = (case (rd32 (Value c) 0, rd32 row (Field c)) of
     (Some v, Some f) \<Rightarrow> Some (ordered c (f = v) (f > v) (f < v)) | _ \<Rightarrow> None)"

definition Qbase_filter_binary :: "cenv \<Rightarrow> Qbase_filter \<Rightarrow> bytes \<Rightarrow> bool option" where
  "Qbase_filter_binary e c row =
     (if FSize c \<noteq> VSize c then Some False
      else if flag c Q_CMP_EQ then
        (case (slice row (Field c) (FSize c), slice (Value c) 0 (FSize c)) of
           (Some f, Some v) \<Rightarrow> Some (1 = memcmp e f v) | _ \<Rightarrow> None)
      else Some False)"

definition Qbase_filter_string :: "cenv \<Rightarrow> Qbase_filter \<Rightarrow> bytes \<Rightarrow> bool option" where
  "Qbase_filter_string e c row =
     (let n = min (FSize c) (VSize c)
      in case (slice row (Field c) n, slice (Value c) 0 n) of
           (Some f, Some v) \<Rightarrow> Some (
              if flag c Q_CMP_EQ \<and> FSize c = VSize c \<and> 0 = memcmp e f v then True
              else if flag c Q_CMP_CEQ \<and> FSize c = VSize c \<and> 0 = memicmp e f v then True
              else if flag c Q_CMP_G \<and> 0 < memcmp e f v then True
              else if flag c Q_CMP_CG \<and> 0 < memicmp e f v then True
              else if flag c Q_CMP_L \<and> 0 > memcmp e f v then True
              else if flag c Q_CMP_CL \<and> 0 < memicmp e f v then True
              else False)
         | _ \<Rightarrow> None)"

definition FFUNCS :: "cenv \<Rightarrow> (Qbase_filter \<Rightarrow> bytes \<Rightarrow> bool option) list" where
  "FFUNCS e = [Qbase_filter_uint e, Qbase_filter_int e, Qbase_filter_uint16 e,
     Qbase_filter_int16 e, Qbase_filter_double e, Qbase_filter_timestamp e,
     Qbase_filter_binary e, Qbase_filter_string e]"

section \<open>The rules of a connection\<close>

datatype verdict = Match | NoMatch | StrictBroken

fun apply_rules :: "cenv \<Rightarrow> Qbase_filter list \<Rightarrow> bytes \<Rightarrow> verdict outcome" where
  "apply_rules e [] row = Ok Match"
| "apply_rules e (c # cs) row =
     (case (FFUNCS e ! cmp_func c) c row of
        None \<Rightarrow> Crash OutOfBounds
      | Some True \<Rightarrow> apply_rules e cs row
      | Some False \<Rightarrow> Ok (if flag c Q_CMP_STRICT then StrictBroken else NoMatch))"

definition Qbase_data_filter :: "cenv \<Rightarrow> Qbase_filter list \<Rightarrow> bytes \<Rightarrow> verdict outcome" where
  "Qbase_data_filter e fs row =
     (case rd32 row 0 of
        None \<Rightarrow> Crash OutOfBounds
      | Some key \<Rightarrow> if key = 0 then Ok NoMatch else apply_rules e fs row)"

section \<open>Updating one row\<close>

definition upd_uint :: "update_op \<Rightarrow> u32 \<Rightarrow> u32 \<Rightarrow> u32 outcome" where
  "upd_uint op u v = (case op of
     U_SET \<Rightarrow> Ok v | U_ADD \<Rightarrow> Ok (u + v) | U_SUB \<Rightarrow> Ok (u - v)
   | U_DIV \<Rightarrow> (if v = 0 then Crash DivideError else Ok (u div v))
   | U_MUL \<Rightarrow> Ok (u * v) | _ \<Rightarrow> Ok u)"

definition upd_int :: "update_op \<Rightarrow> u32 \<Rightarrow> u32 \<Rightarrow> u32 outcome" where
  "upd_int op u v = (case op of
     U_SET \<Rightarrow> Ok v | U_ADD \<Rightarrow> Ok (u + v) | U_SUB \<Rightarrow> Ok (u - v)
   | U_DIV \<Rightarrow> (if v = 0 \<or> (sint u = - 2147483648 \<and> sint v = - 1) then Crash DivideError
               else Ok (word_of_int (sint u sdiv sint v)))
   | U_MUL \<Rightarrow> Ok (u * v) | _ \<Rightarrow> Ok u)"

definition upd_uint16 :: "update_op \<Rightarrow> u16 \<Rightarrow> u16 \<Rightarrow> u16 outcome" where
  "upd_uint16 op u v = (case op of
     U_SET \<Rightarrow> Ok v | U_ADD \<Rightarrow> Ok (u + v) | U_SUB \<Rightarrow> Ok (u - v)
   | U_DIV \<Rightarrow> (if v = 0 then Crash DivideError else Ok (u div v))
   | U_MUL \<Rightarrow> Ok (u * v) | _ \<Rightarrow> Ok u)"

definition upd_int16 :: "update_op \<Rightarrow> u16 \<Rightarrow> u16 \<Rightarrow> u16 outcome" where
  "upd_int16 op u v = (case op of
     U_SET \<Rightarrow> Ok v | U_ADD \<Rightarrow> Ok (u + v) | U_SUB \<Rightarrow> Ok (u - v)
   | U_DIV \<Rightarrow> (if v = 0 then Crash DivideError else Ok (word_of_int (sint u sdiv sint v)))
   | U_MUL \<Rightarrow> Ok (u * v) | _ \<Rightarrow> Ok u)"

definition upd_double :: "cenv \<Rightarrow> update_op \<Rightarrow> bytes \<Rightarrow> bytes \<Rightarrow> bytes" where
  "upd_double e op u v = (case op of
     U_SET \<Rightarrow> v | U_ADD \<Rightarrow> fpu_add e u v | U_SUB \<Rightarrow> fpu_sub e u v
   | U_DIV \<Rightarrow> fpu_div e u v | U_MUL \<Rightarrow> fpu_mul e u v | _ \<Rightarrow> u)"

text \<open>The new bytes of a field of type \<open>ty\<close> that held \<open>u\<close>, from the bytes \<open>v\<close>
  of the update header.\<close>

definition new_field :: "cenv \<Rightarrow> nat \<Rightarrow> update_op \<Rightarrow> bytes \<Rightarrow> bytes \<Rightarrow> bytes outcome" where
  "new_field e ty op u v =
     (if ty = QBASE_TYPE_UINT then
        bindo (upd_uint op (get32 u 0) (get32 v 0)) (\<lambda>x. Ok (put32 u 0 x))
      else if ty = QBASE_TYPE_INT then
        bindo (upd_int op (get32 u 0) (get32 v 0)) (\<lambda>x. Ok (put32 u 0 x))
      else if ty = QBASE_TYPE_UINT16 then
        bindo (upd_uint16 op (get16 u 0) (get16 v 0)) (\<lambda>x. Ok (put16 u 0 x))
      else if ty = QBASE_TYPE_INT16 then
        bindo (upd_int16 op (get16 u 0) (get16 v 0)) (\<lambda>x. Ok (put16 u 0 x))
      else if ty = QBASE_TYPE_DOUBLE then Ok (upd_double e op u v)
      else if op = U_SET then Ok v else Ok u)"

text \<open>How many bytes the update of a field reads and writes: fixed by the type of a number,
  the field length otherwise.\<close>

definition field_width :: "desc \<Rightarrow> nat \<Rightarrow> nat" where
  "field_width d j =
     (let ty = fd_Type d j in
      if ty = QBASE_TYPE_UINT \<or> ty = QBASE_TYPE_INT then 4
      else if ty = QBASE_TYPE_UINT16 \<or> ty = QBASE_TYPE_INT16 then 2
      else if ty = QBASE_TYPE_DOUBLE then 8 else fd_Length d j)"

text \<open>The branches of the update switch that touch the row: the five operations on a number,
  assignment on everything else.\<close>

definition touches :: "nat \<Rightarrow> update_op \<Rightarrow> bool" where
  "touches ty op \<longleftrightarrow> op = U_SET \<or>
     (ty \<le> QBASE_TYPE_DOUBLE \<and> op \<in> {U_ADD, U_SUB, U_MUL, U_DIV})"

definition update_field :: "cenv \<Rightarrow> desc \<Rightarrow> bytes \<Rightarrow> nat \<Rightarrow> bytes \<Rightarrow> bytes outcome" where
  "update_field e d urule j row =
     (let op = update_op_of (urule ! j); off = fd_Offset d j; w = field_width d j in
      if \<not> touches (fd_Type d j) op then Ok row
      else case (slice row off w, slice urule (FieldNum d + off) w) of
          (Some u, Some v) \<Rightarrow> bindo (new_field e (fd_Type d j) op u v) (\<lambda>x. Ok (blit row off x))
        | _ \<Rightarrow> Crash OutOfBounds)"

fun update_fields :: "cenv \<Rightarrow> desc \<Rightarrow> bytes \<Rightarrow> nat list \<Rightarrow> bytes \<Rightarrow> bytes outcome" where
  "update_fields e d urule [] row = Ok row"
| "update_fields e d urule (j # js) row =
     bindo (update_field e d urule j row) (update_fields e d urule js)"

definition update_row :: "cenv \<Rightarrow> desc \<Rightarrow> bytes \<Rightarrow> bytes \<Rightarrow> bytes outcome" where
  "update_row e d urule row = update_fields e d urule [0..<FieldNum d] row"

section \<open>Properties of the comparisons\<close>

lemma memcmp_sign_refl [simp]: "memcmp_sign a a = 0"
  by (induction a) auto

lemma memcmp_sign_eq: "length a = length b \<Longrightarrow> memcmp_sign a b = 0 \<longleftrightarrow> a = b"
  by (induction a b rule: list_induct2) auto

lemma memcmp_sign_swap: "length a = length b \<Longrightarrow> memcmp_sign b a = - memcmp_sign a b"
  by (induction a b rule: list_induct2) auto

lemma memcmp_zero [simp]: "memcmp e a b = 0 \<longleftrightarrow> memcmp_sign a b = 0"
  by (simp add: memcmp_def)

lemma memcmp_pos [simp]: "0 < memcmp e a b \<longleftrightarrow> 0 < memcmp_sign a b"
  by (simp add: memcmp_def zero_less_mult_iff)

lemma slice_Some_iff: "slice bs off n = Some s \<longleftrightarrow> off + n \<le> length bs \<and> s = take n (drop off bs)"
  by (auto simp: slice_def)

lemma slice_length: "slice bs off n = Some s \<Longrightarrow> length s = n"
  by (auto simp: slice_def split: if_splits)

lemma slice_cong:
  assumes "length row' = length row"
    and "\<And>k. o' \<le> k \<Longrightarrow> k < o' + n \<Longrightarrow> row' ! k = row ! k"
  shows "slice row' o' n = slice row o' n"
proof (cases "o' + n \<le> length row")
  case True
  with assms have "take n (drop o' row') = take n (drop o' row)"
    by (intro nth_equalityI) auto
  with assms(1) show ?thesis by (simp add: slice_def)
qed (use assms(1) in \<open>simp add: slice_def\<close>)

text \<open>Which verdict a row gets from rules that can all be evaluated.\<close>

lemma apply_rules_verdict:
  assumes "\<forall>c \<in> set fs. (FFUNCS e ! cmp_func c) c row = Some (holds c)"
  shows "apply_rules e fs row = Ok (case dropWhile holds fs of
    [] \<Rightarrow> Match | c # _ \<Rightarrow> if flag c Q_CMP_STRICT then StrictBroken else NoMatch)"
  using assms by (induction fs) auto

lemma apply_rules_Match:
  "apply_rules e fs row = Ok Match \<longleftrightarrow> (\<forall>c \<in> set fs. (FFUNCS e ! cmp_func c) c row = Some True)"
  by (induction fs) (auto split: option.splits bool.splits)

text \<open>The rule "equal" on a binary field never accepts a record whose field is the value
  of the rule: the result of \<open>memcmp\<close> is compared with 1 instead of 0.\<close>

theorem binary_equal_never_matches:
  assumes "VSize c = FSize c" "slice row (Field c) (FSize c) = Some f"
    and "slice (Value c) 0 (FSize c) = Some f"
  shows "Qbase_filter_binary e c row = Some False"
  using assms by (simp add: Qbase_filter_binary_def memcmp_def)

text \<open>For a string rule the flag "lower, ignoring case" accepts exactly the records that
  the flag "greater, ignoring case" accepts; a record that is lower is rejected.\<close>

theorem string_lower_ignoring_case_is_greater:
  assumes "Flags c = Q_CMP_CL" "n = min (FSize c) (VSize c)"
    and "slice row (Field c) n = Some f" "slice (Value c) 0 n = Some v"
  shows "Qbase_filter_string e c row = Some (memcmp_sign (map c_toupper f) (map c_toupper v) > 0)"
  using assms by (simp add: Qbase_filter_string_def flag_def q_cmp_defs memicmp_def)

definition demo_cenv :: cenv where
  "demo_cenv = \<lparr>cmp_magnitude = (\<lambda>_ _. 0), fpu_eq = (=), fpu_gt = (\<lambda>_ _. False),
     fpu_lt = (\<lambda>_ _. False), fpu_add = (\<lambda>a b. a), fpu_sub = (\<lambda>a b. a), fpu_mul = (\<lambda>a b. a),
     fpu_div = (\<lambda>a b. a)\<rparr>"

theorem binary_equal_never_matches_witness:
  "Qbase_filter_binary demo_cenv \<lparr>Flags = Q_CMP_EQ, FNum = 1, Field = 4, FSize = 2, VSize = 2,
     cmp_func = 6, Value = [7, 8]\<rparr> [1, 0, 0, 0, 7, 8] = Some False"
  by (rule binary_equal_never_matches [where f = "[7, 8]"]) (simp_all add: slice_def)

theorem string_lower_ignoring_case_is_greater_witness:
  "Qbase_filter_string demo_cenv \<lparr>Flags = Q_CMP_CL, FNum = 1, Field = 4, FSize = 2, VSize = 2,
     cmp_func = 7, Value = [100, 0]\<rparr> [1, 0, 0, 0, 67, 0] =
   Some (memcmp_sign (map c_toupper [67, 0]) (map c_toupper [100, 0]) > 0)"
  by (rule string_lower_ignoring_case_is_greater [where n = 2]) (simp_all add: slice_def)

section \<open>Properties of the update engine\<close>

text \<open>What the floating-point unit stores is again a \<open>double\<close>: eight bytes.\<close>

definition cenv_ok :: "cenv \<Rightarrow> bool" where
  "cenv_ok e \<longleftrightarrow> (\<forall>u v. length u = 8 \<longrightarrow> length v = 8 \<longrightarrow>
     length (fpu_add e u v) = 8 \<and> length (fpu_sub e u v) = 8 \<and>
     length (fpu_mul e u v) = 8 \<and> length (fpu_div e u v) = 8)"

definition fields_disjoint :: "desc \<Rightarrow> bool" where
  "fields_disjoint d \<longleftrightarrow> (\<forall>j < FieldNum d. \<forall>k < FieldNum d. j \<noteq> k \<longrightarrow>
     fd_Offset d j + field_width d j \<le> fd_Offset d k \<or>
     fd_Offset d k + field_width d k \<le> fd_Offset d j)"

lemma length_new_field:
  assumes "new_field e ty op u v = Ok x" "cenv_ok e" "length v = length u"
    and "ty = QBASE_TYPE_DOUBLE \<Longrightarrow> length u = 8"
  shows "length x = length u"
  using assms by (auto simp: new_field_def bindo_Ok_iff codec_simps upd_double_def cenv_ok_def
      split: if_splits update_op.splits)

text \<open>The value that the update stores in field \<open>j\<close> of a row, computed from the old row.\<close>

definition updated_value :: "cenv \<Rightarrow> desc \<Rightarrow> bytes \<Rightarrow> nat \<Rightarrow> bytes \<Rightarrow> bytes option" where
  "updated_value e d urule j row =
     (let off = fd_Offset d j; w = field_width d j; op = update_op_of (urule ! j) in
      if \<not> touches (fd_Type d j) op then slice row off w
      else case (slice row off w, slice urule (FieldNum d + off) w) of
          (Some u, Some v) \<Rightarrow> (case new_field e (fd_Type d j) op u v of Ok x \<Rightarrow> Some x | Crash _ \<Rightarrow> None)
        | _ \<Rightarrow> None)"

lemma update_field_effect:
  assumes "update_field e d urule j row = Ok row'" "cenv_ok e"
  shows "length row' = length row"
    and "fd_Offset d j + field_width d j \<le> length row \<Longrightarrow>
      slice row' (fd_Offset d j) (field_width d j) = updated_value e d urule j row"
    and "k < fd_Offset d j \<or> fd_Offset d j + field_width d j \<le> k \<Longrightarrow> row' ! k = row ! k"
proof -
  let ?off = "fd_Offset d j" and ?w = "field_width d j" and ?op = "update_op_of (urule ! j)"
  have "length row' = length row \<and>
    (?off + ?w \<le> length row \<longrightarrow> slice row' ?off ?w = updated_value e d urule j row) \<and>
    (k < ?off \<or> ?off + ?w \<le> k \<longrightarrow> row' ! k = row ! k)"
  proof (cases "touches (fd_Type d j) ?op")
    case False
    with assms(1) show ?thesis by (simp add: update_field_def updated_value_def Let_def)
  next
    case True
    with assms(1) obtain u v x where u: "slice row ?off ?w = Some u"
      and v: "slice urule (FieldNum d + ?off) ?w = Some v"
      and x: "new_field e (fd_Type d j) ?op u v = Ok x" and row': "row' = blit row ?off x"
      by (auto simp: update_field_def Let_def bindo_Ok_iff split: option.splits)
    have len: "length u = ?w" "length v = ?w" using u v by (auto dest: slice_length)
    have "fd_Type d j = QBASE_TYPE_DOUBLE \<Longrightarrow> length u = 8"
      using len by (simp add: field_width_def Let_def qbase_type_defs)
    then have lx: "length x = ?w" using length_new_field [OF x assms(2)] len by simp
    have inr: "?off + ?w \<le> length row" using u by (simp add: slice_Some_iff)
    then have "slice row' ?off ?w = Some x"
      using lx by (simp add: slice_def row' length_blit slice_blit)
    moreover have "updated_value e d urule j row = Some x"
      using True u v x by (simp add: updated_value_def Let_def)
    ultimately show ?thesis using inr lx row' by (auto simp: length_blit nth_blit)
  qed
  then show "length row' = length row"
    and "?off + ?w \<le> length row \<Longrightarrow> slice row' ?off ?w = updated_value e d urule j row"
    and "k < ?off \<or> ?off + ?w \<le> k \<Longrightarrow> row' ! k = row ! k"
    by blast+
qed

lemma updated_value_cong:
  "slice row' (fd_Offset d j) (field_width d j) = slice row (fd_Offset d j) (field_width d j) \<Longrightarrow>
   updated_value e d urule j row' = updated_value e d urule j row"
  by (simp add: updated_value_def Let_def)

lemma update_fields_effect:
  assumes "update_fields e d urule js row = Ok row'" "cenv_ok e" "fields_disjoint d"
    and "distinct js" "\<forall>j \<in> set js. j < FieldNum d" "k < FieldNum d"
    and "fd_Offset d k + field_width d k \<le> length row"
  shows "length row' = length row \<and> slice row' (fd_Offset d k) (field_width d k) =
     (if k \<in> set js then updated_value e d urule k row
      else slice row (fd_Offset d k) (field_width d k))"
  using assms
proof (induction js arbitrary: row)
  case Nil
  then show ?case by simp
next
  case (Cons j js)
  then obtain r where r: "update_field e d urule j row = Ok r" "update_fields e d urule js r = Ok row'"
    by (auto simp: bindo_Ok_iff)
  note eff = update_field_effect [OF r(1) Cons.prems(2)]
  have IH: "length row' = length r \<and> slice row' (fd_Offset d k) (field_width d k) =
     (if k \<in> set js then updated_value e d urule k r else slice r (fd_Offset d k) (field_width d k))"
    using Cons.IH [OF r(2)] Cons.prems eff(1) by simp
  have same: "slice r (fd_Offset d k) (field_width d k) = slice row (fd_Offset d k) (field_width d k)"
    if "k \<noteq> j"
  proof (rule slice_cong [OF eff(1)])
    fix i assume "fd_Offset d k \<le> i" "i < fd_Offset d k + field_width d k"
    moreover have "fd_Offset d j + field_width d j \<le> fd_Offset d k \<or>
        fd_Offset d k + field_width d k \<le> fd_Offset d j"
      using that Cons.prems(3,5,6) by (auto simp: fields_disjoint_def)
    ultimately show "r ! i = row ! i" by (intro eff(3)) auto
  qed
  show ?case
  proof (cases "k = j")
    case True
    with IH eff(1,2) Cons.prems(4,7) show ?thesis by auto
  next
    case False
    with IH same [OF False] eff(1) updated_value_cong [OF same [OF False]] show ?thesis by simp
  qed
qed

text \<open>With a descriptor whose fields do not overlap, an update that does not trap changes
  every field as if it were the only one, from the values of the old row; a field without a rule
  keeps its bytes, and the row keeps its length.\<close>

theorem update_row_fieldwise:
  assumes "update_row e d urule row = Ok row'" "cenv_ok e" "fields_disjoint d"
    and "k < FieldNum d" "fd_Offset d k + field_width d k \<le> length row"
  shows "length row' = length row \<and>
    slice row' (fd_Offset d k) (field_width d k) = updated_value e d urule k row"
  using update_fields_effect [of e d urule "[0..<FieldNum d]" row row' k] assms
  by (simp add: update_row_def)

lemma demo_widths [simp]: "field_width demo_desc 0 = 4" "field_width demo_desc (Suc 0) = 2"
  by (simp_all add: field_width_def qbase_type_defs)

lemma demo_disjoint: "fields_disjoint demo_desc"
  by (auto simp: fields_disjoint_def less_Suc_eq numeral_2_eq_2)

lemma demo_cenv_ok: "cenv_ok demo_cenv"
  by (simp add: cenv_ok_def demo_cenv_def)

lemma demo_update:
  "update_row demo_cenv demo_desc [0, 2, 0, 0, 0, 0, 5, 0] [1, 0, 0, 0, 255, 0] =
   Ok [1, 0, 0, 0, 4, 1]"
  by (simp add: update_row_def upt_rec update_field_def update_op_of_def touches_def slice_def
      new_field_def upd_uint16_def get16_def put16_def blit_def qbase_type_defs)

theorem update_row_fieldwise_witness:
  "slice [1, 0, 0, 0, 4, 1] 4 2 =
   updated_value demo_cenv demo_desc [0, 2, 0, 0, 0, 0, 5, 0] 1 [1, 0, 0, 0, 255, 0]"
  using update_row_fieldwise [OF demo_update demo_cenv_ok demo_disjoint, of 1] by simp

end
