(* ===== verification/QBasePages.thy ===== *)
theory QBasePages
  imports QBaseTypes
begin

text \<open>
  \<open>QX-base/qbase_filefunc.c\<close> and the page pool of \<open>QX-base/qbase_iofunc.c\<close>. The chain of
  pages of a table is a list in the order of the \<open>Next\<close> pointers; \<open>LastPage\<close> is its last
  element, because a table starts with one page and every other page is linked in front of an
  existing one. The chain operations that would follow a null pointer, or leave a page outside the
  chain, have no result.
\<close>

section \<open>Pages and tables\<close>

record Qbase_page =
  pg_Data :: bytes
  pg_Size :: nat
  pg_Index :: nat
  pg_LastRow :: nat
  pg_NeedSync :: bool

record Qbase_table =
  Table :: desc
  Pages :: "Qbase_page list"
  locks :: nat
  PLocks :: nat
  HFile :: fdesc
  DFile :: fdesc

abbreviation LastPage :: "Qbase_table \<Rightarrow> Qbase_page" where
  "LastPage t \<equiv> last (Pages t)"

text \<open>\<open>RowLen * PageRows\<close> as the 32-bit product that the code stores as the page size.\<close>

definition page_size :: "desc \<Rightarrow> nat" where
  "page_size d = w32 (RowLen d * PageRows d)"

section \<open>Writing to disk\<close>

definition Qbase_PageSync :: "Qbase_page \<Rightarrow> fdesc \<Rightarrow> disk \<Rightarrow> Qbase_page \<times> disk" where
  "Qbase_PageSync p f fs =
     (if pg_NeedSync p
      then (p\<lparr>pg_NeedSync := False\<rparr>, os_write fs f (w32 (pg_Size p * pg_Index p)) (pg_Data p))
      else (p, fs))"

definition Qbase_HeadSync :: "Qbase_table \<Rightarrow> disk \<Rightarrow> disk" where
  "Qbase_HeadSync t fs = os_write fs (HFile t) 0 (take (td_Size (Table t)) (Table t))"

fun sync_pages :: "Qbase_page list \<Rightarrow> fdesc \<Rightarrow> disk \<Rightarrow> Qbase_page list \<times> disk" where
  "sync_pages [] f fs = ([], fs)"
| "sync_pages (p # ps) f fs =
     (let (p', fs) = Qbase_PageSync p f fs; (ps', fs) = sync_pages ps f fs in (p' # ps', fs))"

definition Qbase_TableSync :: "Qbase_table \<Rightarrow> disk \<Rightarrow> Qbase_table \<times> disk" where
  "Qbase_TableSync t fs =
     (let fs = (if HFile t \<noteq> NoFile then Qbase_HeadSync t fs else fs)
      in if DFile t \<noteq> NoFile
         then let (ps, fs) = sync_pages (Pages t) (DFile t) fs in (t\<lparr>Pages := ps\<rparr>, fs)
         else (t, fs))"

section \<open>Bringing a page into memory\<close>

datatype lock_status = Locked nat | NoPage | PagingFailed

text \<open>Where the search stops: at the first page whose index is not smaller.\<close>

fun page_scan :: "nat \<Rightarrow> Qbase_page list \<Rightarrow> nat" where
  "page_scan n [] = 0"
| "page_scan n (p # ps) =
     (if pg_Index p = n then 0 else if pg_Index p > n then 0 else Suc (page_scan n ps))"

definition load_page :: "Qbase_table \<Rightarrow> disk \<Rightarrow> nat \<Rightarrow> Qbase_page \<Rightarrow> Qbase_page" where
  "load_page t fs n p =
     p\<lparr>pg_Index := n, pg_NeedSync := False, pg_LastRow := PageRows (Table t),
       pg_Data := os_read fs (DFile t) (w32 (n * pg_Size p)) (pg_Data p)\<rparr>"

definition insert_at :: "nat \<Rightarrow> 'a \<Rightarrow> 'a list \<Rightarrow> 'a list" where
  "insert_at i x xs = take i xs @ x # drop i xs"

definition LockTablePage ::
    "Qbase_table \<Rightarrow> world \<Rightarrow> nat \<Rightarrow> (lock_status \<times> Qbase_table \<times> world) outcome" where
  "LockTablePage t w n =
     (let ps = Pages t; i = page_scan n ps in
      if length ps \<le> i then Ok (NoPage, t, w)
      else if pg_Index (ps ! i) = n then Ok (Locked i, t, w)
      else if LockPages (Table t) \<le> PLocks t then
        if Suc i = length ps then
          (case ps of
             p0 # q # rest \<Rightarrow>
               if rest = [] then Crash BrokenChain
               else let (p0', fs) = Qbase_PageSync p0 (DFile t) (w_disk w);
                        ps' = butlast (q # rest) @ [load_page t fs n p0', last rest]
                    in Ok (Locked (length ps - 2), t\<lparr>Pages := ps'\<rparr>, w\<lparr>w_disk := fs\<rparr>)
           | _ \<Rightarrow> Crash NullPointer)
        else Ok (Locked i, t\<lparr>Pages := ps[i := load_page t (w_disk w) n (ps ! i)]\<rparr>, w)
      else case malloc 0 w of
          (None, w) \<Rightarrow> Ok (PagingFailed, t, w)
        | (Some _, w) \<Rightarrow> (case malloc (page_size (Table t)) w of
              (None, w) \<Rightarrow> Ok (PagingFailed, t, w)
            | (Some junk, w) \<Rightarrow>
                let p = \<lparr>pg_Data = junk, pg_Size = page_size (Table t), pg_Index = n,
                         pg_LastRow = PageRows (Table t), pg_NeedSync = False\<rparr>
                in Ok (Locked i,
                       t\<lparr>Pages := insert_at i (load_page t (w_disk w) n p) ps,
                         PLocks := w32 (PLocks t + 1)\<rparr>, w)))"

text \<open>The page whose contents a search for page \<open>n\<close> gives up without writing it back: in a
  full pool, the first page with a larger index, unless that is the last page.\<close>

definition victim :: "Qbase_table \<Rightarrow> nat \<Rightarrow> Qbase_page option" where
  "victim t n =
     (let i = page_scan n (Pages t) in
      if Suc i < length (Pages t) \<and> pg_Index (Pages t ! i) \<noteq> n \<and> LockPages (Table t) \<le> PLocks t
      then Some (Pages t ! i) else None)"

section \<open>The search\<close>

lemma page_scan_le: "page_scan n ps \<le> length ps"
  by (induction ps) auto

lemma page_scan_before: "k < page_scan n ps \<Longrightarrow> pg_Index (ps ! k) < n"
  by (induction ps arbitrary: k) (auto simp: nth_Cons split: if_splits nat.splits)

lemma page_scan_at: "page_scan n ps < length ps \<Longrightarrow> n \<le> pg_Index (ps ! page_scan n ps)"
  by (induction ps) auto

lemma page_scan_none: "page_scan n ps = length ps \<Longrightarrow> p \<in> set ps \<Longrightarrow> pg_Index p < n"
  by (induction ps) (auto split: if_splits)

lemma set_insert_at [simp]: "set (insert_at i x xs) = insert x (set xs)"
  unfolding insert_at_def by (metis append_take_drop_id list.simps(15) set_append Un_insert_right)

lemma length_insert_at [simp]: "i \<le> length xs \<Longrightarrow> length (insert_at i x xs) = Suc (length xs)"
  by (simp add: insert_at_def)

lemma nth_insert_at [simp]: "i \<le> length xs \<Longrightarrow> insert_at i x xs ! i = x"
  by (simp add: insert_at_def nth_append)

lemma last_insert_at: "i < length xs \<Longrightarrow> last (insert_at i x xs) = last xs"
  by (simp add: insert_at_def)

lemma load_page_simps [simp]:
  "pg_Index (load_page t fs n p) = n" "pg_Size (load_page t fs n p) = pg_Size p"
  "pg_NeedSync (load_page t fs n p) = False" "pg_LastRow (load_page t fs n p) = PageRows (Table t)"
  "length (pg_Data (load_page t fs n p)) = length (pg_Data p)"
  by (simp_all add: load_page_def)

lemma PageSync_simps [simp]:
  "pg_Index (fst (Qbase_PageSync p f fs)) = pg_Index p"
  "pg_Size (fst (Qbase_PageSync p f fs)) = pg_Size p"
  "pg_Data (fst (Qbase_PageSync p f fs)) = pg_Data p"
  "pg_LastRow (fst (Qbase_PageSync p f fs)) = pg_LastRow p"
  "pg_NeedSync (fst (Qbase_PageSync p f fs)) = False"
  by (simp_all add: Qbase_PageSync_def)

text \<open>What every successful search leaves: the descriptor and the files of the table, and a
  page with the requested index in the returned position.\<close>

lemma LockTablePage_frame:
  assumes "LockTablePage t w n = Ok (s, t', w')"
  shows "Table t' = Table t" "DFile t' = DFile t" "HFile t' = HFile t" "locks t' = locks t"
  using assms by (auto simp: LockTablePage_def Let_def split: if_splits list.splits prod.splits option.splits)

lemma LockTablePage_Locked:
  assumes "LockTablePage t w n = Ok (Locked i, t', w')"
  shows "i < length (Pages t')" "pg_Index (Pages t' ! i) = n"
proof -
  let ?j = "page_scan n (Pages t)"
  have j: "?j < length (Pages t)" using assms by (auto simp: LockTablePage_def Let_def split: if_splits)
  have "i < length (Pages t') \<and> pg_Index (Pages t' ! i) = n"
    using assms j
    by (auto simp: LockTablePage_def Let_def nth_append butlast_append
        split: if_splits list.splits prod.splits option.splits)
  then show "i < length (Pages t')" "pg_Index (Pages t' ! i) = n" by auto
qed

text \<open>The largest page index in memory bounds every search that succeeds and never grows.\<close>

definition max_index :: "Qbase_page list \<Rightarrow> nat" where
  "max_index ps = foldr max (map pg_Index ps) 0"

lemma max_index_ge: "p \<in> set ps \<Longrightarrow> pg_Index p \<le> max_index ps"
  unfolding max_index_def by (induction ps) auto

lemma max_index_least: "(\<And>p. p \<in> set ps \<Longrightarrow> pg_Index p \<le> m) \<Longrightarrow> max_index ps \<le> m"
  unfolding max_index_def by (induction ps) auto

lemma LockTablePage_max_index:
  assumes "LockTablePage t w n = Ok (Locked i, t', w')"
  shows "n \<le> max_index (Pages t)" "max_index (Pages t') \<le> max_index (Pages t)"
proof -
  let ?j = "page_scan n (Pages t)"
  have j: "?j < length (Pages t)" using assms by (auto simp: LockTablePage_def Let_def split: if_splits)
  then show n: "n \<le> max_index (Pages t)"
    using page_scan_at max_index_ge nth_mem order_trans by metis
  have "pg_Index p = n \<or> p \<in> set (Pages t)" if "p \<in> set (Pages t')" for p
    using assms that j
    by (auto simp: LockTablePage_def Let_def dest!: in_set_butlastD set_update_subset_insert [THEN subsetD]
        split: if_splits list.splits prod.splits option.splits)
  then show "max_index (Pages t') \<le> max_index (Pages t)"
    using n max_index_ge by (intro max_index_least) metis
qed

lemma LockTablePage_search_bound:
  "LockTablePage t w n = Ok (Locked i, t', w') \<Longrightarrow>
   n \<le> max_index (Pages t) \<and> max_index (Pages t') \<le> max_index (Pages t)"
  using LockTablePage_max_index by blast

end
