(* ===== verification/QBaseStore.thy ===== *)
theory QBaseStore
  imports QBasePages
begin

text \<open>
  The abstract contents of a table: what page \<open>m\<close> holds is its copy in the pool, where there
  is one, and the data file otherwise. The pool changes in three ways only (write a page back, drop
  a clean page, insert a page read from the file); each of them keeps the well-formedness of the
  pool and the stored contents, and \<open>LockTablePage\<close> is composed of them.
\<close>

section \<open>Pools over a data file\<close>

definition psize :: "desc \<Rightarrow> nat" where
  "psize d = RowLen d * PageRows d"

definition file_page :: "desc \<Rightarrow> bytes \<Rightarrow> nat \<Rightarrow> bytes" where
  "file_page d c m = take (psize d) (drop (m * psize d) c)"

definition in_file :: "desc \<Rightarrow> bytes \<Rightarrow> Qbase_page \<Rightarrow> bool" where
  "in_file d c p \<longleftrightarrow> (let u = pg_LastRow p * RowLen d in
     take u (pg_Data p) = take u (drop (pg_Index p * psize d) c))"

definition page_ok :: "desc \<Rightarrow> Qbase_page \<Rightarrow> bool" where
  "page_ok d p \<longleftrightarrow> pg_Size p = psize d \<and> length (pg_Data p) = psize d \<and> pg_LastRow p \<le> PageRows d"

definition pool_ok :: "desc \<Rightarrow> bytes \<Rightarrow> Qbase_page list \<Rightarrow> bool" where
  "pool_ok d c ps \<longleftrightarrow> ps \<noteq> [] \<and> sorted_wrt (\<lambda>p q. pg_Index p < pg_Index q) ps \<and>
     (\<forall>p \<in> set ps. page_ok d p) \<and> (\<forall>p \<in> set (butlast ps). pg_LastRow p = PageRows d) \<and>
     pg_Index (last ps) * psize d \<le> length c \<and>
     (\<forall>p \<in> set ps. \<not> pg_NeedSync p \<longrightarrow> in_file d c p)"

definition stored :: "desc \<Rightarrow> Qbase_page list \<Rightarrow> bytes \<Rightarrow> nat \<Rightarrow> bytes" where
  "stored d ps c m = (case find (\<lambda>p. pg_Index p = m) ps of
     Some p \<Rightarrow> pg_Data p | None \<Rightarrow> file_page d c m)"

text \<open>How many bytes of page \<open>m\<close> carry rows.\<close>

definition used :: "desc \<Rightarrow> Qbase_page list \<Rightarrow> nat \<Rightarrow> nat" where
  "used d ps m = (if m < pg_Index (last ps) then psize d else pg_LastRow (last ps) * RowLen d)"

definition same_rows :: "desc \<Rightarrow> Qbase_page list \<Rightarrow> bytes \<Rightarrow> Qbase_page list \<Rightarrow> bytes \<Rightarrow> bool" where
  "same_rows d ps c ps' c' \<longleftrightarrow>
     pg_Index (last ps') = pg_Index (last ps) \<and> pg_LastRow (last ps') = pg_LastRow (last ps) \<and>
     (\<forall>m \<le> pg_Index (last ps). take (used d ps m) (stored d ps' c' m) = take (used d ps m) (stored d ps c m))"

lemma same_rows_refl: "same_rows d ps c ps c"
  by (simp add: same_rows_def)

lemma same_rows_trans:
  "same_rows d ps c ps' c' \<Longrightarrow> same_rows d ps' c' ps'' c'' \<Longrightarrow> same_rows d ps c ps'' c''"
proof -
  assume a: "same_rows d ps c ps' c'" and b: "same_rows d ps' c' ps'' c''"
  then have "used d ps' = used d ps" by (auto simp: same_rows_def used_def fun_eq_iff)
  with a b show ?thesis by (simp add: same_rows_def)
qed

lemma sorted_unique:
  "sorted_wrt (\<lambda>p q. pg_Index p < pg_Index q) ps \<Longrightarrow> p \<in> set ps \<Longrightarrow> q \<in> set ps \<Longrightarrow>
   pg_Index p = pg_Index q \<Longrightarrow> p = q"
  by (induction ps) auto

lemma stored_in_pool:
  assumes "sorted_wrt (\<lambda>p q. pg_Index p < pg_Index q) ps" "p \<in> set ps" "pg_Index p = m"
  shows "stored d ps c m = pg_Data p"
proof -
  obtain q where q: "find (\<lambda>p. pg_Index p = m) ps = Some q"
    using assms(2,3) by (cases "find (\<lambda>p. pg_Index p = m) ps") (auto simp: find_None_iff)
  then have "q \<in> set ps" "pg_Index q = m" by (auto simp: find_Some_iff)
  then have "q = p" using assms sorted_unique by blast
  with q show ?thesis by (simp add: stored_def)
qed

lemma stored_on_disk: "m \<notin> pg_Index ` set ps \<Longrightarrow> stored d ps c m = file_page d c m"
  by (auto simp: stored_def find_Some_iff image_iff split: option.split)

lemma sorted_le_last:
  "sorted_wrt (\<lambda>p q. pg_Index p < pg_Index q) ps \<Longrightarrow> p \<in> set ps \<Longrightarrow> pg_Index p \<le> pg_Index (last ps)"
  by (induction ps) (auto split: if_splits intro: less_imp_le)

lemma page_offset: "m < n \<Longrightarrow> m * psize d + psize d \<le> n * psize d"
  using mult_le_mono1 [of "Suc m" n "psize d"] by simp

lemma in_file_length:
  assumes "in_file d c p" "page_ok d p" "u = pg_LastRow p * RowLen d" "0 < u"
  shows "pg_Index p * psize d + u \<le> length c"
proof -
  have "u \<le> psize d" using assms(2,3) by (simp add: page_ok_def psize_def mult.commute)
  then have "length (take u (pg_Data p)) = u" using assms(2) by (simp add: page_ok_def)
  moreover have "take u (pg_Data p) = take u (drop (pg_Index p * psize d) c)"
    using assms(1,3) by (simp add: in_file_def Let_def)
  ultimately have "length (take u (drop (pg_Index p * psize d) c)) = u" by simp
  then have "u \<le> length c - pg_Index p * psize d" by (simp only: length_take length_drop)
  with assms(4) show ?thesis by linarith
qed

lemma used_le: "page_ok d p \<Longrightarrow> pg_LastRow p * RowLen d \<le> psize d"
  by (simp add: page_ok_def psize_def mult.commute)

section \<open>Writing a page back\<close>

lemma in_file_pwrite_other:
  assumes "in_file d c q" "page_ok d q" "pg_Index q \<noteq> n" "length bs = psize d"
  shows "in_file d (pwrite c (n * psize d) bs) q"
proof (cases "pg_LastRow q * RowLen d = 0")
  case True
  then show ?thesis by (simp only: in_file_def Let_def take0)
next
  case False
  let ?u = "pg_LastRow q * RowLen d"
  have "pg_Index q * psize d + ?u \<le> n * psize d \<or> n * psize d + length bs \<le> pg_Index q * psize d"
    using assms(3,4) used_le [OF assms(2)] page_offset [of "pg_Index q" n d] page_offset [of n "pg_Index q" d]
    by (cases "pg_Index q < n") auto
  moreover have "pg_Index q * psize d + ?u \<le> length c"
    using in_file_length [OF assms(1,2) refl] False by simp
  ultimately have "take ?u (drop (pg_Index q * psize d) (pwrite c (n * psize d) bs))
      = take ?u (drop (pg_Index q * psize d) c)"
    by (rule pwrite_other)
  with assms(1) show ?thesis by (simp add: in_file_def Let_def)
qed

lemma in_file_pwrite_same:
  assumes "page_ok d p"
  shows "in_file d (pwrite c (pg_Index p * psize d) (pg_Data p)) (p\<lparr>pg_NeedSync := b\<rparr>)"
proof -
  let ?u = "pg_LastRow p * RowLen d" and ?c = "pwrite c (pg_Index p * psize d) (pg_Data p)"
  have "take ?u (drop (pg_Index p * psize d) ?c)
      = take ?u (take (length (pg_Data p)) (drop (pg_Index p * psize d) ?c))"
    using assms used_le [OF assms] by (simp add: page_ok_def min_absorb1)
  then show ?thesis by (simp add: in_file_def Let_def pwrite_slice)
qed

lemma pool_okI:
  assumes "ps \<noteq> []" "sorted_wrt (\<lambda>p q. pg_Index p < pg_Index q) ps"
    and "\<And>p. p \<in> set ps \<Longrightarrow> page_ok d p"
    and "\<And>p. p \<in> set (butlast ps) \<Longrightarrow> pg_LastRow p = PageRows d"
    and "pg_Index (last ps) * psize d \<le> length c"
    and "\<And>p. p \<in> set ps \<Longrightarrow> \<not> pg_NeedSync p \<Longrightarrow> in_file d c p"
  shows "pool_ok d c ps"
  using assms by (simp add: pool_ok_def)

lemma pool_okD:
  assumes "pool_ok d c ps"
  shows "ps \<noteq> []" "sorted_wrt (\<lambda>p q. pg_Index p < pg_Index q) ps"
    "p \<in> set ps \<Longrightarrow> page_ok d p" "p \<in> set (butlast ps) \<Longrightarrow> pg_LastRow p = PageRows d"
    "pg_Index (last ps) * psize d \<le> length c" "p \<in> set ps \<Longrightarrow> \<not> pg_NeedSync p \<Longrightarrow> in_file d c p"
  using assms by (auto simp: pool_ok_def)

text \<open>One page of a sorted pool replaced by a page with the same index.\<close>

lemma sorted_split:
  assumes "sorted_wrt (\<lambda>p q. pg_Index p < pg_Index q) (xs @ p # ys)"
  shows "q \<in> set xs \<Longrightarrow> pg_Index q < pg_Index p" "q \<in> set ys \<Longrightarrow> pg_Index p < pg_Index q"
    "pg_Index x = pg_Index p \<Longrightarrow> sorted_wrt (\<lambda>p q. pg_Index p < pg_Index q) (xs @ x # ys)"
  using assms by (auto simp: sorted_wrt_append)

lemma not_last_index:
  assumes "pool_ok d c ps" "m \<notin> pg_Index ` set ps" "m \<le> pg_Index (last ps)"
  shows "m < pg_Index (last ps)" "m * psize d + psize d \<le> length c"
proof -
  have "pg_Index (last ps) \<in> pg_Index ` set ps" using assms(1) by (simp add: pool_ok_def)
  then show lt: "m < pg_Index (last ps)" using assms(2,3) by (metis le_neq_implies_less)
  show "m * psize d + psize d \<le> length c"
    using assms(1) page_offset [OF lt, of d] by (auto simp: pool_ok_def)
qed

lemma file_page_pwrite_other:
  assumes "m \<noteq> n" "length bs = psize d" "m * psize d + psize d \<le> length c"
  shows "file_page d (pwrite c (n * psize d) bs) m = file_page d c m"
  using assms page_offset [of m n d] page_offset [of n m d]
  by (cases "m < n") (auto simp: file_page_def intro!: pwrite_other)

lemma pool_sync:
  assumes ok: "pool_ok d c ps" and ps: "ps = xs @ p # ys" and ps': "ps' = xs @ p' # ys"
    and p': "p' = p\<lparr>pg_NeedSync := False\<rparr>" and c': "c' = pwrite c (pg_Index p * psize d) (pg_Data p)"
  shows "pool_ok d c' ps'" "same_rows d ps c ps' c'"
proof -
  have srt: "sorted_wrt (\<lambda>p q. pg_Index p < pg_Index q) (xs @ p # ys)" and okp: "page_ok d p"
    using ok by (auto simp: pool_ok_def ps)
  have srt': "sorted_wrt (\<lambda>p q. pg_Index p < pg_Index q) ps'"
    unfolding ps' by (rule sorted_split(3) [OF srt]) (simp add: p')
  have lenp: "length (pg_Data p) = psize d" using okp by (simp add: page_ok_def)
  have lst: "pg_Index (last ps') = pg_Index (last ps)" "pg_LastRow (last ps') = pg_LastRow (last ps)"
    by (auto simp: ps ps' p')
  have ne: "pg_Index q \<noteq> pg_Index p" if "q \<in> set xs \<union> set ys" for q
    using sorted_split(1,2) [OF srt, of q] that by auto
  have "in_file d c' q" if "q \<in> set ps'" "\<not> pg_NeedSync q" for q
    using that ok okp lenp ne [of q]
    by (auto simp: ps ps' p' c' pool_ok_def intro: in_file_pwrite_same in_file_pwrite_other)
  note inf = this
  show "pool_ok d c' ps'"
  proof (rule pool_okI)
    show "page_ok d q" if "q \<in> set ps'" for q
      using that pool_okD(3) [OF ok] okp by (auto simp: ps ps' p' page_ok_def)
    show "pg_LastRow q = PageRows d" if "q \<in> set (butlast ps')" for q
      using that pool_okD(4) [OF ok] by (cases ys rule: rev_cases) (auto simp: ps ps' p' butlast_append)
    show "pg_Index (last ps') * psize d \<le> length c'"
      using pool_okD(5) [OF ok] lst by (simp add: c' length_pwrite)
  qed (use inf srt' ps' in auto)
  have "stored d ps' c' m = stored d ps c m" if m: "m \<le> pg_Index (last ps)" for m
  proof (cases "m \<in> pg_Index ` set ps")
    case True
    then consider q where "q \<in> set ps" "q \<in> set ps'" "pg_Index q = m" | "pg_Index p = m"
      by (auto simp: ps ps')
    then show ?thesis
    proof cases
      case 1
      with stored_in_pool [OF srt'] stored_in_pool [of ps q m] srt show ?thesis by (simp add: ps)
    next
      case 2
      then show ?thesis using stored_in_pool [OF srt', of p' m] stored_in_pool [of ps p m] srt
        by (simp add: ps ps' p')
    qed
  next
    case False
    then have "m \<notin> pg_Index ` set ps'" "m \<noteq> pg_Index p" by (auto simp: ps ps' p')
    with False file_page_pwrite_other [OF _ lenp not_last_index(2) [OF ok False m]] show ?thesis
      by (simp add: stored_on_disk c')
  qed
  with lst show "same_rows d ps c ps' c'" by (simp add: same_rows_def)
qed

lemma in_file_full:
  assumes "in_file d c p" "page_ok d p" "pg_LastRow p = PageRows d"
  shows "file_page d c (pg_Index p) = pg_Data p"
proof -
  have "pg_LastRow p * RowLen d = psize d" using assms(3) by (simp add: psize_def mult.commute)
  then have "take (psize d) (pg_Data p) = file_page d c (pg_Index p)"
    using assms(1) by (simp add: in_file_def file_page_def Let_def)
  with assms(2) show ?thesis by (simp add: page_ok_def)
qed

lemma in_file_loaded: "pg_Data p = file_page d c (pg_Index p) \<Longrightarrow> page_ok d p \<Longrightarrow> in_file d c p"
  using used_le [of d p] by (simp add: in_file_def file_page_def Let_def min_absorb1)

section \<open>Dropping a clean page, inserting a page from the file\<close>

lemma pool_drop:
  assumes ok: "pool_ok d c ps" and ps: "ps = xs @ p # ys" and ys: "ys \<noteq> []"
    and clean: "\<not> pg_NeedSync p"
  shows "pool_ok d c (xs @ ys)" "same_rows d ps c (xs @ ys) c"
proof -
  have srt: "sorted_wrt (\<lambda>p q. pg_Index p < pg_Index q) (xs @ p # ys)" and okp: "page_ok d p"
    and inf: "in_file d c p"
    using ok clean by (auto simp: pool_ok_def ps)
  have full: "pg_LastRow p = PageRows d" using ok ys by (auto simp: pool_ok_def ps butlast_append)
  have srt': "sorted_wrt (\<lambda>p q. pg_Index p < pg_Index q) (xs @ ys)"
    using srt by (auto simp: sorted_wrt_append)
  show "pool_ok d c (xs @ ys)"
    by (rule pool_okI) (use pool_okD [OF ok] ys srt' in \<open>auto simp: ps butlast_append\<close>)
  have "stored d (xs @ ys) c m = stored d ps c m" if m: "m \<le> pg_Index (last ps)" for m
  proof (cases "m = pg_Index p")
    case True
    then have "m \<notin> pg_Index ` set (xs @ ys)"
      using sorted_split(1,2) [OF srt] by fastforce
    then have "stored d (xs @ ys) c m = file_page d c m" by (rule stored_on_disk)
    moreover have "stored d ps c m = pg_Data p"
      using stored_in_pool [of ps p m] srt True by (simp add: ps)
    moreover have "file_page d c m = pg_Data p"
      using in_file_full [OF inf okp full] True by simp
    ultimately show ?thesis by simp
  next
    case False
    show ?thesis
    proof (cases "m \<in> pg_Index ` set ps")
      case True
      then obtain q where "q \<in> set ps" "q \<in> set (xs @ ys)" "pg_Index q = m" using False by (auto simp: ps)
      with stored_in_pool [OF srt'] stored_in_pool [of ps q m] srt show ?thesis by (simp add: ps)
    next
      case nin: False
      then have "m \<notin> pg_Index ` set (xs @ ys)" by (auto simp: ps)
      with nin show ?thesis by (simp add: stored_on_disk)
    qed
  qed
  with ys show "same_rows d ps c (xs @ ys) c" by (simp add: same_rows_def ps)
qed

lemma pool_insert:
  assumes ok: "pool_ok d c ps" and ps: "ps = xs @ ys" and ys: "ys \<noteq> []"
    and before: "\<forall>q \<in> set xs. pg_Index q < n" and after: "\<forall>q \<in> set ys. n < pg_Index q"
    and p: "pg_Index p = n" "pg_Size p = psize d" "pg_LastRow p = PageRows d" "pg_Data p = file_page d c n"
  shows "pool_ok d c (xs @ p # ys)" "same_rows d ps c (xs @ p # ys) c"
proof -
  have srt: "sorted_wrt (\<lambda>p q. pg_Index p < pg_Index q) (xs @ ys)" using ok by (simp add: pool_ok_def ps)
  have srt': "sorted_wrt (\<lambda>p q. pg_Index p < pg_Index q) (xs @ p # ys)"
    using srt before after p(1) by (auto simp: sorted_wrt_append)
  have nin: "n \<notin> pg_Index ` set ps" using before after by (auto simp: ps)
  have "n \<le> pg_Index (last ps)" using after ys by (simp add: ps less_imp_le)
  note len = not_last_index [OF ok nin this]
  then have pok: "page_ok d p" using p by (auto simp: page_ok_def file_page_def)
  moreover have "in_file d c p" using p pok by (auto intro: in_file_loaded)
  ultimately show "pool_ok d c (xs @ p # ys)"
    by (intro pool_okI) (use pool_okD [OF ok] ys srt' p in \<open>auto simp: ps butlast_append\<close>)
  have "stored d (xs @ p # ys) c m = stored d ps c m" for m
  proof (cases "m \<in> pg_Index ` set ps")
    case True
    then obtain q where "q \<in> set ps" "pg_Index q = m" by auto
    with stored_in_pool [OF srt', of q m] stored_in_pool [of ps q m] srt show ?thesis by (auto simp: ps)
  next
    case False
    show ?thesis
    proof (cases "m = n")
      case True
      then show ?thesis using stored_in_pool [OF srt', of p m] stored_on_disk [OF nin] p by simp
    next
      case ne: False
      then have "m \<notin> pg_Index ` set (xs @ p # ys)" using False p(1) by (auto simp: ps)
      with False show ?thesis by (simp add: stored_on_disk)
    qed
  qed
  with ys show "same_rows d ps c (xs @ p # ys) c" by (simp add: same_rows_def ps)
qed

section \<open>Well-formed tables\<close>

definition data_of :: "Qbase_table \<Rightarrow> disk \<Rightarrow> bytes" where
  "data_of t fs = (case DFile t of File n \<Rightarrow> (case fs n of Some c \<Rightarrow> c | None \<Rightarrow> []) | _ \<Rightarrow> [])"

definition files_ok :: "Qbase_table \<Rightarrow> disk \<Rightarrow> bool" where
  "files_ok t fs \<longleftrightarrow> (case (HFile t, DFile t) of
     (File h, File n) \<Rightarrow> h \<noteq> n \<and> fs h \<noteq> None \<and> fs n \<noteq> None | _ \<Rightarrow> False)"

definition table_ok :: "Qbase_table \<Rightarrow> disk \<Rightarrow> bool" where
  "table_ok t fs \<longleftrightarrow> (let d = Table t in
     68 \<le> length d \<and> 4 \<le> RowLen d \<and> 1 \<le> PageRows d \<and> 3 \<le> LockPages d \<and>
     PLocks t = length (Pages t) \<and> length (Pages t) \<le> LockPages d \<and>
     td_Index d = pg_Index (LastPage t) * PageRows d + pg_LastRow (LastPage t) \<and>
     (pg_Index (LastPage t) + 1) * psize d < 2147483648 \<and>
     files_ok t fs \<and> pool_ok d (data_of t fs) (Pages t))"

text \<open>The row with the number \<open>k\<close> (its key is \<open>k + 1\<close>), and all rows.\<close>

definition row_at :: "Qbase_table \<Rightarrow> disk \<Rightarrow> nat \<Rightarrow> bytes" where
  "row_at t fs k = (let d = Table t in
     take (RowLen d) (drop (k mod PageRows d * RowLen d)
       (stored d (Pages t) (data_of t fs) (k div PageRows d))))"

definition table_rows :: "Qbase_table \<Rightarrow> disk \<Rightarrow> bytes list" where
  "table_rows t fs = map (row_at t fs) [0..<td_Index (Table t)]"

lemma page_size_psize:
  "table_ok t fs \<Longrightarrow> page_size (Table t) = psize (Table t)"
  by (auto simp: table_ok_def Let_def page_size_def psize_def)

lemma table_offset:
  assumes "table_ok t fs" "m \<le> pg_Index (LastPage t)"
  shows "w32 (m * psize (Table t)) = m * psize (Table t)"
    "w32 (psize (Table t) * m) = m * psize (Table t)"
proof -
  have "m * psize (Table t) \<le> (pg_Index (LastPage t) + 1) * psize (Table t)"
    using assms(2) by (intro mult_le_mono1) simp
  also have "\<dots> < 2147483648" using assms(1) by (simp add: table_ok_def Let_def)
  finally show "w32 (m * psize (Table t)) = m * psize (Table t)"
    "w32 (psize (Table t) * m) = m * psize (Table t)" by (simp_all add: mult.commute)
qed

lemma take_drop_part:
  assumes "off + n \<le> u" "take u xs = take u ys"
  shows "take n (drop off xs) = take n (drop off ys)"
proof -
  have "take n (drop off zs) = take n (drop off (take u zs))" for zs :: "'a list"
    using assms(1) by (simp add: drop_take min_absorb1)
  with assms(2) show ?thesis by metis
qed

lemma row_in_used:
  assumes "table_ok t fs" "k < td_Index (Table t)"
  shows "k div PageRows (Table t) \<le> pg_Index (LastPage t)"
    "k mod PageRows (Table t) * RowLen (Table t) + RowLen (Table t)
       \<le> used (Table t) (Pages t) (k div PageRows (Table t))"
proof -
  let ?P = "PageRows (Table t)" and ?L = "pg_Index (LastPage t)"
  have P: "0 < ?P" and idx: "k < ?L * ?P + pg_LastRow (LastPage t)"
    and lr: "pg_LastRow (LastPage t) \<le> ?P"
    using assms by (auto simp: table_ok_def Let_def pool_ok_def page_ok_def)
  have k: "k div ?P * ?P \<le> k" by simp
  have m: "k mod ?P < ?P" using P by simp
  have "k div ?P < Suc ?L"
  proof (rule ccontr)
    assume "\<not> k div ?P < Suc ?L"
    then have "Suc ?L * ?P \<le> k div ?P * ?P" by (intro mult_le_mono1) simp
    with k idx lr show False by (simp only: mult_Suc)
  qed
  then show le: "k div ?P \<le> ?L" by simp
  have "k mod ?P < pg_LastRow (LastPage t)" if "\<not> k div ?P < ?L"
  proof -
    have "k div ?P = ?L" using that le by simp
    then have "?L * ?P + k mod ?P = k" using div_mult_mod_eq [of k ?P] by simp
    with idx show ?thesis by linarith
  qed
  then have "k mod ?P < (if k div ?P < ?L then ?P else pg_LastRow (LastPage t))"
    using m by simp
  then have "Suc (k mod ?P) * RowLen (Table t)
      \<le> (if k div ?P < ?L then ?P else pg_LastRow (LastPage t)) * RowLen (Table t)"
    by (intro mult_le_mono1) simp
  then show "k mod ?P * RowLen (Table t) + RowLen (Table t) \<le> used (Table t) (Pages t) (k div ?P)"
    by (simp add: used_def psize_def mult.commute add.commute split: if_splits)
qed

lemma same_rows_row_at:
  assumes "table_ok t fs" "Table t' = Table t" "k < td_Index (Table t)"
    and "same_rows (Table t) (Pages t) (data_of t fs) (Pages t') (data_of t' fs')"
  shows "row_at t' fs' k = row_at t fs k"
  using assms row_in_used [OF assms(1,3)]
  by (auto simp: row_at_def Let_def same_rows_def intro!: take_drop_part)

lemma same_rows_table_rows:
  assumes "table_ok t fs" "Table t' = Table t"
    and "same_rows (Table t) (Pages t) (data_of t fs) (Pages t') (data_of t' fs')"
  shows "table_rows t' fs' = table_rows t fs"
  using same_rows_row_at [OF assms(1,2) _ assms(3)] assms(2) by (simp add: table_rows_def)

section \<open>The data file of a table\<close>

lemma os_read_page:
  assumes "table_ok t fs" "length old = psize (Table t)"
    and "m * psize (Table t) + psize (Table t) \<le> length (data_of t fs)"
    and "m \<le> pg_Index (LastPage t)"
  shows "os_read fs (DFile t) (w32 (m * psize (Table t))) old = file_page (Table t) (data_of t fs) m"
  using assms(1) assms(2,3) table_offset(1) [OF assms(1,4)]
  by (auto simp: table_ok_def files_ok_def Let_def os_read_def data_of_def file_page_def
      split: fdesc.splits option.splits)

lemma data_of_write:
  assumes "files_ok t fs" "DFile t' = DFile t"
  shows "data_of t' (os_write fs (DFile t) off bs) = pwrite (data_of t fs) off bs"
    and "files_ok t (os_write fs (DFile t) off bs)"
  using assms by (auto simp: files_ok_def data_of_def os_write_def split: fdesc.splits option.splits)

lemma data_of_HeadSync:
  assumes "files_ok t fs" "DFile t' = DFile t"
  shows "data_of t' (Qbase_HeadSync t fs) = data_of t fs" and "files_ok t (Qbase_HeadSync t fs)"
  using assms by (auto simp: files_ok_def data_of_def Qbase_HeadSync_def os_write_def
      split: fdesc.splits option.splits)

section \<open>Searching and loading keeps the table\<close>

lemma page_scan_split:
  assumes "i = page_scan n ps" "i < length ps" "sorted_wrt (\<lambda>p q. pg_Index p < pg_Index q) ps"
    and "pg_Index (ps ! i) \<noteq> n"
  shows "ps = take i ps @ ps ! i # drop (Suc i) ps" "\<forall>q \<in> set (take i ps). pg_Index q < n"
    "n < pg_Index (ps ! i)" "\<forall>q \<in> set (drop (Suc i) ps). n < pg_Index q"
proof -
  show split: "ps = take i ps @ ps ! i # drop (Suc i) ps" using assms(2) by (rule id_take_nth_drop)
  show "\<forall>q \<in> set (take i ps). pg_Index q < n"
    using page_scan_before assms(1) by (auto simp: in_set_conv_nth)
  show lt: "n < pg_Index (ps ! i)" using page_scan_at [of n ps] assms(1,2,4) by simp
  have "\<forall>q \<in> set (drop (Suc i) ps). pg_Index (ps ! i) < pg_Index q"
    using assms(3) by (subst (asm) split) (auto simp: sorted_wrt_append)
  with lt show "\<forall>q \<in> set (drop (Suc i) ps). n < pg_Index q" by auto
qed

text \<open>The page that the search loads carries the bytes of the file.\<close>

lemma load_page_data:
  assumes "table_ok t fs" "pg_Size p = psize (Table t)" "length (pg_Data p) = psize (Table t)"
    and "n < pg_Index (LastPage t)"
  shows "pg_Data (load_page t fs n p) = file_page (Table t) (data_of t fs) n"
proof -
  have pl: "pool_ok (Table t) (data_of t fs) (Pages t)" using assms(1) by (simp add: table_ok_def Let_def)
  have "n * psize (Table t) + psize (Table t) \<le> length (data_of t fs)"
    using pool_okD(5) [OF pl] page_offset [OF assms(4), of "Table t"] by simp
  with os_read_page [OF assms(1,3)] assms(2,4) show ?thesis by (simp add: load_page_def)
qed

lemma table_okI:
  assumes "table_ok t fs" "Table t' = Table t" "HFile t' = HFile t" "DFile t' = DFile t"
    and "PLocks t' = length (Pages t')" "length (Pages t') \<le> LockPages (Table t)" "files_ok t fs'"
    and "pool_ok (Table t) (data_of t' fs') (Pages t')"
    and "same_rows (Table t) (Pages t) c (Pages t') c'"
  shows "table_ok t' fs'"
  using assms by (auto simp: table_ok_def Let_def same_rows_def files_ok_def)

lemma table_okD:
  assumes "table_ok t fs"
  shows "pool_ok (Table t) (data_of t fs) (Pages t)" "files_ok t fs" "PLocks t = length (Pages t)"
    "length (Pages t) \<le> LockPages (Table t)" "3 \<le> LockPages (Table t)"
    "1 \<le> PageRows (Table t)" "4 \<le> RowLen (Table t)" "Pages t \<noteq> []" "68 \<le> length (Table t)"
    "td_Index (Table t) = pg_Index (LastPage t) * PageRows (Table t) + pg_LastRow (LastPage t)"
    "(pg_Index (LastPage t) + 1) * psize (Table t) < 2147483648"
  using assms by (auto simp: table_ok_def Let_def pool_ok_def)

lemma w32_small: "Suc n \<le> LockPages d \<Longrightarrow> w32 (n + 1) = n + 1"
  using unsigned_less [of "get32 d 64", where ?'a = nat] by (simp add: LockPages_def w32_def)

text \<open>The three ways in which a search changes the pool.\<close>

lemma lock_replace:
  assumes ok: "table_ok t fs" and i: "i = page_scan n (Pages t)" "Suc i < length (Pages t)"
    and ne: "pg_Index (Pages t ! i) \<noteq> n" and clean: "\<not> pg_NeedSync (Pages t ! i)"
    and t': "t' = t\<lparr>Pages := (Pages t)[i := load_page t fs n (Pages t ! i)]\<rparr>"
  shows "table_ok t' fs \<and> same_rows (Table t) (Pages t) (data_of t fs) (Pages t') (data_of t' fs)"
proof -
  let ?ps = "Pages t" and ?d = "Table t" and ?c = "data_of t fs"
  let ?xs = "take i ?ps" and ?ys = "drop (Suc i) ?ps" and ?p = "load_page t fs n (?ps ! i)"
  note D = table_okD [OF ok] and pl = pool_okD [OF table_okD(1) [OF ok]]
  have il: "i < length ?ps" using i(2) by simp
  note sp = page_scan_split [OF i(1) il pl(2) ne]
  have ys: "?ys \<noteq> []" using i(2) by simp
  have okp: "page_ok ?d (?ps ! i)" using pl(3) il by simp
  have "n < pg_Index (last ?ps)" using sp(4) ys last_in_set [OF ys] by simp
  then have dat: "pg_Data ?p = file_page ?d ?c n"
    using load_page_data [OF ok] okp by (simp add: page_ok_def)
  note dr = pool_drop [OF D(1) sp(1) ys clean]
  have ins: "pool_ok ?d ?c (?xs @ ?p # ?ys)" "same_rows ?d (?xs @ ?ys) ?c (?xs @ ?p # ?ys) ?c"
    using pool_insert [OF dr(1) refl ys sp(2,4), of ?p] dat okp by (auto simp: page_ok_def)
  have ps': "Pages t' = ?xs @ ?p # ?ys" using il by (simp add: t' upd_conv_take_nth_drop)
  have dt: "data_of t' fs = ?c" by (simp add: t' data_of_def)
  have sr: "same_rows ?d ?ps ?c (Pages t') (data_of t' fs)"
    unfolding ps' dt by (rule same_rows_trans [OF dr(2) ins(2)])
  moreover have "table_ok t' fs"
    by (rule table_okI [OF ok _ _ _ _ _ D(2) _ sr]) (use D ins ps' dt il in \<open>simp_all add: t'\<close>)
  ultimately show ?thesis by simp
qed

lemma lock_insert:
  assumes ok: "table_ok t fs" and i: "i = page_scan n (Pages t)" "i < length (Pages t)"
    and ne: "pg_Index (Pages t ! i) \<noteq> n" and room: "PLocks t < LockPages (Table t)"
    and p: "pg_Size p = psize (Table t)" "length (pg_Data p) = psize (Table t)"
    and t': "t' = t\<lparr>Pages := insert_at i (load_page t fs n p) (Pages t), PLocks := w32 (PLocks t + 1)\<rparr>"
  shows "table_ok t' fs \<and> same_rows (Table t) (Pages t) (data_of t fs) (Pages t') (data_of t' fs)"
proof -
  let ?ps = "Pages t" and ?d = "Table t" and ?c = "data_of t fs"
  let ?xs = "take i ?ps" and ?ys = "drop i ?ps" and ?p = "load_page t fs n p"
  note D = table_okD [OF ok] and pl = pool_okD [OF table_okD(1) [OF ok]]
  note sp = page_scan_split [OF i pl(2) ne]
  have ys: "?ys = ?ps ! i # drop (Suc i) ?ps" using i(2) by (simp add: Cons_nth_drop_Suc)
  then have after: "\<forall>q \<in> set ?ys. n < pg_Index q" "?ys \<noteq> []" using sp(3,4) by auto
  then have "n < pg_Index (last ?ps)" using last_in_set [OF after(2)] i(2) by (simp add: last_drop)
  then have dat: "pg_Data ?p = file_page ?d ?c n" using load_page_data [OF ok p] by simp
  have ins: "pool_ok ?d ?c (?xs @ ?p # ?ys)" "same_rows ?d ?ps ?c (?xs @ ?p # ?ys) ?c"
    using pool_insert [OF D(1) append_take_drop_id [symmetric] after(2) sp(2) after(1), of ?p] dat p
    by auto
  have ps': "Pages t' = ?xs @ ?p # ?ys" by (simp add: t' insert_at_def)
  have dt: "data_of t' fs = ?c" by (simp add: t' data_of_def)
  have len: "length (Pages t') = Suc (length ?ps)" using i(2) by (simp add: t')
  have "table_ok t' fs"
    by (rule table_okI [OF ok _ _ _ _ _ D(2), of _ ?c ?c])
      (use D ins ps' dt len room w32_small [of "length ?ps" ?d] in \<open>simp_all add: t'\<close>)
  with ins(2) ps' dt show ?thesis by simp
qed

lemma lock_move:
  assumes ok: "table_ok t fs" and i: "i = page_scan n (Pages t)" "Suc i = length (Pages t)"
    and ne: "pg_Index (Pages t ! i) \<noteq> n" and ps: "Pages t = p0 # q # rest" "rest \<noteq> []"
    and sync: "Qbase_PageSync p0 (DFile t) fs = (p0', fs')"
    and t': "t' = t\<lparr>Pages := butlast (q # rest) @ [load_page t fs' n p0', last rest]\<rparr>"
  shows "table_ok t' fs' \<and> same_rows (Table t) (Pages t) (data_of t fs) (Pages t') (data_of t' fs')"
proof -
  let ?d = "Table t" and ?c = "data_of t fs" and ?c' = "data_of t fs'"
  note D = table_okD [OF ok] and pl = pool_okD [OF table_okD(1) [OF ok]]
  have okp: "page_ok ?d p0" using pl(3) ps by simp
  have il: "i < length (Pages t)" using i by simp
  note sp = page_scan_split [OF i(1) il pl(2) ne]
  have last: "Pages t ! i = last rest" using i(2) ps by (simp add: nth_Cons' last_conv_nth)
  have split: "q # rest = butlast (q # rest) @ [last rest]"
    using ps(2) append_butlast_last_id [of "q # rest"] by simp
  have "i = length (p0 # butlast (q # rest))" using i(2) ps by simp
  then have bef: "\<forall>x \<in> set (butlast (q # rest)). pg_Index x < n"
    using sp(2) ps split by (metis append_Cons append_eq_conv_conj list.set_intros(2))
  have le: "pg_Index p0 \<le> pg_Index (LastPage t)" using sorted_le_last [OF pl(2), of p0] ps by simp
  have p0': "p0' = p0\<lparr>pg_NeedSync := False\<rparr>" using sync by (auto simp: Qbase_PageSync_def split: if_splits)
  have st1: "pool_ok ?d ?c' (p0' # q # rest) \<and> same_rows ?d (Pages t) ?c (p0' # q # rest) ?c' \<and>
      files_ok t fs'"
  proof (cases "pg_NeedSync p0")
    case True
    then have fs': "fs' = os_write fs (DFile t) (pg_Index p0 * psize ?d) (pg_Data p0)"
      using sync okp table_offset(2) [OF ok le] by (simp add: Qbase_PageSync_def page_ok_def)
    have c': "?c' = pwrite ?c (pg_Index p0 * psize ?d) (pg_Data p0)"
      unfolding fs' by (rule data_of_write(1) [OF D(2) refl])
    show ?thesis using pool_sync [OF D(1), of "[]" p0 "q # rest", OF _ _ p0' c'] ps
        data_of_write(2) [OF D(2)] fs' by simp
  next
    case False
    then have "p0' = p0" "fs' = fs" using sync by (auto simp: Qbase_PageSync_def)
    then show ?thesis using D(1,2) ps same_rows_refl by simp
  qed
  have "pool_ok ?d ?c' (p0' # q # rest)" using st1 by simp
  note dr = pool_drop [OF this, of "[]" p0' "q # rest", simplified]
  have p0c: "\<not> pg_NeedSync p0'" by (simp add: p0')
  let ?p = "load_page t fs' n p0'"
  have dat: "pg_Data ?p = file_page ?d ?c' n"
  proof -
    have l: "n < pg_Index (LastPage t)" using sp(3) last ps by simp
    then have "n * psize ?d + psize ?d \<le> length ?c'"
      using pool_okD(5) [of ?d ?c' "p0' # q # rest"] st1 page_offset [OF l, of ?d] ps by simp
    moreover have "os_read fs' (DFile t) (n * psize ?d) (pg_Data p0') = file_page ?d ?c' n"
      using st1 calculation okp p0'
      by (auto simp: files_ok_def os_read_def data_of_def file_page_def page_ok_def Let_def
          split: fdesc.splits option.splits)
    ultimately show ?thesis
      using okp p0' l table_offset(1) [OF ok, of n] by (simp add: load_page_def page_ok_def)
  qed
  have lstn: "n < pg_Index (last rest)" using sp(3) last by simp
  have ins: "pool_ok ?d ?c' (butlast (q # rest) @ ?p # [last rest])"
    "same_rows ?d (q # rest) ?c' (butlast (q # rest) @ ?p # [last rest]) ?c'"
    using pool_insert [OF dr(1) [OF p0c] split _ bef, of ?p] dat okp p0' lstn by (auto simp: page_ok_def)
  have dt: "data_of t' fs' = ?c'" and ps': "Pages t' = butlast (q # rest) @ ?p # [last rest]"
    by (simp_all add: t' data_of_def)
  have sr: "same_rows ?d (Pages t) ?c (Pages t') (data_of t' fs')"
    unfolding dt ps' using st1 dr(2) [OF p0c] ins(2) by (blast intro: same_rows_trans)
  have "table_ok t' fs'"
    by (rule table_okI [OF ok _ _ _ _ _ _ _ sr]) (use D ins ps' dt st1 ps in \<open>simp_all add: t'\<close>)
  with sr show ?thesis by simp
qed

text \<open>C2: On a well-formed table the search for a page up to the last one never runs into a
  broken chain. Unless memory is exhausted, it returns the position of a page with that index, keeps
  the table well-formed, and keeps the contents of every row, provided that the page it gives up
  in a full pool has no unwritten changes.\<close>

theorem LockTablePage_correct:
  assumes ok: "table_ok t (w_disk w)" and n: "n \<le> pg_Index (LastPage t)"
    and clean: "\<forall>p. victim t n = Some p \<longrightarrow> \<not> pg_NeedSync p"
  shows "(\<exists>w'. LockTablePage t w n = Ok (PagingFailed, t, w') \<and> w_disk w' = w_disk w) \<or>
    (\<exists>i t' w'. LockTablePage t w n = Ok (Locked i, t', w') \<and> i < length (Pages t') \<and>
       pg_Index (Pages t' ! i) = n \<and> Table t' = Table t \<and> table_ok t' (w_disk w') \<and>
       table_rows t' (w_disk w') = table_rows t (w_disk w))"
proof -
  let ?i = "page_scan n (Pages t)" and ?fs = "w_disk w"
  note D = table_okD [OF ok] and pl = pool_okD [OF table_okD(1) [OF ok]]
  have il: "?i < length (Pages t)"
    using page_scan_le [of n "Pages t"] page_scan_none [of n "Pages t" "LastPage t"] n D(8)
    by (metis last_in_set le_neq_implies_less not_less)
  have step: "?thesis" if "LockTablePage t w n = Ok (Locked i, t', w')"
    "table_ok t' (w_disk w') \<and> same_rows (Table t) (Pages t) (data_of t ?fs) (Pages t') (data_of t' (w_disk w'))"
    for i t' w'
    using that LockTablePage_frame [OF that(1)] LockTablePage_Locked [OF that(1)]
      same_rows_table_rows [OF ok] by blast
  show ?thesis
  proof (cases "pg_Index (Pages t ! ?i) = n")
    case True
    then have "LockTablePage t w n = Ok (Locked ?i, t, w)" using il by (simp add: LockTablePage_def Let_def)
    then show ?thesis using step ok same_rows_refl by blast
  next
    case ne: False
    show ?thesis
    proof (cases "LockPages (Table t) \<le> PLocks t")
      case full: True
      show ?thesis
      proof (cases "Suc ?i = length (Pages t)")
        case True
        have "3 \<le> length (Pages t)" using full D(3,5) by simp
        then obtain p0 q rest where ps: "Pages t = p0 # q # rest" "rest \<noteq> []"
          by (auto simp: Suc_le_length_iff numeral_3_eq_3)
        obtain p0' fs' where sync: "Qbase_PageSync p0 (DFile t) ?fs = (p0', fs')" by fastforce
        have "LockTablePage t w n = Ok (Locked (length (Pages t) - 2),
            t\<lparr>Pages := butlast (q # rest) @ [load_page t fs' n p0', last rest]\<rparr>, w\<lparr>w_disk := fs'\<rparr>)"
          using True ne full il by (simp add: LockTablePage_def Let_def ps sync)
        then show ?thesis using lock_move [OF ok refl True ne ps sync refl] step by auto
      next
        case False
        then have lt: "Suc ?i < length (Pages t)" using il by simp
        have vic: "\<not> pg_NeedSync (Pages t ! ?i)"
          using clean lt ne full by (simp add: victim_def Let_def)
        have "LockTablePage t w n = Ok (Locked ?i,
            t\<lparr>Pages := (Pages t)[?i := load_page t ?fs n (Pages t ! ?i)]\<rparr>, w)"
          using False ne full il by (simp add: LockTablePage_def Let_def)
        then show ?thesis using lock_replace [OF ok refl lt ne vic refl] step by blast
      qed
    next
      case room: False
      obtain r1 w1 where m1: "malloc 0 w = (r1, w1)" by fastforce
      obtain r2 w2 where m2: "malloc (page_size (Table t)) w1 = (r2, w2)" by fastforce
      note dk = malloc_disk_eq [OF m1] malloc_disk_eq [OF m2]
      show ?thesis
      proof (cases "r1 = None \<or> r2 = None")
        case True
        then show ?thesis using m1 m2 dk il ne room
          by (cases r1) (simp_all add: LockTablePage_def Let_def)
      next
        case False
        then obtain j1 junk where r: "r1 = Some j1" "r2 = Some junk" by auto
        let ?p = "\<lparr>pg_Data = junk, pg_Size = page_size (Table t), pg_Index = n,
          pg_LastRow = PageRows (Table t), pg_NeedSync = False\<rparr>"
        let ?t' = "t\<lparr>Pages := insert_at ?i (load_page t ?fs n ?p) (Pages t), PLocks := w32 (PLocks t + 1)\<rparr>"
        have "LockTablePage t w n = Ok (Locked ?i, ?t', w2)"
          using m1 m2 r dk il ne room by (simp add: LockTablePage_def Let_def)
        moreover have "length junk = psize (Table t)"
          using malloc_length m2 r page_size_psize [OF ok] by metis
        ultimately show ?thesis
          using lock_insert [OF ok refl il ne _ _ _ refl, of ?p] room step dk page_size_psize [OF ok] by simp
      qed
    qed
  qed
qed

text \<open>A page that the search gives up without writing it back reverts to what the data file
  holds: whatever an update or a deletion changed on it in memory is lost, and nothing is written.\<close>

theorem LockTablePage_loses_updates:
  assumes ok: "table_ok t (w_disk w)" and v: "victim t n = Some p" and r: "r < PageRows (Table t)"
  shows "\<exists>i t'. LockTablePage t w n = Ok (Locked i, t', w) \<and>
    row_at t' (w_disk w) (pg_Index p * PageRows (Table t) + r) =
      take (RowLen (Table t)) (drop (r * RowLen (Table t))
        (file_page (Table t) (data_of t (w_disk w)) (pg_Index p)))"
proof -
  let ?i = "page_scan n (Pages t)" and ?fs = "w_disk w" and ?ps = "Pages t"
  note pl = pool_okD [OF table_okD(1) [OF ok]]
  have i: "Suc ?i < length ?ps" "pg_Index (?ps ! ?i) \<noteq> n" "LockPages (Table t) \<le> PLocks t"
    and p: "p = ?ps ! ?i"
    using v by (auto simp: victim_def Let_def split: if_splits)
  let ?t' = "t\<lparr>Pages := ?ps[?i := load_page t ?fs n (?ps ! ?i)]\<rparr>"
  have lock: "LockTablePage t w n = Ok (Locked ?i, ?t', w)"
    using i by (simp add: LockTablePage_def Let_def)
  have il: "?i < length ?ps" using i(1) by simp
  have split: "?ps = take ?i ?ps @ p # drop (Suc ?i) ?ps" unfolding p using il by (rule id_take_nth_drop)
  have "sorted_wrt (\<lambda>p q. pg_Index p < pg_Index q) (take ?i ?ps @ p # drop (Suc ?i) ?ps)"
    using pl(2) split by simp
  note ss = sorted_split(1,2) [OF this]
  have "\<forall>q \<in> set (take ?i ?ps) \<union> set (drop (Suc ?i) ?ps). pg_Index q \<noteq> pg_Index p"
    using ss by (metis Un_iff less_irrefl)
  then have "pg_Index p \<notin> pg_Index ` set (Pages ?t')"
    using il i(2) p by (fastforce simp: upd_conv_take_nth_drop)
  then have "stored (Table t) (Pages ?t') (data_of ?t' ?fs) (pg_Index p)
      = file_page (Table t) (data_of t ?fs) (pg_Index p)"
    by (simp add: stored_on_disk data_of_def)
  with lock r show ?thesis by (auto simp: row_at_def Let_def)
qed

section \<open>Closed examples\<close>

text \<open>A table of nine rows on five pages of two rows. In the full pool, page 2 carries an update
  that is not on disk yet.\<close>

definition demo_page :: "nat \<Rightarrow> nat \<Rightarrow> bool \<Rightarrow> byte \<Rightarrow> Qbase_page" where
  "demo_page m rows dirty b =
     \<lparr>pg_Data = replicate 12 b, pg_Size = 12, pg_Index = m, pg_LastRow = rows, pg_NeedSync = dirty\<rparr>"

definition demo_table :: "Qbase_page list \<Rightarrow> Qbase_table" where
  "demo_table ps = \<lparr>Table = set_Index demo_desc 9, Pages = ps, locks = 1, PLocks = length ps,
     HFile = File [104], DFile = File [100]\<rparr>"

definition demo_world :: world where
  "demo_world = \<lparr>w_disk = [[104] \<mapsto> demo_desc, [100] \<mapsto> replicate 60 1], w_mem = []\<rparr>"

lemma demo_table_ok:
  assumes "ps = [demo_page 4 1 False 1] \<or> ps = [demo_page 2 2 True 7, demo_page 3 2 False 1, demo_page 4 1 False 1]"
  shows "table_ok (demo_table ps) (w_disk demo_world)"
  using assms by (elim disjE) (simp_all add: table_ok_def demo_table_def demo_page_def demo_world_def
      files_ok_def data_of_def pool_ok_def page_ok_def psize_def in_file_def)

theorem LockTablePage_correct_witness:
  "\<exists>i t' w'. LockTablePage (demo_table [demo_page 4 1 False 1]) demo_world 0 = Ok (Locked i, t', w') \<and>
     pg_Index (Pages t' ! i) = 0 \<and>
     table_rows t' (w_disk w') = table_rows (demo_table [demo_page 4 1 False 1]) (w_disk demo_world)"
proof -
  let ?t = "demo_table [demo_page 4 1 False 1]"
  have "LockTablePage ?t demo_world 0 \<noteq> Ok (PagingFailed, ?t, w')" for w'
    by (simp add: LockTablePage_def demo_table_def demo_page_def demo_world_def malloc_def Let_def)
  moreover have "0 \<le> pg_Index (LastPage ?t)" "\<forall>p. victim ?t 0 = Some p \<longrightarrow> \<not> pg_NeedSync p"
    by (simp_all add: victim_def demo_table_def demo_page_def)
  ultimately show ?thesis using LockTablePage_correct [OF demo_table_ok, of "[demo_page 4 1 False 1]" 0] by auto
qed

theorem LockTablePage_loses_updates_witness:
  "\<exists>i t'. LockTablePage (demo_table [demo_page 2 2 True 7, demo_page 3 2 False 1, demo_page 4 1 False 1])
        demo_world 0 = Ok (Locked i, t', demo_world) \<and>
     row_at (demo_table [demo_page 2 2 True 7, demo_page 3 2 False 1, demo_page 4 1 False 1])
        (w_disk demo_world) 4 = replicate 6 7 \<and>
     row_at t' (w_disk demo_world) 4 = replicate 6 1"
proof -
  let ?ps = "[demo_page 2 2 True 7, demo_page 3 2 False 1, demo_page 4 1 False 1]"
  have v: "victim (demo_table ?ps) 0 = Some (demo_page 2 2 True 7)"
    by (simp add: victim_def demo_table_def demo_page_def)
  have "row_at (demo_table ?ps) (w_disk demo_world) 4 = replicate 6 7"
    by (simp add: row_at_def demo_table_def demo_page_def stored_def Let_def)
  moreover have "take 6 (drop 0 (file_page (set_Index demo_desc 9) (data_of (demo_table ?ps) (w_disk demo_world)) 2))
      = replicate 6 1"
    by (simp add: file_page_def psize_def data_of_def demo_table_def demo_world_def)
  ultimately show ?thesis
    using LockTablePage_loses_updates [OF demo_table_ok v, of 0] by (simp add: demo_table_def demo_page_def)
qed

end
