(* ===== verification/QBaseServer.thy ===== *)
theory QBaseServer
  imports QBaseFilter QBaseStore
begin

text \<open>
  \<open>QX-base/qbase_iofunc.c\<close>: the handlers of the database server. Tables live at addresses;
  \<open>Tables\<close> is the global chain, as the list of the addresses that its \<open>Next\<close> pointers
  visit; \<open>Lost\<close> are chains that no global pointer leads to any more, although their tables
  are still selected. A connection has an \<open>ocb\<close> with the address of the selected table, the number of the
  next record and its filter rules. Handlers are modelled one at a time, each run to its end; the
  locks they take are left out. A handler that runs into undefined behaviour has no result.
\<close>

section \<open>State\<close>

record Qbase_ocb =
  Qerrno :: qerr
  ocb_Table :: "nat option"
  Record :: nat
  Filters :: "Qbase_filter list"

record server =
  tbl_heap :: "nat \<Rightarrow> Qbase_table option"
  Tables :: "nat list"
  Lost :: "nat list list"
  next_addr :: nat
  sv_world :: world
  StartTime :: nat

definition Qbase_OCB_calloc :: "bool \<Rightarrow> Qbase_ocb option" where
  "Qbase_OCB_calloc mem_ok =
     (if mem_ok then Some \<lparr>Qerrno = QBASE_E_OK, ocb_Table = None, Record = 0, Filters = []\<rparr> else None)"

text \<open>The unlinking at the end of \<open>Qbase_TableRelease\<close>: inside a chain the neighbours are
  joined; where the table has no \<open>Prev\<close>, the global pointer becomes its \<open>Next\<close>, also
  when the table is the first of a chain that the global pointer has lost. The chain that
  \<open>Tables\<close> pointed to until then is lost in its turn.\<close>

definition unlink :: "server \<Rightarrow> nat \<Rightarrow> server outcome" where
  "unlink sv a =
     (if a \<in> set (Tables sv) then Ok (sv\<lparr>Tables := remove1 a (Tables sv)\<rparr>)
      else case find (\<lambda>fr. a \<in> set fr) (Lost sv) of
          None \<Rightarrow> Crash BrokenChain
        | Some fr \<Rightarrow>
            if hd fr = a
            then Ok (sv\<lparr>Tables := tl fr, Lost := Tables sv # remove1 fr (Lost sv)\<rparr>)
            else Ok (sv\<lparr>Lost := remove1 a fr # remove1 fr (Lost sv)\<rparr>))"

definition Qbase_TableRelease :: "server \<Rightarrow> nat \<Rightarrow> server outcome" where
  "Qbase_TableRelease sv a =
     (case tbl_heap sv a of
        None \<Rightarrow> Crash NullPointer
      | Some t \<Rightarrow>
          let (t', fs) = Qbase_TableSync t (w_disk (sv_world sv))
          in unlink (sv\<lparr>tbl_heap := (tbl_heap sv)(a := None),
                       sv_world := (sv_world sv)\<lparr>w_disk := fs\<rparr>\<rparr>) a)"

text \<open>Releasing a table that a failed selection or creation has not linked yet: its \<open>Prev\<close>
  and \<open>Next\<close> are null, so the global pointer becomes null and the chain is lost. \<open>junk\<close> are
  the bytes of the members that the release uses although they were never set; only zeros are
  harmless. A table whose descriptor is there is written back first.\<close>

definition release_unlinked :: "server \<Rightarrow> bytes \<Rightarrow> Qbase_table option \<Rightarrow> server outcome" where
  "release_unlinked sv junk tbl =
     (if \<exists>b \<in> set junk. b \<noteq> 0 then Crash Uninitialised
      else let fs = (case tbl of None \<Rightarrow> w_disk (sv_world sv)
                     | Some t \<Rightarrow> snd (Qbase_TableSync t (w_disk (sv_world sv))))
        in Ok (sv\<lparr>Tables := [], Lost := Tables sv # Lost sv,
                  sv_world := (sv_world sv)\<lparr>w_disk := fs\<rparr>\<rparr>))"

text \<open>\<open>atomic_sub (&ocb->Table->locks, 1)\<close> and the release of an unused table.\<close>

definition deselect :: "server \<Rightarrow> nat option \<Rightarrow> server outcome" where
  "deselect sv tbl =
     (case tbl of
        None \<Rightarrow> Ok sv
      | Some a \<Rightarrow> (case tbl_heap sv a of
            None \<Rightarrow> Crash NullPointer
          | Some t \<Rightarrow>
              let n = w32 (locks t + 4294967295);
                  sv = sv\<lparr>tbl_heap := (tbl_heap sv)(a \<mapsto> t\<lparr>locks := n\<rparr>)\<rparr>
              in if n = 0 then Qbase_TableRelease sv a else Ok sv))"

definition Qbase_OCB_free :: "server \<Rightarrow> Qbase_ocb \<Rightarrow> server outcome" where
  "Qbase_OCB_free sv ocb = deselect sv (ocb_Table ocb)"

section \<open>Reading\<close>

datatype row_search = Hit bytes nat | Strict nat | Through nat

function scan_rows :: "cenv \<Rightarrow> Qbase_filter list \<Rightarrow> bytes \<Rightarrow> nat \<Rightarrow> nat \<Rightarrow> nat \<Rightarrow> nat \<Rightarrow> row_search outcome" where
  "scan_rows e fs data rl last_row r rec =
     (if r < last_row then
        (case slice data (r * rl) rl of
           None \<Rightarrow> Crash OutOfBounds
         | Some row \<Rightarrow> (case Qbase_data_filter e fs row of
               Crash c \<Rightarrow> Crash c
             | Ok Match \<Rightarrow> Ok (Hit row rec)
             | Ok StrictBroken \<Rightarrow> Ok (Strict rec)
             | Ok NoMatch \<Rightarrow> scan_rows e fs data rl last_row (Suc r) (w32 (rec + 1))))
      else Ok (Through rec))"
  by pat_completeness auto
termination
  by (relation "measure (\<lambda>(e, fs, data, rl, last_row, r, rec). last_row - r)") auto

declare scan_rows.simps [simp del]

datatype read_status = Got bytes | NoMore | NoSuchPage | NoMemory

function read_pages ::
    "cenv \<Rightarrow> Qbase_filter list \<Rightarrow> Qbase_table \<Rightarrow> world \<Rightarrow> nat \<Rightarrow> nat \<Rightarrow> nat \<Rightarrow>
     (read_status \<times> nat \<times> Qbase_table \<times> world) outcome" where
  "read_pages e fs t w rec P R =
     (if rec < td_Index (Table t) then
        (case LockTablePage t w P of
           Crash c \<Rightarrow> Crash c
         | Ok (NoPage, t', w') \<Rightarrow> Ok (NoSuchPage, rec, t', w')
         | Ok (PagingFailed, t', w') \<Rightarrow> Ok (NoMemory, rec, t', w')
         | Ok (Locked i, t', w') \<Rightarrow>
             let p = Pages t' ! i in
             (case scan_rows e fs (pg_Data p) (RowLen (Table t')) (pg_LastRow p) R rec of
                Crash c \<Rightarrow> Crash c
              | Ok (Hit row k) \<Rightarrow> Ok (Got row, w32 (k + 1), t', w')
              | Ok (Strict k) \<Rightarrow> Ok (NoMore, k, t', w')
              | Ok (Through k) \<Rightarrow> read_pages e fs t' w' k (Suc P) 0))
      else Ok (NoMore, rec, t, w))"
  by pat_completeness auto
termination
  by (relation "measure (\<lambda>(e, fs, t, w, rec, P, R). Suc (max_index (Pages t)) - P)")
    (auto dest!: LockTablePage_search_bound)

declare read_pages.simps [simp del]

text \<open>The reply of \<open>read ()\<close>: \<open>ENOSYS\<close>, no bytes, or a row. The test of \<open>xtype\<close>
  is the expression of the source: \<open>!=\<close> binds tighter than the mask, so only the lowest bit
  is looked at.\<close>

datatype io_reply = ENOSYS | Bytes bytes

definition set_table :: "server \<Rightarrow> nat \<Rightarrow> Qbase_table \<Rightarrow> world \<Rightarrow> server" where
  "set_table sv a t w = sv\<lparr>tbl_heap := (tbl_heap sv)(a \<mapsto> t), sv_world := w\<rparr>"

definition Qbase_read ::
    "cenv \<Rightarrow> u32 \<Rightarrow> nat \<Rightarrow> server \<Rightarrow> Qbase_ocb \<Rightarrow> (io_reply \<times> server \<times> Qbase_ocb) outcome" where
  "Qbase_read e xtype nbytes sv ocb =
     (if xtype AND 1 \<noteq> 0 then Ok (ENOSYS, sv, ocb)
      else case ocb_Table ocb of
          None \<Rightarrow> Ok (Bytes [], sv, ocb\<lparr>Qerrno := QBASE_E_NOTBLSEL\<rparr>)
        | Some a \<Rightarrow> (case tbl_heap sv a of
              None \<Rightarrow> Crash NullPointer
            | Some t \<Rightarrow>
                if nbytes < RowLen (Table t) then Ok (Bytes [], sv, ocb\<lparr>Qerrno := QBASE_E_MEM\<rparr>)
                else if PageRows (Table t) = 0 then Crash DivideError
                else (case read_pages e (Filters ocb) t (sv_world sv) (Record ocb)
                          (Record ocb div PageRows (Table t)) (Record ocb mod PageRows (Table t)) of
                    Crash c \<Rightarrow> Crash c
                  | Ok (st, k, t', w') \<Rightarrow>
                      let sv = set_table sv a t' w'; ocb = ocb\<lparr>Record := k\<rparr> in
                      (case st of
                         Got row \<Rightarrow> Ok (Bytes row, sv, ocb\<lparr>Qerrno := QBASE_E_OK\<rparr>)
                       | NoMore \<Rightarrow> Ok (Bytes [], sv, ocb\<lparr>Qerrno := QBASE_E_LASTROW\<rparr>)
                       | NoSuchPage \<Rightarrow> Ok (Bytes [], sv, ocb)
                       | NoMemory \<Rightarrow> Ok (Bytes [], sv, ocb\<lparr>Qerrno := QBASE_E_PAGING\<rparr>)))))"

section \<open>Writing\<close>

text \<open>A full last page is written back together with the header and then reused for the next page
  index.\<close>

definition advance_last :: "Qbase_table \<Rightarrow> disk \<Rightarrow> Qbase_table \<times> disk" where
  "advance_last t fs =
     (if PageRows (Table t) \<le> pg_LastRow (LastPage t)
      then let (p, fs) = Qbase_PageSync (LastPage t) (DFile t) fs;
               fs = Qbase_HeadSync t fs
        in (t\<lparr>Pages := butlast (Pages t) @ [p\<lparr>pg_Index := w32 (pg_Index p + 1), pg_LastRow := 0\<rparr>]\<rparr>, fs)
      else (t, fs))"

text \<open>\<open>claimed\<close> is the length that the client announced, \<open>payload\<close> what it sent;
  the copy into the page stops with the shorter of the row and the payload. The result is the
  number of bytes that \<open>write ()\<close> reports.\<close>

datatype write_reply = WENOSYS | Written nat

definition Qbase_write ::
    "u32 \<Rightarrow> nat \<Rightarrow> bytes \<Rightarrow> server \<Rightarrow> Qbase_ocb \<Rightarrow> (write_reply \<times> server \<times> Qbase_ocb) outcome" where
  "Qbase_write xtype claimed payload sv ocb =
     (if xtype AND 1 \<noteq> 0 then Ok (WENOSYS, sv, ocb)
      else case ocb_Table ocb of
          None \<Rightarrow> Ok (Written 0, sv, ocb\<lparr>Qerrno := QBASE_E_NOTBLSEL\<rparr>)
        | Some a \<Rightarrow> (case tbl_heap sv a of
              None \<Rightarrow> Crash NullPointer
            | Some t \<Rightarrow>
                if claimed < RowLen (Table t) then Ok (Written 0, sv, ocb\<lparr>Qerrno := QBASE_E_BUF\<rparr>)
                else
                  let (t, fs) = advance_last t (w_disk (sv_world sv));
                      w = (sv_world sv)\<lparr>w_disk := fs\<rparr>;
                      key = w32 (td_Index (Table t) + 1);
                      t = t\<lparr>Table := set_Index (Table t) key\<rparr>;
                      n = RowLen (Table t);
                      p = LastPage t;
                      off = pg_LastRow p * n;
                      src = take n payload
                  in if n < 4 \<or> length (pg_Data p) < off + n then Crash OutOfBounds
                     else if length src \<noteq> n then
                       let p = p\<lparr>pg_Data := blit (pg_Data p) off src\<rparr>
                       in Ok (Written 0, set_table sv a (t\<lparr>Pages := butlast (Pages t) @ [p]\<rparr>) w,
                              ocb\<lparr>Qerrno := QBASE_E_INS\<rparr>)
                     else
                       let row = put32 src 0 (word_of_nat key);
                           p = p\<lparr>pg_Data := blit (pg_Data p) off row,
                                 pg_LastRow := w32 (pg_LastRow p + 1), pg_NeedSync := True\<rparr>
                       in Ok (Written n, set_table sv a (t\<lparr>Pages := butlast (Pages t) @ [p]\<rparr>) w,
                              ocb\<lparr>Record := w32 (key + 4294967295)\<rparr>)))"

end
