(* ===== verification/QBaseDevctl.thy ===== *)
theory QBaseDevctl
  imports QBaseServer
begin

text \<open>
  \<open>Qbase_devctl\<close> of \<open>QX-base/qbase_iofunc.c\<close>, one definition per command. A message is
  the length that the client announced and the bytes that are in the receive buffer; a handler
  returns the result code, the bytes of the reply, the server and the connection.
\<close>

section \<open>Messages\<close>

datatype dcmd =
    TBLCREATE | TBLSELECT | TBLDELETE | TBLFLUSH | TBLCAPSLEN | TBLCAPS | FLTRDEFINE | FLTRDELETE
  | UPDATE | UPDCUR | DELETE | FETCHRST | ERROR | INFO | SEEK | FLTRPOP | OtherCmd

record dmsg =
  m_nbytes :: nat
  m_data :: bytes

type_synonym handled = "(qerr \<times> bytes \<times> server \<times> Qbase_ocb) outcome"

definition QBASE_TBL_H :: bytes where "QBASE_TBL_H = bytes_of ''.qdbh''"
definition QBASE_TBL_D :: bytes where "QBASE_TBL_D = bytes_of ''.qdbd''"
definition QBASE_MSG_LENGTH :: nat where "QBASE_MSG_LENGTH = 2048"

text \<open>The name that \<open>memcpy (FName, desc->Name, 33)\<close> leaves in \<open>FName\<close>, if it is
  terminated there.\<close>

definition file_name :: "desc \<Rightarrow> bytes option" where
  "file_name d = (let n = take 33 (drop 8 d) in if 0 \<in> set n then Some (cstr n) else None)"

section \<open>Selecting and creating tables\<close>

definition find_table :: "server \<Rightarrow> bytes \<Rightarrow> nat option" where
  "find_table sv name =
     find (\<lambda>a. case tbl_heap sv a of Some t \<Rightarrow> td_cname (Table t) = name | None \<Rightarrow> False) (Tables sv)"

definition select_loaded :: "server \<Rightarrow> Qbase_ocb \<Rightarrow> nat \<Rightarrow> handled" where
  "select_loaded sv ocb a =
     (if ocb_Table ocb = Some a then Ok (QBASE_E_OK, [], sv, ocb)
      else bindo (deselect sv (ocb_Table ocb)) (\<lambda>sv.
        case tbl_heap sv a of
          None \<Rightarrow> Crash NullPointer
        | Some t \<Rightarrow>
            Ok (QBASE_E_OK, [],
                sv\<lparr>tbl_heap := (tbl_heap sv)(a \<mapsto> t\<lparr>locks := w32 (locks t + 1)\<rparr>)\<rparr>,
                ocb\<lparr>ocb_Table := Some a,
                    Filters := (if ocb_Table ocb = None then Filters ocb else [])\<rparr>)))"

text \<open>The new entry of a loaded table: only its last page is brought into memory. The three
  members of the entry that a release may use before they are set (\<open>Table\<close>, \<open>Pages\<close>,
  \<open>DFile\<close>) are the twelve bytes that \<open>malloc\<close> provides for it.\<close>

definition last_page :: "desc \<Rightarrow> disk \<Rightarrow> fdesc \<Rightarrow> bytes \<Rightarrow> Qbase_page" where
  "last_page d fs df old =
     (let size = page_size d; i = td_Index d div PageRows d in
      \<lparr>pg_Data = os_read fs df (w32 (i * size)) old, pg_Size = size, pg_Index = i,
       pg_LastRow = td_Index d mod PageRows d, pg_NeedSync = False\<rparr>)"

definition load_entry :: "server \<Rightarrow> fdesc \<Rightarrow> desc \<Rightarrow> ((qerr + Qbase_table) \<times> server) outcome" where
  "load_entry sv hf d =
     (case file_name d of
        None \<Rightarrow> Crash OutOfBounds
      | Some name \<Rightarrow>
          if length d < 68 then Crash OutOfBounds
          else
            let w = sv_world sv; df = os_open (w_disk w) (name @ QBASE_TBL_D);
                t = \<lparr>Table = d, Pages = [], locks = 1, PLocks = 1, HFile = hf, DFile = df\<rparr>
            in case malloc 0 w of
                (None, w) \<Rightarrow> bindo (release_unlinked (sv\<lparr>sv_world := w\<rparr>) [] (Some t))
                  (\<lambda>sv. Ok (Inl QBASE_E_MEM, sv))
              | (Some _, w) \<Rightarrow> (case malloc (page_size d) w of
                    (None, w) \<Rightarrow> bindo (release_unlinked (sv\<lparr>sv_world := w\<rparr>) [] (Some t))
                      (\<lambda>sv. Ok (Inl QBASE_E_MEM, sv))
                  | (Some old, w) \<Rightarrow>
                      if PageRows d = 0 then Crash DivideError
                      else Ok (Inr (t\<lparr>Pages := [last_page d (w_disk w) df old]\<rparr>), sv\<lparr>sv_world := w\<rparr>)))"

definition load_table :: "server \<Rightarrow> bytes \<Rightarrow> ((qerr + Qbase_table) \<times> server) outcome" where
  "load_table sv name =
     (let w = sv_world sv; hf = os_open (w_disk w) (name @ QBASE_TBL_H) in
      if hf = BadFile then Ok (Inl QBASE_E_NOTBLEXIST, sv)
      else case malloc 12 w of
          (None, w) \<Rightarrow> Ok (Inl QBASE_E_MEM, sv\<lparr>sv_world := w\<rparr>)
        | (Some junk, w) \<Rightarrow>
            let n = os_size (w_disk w) hf; sv = sv\<lparr>sv_world := w\<rparr> in
            if n = 0 then bindo (release_unlinked sv junk None) (\<lambda>sv. Ok (Inl QBASE_E_MEM, sv))
            else case malloc n w of
                (None, w) \<Rightarrow> bindo (release_unlinked (sv\<lparr>sv_world := w\<rparr>) (drop 4 junk) None)
                  (\<lambda>sv. Ok (Inl QBASE_E_MEM, sv))
              | (Some old, w) \<Rightarrow> load_entry (sv\<lparr>sv_world := w\<rparr>) hf (os_read (w_disk w) hf 0 old))"

text \<open>Linking a new entry at the head of the chain.\<close>

definition link :: "server \<Rightarrow> Qbase_table \<Rightarrow> server" where
  "link sv t = sv\<lparr>tbl_heap := (tbl_heap sv)(next_addr sv \<mapsto> t), Tables := next_addr sv # Tables sv,
                  next_addr := Suc (next_addr sv)\<rparr>"

definition cmd_TBLSELECT :: "server \<Rightarrow> Qbase_ocb \<Rightarrow> dmsg \<Rightarrow> handled" where
  "cmd_TBLSELECT sv ocb m =
     (if QBASE_TAB_NAMELEN < m_nbytes m then Ok (QBASE_E_BUF, [], sv, ocb)
      else if 0 \<notin> set (take (m_nbytes m) (m_data m)) then Crash OutOfBounds
      else
        let name = cstr (m_data m) in
        case find_table sv name of
          Some a \<Rightarrow> select_loaded sv ocb a
        | None \<Rightarrow> (case load_table sv name of
              Crash c \<Rightarrow> Crash c
            | Ok (Inl err, sv) \<Rightarrow> Ok (err, [], sv, ocb)
            | Ok (Inr t, sv) \<Rightarrow>
                let a = next_addr sv in
                bindo (deselect (link sv t) (ocb_Table ocb)) (\<lambda>sv.
                  Ok (QBASE_E_OK, [], sv, ocb\<lparr>ocb_Table := Some a, Record := 0, Filters := []\<rparr>))))"

text \<open>The entry of a new table, after the checks; both files are written.\<close>

definition create_entry :: "server \<Rightarrow> bytes \<Rightarrow> desc \<Rightarrow> bytes \<Rightarrow> Qbase_table \<times> server" where
  "create_entry sv name d data =
     (let h = name @ QBASE_TBL_H; n = name @ QBASE_TBL_D;
          fs = os_write (os_create (w_disk (sv_world sv)) h) (File h) 0 d;
          fs = os_write (os_create fs n) (File n) 0 data;
          p = \<lparr>pg_Data = data, pg_Size = page_size d, pg_Index = 0, pg_LastRow = 0, pg_NeedSync = False\<rparr>
      in (\<lparr>Table = d, Pages = [p], locks = 1, PLocks = 1, HFile = File h, DFile = File n\<rparr>,
          sv\<lparr>sv_world := (sv_world sv)\<lparr>w_disk := fs\<rparr>\<rparr>))"

definition create_table :: "server \<Rightarrow> bytes \<Rightarrow> bytes \<Rightarrow> ((qerr + Qbase_table) \<times> server) outcome" where
  "create_table sv name m =
     (case malloc 12 (sv_world sv) of
        (None, w) \<Rightarrow> Ok (Inl QBASE_E_MEM, sv\<lparr>sv_world := w\<rparr>)
      | (Some junk, w) \<Rightarrow>
          let unset = take 4 (drop 4 junk) in
          (case malloc (td_Size m) w of
             (None, w) \<Rightarrow> bindo (release_unlinked (sv\<lparr>sv_world := w\<rparr>) unset None)
               (\<lambda>sv. Ok (Inl QBASE_E_MEM, sv))
           | (Some _, w) \<Rightarrow>
               if length m < td_Size m \<or> td_Size m < 68 then Crash OutOfBounds
               else
                 let d = take (td_Size m) m; sv = sv\<lparr>sv_world := w\<rparr> in
                 if LockPages d < 3 then bindo (release_unlinked sv unset None)
                   (\<lambda>sv. Ok (Inl QBASE_E_FEWPLOCKS, sv))
                 else (case malloc 0 w of
                     (None, w) \<Rightarrow> bindo (release_unlinked (sv\<lparr>sv_world := w\<rparr>) [] None)
                       (\<lambda>sv. Ok (Inl QBASE_E_MEM, sv))
                   | (Some _, w) \<Rightarrow> (case malloc (page_size d) w of
                         (None, w) \<Rightarrow> bindo (release_unlinked (sv\<lparr>sv_world := w\<rparr>) [] None)
                           (\<lambda>sv. Ok (Inl QBASE_E_MEM, sv))
                       | (Some data, w) \<Rightarrow>
                           let (t, sv) = create_entry (sv\<lparr>sv_world := w\<rparr>) name d data
                           in Ok (Inr t, sv)))))"

definition cmd_TBLCREATE :: "server \<Rightarrow> Qbase_ocb \<Rightarrow> dmsg \<Rightarrow> handled" where
  "cmd_TBLCREATE sv ocb m =
     (if m_nbytes m < sizeof_table_desc then Ok (QBASE_E_BUF, [], sv, ocb)
      else if length (m_data m) < m_nbytes m then Crash OutOfBounds
      else case file_name (m_data m) of
          None \<Rightarrow> Crash OutOfBounds
        | Some name \<Rightarrow>
            if os_open (w_disk (sv_world sv)) (name @ QBASE_TBL_H) \<noteq> BadFile
            then Ok (QBASE_E_ALREADY, [], sv, ocb)
            else (case create_table sv name (m_data m) of
                Crash c \<Rightarrow> Crash c
              | Ok (Inl err, sv) \<Rightarrow> Ok (err, [], sv, ocb)
              | Ok (Inr t, sv) \<Rightarrow>
                  bindo (deselect sv (ocb_Table ocb)) (\<lambda>sv.
                    Ok (QBASE_E_OK, [], link sv t,
                        ocb\<lparr>ocb_Table := Some (next_addr sv), Record := 0, Filters := []\<rparr>))))"

section \<open>Commands on the selected table\<close>

text \<open>The guard that most commands share: no table selected.\<close>

definition with_table :: "server \<Rightarrow> Qbase_ocb \<Rightarrow> (nat \<Rightarrow> Qbase_table \<Rightarrow> handled) \<Rightarrow> handled" where
  "with_table sv ocb f =
     (case ocb_Table ocb of
        None \<Rightarrow> Ok (QBASE_E_NOTBLSEL, [], sv, ocb)
      | Some a \<Rightarrow> (case tbl_heap sv a of None \<Rightarrow> Crash NullPointer | Some t \<Rightarrow> f a t))"

definition cmd_TBLFLUSH :: "server \<Rightarrow> Qbase_ocb \<Rightarrow> handled" where
  "cmd_TBLFLUSH sv ocb = with_table sv ocb (\<lambda>a t.
     let (t', fs) = Qbase_TableSync t (w_disk (sv_world sv))
     in Ok (QBASE_E_OK, [], set_table sv a t' ((sv_world sv)\<lparr>w_disk := fs\<rparr>), ocb))"

definition srv_info :: "nat \<Rightarrow> bytes" where
  "srv_info start = put32 (put32 (put32 (put32 (replicate 16 0) 0 1) 4 (word_of_nat QBASE_MSG_LENGTH))
     8 (word_of_nat QBASE_TAB_NAMELEN)) 12 (word_of_nat start)"

definition cmd_INFO :: "server \<Rightarrow> Qbase_ocb \<Rightarrow> dmsg \<Rightarrow> handled" where
  "cmd_INFO sv ocb m =
     (if m_nbytes m < 16 then Ok (QBASE_E_BUF, [], sv, ocb)
      else Ok (QBASE_E_OK, srv_info (StartTime sv), sv, ocb))"

definition cmd_FETCHRST :: "server \<Rightarrow> Qbase_ocb \<Rightarrow> handled" where
  "cmd_FETCHRST sv ocb =
     (if ocb_Table ocb \<noteq> None then Ok (QBASE_E_OK, [], sv, ocb\<lparr>Record := 0\<rparr>)
      else Ok (QBASE_E_NOTBLSEL, [], sv, ocb))"

definition cmd_TBLCAPSLEN :: "server \<Rightarrow> Qbase_ocb \<Rightarrow> handled" where
  "cmd_TBLCAPSLEN sv ocb = with_table sv ocb (\<lambda>a t.
     Ok (QBASE_E_OK, put32 (replicate 4 0) 0 (word_of_nat (td_Size (Table t))), sv, ocb))"

text \<open>The descriptor is copied into the receive buffer, which holds \<open>QBASE_MSG_LENGTH\<close>
  bytes with the sixteen of the message header.\<close>

definition cmd_TBLCAPS :: "server \<Rightarrow> Qbase_ocb \<Rightarrow> handled" where
  "cmd_TBLCAPS sv ocb = with_table sv ocb (\<lambda>a t.
     let n = td_Size (Table t) in
     if length (Table t) < n \<or> QBASE_MSG_LENGTH - 16 < n then Crash OutOfBounds
     else Ok (QBASE_E_OK, take n (Table t), sv, ocb))"

definition cmd_SEEK :: "server \<Rightarrow> Qbase_ocb \<Rightarrow> dmsg \<Rightarrow> handled" where
  "cmd_SEEK sv ocb m =
     (case ocb_Table ocb of
        None \<Rightarrow> Crash NullPointer
      | Some a \<Rightarrow> (case tbl_heap sv a of
            None \<Rightarrow> Crash NullPointer
          | Some t \<Rightarrow>
              if m_nbytes m = 4 then
                if length (m_data m) < 4 then Crash OutOfBounds
                else
                  let r = w32 (unat (get32 (m_data m) 0) + 4294967295) in
                  if td_Index (Table t) < r then Ok (QBASE_E_PKEY, [], sv, ocb\<lparr>Record := 0\<rparr>)
                  else Ok (QBASE_E_OK, [], sv, ocb\<lparr>Record := r\<rparr>)
              else Ok (QBASE_E_BUF, [], sv, ocb)))"

section \<open>Filter commands\<close>

definition cmd_FLTRDELETE :: "server \<Rightarrow> Qbase_ocb \<Rightarrow> handled" where
  "cmd_FLTRDELETE sv ocb = Ok (QBASE_E_OK, [], sv, ocb\<lparr>Filters := [], Record := 0\<rparr>)"

definition cmd_FLTRPOP :: "server \<Rightarrow> Qbase_ocb \<Rightarrow> handled" where
  "cmd_FLTRPOP sv ocb = Ok (QBASE_E_OK, [], sv, ocb\<lparr>Filters := tl (Filters ocb)\<rparr>)"

definition sizeof_filter :: nat where "sizeof_filter = 32"

text \<open>The rule in the message, with the members that the server fills in. A field type beyond
  \<open>FFUNCS\<close> would make a function pointer of whatever follows that array.\<close>

definition filter_of :: "desc \<Rightarrow> bytes \<Rightarrow> Qbase_filter" where
  "filter_of d b =
     (let j = unat (get32 b 4) in
      \<lparr>Flags = get32 b 0, FNum = j, Field = fd_Offset d j, FSize = fd_Length d j,
       VSize = unat (get32 b 16), cmp_func = fd_Type d j, Value = drop 28 b\<rparr>)"

definition cmd_FLTRDEFINE :: "server \<Rightarrow> Qbase_ocb \<Rightarrow> dmsg \<Rightarrow> handled" where
  "cmd_FLTRDEFINE sv ocb m = with_table sv ocb (\<lambda>a t.
     if m_nbytes m < sizeof_filter then Ok (QBASE_E_BUF, [], sv, ocb)
     else case malloc 0 (sv_world sv) of
         (None, w) \<Rightarrow> Ok (QBASE_E_MEM, [], sv\<lparr>sv_world := w\<rparr>, ocb)
       | (Some _, w) \<Rightarrow>
           let sv = sv\<lparr>sv_world := w\<rparr>; d = Table t; b = take (m_nbytes m) (m_data m) in
           if length b < m_nbytes m then Crash OutOfBounds
           else if FieldNum d \<le> unat (get32 b 4) then Ok (QBASE_E_FLTR, [], sv, ocb)
           else
             let c = filter_of d b in
             if length d < 80 + 12 * FNum c \<or> 8 \<le> cmp_func c then Crash OutOfBounds
             else Ok (QBASE_E_OK, [], sv, ocb\<lparr>Filters := c # Filters ocb, Record := 0\<rparr>))"

section \<open>Updating and deleting\<close>

definition change_row :: "cenv \<Rightarrow> dcmd \<Rightarrow> desc \<Rightarrow> bytes \<Rightarrow> bytes \<Rightarrow> bytes outcome" where
  "change_row e cmd d urule row =
     (if cmd = DELETE then Ok (put32 row 0 0)
      else if length urule < FieldNum d \<or> length d < 68 + 12 * FieldNum d then Crash OutOfBounds
      else update_row e d urule row)"

text \<open>The rows of one page from row \<open>r\<close> on, at most \<open>left\<close> of them. The result is the
  data of the page, how many rows are still to be looked at, and whether any was changed.\<close>

function upd_rows ::
    "cenv \<Rightarrow> Qbase_filter list \<Rightarrow> dcmd \<Rightarrow> desc \<Rightarrow> bytes \<Rightarrow> nat \<Rightarrow> nat \<Rightarrow> nat \<Rightarrow> bytes \<Rightarrow> bool \<Rightarrow>
     (bytes \<times> nat \<times> bool) outcome" where
  "upd_rows e fs cmd d urule last_row r left data dirty =
     (if r < last_row \<and> 0 < left then
        (case slice data (r * RowLen d) (RowLen d) of
           None \<Rightarrow> Crash OutOfBounds
         | Some row \<Rightarrow>
             bindo (Qbase_data_filter e fs row) (\<lambda>v.
               bindo (if v = Match then
                        bindo (change_row e cmd d urule row) (\<lambda>row'. Ok (blit data (r * RowLen d) row', True))
                      else Ok (data, dirty)) (\<lambda>(data', dirty').
                 if v = StrictBroken \<or> cmd = UPDCUR then Ok (data', 0, dirty')
                 else upd_rows e fs cmd d urule last_row (Suc r) (left - 1) data' dirty')))
      else Ok (data, left, dirty))"
  by pat_completeness auto
termination
  by (relation "measure (\<lambda>(e, fs, cmd, d, urule, last_row, r, left, data, dirty). last_row - r)") auto

declare upd_rows.simps [simp del]

definition set_page :: "Qbase_table \<Rightarrow> nat \<Rightarrow> bytes \<Rightarrow> bool \<Rightarrow> Qbase_table" where
  "set_page t i data dirty =
     t\<lparr>Pages := (Pages t)[i := (Pages t ! i)\<lparr>pg_Data := data, pg_NeedSync := pg_NeedSync (Pages t ! i) \<or> dirty\<rparr>]\<rparr>"

lemma max_index_set_page [simp]: "max_index (Pages (set_page t i data dirty)) = max_index (Pages t)"
proof -
  have "map pg_Index (Pages (set_page t i data dirty)) = map pg_Index (Pages t)"
    by (cases "i < length (Pages t)")
      (auto simp: set_page_def nth_list_update intro!: nth_equalityI)
  then show ?thesis by (simp add: max_index_def)
qed

text \<open>The pages from \<open>P\<close> on. Where a page cannot be had, the result code is what
  \<open>Qerrno\<close> holds: the failure of the paging, or the result \<open>q\<close> of the previous request.\<close>

function upd_pages ::
    "cenv \<Rightarrow> Qbase_filter list \<Rightarrow> dcmd \<Rightarrow> bytes \<Rightarrow> qerr \<Rightarrow> Qbase_table \<Rightarrow> world \<Rightarrow> nat \<Rightarrow> nat \<Rightarrow> nat \<Rightarrow>
     (qerr \<times> Qbase_table \<times> world) outcome" where
  "upd_pages e fs cmd urule q t w left P R =
     (if 0 < left then
        (case LockTablePage t w P of
           Crash c \<Rightarrow> Crash c
         | Ok (NoPage, t', w') \<Rightarrow> Ok (q, t', w')
         | Ok (PagingFailed, t', w') \<Rightarrow> Ok (QBASE_E_PAGING, t', w')
         | Ok (Locked i, t', w') \<Rightarrow>
             (case upd_rows e fs cmd (Table t') urule (pg_LastRow (Pages t' ! i)) R left
                 (pg_Data (Pages t' ! i)) False of
                Crash c \<Rightarrow> Crash c
              | Ok (data, left', dirty) \<Rightarrow>
                  upd_pages e fs cmd urule q (set_page t' i data dirty) w' left' (Suc P) 0))
      else Ok (QBASE_E_OK, t, w))"
  by pat_completeness auto
termination
  by (relation "measure (\<lambda>(e, fs, cmd, urule, q, t, w, left, P, R). Suc (max_index (Pages t)) - P)")
    (auto dest!: LockTablePage_search_bound)

declare upd_pages.simps [simp del]

definition cmd_UPDATE :: "cenv \<Rightarrow> dcmd \<Rightarrow> server \<Rightarrow> Qbase_ocb \<Rightarrow> dmsg \<Rightarrow> handled" where
  "cmd_UPDATE e cmd sv ocb m = with_table sv ocb (\<lambda>a t.
     let d = Table t; usize = w32 (4 + FieldNum d + RowLen d) in
     if cmd \<noteq> DELETE \<and> m_nbytes m < usize then Ok (QBASE_E_BUF, [], sv, ocb)
     else if cmd = UPDCUR \<and> PageRows d = 0 then Crash DivideError
     else
       let P = (if cmd = UPDCUR then Record ocb div PageRows d else 0);
           R = (if cmd = UPDCUR then Record ocb mod PageRows d else 0) in
       (case upd_pages e (Filters ocb) cmd (drop 4 (m_data m)) (Qerrno ocb) t (sv_world sv)
           (td_Index d) P R of
          Crash c \<Rightarrow> Crash c
        | Ok (q, t', w') \<Rightarrow> Ok (q, [], set_table sv a t' w', ocb)))"

section \<open>The dispatcher\<close>

datatype dreply = DENOSYS | Reply qerr bytes

definition dispatch :: "cenv \<Rightarrow> dcmd \<Rightarrow> server \<Rightarrow> Qbase_ocb \<Rightarrow> dmsg \<Rightarrow> handled option" where
  "dispatch e cmd sv ocb m =
     (case cmd of
        TBLSELECT \<Rightarrow> Some (cmd_TBLSELECT sv ocb m)
      | TBLCREATE \<Rightarrow> Some (cmd_TBLCREATE sv ocb m)
      | ERROR \<Rightarrow> Some (Ok (Qerrno ocb, [], sv, ocb))
      | TBLFLUSH \<Rightarrow> Some (cmd_TBLFLUSH sv ocb)
      | INFO \<Rightarrow> Some (cmd_INFO sv ocb m)
      | FETCHRST \<Rightarrow> Some (cmd_FETCHRST sv ocb)
      | TBLCAPSLEN \<Rightarrow> Some (cmd_TBLCAPSLEN sv ocb)
      | TBLCAPS \<Rightarrow> Some (cmd_TBLCAPS sv ocb)
      | FLTRDELETE \<Rightarrow> Some (cmd_FLTRDELETE sv ocb)
      | FLTRPOP \<Rightarrow> Some (cmd_FLTRPOP sv ocb)
      | FLTRDEFINE \<Rightarrow> Some (cmd_FLTRDEFINE sv ocb m)
      | UPDATE \<Rightarrow> Some (cmd_UPDATE e cmd sv ocb m)
      | UPDCUR \<Rightarrow> Some (cmd_UPDATE e cmd sv ocb m)
      | DELETE \<Rightarrow> Some (cmd_UPDATE e cmd sv ocb m)
      | SEEK \<Rightarrow> Some (cmd_SEEK sv ocb m)
      | TBLDELETE \<Rightarrow> None
      | OtherCmd \<Rightarrow> None)"

definition Qbase_devctl ::
    "cenv \<Rightarrow> dcmd \<Rightarrow> server \<Rightarrow> Qbase_ocb \<Rightarrow> dmsg \<Rightarrow> (dreply \<times> server \<times> Qbase_ocb) outcome" where
  "Qbase_devctl e cmd sv ocb m =
     (case dispatch e cmd sv ocb m of
        None \<Rightarrow> Ok (DENOSYS, sv, ocb\<lparr>Qerrno := QBASE_E_NOTSUPP\<rparr>)
      | Some r \<Rightarrow> bindo r (\<lambda>(q, bs, sv, ocb). Ok (Reply q bs, sv, ocb\<lparr>Qerrno := q\<rparr>)))"

end
