(* ===== verification/QBaseRows.thy ===== *)
theory QBaseRows
  imports QBaseDevctl
begin

text \<open>
  \<open>Qbase_write\<close> on the rows of a table: it appends one row with the next key. The last page of
  the pool either takes the row or, when it is full, is written back and reused for the next page
  index; both steps are composed of the page lemmas of \<open>QBaseStore\<close>.
\<close>

section \<open>Writing\<close>

lemma psize_set_Index [simp]: "psize (set_Index d n) = psize d"
  by (simp add: psize_def)

lemma pool_ok_set_Index [simp]: "pool_ok (set_Index d n) = pool_ok d"
  by (simp add: fun_eq_iff pool_ok_def page_ok_def in_file_def)

lemma file_page_set_Index [simp]: "file_page (set_Index d n) = file_page d"
  by (simp add: fun_eq_iff file_page_def)

lemma stored_set_Index [simp]: "stored (set_Index d n) = stored d"
  by (simp add: fun_eq_iff stored_def split: option.split)

lemma psize_pos: "table_ok t fs \<Longrightarrow> 0 < psize (Table t)"
  by (simp add: table_ok_def Let_def psize_def)

lemma pool_advance:
  assumes ok: "pool_ok d c (xs @ [p])" and full: "pg_LastRow p = PageRows d" and pos: "0 < psize d"
    and clean: "\<not> pg_NeedSync p" and q: "q = p\<lparr>pg_Index := pg_Index p + 1, pg_LastRow := 0\<rparr>"
  shows "pool_ok d c (xs @ [q])" "m \<le> pg_Index p \<Longrightarrow> stored d (xs @ [q]) c m = stored d (xs @ [p]) c m"
proof -
  note D = pool_okD [OF ok]
  have okp: "page_ok d p" and inf: "in_file d c p" using D(3,6) clean by auto
  have "pg_LastRow p * RowLen d = psize d" using full by (simp add: psize_def)
  then have len: "pg_Index p * psize d + psize d \<le> length c"
    using in_file_length [OF inf okp refl] pos by simp
  show "pool_ok d c (xs @ [q])"
  proof (rule pool_okI)
    show "sorted_wrt (\<lambda>p q. pg_Index p < pg_Index q) (xs @ [q])"
      using D(2) by (auto simp: sorted_wrt_append q)
    show "page_ok d x" if "x \<in> set (xs @ [q])" for x
      using that D(3) okp by (auto simp: q page_ok_def)
    show "pg_LastRow x = PageRows d" if "x \<in> set (butlast (xs @ [q]))" for x
      using that D(4) by simp
    show "pg_Index (last (xs @ [q])) * psize d \<le> length c" using len by (simp add: q add.commute)
    show "in_file d c x" if "x \<in> set (xs @ [q])" "\<not> pg_NeedSync x" for x
      using that D(6) by (auto simp: q in_file_def)
  qed simp
  assume m: "m \<le> pg_Index p"
  have lt: "pg_Index x < pg_Index p" if "x \<in> set xs" for x using D(2) that by (auto simp: sorted_wrt_append)
  show "stored d (xs @ [q]) c m = stored d (xs @ [p]) c m"
  proof (cases "m = pg_Index p")
    case True
    have "m \<notin> pg_Index ` set (xs @ [q])" unfolding True by (auto simp: q dest!: lt)
    then have "stored d (xs @ [q]) c m = pg_Data p"
      using True in_file_full [OF inf okp full] by (simp add: stored_on_disk)
    with True stored_in_pool [OF D(2), of p m] show ?thesis by simp
  next
    case False
    have "find (\<lambda>x. pg_Index x = m) (xs @ [q]) = find (\<lambda>x. pg_Index x = m) (xs @ [p])"
      using False m by (induction xs) (auto simp: q)
    then show ?thesis by (simp add: stored_def)
  qed
qed

lemma stored_last:
  assumes "table_ok t fs"
  shows "stored (Table t) (Pages t) c (pg_Index (LastPage t)) = pg_Data (LastPage t)"
  using stored_in_pool [OF pool_okD(2) [OF table_okD(1) [OF assms]], of "LastPage t"] table_okD(8) [OF assms]
  by simp

lemma pages_snoc: "table_ok t fs \<Longrightarrow> Pages t = butlast (Pages t) @ [LastPage t]"
  using table_okD(8) by simp

lemma last_page_ok: "table_ok t fs \<Longrightarrow> page_ok (Table t) (LastPage t)"
  using pool_okD(3) [OF table_okD(1)] table_okD(8) by simp

text \<open>Writing the last page back.\<close>

lemma sync_last:
  assumes ok: "table_ok t fs" and s: "Qbase_PageSync (LastPage t) (DFile t) fs = (p', fs')"
    and c': "c' = data_of t fs'"
  shows "pool_ok (Table t) c' (butlast (Pages t) @ [p'])" "files_ok t fs'"
    "same_rows (Table t) (Pages t) (data_of t fs) (butlast (Pages t) @ [p']) c'"
    "p' = (LastPage t)\<lparr>pg_NeedSync := False\<rparr>"
proof -
  note D = table_okD [OF ok]
  show p': "p' = (LastPage t)\<lparr>pg_NeedSync := False\<rparr>"
    using s by (auto simp: Qbase_PageSync_def split: if_splits)
  have "pool_ok (Table t) c' (butlast (Pages t) @ [p']) \<and> files_ok t fs' \<and>
    same_rows (Table t) (Pages t) (data_of t fs) (butlast (Pages t) @ [p']) c'"
  proof (cases "pg_NeedSync (LastPage t)")
    case True
    let ?off = "pg_Index (LastPage t) * psize (Table t)"
    have fs': "fs' = os_write fs (DFile t) ?off (pg_Data (LastPage t))"
      using s True last_page_ok [OF ok] table_offset(2) [OF ok order_refl]
      by (simp add: Qbase_PageSync_def page_ok_def)
    have "c' = pwrite (data_of t fs) ?off (pg_Data (LastPage t))"
      unfolding c' fs' by (rule data_of_write(1) [OF D(2) refl])
    from pool_sync [OF D(1) pages_snoc [OF ok] refl p' this] data_of_write(2) [OF D(2)] fs'
    show ?thesis by simp
  next
    case False
    then have "p' = LastPage t" "fs' = fs" using s by (auto simp: Qbase_PageSync_def)
    then show ?thesis using D(1,2) pages_snoc [OF ok] same_rows_refl c' by simp
  qed
  then show "pool_ok (Table t) c' (butlast (Pages t) @ [p'])" "files_ok t fs'"
    "same_rows (Table t) (Pages t) (data_of t fs) (butlast (Pages t) @ [p']) c'" by blast+
qed

lemma full_last:
  assumes "table_ok t fs" "PageRows (Table t) \<le> pg_LastRow (LastPage t)"
  shows "pg_LastRow (LastPage t) = PageRows (Table t)"
    "td_Index (Table t) = (pg_Index (LastPage t) + 1) * PageRows (Table t)"
  using assms table_okD(10) [OF assms(1)] last_page_ok [OF assms(1)] by (auto simp: page_ok_def)

text \<open>Room for one more page: no file offset reaches the sign bit.\<close>

definition roomy :: "Qbase_table \<Rightarrow> bool" where
  "roomy t \<longleftrightarrow> (pg_Index (LastPage t) + 2) * psize (Table t) < 2147483648"

lemma advance_ok:
  assumes ok: "table_ok t fs" and room: "roomy t" and a: "advance_last t fs = (t', fs')"
  shows "table_ok t' fs' \<and> table_rows t' fs' = table_rows t fs \<and> Table t' = Table t \<and>
    pg_LastRow (LastPage t') < PageRows (Table t)"
proof (cases "PageRows (Table t) \<le> pg_LastRow (LastPage t)")
  case False
  then show ?thesis using a ok by (simp add: advance_last_def)
next
  case True
  let ?d = "Table t" and ?xs = "butlast (Pages t)"
  note D = table_okD [OF ok] and full = full_last [OF ok True]
  obtain p fs1 where s: "Qbase_PageSync (LastPage t) (DFile t) fs = (p, fs1)" by fastforce
  note sl = sync_last [OF ok s refl]
  let ?q = "p\<lparr>pg_Index := pg_Index p + 1, pg_LastRow := 0\<rparr>"
  have idx: "pg_Index p = pg_Index (LastPage t)" "pg_LastRow p = PageRows ?d" "\<not> pg_NeedSync p"
    using sl(4) full by auto
  have "1 \<le> psize ?d" using psize_pos [OF ok] by simp
  then have "(pg_Index (LastPage t) + 2) * 1 \<le> (pg_Index (LastPage t) + 2) * psize ?d" by (rule mult_le_mono2)
  from le_less_trans [OF this room [unfolded roomy_def]]
  have "w32 (pg_Index p + 1) = pg_Index p + 1" using idx by simp
  then have t': "t' = t\<lparr>Pages := ?xs @ [?q]\<rparr>" and fs': "fs' = Qbase_HeadSync t fs1"
    using a True s by (auto simp: advance_last_def)
  have dt: "data_of t' fs' = data_of t fs1"
    unfolding fs' using data_of_HeadSync(1) [OF sl(2)] by (simp add: t')
  note adv = pool_advance [OF sl(1) idx(2) psize_pos [OF ok] idx(3) refl]
  have "files_ok t fs'" unfolding fs' by (rule data_of_HeadSync(2) [OF sl(2) refl])
  then have "table_ok t' fs'"
    using adv(1) D full room idx dt by (simp add: table_ok_def files_ok_def t' roomy_def)
  moreover have "row_at t' fs' k = row_at t fs k" if k: "k < td_Index ?d" for k
  proof -
    note u = row_in_used [OF ok k]
    have "take (used ?d (Pages t) (k div PageRows ?d)) (stored ?d (?xs @ [?q]) (data_of t fs1) (k div PageRows ?d))
      = take (used ?d (Pages t) (k div PageRows ?d)) (stored ?d (Pages t) (data_of t fs) (k div PageRows ?d))"
      using adv(2) [of "k div PageRows ?d"] sl(3) u(1) idx(1) by (simp add: same_rows_def)
    with u(2) show ?thesis unfolding row_at_def dt
      by (auto simp: t' Let_def intro: take_drop_part)
  qed
  ultimately show ?thesis using D(6) by (simp add: t' table_rows_def)
qed

text \<open>Adding a row to a last page that has room.\<close>

lemma append_row:
  assumes ok: "table_ok t fs" and room: "pg_LastRow (LastPage t) < PageRows (Table t)"
    and row: "length row = RowLen (Table t)"
    and p': "p' = (LastPage t)\<lparr>pg_Data := blit (pg_Data (LastPage t)) (pg_LastRow (LastPage t) * RowLen (Table t)) row,
      pg_LastRow := pg_LastRow (LastPage t) + 1, pg_NeedSync := True\<rparr>"
    and t': "t' = t\<lparr>Table := set_Index (Table t) (td_Index (Table t) + 1), Pages := butlast (Pages t) @ [p']\<rparr>"
  shows "table_ok t' fs \<and> table_rows t' fs = table_rows t fs @ [row] \<and> td_Index (Table t') = td_Index (Table t) + 1"
proof -
  let ?d = "Table t" and ?p = "LastPage t" and ?xs = "butlast (Pages t)" and ?c = "data_of t fs"
  let ?P = "PageRows ?d" and ?n = "RowLen ?d" and ?L = "pg_Index (LastPage t)"
  note D = table_okD [OF ok] and pl = pool_okD [OF table_okD(1) [OF ok]]
  have okp: "page_ok ?d ?p" by (rule last_page_ok [OF ok])
  have "Suc (pg_LastRow ?p) * ?n \<le> ?P * ?n" using room by (intro mult_le_mono1) simp
  then have off: "pg_LastRow ?p * ?n + ?n \<le> psize ?d" by (simp add: psize_def mult.commute)
  then have fits: "pg_LastRow ?p * ?n + length row \<le> length (pg_Data ?p)"
    using row okp by (simp add: page_ok_def)
  have snoc: "Pages t = ?xs @ [?p]" by (rule pages_snoc [OF ok])
  have srt: "sorted_wrt (\<lambda>p q. pg_Index p < pg_Index q) (?xs @ [?p])" using pl(2) snoc by simp
  have srt': "sorted_wrt (\<lambda>p q. pg_Index p < pg_Index q) (?xs @ [p'])"
    by (rule sorted_split(3) [OF srt]) (simp add: p')
  have "?P \<le> psize ?d" using D(7) by (simp add: psize_def)
  then have "(?L + 1) * ?P \<le> (?L + 1) * psize ?d" by (rule mult_le_mono2)
  then have "td_Index ?d + 1 < 2147483648" using D(10,11) room by simp
  then have idx: "td_Index (set_Index ?d (td_Index ?d + 1)) = td_Index ?d + 1" using D(9) by simp
  have pool: "pool_ok ?d ?c (?xs @ [p'])"
  proof (rule pool_okI)
    show "page_ok ?d x" if "x \<in> set (?xs @ [p'])" for x
      using that pl(3) okp room fits in_set_butlastD by (fastforce simp: p' page_ok_def length_blit)
    show "pg_LastRow x = ?P" if "x \<in> set (butlast (?xs @ [p']))" for x using that pl(4) by simp
    show "pg_Index (last (?xs @ [p'])) * psize ?d \<le> length ?c" using pl(5) by (simp add: p')
    show "in_file ?d ?c x" if "x \<in> set (?xs @ [p'])" "\<not> pg_NeedSync x" for x
      using that pl(6) in_set_butlastD by (fastforce simp: p')
  qed (use srt' in auto)
  have okt: "table_ok t' fs"
    using pool D idx by (simp add: table_ok_def files_ok_def t' data_of_def p')
  have st: "stored ?d (?xs @ [p']) ?c m = (if m = ?L then pg_Data p' else stored ?d (Pages t) ?c m)" for m
  proof (cases "m = ?L")
    case True
    then show ?thesis using stored_in_pool [OF srt', of p' m] by (simp add: p')
  next
    case False
    have "find (\<lambda>x. pg_Index x = m) (zs @ [p']) = find (\<lambda>x. pg_Index x = m) (zs @ [?p])" for zs
      using False by (induction zs) (auto simp: p')
    then show ?thesis using False snoc by (simp add: stored_def)
  qed
  have at: "row_at t' fs k = take ?n (drop (k mod ?P * ?n) (if k div ?P = ?L then pg_Data p' else stored ?d (Pages t) ?c (k div ?P)))" for k
    by (simp add: row_at_def t' data_of_def [of "t\<lparr>Table := _, Pages := _\<rparr>"] data_of_def [of t, symmetric] st)
  have new: "row_at t' fs (td_Index ?d) = row"
  proof -
    have "td_Index ?d div ?P = ?L" "td_Index ?d mod ?P = pg_LastRow ?p"
      using D(10) room by (simp_all add: div_mult_self3)
    then show ?thesis using fits row by (simp add: at p' slice_blit)
  qed
  have old: "row_at t' fs k = row_at t fs k" if k: "k < td_Index ?d" for k
  proof (cases "k div ?P = ?L")
    case True
    then have "k mod ?P * ?n + ?n \<le> pg_LastRow ?p * ?n"
      using row_in_used(2) [OF ok k] by (simp add: used_def)
    moreover have "take (pg_LastRow ?p * ?n) (pg_Data p') = take (pg_LastRow ?p * ?n) (pg_Data ?p)"
      using fits by (simp add: p' take_blit)
    ultimately show ?thesis
      unfolding at unfolding row_at_def Let_def using True stored_last [OF ok] take_drop_part by auto
  next
    case False
    then show ?thesis unfolding at unfolding row_at_def Let_def by simp
  qed
  have "table_rows t' fs = table_rows t fs @ [row]"
    using old new idx by (simp add: table_rows_def t')
  with okt idx show ?thesis by (simp add: t')
qed

definition stamp :: "bytes \<Rightarrow> nat \<Rightarrow> bytes" where
  "stamp row key = put32 row 0 (word_of_nat key)"

lemma Qbase_write_unfold:
  assumes "ocb_Table ocb = Some a" "tbl_heap sv a = Some t" "xt AND 1 = 0"
    and "RowLen (Table t) \<le> claimed" "advance_last t (w_disk (sv_world sv)) = (t1, fs)"
    and "Table t1 = Table t" "68 \<le> length (Table t)" "4 \<le> RowLen (Table t)"
    and "pg_LastRow (LastPage t1) * RowLen (Table t) + RowLen (Table t) \<le> length (pg_Data (LastPage t1))"
    and "RowLen (Table t) \<le> length payload" "td_Index (Table t) + 1 < 4294967296"
    and "pg_LastRow (LastPage t1) + 1 < 4294967296"
  shows "Qbase_write xt claimed payload sv ocb = Ok (Written (RowLen (Table t)),
    set_table sv a (t1\<lparr>Table := set_Index (Table t1) (td_Index (Table t1) + 1), Pages := butlast (Pages t1) @
      [(LastPage t1)\<lparr>pg_Data := blit (pg_Data (LastPage t1)) (pg_LastRow (LastPage t1) * RowLen (Table t1))
          (stamp (take (RowLen (Table t)) payload) (td_Index (Table t) + 1)),
        pg_LastRow := pg_LastRow (LastPage t1) + 1, pg_NeedSync := True\<rparr>]\<rparr>)
      ((sv_world sv)\<lparr>w_disk := fs\<rparr>), ocb\<lparr>Record := td_Index (Table t)\<rparr>)"
proof -
  have "w32 (td_Index (Table t) + 1 + 4294967295) = td_Index (Table t)"
    using assms(11) by (simp add: w32_def)
  with assms show ?thesis
    by (simp add: Qbase_write_def Let_def stamp_def)
qed

text \<open>C4: On a well-formed table with room for one more page, a write of a whole row appends
  it: the table has the same rows as before and then the new one, in which the server replaced the
  first four bytes by the next key; the table stays well-formed, whether or not its last page was
  full; and the connection's next read starts at the new row.\<close>

theorem write_appends_row:
  assumes sel: "ocb_Table ocb = Some a" "tbl_heap sv a = Some t" and fs: "fs = w_disk (sv_world sv)"
    and ok: "table_ok t fs" "roomy t" and xt: "xt AND 1 = 0"
    and len: "RowLen (Table t) \<le> claimed" "RowLen (Table t) \<le> length payload"
  shows "\<exists>sv' t'. Qbase_write xt claimed payload sv ocb =
      Ok (Written (RowLen (Table t)), sv', ocb\<lparr>Record := td_Index (Table t)\<rparr>) \<and>
    tbl_heap sv' = (tbl_heap sv)(a \<mapsto> t') \<and> table_ok t' (w_disk (sv_world sv')) \<and>
    table_rows t' (w_disk (sv_world sv')) =
      table_rows t fs @ [stamp (take (RowLen (Table t)) payload) (td_Index (Table t) + 1)]"
proof -
  obtain t1 fs1 where adv: "advance_last t fs = (t1, fs1)" by fastforce
  note A = advance_ok [OF ok adv]
  then have ok1: "table_ok t1 fs1" and T: "Table t1 = Table t"
    and room: "pg_LastRow (LastPage t1) < PageRows (Table t1)" by auto
  note D = table_okD [OF ok1]
  let ?row = "stamp (take (RowLen (Table t)) payload) (td_Index (Table t) + 1)"
  have lrow: "length ?row = RowLen (Table t1)" using len T by (simp add: stamp_def codec_simps)
  note ap = append_row [OF ok1 room lrow refl refl]
  have "PageRows (Table t) < 4294967296" by (rule desc_bounds)
  have "Suc (pg_LastRow (LastPage t1)) * RowLen (Table t) \<le> PageRows (Table t) * RowLen (Table t)"
    using room T by (intro mult_le_mono1) simp
  then have fits: "pg_LastRow (LastPage t1) * RowLen (Table t) + RowLen (Table t) \<le> length (pg_Data (LastPage t1))"
    using last_page_ok [OF ok1] T by (simp add: page_ok_def psize_def mult.commute)
  have "td_Index (Table t) + 1 < 4294967296"
  proof -
    have "td_Index (set_Index (Table t) (td_Index (Table t) + 1)) = td_Index (Table t) + 1"
      using ap T by simp
    then show ?thesis using desc_bounds(3) by metis
  qed
  from Qbase_write_unfold [OF sel xt len(1) adv [unfolded fs] T _ _ fits len(2) this] D(7,9) T room
    \<open>PageRows (Table t) < 4294967296\<close> ap A
  show ?thesis by (auto simp: set_table_def)
qed

end
