(* ===== verification/QBaseScan.thy ===== *)
theory QBaseScan
  imports QBaseRows
begin

text \<open>
  \<open>Qbase_read\<close> and \<open>QBASE_CMD_UPDATE\<close>/\<open>QBASE_CMD_DELETE\<close> against their
  specifications on the list of rows: \<open>fetch\<close> (the first row that the rules accept) and
  \<open>revise\<close> (the rows the rules accept, changed). A row scan over one page is the list
  function on the rows of the page; the page loops chain the pages together.
\<close>

section \<open>Reading\<close>

text \<open>The specification: the first row, from number \<open>k\<close> on, that the rules accept, unless a
  strict rule stops the search.\<close>

fun fetch :: "cenv \<Rightarrow> Qbase_filter list \<Rightarrow> bytes list \<Rightarrow> nat \<Rightarrow> row_search outcome" where
  "fetch e fs [] k = Ok (Through k)"
| "fetch e fs (row # rows) k =
     (case Qbase_data_filter e fs row of
        Crash c \<Rightarrow> Crash c
      | Ok Match \<Rightarrow> Ok (Hit row k)
      | Ok StrictBroken \<Rightarrow> Ok (Strict k)
      | Ok NoMatch \<Rightarrow> fetch e fs rows (k + 1))"

lemma fetch_append:
  "fetch e fs (xs @ ys) k = (case fetch e fs xs k of Ok (Through k') \<Rightarrow> fetch e fs ys k' | r \<Rightarrow> r)"
  by (induction xs arbitrary: k) (auto split: outcome.split verdict.split row_search.split)

lemma fetch_Through: "fetch e fs rows k = Ok (Through k') \<Longrightarrow> k' = k + length rows"
  by (induction rows arbitrary: k) (fastforce split: outcome.splits verdict.splits)+

definition page_rows :: "bytes \<Rightarrow> nat \<Rightarrow> nat \<Rightarrow> nat \<Rightarrow> bytes list" where
  "page_rows data n r m = map (\<lambda>j. take n (drop (j * n) data)) [r..<m]"

lemma page_rows_Cons: "r < m \<Longrightarrow> page_rows data n r m = take n (drop (r * n) data) # page_rows data n (Suc r) m"
  by (simp add: page_rows_def upt_conv_Cons)

lemma scan_rows_fetch:
  assumes "m * n \<le> length data" "k + (m - r) < 4294967296"
  shows "scan_rows e fs data n m r k = fetch e fs (page_rows data n r m) k"
  using assms
proof (induction "m - r" arbitrary: r k)
  case 0
  then show ?case by (subst scan_rows.simps) (simp add: page_rows_def)
next
  case (Suc x)
  then have r: "r < m" by simp
  then have "Suc r * n \<le> m * n" by (intro mult_le_mono1) simp
  then have "slice data (r * n) n = Some (take n (drop (r * n) data))"
    using Suc.prems(1) by (simp add: slice_def add.commute)
  then show ?case using r Suc.prems Suc.hyps(1) [of "Suc r" "k + 1"] Suc.hyps(2)
    by (subst scan_rows.simps) (simp add: page_rows_Cons split: outcome.split verdict.split)
qed

text \<open>A pool in which no page that can be given up carries unwritten changes.\<close>

definition clean_from :: "nat \<Rightarrow> Qbase_table \<Rightarrow> bool" where
  "clean_from m t \<longleftrightarrow> (\<forall>p \<in> set (butlast (Pages t)). m \<le> pg_Index p \<longrightarrow> \<not> pg_NeedSync p)"

lemma clean_victim:
  assumes ok: "table_ok t fs" and c: "clean_from m t" and m: "m \<le> n"
  shows "\<forall>p. victim t n = Some p \<longrightarrow> \<not> pg_NeedSync p"
proof (intro allI impI)
  fix p assume v: "victim t n = Some p"
  let ?i = "page_scan n (Pages t)"
  from v have i: "Suc ?i < length (Pages t)" and p: "p = Pages t ! ?i"
    by (auto simp: victim_def Let_def split: if_splits)
  have "n \<le> pg_Index p" unfolding p using page_scan_at i by simp
  moreover have "p \<in> set (butlast (Pages t))" unfolding p using i
    by (metis length_butlast nth_butlast nth_mem Suc_less_eq Suc_pred less_diff_conv add.right_neutral
        add_Suc_right diff_Suc_1 not_less_eq zero_less_Suc less_imp_Suc_add)
  ultimately show "\<not> pg_NeedSync p" using c m by (auto simp: clean_from_def)
qed

lemma set_butlast_update:
  "x \<in> set (butlast (ps[i := y])) \<Longrightarrow> x = y \<or> x \<in> set (butlast ps)"
  by (auto simp: butlast_list_update split: if_splits dest!: set_update_subset_insert [THEN subsetD])

lemma set_butlast_insert_at:
  assumes "i < length ps" "x \<in> set (butlast (insert_at i y ps))"
  shows "x = y \<or> x \<in> set (butlast ps)"
proof -
  have "ps = take i ps @ drop i ps" "drop i ps \<noteq> []" using assms(1) by simp_all
  then have "butlast ps = take i ps @ butlast (drop i ps)" by (metis butlast_append)
  moreover have "butlast (insert_at i y ps) = take i ps @ y # butlast (drop i ps)"
    using assms(1) by (simp add: insert_at_def butlast_append)
  ultimately show ?thesis using assms(2) by auto
qed

lemma last_update_inner: "Suc i \<noteq> length ps \<Longrightarrow> last (ps[i := x]) = last ps"
  by (cases "ps = []") (auto simp: last_list_update)

lemma LockTablePage_pool:
  assumes l: "LockTablePage t w n = Ok (Locked i, t', w')" and c: "clean_from m t"
  shows "clean_from m t'" "LastPage t' = LastPage t" "w_mem w = [] \<Longrightarrow> w_mem w' = []"
proof -
  let ?j = "page_scan n (Pages t)"
  have j: "?j < length (Pages t)" using l by (auto simp: LockTablePage_def Let_def split: if_splits)
  have "(\<forall>p \<in> set (butlast (Pages t')). p \<in> set (butlast (Pages t)) \<or> \<not> pg_NeedSync p)"
    using l j by (auto simp: LockTablePage_def Let_def butlast_append
        split: if_splits list.splits prod.splits option.splits
        dest!: set_butlast_update set_butlast_insert_at)
  with c show "clean_from m t'" by (auto simp: clean_from_def)
  show "LastPage t' = LastPage t"
    using l j by (auto simp: LockTablePage_def Let_def last_insert_at last_update_inner
        split: if_splits list.splits prod.splits option.splits)
  show "w_mem w = [] \<Longrightarrow> w_mem w' = []"
    using l by (auto simp: LockTablePage_def Let_def malloc_def
        split: if_splits list.splits prod.splits option.splits)
qed

text \<open>With memory to spare, a search on a clean pool finds its page and changes nothing that
  matters.\<close>

lemma lock_clean:
  assumes ok: "table_ok t (w_disk w)" and c: "clean_from m t" and m: "m \<le> n"
    and mem: "w_mem w = []" and n: "n \<le> pg_Index (LastPage t)"
  shows "\<exists>i t' w'. LockTablePage t w n = Ok (Locked i, t', w') \<and> i < length (Pages t') \<and>
    pg_Index (Pages t' ! i) = n \<and> Table t' = Table t \<and> table_ok t' (w_disk w') \<and>
    table_rows t' (w_disk w') = table_rows t (w_disk w) \<and> clean_from m t' \<and>
    LastPage t' = LastPage t \<and> w_mem w' = []"
proof -
  have "LockTablePage t w n \<noteq> Ok (PagingFailed, t, w')" for w'
    using mem by (auto simp: LockTablePage_def Let_def malloc_def split: list.splits prod.splits)
  with LockTablePage_correct [OF ok n clean_victim [OF ok c m]] LockTablePage_pool [OF _ c] mem
  show ?thesis by metis
qed

text \<open>The rows from row \<open>r\<close> of a page in memory on: those of the page, then those of the
  following pages.\<close>

lemma page_last_row:
  assumes ok: "table_ok t fs" and i: "i < length (Pages t)" and p: "p = Pages t ! i"
  shows "pg_Index p \<le> pg_Index (LastPage t)"
    "pg_LastRow p = (if pg_Index p < pg_Index (LastPage t) then PageRows (Table t) else pg_LastRow (LastPage t))"
    "pg_LastRow p * RowLen (Table t) \<le> length (pg_Data p)" "pg_LastRow p \<le> PageRows (Table t)"
    "pg_Index p * PageRows (Table t) + pg_LastRow p \<le> td_Index (Table t)"
proof -
  note D = table_okD [OF ok] and pl = pool_okD [OF table_okD(1) [OF ok]]
  have inp: "p \<in> set (Pages t)" using i p by simp
  show le: "pg_Index p \<le> pg_Index (LastPage t)" by (rule sorted_le_last [OF pl(2) inp])
  have "p = LastPage t" if "\<not> pg_Index p < pg_Index (LastPage t)"
    using sorted_unique [OF pl(2) inp, of "LastPage t"] that le D(8) by simp
  moreover have "p \<in> set (butlast (Pages t))" if "p \<noteq> LastPage t"
    using inp that pages_snoc [OF ok] by (metis Un_iff empty_iff empty_set set_ConsD set_append)
  ultimately show lr: "pg_LastRow p = (if pg_Index p < pg_Index (LastPage t) then PageRows (Table t) else pg_LastRow (LastPage t))"
    using pl(4) by force
  show "pg_LastRow p * RowLen (Table t) \<le> length (pg_Data p)" "pg_LastRow p \<le> PageRows (Table t)"
    using pl(3) [OF inp] used_le by (auto simp: page_ok_def)
  have "pg_Index p * PageRows (Table t) + PageRows (Table t) \<le> pg_Index (LastPage t) * PageRows (Table t)"
    if "pg_Index p < pg_Index (LastPage t)"
    using that mult_le_mono1 [of "Suc (pg_Index p)" "pg_Index (LastPage t)" "PageRows (Table t)"] by simp
  then show "pg_Index p * PageRows (Table t) + pg_LastRow p \<le> td_Index (Table t)"
    using D(10) lr le by (cases "pg_Index p < pg_Index (LastPage t)") (auto simp: le_less)
qed

lemma rows_from_page:
  assumes ok: "table_ok t fs" and i: "i < length (Pages t)" and p: "p = Pages t ! i"
    and r: "r < PageRows (Table t)" and m: "m = pg_Index p"
  shows "drop (m * PageRows (Table t) + r) (table_rows t fs) =
    page_rows (pg_Data p) (RowLen (Table t)) r (pg_LastRow p) @ drop ((m + 1) * PageRows (Table t)) (table_rows t fs)"
proof -
  let ?P = "PageRows (Table t)" and ?I = "td_Index (Table t)"
  note D = table_okD [OF ok] and pl = pool_okD [OF table_okD(1) [OF ok]]
  note L = page_last_row [OF ok i p]
  have at: "row_at t fs (m * ?P + j) = take (RowLen (Table t)) (drop (j * RowLen (Table t)) (pg_Data p))"
    if "j < ?P" for j
    using that stored_in_pool [OF pl(2), of p m] i p m by (simp add: row_at_def Let_def)
  have drop: "drop k (table_rows t fs) = map (row_at t fs) [k..<?I]" for k
    by (simp add: table_rows_def drop_map)
  have shift: "[m * ?P + r..<m * ?P + pg_LastRow p] = map (\<lambda>j. m * ?P + j) [r..<pg_LastRow p]"
    by (rule nth_equalityI) auto
  have fst: "map (row_at t fs) [m * ?P + r..<m * ?P + pg_LastRow p] =
      page_rows (pg_Data p) (RowLen (Table t)) r (pg_LastRow p)"
    unfolding shift using at L(4) by (auto simp: page_rows_def)
  show ?thesis
  proof (cases "m < pg_Index (LastPage t)")
    case True
    then have full: "pg_LastRow p = ?P" using L(2) m by simp
    have "m * ?P + ?P \<le> ?I" using L(5) full m by simp
    then have "[m * ?P + r..<?I] = [m * ?P + r..<m * ?P + ?P] @ [m * ?P + ?P..<?I]"
      using r by (metis add_le_cancel_left le_add_diff_inverse less_imp_le upt_add_eq_append)
    then show ?thesis using fst by (simp add: drop full add.commute)
  next
    case False
    then have m: "m = pg_Index (LastPage t)" using L(1) m by simp
    then have I: "?I = m * ?P + pg_LastRow p" using D(10) L(2) \<open>m = pg_Index p\<close> by simp
    then have "?I \<le> (m + 1) * ?P" using L(4) by simp
    then show ?thesis using fst by (simp add: drop I)
  qed
qed

definition read_result :: "row_search \<Rightarrow> read_status" where
  "read_result x = (case x of Hit row k \<Rightarrow> Got row | _ \<Rightarrow> NoMore)"

definition read_position :: "row_search \<Rightarrow> nat" where
  "read_position x = (case x of Hit row k \<Rightarrow> k + 1 | Strict k \<Rightarrow> k | Through k \<Rightarrow> k)"

lemma index_bound: "table_ok t fs \<Longrightarrow> td_Index (Table t) < 2147483648"
proof -
  assume ok: "table_ok t fs"
  note D = table_okD [OF ok]
  have "td_Index (Table t) \<le> (pg_Index (LastPage t) + 1) * PageRows (Table t)"
    using D(10) last_page_ok [OF ok] by (simp add: page_ok_def)
  also have "\<dots> \<le> (pg_Index (LastPage t) + 1) * psize (Table t)"
    using D(7) by (intro mult_le_mono2) (simp add: psize_def)
  also have "\<dots> < 2147483648" by (rule D(11))
  finally show ?thesis .
qed

lemma fetch_Hit_bound: "fetch e fs rows k = Ok (Hit row j) \<Longrightarrow> j < k + length rows"
  by (induction rows arbitrary: k) (fastforce split: outcome.splits verdict.splits)+

lemma length_table_rows [simp]: "length (table_rows t fs) = td_Index (Table t)"
  by (simp add: table_rows_def)

lemma read_pages_fetch:
  assumes "table_ok t (w_disk w)" "clean_from P t" "w_mem w = []"
    and "k = P * PageRows (Table t) + R" "R < PageRows (Table t)"
  shows "(\<forall>c. fetch e fs (drop k (table_rows t (w_disk w))) k = Crash c \<longrightarrow> read_pages e fs t w k P R = Crash c) \<and>
    (\<forall>x. fetch e fs (drop k (table_rows t (w_disk w))) k = Ok x \<longrightarrow>
      (\<exists>t' w'. read_pages e fs t w k P R = Ok (read_result x, read_position x, t', w') \<and> Table t' = Table t \<and>
         table_ok t' (w_disk w') \<and> table_rows t' (w_disk w') = table_rows t (w_disk w)))"
  using assms
proof (induction "td_Index (Table t) - k" arbitrary: k t w P R rule: less_induct)
  case less
  note ok = less.prems(1) and k = less.prems(4) and R = less.prems(5)
  let ?rows = "table_rows t (w_disk w)" and ?I = "td_Index (Table t)" and ?PR = "PageRows (Table t)"
  show ?case
  proof (cases "k < ?I")
    case False
    then show ?thesis using ok
      by (subst (1 2) read_pages.simps) (auto simp: read_result_def read_position_def)
  next
    case True
    have PL: "P \<le> pg_Index (LastPage t)"
      using row_in_used(1) [OF ok True] k R by simp
    obtain i t1 w1 where l: "LockTablePage t w P = Ok (Locked i, t1, w1)" and i: "i < length (Pages t1)"
      and ix: "pg_Index (Pages t1 ! i) = P" and T: "Table t1 = Table t" and ok1: "table_ok t1 (w_disk w1)"
      and rows: "table_rows t1 (w_disk w1) = ?rows" and cl: "clean_from P t1" and mem: "w_mem w1 = []"
      using lock_clean [OF ok less.prems(2) order_refl less.prems(3) PL] by auto
    let ?p = "Pages t1 ! i"
    note L = page_last_row [OF ok1 i refl, unfolded ix T]
    have split: "drop k ?rows = page_rows (pg_Data ?p) (RowLen (Table t)) R (pg_LastRow ?p) @ drop ((P + 1) * ?PR) ?rows"
      using rows_from_page [OF ok1 i refl, of R P] R ix T k rows by simp
    have kb: "k + (pg_LastRow ?p - R) < 2147483649" using L(5) k index_bound [OF ok] True by simp
    then have "k + (pg_LastRow ?p - R) < 4294967296" by simp
    note sc = scan_rows_fetch [OF L(3) this, of e fs]
    have hb: "w32 (Suc j) = Suc j"
      if "fetch e fs (page_rows (pg_Data ?p) (RowLen (Table t)) R (pg_LastRow ?p)) k = Ok (Hit row j)" for row j
      using fetch_Hit_bound [OF that] kb by (simp add: page_rows_def)
    have rp: "read_pages e fs t w k P R = (case fetch e fs (page_rows (pg_Data ?p) (RowLen (Table t)) R (pg_LastRow ?p)) k of
        Crash c \<Rightarrow> Crash c | Ok (Hit row k) \<Rightarrow> Ok (Got row, w32 (k + 1), t1, w1)
      | Ok (Strict k) \<Rightarrow> Ok (NoMore, k, t1, w1) | Ok (Through k) \<Rightarrow> read_pages e fs t1 w1 k (Suc P) 0)"
      using True l T sc by (subst read_pages.simps) (simp add: Let_def)
    show ?thesis
    proof (cases "\<exists>k'. fetch e fs (page_rows (pg_Data ?p) (RowLen (Table t)) R (pg_LastRow ?p)) k = Ok (Through k')")
      case False
      then show ?thesis unfolding split fetch_append rp
        using ok1 T rows hb
        by (auto simp: read_result_def read_position_def split: outcome.splits row_search.splits)
    next
      case thru: True
      then obtain k' where ft: "fetch e fs (page_rows (pg_Data ?p) (RowLen (Table t)) R (pg_LastRow ?p)) k = Ok (Through k')"
        by blast
      then have k': "k' = k + (pg_LastRow ?p - R)" by (auto dest: fetch_Through simp: page_rows_def)
      show ?thesis
      proof (cases "P < pg_Index (LastPage t1)")
        case True
        then have k2: "k' = (P + 1) * ?PR" using k' L(2) k R by simp
        have "clean_from (Suc P) t1" using cl by (auto simp: clean_from_def)
        from less.hyps [of t1 k' w1 "Suc P" 0] this ok1 mem k2 T R rows k \<open>k < ?I\<close> ft
        show ?thesis unfolding split fetch_append rp by auto
      next
        case False
        then have "?I \<le> k'" "?I \<le> (P + 1) * ?PR"
          using k' L table_okD(10) [OF ok1] T k \<open>k < ?I\<close> by auto
        then show ?thesis unfolding split fetch_append rp using ft ok1 T rows
          by (subst (1 2) read_pages.simps) (auto simp: read_result_def read_position_def)
      qed
    qed
  qed
qed

text \<open>C5: A read on a well-formed table whose pool has no unwritten page that could be given up
  (see \<open>LockTablePage_loses_updates\<close> for the other pools), while memory for pages can be
  allocated, into a buffer that holds a row: the rows are scanned from the connection's position,
  the first one that all rules accept is returned and the position is left behind it. The scan stops
  at a row that a strict rule rejects, whatever comes later; then, and when no row is left, the
  answer is no bytes and the code "last row". The table keeps its rows, whatever pages had to be
  exchanged.\<close>

theorem read_returns_first_match:
  assumes sel: "ocb_Table ocb = Some a" "tbl_heap sv a = Some t" and fs: "fs = w_disk (sv_world sv)"
    and ok: "table_ok t fs" "clean_from 0 t" and mem: "w_mem (sv_world sv) = []"
    and xt: "xt AND 1 = 0" and len: "RowLen (Table t) \<le> n"
    and f: "fetch e (Filters ocb) (drop (Record ocb) (table_rows t fs)) (Record ocb) = Ok x"
  shows "\<exists>sv' t'. Qbase_read e xt n sv ocb =
      Ok (Bytes (case x of Hit row k \<Rightarrow> row | _ \<Rightarrow> []), sv',
          ocb\<lparr>Record := read_position x,
              Qerrno := (case x of Hit row k \<Rightarrow> QBASE_E_OK | _ \<Rightarrow> QBASE_E_LASTROW)\<rparr>) \<and>
    tbl_heap sv' = (tbl_heap sv)(a \<mapsto> t') \<and> Table t' = Table t \<and>
    table_ok t' (w_disk (sv_world sv')) \<and> table_rows t' (w_disk (sv_world sv')) = table_rows t fs"
proof -
  let ?P = "Record ocb div PageRows (Table t)" and ?R = "Record ocb mod PageRows (Table t)"
  have pr: "0 < PageRows (Table t)" using table_okD(6) [OF ok(1)] by simp
  have cl: "clean_from ?P t" using ok(2) by (simp add: clean_from_def)
  have "?R < PageRows (Table t)" using pr by simp
  from read_pages_fetch [of t "sv_world sv", OF _ cl mem _ this, of "Record ocb" e "Filters ocb"] ok(1) f fs
  obtain t' w' where r: "read_pages e (Filters ocb) t (sv_world sv) (Record ocb) ?P ?R =
      Ok (read_result x, read_position x, t', w')" and T: "Table t' = Table t"
    and k: "table_ok t' (w_disk w')" "table_rows t' (w_disk w') = table_rows t fs" by auto
  have "Qbase_read e xt n sv ocb = Ok (Bytes (case x of Hit row k \<Rightarrow> row | _ \<Rightarrow> []), set_table sv a t' w',
      ocb\<lparr>Record := read_position x,
          Qerrno := (case x of Hit row k \<Rightarrow> QBASE_E_OK | _ \<Rightarrow> QBASE_E_LASTROW)\<rparr>)"
    using r sel xt len pr by (cases x) (simp_all add: Qbase_read_def Let_def read_result_def)
  with T k show ?thesis by (auto simp: set_table_def)
qed

section \<open>Updating and deleting\<close>

text \<open>The specification: every row the rules accept is changed, up to the first row that a strict
  rule rejects. The flag says whether the rules stopped it.\<close>

fun revise :: "cenv \<Rightarrow> Qbase_filter list \<Rightarrow> dcmd \<Rightarrow> desc \<Rightarrow> bytes \<Rightarrow> bytes list \<Rightarrow> (bytes list \<times> bool) outcome" where
  "revise e fs cmd d urule [] = Ok ([], False)"
| "revise e fs cmd d urule (row # rows) =
     (case Qbase_data_filter e fs row of
        Crash c \<Rightarrow> Crash c
      | Ok Match \<Rightarrow> bindo (change_row e cmd d urule row) (\<lambda>row'.
          bindo (revise e fs cmd d urule rows) (\<lambda>(rows', s). Ok (row' # rows', s)))
      | Ok NoMatch \<Rightarrow> bindo (revise e fs cmd d urule rows) (\<lambda>(rows', s). Ok (row # rows', s))
      | Ok StrictBroken \<Rightarrow> Ok (row # rows, True))"

lemma revise_append:
  "revise e fs cmd d urule (xs @ ys) = bindo (revise e fs cmd d urule xs) (\<lambda>(xs', s).
     if s then Ok (xs' @ ys, True)
     else bindo (revise e fs cmd d urule ys) (\<lambda>(ys', s'). Ok (xs' @ ys', s')))"
proof (induction xs)
  case Nil
  then show ?case by (cases "revise e fs cmd d urule ys") auto
next
  case (Cons x xs)
  show ?case
  proof (cases "Qbase_data_filter e fs x")
    case (Ok v)
    then show ?thesis using Cons
      by (cases v; cases "change_row e cmd d urule x"; cases "revise e fs cmd d urule xs";
          cases "revise e fs cmd d urule ys") auto
  qed simp
qed

lemma length_update_fields:
  "update_fields e d urule js row = Ok row' \<Longrightarrow> cenv_ok e \<Longrightarrow> length row' = length row"
  by (induction js arbitrary: row) (auto simp: bindo_Ok_iff dest: update_field_effect(1))

lemma length_change_row: "change_row e cmd d urule row = Ok row' \<Longrightarrow> cenv_ok e \<Longrightarrow> length row' = length row"
  by (auto simp: change_row_def update_row_def codec_simps split: if_splits dest: length_update_fields)

lemma revise_lengths:
  "revise e fs cmd d urule rows = Ok (rows', s) \<Longrightarrow> cenv_ok e \<Longrightarrow>
   map length rows' = map length rows"
  by (induction rows arbitrary: rows')
    (auto simp: bindo_Ok_iff split: outcome.splits verdict.splits dest: length_change_row)

lemma blit_blit_adjacent:
  "off + length a \<le> length dst \<Longrightarrow> blit (blit dst off a) (off + length a) b = blit dst off (a @ b)"
  by (simp add: blit_def ac_simps)

lemma blit_self: "off + n \<le> length dst \<Longrightarrow> blit dst off (take n (drop off dst)) = dst"
  by (simp add: blit_def) (metis append_take_drop_id drop_drop add.commute)

lemma page_rows_blit:
  assumes "Suc r * n \<le> length data" "length row = n"
  shows "page_rows (blit data (r * n) row) n (Suc r) m = page_rows data n (Suc r) m"
proof -
  have "take n (drop (j * n) (blit data (r * n) row)) = take n (drop (j * n) data)" if "Suc r \<le> j" for j
  proof -
    have "Suc r * n \<le> j * n" using that by (intro mult_le_mono1)
    then have "drop (j * n) (blit data (r * n) row) = drop (j * n) data"
      using assms by (intro nth_equalityI) (auto simp: length_blit nth_blit)
    then show ?thesis by simp
  qed
  then show ?thesis by (simp add: page_rows_def)
qed

lemma blit_page_rows:
  "m * n \<le> length data \<Longrightarrow> blit data (r * n) (concat (page_rows data n r m)) = data"
proof (induction "m - r" arbitrary: r)
  case 0
  then show ?case by (simp add: page_rows_def blit_def)
next
  case (Suc x)
  then have r: "r < m" by simp
  then have le: "Suc r * n \<le> length data" using Suc.prems mult_le_mono1 [of "Suc r" m n] by simp
  let ?row = "take n (drop (r * n) data)"
  have len: "length ?row = n" using le by simp
  have "blit data (r * n) (concat (page_rows data n r m)) =
      blit (blit data (r * n) ?row) (r * n + length ?row) (concat (page_rows data n (Suc r) m))"
    using r le len by (subst blit_blit_adjacent) (simp_all add: page_rows_Cons)
  also have "\<dots> = blit data (Suc r * n) (concat (page_rows data n (Suc r) m))"
    using blit_self [of "r * n" n data] le len by (simp add: add.commute)
  also have "\<dots> = data" using Suc.hyps(1) [of "Suc r"] Suc.hyps(2) Suc.prems by simp
  finally show ?case .
qed

lemma upd_rows_revise:
  assumes "n = RowLen d" "m * n \<le> length data" "m - r \<le> left" "cmd \<noteq> UPDCUR" "cenv_ok e"
    and "revise e fs cmd d urule (page_rows data n r m) = Ok (rows', s)"
  shows "\<exists>dirty'. upd_rows e fs cmd d urule m r left data dirty =
      Ok (blit data (r * n) (concat rows'), if s then 0 else left - (m - r), dirty') \<and>
    (dirty \<longrightarrow> dirty') \<and> (\<not> dirty' \<longrightarrow> blit data (r * n) (concat rows') = data)"
  using assms(2,3,6)
proof (induction "m - r" arbitrary: r left data dirty rows' s)
  case 0
  then show ?case by (subst upd_rows.simps) (simp add: page_rows_def blit_def)
next
  case (Suc x)
  then have r: "r < m" and left: "0 < left" "m - Suc r \<le> left - 1" by simp_all
  have le: "Suc r * n \<le> length data" using r Suc.prems(1) mult_le_mono1 [of "Suc r" m n] by simp
  let ?row = "take n (drop (r * n) data)"
  have lr: "length ?row = n" using le by simp
  have sl: "slice data (r * RowLen d) (RowLen d) = Some ?row"
    using le assms(1) by (simp add: slice_def add.commute)
  have adj: "blit (blit data (r * n) row) (Suc r * n) ys = blit data (r * n) (row @ ys)"
    if "length row = n" for row ys
    using blit_blit_adjacent [of "r * n" row data ys] that le by (simp add: add.commute)
  have self: "blit data (r * n) ?row = data" using blit_self [of "r * n" n data] le by (simp add: add.commute)
  have ar: "left - 1 - (m - Suc r) = left - (m - r)" "x = m - Suc r" using r Suc.hyps(2) by simp_all
  note hyp = Suc.hyps(1) [OF ar(2)]
  from Suc.prems(3) r obtain v where v: "Qbase_data_filter e fs ?row = Ok v"
    by (auto simp: page_rows_Cons split: outcome.splits)
  show ?case
  proof (cases v)
    case StrictBroken
    then have "rows' = page_rows data n r m" "s" using Suc.prems(3) v r by (auto simp: page_rows_Cons)
    then show ?thesis using v StrictBroken r left sl blit_page_rows [OF Suc.prems(1)]
      by (subst upd_rows.simps) simp
  next
    case NoMatch
    then obtain rs where rs: "revise e fs cmd d urule (page_rows data n (Suc r) m) = Ok (rs, s)"
      and rows': "rows' = ?row # rs" using Suc.prems(3) v r by (auto simp: page_rows_Cons bindo_Ok_iff)
    from hyp [OF Suc.prems(1) left(2) rs, of dirty, unfolded ar(1)] show ?thesis
      using v NoMatch r left(1) sl adj [OF lr, of "concat rs"] assms(4)
      by (subst upd_rows.simps) (simp add: rows' self)
  next
    case Match
    then obtain row' rs where row': "change_row e cmd d urule ?row = Ok row'"
      and rs: "revise e fs cmd d urule (page_rows data n (Suc r) m) = Ok (rs, s)"
      and rows': "rows' = row' # rs" using Suc.prems(3) v r by (auto simp: page_rows_Cons bindo_Ok_iff)
    have lr': "length row' = n" using length_change_row [OF row' assms(5)] lr by simp
    have lb: "length (blit data (r * n) row') = length data"
      using le lr' by (simp add: length_blit)
    have "revise e fs cmd d urule (page_rows (blit data (r * n) row') n (Suc r) m) = Ok (rs, s)"
      using rs page_rows_blit [OF le lr', of m] by simp
    from hyp [OF _ left(2) this, of True, unfolded ar(1)] lb Suc.prems(1)
    have "upd_rows e fs cmd d urule m (Suc r) (left - 1) (blit data (r * n) row') True =
        Ok (blit (blit data (r * n) row') (Suc r * n) (concat rs), if s then 0 else left - (m - r), True)"
      by auto
    then show ?thesis
      using v Match row' r left(1) sl adj [OF lr', of "concat rs"] assms(1,4)
      by (subst upd_rows.simps) (auto simp: rows')
  qed
qed

text \<open>Replacing the data of a page in memory.\<close>

lemma set_page_ok:
  assumes ok: "table_ok t fs" and i: "i < length (Pages t)" and p: "p = Pages t ! i"
    and len: "length data = length (pg_Data p)" and d: "\<not> dirty \<Longrightarrow> data = pg_Data p"
    and t': "t' = set_page t i data dirty"
  shows "table_ok t' fs" "Table t' = Table t" "k div PageRows (Table t) \<noteq> pg_Index p \<Longrightarrow> row_at t' fs k = row_at t fs k"
    "k div PageRows (Table t) = pg_Index p \<Longrightarrow> row_at t' fs k =
       take (RowLen (Table t)) (drop (k mod PageRows (Table t) * RowLen (Table t)) data)"
proof -
  let ?d = "Table t" and ?c = "data_of t fs"
  let ?p' = "p\<lparr>pg_Data := data, pg_NeedSync := pg_NeedSync p \<or> dirty\<rparr>"
  note D = table_okD [OF ok] and pl = pool_okD [OF table_okD(1) [OF ok]]
  obtain xs ys where sp: "Pages t = xs @ p # ys" and ps': "Pages t' = xs @ ?p' # ys"
    using id_take_nth_drop [OF i] i by (simp add: t' set_page_def p upd_conv_take_nth_drop)
  have okp: "page_ok ?d p" using pl(3) i p by simp
  have srt: "sorted_wrt (\<lambda>p q. pg_Index p < pg_Index q) (xs @ p # ys)" using pl(2) sp by simp
  have srt': "sorted_wrt (\<lambda>p q. pg_Index p < pg_Index q) (Pages t')"
    unfolding ps' by (rule sorted_split(3) [OF srt]) simp
  have idx: "pg_Index (LastPage t') = pg_Index (LastPage t)" "pg_LastRow (LastPage t') = pg_LastRow (LastPage t)"
    by (simp_all add: ps' sp)
  have ln: "length (Pages t') = length (Pages t)" by (simp add: t' set_page_def)
  have mem: "x = ?p' \<or> x \<in> set (Pages t)" if "x \<in> set (Pages t')" for x
    using that by (auto simp: ps' sp)
  have bl: "x = ?p' \<and> p \<in> set (butlast (Pages t)) \<or> x \<in> set (butlast (Pages t))" if "x \<in> set (butlast (Pages t'))" for x
    using that by (auto simp: ps' sp butlast_append split: if_splits)
  have inf: "in_file ?d ?c ?p'" if "\<not> pg_NeedSync ?p'"
    using that d pl(6) [of p] i p by (simp add: in_file_def)
  have "pool_ok ?d ?c (Pages t')"
  proof (rule pool_okI)
    show "Pages t' \<noteq> []" by (simp add: ps')
    show "page_ok ?d x" if "x \<in> set (Pages t')" for x
      using mem [OF that] pl(3) okp len by (auto simp: page_ok_def)
    show "pg_LastRow x = PageRows ?d" if "x \<in> set (butlast (Pages t'))" for x
      using bl [OF that] pl(4) by auto
    show "pg_Index (last (Pages t')) * psize ?d \<le> length ?c" using pl(5) idx by simp
    show "in_file ?d ?c x" if "x \<in> set (Pages t')" "\<not> pg_NeedSync x" for x
      using mem [OF that(1)] that(2) pl(6) inf by blast
  qed (rule srt')
  moreover have dt: "data_of t' fs = ?c" "Table t' = ?d" "PLocks t' = PLocks t" "HFile t' = HFile t" "DFile t' = DFile t"
    by (simp_all add: t' set_page_def data_of_def)
  ultimately show "table_ok t' fs" using D idx ln by (simp add: table_ok_def files_ok_def)
  show "Table t' = Table t" by (rule dt)
  have st: "stored ?d (Pages t') ?c m = (if m = pg_Index p then data else stored ?d (Pages t) ?c m)" for m
  proof (cases "m = pg_Index p")
    case True
    then show ?thesis using stored_in_pool [OF srt', of ?p' m] ps' by simp
  next
    case False
    have "find (\<lambda>x. pg_Index x = m) (zs @ ?p' # ys) = find (\<lambda>x. pg_Index x = m) (zs @ p # ys)" for zs
      using False by (induction zs) auto
    then show ?thesis using False by (simp add: stored_def ps' sp)
  qed
  show "k div PageRows ?d \<noteq> pg_Index p \<Longrightarrow> row_at t' fs k = row_at t fs k"
    unfolding row_at_def Let_def dt st by simp
  show "k div PageRows ?d = pg_Index p \<Longrightarrow> row_at t' fs k =
       take (RowLen ?d) (drop (k mod PageRows ?d * RowLen ?d) data)"
    unfolding row_at_def Let_def dt st by simp
qed

lemma page_rows_of_blit:
  assumes "map length rows' = replicate (m - r) n" "m * n \<le> length data" "r \<le> m"
  shows "page_rows (blit data (r * n) (concat rows')) n r m = rows'"
  using assms
proof (induction rows' arbitrary: r data)
  case Nil
  then show ?case by (simp add: page_rows_def)
next
  case (Cons row rows)
  then have r: "r < m" and lr: "length row = n" and ls: "map length rows = replicate (m - Suc r) n"
    by (cases "m - r"; auto)+
  have lc: "length (concat rows) = (m - Suc r) * n" using ls by (simp add: length_concat sum_list_replicate)
  have "r * n + (length row + length (concat rows)) = m * n"
    using r lr lc by (metis Suc_diff_Suc add_mult_distrib le_add_diff_inverse less_imp_le mult_Suc)
  then have fit: "r * n + length (row @ concat rows) \<le> length data" using Cons.prems(2) by simp
  have b: "blit data (r * n) (concat (row # rows)) = blit (blit data (r * n) row) (Suc r * n) (concat rows)"
    using blit_blit_adjacent [of "r * n" row data "concat rows"] fit lr by (simp add: add.commute)
  have "take n (drop (r * n) (blit data (r * n) (concat (row # rows)))) = row"
    using fit lr by (simp add: blit_def)
  moreover have "page_rows (blit data (r * n) (concat (row # rows))) n (Suc r) m = rows"
    unfolding b by (rule Cons.IH [OF ls]) (use r fit Cons.prems(2) in \<open>auto simp: length_blit\<close>)
  ultimately show ?case using r by (simp add: page_rows_Cons)
qed

text \<open>One page rewritten from row \<open>r\<close> on: the rows before it and on other pages stay.\<close>

lemma set_page_rows:
  assumes ok: "table_ok t fs" and i: "i < length (Pages t)" and p: "p = Pages t ! i" and m: "m = pg_Index p"
    and r: "r \<le> pg_LastRow p" "r < PageRows (Table t)" and k: "k = m * PageRows (Table t) + r"
    and rows: "map length rows' = map length (page_rows (pg_Data p) (RowLen (Table t)) r (pg_LastRow p))"
    and data: "data = blit (pg_Data p) (r * RowLen (Table t)) (concat rows')"
    and d: "\<not> dirty \<Longrightarrow> data = pg_Data p"
    and t': "t' = set_page t i data dirty"
  shows "table_ok t' fs" "Table t' = Table t" "table_rows t' fs =
    take k (table_rows t fs) @ rows' @ drop ((m + 1) * PageRows (Table t)) (table_rows t fs)"
proof -
  let ?P = "PageRows (Table t)" and ?n = "RowLen (Table t)" and ?q = "pg_LastRow p"
  note L = page_last_row [OF ok i p]
  have "map length (page_rows (pg_Data p) ?n r ?q) = map (\<lambda>_. ?n) [r..<?q]"
  proof -
    have "length (take ?n (drop (j * ?n) (pg_Data p))) = ?n" if "j < ?q" for j
    proof -
      have "Suc j * ?n \<le> ?q * ?n" using that by (intro mult_le_mono1) simp
      with L(3) show ?thesis by simp
    qed
    then show ?thesis by (simp add: page_rows_def)
  qed
  then have ls: "map length rows' = replicate (?q - r) ?n" using rows by (simp add: map_replicate_const)
  have lc: "length (concat rows') = (?q - r) * ?n" using ls by (simp add: length_concat sum_list_replicate)
  have "r * ?n + (?q - r) * ?n = ?q * ?n"
    using r(1) by (metis add_mult_distrib le_add_diff_inverse)
  then have fit: "r * ?n + length (concat rows') \<le> length (pg_Data p)" using lc L(3) by simp
  then have len: "length data = length (pg_Data p)" by (simp add: data length_blit)
  note S = set_page_ok [OF ok i p len d t']
  show ok': "table_ok t' fs" and T: "Table t' = Table t" by (rule S(1), simp) (rule S(2), simp)
  have i': "i < length (Pages t')" and p': "pg_Index (Pages t' ! i) = m" "pg_Data (Pages t' ! i) = data"
      "pg_LastRow (Pages t' ! i) = ?q"
    using i p m by (simp_all add: t' set_page_def)
  have tl: "drop k (table_rows t' fs) = rows' @ drop ((m + 1) * ?P) (table_rows t' fs)"
    using rows_from_page [OF ok' i' refl, of r m] r p' T k
      page_rows_of_blit [OF ls L(3) r(1)] by (simp add: data)
  have same: "row_at t' fs x = row_at t fs x" if "x < k \<or> (m + 1) * ?P \<le> x" for x
  proof (cases "x div ?P = m")
    case False
    then show ?thesis using S(3) m by simp
  next
    case True
    then have x: "x = m * ?P + x mod ?P" using div_mult_mod_eq [of x ?P] by simp
    moreover have "x mod ?P < ?P" using r(2) by simp
    ultimately have "x mod ?P < r" using that k by auto
    then have le: "x mod ?P * ?n + ?n \<le> r * ?n" using mult_le_mono1 [of "Suc (x mod ?P)" r ?n] by simp
    have "take (r * ?n) data = take (r * ?n) (pg_Data p)" using fit by (simp add: data take_blit)
    then have "row_at t' fs x = take ?n (drop (x mod ?P * ?n) (pg_Data p))"
      using S(4) [of x] True m take_drop_part [OF le] by simp
    also have "\<dots> = row_at t fs x"
      using True m p i stored_in_pool [OF pool_okD(2) [OF table_okD(1) [OF ok]], of p m]
      by (simp add: row_at_def Let_def)
    finally show ?thesis .
  qed
  have I: "td_Index (Table t') = td_Index (Table t)" by (simp add: T)
  have "take k (table_rows t' fs) = take k (table_rows t fs)"
    using same by (intro nth_equalityI) (auto simp: table_rows_def I)
  moreover have "drop ((m + 1) * ?P) (table_rows t' fs) = drop ((m + 1) * ?P) (table_rows t fs)"
    using same by (simp add: table_rows_def I drop_map)
  ultimately show "table_rows t' fs = take k (table_rows t fs) @ rows' @ drop ((m + 1) * ?P) (table_rows t fs)"
    using tl by (metis append_take_drop_id)
qed

lemma set_page_clean: "clean_from P t \<Longrightarrow> pg_Index (Pages t ! i) < Suc P \<Longrightarrow> i < length (Pages t) \<Longrightarrow>
   clean_from (Suc P) (set_page t i data dirty)"
proof -
  assume c: "clean_from P t" and lt: "pg_Index (Pages t ! i) < Suc P" and i: "i < length (Pages t)"
  let ?p = "(Pages t ! i)\<lparr>pg_Data := data, pg_NeedSync := pg_NeedSync (Pages t ! i) \<or> dirty\<rparr>"
  show "clean_from (Suc P) (set_page t i data dirty)"
    unfolding clean_from_def
  proof (intro ballI impI)
    fix x assume "x \<in> set (butlast (Pages (set_page t i data dirty)))" and le: "Suc P \<le> pg_Index x"
    then have "x = ?p \<or> x \<in> set (butlast (Pages t))" using set_butlast_update by (simp add: set_page_def)
    with c lt le show "\<not> pg_NeedSync x" by (auto simp: clean_from_def)
  qed
qed

lemma upd_pages_revise:
  assumes "table_ok t (w_disk w)" "clean_from P t" "w_mem w = []" "cmd \<noteq> UPDCUR" "cenv_ok e"
    and "k = P * PageRows (Table t)" "k \<le> td_Index (Table t)" "left = td_Index (Table t) - k"
    and "revise e fs cmd (Table t) urule (drop k (table_rows t (w_disk w))) = Ok (rows', s)"
  shows "\<exists>t' w'. upd_pages e fs cmd urule q t w left P 0 = Ok (QBASE_E_OK, t', w') \<and> Table t' = Table t \<and>
    table_ok t' (w_disk w') \<and> table_rows t' (w_disk w') = take k (table_rows t (w_disk w)) @ rows'"
  using assms(1-3,6-9)
proof (induction left arbitrary: k t w P rows' rule: less_induct)
  case (less left)
  note ok = less.prems(1) and k = less.prems(4)
  let ?d = "Table t" and ?rows = "table_rows t (w_disk w)" and ?I = "td_Index (Table t)" and ?PR = "PageRows (Table t)"
  show ?case
  proof (cases "0 < left")
    case False
    then have "drop k ?rows = []" using less.prems(6) by simp
    with less.prems(5,6,7) False ok show ?thesis by (subst upd_pages.simps) simp
  next
    case True
    then have kI: "k < ?I" using less.prems(6) by simp
    have PR: "0 < ?PR" using table_okD(6) [OF ok] by simp
    have PL: "P \<le> pg_Index (LastPage t)" using row_in_used(1) [OF ok kI] k PR by simp
    obtain i t1 w1 where l: "LockTablePage t w P = Ok (Locked i, t1, w1)" and i: "i < length (Pages t1)"
      and ix: "pg_Index (Pages t1 ! i) = P" and T: "Table t1 = ?d" and ok1: "table_ok t1 (w_disk w1)"
      and rows: "table_rows t1 (w_disk w1) = ?rows" and cl: "clean_from P t1" and mem: "w_mem w1 = []"
      using lock_clean [OF ok less.prems(2) order_refl less.prems(3) PL] by auto
    let ?p = "Pages t1 ! i"
    let ?pr = "page_rows (pg_Data ?p) (RowLen ?d) 0 (pg_LastRow ?p)"
    note L = page_last_row [OF ok1 i refl, unfolded ix T]
    have split: "drop k ?rows = ?pr @ drop ((P + 1) * ?PR) ?rows"
      using rows_from_page [OF ok1 i refl, of 0 P] PR ix T k rows by simp
    from less.prems(7) obtain pr' s1 where pr': "revise e fs cmd ?d urule ?pr = Ok (pr', s1)"
      and rest: "if s1 then rows' = pr' @ drop ((P + 1) * ?PR) ?rows else (\<exists>ys.
        revise e fs cmd ?d urule (drop ((P + 1) * ?PR) ?rows) = Ok (ys, s) \<and> rows' = pr' @ ys)"
      unfolding split revise_append by (auto simp: bindo_Ok_iff split: if_splits)
    have "pg_LastRow ?p - 0 \<le> left" using L(5) k less.prems(6) by simp
    from upd_rows_revise [OF refl L(3) this assms(4,5) pr', of False, unfolded mult_0 diff_zero] obtain dirty where
      u: "upd_rows e fs cmd ?d urule (pg_LastRow ?p) 0 left (pg_Data ?p) False =
        Ok (blit (pg_Data ?p) 0 (concat pr'), if s1 then 0 else left - pg_LastRow ?p, dirty)"
      and dirty: "\<not> dirty \<Longrightarrow> blit (pg_Data ?p) 0 (concat pr') = pg_Data ?p" by auto
    let ?t2 = "set_page t1 i (blit (pg_Data ?p) 0 (concat pr')) dirty"
    let ?left = "if s1 then 0 else left - pg_LastRow ?p"
    have step: "upd_pages e fs cmd urule q t w left P 0 = upd_pages e fs cmd urule q ?t2 w1 ?left (Suc P) 0"
      using True l u T by (subst upd_pages.simps) simp
    have ls: "map length pr' = map length ?pr" by (rule revise_lengths [OF pr' assms(5)])
    note S = set_page_rows [OF ok1 i refl refl, of 0 k pr' "blit (pg_Data ?p) 0 (concat pr')" dirty ?t2]
    have S2: "table_ok ?t2 (w_disk w1)" "Table ?t2 = ?d"
        "table_rows ?t2 (w_disk w1) = take k ?rows @ pr' @ drop ((P + 1) * ?PR) ?rows"
      using S PR T ix k ls dirty rows by auto
    show ?thesis
    proof (cases s1)
      case True
      then show ?thesis unfolding step using S2 rest by (subst upd_pages.simps) simp
    next
      case False
      then obtain ys where ys: "revise e fs cmd ?d urule (drop ((P + 1) * ?PR) ?rows) = Ok (ys, s)" "rows' = pr' @ ys"
        using rest by auto
      let ?k = "k + pg_LastRow ?p"
      have lenpr: "length pr' = pg_LastRow ?p" using arg_cong [OF ls, of length] by (simp add: page_rows_def)
      have kI2: "?k \<le> ?I" using L(5) k by simp
      have tk: "take ?k (table_rows ?t2 (w_disk w1)) = take k ?rows @ pr'"
        and dk: "drop ?k (table_rows ?t2 (w_disk w1)) = drop ((P + 1) * ?PR) ?rows"
        unfolding S2(3) using lenpr kI by simp_all
      show ?thesis
      proof (cases "P < pg_Index (LastPage t1)")
        case True
        then have full: "pg_LastRow ?p = ?PR" using L(2) by simp
        have "clean_from (Suc P) ?t2" using set_page_clean [OF cl _ i] ix by simp
        from less.IH [OF _ S2(1) this mem, of "left - pg_LastRow ?p" ?k ys] S2(2) full k kI2 less.prems(6) ys dk PR
          \<open>0 < left\<close> tk
        show ?thesis unfolding step using False by (auto simp: algebra_simps)
      next
        case last: False
        then have e: "?k = ?I" using L(1,2) table_okD(10) [OF ok1] T k by auto
        then have "?I \<le> (P + 1) * ?PR" using L(4) k by simp
        then have "drop ((P + 1) * ?PR) ?rows = []" by simp
        then show ?thesis unfolding step using False e less.prems(6) S2 ys
          by (subst upd_pages.simps) simp
      qed
    qed
  qed
qed

text \<open>C6: An update or a deletion on a well-formed table whose pool has no unwritten page that
  could be given up, while memory for pages can be allocated: it goes through the rows from the
  first, changes each one that all rules accept, and stops at the first row that a strict rule
  rejects; that row and all behind it stay as they are, accepted or not, and so does every row that
  is not accepted. The reply is a success in either case, and the table stays well-formed although
  pages had to be exchanged while changes were still unwritten.\<close>

theorem update_changes_matching_rows:
  assumes sel: "ocb_Table ocb = Some a" "tbl_heap sv a = Some t" and fs: "fs = w_disk (sv_world sv)"
    and ok: "table_ok t fs" "clean_from 0 t" and mem: "w_mem (sv_world sv) = []"
    and cmd: "cmd = UPDATE \<or> cmd = DELETE" and env: "cenv_ok e"
    and len: "w32 (4 + FieldNum (Table t) + RowLen (Table t)) \<le> m_nbytes m"
    and rv: "revise e (Filters ocb) cmd (Table t) (drop 4 (m_data m)) (table_rows t fs) = Ok (rows', s)"
  shows "\<exists>sv' t'. Qbase_devctl e cmd sv ocb m = Ok (Reply QBASE_E_OK [], sv', ocb\<lparr>Qerrno := QBASE_E_OK\<rparr>) \<and>
    tbl_heap sv' = (tbl_heap sv)(a \<mapsto> t') \<and> Table t' = Table t \<and>
    table_ok t' (w_disk (sv_world sv')) \<and> table_rows t' (w_disk (sv_world sv')) = rows'"
proof -
  have nc: "cmd \<noteq> UPDCUR" using cmd by auto
  from upd_pages_revise [of t "sv_world sv" 0 cmd e 0, OF _ _ mem nc env, of "td_Index (Table t)"
      "Filters ocb" "drop 4 (m_data m)" rows' s "Qerrno ocb"] ok fs rv
  obtain t' w' where u: "upd_pages e (Filters ocb) cmd (drop 4 (m_data m)) (Qerrno ocb) t (sv_world sv)
      (td_Index (Table t)) 0 0 = Ok (QBASE_E_OK, t', w')" and T: "Table t' = Table t"
    and r: "table_ok t' (w_disk w')" "table_rows t' (w_disk w') = rows'" by auto
  have "cmd_UPDATE e cmd sv ocb m = Ok (QBASE_E_OK, [], set_table sv a t' w', ocb)"
    using u sel nc len by (simp add: cmd_UPDATE_def with_table_def Let_def)
  then have "Qbase_devctl e cmd sv ocb m = Ok (Reply QBASE_E_OK [], set_table sv a t' w', ocb\<lparr>Qerrno := QBASE_E_OK\<rparr>)"
    using cmd by (auto simp: Qbase_devctl_def dispatch_def)
  with T r show ?thesis by (auto simp: set_table_def)
qed

section \<open>Closed examples\<close>

definition demo_server :: server where
  "demo_server = \<lparr>tbl_heap = [0 \<mapsto> demo_table [demo_page 4 1 False 1]], Tables = [0], Lost = [],
     next_addr = 1, sv_world = demo_world, StartTime = 0\<rparr>"

definition demo_ocb :: Qbase_ocb where
  "demo_ocb = \<lparr>Qerrno = QBASE_E_OK, ocb_Table = Some 0, Record = 0, Filters = []\<rparr>"

lemma demo_sel: "ocb_Table demo_ocb = Some 0" "tbl_heap demo_server 0 = Some (demo_table [demo_page 4 1 False 1])"
  "sv_world demo_server = demo_world" "w_mem demo_world = []" "Table (demo_table ps) = set_Index demo_desc 9"
  "Filters demo_ocb = []" "Record demo_ocb = 0"
  by (simp_all add: demo_ocb_def demo_server_def demo_world_def demo_table_def)

lemma demo_ok: "table_ok (demo_table [demo_page 4 1 False 1]) (w_disk demo_world)"
  by (rule demo_table_ok) simp

lemma demo_clean: "clean_from 0 (demo_table [demo_page 4 1 False 1])" "roomy (demo_table [demo_page 4 1 False 1])"
  by (simp_all add: clean_from_def roomy_def demo_table_def demo_page_def psize_def)

lemma replicate_Cons: "0 < n \<Longrightarrow> replicate n x = x # replicate (n - 1) x"
  by (cases n) simp_all

lemma demo_rows: "table_rows (demo_table [demo_page 4 1 False 1]) (w_disk demo_world) = replicate 9 (replicate 6 1)"
  by (simp add: table_rows_def row_at_def stored_def file_page_def psize_def data_of_def demo_table_def
      demo_page_def demo_world_def upt_rec Let_def replicate_Cons [of 9] replicate_Cons [of "numeral _"])

lemma demo_key: "rd32 (replicate 6 1) 0 = Some 16843009"
  by (simp add: rd32_def slice_def get32_def)

lemma revise_replicate:
  "Qbase_data_filter e fs row = Ok Match \<Longrightarrow> change_row e cmd d urule row = Ok row' \<Longrightarrow>
   revise e fs cmd d urule (replicate n row) = Ok (replicate n row', False)"
  by (induction n) auto

theorem write_appends_row_witness:
  "\<exists>sv' t'. Qbase_write 0 6 [9, 9, 9, 9, 5, 0] demo_server demo_ocb = Ok (Written 6, sv', demo_ocb\<lparr>Record := 9\<rparr>) \<and>
     table_ok t' (w_disk (sv_world sv')) \<and> table_rows t' (w_disk (sv_world sv')) =
       replicate 9 (replicate 6 1) @ [stamp [9, 9, 9, 9, 5, 0] 10]"
  using write_appends_row [OF demo_sel(1,2) refl, of 0 6 "[9, 9, 9, 9, 5, 0]"] demo_ok demo_clean demo_sel demo_rows
  by auto

theorem read_returns_first_match_witness:
  "\<exists>sv'. Qbase_read demo_cenv 0 6 demo_server demo_ocb =
     Ok (Bytes (replicate 6 1), sv', demo_ocb\<lparr>Record := 1, Qerrno := QBASE_E_OK\<rparr>)"
proof -
  have "fetch demo_cenv (Filters demo_ocb) (drop (Record demo_ocb) (replicate 9 (replicate 6 1))) (Record demo_ocb) =
      Ok (Hit (replicate 6 1) 0)"
    using demo_key by (simp add: demo_sel Qbase_data_filter_def replicate_Cons [of 9])
  from read_returns_first_match [OF demo_sel(1,2) refl, of 0 6 demo_cenv, unfolded demo_sel(3), OF demo_ok demo_clean(1) demo_sel(4)
      _ _ this [folded demo_rows]]
  show ?thesis by (auto simp: demo_sel read_position_def)
qed

theorem update_changes_matching_rows_witness:
  "\<exists>sv' t'. Qbase_devctl demo_cenv DELETE demo_server demo_ocb \<lparr>m_nbytes = 12, m_data = []\<rparr> =
     Ok (Reply QBASE_E_OK [], sv', demo_ocb\<lparr>Qerrno := QBASE_E_OK\<rparr>) \<and>
     table_rows t' (w_disk (sv_world sv')) = replicate 9 [0, 0, 0, 0, 1, 1]"
proof -
  have "change_row demo_cenv DELETE (set_Index demo_desc 9) [] (replicate 6 1) = Ok [0, 0, 0, 0, 1, 1]"
    by (simp add: change_row_def put32_def replicate_Cons [of "numeral _"])
  then have rv: "revise demo_cenv (Filters demo_ocb) DELETE (Table (demo_table [demo_page 4 1 False 1]))
      (drop 4 (m_data \<lparr>m_nbytes = 12, m_data = []\<rparr>)) (table_rows (demo_table [demo_page 4 1 False 1])
        (w_disk (sv_world demo_server))) = Ok (replicate 9 [0, 0, 0, 0, 1, 1], False)"
    unfolding demo_sel demo_rows using revise_replicate demo_key by (simp add: Qbase_data_filter_def)
  have "w32 (4 + FieldNum (Table (demo_table [demo_page 4 1 False 1])) + RowLen (Table (demo_table [demo_page 4 1 False 1])))
      \<le> m_nbytes \<lparr>m_nbytes = 12, m_data = []\<rparr>" by (simp add: demo_sel)
  from update_changes_matching_rows [OF demo_sel(1,2) refl _ demo_clean(1) _ _ demo_cenv_ok this rv]
  show ?thesis using demo_ok demo_sel(3,4) by auto
qed

end
