(* ===== verification/QBaseSystem.thy ===== *)
theory QBaseSystem
  imports QBaseDevctl "HOL-Library.Multiset"
begin

text \<open>
  The server with all its connections. An event opens a connection, closes one, or is a request on
  one. The invariant ties the three views of a loaded table together: the reference count
  \<open>locks\<close> in its entry, the connections that have it selected, and the chains that hold it.
\<close>

section \<open>The system\<close>

record qsystem =
  sys_server :: server
  ocbs :: "Qbase_ocb list"

datatype request = Read u32 nat | Write u32 nat bytes | Devctl dcmd dmsg

datatype event = Connect bool | Disconnect nat | Request nat request

definition serve :: "cenv \<Rightarrow> request \<Rightarrow> server \<Rightarrow> Qbase_ocb \<Rightarrow> (server \<times> Qbase_ocb) outcome" where
  "serve e rq sv ocb =
     (case rq of
        Read xt n \<Rightarrow> bindo (Qbase_read e xt n sv ocb) (\<lambda>(_, sv, ocb). Ok (sv, ocb))
      | Write xt n bs \<Rightarrow> bindo (Qbase_write xt n bs sv ocb) (\<lambda>(_, sv, ocb). Ok (sv, ocb))
      | Devctl cmd m \<Rightarrow> bindo (Qbase_devctl e cmd sv ocb m) (\<lambda>(_, sv, ocb). Ok (sv, ocb)))"

definition sys_step :: "cenv \<Rightarrow> qsystem \<Rightarrow> event \<Rightarrow> qsystem outcome" where
  "sys_step e s ev =
     (case ev of
        Connect mem_ok \<Rightarrow> (case Qbase_OCB_calloc mem_ok of
            None \<Rightarrow> Ok s
          | Some ocb \<Rightarrow> Ok (s\<lparr>ocbs := ocbs s @ [ocb]\<rparr>))
      | Disconnect i \<Rightarrow>
          if i < length (ocbs s)
          then bindo (Qbase_OCB_free (sys_server s) (ocbs s ! i)) (\<lambda>sv.
            Ok (s\<lparr>sys_server := sv, ocbs := take i (ocbs s) @ drop (Suc i) (ocbs s)\<rparr>))
          else Ok s
      | Request i rq \<Rightarrow>
          if i < length (ocbs s)
          then bindo (serve e rq (sys_server s) (ocbs s ! i)) (\<lambda>(sv, ocb).
            Ok (s\<lparr>sys_server := sv, ocbs := (ocbs s)[i := ocb]\<rparr>))
          else Ok s)"

definition server_step :: "cenv \<Rightarrow> qsystem outcome \<Rightarrow> event \<Rightarrow> qsystem outcome" where
  "server_step e s ev = bindo s (\<lambda>s. sys_step e s ev)"

definition server_start :: "disk \<Rightarrow> bytes option list \<Rightarrow> nat \<Rightarrow> qsystem" where
  "server_start fs mem start =
     \<lparr>sys_server = \<lparr>tbl_heap = (\<lambda>_. None), Tables = [], Lost = [], next_addr = 0,
        sv_world = \<lparr>w_disk = fs, w_mem = mem\<rparr>, StartTime = start\<rparr>, ocbs = []\<rparr>"

section \<open>Reference counts\<close>

definition refs :: "server \<Rightarrow> (nat \<Rightarrow> nat) \<Rightarrow> bool" where
  "refs sv n \<longleftrightarrow> finite (dom (tbl_heap sv)) \<and>
     mset (concat (Tables sv # Lost sv)) = mset_set (dom (tbl_heap sv)) \<and>
     (\<forall>a \<in> dom (tbl_heap sv). a < next_addr sv) \<and>
     (\<forall>a. n a < 4294967296) \<and>
     (\<forall>a t. tbl_heap sv a = Some t \<longrightarrow> locks t = n a \<and> 0 < n a) \<and>
     (\<forall>a. tbl_heap sv a = None \<longrightarrow> n a = 0)"

definition drop_ref :: "nat option \<Rightarrow> (nat \<Rightarrow> nat) \<Rightarrow> nat \<Rightarrow> nat" where
  "drop_ref tbl n = (case tbl of None \<Rightarrow> n | Some a \<Rightarrow> n(a := n a - 1))"

definition add_ref :: "nat option \<Rightarrow> (nat \<Rightarrow> nat) \<Rightarrow> nat \<Rightarrow> nat" where
  "add_ref tbl n = (case tbl of None \<Rightarrow> n | Some a \<Rightarrow> n(a := n a + 1))"

definition has_ref :: "nat option \<Rightarrow> (nat \<Rightarrow> nat) \<Rightarrow> bool" where
  "has_ref tbl n \<longleftrightarrow> (\<forall>a. tbl = Some a \<longrightarrow> 0 < n a)"

lemma add_drop_ref [simp]: "has_ref tbl n \<Longrightarrow> add_ref tbl (drop_ref tbl n) = n"
  by (auto simp: add_ref_def drop_ref_def has_ref_def split: option.split)

lemma mset_concat_remove1: "fr \<in> set L \<Longrightarrow> mset fr + mset (concat (remove1 fr L)) = mset (concat L)"
  by (induction L) auto

lemma unlink_mset:
  assumes "a \<in># mset (concat (Tables sv # Lost sv))"
  shows "\<exists>T L. unlink sv a = Ok (sv\<lparr>Tables := T, Lost := L\<rparr>) \<and>
    mset (concat (T # L)) = mset (concat (Tables sv # Lost sv)) - {#a#}"
proof (cases "a \<in> set (Tables sv)")
  case True
  then show ?thesis by (intro exI [of _ "remove1 a (Tables sv)"] exI [of _ "Lost sv"])
      (simp add: unlink_def)
next
  case False
  with assms obtain fr0 where "fr0 \<in> set (Lost sv)" "a \<in> set fr0" by auto
  then obtain fr where f: "find (\<lambda>fr. a \<in> set fr) (Lost sv) = Some fr"
    by (cases "find (\<lambda>fr. a \<in> set fr) (Lost sv)") (auto simp: find_None_iff)
  then have fr: "a \<in> set fr" "fr \<in> set (Lost sv)" by (auto simp: find_Some_iff)
  note m = mset_concat_remove1 [OF fr(2), symmetric]
  show ?thesis
  proof (cases "hd fr = a")
    case True
    then have "fr = a # tl fr" using fr(1) by (cases fr) auto
    then have "mset fr = add_mset a (mset (tl fr))" by (metis mset.simps(2))
    with True False f m show ?thesis
      by (intro exI [of _ "tl fr"] exI [of _ "Tables sv # remove1 fr (Lost sv)"])
        (simp add: unlink_def)
  next
    case ne: False
    have "mset (Tables sv) + (mset fr - {#a#} + mset (concat (remove1 fr (Lost sv)))) =
        mset (Tables sv) + (mset fr + mset (concat (remove1 fr (Lost sv)))) - {#a#}"
      using fr(1) by simp
    with ne False f m show ?thesis
      by (intro exI [of _ "Tables sv"] exI [of _ "remove1 a fr # remove1 fr (Lost sv)"])
        (simp add: unlink_def)
  qed
qed

lemma refsD:
  assumes "refs sv n"
  shows "finite (dom (tbl_heap sv))" "a \<in> dom (tbl_heap sv) \<Longrightarrow> a < next_addr sv"
    "tbl_heap sv a = Some t \<Longrightarrow> locks t = n a" "tbl_heap sv a = Some t \<Longrightarrow> 0 < n a"
    "tbl_heap sv a = None \<Longrightarrow> n a = 0" "n a < 4294967296"
    "mset (concat (Tables sv # Lost sv)) = mset_set (dom (tbl_heap sv))"
  using assms by (auto simp: refs_def)

lemma refs_world [simp]: "refs (sv\<lparr>sv_world := w\<rparr>) n \<longleftrightarrow> refs sv n"
  by (simp add: refs_def)

lemma refs_set_table:
  "refs sv n \<Longrightarrow> tbl_heap sv a = Some t \<Longrightarrow> locks t' = locks t \<Longrightarrow> refs (set_table sv a t' w) n"
  by (auto simp: refs_def set_table_def insert_absorb domI)

lemma refs_dec:
  assumes r: "refs sv n" and t: "tbl_heap sv a = Some t" and n: "1 < n a"
  shows "refs (sv\<lparr>tbl_heap := (tbl_heap sv)(a \<mapsto> t\<lparr>locks := n a - 1\<rparr>)\<rparr>) (n(a := n a - 1))"
  using assms by (auto simp: refs_def insert_absorb domI less_imp_diff_less)

lemma refs_inc:
  assumes r: "refs sv n" and t: "tbl_heap sv a = Some t" and n: "n a + 1 < 4294967296"
  shows "refs (sv\<lparr>tbl_heap := (tbl_heap sv)(a \<mapsto> t\<lparr>locks := n a + 1\<rparr>)\<rparr>) (n(a := n a + 1))"
  using assms by (auto simp: refs_def insert_absorb domI)

lemma TableSync_frame:
  assumes "Qbase_TableSync t fs = (t', fs')"
  shows "Table t' = Table t" "locks t' = locks t" "HFile t' = HFile t" "DFile t' = DFile t"
    "PLocks t' = PLocks t"
  using assms by (auto simp: Qbase_TableSync_def Let_def split: if_splits prod.splits)

lemma TableRelease_refs:
  assumes r: "refs sv n" and t: "tbl_heap sv a = Some t" and n: "n a = 1"
  shows "\<exists>sv'. Qbase_TableRelease (sv\<lparr>tbl_heap := (tbl_heap sv)(a \<mapsto> t1)\<rparr>) a = Ok sv' \<and> refs sv' (n(a := 0))"
proof -
  obtain t' fs where s: "Qbase_TableSync t1 (w_disk (sv_world sv)) = (t', fs)" by fastforce
  let ?sv = "sv\<lparr>tbl_heap := (tbl_heap sv)(a := None), sv_world := (sv_world sv)\<lparr>w_disk := fs\<rparr>\<rparr>"
  note D = refsD [OF r]
  have "a \<in># mset (concat (Tables ?sv # Lost ?sv))" using D(1,7) t by (simp add: domI)
  from unlink_mset [OF this] obtain T L where u: "unlink ?sv a = Ok (?sv\<lparr>Tables := T, Lost := L\<rparr>)"
    and m: "mset (concat (T # L)) = mset_set (dom (tbl_heap sv)) - {#a#}"
    using D(7) by auto
  have "mset_set (dom (tbl_heap sv) - {a}) = mset_set (dom (tbl_heap sv)) - {#a#}"
    using D(1) t by (metis domI mset_set.remove add_mset_remove_trivial)
  then have "refs (?sv\<lparr>Tables := T, Lost := L\<rparr>) (n(a := 0))"
    using r m n by (auto simp: refs_def)
  moreover have "Qbase_TableRelease (sv\<lparr>tbl_heap := (tbl_heap sv)(a \<mapsto> t1)\<rparr>) a = unlink ?sv a"
    using s by (simp add: Qbase_TableRelease_def)
  ultimately show ?thesis using u by simp
qed

lemma w32_dec: "0 < k \<Longrightarrow> k < 4294967296 \<Longrightarrow> w32 (k + 4294967295) = k - 1"
proof -
  assume "0 < k" "k < 4294967296"
  then have "k + 4294967295 = (k - 1) + 4294967296" by simp
  then have "w32 (k + 4294967295) = (k - 1) mod 4294967296" unfolding w32_def by (metis mod_add_self2)
  with \<open>k < 4294967296\<close> show ?thesis by simp
qed

lemma deselect_refs:
  assumes r: "refs sv n" and h: "has_ref tbl n"
  shows "\<exists>sv'. deselect sv tbl = Ok sv' \<and> refs sv' (drop_ref tbl n)"
proof (cases tbl)
  case None
  then show ?thesis using r by (simp add: deselect_def drop_ref_def)
next
  case (Some a)
  then have pos: "0 < n a" using h by (simp add: has_ref_def)
  then obtain t where t: "tbl_heap sv a = Some t" using refsD(5) [OF r] by (cases "tbl_heap sv a") auto
  have l: "w32 (locks t + 4294967295) = n a - 1"
    using refsD(3) [OF r t] refsD(6) [OF r] pos by (simp add: w32_dec)
  show ?thesis
  proof (cases "n a = 1")
    case True
    then show ?thesis using TableRelease_refs [OF r t True] l t Some
      by (simp add: deselect_def drop_ref_def Let_def)
  next
    case False
    then have "1 < n a" using pos by simp
    then show ?thesis using refs_dec [OF r t] l t Some
      by (simp add: deselect_def drop_ref_def Let_def)
  qed
qed

lemma link_refs:
  assumes r: "refs sv n" and l: "locks t = 1"
  shows "refs (link sv t) (add_ref (Some (next_addr sv)) n)"
proof -
  have fresh: "next_addr sv \<notin> dom (tbl_heap sv)" using refsD(2) [OF r] by blast
  then have "n (next_addr sv) = 0" using refsD(5) [OF r] by blast
  then show ?thesis using r l fresh
    by (auto simp: refs_def link_def add_ref_def intro: less_SucI)
qed

lemma release_unlinked_refs:
  "release_unlinked sv junk tbl = Ok sv' \<Longrightarrow> refs sv n \<Longrightarrow> refs sv' n"
  by (auto simp: release_unlinked_def refs_def Let_def split: if_splits)

section \<open>Every handler keeps the counts\<close>

definition same_entry :: "Qbase_table \<Rightarrow> Qbase_table \<Rightarrow> bool" where
  "same_entry t t' \<longleftrightarrow> Table t' = Table t \<and> locks t' = locks t \<and> HFile t' = HFile t \<and> DFile t' = DFile t"

lemma same_entry_trans: "same_entry t t' \<Longrightarrow> same_entry t' t'' \<Longrightarrow> same_entry t t''"
  by (simp add: same_entry_def)

lemma LockTablePage_entry: "LockTablePage t w n = Ok (s, t', w') \<Longrightarrow> same_entry t t'"
  using LockTablePage_frame [of t w n s t' w'] by (simp add: same_entry_def)

lemma read_pages_entry:
  "read_pages e fs t w rec P R = Ok (st, k, t', w') \<Longrightarrow> same_entry t t'"
proof (induction e fs t w rec P R rule: read_pages.induct)
  case (1 e fs t w rec P R)
  show ?case
  proof (cases "rec < td_Index (Table t)")
    case False
    with "1.prems" show ?thesis by (subst (asm) read_pages.simps) (simp add: same_entry_def)
  next
    case True
    with "1.prems" obtain s t1 w1 where l: "LockTablePage t w P = Ok (s, t1, w1)"
      by (subst (asm) read_pages.simps) (auto split: outcome.splits)
    note e = LockTablePage_entry [OF l]
    show ?thesis
    proof (cases s)
      case (Locked i)
      with "1.prems" True l obtain x where x: "scan_rows e fs (pg_Data (Pages t1 ! i))
          (RowLen (Table t1)) (pg_LastRow (Pages t1 ! i)) R rec = Ok x"
        by (subst (asm) read_pages.simps) (auto simp: Let_def split: outcome.splits)
      note l = l [unfolded Locked]
      show ?thesis
      proof (cases x)
        case (Through k')
        have "read_pages e fs t1 w1 k' (Suc P) 0 = Ok (st, k, t', w')"
          using "1.prems" True l x Through by (subst (asm) read_pages.simps) (simp add: Let_def)
        from "1.IH" [OF True l refl refl refl refl x Through this] e show ?thesis
          by (blast intro: same_entry_trans)
      qed (use "1.prems" True l x e in \<open>subst (asm) read_pages.simps, simp add: Let_def\<close>)+
    qed (use "1.prems" True l e in \<open>subst (asm) read_pages.simps, simp\<close>)+
  qed
qed

lemma set_page_entry [simp]: "same_entry t (set_page t i data dirty)"
  by (simp add: same_entry_def set_page_def)

lemma upd_pages_entry:
  "upd_pages e fs cmd urule q t w left P R = Ok (r, t', w') \<Longrightarrow> same_entry t t'"
proof (induction e fs cmd urule q t w left P R rule: upd_pages.induct)
  case (1 e fs cmd urule q t w left P R)
  show ?case
  proof (cases "0 < left")
    case False
    with "1.prems" show ?thesis by (subst (asm) upd_pages.simps) (simp add: same_entry_def)
  next
    case True
    with "1.prems" obtain s t1 w1 where l: "LockTablePage t w P = Ok (s, t1, w1)"
      by (subst (asm) upd_pages.simps) (auto split: outcome.splits)
    note e = LockTablePage_entry [OF l]
    show ?thesis
    proof (cases s)
      case (Locked i)
      with "1.prems" True l obtain data left' dirty where x: "upd_rows e fs cmd (Table t1) urule
          (pg_LastRow (Pages t1 ! i)) R left (pg_Data (Pages t1 ! i)) False = Ok (data, left', dirty)"
        by (subst (asm) upd_pages.simps) (auto split: outcome.splits)
      note l = l [unfolded Locked]
      have "upd_pages e fs cmd urule q (set_page t1 i data dirty) w1 left' (Suc P) 0 = Ok (r, t', w')"
        using "1.prems" True l x by (subst (asm) upd_pages.simps) simp
      from "1.IH" [OF True l refl refl refl x refl refl this] e show ?thesis
        by (metis same_entry_trans set_page_entry)
    qed (use "1.prems" True l e in \<open>subst (asm) upd_pages.simps, simp\<close>)+
  qed
qed

text \<open>The effect of a request on the counts: the connection gives up the table it had and holds
  the one it has afterwards.\<close>

definition moves :: "(nat \<Rightarrow> nat) \<Rightarrow> Qbase_ocb \<Rightarrow> server \<Rightarrow> Qbase_ocb \<Rightarrow> bool" where
  "moves n ocb sv' ocb' \<longleftrightarrow> refs sv' (add_ref (ocb_Table ocb') (drop_ref (ocb_Table ocb) n))"

lemma moves_same:
  "has_ref (ocb_Table ocb) n \<Longrightarrow> refs sv' n \<Longrightarrow> ocb_Table ocb' = ocb_Table ocb \<Longrightarrow> moves n ocb sv' ocb'"
  by (simp add: moves_def)

lemma refs_set_entry:
  "refs sv n \<Longrightarrow> tbl_heap sv a = Some t \<Longrightarrow> same_entry t t' \<Longrightarrow> refs (set_table sv a t' w) n"
  by (simp add: refs_set_table same_entry_def)

lemma Qbase_read_moves:
  assumes "Qbase_read e xt n sv ocb = Ok (r, sv', ocb')" "refs sv k" "has_ref (ocb_Table ocb) k"
  shows "moves k ocb sv' ocb'"
  using assms
  by (intro moves_same)
    (auto simp: Qbase_read_def Let_def split: if_splits option.splits outcome.splits prod.splits
      read_status.splits dest!: read_pages_entry intro: refs_set_entry)

lemma advance_last_entry: "advance_last t fs = (t', fs') \<Longrightarrow> same_entry t t'"
  by (auto simp: advance_last_def same_entry_def Let_def split: if_splits prod.splits)

lemma Qbase_write_moves:
  assumes "Qbase_write xt n bs sv ocb = Ok (r, sv', ocb')" "refs sv k" "has_ref (ocb_Table ocb) k"
  shows "moves k ocb sv' ocb'"
  using assms
  by (intro moves_same)
    (auto simp: Qbase_write_def Let_def same_entry_def split: if_splits option.splits prod.splits
      dest!: advance_last_entry intro!: refs_set_table)

lemma load_table_refs:
  assumes "load_table sv name = Ok (r, sv')" "refs sv n"
  shows "refs sv' n" "r = Inr t \<Longrightarrow> locks t = 1"
  using assms
  by (auto simp: load_table_def load_entry_def Let_def bindo_Ok_iff
      split: if_splits option.splits prod.splits dest: release_unlinked_refs)

lemma create_table_refs:
  assumes "create_table sv name m = Ok (r, sv')" "refs sv n"
  shows "refs sv' n" "r = Inr t \<Longrightarrow> locks t = 1"
  using assms
  by (auto simp: create_table_def create_entry_def Let_def bindo_Ok_iff
      split: if_splits option.splits prod.splits dest: release_unlinked_refs)

lemma select_loaded_moves:
  assumes s: "select_loaded sv ocb a = Ok (q, bs, sv', ocb')" and r: "refs sv n"
    and h: "has_ref (ocb_Table ocb) n" and b: "\<forall>a. n a + 1 < 4294967296"
  shows "moves n ocb sv' ocb'"
proof (cases "ocb_Table ocb = Some a")
  case True
  then show ?thesis using s r h by (auto simp: select_loaded_def intro: moves_same)
next
  case False
  obtain sv1 where d: "deselect sv (ocb_Table ocb) = Ok sv1" "refs sv1 (drop_ref (ocb_Table ocb) n)"
    using deselect_refs [OF r h] by blast
  with s False obtain t where t: "tbl_heap sv1 a = Some t"
    and sv': "sv' = sv1\<lparr>tbl_heap := (tbl_heap sv1)(a \<mapsto> t\<lparr>locks := w32 (locks t + 1)\<rparr>)\<rparr>"
    and tb: "ocb_Table ocb' = Some a"
    by (auto simp: select_loaded_def split: option.splits)
  have "drop_ref (ocb_Table ocb) n a + 1 < 4294967296"
    using b [rule_format, of a] by (auto simp: drop_ref_def split: option.split)
  then show ?thesis using refs_inc [OF d(2) t] refsD(3) [OF d(2) t]
    by (simp add: moves_def sv' tb add_ref_def)
qed

lemma next_addr_free: "refs sv n \<Longrightarrow> n (next_addr sv) = 0"
  using refsD(2,5) by blast

lemma drop_add_swap: "tbl \<noteq> Some a \<Longrightarrow> drop_ref tbl (add_ref (Some a) n) = add_ref (Some a) (drop_ref tbl n)"
  by (auto simp: drop_ref_def add_ref_def fun_upd_twist split: option.split)

lemma cmd_TBLSELECT_moves:
  assumes s: "cmd_TBLSELECT sv ocb m = Ok (q, bs, sv', ocb')" and r: "refs sv n"
    and h: "has_ref (ocb_Table ocb) n" and b: "\<forall>a. n a + 1 < 4294967296"
  shows "moves n ocb sv' ocb'"
proof (cases "m_nbytes m \<le> QBASE_TAB_NAMELEN \<and> find_table sv (cstr (m_data m)) = None")
  case False
  then show ?thesis using s r h b
    by (auto simp: cmd_TBLSELECT_def Let_def split: if_splits option.splits
        intro: moves_same select_loaded_moves)
next
  case True
  with s obtain res sv1 where l: "load_table sv (cstr (m_data m)) = Ok (res, sv1)"
    by (auto simp: cmd_TBLSELECT_def Let_def split: if_splits outcome.splits)
  note r1 = load_table_refs(1) [OF l r]
  show ?thesis
  proof (cases res)
    case (Inl err)
    then show ?thesis using s True l h r1
      by (auto simp: cmd_TBLSELECT_def Let_def split: if_splits intro: moves_same)
  next
    case (Inr t)
    let ?a = "next_addr sv1"
    note lr = link_refs [OF r1 load_table_refs(2) [OF l r Inr]]
    have ne: "ocb_Table ocb \<noteq> Some ?a" using h next_addr_free [OF r1] by (auto simp: has_ref_def)
    have "has_ref (ocb_Table ocb) (add_ref (Some ?a) n)" using h by (simp add: has_ref_def add_ref_def)
    from deselect_refs [OF lr this] obtain sv2 where "deselect (link sv1 t) (ocb_Table ocb) = Ok sv2"
      "refs sv2 (add_ref (Some ?a) (drop_ref (ocb_Table ocb) n))"
      using drop_add_swap [OF ne] by auto
    then show ?thesis using s True l Inr
      by (auto simp: cmd_TBLSELECT_def Let_def moves_def split: if_splits)
  qed
qed

lemma cmd_TBLCREATE_moves:
  assumes s: "cmd_TBLCREATE sv ocb m = Ok (q, bs, sv', ocb')" and r: "refs sv n"
    and h: "has_ref (ocb_Table ocb) n"
  shows "moves n ocb sv' ocb'"
proof (cases "sv' = sv \<and> ocb' = ocb")
  case True
  then show ?thesis using r h by (simp add: moves_same)
next
  case False
  with s obtain name res sv1 where c: "create_table sv name (m_data m) = Ok (res, sv1)"
    and rest: "(case res of Inl err \<Rightarrow> Ok (err, [], sv1, ocb)
      | Inr t \<Rightarrow> bindo (deselect sv1 (ocb_Table ocb)) (\<lambda>sv.
          Ok (QBASE_E_OK, [], link sv t,
            ocb\<lparr>ocb_Table := Some (next_addr sv), Record := 0, Filters := []\<rparr>))) = Ok (q, bs, sv', ocb')"
    by (auto simp: cmd_TBLCREATE_def split: if_splits option.splits outcome.splits sum.splits)
  note r1 = create_table_refs(1) [OF c r]
  show ?thesis
  proof (cases res)
    case (Inl err)
    then show ?thesis using rest h r1 by (auto intro: moves_same)
  next
    case (Inr t)
    obtain sv2 where "deselect sv1 (ocb_Table ocb) = Ok sv2" "refs sv2 (drop_ref (ocb_Table ocb) n)"
      using deselect_refs [OF r1 h] by blast
    then show ?thesis using rest Inr link_refs create_table_refs(2) [OF c r Inr]
      by (auto simp: moves_def)
  qed
qed

lemma with_table_moves:
  assumes "with_table sv ocb f = Ok (q, bs, sv', ocb')" "refs sv n" "has_ref (ocb_Table ocb) n"
    and "\<And>a t. ocb_Table ocb = Some a \<Longrightarrow> tbl_heap sv a = Some t \<Longrightarrow> f a t = Ok (q, bs, sv', ocb') \<Longrightarrow>
      refs sv' n \<and> ocb_Table ocb' = ocb_Table ocb"
  shows "moves n ocb sv' ocb'"
  using assms by (auto simp: with_table_def split: option.splits intro: moves_same)

lemma simple_moves:
  assumes "refs sv n" "has_ref (ocb_Table ocb) n"
  shows "cmd_INFO sv ocb m = Ok (q, bs, sv', ocb') \<Longrightarrow> moves n ocb sv' ocb'"
    "cmd_FETCHRST sv ocb = Ok (q, bs, sv', ocb') \<Longrightarrow> moves n ocb sv' ocb'"
    "cmd_SEEK sv ocb m = Ok (q, bs, sv', ocb') \<Longrightarrow> moves n ocb sv' ocb'"
    "cmd_FLTRDELETE sv ocb = Ok (q, bs, sv', ocb') \<Longrightarrow> moves n ocb sv' ocb'"
    "cmd_FLTRPOP sv ocb = Ok (q, bs, sv', ocb') \<Longrightarrow> moves n ocb sv' ocb'"
  using assms by (auto intro!: moves_same simp: cmd_INFO_def cmd_FETCHRST_def cmd_SEEK_def
      cmd_FLTRDELETE_def cmd_FLTRPOP_def Let_def split: if_splits option.splits)

lemma table_moves:
  assumes "refs sv n" "has_ref (ocb_Table ocb) n"
  shows "cmd_TBLFLUSH sv ocb = Ok (q, bs, sv', ocb') \<Longrightarrow> moves n ocb sv' ocb'"
    "cmd_TBLCAPSLEN sv ocb = Ok (q, bs, sv', ocb') \<Longrightarrow> moves n ocb sv' ocb'"
    "cmd_TBLCAPS sv ocb = Ok (q, bs, sv', ocb') \<Longrightarrow> moves n ocb sv' ocb'"
    "cmd_FLTRDEFINE sv ocb m = Ok (q, bs, sv', ocb') \<Longrightarrow> moves n ocb sv' ocb'"
    "cmd_UPDATE e cmd sv ocb m = Ok (q, bs, sv', ocb') \<Longrightarrow> moves n ocb sv' ocb'"
  unfolding cmd_TBLFLUSH_def cmd_TBLCAPSLEN_def cmd_TBLCAPS_def cmd_FLTRDEFINE_def cmd_UPDATE_def
  by (erule with_table_moves [OF _ assms],
      insert assms(1),
      auto simp: Let_def split: if_splits prod.splits option.splits outcome.splits
        intro!: refs_set_table dest: TableSync_frame upd_pages_entry simp: same_entry_def)+

lemma devctl_moves:
  assumes "Qbase_devctl e cmd sv ocb m = Ok (r, sv', ocb')" "refs sv n" "has_ref (ocb_Table ocb) n"
    and "\<forall>a. n a + 1 < 4294967296"
  shows "moves n ocb sv' ocb'"
proof (cases "dispatch e cmd sv ocb m")
  case None
  then show ?thesis using assms by (auto simp: Qbase_devctl_def intro: moves_same)
next
  case (Some h)
  with assms(1) obtain q bs ocb1 where h: "h = Ok (q, bs, sv', ocb1)" and ocb': "ocb' = ocb1\<lparr>Qerrno := q\<rparr>"
    by (auto simp: Qbase_devctl_def bindo_Ok_iff)
  have "moves n ocb sv' ocb1"
    using Some h assms(2-4)
    by (cases cmd) (auto simp: dispatch_def intro: cmd_TBLSELECT_moves cmd_TBLCREATE_moves
        simple_moves table_moves moves_same)
  then show ?thesis by (simp add: moves_def ocb')
qed

lemma serve_moves:
  assumes "serve e rq sv ocb = Ok (sv', ocb')" "refs sv n" "has_ref (ocb_Table ocb) n"
    and "\<forall>a. n a + 1 < 4294967296"
  shows "moves n ocb sv' ocb'"
  using assms Qbase_read_moves Qbase_write_moves devctl_moves
  by (cases rq) (fastforce simp: serve_def bindo_Ok_iff)+

section \<open>The invariant of the system\<close>

text \<open>How many connections have the table at \<open>a\<close> selected.\<close>

definition users :: "Qbase_ocb list \<Rightarrow> nat \<Rightarrow> nat" where
  "users os a = length (filter (\<lambda>ocb. ocb_Table ocb = Some a) os)"

definition sys_ok :: "qsystem \<Rightarrow> bool" where
  "sys_ok s \<longleftrightarrow> refs (sys_server s) (users (ocbs s)) \<and> length (ocbs s) < 4294967295"

definition outcome_ok :: "qsystem outcome \<Rightarrow> bool" where
  "outcome_ok s = (case s of Ok s \<Rightarrow> sys_ok s | Crash _ \<Rightarrow> True)"

text \<open>Connections are counted in 32 bits, so a new one needs room.\<close>

definition room_for :: "qsystem outcome \<Rightarrow> event \<Rightarrow> bool" where
  "room_for s ev = (case (s, ev) of
     (Ok s, Connect _) \<Rightarrow> Suc (length (ocbs s)) < 4294967295 | _ \<Rightarrow> True)"

lemma users_le: "users os a \<le> length os"
  by (simp add: users_def)

lemma users_has_ref: "i < length os \<Longrightarrow> has_ref (ocb_Table (os ! i)) (users os)"
  by (auto simp: has_ref_def users_def filter_empty_conv intro: bexI [OF _ nth_mem])

lemma users_split:
  "i < length os \<Longrightarrow> users os a = users (take i os @ drop (Suc i) os) a + (if ocb_Table (os ! i) = Some a then 1 else 0)"
  by (subst (1) id_take_nth_drop [of i os]) (simp_all add: users_def)

lemma users_update:
  assumes "i < length os"
  shows "users (os[i := ocb]) = add_ref (ocb_Table ocb) (drop_ref (ocb_Table (os ! i)) (users os))"
proof
  fix a
  have "users (os[i := ocb]) a = users (take i os @ drop (Suc i) os) a + (if ocb_Table ocb = Some a then 1 else 0)"
    using users_split [of i "os[i := ocb]" a] assms by simp
  with users_split [OF assms, of a]
  show "users (os[i := ocb]) a = add_ref (ocb_Table ocb) (drop_ref (ocb_Table (os ! i)) (users os)) a"
    by (auto simp: add_ref_def drop_ref_def split: option.splits)
qed

lemma users_delete:
  assumes "i < length os"
  shows "users (take i os @ drop (Suc i) os) = drop_ref (ocb_Table (os ! i)) (users os)"
proof
  fix a
  show "users (take i os @ drop (Suc i) os) a = drop_ref (ocb_Table (os ! i)) (users os) a"
    using users_split [OF assms, of a] by (auto simp: drop_ref_def split: option.splits)
qed

lemma users_open: "ocb_Table ocb = None \<Longrightarrow> users (os @ [ocb]) = users os"
  by (auto simp: users_def)

lemma sys_step_ok:
  assumes ok: "sys_ok s" and room: "room_for (Ok s) ev" and st: "sys_step e s ev = Ok s'"
  shows "sys_ok s'"
proof (cases ev)
  case (Connect b)
  with ok room st users_open show ?thesis
    by (auto simp: sys_ok_def sys_step_def room_for_def Qbase_OCB_calloc_def split: if_splits)
next
  case (Disconnect i)
  show ?thesis
  proof (cases "i < length (ocbs s)")
    case True
    with ok deselect_refs users_has_ref obtain sv where
      "deselect (sys_server s) (ocb_Table (ocbs s ! i)) = Ok sv"
      "refs sv (drop_ref (ocb_Table (ocbs s ! i)) (users (ocbs s)))"
      unfolding sys_ok_def by blast
    with ok st Disconnect True show ?thesis
      by (auto simp: sys_ok_def sys_step_def Qbase_OCB_free_def users_delete)
  qed (use ok st Disconnect in \<open>simp add: sys_step_def\<close>)
next
  case (Request i rq)
  show ?thesis
  proof (cases "i < length (ocbs s)")
    case True
    with st Request obtain sv ocb where r: "serve e rq (sys_server s) (ocbs s ! i) = Ok (sv, ocb)"
      and s': "s' = s\<lparr>sys_server := sv, ocbs := (ocbs s)[i := ocb]\<rparr>"
      by (auto simp: sys_step_def bindo_Ok_iff)
    have "\<forall>a. users (ocbs s) a + 1 < 4294967296"
      using ok users_le [of "ocbs s"] by (auto simp: sys_ok_def intro: le_less_trans)
    with serve_moves [OF r _ users_has_ref [OF True]] ok show ?thesis
      by (simp add: sys_ok_def s' moves_def users_update [OF True])
  qed (use ok st Request in \<open>simp add: sys_step_def\<close>)
qed

interpretation qbase: machine "server_step e" room_for outcome_ok for e
proof
  fix s ev
  assume "outcome_ok s" "room_for s ev"
  then show "outcome_ok (server_step e s ev)"
    by (cases s; cases "sys_step e (case s of Ok x \<Rightarrow> x) ev")
      (auto simp: outcome_ok_def server_step_def intro: sys_step_ok)
qed

lemma start_ok: "outcome_ok (Ok (server_start fs mem start))"
  by (simp add: outcome_ok_def sys_ok_def server_start_def refs_def users_def)

text \<open>C3: From the empty server, after any run of connections, requests and disconnections that
  does not end in undefined behaviour, the reference count of every table in memory is the number
  of connections that have it selected, and no table without a connection stays in memory; every
  table that a connection has selected is in memory; and every table in memory is in exactly one
  place of one chain.\<close>

theorem reference_counts_exact:
  assumes "qbase.run e (Ok (server_start fs mem start)) evs = Ok s"
    and "qbase.run_ok e (Ok (server_start fs mem start)) evs"
  shows "(\<forall>a t. tbl_heap (sys_server s) a = Some t \<longrightarrow> locks t = users (ocbs s) a \<and> 0 < users (ocbs s) a) \<and>
    (\<forall>ocb \<in> set (ocbs s). \<forall>a. ocb_Table ocb = Some a \<longrightarrow> a \<in> dom (tbl_heap (sys_server s))) \<and>
    distinct (concat (Tables (sys_server s) # Lost (sys_server s))) \<and>
    set (concat (Tables (sys_server s) # Lost (sys_server s))) = dom (tbl_heap (sys_server s))"
proof -
  let ?sv = "sys_server s" and ?n = "users (ocbs s)"
  have "outcome_ok (Ok s)" using qbase.run_inv [OF start_ok assms(2)] assms(1) by simp
  then have r: "refs ?sv ?n" by (simp add: outcome_ok_def sys_ok_def)
  note D = refsD [OF r]
  have sel: "a \<in> dom (tbl_heap ?sv)" if "ocb \<in> set (ocbs s)" "ocb_Table ocb = Some a" for ocb a
  proof -
    have "0 < ?n a" using that by (auto simp: users_def filter_empty_conv)
    then show ?thesis using D(5) [of a] by (cases "tbl_heap ?sv a") auto
  qed
  have c: "mset (concat (Tables ?sv # Lost ?sv)) = mset_set (dom (tbl_heap ?sv))" by (rule D(7))
  have st: "set (concat (Tables ?sv # Lost ?sv)) = dom (tbl_heap ?sv)"
    using arg_cong [OF c, of set_mset] D(1) by simp
  moreover have "distinct (concat (Tables ?sv # Lost ?sv))"
    unfolding distinct_count_atmost_1 c st using D(1) by simp
  ultimately show ?thesis using D(3,4) sel by blast
qed

section \<open>A closed run\<close>

text \<open>Two connections select the table \<open>t\<close>, which the first one loads from disk; the first
  one closes.\<close>

definition demo_disk :: disk where
  "demo_disk = [bytes_of ''t.qdbh'' \<mapsto> demo_desc, bytes_of ''t.qdbd'' \<mapsto> replicate 12 0]"

definition demo_select :: request where
  "demo_select = Devctl TBLSELECT \<lparr>m_nbytes = 2, m_data = [116, 0]\<rparr>"

lemma demo_names: "file_name demo_desc = Some [116]" "td_cname demo_desc = [116]"
  by (simp_all add: file_name_def td_cname_def demo_desc_def cstr_def Let_def)

lemma demo_files [simp]:
  "demo_disk (116 # QBASE_TBL_H) = Some demo_desc" "demo_disk (116 # QBASE_TBL_D) = Some (replicate 12 0)"
  by (simp_all add: demo_disk_def QBASE_TBL_H_def QBASE_TBL_D_def bytes_of_def)

lemma demo_load:
  assumes "w_disk (sv_world sv) = demo_disk" "w_mem (sv_world sv) = []"
  shows "load_table sv [116] = Ok (Inr \<lparr>Table = demo_desc,
     Pages = [\<lparr>pg_Data = replicate 12 0, pg_Size = 12, pg_Index = 0, pg_LastRow = 0, pg_NeedSync = False\<rparr>],
     locks = 1, PLocks = 1, HFile = File (116 # QBASE_TBL_H), DFile = File (116 # QBASE_TBL_D)\<rparr>, sv)"
  using assms
  by (simp add: load_table_def load_entry_def Let_def os_open_def os_size_def os_read_def malloc_def
      demo_names last_page_def page_size_def)

lemma demo_run:
  "\<exists>s t. qbase.run demo_cenv (Ok (server_start demo_disk [] 0))
       [Connect True, Request 0 demo_select, Connect True, Request 1 demo_select, Disconnect 0] = Ok s \<and>
     qbase.run_ok demo_cenv (Ok (server_start demo_disk [] 0))
       [Connect True, Request 0 demo_select, Connect True, Request 1 demo_select, Disconnect 0] \<and>
     tbl_heap (sys_server s) 0 = Some t \<and> users (ocbs s) 0 = 1"
  by (simp add: server_step_def sys_step_def Qbase_OCB_calloc_def serve_def demo_select_def
      Qbase_devctl_def dispatch_def cmd_TBLSELECT_def QBASE_TAB_NAMELEN_def Let_def cstr_def
      find_table_def demo_load server_start_def link_def deselect_def select_loaded_def demo_names
      room_for_def Qbase_OCB_free_def users_def w32_def)

theorem reference_counts_exact_witness:
  "\<exists>s t. qbase.run demo_cenv (Ok (server_start demo_disk [] 0))
       [Connect True, Request 0 demo_select, Connect True, Request 1 demo_select, Disconnect 0] = Ok s \<and>
     tbl_heap (sys_server s) 0 = Some t \<and> locks t = 1"
  using demo_run reference_counts_exact by metis

end
