(* ===== verification/QBasePersist.thy ===== *)
theory QBasePersist
  imports QBaseScan QBaseSystem
begin

text \<open>
  What survives: a table that its last connection gives up is written back and freed, and
  selecting it again loads the same rows from its two files.
\<close>

section \<open>Flushing a table\<close>

definition all_clean :: "Qbase_table \<Rightarrow> bool" where
  "all_clean t \<longleftrightarrow> (\<forall>p \<in> set (Pages t). \<not> pg_NeedSync p)"

lemma sync_one:
  assumes ok: "table_ok t fs" and ps: "Pages t = xs @ p # ys"
    and s: "Qbase_PageSync p (DFile t) fs = (p', fs')" and t': "t' = t\<lparr>Pages := xs @ p' # ys\<rparr>"
  shows "table_ok t' fs' \<and> table_rows t' fs' = table_rows t fs \<and> \<not> pg_NeedSync p' \<and>
    (\<forall>h. File h \<noteq> DFile t \<longrightarrow> fs' h = fs h)"
proof -
  note D = table_okD [OF ok] and pl = pool_okD [OF table_okD(1) [OF ok]]
  have p': "p' = p\<lparr>pg_NeedSync := False\<rparr>" using s by (auto simp: Qbase_PageSync_def split: if_splits)
  show ?thesis
  proof (cases "pg_NeedSync p")
    case False
    then have "p' = p" "fs' = fs" using s by (auto simp: Qbase_PageSync_def)
    moreover have "t\<lparr>Pages := xs @ p # ys\<rparr> = t" by (simp add: ps [symmetric])
    ultimately show ?thesis using ok False by (simp add: t')
  next
    case True
    have okp: "page_ok (Table t) p" using pl(3) ps by simp
    have le: "pg_Index p \<le> pg_Index (LastPage t)" using sorted_le_last [OF pl(2)] ps by simp
    have fs': "fs' = os_write fs (DFile t) (pg_Index p * psize (Table t)) (pg_Data p)"
      using s True okp table_offset(2) [OF ok le] by (simp add: Qbase_PageSync_def page_ok_def)
    have c': "data_of t' fs' = pwrite (data_of t fs) (pg_Index p * psize (Table t)) (pg_Data p)"
      unfolding fs' by (rule data_of_write(1) [OF D(2)]) (simp add: t')
    note ps2 = pool_sync [OF D(1) ps refl p' c']
    have sr: "same_rows (Table t) (Pages t) (data_of t fs) (Pages t') (data_of t' fs')"
      using ps2(2) by (simp add: t')
    have "files_ok t fs'" unfolding fs' by (rule data_of_write(2) [OF D(2) refl])
    then have "table_ok t' fs'"
      by (intro table_okI [OF ok _ _ _ _ _ _ _ sr]) (use D ps2(1) ps in \<open>simp_all add: t'\<close>)
    moreover have "table_rows t' fs' = table_rows t fs"
      by (rule same_rows_table_rows [OF ok _ sr]) (simp add: t')
    moreover have "\<forall>h. File h \<noteq> DFile t \<longrightarrow> fs' h = fs h"
      by (auto simp: fs' os_write_def split: fdesc.split option.split)
    ultimately show ?thesis by (simp add: p')
  qed
qed

lemma sync_pages_ok:
  assumes "table_ok t fs" "Pages t = xs @ ps" "sync_pages ps (DFile t) fs = (ps', fs')"
    and "t' = t\<lparr>Pages := xs @ ps'\<rparr>" "\<forall>p \<in> set xs. \<not> pg_NeedSync p"
  shows "table_ok t' fs' \<and> table_rows t' fs' = table_rows t fs \<and> all_clean t' \<and>
    (\<forall>h. File h \<noteq> DFile t \<longrightarrow> fs' h = fs h)"
  using assms
proof (induction ps arbitrary: xs t fs ps' t')
  case Nil
  then have "t' = t" by simp
  with Nil show ?case by (simp add: all_clean_def)
next
  case (Cons p ps)
  obtain p1 fs1 where s: "Qbase_PageSync p (DFile t) fs = (p1, fs1)" by fastforce
  obtain ps1 where r: "sync_pages ps (DFile t) fs1 = (ps1, fs')" and ps': "ps' = p1 # ps1"
    using Cons.prems(3) s by (auto split: prod.splits)
  let ?t1 = "t\<lparr>Pages := xs @ p1 # ps\<rparr>"
  note one = sync_one [OF Cons.prems(1,2) s refl]
  from Cons.IH [of ?t1 fs1 "xs @ [p1]" ps1 t'] one r ps' Cons.prems(4,5) show ?case by auto
qed

lemma TableSync_ok:
  assumes ok: "table_ok t fs" and s: "Qbase_TableSync t fs = (t', fs')"
  shows "table_ok t' fs'" "table_rows t' fs' = table_rows t fs" "all_clean t'" "Table t' = Table t"
    "HFile t = File h \<Longrightarrow> fs h = Some c \<Longrightarrow> length c = td_Size (Table t) \<Longrightarrow> length (Table t) = td_Size (Table t) \<Longrightarrow>
      fs' h = Some (Table t)"
proof -
  note D = table_okD [OF ok]
  obtain h0 n0 where hf: "HFile t = File h0" "DFile t = File n0" "h0 \<noteq> n0"
    using D(2) by (auto simp: files_ok_def split: fdesc.splits)
  let ?fs1 = "Qbase_HeadSync t fs"
  have dt: "data_of t ?fs1 = data_of t fs" "files_ok t ?fs1" by (rule data_of_HeadSync [OF D(2) refl])+
  have ok1: "table_ok t ?fs1" using ok dt by (simp add: table_ok_def Let_def)
  have rows: "table_rows t ?fs1 = table_rows t fs" by (simp add: table_rows_def row_at_def dt)
  obtain ps fs2 where p: "sync_pages (Pages t) (DFile t) ?fs1 = (ps, fs2)" by fastforce
  then have r: "t' = t\<lparr>Pages := [] @ ps\<rparr>" "fs' = fs2" using s hf by (auto simp: Qbase_TableSync_def Let_def)
  note all = sync_pages_ok [OF ok1 _ p r(1), unfolded r(2) [symmetric]]
  show "table_ok t' fs'" "table_rows t' fs' = table_rows t fs" "all_clean t'" "Table t' = Table t"
    using all rows r by auto
  assume h: "HFile t = File h" and c: "fs h = Some c" "length c = td_Size (Table t)" "length (Table t) = td_Size (Table t)"
  have "fs' h = ?fs1 h" using all hf h by auto
  also have "\<dots> = Some (Table t)" using h c by (simp add: Qbase_HeadSync_def os_write_def pwrite_def)
  finally show "fs' h = Some (Table t)" .
qed

section \<open>Rows of a clean table are in its file\<close>

lemma clean_row:
  assumes ok: "table_ok t fs" and cl: "all_clean t" and k: "k < td_Index (Table t)"
  shows "row_at t fs k = take (RowLen (Table t)) (drop (k div PageRows (Table t) * psize (Table t)
    + k mod PageRows (Table t) * RowLen (Table t)) (data_of t fs))"
proof -
  let ?n = "RowLen (Table t)" and ?m = "k div PageRows (Table t)" and ?r = "k mod PageRows (Table t)"
    and ?c = "data_of t fs" and ?S = "psize (Table t)"
  note pl = pool_okD [OF table_okD(1) [OF ok]] and u = row_in_used [OF ok k]
  show ?thesis
  proof (cases "?m \<in> pg_Index ` set (Pages t)")
    case True
    then obtain i where i: "i < length (Pages t)" "pg_Index (Pages t ! i) = ?m"
      by (metis (no_types, lifting) imageE in_set_conv_nth)
    let ?p = "Pages t ! i"
    have ip: "?p \<in> set (Pages t)" using i by simp
    have "pg_LastRow ?p * ?n = used (Table t) (Pages t) ?m"
      using page_last_row(2) [OF ok i(1) refl] i(2) by (simp add: used_def psize_def mult.commute)
    then have le: "?r * ?n + ?n \<le> pg_LastRow ?p * ?n" using u(2) by simp
    have "take (pg_LastRow ?p * ?n) (pg_Data ?p) = take (pg_LastRow ?p * ?n) (drop (?m * ?S) ?c)"
      using pl(6) [OF ip] cl ip i(2) by (simp add: in_file_def all_clean_def Let_def)
    from take_drop_part [OF le this] stored_in_pool [OF pl(2) ip i(2)]
    show ?thesis by (simp add: row_at_def Let_def add.commute)
  next
    case False
    have "?m < pg_Index (LastPage t)" by (rule not_last_index(1) [OF table_okD(1) [OF ok] False u(1)])
    then have "?r * ?n + ?n \<le> ?S" using u(2) by (simp add: used_def)
    then show ?thesis using stored_on_disk [OF False]
      by (simp add: row_at_def Let_def file_page_def drop_take min_absorb1 add.commute)
  qed
qed

section \<open>Loading\<close>

lemma suffixes_differ [simp]: "QBASE_TBL_H \<noteq> QBASE_TBL_D"
  by (simp add: QBASE_TBL_H_def QBASE_TBL_D_def bytes_of_def)

text \<open>The table and its two files belong together.\<close>

definition entry_ok :: "bytes \<Rightarrow> Qbase_table \<Rightarrow> disk \<Rightarrow> bool" where
  "entry_ok name t fs \<longleftrightarrow> HFile t = File (name @ QBASE_TBL_H) \<and> DFile t = File (name @ QBASE_TBL_D) \<and>
     file_name (Table t) = Some name \<and> length (Table t) = td_Size (Table t) \<and>
     (\<exists>c. fs (name @ QBASE_TBL_H) = Some c \<and> length c = td_Size (Table t))"

lemma load_table_ok:
  assumes ok: "table_ok t fs" and cl: "all_clean t" and e: "entry_ok name t fs" and room: "roomy t"
    and hd: "fs (name @ QBASE_TBL_H) = Some (Table t)"
    and sv: "w_disk (sv_world sv) = fs" "w_mem (sv_world sv) = []"
  shows "\<exists>t'. load_table sv name = Ok (Inr t', sv) \<and> Table t' = Table t \<and> table_ok t' fs \<and> locks t' = 1 \<and>
    entry_ok name t' fs \<and> table_rows t' fs = table_rows t fs"
proof -
  let ?d = "Table t" and ?I = "td_Index (Table t)" and ?PR = "PageRows (Table t)" and ?S = "psize (Table t)"
  let ?i = "?I div ?PR" and ?c = "data_of t fs" and ?L = "pg_Index (LastPage t)"
  note D = table_okD [OF ok] and pl = pool_okD [OF table_okD(1) [OF ok]]
  have PR: "0 < ?PR" using D(6) by simp
  have lp: "page_ok ?d (LastPage t)" "in_file ?d ?c (LastPage t)"
    using last_page_ok [OF ok] pl(6) [of "LastPage t"] cl D(8) by (auto simp: all_clean_def)
  have i: "?i = (if pg_LastRow (LastPage t) = ?PR then ?L + 1 else ?L)"
    "?I mod ?PR = (if pg_LastRow (LastPage t) = ?PR then 0 else pg_LastRow (LastPage t))"
    using D(10) lp(1) PR by (auto simp: page_ok_def div_mult_self3)
  have "(?i + 1) * ?S \<le> (?L + 2) * ?S" using i by (intro mult_le_mono1) simp
  then have bound: "(?i + 1) * ?S < 2147483648" using room by (simp add: roomy_def)
  have sz: "page_size ?d = ?S" using bound by (simp add: page_size_def psize_def)
  have off: "w32 (?i * ?S) = ?i * ?S" using bound by simp
  have fd: "fs (name @ QBASE_TBL_D) = Some ?c"
    using D(2) e by (auto simp: files_ok_def entry_ok_def data_of_def)
  have len: "?i * ?S \<le> length ?c"
  proof (cases "pg_LastRow (LastPage t) = ?PR")
    case True
    have "?L * ?S + ?PR * RowLen ?d \<le> length ?c"
      using in_file_length [OF lp(2,1) refl] True PR D(7) by simp
    then show ?thesis using i True by (simp add: psize_def mult.commute add.commute)
  next
    case False
    then show ?thesis using i pl(5) by simp
  qed
  let ?p = "last_page ?d fs (File (name @ QBASE_TBL_D)) (replicate ?S 0)"
  let ?t = "\<lparr>Table = ?d, Pages = [?p], locks = 1, PLocks = 1, HFile = File (name @ QBASE_TBL_H),
    DFile = File (name @ QBASE_TBL_D)\<rparr>"
  have p: "pg_Size ?p = ?S" "pg_Index ?p = ?i" "pg_LastRow ?p = ?I mod ?PR" "pg_NeedSync ?p = False"
    "length (pg_Data ?p) = ?S" by (simp_all add: last_page_def sz Let_def)
  have ld: "load_table sv name = Ok (Inr ?t, sv)"
    using sv hd fd e D(6,9) PR
    by (simp add: load_table_def load_entry_def Let_def os_open_def malloc_def os_size_def os_read_def
        entry_ok_def sz)
  have dt: "data_of ?t fs = ?c" using fd by (simp add: data_of_def)
  have got: "pg_Data ?p = take ?S (drop (?i * ?S) ?c) @ drop (length (take ?S (drop (?i * ?S) ?c))) (replicate ?S 0)"
    using fd off by (simp add: last_page_def sz os_read_def Let_def)
  have "in_file ?d ?c ?p"
  proof (cases "?I mod ?PR = 0")
    case True
    then show ?thesis by (simp add: in_file_def p)
  next
    case False
    then have lr: "pg_LastRow (LastPage t) \<noteq> ?PR" "?i = ?L" "?I mod ?PR = pg_LastRow (LastPage t)"
      using i by auto
    let ?u = "pg_LastRow (LastPage t) * RowLen ?d"
    have "?L * ?S + ?u \<le> length ?c"
      using in_file_length [OF lp(2,1) refl] False lr D(7) by simp
    moreover have "?u \<le> ?S" by (rule used_le [OF lp(1)])
    ultimately have "take ?u (pg_Data ?p) = take ?u (drop (?L * ?S) ?c)"
      unfolding got lr(2) by (simp add: min_absorb1)
    then show ?thesis by (simp add: in_file_def p lr)
  qed
  then have pool: "pool_ok ?d ?c [?p]"
    using p len PR by (auto simp: pool_ok_def page_ok_def intro: less_imp_le)
  have fo: "files_ok ?t fs" using hd fd by (simp add: files_ok_def)
  have idx: "?I = ?i * ?PR + ?I mod ?PR" by simp
  have okt: "table_ok ?t fs"
    using D(5,6,7,9) bound pool fo p(2,3) dt by (simp add: table_ok_def Let_def del: div_mult_self3)
  have "row_at ?t fs k = row_at t fs k" if "k < ?I" for k
    using clean_row [OF ok cl that] clean_row [OF okt, of k] that p dt by (simp add: all_clean_def)
  then have "table_rows ?t fs = table_rows t fs" by (simp add: table_rows_def)
  with ld okt e show ?thesis by (auto simp: entry_ok_def)
qed

section \<open>Giving a table up and selecting it again\<close>

lemma sync_pages_indices: "map pg_Index (fst (sync_pages ps f fs)) = map pg_Index ps"
  by (induction ps f fs rule: sync_pages.induct) (auto simp: Let_def Qbase_PageSync_def split: prod.splits if_splits)

lemma TableSync_roomy:
  assumes "Qbase_TableSync t fs = (t', fs')" "Pages t \<noteq> []" "roomy t"
  shows "roomy t'"
proof -
  have m: "map pg_Index (Pages t') = map pg_Index (Pages t)"
    using assms(1) sync_pages_indices [of "Pages t" "DFile t" "if HFile t \<noteq> NoFile then Qbase_HeadSync t fs else fs"]
    by (auto simp: Qbase_TableSync_def Let_def split: if_splits prod.splits)
  then have "pg_Index (LastPage t') = pg_Index (LastPage t)"
    using assms(2) by (metis last_map map_is_Nil_conv)
  then show ?thesis using assms(3) TableSync_frame(1) [OF assms(1)] by (simp add: roomy_def)
qed

text \<open>C7: When the only connection that uses a well-formed table gives it up, the table is
  written back and its memory freed; loading the table again by its name then succeeds and brings
  back a well-formed table with the same descriptor and exactly the same rows, those of pages that
  were changed in memory only included.\<close>

theorem reselect_restores_rows:
  assumes t: "tbl_heap sv a = Some t" "locks t = 1" "a \<in> set (Tables sv)"
    and fs: "fs = w_disk (sv_world sv)" and mem: "w_mem (sv_world sv) = []"
    and ok: "table_ok t fs" "roomy t" "entry_ok name t fs"
  shows "\<exists>sv' t'. deselect sv (Some a) = Ok sv' \<and> tbl_heap sv' a = None \<and>
    load_table sv' name = Ok (Inr t', sv') \<and> Table t' = Table t \<and> table_ok t' (w_disk (sv_world sv')) \<and>
    table_rows t' (w_disk (sv_world sv')) = table_rows t fs"
proof -
  let ?t0 = "t\<lparr>locks := 0\<rparr>"
  obtain t1 fs1 where s: "Qbase_TableSync ?t0 fs = (t1, fs1)" by fastforce
  have ok0: "table_ok ?t0 fs" "roomy ?t0" "table_rows ?t0 fs = table_rows t fs"
    using ok by (simp_all add: table_ok_def files_ok_def data_of_def roomy_def table_rows_def row_at_def Let_def)
  note S = TableSync_ok [OF ok0(1) s]
  let ?sv = "sv\<lparr>tbl_heap := (tbl_heap sv)(a := None), Tables := remove1 a (Tables sv),
    sv_world := (sv_world sv)\<lparr>w_disk := fs1\<rparr>\<rparr>"
  have d: "deselect sv (Some a) = Ok ?sv"
    using t s fs by (simp add: deselect_def w32_def Qbase_TableRelease_def unlink_def)
  have hd: "fs1 (name @ QBASE_TBL_H) = Some (Table t1)"
    using S(5) ok(3) S(4) by (auto simp: entry_ok_def)
  have e1: "entry_ok name t1 fs1"
    using ok(3) TableSync_frame [OF s] hd by (auto simp: entry_ok_def)
  have "roomy t1" by (rule TableSync_roomy [OF s _ ok0(2)]) (use table_okD(8) [OF ok(1)] in simp)
  from load_table_ok [OF S(1,3) e1 this hd, of ?sv] mem S(2,4) ok0(3) d
  show ?thesis by auto
qed

definition demo_entry :: Qbase_table where
  "demo_entry = \<lparr>Table = set_Index demo_desc 1, Pages = [demo_page 0 1 True 7], locks = 1, PLocks = 1,
     HFile = File (116 # QBASE_TBL_H), DFile = File (116 # QBASE_TBL_D)\<rparr>"

definition demo_loaded :: server where
  "demo_loaded = \<lparr>tbl_heap = [0 \<mapsto> demo_entry], Tables = [0], Lost = [], next_addr = 1,
     sv_world = \<lparr>w_disk = demo_disk, w_mem = []\<rparr>, StartTime = 0\<rparr>"

lemma demo_entry_ok:
  "table_ok demo_entry demo_disk" "roomy demo_entry" "entry_ok [116] demo_entry demo_disk"
proof -
  show "table_ok demo_entry demo_disk"
    by (simp add: table_ok_def demo_entry_def demo_page_def files_ok_def data_of_def
        pool_ok_def page_ok_def psize_def in_file_def)
  show "roomy demo_entry" by (simp add: roomy_def demo_entry_def demo_page_def psize_def)
  have "file_name (set_Index demo_desc 1) = Some [116]"
    by (simp add: file_name_def set_Index_def put32_def demo_desc_def cstr_def Let_def)
  then show "entry_ok [116] demo_entry demo_disk"
    by (simp add: entry_ok_def demo_entry_def)
qed

theorem reselect_restores_rows_witness:
  "\<exists>sv' t'. deselect demo_loaded (Some 0) = Ok sv' \<and> load_table sv' [116] = Ok (Inr t', sv') \<and>
     table_rows t' (w_disk (sv_world sv')) = [replicate 6 7]"
proof -
  have "table_rows demo_entry demo_disk = [replicate 6 7]"
    by (simp add: table_rows_def row_at_def stored_def demo_entry_def demo_page_def Let_def)
  with reselect_restores_rows [of demo_loaded 0 demo_entry demo_disk "[116]"] demo_entry_ok
  show ?thesis by (auto simp: demo_loaded_def demo_entry_def)
qed

end
