(* ===== verification/QBaseSeek.thy ===== *)
theory QBaseSeek
  imports QBaseScan QBaseSystem
begin

text \<open>
  Two commands in a row, as the clients use them: \<open>QBASE_CMD_SEEK\<close> to a primary key and
  \<open>QBASE_CMD_UPDCUR\<close>. And what a failed creation does to the tables of other connections.
\<close>

section \<open>Updating one row\<close>

lemma upd_rows_one:
  assumes n: "n = RowLen d" and len: "m * n \<le> length data" and r: "r < m" and left: "0 < left"
    and env: "cenv_ok e" and row: "row = take n (drop (r * n) data)"
    and v: "Qbase_data_filter e fs row = Ok v"
    and c: "if v = Match then change_row e UPDCUR d urule row = Ok row' else row' = row"
  shows "upd_rows e fs UPDCUR d urule m r left data False =
    Ok (blit data (r * n) (concat (row' # page_rows data n (Suc r) m)), 0, v = Match)"
    "length row' = n" "v \<noteq> Match \<Longrightarrow> blit data (r * n) (concat (row' # page_rows data n (Suc r) m)) = data"
proof -
  have le: "Suc r * n \<le> length data" using mult_le_mono1 [of "Suc r" m n] r len by simp
  then have lr: "length row = n" by (simp add: row)
  then show lr': "length row' = n" using c length_change_row [OF _ env] by (auto split: if_splits)
  have sl: "slice data (r * RowLen d) (RowLen d) = Some row"
    using le n by (simp add: slice_def row add.commute)
  have self: "blit data (r * n) row = data" using blit_self [of "r * n" n data] le row by (simp add: add.commute)
  have len': "length (blit data (r * n) row') = length data" using le lr' by (simp add: length_blit)
  have "blit data (r * n) (concat (row' # page_rows data n (Suc r) m)) =
      blit (blit data (r * n) row') (Suc r * n) (concat (page_rows (blit data (r * n) row') n (Suc r) m))"
    using blit_blit_adjacent [of "r * n" row' data] le lr' page_rows_blit [OF le lr', of m] by (simp add: add.commute)
  also have "\<dots> = blit data (r * n) row'"
    by (rule blit_page_rows) (simp add: len' len)
  finally have b: "blit data (r * n) (concat (row' # page_rows data n (Suc r) m)) = blit data (r * n) row'" .
  show "v \<noteq> Match \<Longrightarrow> blit data (r * n) (concat (row' # page_rows data n (Suc r) m)) = data"
    unfolding b using c self by simp
  show "upd_rows e fs UPDCUR d urule m r left data False =
    Ok (blit data (r * n) (concat (row' # page_rows data n (Suc r) m)), 0, v = Match)"
    unfolding b using r left sl v c self n by (subst upd_rows.simps) (cases v; simp)
qed

lemma updcur_row:
  assumes sel: "ocb_Table ocb = Some a" "tbl_heap sv a = Some t" and fs: "fs = w_disk (sv_world sv)"
    and ok: "table_ok t fs" "clean_from 0 t" and mem: "w_mem (sv_world sv) = []" and env: "cenv_ok e"
    and len: "w32 (4 + FieldNum (Table t) + RowLen (Table t)) \<le> m_nbytes m"
    and k: "Record ocb < td_Index (Table t)" and row: "row = table_rows t fs ! Record ocb"
    and v: "Qbase_data_filter e (Filters ocb) row = Ok v"
    and c: "if v = Match then change_row e UPDCUR (Table t) (drop 4 (m_data m)) row = Ok row' else row' = row"
  shows "\<exists>sv' t'. Qbase_devctl e UPDCUR sv ocb m = Ok (Reply QBASE_E_OK [], sv', ocb\<lparr>Qerrno := QBASE_E_OK\<rparr>) \<and>
    tbl_heap sv' = (tbl_heap sv)(a \<mapsto> t') \<and> Table t' = Table t \<and> table_ok t' (w_disk (sv_world sv')) \<and>
    table_rows t' (w_disk (sv_world sv')) = (table_rows t fs)[Record ocb := row']"
proof -
  let ?d = "Table t" and ?PR = "PageRows (Table t)" and ?k = "Record ocb" and ?rows = "table_rows t fs"
  let ?P = "?k div ?PR" and ?R = "?k mod ?PR" and ?n = "RowLen (Table t)" and ?w = "sv_world sv"
  have okw: "table_ok t (w_disk ?w)" using ok fs by simp
  have PR: "0 < ?PR" using table_okD(6) [OF ok(1)] by simp
  have kk: "?k = ?P * ?PR + ?R" by simp
  obtain i t1 w1 where l: "LockTablePage t ?w ?P = Ok (Locked i, t1, w1)" and i: "i < length (Pages t1)"
    and ix: "pg_Index (Pages t1 ! i) = ?P" and T: "Table t1 = ?d" and ok1: "table_ok t1 (w_disk w1)"
    and rows: "table_rows t1 (w_disk w1) = ?rows"
    using lock_clean [OF okw ok(2) _ mem row_in_used(1) [OF ok(1) k]] fs by auto
  let ?p = "Pages t1 ! i"
  note L = page_last_row [OF ok1 i refl, unfolded ix T]
  have sp: "drop ?k ?rows = page_rows (pg_Data ?p) ?n ?R (pg_LastRow ?p) @ drop ((?P + 1) * ?PR) ?rows"
    using rows_from_page [OF ok1 i refl, of ?R ?P] PR ix T kk rows by simp
  have R: "?R < pg_LastRow ?p"
  proof (rule ccontr)
    assume "\<not> ?R < pg_LastRow ?p"
    then have "length (drop ?k ?rows) = td_Index ?d - (?P + 1) * ?PR" unfolding sp by (simp add: page_rows_def)
    moreover have "?k < (?P + 1) * ?PR" using PR kk mod_less_divisor [OF PR, of ?k] by (simp only: add_mult_distrib mult_1)
    ultimately show False using k by simp
  qed
  let ?rest = "page_rows (pg_Data ?p) ?n (Suc ?R) (pg_LastRow ?p)"
  have "drop ?k ?rows = take ?n (drop (?R * ?n) (pg_Data ?p)) # ?rest @ drop ((?P + 1) * ?PR) ?rows"
    unfolding sp using R by (simp add: page_rows_Cons)
  then have row1: "row = take ?n (drop (?R * ?n) (pg_Data ?p))"
    and tl: "drop (Suc ?k) ?rows = ?rest @ drop ((?P + 1) * ?PR) ?rows"
    using k row by (simp_all add: Cons_nth_drop_Suc [symmetric])
  have left: "0 < td_Index ?d" using k by simp
  note U = upd_rows_one [OF refl L(3) R left env row1 v c]
  let ?data = "blit (pg_Data ?p) (?R * ?n) (concat (row' # ?rest))"
  let ?t2 = "set_page t1 i ?data (v = Match)"
  have "map length (row' # ?rest) = map length (page_rows (pg_Data ?p) ?n ?R (pg_LastRow ?p))"
    using R U(2) L(3) mult_le_mono1 [of "Suc ?R" "pg_LastRow ?p" ?n] by (simp add: page_rows_Cons)
  then have S: "table_ok ?t2 (w_disk w1)" "Table ?t2 = ?d"
    "table_rows ?t2 (w_disk w1) = take ?k ?rows @ (row' # ?rest) @ drop ((?P + 1) * ?PR) ?rows"
    using set_page_rows [OF ok1 i refl refl, of ?R ?k "row' # ?rest" ?data "v = Match" ?t2]
      R L(4) T ix kk U(3) rows by auto
  have "upd_pages e (Filters ocb) UPDCUR (drop 4 (m_data m)) (Qerrno ocb) t ?w (td_Index ?d) ?P ?R =
      Ok (QBASE_E_OK, ?t2, w1)"
    using left l U(1) T by (subst upd_pages.simps, simp, subst upd_pages.simps, simp)
  then have "Qbase_devctl e UPDCUR sv ocb m =
      Ok (Reply QBASE_E_OK [], set_table sv a ?t2 w1, ocb\<lparr>Qerrno := QBASE_E_OK\<rparr>)"
    using sel len PR by (simp add: Qbase_devctl_def dispatch_def cmd_UPDATE_def with_table_def Let_def)
  moreover have "table_rows ?t2 (w_disk w1) = ?rows[?k := row']"
    unfolding S(3) append.simps(2) append_Cons tl [symmetric] using k by (simp add: upd_conv_take_nth_drop)
  ultimately show ?thesis using S by (auto simp: set_table_def)
qed

lemma seek_positions:
  assumes "ocb_Table ocb = Some a" "tbl_heap sv a = Some t" "0 < key" "key \<le> td_Index (Table t)"
  shows "Qbase_devctl e SEEK sv ocb \<lparr>m_nbytes = 4, m_data = put32 (replicate 4 0) 0 (word_of_nat key)\<rparr> =
    Ok (Reply QBASE_E_OK [], sv, ocb\<lparr>Record := key - 1, Qerrno := QBASE_E_OK\<rparr>)"
proof -
  have "key < 4294967296" using assms(4) desc_bounds(3) by (rule le_less_trans)
  then have "unat (get32 (put32 (replicate 4 0) 0 (word_of_nat key)) 0) = key"
    by (simp add: codec_simps unat_of_nat take_bit_nat_eq_self)
  moreover have "length (put32 (replicate 4 0) 0 (word_of_nat key)) = 4" by (simp add: codec_simps)
  ultimately show ?thesis using assms \<open>key < 4294967296\<close>
    by (simp add: Qbase_devctl_def dispatch_def cmd_SEEK_def Let_def w32_dec)
qed

definition seek_msg :: "nat \<Rightarrow> dmsg" where
  "seek_msg key = \<lparr>m_nbytes = 4, m_data = put32 (replicate 4 0) 0 (word_of_nat key)\<rparr>"

definition then_do :: "(dreply \<times> server \<times> Qbase_ocb) outcome \<Rightarrow>
    (server \<Rightarrow> Qbase_ocb \<Rightarrow> (dreply \<times> server \<times> Qbase_ocb) outcome) \<Rightarrow> (dreply \<times> server \<times> Qbase_ocb) outcome" where
  "then_do r f = bindo r (\<lambda>(_, sv, ocb). f sv ocb)"

text \<open>On a well-formed table with a clean pool, a seek to the key of an existing row
  followed by an update of the current row changes exactly the row with that key, provided that the
  rules of the connection accept it, and no other row, whichever page holds it.\<close>

theorem seek_then_update_changes_that_row:
  assumes sel: "ocb_Table ocb = Some a" "tbl_heap sv a = Some t" and fs: "fs = w_disk (sv_world sv)"
    and ok: "table_ok t fs" "clean_from 0 t" and mem: "w_mem (sv_world sv) = []" and env: "cenv_ok e"
    and key: "0 < key" "key \<le> td_Index (Table t)"
    and len: "w32 (4 + FieldNum (Table t) + RowLen (Table t)) \<le> m_nbytes m"
    and row: "Qbase_data_filter e (Filters ocb) (table_rows t fs ! (key - 1)) = Ok Match"
      "change_row e UPDCUR (Table t) (drop 4 (m_data m)) (table_rows t fs ! (key - 1)) = Ok row'"
  shows "\<exists>sv' ocb' t'. then_do (Qbase_devctl e SEEK sv ocb (seek_msg key)) (\<lambda>sv ocb. Qbase_devctl e UPDCUR sv ocb m) =
      Ok (Reply QBASE_E_OK [], sv', ocb') \<and> tbl_heap sv' a = Some t' \<and>
    table_ok t' (w_disk (sv_world sv')) \<and>
    table_rows t' (w_disk (sv_world sv')) = (table_rows t fs)[key - 1 := row']"
proof -
  let ?ocb = "ocb\<lparr>Record := key - 1, Qerrno := QBASE_E_OK\<rparr>"
  have s: "Qbase_devctl e SEEK sv ocb (seek_msg key) = Ok (Reply QBASE_E_OK [], sv, ?ocb)"
    unfolding seek_msg_def by (rule seek_positions [OF sel key])
  have "Record ?ocb < td_Index (Table t)" using key by simp
  from updcur_row [of ?ocb a sv t fs, OF _ sel(2) fs ok mem env len this refl, of Match row'] sel row
  show ?thesis by (auto simp: then_do_def s)
qed

lemma change_row_not_delete: "cmd \<noteq> DELETE \<Longrightarrow> change_row e cmd d urule row =
   (if length urule < FieldNum d \<or> length d < 68 + 12 * FieldNum d then Crash OutOfBounds else update_row e d urule row)"
  by (simp add: change_row_def)

lemma demo_change: "change_row demo_cenv UPDCUR (set_Index demo_desc 9) [0, 2, 0, 0, 0, 0, 5, 0] (replicate 6 1) =
   Ok [1, 1, 1, 1, 6, 1]"
  by (simp add: change_row_not_delete update_row_def upt_rec update_field_def update_op_of_def
      touches_def slice_def field_width_def qbase_type_defs new_field_def upd_uint16_def get16_def
      put16_def blit_def replicate_Cons [of "numeral _"] Let_def)

theorem seek_then_update_changes_that_row_witness:
  "\<exists>sv' ocb' t'. then_do (Qbase_devctl demo_cenv SEEK demo_server demo_ocb (seek_msg 4))
      (\<lambda>sv ocb. Qbase_devctl demo_cenv UPDCUR sv ocb \<lparr>m_nbytes = 12, m_data = [12, 0, 0, 0, 0, 2, 0, 0, 0, 0, 5, 0]\<rparr>) =
      Ok (Reply QBASE_E_OK [], sv', ocb') \<and>
    table_rows t' (w_disk (sv_world sv')) = (replicate 9 (replicate 6 1))[3 := [1, 1, 1, 1, 6, 1]]"
proof -
  let ?t = "demo_table [demo_page 4 1 False 1]"
  let ?m = "\<lparr>m_nbytes = 12, m_data = [12, 0, 0, 0, 0, 2, 0, 0, 0, 0, 5, 0]\<rparr>"
  have r: "table_rows ?t (w_disk (sv_world demo_server)) ! (4 - 1) = replicate 6 1"
    unfolding demo_sel demo_rows by simp
  have f: "Qbase_data_filter demo_cenv (Filters demo_ocb) (table_rows ?t (w_disk (sv_world demo_server)) ! (4 - 1)) = Ok Match"
    unfolding r using demo_key by (simp add: demo_sel Qbase_data_filter_def)
  have c: "change_row demo_cenv UPDCUR (Table ?t) (drop 4 (m_data ?m))
      (table_rows ?t (w_disk (sv_world demo_server)) ! (4 - 1)) = Ok [1, 1, 1, 1, 6, 1]"
    unfolding r unfolding demo_sel using demo_change by simp
  have l: "w32 (4 + FieldNum (Table ?t) + RowLen (Table ?t)) \<le> m_nbytes ?m" by (simp add: demo_sel)
  have m: "w_mem (sv_world demo_server) = []" by (simp add: demo_sel)
  have k: "(0 :: nat) < 4" "4 \<le> td_Index (Table ?t)" by (simp_all add: demo_sel)
  have ok: "table_ok ?t (w_disk (sv_world demo_server))" using demo_ok by (simp add: demo_sel)
  from seek_then_update_changes_that_row [OF demo_sel(1,2) refl ok demo_clean(1) m demo_cenv_ok k l f c]
  show ?thesis unfolding demo_sel demo_rows by auto
qed

section \<open>Failed creations\<close>

text \<open>A connection without a table that seeks: the lock of the table is taken before the test.\<close>

lemma seek_without_table_crashes:
  "ocb_Table ocb = None \<Longrightarrow> Qbase_devctl e SEEK sv ocb m = Crash NullPointer"
  by (simp add: Qbase_devctl_def dispatch_def cmd_SEEK_def)

lemma find_table_chain: "Tables sv = [] \<Longrightarrow> find_table sv name = None"
  by (simp add: find_table_def)

text \<open>A creation that asks for fewer than three pages is refused, but the release of its
  half-made entry clears the chain: all tables stay in memory and selected, and none of them is
  found by name any more, so that the next selection loads a second copy from disk.\<close>

theorem refused_creation_hides_all_tables:
  assumes "cmd_TBLCREATE sv ocb m = Ok (QBASE_E_FEWPLOCKS, bs, sv', ocb')"
  shows "tbl_heap sv' = tbl_heap sv \<and> ocb' = ocb \<and> Tables sv' = [] \<and> find_table sv' name = None"
proof -
  from assms obtain fname where "create_table sv fname (m_data m) = Ok (Inl QBASE_E_FEWPLOCKS, sv')" "ocb' = ocb"
    by (auto simp: cmd_TBLCREATE_def bindo_Ok_iff split: if_splits option.splits outcome.splits sum.splits)
  then have "tbl_heap sv' = tbl_heap sv \<and> Tables sv' = []" "ocb' = ocb"
    by (auto simp: create_table_def create_entry_def Let_def bindo_Ok_iff release_unlinked_def
        split: if_splits option.splits prod.splits)
  then show ?thesis by (simp add: find_table_chain)
qed

definition demo_create :: dmsg where
  "demo_create = \<lparr>m_nbytes = 92, m_data = [1, 0, 0, 0, 92, 0, 0, 0,
     117, 0, 0, 0, 0, 0, 0, 0, 0, 0, 0, 0, 0, 0, 0, 0, 0, 0, 0, 0, 0, 0, 0, 0, 0, 0, 0, 0, 0, 0, 0, 0,
     0, 0, 0, 0, 2, 0, 0, 0, 6, 0, 0, 0, 0, 0, 0, 0, 0, 0, 0, 0, 2, 0, 0, 0, 2, 0, 0, 0,
     0, 0, 0, 0, 4, 0, 0, 0, 0, 0, 0, 0, 2, 0, 0, 0, 2, 0, 0, 0, 4, 0, 0, 0]\<rparr>"

theorem refused_creation_hides_all_tables_witness:
  "\<exists>sv'. cmd_TBLCREATE demo_server demo_ocb demo_create = Ok (QBASE_E_FEWPLOCKS, [], sv', demo_ocb) \<and>
     tbl_heap sv' 0 = Some (demo_table [demo_page 4 1 False 1]) \<and> find_table sv' [116] = None"
proof -
  have "\<exists>sv' ocb'. cmd_TBLCREATE demo_server demo_ocb demo_create = Ok (QBASE_E_FEWPLOCKS, [], sv', ocb')"
    by (simp add: cmd_TBLCREATE_def create_table_def demo_create_def file_name_def cstr_def sizeof_table_desc_def
        os_open_def demo_server_def demo_world_def QBASE_TBL_H_def bytes_of_def malloc_def td_Size_def
        LockPages_def get32_def release_unlinked_def Let_def)
  then obtain sv' ocb' where c: "cmd_TBLCREATE demo_server demo_ocb demo_create = Ok (QBASE_E_FEWPLOCKS, [], sv', ocb')"
    by blast
  from refused_creation_hides_all_tables [OF c, of "[116]"] c show ?thesis by (auto simp: demo_server_def)
qed

end
