(* ===== verification/QBaseClient.thy ===== *)
theory QBaseClient
  imports QBaseSeek
begin

text \<open>
  \<open>QX-base/qbase_client.c\<close>: the library that programs link to talk to the database. Descriptors
  and update headers are byte buffers, as they go over the connection; a call that sends a message
  is composed with the server's handler, so its result is what the server really answers. The
  client's own \<open>malloc\<close> is an argument: no block, or a block with its initial contents.
\<close>

section \<open>Table descriptors\<close>

definition set_Length :: "desc \<Rightarrow> nat \<Rightarrow> nat \<Rightarrow> desc" where
  "set_Length d j v = put32 d (72 + 12 * j) (word_of_nat v)"

definition set_Offset :: "desc \<Rightarrow> nat \<Rightarrow> nat \<Rightarrow> desc" where
  "set_Offset d j v = put32 d (76 + 12 * j) (word_of_nat v)"

definition set_RowLen :: "desc \<Rightarrow> nat \<Rightarrow> desc" where
  "set_RowLen d v = put32 d 48 (word_of_nat v)"

fun fix_fields :: "nat list \<Rightarrow> desc \<Rightarrow> nat \<Rightarrow> desc \<times> nat" where
  "fix_fields [] d cur = (d, cur)"
| "fix_fields (j # js) d cur =
     (let d = set_Offset d j cur in fix_fields js d (w32 (cur + fd_Length d j)))"

definition Qbase_fixtbl :: "desc \<Rightarrow> desc outcome" where
  "Qbase_fixtbl d =
     (if length d < 68 + 12 * FieldNum d then Crash OutOfBounds
      else let (d', cur) = fix_fields [0..<FieldNum d] d 0 in Ok (set_RowLen d' cur))"

fun set_lengths :: "nat list \<Rightarrow> desc \<Rightarrow> desc" where
  "set_lengths [] d = d"
| "set_lengths (j # js) d = set_lengths js (set_Length d j 4)"

text \<open>\<open>TName\<close> is given without its terminator.\<close>

definition Qbase_new_tbldesc :: "bool \<Rightarrow> nat \<Rightarrow> nat \<Rightarrow> nat \<Rightarrow> bytes \<Rightarrow> desc option outcome" where
  "Qbase_new_tbldesc mem_ok ColNum RowsPP LockPgs TName =
     (if \<not> mem_ok then Ok None
      else
        let Size = sizeof_table_desc + ColNum * sizeof_field_desc;
            d = replicate Size 0;
            d = put32 d 0 1; d = put32 d 4 (word_of_nat Size);
            d = put32 d 60 (word_of_nat RowsPP); d = put32 d 64 (word_of_nat LockPgs);
            d = blit d 8 (take QBASE_TAB_NAMELEN TName);
            d = put32 d 44 (word_of_nat (ColNum + 1)); d = put32 d 56 0;
            d = set_lengths [0..<ColNum + 1] d
        in bindo (Qbase_fixtbl d) (\<lambda>d. Ok (Some d)))"

definition type_length :: "nat \<Rightarrow> nat \<Rightarrow> nat" where
  "type_length ty len =
     (if ty < QBASE_TYPE_VARLEN then
        (if ty = QBASE_TYPE_INT then 4 else if ty = QBASE_TYPE_UINT then 4
         else if ty = QBASE_TYPE_INT16 then 2 else if ty = QBASE_TYPE_UINT16 then 2
         else if ty = QBASE_TYPE_DOUBLE then 8 else if ty = QBASE_TYPE_TIMESTAMP then 8 else len)
      else len)"

definition Qbase_set_field_metrics :: "desc \<Rightarrow> nat \<Rightarrow> nat \<Rightarrow> nat \<Rightarrow> (bool \<times> desc) outcome" where
  "Qbase_set_field_metrics d ColNum ty len =
     (if FieldNum d \<le> ColNum then Ok (False, d)
      else if length d < 80 + 12 * ColNum then Crash OutOfBounds
      else
        let d = put32 d (68 + 12 * ColNum) (word_of_nat ty);
            d = set_Length d ColNum (type_length ty len)
        in bindo (Qbase_fixtbl d) (\<lambda>d. Ok (True, d)))"

section \<open>Rows\<close>

definition Qbase_row_newbuffer :: "desc \<Rightarrow> nat" where
  "Qbase_row_newbuffer d = RowLen d"

definition Qbase_field_set :: "desc \<Rightarrow> bytes \<Rightarrow> nat \<Rightarrow> bytes \<Rightarrow> (qerr \<times> bytes) outcome" where
  "Qbase_field_set d Row FNm Val =
     (if FieldNum d \<le> FNm then Ok (QBASE_E_NOFLD, Row)
      else let n = min (fd_Length d FNm) (length Val) in
        if length Row < fd_Offset d FNm + n then Crash OutOfBounds
        else Ok (QBASE_E_OK, blit Row (fd_Offset d FNm) (take n Val)))"

section \<open>Update headers\<close>

definition Qbase_GetUpdateHeader :: "bool \<Rightarrow> desc \<Rightarrow> qerr \<times> bytes" where
  "Qbase_GetUpdateHeader mem_ok d =
     (let HSize = w32 (4 + FieldNum d + RowLen d) in
      if \<not> mem_ok then (QBASE_E_MEM, [])
      else (QBASE_E_OK, put32 (replicate HSize 0) 0 (word_of_nat HSize)))"

definition Qbase_SetUpdateField ::
    "desc \<Rightarrow> nat \<Rightarrow> bytes \<Rightarrow> bytes \<Rightarrow> byte \<Rightarrow> (qerr \<times> bytes) outcome" where
  "Qbase_SetUpdateField d FNm URule UValue Action =
     (if UValue = [] then Ok (QBASE_E_BUF, URule)
      else if FieldNum d \<le> FNm then Ok (QBASE_E_NOFLD, URule)
      else if fd_Length d FNm < length UValue then Ok (QBASE_E_BUF, URule)
      else let off = 4 + FieldNum d + fd_Offset d FNm in
        if length URule < off + length UValue then Crash OutOfBounds
        else Ok (QBASE_E_OK, (blit URule off UValue)[4 + FNm := Action]))"

section \<open>Calls to the server\<close>

text \<open>\<open>devctl ()\<close> on an open connection: the code that the server sets, and its data. A
  command that the server does not know makes \<open>devctl ()\<close> itself fail.\<close>

type_synonym 'a called = "('a \<times> server \<times> Qbase_ocb) outcome"

definition call :: "cenv \<Rightarrow> dcmd \<Rightarrow> nat \<Rightarrow> bytes \<Rightarrow> server \<Rightarrow> Qbase_ocb \<Rightarrow> (qerr \<times> bytes) called" where
  "call e cmd n bs sv ocb =
     bindo (Qbase_devctl e cmd sv ocb \<lparr>m_nbytes = n, m_data = bs\<rparr>) (\<lambda>(r, sv, ocb).
       case r of DENOSYS \<Rightarrow> Ok ((QBASE_E_NOCONN, []), sv, ocb)
       | Reply q out \<Rightarrow> Ok ((q, out), sv, ocb))"

definition code_of :: "(qerr \<times> bytes) called \<Rightarrow> qerr called" where
  "code_of r = bindo r (\<lambda>((q, _), sv, ocb). Ok (q, sv, ocb))"

definition Qbase_errno :: "cenv \<Rightarrow> server \<Rightarrow> Qbase_ocb \<Rightarrow> qerr called" where
  "Qbase_errno e sv ocb = code_of (call e ERROR 0 [] sv ocb)"

definition Qbase_table_select :: "cenv \<Rightarrow> bytes \<Rightarrow> server \<Rightarrow> Qbase_ocb \<Rightarrow> qerr called" where
  "Qbase_table_select e name sv ocb =
     (let i = length (cstr name) in
      if QBASE_TAB_NAMELEN \<le> i \<or> i = 0 then Ok (QBASE_E_BUF, sv, ocb)
      else code_of (call e TBLSELECT (i + 1) (cstr name @ [0]) sv ocb))"

definition Qbase_table_create :: "cenv \<Rightarrow> desc \<Rightarrow> server \<Rightarrow> Qbase_ocb \<Rightarrow> qerr called" where
  "Qbase_table_create e d sv ocb = code_of (call e TBLCREATE (td_Size d) d sv ocb)"

definition Qbase_table_caps :: "cenv \<Rightarrow> bool \<Rightarrow> server \<Rightarrow> Qbase_ocb \<Rightarrow> (qerr \<times> desc) called" where
  "Qbase_table_caps e mem_ok sv ocb =
     bindo (call e TBLCAPSLEN 4 (replicate 4 0) sv ocb) (\<lambda>((q, out), sv, ocb).
       if q \<noteq> QBASE_E_OK then Ok ((q, []), sv, ocb)
       else if \<not> mem_ok then Ok ((QBASE_E_MEM, []), sv, ocb)
       else bindo (call e TBLCAPS (unat (get32 out 0)) (replicate (unat (get32 out 0)) 0) sv ocb)
         (\<lambda>((q, out), sv, ocb). Ok ((q, if q = QBASE_E_OK then out else []), sv, ocb)))"

definition Qbase_fetchrst :: "cenv \<Rightarrow> server \<Rightarrow> Qbase_ocb \<Rightarrow> qerr called" where
  "Qbase_fetchrst e sv ocb = code_of (call e FETCHRST 0 [] sv ocb)"

definition Qbase_seek :: "cenv \<Rightarrow> nat \<Rightarrow> server \<Rightarrow> Qbase_ocb \<Rightarrow> qerr called" where
  "Qbase_seek e key sv ocb = code_of (call e SEEK 4 (put32 (replicate 4 0) 0 (word_of_nat key)) sv ocb)"

text \<open>\<open>write ()\<close> and \<open>read ()\<close>: a short count makes the client ask for the code of the
  last operation.\<close>

definition Qbase_insert :: "cenv \<Rightarrow> bytes \<Rightarrow> server \<Rightarrow> Qbase_ocb \<Rightarrow> qerr called" where
  "Qbase_insert e Row sv ocb =
     (if Row = [] then Ok (QBASE_E_BUF, sv, ocb)
      else bindo (Qbase_write 0 (length Row) Row sv ocb) (\<lambda>(r, sv, ocb).
        if r = Written (length Row) then Ok (QBASE_E_OK, sv, ocb) else Qbase_errno e sv ocb))"

definition Qbase_fetch :: "cenv \<Rightarrow> nat \<Rightarrow> server \<Rightarrow> Qbase_ocb \<Rightarrow> (qerr \<times> bytes) called" where
  "Qbase_fetch e Size sv ocb =
     (if Size = 0 then Ok ((QBASE_E_BUF, []), sv, ocb)
      else bindo (Qbase_read e 0 Size sv ocb) (\<lambda>(r, sv, ocb).
        case r of
          ENOSYS \<Rightarrow> bindo (Qbase_errno e sv ocb) (\<lambda>(q, sv, ocb). Ok ((q, []), sv, ocb))
        | Bytes bs \<Rightarrow>
            if length bs = Size then Ok ((QBASE_E_OK, bs), sv, ocb)
            else bindo (Qbase_errno e sv ocb) (\<lambda>(q, sv, ocb). Ok ((q, bs), sv, ocb))))"

text \<open>The message of a filter rule in a block with the contents \<open>junk\<close>: only the value, the
  field number, the flags and the size of the value are set.\<close>

definition filter_message :: "bytes \<Rightarrow> u32 \<Rightarrow> nat \<Rightarrow> bytes \<Rightarrow> bytes" where
  "filter_message junk Flg FNm Val =
     (let n = sizeof_filter + length Val; b = take n (junk @ replicate n 0);
          b = blit b 28 Val; b = put32 b 4 (word_of_nat FNm); b = put32 b 0 Flg
      in put32 b 16 (word_of_nat (length Val)))"

definition Qbase_filter_push ::
    "cenv \<Rightarrow> bytes option \<Rightarrow> u32 \<Rightarrow> nat \<Rightarrow> bytes \<Rightarrow> server \<Rightarrow> Qbase_ocb \<Rightarrow> qerr called" where
  "Qbase_filter_push e mem Flg FNm Val sv ocb =
     (case mem of
        None \<Rightarrow> Ok (QBASE_E_MEM, sv, ocb)
      | Some junk \<Rightarrow> code_of (call e FLTRDEFINE (sizeof_filter + length Val)
          (filter_message junk Flg FNm Val) sv ocb))"

definition Qbase_filter_clear :: "cenv \<Rightarrow> server \<Rightarrow> Qbase_ocb \<Rightarrow> qerr called" where
  "Qbase_filter_clear e sv ocb = code_of (call e FLTRDELETE 0 [] sv ocb)"

definition Qbase_filter_pop :: "cenv \<Rightarrow> server \<Rightarrow> Qbase_ocb \<Rightarrow> qerr called" where
  "Qbase_filter_pop e sv ocb = code_of (call e FLTRPOP 0 [] sv ocb)"

definition Qbase_delete :: "cenv \<Rightarrow> server \<Rightarrow> Qbase_ocb \<Rightarrow> qerr called" where
  "Qbase_delete e sv ocb = code_of (call e DELETE 0 [] sv ocb)"

definition Qbase_update :: "cenv \<Rightarrow> bytes \<Rightarrow> server \<Rightarrow> Qbase_ocb \<Rightarrow> qerr called" where
  "Qbase_update e URule sv ocb = code_of (call e UPDATE (unat (get32 URule 0)) URule sv ocb)"

definition Qbase_updcur :: "cenv \<Rightarrow> bytes \<Rightarrow> server \<Rightarrow> Qbase_ocb \<Rightarrow> qerr called" where
  "Qbase_updcur e URule sv ocb = code_of (call e UPDCUR (unat (get32 URule 0)) URule sv ocb)"

definition Qbase_flush :: "cenv \<Rightarrow> server \<Rightarrow> Qbase_ocb \<Rightarrow> qerr called" where
  "Qbase_flush e sv ocb = code_of (call e TBLFLUSH 0 [] sv ocb)"

definition Qbase_SrvInfo :: "cenv \<Rightarrow> bool \<Rightarrow> server \<Rightarrow> Qbase_ocb \<Rightarrow> (qerr \<times> bytes) called" where
  "Qbase_SrvInfo e mem_ok sv ocb =
     (if \<not> mem_ok then Ok ((QBASE_E_MEM, []), sv, ocb)
      else bindo (call e INFO 16 (replicate 16 0) sv ocb) (\<lambda>((q, out), sv, ocb).
        Ok ((q, if q = QBASE_E_OK then out else []), sv, ocb)))"

section \<open>The layout of a descriptor\<close>

lemma set_Offset_simps [simp]:
  "length (set_Offset d j v) = length d" "FieldNum (set_Offset d j v) = FieldNum d"
  "fd_Length (set_Offset d j v) k = fd_Length d k" "fd_Type (set_Offset d j v) k = fd_Type d k"
proof -
  show "length (set_Offset d j v) = length d" "FieldNum (set_Offset d j v) = FieldNum d"
    by (simp_all add: set_Offset_def codec_simps desc_defs)
  show "fd_Length (set_Offset d j v) k = fd_Length d k" "fd_Type (set_Offset d j v) k = fd_Type d k"
    unfolding set_Offset_def desc_defs
    by (rule arg_cong [of _ _ unat], rule le32.rd_wr_disjoint, presburger)+
qed

lemma set_Offset_same: "80 + 12 * j \<le> length d \<Longrightarrow> fd_Offset (set_Offset d j v) j = w32 v"
  by (simp add: set_Offset_def fd_Offset_def codec_simps unat_of_nat w32_def take_bit_eq_mod)

lemma set_Offset_other: "j \<noteq> k \<Longrightarrow> fd_Offset (set_Offset d j v) k = fd_Offset d k"
  unfolding set_Offset_def desc_defs
  by (rule arg_cong [of _ _ unat], rule le32.rd_wr_disjoint, presburger)

lemma set_RowLen_simps [simp]:
  "length (set_RowLen d v) = length d" "FieldNum (set_RowLen d v) = FieldNum d"
  "fd_Length (set_RowLen d v) k = fd_Length d k" "fd_Type (set_RowLen d v) k = fd_Type d k"
  "fd_Offset (set_RowLen d v) k = fd_Offset d k"
  "52 \<le> length d \<Longrightarrow> RowLen (set_RowLen d v) = w32 v"
  by (simp_all add: set_RowLen_def codec_simps desc_defs unat_of_nat w32_def take_bit_eq_mod)

text \<open>Where field \<open>k\<close> starts when the fields follow one another.\<close>

definition field_start :: "desc \<Rightarrow> nat \<Rightarrow> nat" where
  "field_start d k = sum_list (map (fd_Length d) [0..<k])"

lemma field_start_Suc: "field_start d (Suc k) = field_start d k + fd_Length d k"
  by (simp add: field_start_def)

lemma fix_fields_effect:
  assumes "fix_fields [i..<n] d cur = (d', cur')" "i \<le> n" "68 + 12 * n \<le> length d"
    and "cur = field_start d i" "field_start d n < 4294967296"
  shows "length d' = length d \<and> FieldNum d' = FieldNum d \<and> fd_Length d' = fd_Length d \<and> fd_Type d' = fd_Type d \<and>
    cur' = field_start d n \<and> (\<forall>k < n. fd_Offset d' k = (if i \<le> k then field_start d k else fd_Offset d k))"
  using assms
proof (induction "n - i" arbitrary: i d cur)
  case 0
  then show ?case by auto
next
  case (Suc x)
  then have i: "i < n" by simp
  let ?d = "set_Offset d i cur"
  have L: "fd_Length ?d = fd_Length d" by (rule ext) simp
  then have st: "field_start ?d = field_start d" by (intro ext) (simp only: field_start_def)
  have mono: "field_start d j \<le> field_start d n" if "j \<le> n" for j
    using that by (induction n) (auto simp: le_Suc_eq field_start_Suc intro: trans_le_add1)
  have c: "w32 (cur + fd_Length ?d i) = field_start ?d (Suc i)"
    unfolding st field_start_Suc using mono [of "Suc i"] i Suc.prems(4,5) by (simp add: field_start_Suc)
  have s: "fd_Offset ?d i = field_start d i"
    using set_Offset_same [of i d cur] Suc.prems(3,4,5) mono [of i] i by simp
  have r: "fix_fields [Suc i..<n] ?d (w32 (cur + fd_Length ?d i)) = (d', cur')"
    using Suc.prems(1) i by (simp add: upt_conv_Cons)
  have "n - Suc i = x" using Suc.hyps(2) by simp
  from Suc.hyps(1) [OF this [symmetric] r] i Suc.prems(3,5) c st
  have "length d' = length d \<and> FieldNum d' = FieldNum d \<and> fd_Length d' = fd_Length d \<and> fd_Type d' = fd_Type ?d \<and>
    cur' = field_start d n \<and> (\<forall>k < n. fd_Offset d' k = (if Suc i \<le> k then field_start d k else fd_Offset ?d k))"
    by (simp add: L)
  moreover have "fd_Type ?d = fd_Type d" by (rule ext) simp
  ultimately show ?case using s set_Offset_other [of i _ d cur] by (auto simp: not_less_eq_eq le_less)
qed

lemma field_start_mono: "j \<le> k \<Longrightarrow> field_start d j \<le> field_start d k"
  by (induction k) (auto simp: le_Suc_eq field_start_Suc intro: trans_le_add1)

text \<open>Fixing a descriptor whose field lengths add up to less than 2^32 keeps the types and
  lengths of the fields, puts them one after the other from offset zero, and sets the row length to
  their sum: no two fields overlap and all of them lie inside the row.\<close>

theorem Qbase_fixtbl_layout:
  assumes "68 + 12 * FieldNum d \<le> length d" "field_start d (FieldNum d) < 4294967296"
  shows "\<exists>d'. Qbase_fixtbl d = Ok d' \<and> FieldNum d' = FieldNum d \<and> fd_Length d' = fd_Length d \<and>
    fd_Type d' = fd_Type d \<and> RowLen d' = field_start d (FieldNum d) \<and>
    (\<forall>k \<in> {..<FieldNum d}. fd_Offset d' k = field_start d k \<and> fd_Offset d' k + fd_Length d' k \<le> RowLen d') \<and>
    (\<forall>j \<in> {..<FieldNum d}. \<forall>k \<in> {..<FieldNum d}. j < k \<longrightarrow> fd_Offset d' j + fd_Length d' j \<le> fd_Offset d' k)"
proof -
  obtain d1 cur where f: "fix_fields [0..<FieldNum d] d 0 = (d1, cur)" by fastforce
  note E = fix_fields_effect [OF f, simplified, OF assms(1) _ assms(2)]
  have E: "length d1 = length d" "FieldNum d1 = FieldNum d" "fd_Length d1 = fd_Length d" "fd_Type d1 = fd_Type d"
    "cur = field_start d (FieldNum d)" "\<forall>k < FieldNum d. fd_Offset d1 k = field_start d k"
    using E by (simp_all add: field_start_def)
  let ?d = "set_RowLen d1 cur"
  have fx: "Qbase_fixtbl d = Ok ?d" using f assms(1) by (simp add: Qbase_fixtbl_def)
  have fn: "fd_Length ?d = fd_Length d" "fd_Type ?d = fd_Type d" by (rule ext, simp add: E)+
  have rl: "RowLen ?d = field_start d (FieldNum d)" using assms E(1) by (simp add: E(5))
  have off: "fd_Offset ?d k = field_start d k" if "k < FieldNum d" for k using E(6) that by simp
  have "field_start d k + fd_Length d k \<le> field_start d (FieldNum d)" if "k < FieldNum d" for k
    using field_start_mono [of "Suc k" "FieldNum d" d] that by (simp add: field_start_Suc)
  moreover have "field_start d j + fd_Length d j \<le> field_start d k" if "j < k" for j k
    using field_start_mono [of "Suc j" k d] that by (simp add: field_start_Suc)
  ultimately show ?thesis using fx fn rl off E(2) by auto
qed

theorem Qbase_fixtbl_layout_witness:
  "\<exists>d'. Qbase_fixtbl demo_desc = Ok d' \<and> RowLen d' = 6 \<and> fd_Offset d' 0 = 0 \<and> fd_Offset d' 1 = 4"
proof -
  have "field_start demo_desc (Suc 0) = 4" "field_start demo_desc 2 = 6"
    by (simp_all add: field_start_def upt_rec)
  then show ?thesis using Qbase_fixtbl_layout [of demo_desc]
    by (auto simp: field_start_def)
qed

section \<open>What the server reads from the client's messages\<close>

text \<open>An update header into which the client has put one rule is read back by the server
  as it was meant: the announced length is the length that the server asks for, the action of the
  field is the given one, every other field has no action, and the bytes at the place of the field
  are the given value.\<close>

theorem update_header_roundtrip:
  assumes h: "Qbase_GetUpdateHeader True d = (QBASE_E_OK, h)"
    and f: "Qbase_SetUpdateField d j h v act = Ok (QBASE_E_OK, h')"
    and b: "4 + FieldNum d + RowLen d < 4294967296"
  shows "unat (get32 h' 0) = 4 + FieldNum d + RowLen d \<and> length h' = 4 + FieldNum d + RowLen d \<and>
    (\<forall>k \<in> {..<FieldNum d}. drop 4 h' ! k = (if k = j then act else 0)) \<and>
    slice (drop 4 h') (FieldNum d + fd_Offset d j) (length v) = Some v"
proof -
  let ?n = "4 + FieldNum d + RowLen d" and ?off = "4 + FieldNum d + fd_Offset d j"
  have h: "h = put32 (replicate ?n 0) 0 (word_of_nat ?n)"
    using h b by (simp add: Qbase_GetUpdateHeader_def Let_def del: of_nat_add)
  then have lh: "length h = ?n" by (simp add: codec_simps)
  from f have j: "j < FieldNum d" and fit: "?off + length v \<le> length h"
    and h': "h' = (blit h ?off v)[4 + j := act]"
    by (auto simp: Qbase_SetUpdateField_def Let_def split: if_splits)
  have lb: "length (blit h ?off v) = ?n" using fit lh by (simp add: length_blit)
  have "get32 h' 0 = get32 (blit h ?off v) 0" by (simp add: h' codec_simps)
  also have "\<dots> = get32 h 0" using fit by (intro le32.rd_blit_before) auto
  also have "\<dots> = word_of_nat ?n" by (simp add: h codec_simps del: of_nat_add)
  finally have "unat (get32 h' 0) = ?n" using b by (simp add: unat_of_nat take_bit_nat_eq_self del: of_nat_add)
  moreover have "drop 4 h' ! k = (if k = j then act else 0)" if "k < FieldNum d" for k
    using that j lb lh fit by (simp add: h' nth_list_update nth_blit) (simp add: h codec_simps)
  moreover have "slice (drop 4 h') (FieldNum d + fd_Offset d j) (length v) = Some v"
  proof -
    have "take (length v) (drop ?off h') = take (length v) (drop ?off (blit h ?off v))"
      using j by (simp add: h')
    also have "\<dots> = v" using fit by (intro slice_blit) auto
    finally show ?thesis using fit lb lh by (simp add: slice_def h' add.commute add.left_commute)
  qed
  ultimately show ?thesis using lb by (simp add: h')
qed

theorem update_header_roundtrip_witness:
  "\<exists>h h'. Qbase_GetUpdateHeader True demo_desc = (QBASE_E_OK, h) \<and>
     Qbase_SetUpdateField demo_desc 1 h [5, 0] 2 = Ok (QBASE_E_OK, h') \<and>
     slice (drop 4 h') 6 2 = Some [5, 0] \<and> drop 4 h' ! 1 = 2"
proof -
  obtain h where h: "Qbase_GetUpdateHeader True demo_desc = (QBASE_E_OK, h)" "length h = 12"
    by (simp add: Qbase_GetUpdateHeader_def codec_simps)
  then obtain h' where h': "Qbase_SetUpdateField demo_desc 1 h [5, 0] 2 = Ok (QBASE_E_OK, h')"
    by (simp add: Qbase_SetUpdateField_def)
  have b: "4 + FieldNum demo_desc + RowLen demo_desc < 4294967296" by simp
  note R = update_header_roundtrip [OF h(1) h' b]
  from R have "\<forall>k \<in> {..<FieldNum demo_desc}. drop 4 h' ! k = (if k = 1 then 2 else 0)" by blast
  from bspec [OF this, of 1] have "drop 4 h' ! 1 = 2" by simp
  moreover from R have "slice (drop 4 h') (FieldNum demo_desc + fd_Offset demo_desc 1) (length [5 :: byte, 0]) = Some [5, 0]"
    by blast
  then have "slice (drop 4 h') 6 2 = Some [5, 0]" by (simp add: numeral_2_eq_2)
  ultimately show ?thesis using h h' by blast
qed

text \<open>A filter rule that the client pushes arrives as it was given: after the call the rule
  is the first of the connection, with the given flags, field number and value, the comparison
  function that belongs to the type of the field, and the position of the connection is reset.\<close>

theorem filter_push_installs_rule:
  assumes sel: "ocb_Table ocb = Some a" "tbl_heap sv a = Some t" and mem: "w_mem (sv_world sv) = []"
    and j: "FNm < FieldNum (Table t)" "80 + 12 * FNm \<le> length (Table t)" "fd_Type (Table t) FNm < 8"
    and b: "FNm < 4294967296" "length Val < 4294967296"
  shows "\<exists>ocb' c. Qbase_filter_push e (Some junk) Flg FNm Val sv ocb = Ok (QBASE_E_OK, sv, ocb') \<and>
    Filters ocb' = c # Filters ocb \<and> Record ocb' = 0 \<and> Flags c = Flg \<and> FNum c = FNm \<and>
    VSize c = length Val \<and> slice (Value c) 0 (VSize c) = Some Val \<and>
    Field c = fd_Offset (Table t) FNm \<and> FSize c = fd_Length (Table t) FNm \<and> cmp_func c = fd_Type (Table t) FNm"
proof -
  let ?m = "filter_message junk Flg FNm Val"
  obtain bb where lb: "length bb = 32 + length Val" and m: "?m = put32 (put32 (put32 (blit bb 28 Val)
      4 (word_of_nat FNm)) 0 Flg) 16 (word_of_nat (length Val))"
    by (rule that [of "take (sizeof_filter + length Val) (junk @ replicate (sizeof_filter + length Val) 0)"])
      (simp_all add: filter_message_def sizeof_filter_def Let_def)
  have lbl: "length (blit bb 28 Val) = 32 + length Val" using lb by (simp add: length_blit)
  then have lm: "length ?m = sizeof_filter + length Val" by (simp add: m codec_simps sizeof_filter_def)
  have g: "get32 ?m 0 = Flg" "unat (get32 ?m 4) = FNm" "unat (get32 ?m 16) = length Val"
    using b lbl by (simp_all add: m codec_simps unat_of_nat take_bit_nat_eq_self)
  have "drop 28 ?m = drop 28 (blit bb 28 Val)" by (simp add: m le32.drop_wr)
  then have v: "slice (drop 28 ?m) 0 (length Val) = Some Val"
    using slice_blit [of 28 bb "length Val" Val] lb lbl by (simp add: slice_def)
  let ?c = "filter_of (Table t) ?m"
  have fl: "Flags ?c = Flg" "FNum ?c = FNm" "VSize ?c = length Val" "Field ?c = fd_Offset (Table t) FNm"
    "FSize ?c = fd_Length (Table t) FNm" "cmp_func ?c = fd_Type (Table t) FNm" "Value ?c = drop 28 ?m"
    using g by (simp_all add: filter_of_def Let_def)
  have "Qbase_filter_push e (Some junk) Flg FNm Val sv ocb =
      Ok (QBASE_E_OK, sv, ocb\<lparr>Filters := ?c # Filters ocb, Record := 0, Qerrno := QBASE_E_OK\<rparr>)"
    using sel mem j lm g fl
    by (simp add: Qbase_filter_push_def code_of_def call_def Qbase_devctl_def dispatch_def
        cmd_FLTRDEFINE_def with_table_def malloc_def Let_def)
  then show ?thesis using fl v by auto
qed

theorem filter_push_installs_rule_witness:
  "\<exists>ocb' c. Qbase_filter_push demo_cenv (Some [3, 1]) Q_CMP_EQ 1 [1, 1] demo_server demo_ocb =
      Ok (QBASE_E_OK, demo_server, ocb') \<and> Filters ocb' = [c] \<and> cmp_func c = 2"
  using filter_push_installs_rule [OF demo_sel(1,2), of 1 "[1, 1]" demo_cenv "[3, 1]" Q_CMP_EQ]
  by (auto simp: demo_sel)

end
