(* ===== verification/ConfReader.thy ===== *)
theory ConfReader
  imports QXPrelude
begin

text \<open>
  \<open>getconf/GetConf.c\<close>, the line and token reader that every server of the repository
  uses for its configuration file. The static variables are the record \<open>conf\<close>; the file is
  the text not read yet. \<open>ConfStringLen\<close> is the length of the buffer, which \<open>GetConf_open\<close>
  allocates with 4096 characters. A token is returned as the C string that the returned
  pointer shows at that moment; a read past the buffer is the result \<open>Overrun\<close>.
\<close>

section \<open>State and operations\<close>

record conf =
  ConfFile :: string
  ConfString :: string
  ConfToken :: nat
  GetConf_ln :: nat

datatype token_result = Overrun | NoToken | Token string

definition NUL :: char where "NUL = CHR 0x00"
definition LF :: char where "LF = CHR 0x0A"

definition is_blank :: "char \<Rightarrow> bool" where
  "is_blank c \<longleftrightarrow> c = CHR '' '' \<or> c = CHR 0x09"

definition is_stop :: "char \<Rightarrow> bool" where
  "is_stop c \<longleftrightarrow> c = NUL \<or> c = LF \<or> is_blank c"

text \<open>\<open>fopen\<close> fails, or the reader starts at the top of the file with a fresh buffer,
  whose contents \<open>malloc\<close> leaves open.\<close>

definition GetConf_open :: "string option \<Rightarrow> string \<Rightarrow> conf option" where
  "GetConf_open file junk = map_option (\<lambda>txt.
     \<lparr>ConfFile = txt, ConfString = take 4096 (junk @ replicate 4096 NUL),
      ConfToken = 0, GetConf_ln = 0\<rparr>) file"

text \<open>The three loops of \<open>GetConf_token\<close>.\<close>

function skip_blanks :: "string \<Rightarrow> nat \<Rightarrow> nat" where
  "skip_blanks buf i =
     (if i < length buf - 1 \<and> is_blank (buf ! i) then skip_blanks buf (Suc i) else i)"
  by pat_completeness auto
termination
  by (relation "measure (\<lambda>(buf, i). length buf - i)") auto

function scan_word :: "string \<Rightarrow> nat \<Rightarrow> nat option" where
  "scan_word buf i =
     (if length buf \<le> i then None
      else if is_stop (buf ! i) then Some i else scan_word buf (Suc i))"
  by pat_completeness auto
termination
  by (relation "measure (\<lambda>(buf, i). length buf - i)") auto

function find_end :: "string \<Rightarrow> nat \<Rightarrow> nat" where
  "find_end buf i =
     (if i < length buf - 1 \<and> \<not> is_stop (buf ! i) then find_end buf (Suc i) else i)"
  by pat_completeness auto
termination
  by (relation "measure (\<lambda>(buf, i). length buf - i)") auto

declare skip_blanks.simps [simp del] scan_word.simps [simp del] find_end.simps [simp del]

definition GetConf_token :: "conf \<Rightarrow> token_result \<times> conf" where
  "GetConf_token cf =
     (let buf = ConfString cf;
          t = skip_blanks buf (ConfToken cf);
          cf = cf\<lparr>ConfToken := t\<rparr>
      in case scan_word buf t of
           None \<Rightarrow> (Overrun, cf)
         | Some i \<Rightarrow>
             if i = t then (NoToken, cf)
             else if buf ! t = CHR ''#'' then (NoToken, cf)
             else let e = find_end buf t; buf' = buf[e := NUL]
               in (Token (takeWhile (\<lambda>c. c \<noteq> NUL) (drop t buf')),
                   cf\<lparr>ConfString := buf', ConfToken := Suc e\<rparr>))"

text \<open>\<open>fgets (buf, n, file)\<close>: at most \<open>n - 1\<close> characters, up to and including a newline,
  then a terminator; the rest of the buffer keeps its contents.\<close>

definition fgets_chunk :: "nat \<Rightarrow> string \<Rightarrow> string" where
  "fgets_chunk n file =
     (let l = takeWhile (\<lambda>c. c \<noteq> LF) file
      in take (n - 1) (if length l < length file then l @ [LF] else l))"

definition fgets :: "string \<Rightarrow> string \<Rightarrow> (string \<times> string) option" where
  "fgets buf file =
     (if file = [] \<or> length buf < 2 then None
      else let l = fgets_chunk (length buf) file
        in Some (l @ [NUL] @ drop (length l + 1) buf, drop (length l) file))"

lemma ConfFile_GetConf_token: "ConfFile (snd (GetConf_token cf)) = ConfFile cf"
  by (simp add: GetConf_token_def Let_def split: option.split)

lemma ConfFile_token_eq: "(r, cf') = GetConf_token cf \<Longrightarrow> ConfFile cf' = ConfFile cf"
  using ConfFile_GetConf_token [of cf] by (metis snd_conv)

lemma fgets_shorter: "fgets buf file = Some (b, r) \<Longrightarrow> length r < length file"
  by (cases "file") (auto simp: fgets_def fgets_chunk_def Let_def split: if_splits)

function GetConf_string :: "conf \<Rightarrow> token_result \<times> conf" where
  "GetConf_string cf =
     (let cf = cf\<lparr>GetConf_ln := Suc (GetConf_ln cf)\<rparr>
      in case fgets (ConfString cf) (ConfFile cf) of
           None \<Rightarrow> (NoToken, cf)
         | Some (buf, rest) \<Rightarrow>
             (case GetConf_token (cf\<lparr>ConfFile := rest, ConfString := buf, ConfToken := 0\<rparr>) of
                (NoToken, cf') \<Rightarrow> GetConf_string cf'
              | (r, cf') \<Rightarrow> (r, cf')))"
  by pat_completeness auto
termination
  by (relation "measure (\<lambda>cf. length (ConfFile cf))")
    (auto dest!: ConfFile_token_eq dest: fgets_shorter)

declare GetConf_string.simps [simp del]

text \<open>What the callers do with the rest of a line: ask for tokens until there is none.\<close>

lemma find_end_ge: "i \<le> find_end buf i"
  by (induction buf i rule: find_end.induct) (subst find_end.simps, auto)

lemma skip_blanks_ge: "i \<le> skip_blanks buf i"
  by (induction buf i rule: skip_blanks.induct) (subst skip_blanks.simps, auto)

lemma scan_word_in: "scan_word buf i = Some j \<Longrightarrow> j < length buf"
proof (induction buf i rule: scan_word.induct)
  case (1 buf i)
  from "1.prems" have "\<not> length buf \<le> i" by (subst (asm) scan_word.simps) (simp split: if_splits)
  with 1 show ?case
    by (cases "is_stop (buf ! i)") (auto simp: scan_word.simps [of buf i])
qed

lemma GetConf_token_progress:
  assumes "GetConf_token cf = (Token w, cf')"
  shows "ConfToken cf < ConfToken cf' \<and> ConfToken cf < length (ConfString cf) \<and>
    length (ConfString cf') = length (ConfString cf)"
proof -
  let ?t = "skip_blanks (ConfString cf) (ConfToken cf)"
  from assms obtain i where i: "scan_word (ConfString cf) ?t = Some i"
    and cf': "cf' = cf\<lparr>ConfToken := Suc (find_end (ConfString cf) ?t),
      ConfString := (ConfString cf)[find_end (ConfString cf) ?t := NUL]\<rparr>"
    by (auto simp: GetConf_token_def Let_def split: option.splits if_splits)
  have "ConfToken cf \<le> ?t" by (rule skip_blanks_ge)
  moreover have "?t \<le> find_end (ConfString cf) ?t" by (rule find_end_ge)
  moreover have "?t < length (ConfString cf)"
    using i by (subst (asm) scan_word.simps) (simp split: if_splits)
  ultimately show ?thesis using cf' by simp
qed

function rest_tokens :: "conf \<Rightarrow> string list" where
  "rest_tokens cf =
     (case GetConf_token cf of (Token w, cf') \<Rightarrow> w # rest_tokens cf' | _ \<Rightarrow> [])"
  by pat_completeness auto
termination
  by (relation "measure (\<lambda>cf. length (ConfString cf) - ConfToken cf)")
    (auto dest!: GetConf_token_progress [OF sym])

declare rest_tokens.simps [simp del]

section \<open>The tokens of a line\<close>

text \<open>What a configuration line means: its blank-separated words up to the first word
  that starts with the comment character.\<close>

function line_tokens :: "string \<Rightarrow> string list" where
  "line_tokens s =
     (let t = dropWhile is_blank s
      in if t = [] \<or> hd t = CHR ''#'' then []
         else takeWhile (\<lambda>c. \<not> is_blank c) t
           # line_tokens (dropWhile (\<lambda>c. \<not> is_blank c) t))"
  by pat_completeness auto
termination
  by (relation "measure length") (auto intro!: length_dropWhile_both)

declare line_tokens.simps [simp del]

lemma line_tokens_blank: "is_blank d \<Longrightarrow> line_tokens (d # u) = line_tokens u"
  by (simp only: line_tokens.simps [of "d # u"] line_tokens.simps [of u]) simp

text \<open>A line as text editors write it: no terminator and no newline inside.\<close>

definition clean :: "string \<Rightarrow> bool" where
  "clean l \<longleftrightarrow> NUL \<notin> set l \<and> LF \<notin> set l"

lemma blank_facts [simp]: "\<not> is_blank NUL" "\<not> is_blank LF" "is_stop NUL" "is_stop LF" "LF \<noteq> NUL"
  by (simp_all add: is_blank_def NUL_def LF_def is_stop_def)

lemma stop_clean: "clean l \<Longrightarrow> c \<in> set l \<Longrightarrow> is_stop c = is_blank c"
  by (auto simp: clean_def is_stop_def)

lemma skip_blanks_run:
  assumes "\<forall>c \<in> set s. is_blank c" "r \<noteq> []" "r = d # e # r'" "\<not> is_blank d"
  shows "skip_blanks (p @ s @ r) (length p) = length p + length s"
  using assms
proof (induction s arbitrary: p)
  case Nil
  then show ?case by (subst skip_blanks.simps) simp
next
  case (Cons c s)
  from Cons.IH [of "p @ [c]"] Cons.prems show ?case
    by (subst skip_blanks.simps) (simp add: nth_append)
qed

lemma find_end_run:
  assumes "\<forall>c \<in> set s. \<not> is_stop c" "r = d # e # r'" "is_stop d"
  shows "find_end (p @ s @ r) (length p) = length p + length s"
  using assms
proof (induction s arbitrary: p)
  case Nil
  then show ?case by (subst find_end.simps) simp
next
  case (Cons c s)
  from Cons.IH [of "p @ [c]"] Cons.prems show ?case
    by (subst find_end.simps) (simp add: nth_append)
qed

lemma scan_word_run:
  assumes "\<forall>c \<in> set s. \<not> is_stop c" "is_stop d"
  shows "scan_word (p @ s @ d # r) (length p) = Some (length p + length s)"
  using assms
proof (induction s arbitrary: p)
  case Nil
  then show ?case by (subst scan_word.simps) simp
next
  case (Cons c s)
  from Cons.IH [of "p @ [c]"] Cons.prems show ?case
    by (subst scan_word.simps) (simp add: nth_append)
qed

lemma scan_word_Some:
  "i \<le> j \<Longrightarrow> j < length buf \<Longrightarrow> is_stop (buf ! j) \<Longrightarrow> \<exists>k. scan_word buf i = Some k"
proof (induction buf i rule: scan_word.induct)
  case (1 buf i)
  show ?case
  proof (cases "is_stop (buf ! i)")
    case True
    with "1.prems" show ?thesis by (subst scan_word.simps) simp
  next
    case False
    with "1.prems" have "Suc i \<le> j" by (cases "i = j") auto
    with False "1.prems" "1.IH" show ?thesis by (subst scan_word.simps) simp
  qed
qed

text \<open>One call on a line: either there is no further token, or the token is the next word
  and the position moves behind it.\<close>

lemma GetConf_token_end:
  assumes "ConfString cf = p @ NUL # r" "ConfToken cf = length p"
  shows "GetConf_token cf = (NoToken, cf)"
  using assms by (simp add: GetConf_token_def Let_def skip_blanks.simps [of "p @ NUL # r"]
      scan_word.simps [of "p @ NUL # r"])

lemma GetConf_token_none:
  assumes "ConfString cf = p @ s @ LF # NUL # r" "ConfToken cf = length p" "clean s"
    and "line_tokens s = []"
  shows "\<exists>cf'. GetConf_token cf = (NoToken, cf')"
proof -
  define b t where "b = takeWhile is_blank s" and "t = dropWhile is_blank s"
  have s: "s = b @ t" by (simp add: b_def t_def)
  have b: "\<forall>c \<in> set b. is_blank c" by (auto simp: b_def dest: set_takeWhileD)
  show ?thesis
  proof (cases t)
    case Nil
    with s b assms(1,2) have "skip_blanks (ConfString cf) (ConfToken cf) = length p + length s"
      using skip_blanks_run [of s "LF # NUL # r" LF NUL r p] by simp
    moreover have "scan_word (ConfString cf) (length p + length s) = Some (length p + length s)"
      by (subst scan_word.simps) (simp add: assms(1) nth_append)
    ultimately show ?thesis by (simp add: GetConf_token_def)
  next
    case (Cons c u)
    then have "\<not> is_blank c" by (auto simp: t_def dest: hd_dropWhile_not)
    moreover have c: "c = CHR ''#''" using assms(4) Cons
      by (subst (asm) line_tokens.simps) (auto simp: t_def [symmetric] Let_def split: if_splits)
    moreover obtain d e r' where "t @ LF # NUL # r = c # d # e # r'"
      using Cons by (cases u) (auto simp: neq_Nil_conv intro: list.exhaust)
    ultimately have "skip_blanks (ConfString cf) (ConfToken cf) = length p + length b"
      using skip_blanks_run [of b "t @ LF # NUL # r" c d "e # r'" p] b assms(1,2) s by simp
    moreover have "ConfString cf ! (length p + length b) = CHR ''#''"
      using assms(1) s Cons c by (simp add: nth_append)
    ultimately show ?thesis
      using scan_word_Some [of "length p + length b" "length p + length s" "ConfString cf"] s assms(1)
      by (auto simp: GetConf_token_def Let_def nth_append split: option.split)
  qed
qed

lemma GetConf_token_word:
  assumes buf: "ConfString cf = p @ s @ LF # NUL # r" "ConfToken cf = length p" and cl: "clean s"
    and tok: "line_tokens s = w # ws"
  obtains cf' p' where "GetConf_token cf = (Token w, cf')"
    "ConfToken cf' = length p'" "length (ConfString cf') = length (ConfString cf)"
    "ConfFile cf' = ConfFile cf" "GetConf_ln cf' = GetConf_ln cf"
    "ws = [] \<and> ConfString cf' = p' @ NUL # r \<or>
     (\<exists>u. ConfString cf' = p' @ u @ LF # NUL # r \<and> clean u \<and> length u < length s
        \<and> line_tokens u = ws)"
proof -
  define b t where "b = takeWhile is_blank s" and "t = dropWhile is_blank s"
  define v u where "v = takeWhile (\<lambda>c. \<not> is_blank c) t" and "u = dropWhile (\<lambda>c. \<not> is_blank c) t"
  have s: "s = b @ v @ u" by (simp add: b_def t_def v_def u_def)
  have b: "\<forall>c \<in> set b. is_blank c" by (auto simp: b_def dest: set_takeWhileD)
  from tok have t: "t \<noteq> []" "hd t \<noteq> CHR ''#''" and w: "w = v" and ws: "ws = line_tokens u"
    by (auto simp: line_tokens.simps [of s] t_def v_def u_def Let_def split: if_splits)
  from t(1) have v: "v \<noteq> []" by (cases t) (auto simp: v_def t_def dest: hd_dropWhile_not)
  then obtain c v' where cv: "v = c # v'" by (cases v) auto
  have nb: "\<forall>c \<in> set v. \<not> is_stop c" using cl stop_clean [OF cl] s
    by (auto simp: v_def dest: set_takeWhileD)
  have hd: "c \<noteq> CHR ''#''" using t(2) cv v by (cases t) (auto simp: v_def split: if_splits)
  obtain d x where du: "u @ LF # NUL # r = d # x" by (cases u) auto
  have "d = LF \<or> (\<exists>u'. u = d # u')" using du by (cases u) auto
  then have d: "is_stop d" using hd_dropWhile_not [of "\<lambda>c. \<not> is_blank c" t d]
    by (auto simp: u_def is_stop_def)
  obtain e x' where de: "x = e # x'" using du by (cases u; cases x) auto
  obtain y z where yz: "v' @ d # x = y # z" by (cases v') auto
  have sk: "skip_blanks (ConfString cf) (ConfToken cf) = length p + length b"
    using skip_blanks_run [of b "c # y # z" c y z p] b nb cv buf s du yz by (simp add: is_stop_def)
  have sc: "scan_word (ConfString cf) (length p + length b) = Some (length p + (length b + length v))"
    using scan_word_run [of v d "p @ b" x] nb d buf(1) s du by simp
  have fe: "find_end (ConfString cf) (length p + length b) = length p + (length b + length v)"
    using find_end_run [of v "d # x" d e x' "p @ b"] nb d buf(1) s du de by simp
  let ?p' = "p @ b @ v @ [NUL]"
  have upd: "(ConfString cf)[length p + (length b + length v) := NUL] = ?p' @ x"
    using buf(1) s du by (simp add: list_update_append)
  have tk: "takeWhile (\<lambda>c. c \<noteq> NUL) (v @ NUL # x) = w"
    unfolding w using nb by (intro takeWhile_stop) (auto simp: is_stop_def)
  have "ConfString cf ! (length p + length b) \<noteq> CHR ''#''"
    using buf(1) s cv hd by (simp add: nth_append)
  then have res: "GetConf_token cf = (Token w, cf\<lparr>ConfToken := length ?p', ConfString := ?p' @ x\<rparr>)"
    using v by (simp add: GetConf_token_def Let_def sk sc fe upd tk add.assoc)
  have "ws = [] \<and> ?p' @ x = ?p' @ NUL # r \<or>
     (\<exists>u. ?p' @ x = ?p' @ u @ LF # NUL # r \<and> clean u \<and> length u < length s \<and> line_tokens u = ws)"
  proof (cases u)
    case Nil
    with du ws show ?thesis by (simp add: line_tokens.simps [of "[]"])
  next
    case (Cons d' u')
    have "is_blank d'" using Cons by (auto simp: u_def dest: hd_dropWhile_not)
    then have "line_tokens u = line_tokens u'" using Cons by (simp add: line_tokens_blank)
    moreover have "clean u'" "length u' < length s" using cl s Cons by (auto simp: clean_def)
    ultimately show ?thesis using du Cons ws by auto
  qed
  with res show ?thesis by (intro that [of "cf\<lparr>ConfToken := length ?p', ConfString := ?p' @ x\<rparr>" ?p'])
      (use buf upd in \<open>auto dest: arg_cong [of _ _ length]\<close>)
qed

lemma rest_tokens_line:
  assumes "ConfString cf = p @ s @ LF # NUL # r" "ConfToken cf = length p" "clean s"
  shows "rest_tokens cf = line_tokens s"
  using assms
proof (induction "length s" arbitrary: s p cf rule: less_induct)
  case less
  show ?case
  proof (cases "line_tokens s")
    case Nil
    with GetConf_token_none [OF less.prems] show ?thesis by (subst rest_tokens.simps) auto
  next
    case (Cons w ws)
    obtain cf' p' where tok: "GetConf_token cf = (Token w, cf')" "ConfToken cf' = length p'"
      and next_state: "ws = [] \<and> ConfString cf' = p' @ NUL # r \<or>
        (\<exists>u. ConfString cf' = p' @ u @ LF # NUL # r \<and> clean u \<and> length u < length s
          \<and> line_tokens u = ws)"
      by (rule GetConf_token_word [OF less.prems Cons])
    have "rest_tokens cf' = ws"
      using next_state
    proof (elim disjE exE conjE)
      assume "ws = []" "ConfString cf' = p' @ NUL # r"
      with tok(2) show ?thesis by (subst rest_tokens.simps) (simp add: GetConf_token_end)
    next
      fix u assume "ConfString cf' = p' @ u @ LF # NUL # r" "clean u" "length u < length s"
        "line_tokens u = ws"
      with less.hyps [of u cf' p'] tok(2) show ?thesis by simp
    qed
    with tok(1) Cons show ?thesis by (subst rest_tokens.simps) simp
  qed
qed

section \<open>Reading a file\<close>

lemma fgets_line:
  assumes "clean l" "length l + 2 \<le> length buf"
  shows "fgets buf (l @ LF # rest) = Some (l @ LF # NUL # drop (length l + 2) buf, rest)"
proof -
  have "takeWhile (\<lambda>c. c \<noteq> LF) (l @ LF # rest) = l"
    using assms(1) by (intro takeWhile_stop) (auto simp: clean_def)
  with assms(2) show ?thesis by (simp add: fgets_def fgets_chunk_def)
qed

lemma GetConf_string_blank:
  assumes "ConfFile cf = l @ LF # rest" "clean l" "length l + 2 \<le> length (ConfString cf)"
    and "line_tokens l = []"
  obtains cf' where "GetConf_string cf = GetConf_string cf'" "ConfFile cf' = rest"
    "length (ConfString cf') = length (ConfString cf)" "GetConf_ln cf' = Suc (GetConf_ln cf)"
    "ConfString cf' = l @ LF # NUL # drop (length l + 2) (ConfString cf)"
proof -
  let ?buf = "l @ LF # NUL # drop (length l + 2) (ConfString cf)"
  let ?cf = "cf\<lparr>GetConf_ln := Suc (GetConf_ln cf), ConfFile := rest, ConfString := ?buf, ConfToken := 0\<rparr>"
  obtain cf' where cf': "GetConf_token ?cf = (NoToken, cf')"
    using GetConf_token_none [of ?cf "[]" l "drop (length l + 2) (ConfString cf)"] assms by auto
  then have "cf' = ?cf\<lparr>ConfToken := ConfToken cf'\<rparr>"
    by (auto simp: GetConf_token_def Let_def split: option.splits if_splits)
  moreover have "GetConf_string cf = GetConf_string cf'"
    using cf' assms by (subst GetConf_string.simps) (simp add: fgets_line)
  ultimately show thesis using assms(3) by (intro that [of cf']) (auto dest: arg_cong [of _ _ ConfString]
      arg_cong [of _ _ ConfFile] arg_cong [of _ _ GetConf_ln])
qed

lemma GetConf_string_line:
  assumes "ConfFile cf = l @ LF # rest" "clean l" "length l + 2 \<le> length (ConfString cf)"
    and "line_tokens l = w # ws"
  shows "\<exists>cf'. GetConf_string cf = (Token w, cf') \<and> rest_tokens cf' = ws \<and>
    ConfFile cf' = rest \<and> GetConf_ln cf' = Suc (GetConf_ln cf)"
proof -
  let ?buf = "l @ LF # NUL # drop (length l + 2) (ConfString cf)"
  let ?cf = "cf\<lparr>GetConf_ln := Suc (GetConf_ln cf), ConfFile := rest, ConfString := ?buf, ConfToken := 0\<rparr>"
  obtain cf' where cf': "GetConf_token ?cf = (Token w, cf')" "ConfFile cf' = rest"
      "GetConf_ln cf' = Suc (GetConf_ln cf)"
    by (rule GetConf_token_word [of ?cf "[]" l "drop (length l + 2) (ConfString cf)" w ws])
      (use assms in simp_all)
  have "rest_tokens ?cf = w # ws"
    using rest_tokens_line [of ?cf "[]" l "drop (length l + 2) (ConfString cf)"] assms by simp
  then have "rest_tokens cf' = ws" using cf' by (subst (asm) rest_tokens.simps) simp
  moreover have "GetConf_string cf = (Token w, cf')"
    using cf' assms by (subst GetConf_string.simps) (simp add: fgets_line)
  ultimately show ?thesis using cf' by blast
qed

text \<open>C1: On a file of newline-terminated lines that fit the buffer, \<open>GetConf_string\<close> skips
  the lines without a token, returns the first token of the first line that has one, and leaves
  the reader so that the following calls of \<open>GetConf_token\<close> return exactly the other tokens
  of that line; the line counter counts every line read.\<close>

theorem GetConf_string_reads:
  assumes "ConfFile cf = concat (map (\<lambda>l. l @ [LF]) (skipped @ [l])) @ rest"
    and "\<forall>k \<in> set (skipped @ [l]). clean k \<and> length k + 2 \<le> length (ConfString cf)"
    and "\<forall>k \<in> set skipped. line_tokens k = []" and "line_tokens l = w # ws"
  shows "\<exists>cf'. GetConf_string cf = (Token w, cf') \<and> rest_tokens cf' = ws \<and>
    ConfFile cf' = rest \<and> GetConf_ln cf' = GetConf_ln cf + length skipped + 1"
  using assms
proof (induction skipped arbitrary: cf)
  case Nil
  with GetConf_string_line [of cf l rest w ws] show ?case by simp
next
  case (Cons k ks)
  let ?rest = "concat (map (\<lambda>l. l @ [LF]) (ks @ [l])) @ rest"
  obtain cf' where cf': "GetConf_string cf = GetConf_string cf'" "ConfFile cf' = ?rest"
    "length (ConfString cf') = length (ConfString cf)" "GetConf_ln cf' = Suc (GetConf_ln cf)"
    by (rule GetConf_string_blank [of cf k ?rest]) (use Cons.prems in simp_all)
  with Cons.IH [of cf'] Cons.prems show ?case by simp
qed

theorem GetConf_string_reads_witness:
  "\<exists>cf'. GetConf_string \<lparr>ConfFile = ''# pool'' @ [LF] @ ''alias a b'' @ [LF],
       ConfString = replicate 20 NUL, ConfToken = 0, GetConf_ln = 0\<rparr> = (Token ''alias'', cf') \<and>
     rest_tokens cf' = [''a'', ''b''] \<and> ConfFile cf' = [] \<and> GetConf_ln cf' = 0 + length [''# pool''] + 1"
  using GetConf_string_reads [of "\<lparr>ConfFile = ''# pool'' @ [LF] @ ''alias a b'' @ [LF],
       ConfString = replicate 20 NUL, ConfToken = 0, GetConf_ln = 0\<rparr>" "[''# pool'']"
       "''alias a b''" "[]" "''alias''" "[''a'', ''b'']"]
  by (simp add: clean_def NUL_def LF_def line_tokens.simps is_blank_def)

lemma line_tokens_word:
  assumes "w \<noteq> []" "\<forall>c \<in> set w. \<not> is_blank c" "hd w \<noteq> CHR ''#''"
  shows "line_tokens w = [w]"
proof -
  have "dropWhile is_blank w = w" using assms by (cases w) auto
  with assms show ?thesis
    by (simp add: line_tokens.simps [of w] line_tokens.simps [of "[]"] Let_def
        takeWhile_eq_all_conv [THEN iffD2] dropWhile_eq_Nil_conv [THEN iffD2])
qed

lemma fgets_unterminated:
  assumes "clean w" "w \<noteq> []" "length w + 2 \<le> length buf"
  shows "fgets buf w = Some (w @ NUL # drop (length w + 1) buf, [])"
proof -
  have tw: "takeWhile (\<lambda>c. c \<noteq> LF) w = w"
    using assms(1) by (auto simp: clean_def intro: takeWhile_eq_all_conv [THEN iffD2])
  with assms(2,3) show ?thesis by (simp add: fgets_def fgets_chunk_def tw)
qed

lemma GetConf_token_last_word:
  assumes "ConfString cf = w @ NUL # r" "ConfToken cf = 0" "clean w" "w \<noteq> []" "r \<noteq> []"
    and "\<forall>c \<in> set w. \<not> is_blank c" "hd w \<noteq> CHR ''#''"
  shows "GetConf_token cf = (Token w, cf\<lparr>ConfString := w @ NUL # r, ConfToken := Suc (length w)\<rparr>)"
proof -
  have ns: "\<forall>c \<in> set w. \<not> is_stop c" using assms(3,6) stop_clean by auto
  obtain c w' where w: "w = c # w'" using assms(4) by (cases w) auto
  obtain e r' where r: "r = e # r'" using assms(5) by (cases r) auto
  have "skip_blanks (w @ NUL # r) 0 = 0" using w assms(6) by (subst skip_blanks.simps) simp
  moreover have "scan_word (w @ NUL # r) 0 = Some (length w)"
    using scan_word_run [of w NUL "[]" r] ns by simp
  moreover have "find_end (w @ NUL # r) 0 = length w"
    using find_end_run [of w "NUL # r" NUL e r' "[]"] ns r by simp
  moreover have "takeWhile (\<lambda>c. c \<noteq> NUL) (w @ NUL # r) = w"
    using ns by (intro takeWhile_stop) (auto simp: is_stop_def)
  ultimately show ?thesis using assms w
    by (simp add: GetConf_token_def Let_def list_update_append)
qed

text \<open>When the file does not end with a newline, the tokens after its last word are those
  of what an earlier line left in the buffer: behind a comment line that is longer than the last
  word, the text of the comment is read as the arguments of the directive.\<close>

theorem unterminated_last_line_leaks:
  assumes "ConfFile cf = c @ [LF] @ w" "clean c" "length c + 2 \<le> length (ConfString cf)"
    and "line_tokens c = []" "clean w" "w \<noteq> []" "\<forall>x \<in> set w. \<not> is_blank x" "hd w \<noteq> CHR ''#''"
    and "length w < length c"
  shows "\<exists>cf'. GetConf_string cf = (Token w, cf') \<and>
    rest_tokens cf' = line_tokens (drop (length w + 1) c)"
proof -
  let ?r = "drop (length c + 2) (ConfString cf)"
  obtain cf1 where cf1: "GetConf_string cf = GetConf_string cf1" "ConfFile cf1 = w"
    "length (ConfString cf1) = length (ConfString cf)" "ConfString cf1 = c @ LF # NUL # ?r"
    by (rule GetConf_string_blank [of cf c w]) (use assms in simp_all)
  let ?u = "drop (length w + 1) c"
  let ?buf = "w @ NUL # ?u @ LF # NUL # ?r"
  let ?cf2 = "cf1\<lparr>GetConf_ln := Suc (GetConf_ln cf1), ConfFile := [], ConfString := ?buf, ConfToken := 0\<rparr>"
  let ?cf3 = "?cf2\<lparr>ConfToken := Suc (length w)\<rparr>"
  have "fgets (ConfString cf1) (ConfFile cf1) = Some (?buf, [])"
    using fgets_unterminated [of w "ConfString cf1"] assms(3,5,6,9) cf1(2-4) by simp
  moreover have "GetConf_token ?cf2 = (Token w, ?cf3)"
    using GetConf_token_last_word [of ?cf2 w "?u @ LF # NUL # ?r"] assms(5-8) by simp
  ultimately have "GetConf_string cf1 = (Token w, ?cf3)"
    by (subst GetConf_string.simps) simp
  moreover have "rest_tokens ?cf3 = line_tokens ?u"
    using rest_tokens_line [of ?cf3 "w @ [NUL]" ?u ?r] assms(2)
    by (auto simp: clean_def dest: in_set_dropD)
  ultimately show ?thesis using cf1(1) by auto
qed

theorem unterminated_last_line_leaks_witness:
  "\<exists>cf'. GetConf_string \<lparr>ConfFile = ''#mx 10'' @ [LF] @ ''ns'', ConfString = replicate 20 NUL,
       ConfToken = 0, GetConf_ln = 0\<rparr> = (Token ''ns'', cf') \<and> rest_tokens cf' = [''10'']"
  using unterminated_last_line_leaks [of "\<lparr>ConfFile = ''#mx 10'' @ [LF] @ ''ns'',
       ConfString = replicate 20 NUL, ConfToken = 0, GetConf_ln = 0\<rparr>" "''#mx 10''" "''ns''"]
  by (simp add: clean_def NUL_def LF_def line_tokens.simps is_blank_def)

end
