(* ===== verification/ConfRealm.thy ===== *)
theory ConfRealm
  imports ConfReader
begin

text \<open>
  How the servers read their configuration files with the reader of \<open>ConfReader\<close>: a line is a
  word and its arguments, and a realm is a sequence of lines up to the word that ends it. The loops over the lines
  are those of each server; what they share is here: the directives with one or with any number of arguments, \<open>atoi\<close>,
  the facts from which the loops end, and what the reader gives for a clean line.
\<close>

text \<open>A server ends with an error message, a token reaches past the buffer, or a token is copied
  past the room that was allocated for it.\<close>

datatype setup_fail = ExitFailure | ReadOverrun | WriteOverrun

text \<open>\<open>atoi\<close> on a token, which has no leading blanks.\<close>

fun digits_value :: "string \<Rightarrow> int \<Rightarrow> int" where
  "digits_value [] n = n"
| "digits_value (c # cs) n = (let k = int (of_char c) in
     if 48 \<le> k \<and> k \<le> 57 then digits_value cs (10 * n + (k - 48)) else n)"

definition atoi :: "string \<Rightarrow> int" where
  "atoi s = (case s of [] \<Rightarrow> 0
     | c # cs \<Rightarrow> if c = CHR ''-'' then - digits_value cs 0 else if c = CHR ''+'' then digits_value cs 0
         else digits_value s 0)"

section \<open>Arguments of a directive\<close>

definition with_arg :: "(string \<Rightarrow> 'a \<Rightarrow> setup_fail + 'a) \<Rightarrow> conf \<Rightarrow> 'a \<Rightarrow> setup_fail + ('a \<times> conf)" where
  "with_arg f cf x = (case GetConf_token cf of
     (Overrun, _) \<Rightarrow> Inl ReadOverrun
   | (NoToken, cf') \<Rightarrow> Inr (x, cf')
   | (Token t, cf') \<Rightarrow> (case f t x of Inl e \<Rightarrow> Inl e | Inr y \<Rightarrow> Inr (y, cf')))"

function each_arg :: "(string \<Rightarrow> 'a \<Rightarrow> 'a) \<Rightarrow> conf \<Rightarrow> 'a \<Rightarrow> setup_fail + ('a \<times> conf)" where
  "each_arg f cf x = (case GetConf_token cf of
     (Overrun, _) \<Rightarrow> Inl ReadOverrun
   | (NoToken, cf') \<Rightarrow> Inr (x, cf')
   | (Token t, cf') \<Rightarrow> each_arg f cf' (f t x))"
  by pat_completeness auto
termination
  by (relation "measure (\<lambda>(f, cf, x). length (ConfString cf) - ConfToken cf)")
    (auto dest!: GetConf_token_progress [OF sym])

declare each_arg.simps [simp del]

lemma with_arg_file: "with_arg f cf x = Inr (y, cf') \<Longrightarrow> ConfFile cf' = ConfFile cf"
  by (auto simp: with_arg_def ConfFile_token_eq [OF sym] split: prod.splits token_result.splits sum.splits)

lemma each_arg_file: "each_arg f cf x = Inr (y, cf') \<Longrightarrow> ConfFile cf' = ConfFile cf"
proof (induction "length (ConfString cf) - ConfToken cf" arbitrary: cf x rule: less_induct)
  case less
  obtain r cf1 where tk: "GetConf_token cf = (r, cf1)" by fastforce
  show ?case
  proof (cases r)
    case (Token t)
    have "each_arg f cf1 (f t x) = Inr (y, cf')"
      using less.prems tk Token by (subst (asm) each_arg.simps) simp
    moreover have "length (ConfString cf1) - ConfToken cf1 < length (ConfString cf) - ConfToken cf"
      using GetConf_token_progress [of cf t cf1] tk Token by auto
    ultimately show ?thesis using less.hyps ConfFile_token_eq [OF tk [symmetric]] by simp
  qed (use less.prems tk ConfFile_token_eq [OF tk [symmetric]] in \<open>subst (asm) each_arg.simps, simp\<close>)+
qed

lemma GetConf_string_shorter:
  "GetConf_string cf = (Token t, cf') \<Longrightarrow> length (ConfFile cf') < length (ConfFile cf)"
proof (induction "length (ConfFile cf)" arbitrary: cf rule: less_induct)
  case less
  let ?cf = "cf\<lparr>GetConf_ln := Suc (GetConf_ln cf)\<rparr>"
  obtain buf rest where f: "fgets (ConfString cf) (ConfFile cf) = Some (buf, rest)"
    using less.prems by (subst (asm) GetConf_string.simps) (auto simp: Let_def split: option.splits)
  let ?in = "?cf\<lparr>ConfFile := rest, ConfString := buf, ConfToken := 0\<rparr>"
  obtain r cf1 where tk: "GetConf_token ?in = (r, cf1)" by fastforce
  have sh: "length rest < length (ConfFile cf)" "ConfFile cf1 = rest"
    using fgets_shorter [OF f] ConfFile_token_eq [OF tk [symmetric]] by simp_all
  show ?case
  proof (cases "r = NoToken")
    case True
    then have "GetConf_string cf1 = (Token t, cf')"
      using less.prems f tk by (subst (asm) GetConf_string.simps) (simp add: Let_def)
    from less.hyps [OF _ this] sh show ?thesis by simp
  next
    case False
    then have "cf' = cf1"
      using less.prems f tk by (subst (asm) GetConf_string.simps) (auto simp: Let_def split: token_result.splits)
    with sh show ?thesis by simp
  qed
qed

section \<open>Lines of one directive\<close>

text \<open>A directive gets the first argument of its line, if there is one.\<close>

definition directive_line :: "(string option \<Rightarrow> 'a \<Rightarrow> setup_fail + 'a) \<Rightarrow> conf \<Rightarrow> 'a \<Rightarrow> setup_fail + ('a \<times> conf)" where
  "directive_line f cf x = (case GetConf_token cf of
     (Overrun, _) \<Rightarrow> Inl ReadOverrun
   | (NoToken, cf') \<Rightarrow> map_sum id (\<lambda>y. (y, cf')) (f None x)
   | (Token t, cf') \<Rightarrow> map_sum id (\<lambda>y. (y, cf')) (f (Some t) x))"

text \<open>A directive that does nothing without its argument.\<close>

definition given :: "(string \<Rightarrow> 'a \<Rightarrow> setup_fail + 'a) \<Rightarrow> string option \<Rightarrow> 'a \<Rightarrow> setup_fail + 'a" where
  "given f a x = (case a of None \<Rightarrow> Inr x | Some t \<Rightarrow> f t x)"

lemma directive_line_Inr:
  "directive_line f cf x = Inr (y, cf') \<longleftrightarrow>
   (\<exists>r. GetConf_token cf = (r, cf') \<and> (r = NoToken \<and> f None x = Inr y \<or> (\<exists>t. r = Token t \<and> f (Some t) x = Inr y)))"
proof -
  have m: "map_sum id (\<lambda>y. (y, c)) s = Inr (y, cf') \<longleftrightarrow> s = Inr y \<and> c = cf'" for c :: conf and s :: "setup_fail + 'a"
    by (cases s) auto
  obtain r c where g: "GetConf_token cf = (r, c)" by fastforce
  show ?thesis by (cases r) (auto simp: directive_line_def g m)
qed

lemma directive_line_file: "directive_line f cf x = Inr (y, cf') \<Longrightarrow> ConfFile cf' = ConfFile cf"
  by (auto simp: directive_line_Inr ConfFile_token_eq [OF sym])

text \<open>The lines of a realm up to its last one.\<close>

function realm_lines :: "string \<Rightarrow> (string \<Rightarrow> (string option \<Rightarrow> 'a \<Rightarrow> setup_fail + 'a) option) \<Rightarrow> conf \<Rightarrow> 'a \<Rightarrow>
    setup_fail + ('a \<times> conf)" where
  "realm_lines fin dir cf x = (case GetConf_string cf of
     (Overrun, _) \<Rightarrow> Inl ReadOverrun
   | (NoToken, _) \<Rightarrow> Inl ExitFailure
   | (Token t, cf1) \<Rightarrow>
       if str_ieq fin t then Inr (x, cf1)
       else (case dir t of
           None \<Rightarrow> Inl ExitFailure
         | Some f \<Rightarrow> (case directive_line f cf1 x of Inl e \<Rightarrow> Inl e | Inr (y, cf2) \<Rightarrow> realm_lines fin dir cf2 y)))"
  by pat_completeness auto
termination
  by (relation "measure (\<lambda>(fin, dir, cf, x). length (ConfFile cf))")
    (auto dest!: GetConf_string_shorter [OF sym] directive_line_file)

declare realm_lines.simps [simp del]

text \<open>The lines of a file without realms, where a word that is no directive is skipped.\<close>

function flat_lines :: "(string \<Rightarrow> (string option \<Rightarrow> 'a \<Rightarrow> setup_fail + 'a) option) \<Rightarrow> conf \<Rightarrow> 'a \<Rightarrow> setup_fail + 'a" where
  "flat_lines dir cf x = (case GetConf_string cf of
     (Overrun, _) \<Rightarrow> Inl ReadOverrun
   | (NoToken, _) \<Rightarrow> Inr x
   | (Token t, cf1) \<Rightarrow> (case dir t of
         None \<Rightarrow> flat_lines dir cf1 x
       | Some f \<Rightarrow> (case directive_line f cf1 x of Inl e \<Rightarrow> Inl e | Inr (y, cf2) \<Rightarrow> flat_lines dir cf2 y)))"
  by pat_completeness auto
termination
  by (relation "measure (\<lambda>(dir, cf, x). length (ConfFile cf))")
    (auto dest!: GetConf_string_shorter [OF sym] directive_line_file)

declare flat_lines.simps [simp del]

lemma GetConf_string_end:
  assumes "ConfFile cf = []" "length (ConfString cf) = 4096"
  shows "GetConf_string cf = (NoToken, cf\<lparr>GetConf_ln := Suc (GetConf_ln cf)\<rparr>)"
  using assms by (subst GetConf_string.simps) (simp add: fgets_def Let_def)

lemma flat_lines_end: "ConfFile cf = [] \<Longrightarrow> length (ConfString cf) = 4096 \<Longrightarrow> flat_lines dir cf x = Inr x"
  by (subst flat_lines.simps) (simp add: GetConf_string_end)

text \<open>What every directive keeps is kept by the lines.\<close>

lemma realm_lines_keep:
  assumes "\<And>t f a x y. dir t = Some f \<Longrightarrow> P x \<Longrightarrow> f a x = Inr y \<Longrightarrow> P y"
  shows "realm_lines fin dir cf x = Inr (y, cf') \<Longrightarrow> P x \<Longrightarrow> P y \<and> length (ConfFile cf') < length (ConfFile cf)"
proof (induction "length (ConfFile cf)" arbitrary: cf x rule: less_induct)
  case less
  from less.prems(1) obtain t cf1 where t: "GetConf_string cf = (Token t, cf1)"
    by (subst (asm) realm_lines.simps) (auto split: prod.splits token_result.splits)
  note sh = GetConf_string_shorter [OF t]
  show ?case
  proof (cases "str_ieq fin t")
    case True
    then show ?thesis using less.prems t sh by (subst (asm) realm_lines.simps) simp
  next
    case False
    then obtain f z cf2 where f: "dir t = Some f" "directive_line f cf1 x = Inr (z, cf2)" "realm_lines fin dir cf2 z = Inr (y, cf')"
      using less.prems(1) t by (subst (asm) realm_lines.simps) (auto split: option.splits sum.splits prod.splits)
    have "P z" using f(2) assms [OF f(1) less.prems(2)] by (auto simp: directive_line_Inr)
    moreover have "ConfFile cf2 = ConfFile cf1" using directive_line_file [OF f(2)] .
    ultimately show ?thesis using less.hyps [OF _ f(3)] sh by simp
  qed
qed

lemma flat_lines_keep:
  assumes "\<And>t f a x y. dir t = Some f \<Longrightarrow> P x \<Longrightarrow> f a x = Inr y \<Longrightarrow> P y"
  shows "flat_lines dir cf x = Inr y \<Longrightarrow> P x \<Longrightarrow> P y"
proof (induction "length (ConfFile cf)" arbitrary: cf x rule: less_induct)
  case less
  obtain r cf1 where g: "GetConf_string cf = (r, cf1)" by fastforce
  show ?case
  proof (cases r)
    case Overrun
    then show ?thesis using less.prems(1) g by (subst (asm) flat_lines.simps) simp
  next
    case NoToken
    then show ?thesis using less.prems g by (subst (asm) flat_lines.simps) simp
  next
    case (Token t)
    note sh = GetConf_string_shorter [OF g [unfolded Token]]
    show ?thesis
    proof (cases "dir t")
      case None
      then have "flat_lines dir cf1 x = Inr y" using less.prems(1) g Token by (subst (asm) flat_lines.simps) simp
      then show ?thesis using less.hyps sh less.prems(2) by blast
    next
      case (Some f)
      then obtain z cf2 where f: "directive_line f cf1 x = Inr (z, cf2)" "flat_lines dir cf2 z = Inr y"
        using less.prems(1) g Token by (subst (asm) flat_lines.simps) (auto split: sum.splits prod.splits)
      have "P z" using f(1) assms [OF Some less.prems(2)] by (auto simp: directive_line_Inr)
      moreover have "ConfFile cf2 = ConfFile cf1" using directive_line_file [OF f(1)] .
      ultimately show ?thesis using less.hyps [OF _ f(2)] sh by simp
    qed
  qed
qed

section \<open>Clean lines\<close>

lemma fgets_length: "fgets buf file = Some (b, r) \<Longrightarrow> length b = length buf"
  by (auto simp: fgets_def fgets_chunk_def Let_def split: if_splits)

lemma GetConf_token_length: "GetConf_token cf = (r, cf') \<Longrightarrow> length (ConfString cf') = length (ConfString cf)"
  by (auto simp: GetConf_token_def Let_def split: option.splits if_splits)

lemma GetConf_string_length: "GetConf_string cf = (r, cf') \<Longrightarrow> length (ConfString cf') = length (ConfString cf)"
proof (induction "length (ConfFile cf)" arbitrary: cf rule: less_induct)
  case less
  let ?cf = "cf\<lparr>GetConf_ln := Suc (GetConf_ln cf)\<rparr>"
  show ?case
  proof (cases "fgets (ConfString cf) (ConfFile cf)")
    case None
    then show ?thesis using less.prems by (subst (asm) GetConf_string.simps) (auto simp: Let_def)
  next
    case (Some br)
    obtain buf rest where f: "fgets (ConfString cf) (ConfFile cf) = Some (buf, rest)" using Some by (cases br) auto
    let ?in = "?cf\<lparr>ConfFile := rest, ConfString := buf, ConfToken := 0\<rparr>"
    obtain q cf1 where tk: "GetConf_token ?in = (q, cf1)" by fastforce
    have len: "length (ConfString cf1) = length (ConfString cf)"
      using GetConf_token_length [OF tk] fgets_length [OF f] by simp
    have sh: "length (ConfFile cf1) < length (ConfFile cf)"
      using fgets_shorter [OF f] ConfFile_token_eq [OF tk [symmetric]] by simp
    show ?thesis
    proof (cases "q = NoToken")
      case True
      then have "GetConf_string cf1 = (r, cf')"
        using less.prems f tk by (subst (asm) GetConf_string.simps) (simp add: Let_def)
      from less.hyps [OF sh this] len show ?thesis by simp
    next
      case False
      then have "cf' = cf1"
        using less.prems f tk by (subst (asm) GetConf_string.simps) (auto simp: Let_def split: token_result.splits)
      with len show ?thesis by simp
    qed
  qed
qed

text \<open>A directive with one argument, as the realms read it.\<close>

lemma read_directive:
  assumes "ConfFile cf = l @ LF # rest" "clean l" "length l + 2 \<le> length (ConfString cf)" "line_tokens l = [w, a]"
  shows "\<exists>cf1 cf2. GetConf_string cf = (Token w, cf1) \<and> GetConf_token cf1 = (Token a, cf2) \<and>
    ConfFile cf2 = rest \<and> length (ConfString cf2) = length (ConfString cf)"
proof -
  from GetConf_string_line [OF assms] obtain cf1 where c: "GetConf_string cf = (Token w, cf1)" "rest_tokens cf1 = [a]"
    "ConfFile cf1 = rest" by blast
  obtain r cf2 where tk: "GetConf_token cf1 = (r, cf2)" by fastforce
  with c(2) have "r = Token a" by (subst (asm) rest_tokens.simps) (simp split: token_result.splits)
  with c tk GetConf_string_length [OF c(1)] GetConf_token_length [OF tk] ConfFile_token_eq [OF tk [symmetric]]
  show ?thesis by auto
qed

lemma read_word:
  assumes "ConfFile cf = l @ LF # rest" "clean l" "length l + 2 \<le> length (ConfString cf)" "line_tokens l = [w]"
  shows "\<exists>cf1. GetConf_string cf = (Token w, cf1) \<and> ConfFile cf1 = rest \<and> length (ConfString cf1) = length (ConfString cf)"
  using GetConf_string_line [OF assms] GetConf_string_length by blast

text \<open>A word of a configuration line.\<close>

definition word_ok :: "string \<Rightarrow> bool" where
  "word_ok a \<longleftrightarrow> a \<noteq> [] \<and> hd a \<noteq> CHR ''#'' \<and> (\<forall>c \<in> set a. \<not> is_stop c)"

end
