(* ===== verification/QBaseConfig.thy ===== *)
theory QBaseConfig
  imports ConfRealm
begin

text \<open>
  \<open>QX-base/qbase_rm.c\<close>: the configuration of the database server and what it starts with. The two paths
  are blocks of 255 bytes; \<open>None\<close> is a block that nothing was copied to yet.
\<close>

record qbase_conf =
  qc_lowater :: int
  qc_hiwater :: int
  qc_increment :: int
  qc_maximum :: int
  rm_path :: "string option"
  db_path :: "string option"

definition copy_path :: "string \<Rightarrow> setup_fail + string option" where
  "copy_path t = (if 255 < length t + 1 then Inl WriteOverrun else Inr (Some t))"

text \<open>Both defaults are copied to the path of the databases.\<close>

definition qbase_defaults :: qbase_conf where
  "qbase_defaults = \<lparr>qc_lowater = 2, qc_hiwater = 5, qc_increment = 1, qc_maximum = 50, rm_path = None, db_path = Some ''/tmp''\<rparr>"

definition qbase_directive :: "string \<Rightarrow> (string option \<Rightarrow> qbase_conf \<Rightarrow> setup_fail + qbase_conf) option" where
  "qbase_directive t =
     (if str_ieq ''POOL_LOWATER'' t then Some (given (\<lambda>a qc. Inr (qc\<lparr>qc_lowater := atoi a\<rparr>)))
      else if str_ieq ''POOL_HIWATER'' t then Some (given (\<lambda>a qc. Inr (qc\<lparr>qc_hiwater := atoi a\<rparr>)))
      else if str_ieq ''POOL_INCREMENT'' t then Some (given (\<lambda>a qc. Inr (qc\<lparr>qc_increment := atoi a\<rparr>)))
      else if str_ieq ''POOL_MAXIMUM'' t then Some (given (\<lambda>a qc. Inr (qc\<lparr>qc_maximum := atoi a\<rparr>)))
      else if str_ieq ''RM_PATH'' t then Some (given (\<lambda>a qc. map_sum id (\<lambda>p. qc\<lparr>rm_path := p\<rparr>) (copy_path a)))
      else if str_ieq ''DB_PATH'' t then Some (given (\<lambda>a qc. map_sum id (\<lambda>p. qc\<lparr>db_path := p\<rparr>) (copy_path a)))
      else None)"

definition qbase_configure :: "string option \<Rightarrow> string \<Rightarrow> setup_fail + qbase_conf" where
  "qbase_configure file junk =
     (case GetConf_open file junk of None \<Rightarrow> Inl ExitFailure | Some cf \<Rightarrow> flat_lines qbase_directive cf qbase_defaults)"

text \<open>The rest of the start: the calls that can fail, and the name that is registered.\<close>

record qbase_os =
  qo_dispatch :: bool
  qo_fork :: bool
  qo_chdir :: "string option \<Rightarrow> bool"
  qo_pool :: bool
  qo_attach :: "string option \<Rightarrow> bool"

definition qbase_main :: "string option \<Rightarrow> string \<Rightarrow> qbase_os \<Rightarrow> setup_fail + string option" where
  "qbase_main file junk os =
     (if \<not> qo_dispatch os then Inl ExitFailure
      else case qbase_configure file junk of
          Inl e \<Rightarrow> Inl e
        | Inr qc \<Rightarrow>
            if qo_fork os \<and> qo_chdir os (db_path qc) \<and> qo_pool os \<and> qo_attach os (rm_path qc) then Inr (rm_path qc)
            else Inl ExitFailure)"

text \<open>Without its directive the name of the device is whatever the block holds.\<close>

lemma device_name_uninitialised:
  assumes "qo_dispatch os" "qo_fork os" "\<forall>p. qo_chdir os p" "qo_pool os" "\<forall>p. qo_attach os p"
  shows "qbase_main (Some []) junk os = Inr None"
proof -
  obtain cf where cf: "GetConf_open (Some []) junk = Some cf" "ConfFile cf = []" by (simp add: GetConf_open_def)
  then have "GetConf_string cf = (NoToken, cf\<lparr>GetConf_ln := Suc (GetConf_ln cf)\<rparr>)"
    by (subst GetConf_string.simps) (simp add: fgets_def Let_def)
  then have "flat_lines qbase_directive cf qbase_defaults = Inr qbase_defaults" by (subst flat_lines.simps) simp
  with cf assms show ?thesis by (simp add: qbase_main_def qbase_configure_def qbase_defaults_def)
qed

text \<open>A path that is not too long reaches the settings; a longer one is written past its block.\<close>

lemma qbase_configure_lines: "qbase_configure file junk = Inr qc \<Longrightarrow> \<exists>cf. flat_lines qbase_directive cf qbase_defaults = Inr qc"
  unfolding qbase_configure_def
  by (cases "GetConf_open file junk") (simp only: option.case sum.distinct, simp only: option.case, rule exI)

definition paths_fit :: "qbase_conf \<Rightarrow> bool" where
  "paths_fit qc \<longleftrightarrow> (\<forall>p. rm_path qc = Some p \<or> db_path qc = Some p \<longrightarrow> length p < 255)"

lemma copied_path: "map_sum id h (copy_path a) = Inr y \<longleftrightarrow> length a < 255 \<and> h (Some a) = y"
  by (auto simp: copy_path_def)

lemma directive_paths_fit: "qbase_directive t = Some f \<Longrightarrow> paths_fit x \<Longrightarrow> f a x = Inr y \<Longrightarrow> paths_fit y"
  unfolding qbase_directive_def paths_fit_def by (cases a) (auto simp: given_def copied_path split: if_split_asm)

lemma copied_paths_fit:
  assumes "qbase_configure file junk = Inr qc"
  shows "paths_fit qc"
proof -
  obtain cf where f: "flat_lines qbase_directive cf qbase_defaults = Inr qc" using qbase_configure_lines [OF assms] ..
  have d: "paths_fit qbase_defaults" by (simp add: paths_fit_def qbase_defaults_def)
  show ?thesis by (rule flat_lines_keep [where P = paths_fit, rotated, OF f d]) (rule directive_paths_fit)
qed

end
