(* ===== verification/QBaseTables.thy ===== *)
theory QBaseTables
  imports QBaseClient
begin

text \<open>
  How the programs that create tables describe them with the client library of \<open>QX-base\<close>: a new descriptor, then the
  type and length of one column after another. The fields come to lie one after the other, whatever the columns are.
\<close>

section \<open>Types and lengths\<close>

text \<open>A descriptor with \<open>n\<close> columns of at most \<open>m\<close> bytes.\<close>

definition desc_fits :: "nat \<Rightarrow> nat \<Rightarrow> desc \<Rightarrow> bool" where
  "desc_fits n m d \<longleftrightarrow> FieldNum d = n \<and> 68 + 12 * n \<le> length d \<and> (\<forall>j < n. fd_Length d j \<le> m)"

lemma field_start_le: "\<forall>j < k. fd_Length d j \<le> m \<Longrightarrow> field_start d k \<le> k * m"
proof (induction k)
  case (Suc k)
  then have "field_start d k \<le> k * m" "fd_Length d k \<le> m" by simp_all
  then show ?case by (simp add: field_start_Suc)
qed (simp add: field_start_def)

lemma fixtbl_fits:
  assumes "desc_fits n m d" "n * m < 4294967296"
  shows "\<exists>d'. Qbase_fixtbl d = Ok d' \<and> desc_fits n m d' \<and> fd_Length d' = fd_Length d \<and> fd_Type d' = fd_Type d \<and>
    RowLen d' = field_start d n \<and> (\<forall>k < n. fd_Offset d' k = field_start d k)"
proof -
  from assms field_start_le [of n d m] have b: "68 + 12 * FieldNum d \<le> length d" "field_start d (FieldNum d) < 4294967296"
    by (auto simp: desc_fits_def)
  from Qbase_fixtbl_layout [OF b] obtain d' where d': "Qbase_fixtbl d = Ok d'" "FieldNum d' = FieldNum d" "fd_Length d' = fd_Length d"
    "fd_Type d' = fd_Type d" "RowLen d' = field_start d (FieldNum d)" "\<forall>k \<in> {..<FieldNum d}. fd_Offset d' k = field_start d k" by blast
  from d'(1) b(1) obtain d1 cur where f: "fix_fields [0..<FieldNum d] d 0 = (d1, cur)" "d' = set_RowLen d1 cur"
    by (auto simp: Qbase_fixtbl_def split: prod.splits)
  have "length d1 = length d" using fix_fields_effect [OF f(1) _ b(1) _ b(2)] by (simp add: field_start_def)
  with f(2) have "length d' = length d" by simp
  with d' assms(1) show ?thesis by (auto simp: desc_fits_def)
qed

definition set_Type :: "desc \<Rightarrow> nat \<Rightarrow> nat \<Rightarrow> desc" where
  "set_Type d k ty = put32 d (68 + 12 * k) (word_of_nat ty)"

lemma set_Type_simps:
  "length (set_Type d k ty) = length d" "FieldNum (set_Type d k ty) = FieldNum d" "fd_Length (set_Type d k ty) = fd_Length d"
  "80 + 12 * k \<le> length d \<Longrightarrow> ty < 4294967296 \<Longrightarrow> fd_Type (set_Type d k ty) = (fd_Type d)(k := ty)"
proof -
  show "length (set_Type d k ty) = length d" "FieldNum (set_Type d k ty) = FieldNum d" by (simp_all add: set_Type_def codec_simps desc_defs)
  show "fd_Length (set_Type d k ty) = fd_Length d"
    unfolding set_Type_def desc_defs by (rule ext, rule arg_cong [of _ _ unat], rule le32.rd_wr_disjoint, presburger)
  assume l: "80 + 12 * k \<le> length d" "ty < 4294967296"
  have "fd_Type (set_Type d k ty) j = fd_Type d j" if "j \<noteq> k" for j
    unfolding set_Type_def desc_defs using that by (intro arg_cong [of _ _ unat] le32.rd_wr_disjoint) presburger
  moreover have "fd_Type (set_Type d k ty) k = ty"
    using l by (simp add: set_Type_def fd_Type_def codec_simps unat_of_nat take_bit_nat_eq_self)
  ultimately show "fd_Type (set_Type d k ty) = (fd_Type d)(k := ty)" by (auto simp: fun_eq_iff)
qed

lemma set_Length_simps:
  "length (set_Length d k v) = length d" "FieldNum (set_Length d k v) = FieldNum d" "fd_Type (set_Length d k v) = fd_Type d"
  "80 + 12 * k \<le> length d \<Longrightarrow> v < 4294967296 \<Longrightarrow> fd_Length (set_Length d k v) = (fd_Length d)(k := v)"
proof -
  show "length (set_Length d k v) = length d" "FieldNum (set_Length d k v) = FieldNum d" by (simp_all add: set_Length_def codec_simps desc_defs)
  show "fd_Type (set_Length d k v) = fd_Type d"
    unfolding set_Length_def desc_defs by (rule ext, rule arg_cong [of _ _ unat], rule le32.rd_wr_disjoint, presburger)
  assume l: "80 + 12 * k \<le> length d" "v < 4294967296"
  have "fd_Length (set_Length d k v) j = fd_Length d j" if "j \<noteq> k" for j
    unfolding set_Length_def desc_defs using that by (intro arg_cong [of _ _ unat] le32.rd_wr_disjoint) presburger
  moreover have "fd_Length (set_Length d k v) k = v"
    using l by (simp add: set_Length_def fd_Length_def codec_simps unat_of_nat take_bit_nat_eq_self)
  ultimately show "fd_Length (set_Length d k v) = (fd_Length d)(k := v)" by (auto simp: fun_eq_iff)
qed

lemma set_field_metrics_fits:
  assumes "desc_fits n m d" "n * m < 4294967296" "k < n" "ty < 4294967296" "type_length ty len \<le> m" "m < 4294967296"
  shows "\<exists>d'. Qbase_set_field_metrics d k ty len = Ok (True, d') \<and> desc_fits n m d' \<and>
    fd_Length d' = (fd_Length d)(k := type_length ty len) \<and> fd_Type d' = (fd_Type d)(k := ty) \<and>
    RowLen d' = field_start d' n \<and> (\<forall>j < n. fd_Offset d' j = field_start d' j)"
proof -
  let ?d = "set_Length (set_Type d k ty) k (type_length ty len)"
  from assms have l: "80 + 12 * k \<le> length d" by (auto simp: desc_fits_def)
  have e: "fd_Length ?d = (fd_Length d)(k := type_length ty len)" "fd_Type ?d = (fd_Type d)(k := ty)"
    using l assms(4-6) by (simp_all add: set_Length_simps set_Type_simps)
  have "desc_fits n m ?d" using assms(1,5) unfolding desc_fits_def e(1) by (simp add: set_Length_simps set_Type_simps)
  from fixtbl_fits [OF this assms(2)] obtain d' where d': "Qbase_fixtbl ?d = Ok d'" "desc_fits n m d'" "fd_Length d' = fd_Length ?d"
    "fd_Type d' = fd_Type ?d" "RowLen d' = field_start ?d n" "\<forall>k < n. fd_Offset d' k = field_start ?d k" by blast
  have "field_start d' = field_start ?d" by (rule ext) (simp add: field_start_def d'(3))
  moreover have "Qbase_set_field_metrics d k ty len = Ok (True, d')"
    using assms(1,3) l d'(1) by (simp add: Qbase_set_field_metrics_def desc_fits_def Let_def flip: set_Type_def)
  ultimately show ?thesis using d' e by auto
qed

section \<open>A table column by column\<close>

text \<open>The calls one after the other; their results are not looked at.\<close>

fun set_columns :: "(nat \<times> nat) list \<Rightarrow> nat \<Rightarrow> desc \<Rightarrow> desc outcome" where
  "set_columns [] k d = Ok d"
| "set_columns ((ty, len) # cols) k d = bindo (Qbase_set_field_metrics d k ty len) (\<lambda>(_, d). set_columns cols (Suc k) d)"

lemma set_columns_fits:
  assumes "desc_fits n m d" "n * m < 4294967296" "m < 4294967296" "k + length cols \<le> n"
    and "\<forall>(ty, len) \<in> set cols. ty < 4294967296 \<and> type_length ty len \<le> m" "cols \<noteq> []"
  shows "\<exists>d'. set_columns cols k d = Ok d' \<and> desc_fits n m d' \<and> RowLen d' = field_start d' n \<and> (\<forall>j < n. fd_Offset d' j = field_start d' j) \<and>
    (\<forall>j. fd_Type d' j = (if k \<le> j \<and> j < k + length cols then fst (cols ! (j - k)) else fd_Type d j)) \<and>
    (\<forall>j. fd_Length d' j = (if k \<le> j \<and> j < k + length cols then (case cols ! (j - k) of (ty, len) \<Rightarrow> type_length ty len) else fd_Length d j))"
  using assms
proof (induction cols arbitrary: k d)
  case (Cons c cols)
  obtain ty len where c: "c = (ty, len)" by fastforce
  with Cons.prems have "ty < 4294967296" "type_length ty len \<le> m" "k < n" by auto
  from set_field_metrics_fits [OF Cons.prems(1,2) this(3,1,2) Cons.prems(3)] obtain d1 where
    1: "Qbase_set_field_metrics d k ty len = Ok (True, d1)" "desc_fits n m d1" "fd_Length d1 = (fd_Length d)(k := type_length ty len)"
      "fd_Type d1 = (fd_Type d)(k := ty)" "RowLen d1 = field_start d1 n" "\<forall>j < n. fd_Offset d1 j = field_start d1 j" by blast
  show ?case
  proof (cases "cols = []")
    case True
    with 1 c show ?thesis by (intro exI [of _ d1]) auto
  next
    case False
    from Cons.prems(4) have k: "Suc k + length cols \<le> n" by simp
    from Cons.prems(5) have w: "\<forall>(ty, len) \<in> set cols. ty < 4294967296 \<and> type_length ty len \<le> m" by simp
    from Cons.IH [OF 1(2) Cons.prems(2,3) k w False] obtain d' where d': "set_columns cols (Suc k) d1 = Ok d'" "desc_fits n m d'"
      "RowLen d' = field_start d' n" "\<forall>j < n. fd_Offset d' j = field_start d' j"
      "\<forall>j. fd_Type d' j = (if Suc k \<le> j \<and> j < Suc k + length cols then fst (cols ! (j - Suc k)) else fd_Type d1 j)"
      "\<forall>j. fd_Length d' j = (if Suc k \<le> j \<and> j < Suc k + length cols then (case cols ! (j - Suc k) of (ty, len) \<Rightarrow> type_length ty len) else fd_Length d1 j)"
      by blast
    have t: "fd_Type d' j = (if k \<le> j \<and> j < k + length (c # cols) then fst ((c # cols) ! (j - k)) else fd_Type d j)" for j
      using d'(5) 1(4) c by (auto simp: nth_Cons' not_less_eq_eq)
    have l: "fd_Length d' j = (if k \<le> j \<and> j < k + length (c # cols) then (case (c # cols) ! (j - k) of (ty, len) \<Rightarrow> type_length ty len) else fd_Length d j)" for j
      using d'(6) 1(3) c by (auto simp: nth_Cons' not_less_eq_eq)
    have "set_columns (c # cols) k d = Ok d'" using 1(1) d'(1) by (simp add: c)
    then show ?thesis using d'(2-4) t l by blast
  qed
qed simp

lemma set_lengths_fits:
  assumes "FieldNum d = n" "68 + 12 * n \<le> length d" "\<forall>j \<in> set js. j < n"
  shows "FieldNum (set_lengths js d) = n \<and> length (set_lengths js d) = length d \<and>
    (\<forall>j. fd_Length (set_lengths js d) j = (if j \<in> set js then 4 else fd_Length d j))"
  using assms
proof (induction js arbitrary: d)
  case (Cons j js)
  then have "80 + 12 * j \<le> length d" by auto
  with Cons.IH [of "set_Length d j 4"] Cons.prems show ?case by (auto simp: set_Length_simps)
qed simp

lemma new_tbldesc_fits:
  assumes "n < 100000" "length name \<le> 32"
  shows "\<exists>d. Qbase_new_tbldesc True n rows pages name = Ok (Some d) \<and> desc_fits (Suc n) 4 d \<and> (\<forall>j < Suc n. fd_Length d j = 4)"
proof -
  let ?s = "80 + n * 12"
  define d where "d = put32 (put32 (blit (put32 (put32 (put32 (put32 (replicate ?s 0) 0 1) 4 (word_of_nat ?s)) 60 (word_of_nat rows)) 64 (word_of_nat pages))
    8 (take 32 name)) 44 (word_of_nat (n + 1))) 56 0"
  have len: "length d = ?s" using assms(2) by (simp add: d_def codec_simps length_blit)
  have "FieldNum d = Suc n" using assms unfolding d_def FieldNum_def
    by (simp add: codec_simps length_blit unat_of_nat take_bit_nat_eq_self del: of_nat_Suc)
  from set_lengths_fits [OF this, of "[0..<n + 1]"] len have
    s: "FieldNum (set_lengths [0..<n + 1] d) = Suc n" "length (set_lengths [0..<n + 1] d) = ?s" "\<forall>j < Suc n. fd_Length (set_lengths [0..<n + 1] d) j = 4"
    by auto
  then have "desc_fits (Suc n) 4 (set_lengths [0..<n + 1] d)" by (simp add: desc_fits_def)
  from fixtbl_fits [OF this] assms(1) obtain d' where d': "Qbase_fixtbl (set_lengths [0..<n + 1] d) = Ok d'" "desc_fits (Suc n) 4 d'"
    "fd_Length d' = fd_Length (set_lengths [0..<n + 1] d)" by auto
  have "Qbase_new_tbldesc True n rows pages name = Ok (Some d')"
    using d'(1) unfolding d_def by (simp only: Qbase_new_tbldesc_def Let_def sizeof_table_desc_def sizeof_field_desc_def QBASE_TAB_NAMELEN_def) simp
  with d'(2,3) s(3) show ?thesis by auto
qed

text \<open>The widths of the key and of the columns of a table.\<close>

definition column_widths :: "(nat \<times> nat) list \<Rightarrow> nat list" where
  "column_widths cols = 4 # map (\<lambda>(ty, len).
     if ty = QBASE_TYPE_UINT \<or> ty = QBASE_TYPE_INT then 4 else if ty = QBASE_TYPE_UINT16 \<or> ty = QBASE_TYPE_INT16 then 2
     else if ty = QBASE_TYPE_DOUBLE \<or> ty = QBASE_TYPE_TIMESTAMP then 8 else len) cols"

lemma column_widths_eq: "column_widths cols = 4 # map (\<lambda>(ty, len). type_length ty len) cols"
  by (auto simp: column_widths_def type_length_def QBASE_TYPE_UINT_def QBASE_TYPE_INT_def QBASE_TYPE_UINT16_def QBASE_TYPE_INT16_def
      QBASE_TYPE_DOUBLE_def QBASE_TYPE_TIMESTAMP_def QBASE_TYPE_VARLEN_def)



section \<open>Programs as lists of calls\<close>

text \<open>What a program does when it makes the calls \<open>todo\<close> in order and stops at the first that fails: whether all
  succeeded, and all calls made so far. The answer to a call depends on those before it.\<close>

fun run_calls :: "('c list \<Rightarrow> 'c \<Rightarrow> bool) \<Rightarrow> 'c list \<Rightarrow> 'c list \<Rightarrow> bool \<times> 'c list" where
  "run_calls ok [] cs = (True, cs)"
| "run_calls ok (c # todo) cs = (if ok cs c then run_calls ok todo (cs @ [c]) else (False, cs @ [c]))"

lemma run_calls_done: "run_calls ok todo cs = (True, cs') \<Longrightarrow> cs' = cs @ todo"
proof (induction todo arbitrary: cs)
  case (Cons c todo)
  then have "run_calls ok todo (cs @ [c]) = (True, cs')" by (simp split: if_splits)
  from Cons.IH [OF this] show ?case by simp
qed simp

end
