(* ===== verification/QBaseResize.thy ===== *)
theory QBaseResize
  imports QBaseTables ConfRealm
begin

text \<open>
  \<open>QX-base/qxb_resize.c\<close>: the tool that changes the columns of a table. A script names the table and its new columns;
  the files of the table are moved to those of a table \<open>tmp_tbl\<close>, a new table is created under the old name, and
  the rows are copied through the database. Of the database the tool sees what its calls answer and the rows that
  \<open>Qbase_fetch\<close> returns; the files that it moves itself are a map from paths. What the server does to its files is
  not part of that map. Allocation of column records succeeds.
\<close>

section \<open>The script\<close>

definition QBASE_TYPE_LAST_EFFECTIVE :: nat where "QBASE_TYPE_LAST_EFFECTIVE = 7"

record ch_col =
  col_type :: nat
  col_length :: nat
  col_old_index :: nat
  col_old_offset :: nat

record resize_conf =
  qb_root :: "string option"
  qb_device :: "string option"
  qb_table :: string
  recreateonly :: bool
  new_cols :: "ch_col list"
  rows_pp :: int
  lock_pages :: int

definition resize_defaults :: resize_conf where
  "resize_defaults = \<lparr>qb_root = None, qb_device = None, qb_table = [], recreateonly = False, new_cols = [], rows_pp = 0, lock_pages = 0\<rparr>"

definition uint_of :: "int \<Rightarrow> nat" where
  "uint_of n = nat (n mod 4294967296)"

definition blank_col :: ch_col where
  "blank_col = \<lparr>col_type = 0, col_length = 0, col_old_index = 0, col_old_offset = 0\<rparr>"

text \<open>The number that the forms \<open>OLD\<close>, \<open>BINARY\<close> and \<open>STRING\<close> need.\<close>

definition col_number :: "(nat \<Rightarrow> ch_col) \<Rightarrow> conf \<Rightarrow> setup_fail + (ch_col \<times> conf)" where
  "col_number f cf = (case GetConf_token cf of
     (Overrun, _) \<Rightarrow> Inl ReadOverrun
   | (NoToken, _) \<Rightarrow> Inl ExitFailure
   | (Token t, cf) \<Rightarrow> Inr (f (uint_of (atoi t)), cf))"

definition plain_type :: "string \<Rightarrow> nat option" where
  "plain_type t =
     (if str_ieq ''UINT'' t then Some QBASE_TYPE_UINT
      else if str_ieq ''INT'' t then Some QBASE_TYPE_INT
      else if str_ieq ''UINT16'' t then Some QBASE_TYPE_UINT16
      else if str_ieq ''INT16'' t then Some QBASE_TYPE_INT16
      else if str_ieq ''DOUBLE'' t then Some QBASE_TYPE_DOUBLE
      else if str_ieq ''TIMESTAMP'' t then Some QBASE_TYPE_TIMESTAMP
      else None)"

definition read_column :: "conf \<Rightarrow> setup_fail + (ch_col \<times> conf)" where
  "read_column cf = (case GetConf_token cf of
     (Overrun, _) \<Rightarrow> Inl ReadOverrun
   | (NoToken, _) \<Rightarrow> Inl ExitFailure
   | (Token t, cf) \<Rightarrow>
       if str_ieq ''OLD'' t
         then col_number (\<lambda>n. blank_col\<lparr>col_old_index := n, col_type := QBASE_TYPE_LAST_EFFECTIVE + 1\<rparr>) cf
       else (case plain_type t of
           Some ty \<Rightarrow> Inr (blank_col\<lparr>col_type := ty\<rparr>, cf)
         | None \<Rightarrow>
             if str_ieq ''BINARY'' t then col_number (\<lambda>n. blank_col\<lparr>col_type := QBASE_TYPE_BINARY, col_length := n\<rparr>) cf
             else if str_ieq ''STRING'' t then col_number (\<lambda>n. blank_col\<lparr>col_type := QBASE_TYPE_STRING, col_length := n\<rparr>) cf
             else Inl ExitFailure))"

text \<open>The name of the table is copied to a block of 32 bytes, and the byte behind the block is set to zero; \<open>behind\<close>
  says what that changes.\<close>

definition script_line :: "(resize_conf \<Rightarrow> resize_conf) \<Rightarrow> string \<Rightarrow> conf \<Rightarrow> resize_conf \<Rightarrow> setup_fail + (resize_conf \<times> conf)" where
  "script_line behind t cf c =
     (if str_ieq ''QXBASE_ROOT'' t then with_arg (\<lambda>a c. Inr (c\<lparr>qb_root := Some a\<rparr>)) cf c
      else if str_ieq ''QXBASE_DEV'' t then with_arg (\<lambda>a c. Inr (c\<lparr>qb_device := Some a\<rparr>)) cf c
      else if str_ieq ''RECREATEONLY'' t then Inr (c\<lparr>recreateonly := True\<rparr>, cf)
      else if str_ieq ''TABLE'' t then with_arg (\<lambda>a c. Inr (behind (c\<lparr>qb_table := take QBASE_TAB_NAMELEN a\<rparr>))) cf c
      else if str_ieq ''ROWS_PP'' t then with_arg (\<lambda>a c. Inr (c\<lparr>rows_pp := atoi a\<rparr>)) cf c
      else if str_ieq ''LOCK_PAGES'' t then with_arg (\<lambda>a c. Inr (c\<lparr>lock_pages := atoi a\<rparr>)) cf c
      else if str_ieq ''COLUMN'' t then map_sum id (\<lambda>(col, cf). (c\<lparr>new_cols := new_cols c @ [col]\<rparr>, cf)) (read_column cf)
      else Inl ExitFailure)"

lemma col_number_file: "col_number f cf = Inr (col, cf') \<Longrightarrow> ConfFile cf' = ConfFile cf"
  by (auto simp: col_number_def ConfFile_token_eq [OF sym] split: prod.splits token_result.splits)

lemma read_column_file: "read_column cf = Inr (col, cf') \<Longrightarrow> ConfFile cf' = ConfFile cf"
  by (auto simp: read_column_def ConfFile_token_eq [OF sym] dest!: col_number_file
      split: prod.splits token_result.splits if_splits option.splits)

lemma script_line_file: "script_line behind t cf c = Inr (c', cf') \<Longrightarrow> ConfFile cf' = ConfFile cf"
proof -
  have m: "map_sum id (\<lambda>(col, cf). (c\<lparr>new_cols := new_cols c @ [col]\<rparr>, cf)) r = Inr (c', cf') \<Longrightarrow> \<exists>col. r = Inr (col, cf')" for r
    by (cases r) auto
  show "script_line behind t cf c = Inr (c', cf') \<Longrightarrow> ConfFile cf' = ConfFile cf"
    by (auto simp: script_line_def dest!: m read_column_file with_arg_file split: if_splits)
qed

function script_lines :: "(resize_conf \<Rightarrow> resize_conf) \<Rightarrow> conf \<Rightarrow> resize_conf \<Rightarrow> setup_fail + resize_conf" where
  "script_lines behind cf c = (case GetConf_string cf of
     (Overrun, _) \<Rightarrow> Inl ReadOverrun
   | (NoToken, _) \<Rightarrow> Inr c
   | (Token t, cf1) \<Rightarrow> (case script_line behind t cf1 c of Inl e \<Rightarrow> Inl e | Inr (c', cf2) \<Rightarrow> script_lines behind cf2 c'))"
  by pat_completeness auto
termination
  by (relation "measure (\<lambda>(behind, cf, c). length (ConfFile cf))") (auto dest!: GetConf_string_shorter [OF sym] script_line_file)

declare script_lines.simps [simp del]

definition options_given :: "resize_conf \<Rightarrow> bool" where
  "options_given c \<longleftrightarrow> qb_root c \<noteq> None \<and> qb_device c \<noteq> None \<and> qb_table c \<noteq> [] \<and> new_cols c \<noteq> []"

definition read_script :: "(resize_conf \<Rightarrow> resize_conf) \<Rightarrow> string option \<Rightarrow> string \<Rightarrow> setup_fail + resize_conf" where
  "read_script behind file junk =
     (case GetConf_open file junk of
        None \<Rightarrow> Inl ExitFailure
      | Some cf \<Rightarrow> (case script_lines behind cf resize_defaults of
            Inl e \<Rightarrow> Inl e
          | Inr c \<Rightarrow> if options_given c then Inr c else Inl ExitFailure))"

section \<open>The files\<close>

text \<open>\<open>link\<close> fails when the new path exists, and the result is not looked at.\<close>

definition os_link :: "disk \<Rightarrow> bytes \<Rightarrow> bytes \<Rightarrow> disk" where
  "os_link fs a b = (case fs a of None \<Rightarrow> fs | Some c \<Rightarrow> if fs b = None then fs(b \<mapsto> c) else fs)"

definition os_unlink :: "disk \<Rightarrow> bytes \<Rightarrow> disk" where
  "os_unlink fs a = fs(a := None)"

definition table_file :: "string \<Rightarrow> string \<Rightarrow> bytes" where
  "table_file name ext = take 254 (bytes_of (name @ ''.'' @ ext))"

definition tmp_tab_name :: string where
  "tmp_tab_name = ''tmp_tbl''"

definition move_old :: "string \<Rightarrow> disk \<Rightarrow> bool \<times> disk" where
  "move_old table fs =
     (if fs (table_file table ''qdbd'') = None then (False, fs)
      else
        let fs = os_link fs (table_file table ''qdbd'') (table_file tmp_tab_name ''qdbd'');
            fs = os_unlink fs (table_file table ''qdbd'');
            fs = os_link fs (table_file table ''qdbh'') (table_file tmp_tab_name ''qdbh'');
            fs = os_unlink fs (table_file table ''qdbh'')
        in (True, fs))"

section \<open>The new table\<close>

text \<open>The columns that come from the old table get their type, length and place from its descriptor. No value means that the
  tool gives up.\<close>

fun resolve_columns :: "desc \<Rightarrow> ch_col list \<Rightarrow> ch_col list option outcome" where
  "resolve_columns od [] = Ok (Some [])"
| "resolve_columns od (c # cs) =
     (let i = col_old_index c;
          rest = (\<lambda>c. bindo (resolve_columns od cs) (\<lambda>r. Ok (map_option ((#) c) r))) in
      if col_type c = QBASE_TYPE_LAST_EFFECTIVE + 1 \<and> i \<noteq> 0 then
        if FieldNum od < i then Ok None
        else if length od < 80 + 12 * i then Crash OutOfBounds
        else rest (c\<lparr>col_type := fd_Type od i, col_length := fd_Length od i, col_old_offset := fd_Offset od i\<rparr>)
      else rest c)"

fun set_metrics :: "ch_col list \<Rightarrow> nat \<Rightarrow> desc \<Rightarrow> desc option outcome" where
  "set_metrics [] k d = Ok (Some d)"
| "set_metrics (c # cs) k d =
     bindo (Qbase_set_field_metrics d k (col_type c) (col_length c)) (\<lambda>(ok, d). if ok then set_metrics cs (Suc k) d else Ok None)"

fun new_lengths :: "desc \<Rightarrow> nat \<Rightarrow> ch_col list \<Rightarrow> ch_col list" where
  "new_lengths d k [] = []"
| "new_lengths d k (c # cs) = c\<lparr>col_length := fd_Length d k\<rparr> # new_lengths d (Suc k) cs"

definition new_table :: "bool \<Rightarrow> desc option \<Rightarrow> resize_conf \<Rightarrow> (desc \<times> ch_col list) option outcome" where
  "new_table mem_ok od c =
     bindo (case od of None \<Rightarrow> Ok (Some (new_cols c)) | Some d \<Rightarrow> resolve_columns d (new_cols c)) (\<lambda>r. case r of None \<Rightarrow> Ok None | Some cols \<Rightarrow>
     bindo (Qbase_new_tbldesc mem_ok (length cols) (uint_of (rows_pp c)) (uint_of (lock_pages c)) (bytes_of (qb_table c))) (\<lambda>r. case r of None \<Rightarrow> Ok None | Some d \<Rightarrow>
     bindo (set_metrics cols 1 d) (\<lambda>r. case r of None \<Rightarrow> Ok None | Some d \<Rightarrow>
       Ok (Some (d, new_lengths d 1 cols)))))"

section \<open>The rows\<close>

fun copy_fields :: "desc \<Rightarrow> desc \<Rightarrow> bytes \<Rightarrow> ch_col list \<Rightarrow> nat \<Rightarrow> bytes \<Rightarrow> bytes option outcome" where
  "copy_fields od nd old_buf [] k new_buf = Ok (Some new_buf)"
| "copy_fields od nd old_buf (c # cs) k new_buf =
     (if col_old_index c = 0 then copy_fields od nd old_buf cs (Suc k) new_buf
      else if FieldNum od < col_old_index c then Ok None
      else if length old_buf < col_old_offset c + col_length c then Crash OutOfBounds
      else bindo (Qbase_field_set nd new_buf k (take (col_length c) (drop (col_old_offset c) old_buf))) (\<lambda>(r, new_buf).
        if r \<noteq> QBASE_E_OK then Ok None else copy_fields od nd old_buf cs (Suc k) new_buf))"

definition copy_row :: "desc \<Rightarrow> desc \<Rightarrow> ch_col list \<Rightarrow> bytes \<Rightarrow> bytes option outcome" where
  "copy_row od nd cols old_buf = copy_fields od nd old_buf cols 1 (replicate (RowLen nd) 0)"

section \<open>The tool\<close>

datatype rz_call = RzChdir string | RzOpen string | RzSelect bytes | RzCaps | RzCreate desc | RzInsert bytes

text \<open>\<open>old_rows\<close> are the rows that \<open>Qbase_fetch\<close> returns from the old table, and \<open>fetch_end\<close> is its last result.\<close>

record resize_env =
  rz_ok :: "rz_call list \<Rightarrow> rz_call \<Rightarrow> bool"
  rz_mem :: bool
  caps_desc :: desc
  old_rows :: "bytes list"
  fetch_end :: qerr

datatype rz_end = Finished | GivenUp | Broken crash

fun copy_rows :: "resize_env \<Rightarrow> desc \<Rightarrow> desc \<Rightarrow> ch_col list \<Rightarrow> bytes list \<Rightarrow> rz_call list \<Rightarrow> rz_end \<times> rz_call list" where
  "copy_rows e od nd cols [] cs = (if fetch_end e = QBASE_E_LASTROW then Finished else GivenUp, cs)"
| "copy_rows e od nd cols (row # rows) cs =
     (case copy_row od nd cols row of
        Crash x \<Rightarrow> (Broken x, cs)
      | Ok None \<Rightarrow> (GivenUp, cs)
      | Ok (Some new) \<Rightarrow>
          let (done, cs) = run_calls (rz_ok e) [RzInsert new] cs in
          if done then copy_rows e od nd cols rows cs else (GivenUp, cs))"

definition set_Name :: "desc \<Rightarrow> string \<Rightarrow> desc" where
  "set_Name d name = blit d 8 (take 31 (bytes_of name) @ [0])"

text \<open>From the creation of the new descriptor on. The header of the moved table is written again with the name
  \<open>tmp_tbl\<close>; without an old table there is no descriptor to write.\<close>

definition resize_table :: "resize_env \<Rightarrow> resize_conf \<Rightarrow> bool \<Rightarrow> rz_call list \<Rightarrow> disk \<Rightarrow> rz_end \<times> rz_call list \<times> disk" where
  "resize_table e c old_tbl_exists cs fs =
     (case new_table (rz_mem e) (if old_tbl_exists then Some (caps_desc e) else None) c of
        Crash x \<Rightarrow> (Broken x, cs, fs)
      | Ok None \<Rightarrow> (GivenUp, cs, fs)
      | Ok (Some (nd, cols)) \<Rightarrow>
          if \<not> old_tbl_exists then (Broken NullPointer, cs, fs)
          else
            let od = set_Name (caps_desc e) tmp_tab_name;
                fs = os_write fs (os_open fs (table_file tmp_tab_name ''qdbh'')) 0 (take (td_Size od) od);
                (done, cs) = run_calls (rz_ok e) [RzCreate nd, RzOpen (the (qb_device c)), RzSelect (bytes_of tmp_tab_name)] cs in
            if \<not> done then (GivenUp, cs, fs)
            else if recreateonly c then (Finished, cs, fs)
            else let (r, cs) = copy_rows e od nd cols (old_rows e) cs in (r, cs, fs))"

definition resize_main :: "resize_env \<Rightarrow> (resize_conf \<Rightarrow> resize_conf) \<Rightarrow> string option \<Rightarrow> string \<Rightarrow> disk \<Rightarrow> rz_end \<times> rz_call list \<times> disk" where
  "resize_main e behind file junk fs =
     (case read_script behind file junk of
        Inl x \<Rightarrow> (if x = ExitFailure then GivenUp else Broken OutOfBounds, [], fs)
      | Inr c \<Rightarrow>
          let (done, cs) = run_calls (rz_ok e) [RzChdir (the (qb_root c))] [] in
          if \<not> done then (GivenUp, cs, fs)
          else
            let (old_tbl_exists, fs) = move_old (qb_table c) fs;
                dev = the (qb_device c);
                (done, cs) = run_calls (rz_ok e)
                  ([RzOpen dev, RzOpen dev] @ (if old_tbl_exists then [RzSelect (bytes_of tmp_tab_name), RzCaps] else [])) cs in
            if \<not> done then (GivenUp, cs, fs) else resize_table e c old_tbl_exists cs fs)"

section \<open>What becomes of the files\<close>

lemma bytes_of_inj: "bytes_of s = bytes_of t \<longleftrightarrow> s = t"
proof -
  have "inj (\<lambda>c. word_of_nat (of_char c) :: byte)"
  proof (rule injI)
    fix c d :: char
    assume "(word_of_nat (of_char c) :: byte) = word_of_nat (of_char d)"
    then have "(of_char c :: nat) mod 256 = of_char d mod 256" by (simp add: word_of_nat_eq_iff take_bit_eq_mod)
    then show "c = d" by simp
  qed
  then show ?thesis by (simp add: bytes_of_def inj_map_eq_map)
qed

lemma table_file_eq:
  assumes "length s \<le> 32" "length t \<le> 32" "length x = 4" "length y = 4"
  shows "table_file s x = table_file t y \<longleftrightarrow> s = t \<and> x = y"
proof -
  have "take 254 (bytes_of (s @ ''.'' @ x)) = bytes_of (s @ ''.'' @ x)" "take 254 (bytes_of (t @ ''.'' @ y)) = bytes_of (t @ ''.'' @ y)"
    using assms by (simp_all add: bytes_of_def)
  then have "table_file s x = table_file t y \<longleftrightarrow> s @ ''.'' @ x = t @ ''.'' @ y" by (simp add: table_file_def bytes_of_inj)
  also have "\<dots> \<longleftrightarrow> s = t \<and> x = y" using assms(3,4) by (subst append_eq_append_conv) auto
  finally show ?thesis .
qed

lemma move_old_data:
  assumes "length table \<le> 32" "table \<noteq> tmp_tab_name" "fs (table_file table ''qdbd'') = Some data" "move_old table fs = (ex, fs')"
  shows "ex \<and> fs' (table_file table ''qdbd'') = None \<and>
    fs' (table_file tmp_tab_name ''qdbd'') = (case fs (table_file tmp_tab_name ''qdbd'') of None \<Rightarrow> Some data | Some old \<Rightarrow> Some old)"
proof -
  have t: "length tmp_tab_name \<le> 32" by (simp add: tmp_tab_name_def)
  have ne: "table_file table ''qdbd'' \<noteq> table_file tmp_tab_name ''qdbd''" "table_file table ''qdbh'' \<noteq> table_file tmp_tab_name ''qdbd''"
    "table_file table ''qdbh'' \<noteq> table_file table ''qdbd''" "table_file tmp_tab_name ''qdbh'' \<noteq> table_file table ''qdbd''"
    "table_file tmp_tab_name ''qdbh'' \<noteq> table_file tmp_tab_name ''qdbd''"
    using assms(1,2) t by (simp_all add: table_file_eq)
  from assms(3,4) ne show ?thesis
    by (auto simp: move_old_def os_link_def os_unlink_def Let_def split: option.splits if_splits)
qed

lemma resize_table_data:
  "resize_table e c ex cs fs = (r, cs', fs') \<Longrightarrow> x \<noteq> table_file tmp_tab_name ''qdbh'' \<Longrightarrow> fs' x = fs x"
  by (auto simp: resize_table_def Let_def os_write_def os_open_def split: outcome.splits option.splits prod.splits if_splits)

text \<open>C9: The rows of the table go to \<open>tmp_tbl.qdbd\<close> only when there is no such file. The tool leaves one behind
  each time, so the next table that is changed has its data removed: whatever the calls answer after the change
  of directory, the file of the table is gone and \<open>tmp_tbl.qdbd\<close> has the rows of the table that was changed before.\<close>

theorem resize_moves_or_loses_rows:
  assumes "read_script behind file junk = Inr c" "length (qb_table c) \<le> 32" "qb_table c \<noteq> tmp_tab_name"
    and "rz_ok e [] (RzChdir (the (qb_root c)))" "fs (table_file (qb_table c) ''qdbd'') = Some data"
    and "resize_main e behind file junk fs = (r, cs, fs')"
  shows "fs' (table_file (qb_table c) ''qdbd'') = None \<and>
    fs' (table_file tmp_tab_name ''qdbd'') = (case fs (table_file tmp_tab_name ''qdbd'') of None \<Rightarrow> Some data | Some old \<Rightarrow> Some old)"
proof -
  obtain ex fs1 where m: "move_old (qb_table c) fs = (ex, fs1)" by fastforce
  from move_old_data [OF assms(2,3,5) m] have d: "ex" "fs1 (table_file (qb_table c) ''qdbd'') = None"
    "fs1 (table_file tmp_tab_name ''qdbd'') = (case fs (table_file tmp_tab_name ''qdbd'') of None \<Rightarrow> Some data | Some old \<Rightarrow> Some old)" by auto
  have t: "length tmp_tab_name \<le> 32" by (simp add: tmp_tab_name_def)
  from assms(6) have "fs' = fs1 \<or> (\<exists>cs1. resize_table e c ex cs1 fs1 = (r, cs, fs'))"
    unfolding resize_main_def assms(1) by (auto simp: m Let_def assms(4) split: prod.splits if_splits)
  then have "fs' x = fs1 x" if "x \<noteq> table_file tmp_tab_name ''qdbh''" for x using resize_table_data that by metis
  then show ?thesis using d assms(2,3) t by (simp add: table_file_eq)
qed

text \<open>A table that does not exist yet cannot be created.\<close>

lemma resize_needs_old_table:
  assumes "read_script behind file junk = Inr c" "fs (table_file (qb_table c) ''qdbd'') = None"
    and "resize_main e behind file junk fs = (r, cs, fs')"
  shows "r \<noteq> Finished \<and> (\<forall>d. RzCreate d \<notin> set cs)"
proof -
  have m: "move_old (qb_table c) fs = (False, fs)" by (simp add: move_old_def assms(2))
  have g: "r \<noteq> Finished \<and> cs' = cs" if "resize_table e c False cs fs = (r, cs', fs')" for cs cs'
    using that by (auto simp: resize_table_def split: outcome.splits option.splits prod.splits)
  from assms(3) show ?thesis unfolding resize_main_def assms(1)
    by (auto simp: m Let_def dest!: g split: if_splits)
qed

section \<open>What becomes of the rows\<close>

definition column :: "desc \<Rightarrow> bytes \<Rightarrow> nat \<Rightarrow> bytes" where
  "column d row k = take (fd_Length d k) (drop (fd_Offset d k) row)"

text \<open>An old table as the server has it, and columns as the script can ask for them.\<close>

definition laid_out :: "desc \<Rightarrow> bool" where
  "laid_out d \<longleftrightarrow> length d = 68 + 12 * FieldNum d \<and>
     (\<forall>k < FieldNum d. fd_Offset d k + fd_Length d k \<le> RowLen d \<and> type_length (fd_Type d k) (fd_Length d k) = fd_Length d k \<and> fd_Length d k \<le> 65536)"

definition column_ok :: "desc \<Rightarrow> ch_col \<Rightarrow> bool" where
  "column_ok d c \<longleftrightarrow> (if col_old_index c = 0 then col_type c \<le> QBASE_TYPE_LAST_EFFECTIVE + 1 \<and> col_length c \<le> 65536
     else col_type c = QBASE_TYPE_LAST_EFFECTIVE + 1 \<and> col_old_index c < FieldNum d)"

definition resolved :: "desc \<Rightarrow> ch_col \<Rightarrow> ch_col" where
  "resolved d c = (if col_old_index c = 0 then c
     else c\<lparr>col_type := fd_Type d (col_old_index c), col_length := fd_Length d (col_old_index c), col_old_offset := fd_Offset d (col_old_index c)\<rparr>)"

lemma resolve_columns_ok:
  "laid_out od \<Longrightarrow> \<forall>c \<in> set cs. column_ok od c \<Longrightarrow> resolve_columns od cs = Ok (Some (map (resolved od) cs))"
proof (induction cs)
  case (Cons c cs)
  then have "resolve_columns od cs = Ok (Some (map (resolved od) cs))" "column_ok od c" by simp_all
  with Cons.prems(1) show ?case by (cases "col_old_index c = 0") (simp_all add: Let_def resolved_def column_ok_def laid_out_def)
qed simp

lemma set_metrics_columns:
  assumes "desc_fits n m d" "n * m < 4294967296" "m < 4294967296" "k + length cs \<le> n"
    and "\<forall>c \<in> set cs. col_type c < 4294967296 \<and> type_length (col_type c) (col_length c) \<le> m"
  shows "set_metrics cs k d = bindo (set_columns (map (\<lambda>c. (col_type c, col_length c)) cs) k d) (\<lambda>d. Ok (Some d))"
  using assms
proof (induction cs arbitrary: k d)
  case (Cons c cs)
  then have "k < n" "col_type c < 4294967296" "type_length (col_type c) (col_length c) \<le> m" by auto
  from set_field_metrics_fits [OF Cons.prems(1,2) this Cons.prems(3)] obtain d1 where
    "Qbase_set_field_metrics d k (col_type c) (col_length c) = Ok (True, d1)" "desc_fits n m d1" by blast
  with Cons.IH [of d1 "Suc k"] Cons.prems show ?case by simp
qed simp

lemma new_lengths_nth:
  "length (new_lengths d k cs) = length cs"
  "j < length cs \<Longrightarrow> new_lengths d k cs ! j = (cs ! j)\<lparr>col_length := fd_Length d (k + j)\<rparr>"
proof (induction cs arbitrary: k j)
  case (Cons c cs)
  { case 1 from Cons show ?case by simp }
  { case 2 with Cons.IH(2) [of "j - 1" "Suc k"] show ?case by (cases j) simp_all }
qed simp_all


text \<open>A descriptor whose columns follow one another.\<close>

definition in_order :: "nat \<Rightarrow> desc \<Rightarrow> bool" where
  "in_order n d \<longleftrightarrow> FieldNum d = n \<and> RowLen d = field_start d n \<and> (\<forall>j < n. fd_Offset d j = field_start d j)"

lemma in_order_bound: "in_order n d \<Longrightarrow> k < n \<Longrightarrow> fd_Offset d k + fd_Length d k \<le> RowLen d"
  using field_start_mono [of "Suc k" n d] by (simp add: in_order_def field_start_Suc)

lemma take_drop_blit_other:
  assumes "a + n \<le> off \<or> off + length src \<le> a" "off + length src \<le> length dst"
  shows "take n (drop a (blit dst off src)) = take n (drop a dst)"
  using assms by (intro nth_equalityI) (auto simp: length_blit nth_blit)

lemma column_blit:
  assumes "in_order n d" "k < n" "j < n" "length buf = RowLen d" "length v = fd_Length d k"
  shows "column d (blit buf (fd_Offset d k) v) j = (if j = k then v else column d buf j)"
proof -
  have b: "fd_Offset d k + length v \<le> length buf" using in_order_bound [OF assms(1,2)] assms(4,5) by simp
  show ?thesis
  proof (cases "j = k")
    case True
    with b assms(5) show ?thesis by (simp add: column_def slice_blit)
  next
    case False
    then consider "Suc j \<le> k" | "Suc k \<le> j" by linarith
    then have "fd_Offset d j + fd_Length d j \<le> fd_Offset d k \<or> fd_Offset d k + length v \<le> fd_Offset d j"
      using field_start_mono [of "Suc j" k d] field_start_mono [of "Suc k" j d] assms(1-3,5)
      by cases (auto simp: in_order_def field_start_Suc)
    with take_drop_blit_other b False show ?thesis by (simp add: column_def)
  qed
qed

lemma copy_fields_columns:
  assumes "in_order n nd" "k + length cs \<le> n" "length buf = RowLen nd"
    and "\<forall>j < length cs. col_old_index (cs ! j) \<noteq> 0 \<longrightarrow> col_old_index (cs ! j) < FieldNum od \<and> col_length (cs ! j) = fd_Length nd (k + j) \<and>
      col_old_offset (cs ! j) + col_length (cs ! j) \<le> length old"
  shows "\<exists>new. copy_fields od nd old cs k buf = Ok (Some new) \<and> length new = RowLen nd \<and>
    (\<forall>j < n. column nd new j = (if k \<le> j \<and> j < k + length cs \<and> col_old_index (cs ! (j - k)) \<noteq> 0
       then take (col_length (cs ! (j - k))) (drop (col_old_offset (cs ! (j - k))) old) else column nd buf j))"
  using assms
proof (induction cs arbitrary: k buf)
  case (Cons c cs)
  have rest: "\<forall>j < length cs. col_old_index (cs ! j) \<noteq> 0 \<longrightarrow> col_old_index (cs ! j) < FieldNum od \<and> col_length (cs ! j) = fd_Length nd (Suc k + j) \<and>
      col_old_offset (cs ! j) + col_length (cs ! j) \<le> length old"
    using Cons.prems(4) by (metis Suc_less_eq add_Suc_right add_Suc length_Cons nth_Cons_Suc)
  have k: "Suc k + length cs \<le> n" "k < n" using Cons.prems(2) by simp_all
  have idx: "(c # cs) ! (j - k) = (if j = k then c else cs ! (j - Suc k))" if "k \<le> j" for j
    using that by (auto simp: nth_Cons')
  show ?case
  proof (cases "col_old_index c = 0")
    case True
    from Cons.IH [OF Cons.prems(1) k(1) Cons.prems(3) rest] obtain new where new: "copy_fields od nd old cs (Suc k) buf = Ok (Some new)"
      "length new = RowLen nd" "\<forall>j < n. column nd new j = (if Suc k \<le> j \<and> j < Suc k + length cs \<and> col_old_index (cs ! (j - Suc k)) \<noteq> 0
       then take (col_length (cs ! (j - Suc k))) (drop (col_old_offset (cs ! (j - Suc k))) old) else column nd buf j)" by blast
    have "column nd new j = (if k \<le> j \<and> j < k + length (c # cs) \<and> col_old_index ((c # cs) ! (j - k)) \<noteq> 0
       then take (col_length ((c # cs) ! (j - k))) (drop (col_old_offset ((c # cs) ! (j - k))) old) else column nd buf j)" if "j < n" for j
      using new(3) that True by (cases "k \<le> j") (auto simp: idx not_less_eq_eq)
    with new(1,2) True show ?thesis by simp
  next
    case False
    define v where "v = take (col_length c) (drop (col_old_offset c) old)"
    from Cons.prems(4) False have c: "col_old_index c < FieldNum od" "col_length c = fd_Length nd k" "col_old_offset c + col_length c \<le> length old" by force+
    have v: "length v = fd_Length nd k" using c(2,3) by (simp add: v_def)
    define buf1 where "buf1 = blit buf (fd_Offset nd k) v"
    have b: "fd_Offset nd k + fd_Length nd k \<le> RowLen nd" by (rule in_order_bound [OF Cons.prems(1) k(2)])
    have l1: "length buf1 = RowLen nd" using b v Cons.prems(3) by (simp add: buf1_def length_blit)
    have fs: "Qbase_field_set nd buf k v = Ok (QBASE_E_OK, buf1)"
      using k(2) Cons.prems(1,3) b v by (simp add: Qbase_field_set_def in_order_def Let_def buf1_def)
    from Cons.IH [OF Cons.prems(1) k(1) l1 rest] obtain new where new: "copy_fields od nd old cs (Suc k) buf1 = Ok (Some new)"
      "length new = RowLen nd" "\<forall>j < n. column nd new j = (if Suc k \<le> j \<and> j < Suc k + length cs \<and> col_old_index (cs ! (j - Suc k)) \<noteq> 0
       then take (col_length (cs ! (j - Suc k))) (drop (col_old_offset (cs ! (j - Suc k))) old) else column nd buf1 j)" by blast
    have "column nd new j = (if k \<le> j \<and> j < k + length (c # cs) \<and> col_old_index ((c # cs) ! (j - k)) \<noteq> 0
       then take (col_length ((c # cs) ! (j - k))) (drop (col_old_offset ((c # cs) ! (j - k))) old) else column nd buf j)" if "j < n" for j
      using new(3) that False column_blit [OF Cons.prems(1) k(2) that Cons.prems(3) v, folded buf1_def]
      by (cases "k \<le> j") (auto simp: idx not_less_eq_eq v_def)
    moreover have "copy_fields od nd old (c # cs) k buf = Ok (Some new)" using False c(1,3) fs [unfolded v_def] new(1) by simp
    ultimately show ?thesis using new(2) by blast
  qed
qed auto

lemma type_length_le: "type_length ty len \<le> max 8 len"
  by (auto simp: type_length_def max_def)

lemma resolved_simps:
  "col_old_index (resolved od c) = col_old_index c"
  "col_old_index c = 0 \<Longrightarrow> resolved od c = c"
  "col_old_index c \<noteq> 0 \<Longrightarrow> col_type (resolved od c) = fd_Type od (col_old_index c) \<and> col_length (resolved od c) = fd_Length od (col_old_index c) \<and>
     col_old_offset (resolved od c) = fd_Offset od (col_old_index c)"
  by (auto simp: resolved_def)

lemma resolved_bounds:
  assumes "laid_out od" "column_ok od c"
  shows "col_type (resolved od c) < 4294967296 \<and> type_length (col_type (resolved od c)) (col_length (resolved od c)) \<le> 65536"
proof -
  have "fd_Type od i < 4294967296" for i using unsigned_less [of "get32 od (68 + 12 * i)"] by (simp add: fd_Type_def)
  with assms type_length_le [of "col_type c" "col_length c"] show ?thesis
    by (cases "col_old_index c = 0") (auto simp: resolved_simps column_ok_def laid_out_def QBASE_TYPE_LAST_EFFECTIVE_def)
qed

lemma new_table_columns:
  assumes "laid_out od" "\<forall>col \<in> set (new_cols c). column_ok od col" "new_cols c \<noteq> []" "length (new_cols c) < 10000" "length (qb_table c) \<le> 32"
  shows "\<exists>nd. new_table True (Some od) c = Ok (Some (nd, new_lengths nd 1 (map (resolved od) (new_cols c)))) \<and>
    in_order (Suc (length (new_cols c))) nd \<and> fd_Length nd 0 = 4 \<and>
    (\<forall>k < length (new_cols c). let col = resolved od (new_cols c ! k) in
       fd_Type nd (Suc k) = col_type col \<and> fd_Length nd (Suc k) = type_length (col_type col) (col_length col))"
proof -
  let ?cs = "map (resolved od) (new_cols c)"
  let ?ps = "map (\<lambda>c. (col_type c, col_length c)) ?cs"
  define n where "n = length (new_cols c)"
  from new_tbldesc_fits [of n "bytes_of (qb_table c)" "uint_of (rows_pp c)" "uint_of (lock_pages c)"] assms(4,5) obtain d0 where
    d0: "Qbase_new_tbldesc True n (uint_of (rows_pp c)) (uint_of (lock_pages c)) (bytes_of (qb_table c)) = Ok (Some d0)"
      "desc_fits (Suc n) 4 d0" "\<forall>j < Suc n. fd_Length d0 j = 4" by (auto simp: n_def)
  have f: "desc_fits (Suc n) 65536 d0" using d0(2) by (fastforce simp: desc_fits_def)
  have lim: "Suc n * 65536 < 4294967296" using assms(4) by (simp add: n_def)
  have b: "\<forall>c \<in> set ?cs. col_type c < 4294967296 \<and> type_length (col_type c) (col_length c) \<le> 65536"
    using resolved_bounds [OF assms(1)] assms(2) by auto
  then have bp: "\<forall>(ty, len) \<in> set ?ps. ty < 4294967296 \<and> type_length ty len \<le> 65536" by auto
  have len: "1 + length ?ps \<le> Suc n" "1 + length ?cs \<le> Suc n" "?ps \<noteq> []" using assms(3) by (simp_all add: n_def)
  from set_columns_fits [OF f lim _ len(1) bp len(3)] obtain nd where nd: "set_columns ?ps 1 d0 = Ok nd" "desc_fits (Suc n) 65536 nd"
    "RowLen nd = field_start nd (Suc n)" "\<forall>j < Suc n. fd_Offset nd j = field_start nd j"
    "\<forall>j. fd_Type nd j = (if 1 \<le> j \<and> j < 1 + length ?ps then fst (?ps ! (j - 1)) else fd_Type d0 j)"
    "\<forall>j. fd_Length nd j = (if 1 \<le> j \<and> j < 1 + length ?ps then (case ?ps ! (j - 1) of (ty, len) \<Rightarrow> type_length ty len) else fd_Length d0 j)" by auto
  have "set_metrics ?cs 1 d0 = Ok (Some nd)" using set_metrics_columns [OF f lim _ len(2) b] nd(1) by simp
  then have t: "new_table True (Some od) c = Ok (Some (nd, new_lengths nd 1 ?cs))"
    using d0(1) by (simp add: new_table_def resolve_columns_ok assms(1,2) n_def)
  have "in_order (Suc n) nd" using nd(2-4) by (simp add: in_order_def desc_fits_def)
  moreover have "fd_Length nd 0 = 4" using nd(6) d0(3) by simp
  moreover have "fd_Type nd (Suc k) = col_type (resolved od (new_cols c ! k)) \<and>
      fd_Length nd (Suc k) = type_length (col_type (resolved od (new_cols c ! k))) (col_length (resolved od (new_cols c ! k)))" if "k < n" for k
    using nd(5,6) that by (simp add: n_def)
  ultimately show ?thesis using t by (auto simp: n_def Let_def)
qed

text \<open>C8: The new table has the key and the columns of the script in their order, and every old row that is
  copied keeps its values: a column that was asked for as \<open>OLD i\<close> has the type and length of column \<open>i\<close>
  and the bytes it has in the old row, and every other column has its type and is zero.\<close>

theorem resized_rows_keep_columns:
  assumes "laid_out od" "\<forall>col \<in> set (new_cols c). column_ok od col" "new_cols c \<noteq> []" "length (new_cols c) < 10000"
    and "length (qb_table c) \<le> 32" "length row = RowLen od"
  shows "\<exists>nd cols new. new_table True (Some od) c = Ok (Some (nd, cols)) \<and> FieldNum nd = Suc (length (new_cols c)) \<and>
    copy_row od nd cols row = Ok (Some new) \<and> length new = RowLen nd \<and>
    (\<forall>k < length (new_cols c). let col = new_cols c ! k; i = col_old_index col in
       if i = 0 then fd_Type nd (Suc k) = col_type col \<and> column nd new (Suc k) = replicate (type_length (col_type col) (col_length col)) 0
       else fd_Type nd (Suc k) = fd_Type od i \<and> fd_Length nd (Suc k) = fd_Length od i \<and> column nd new (Suc k) = column od row i)"
proof -
  let ?n = "length (new_cols c)"
  from new_table_columns [OF assms(1-5)] obtain nd where nd: "new_table True (Some od) c = Ok (Some (nd, new_lengths nd 1 (map (resolved od) (new_cols c))))"
    "in_order (Suc ?n) nd" "\<forall>k < ?n. fd_Type nd (Suc k) = col_type (resolved od (new_cols c ! k)) \<and>
      fd_Length nd (Suc k) = type_length (col_type (resolved od (new_cols c ! k))) (col_length (resolved od (new_cols c ! k)))"
    by (auto simp: Let_def)
  define cols where "cols = new_lengths nd 1 (map (resolved od) (new_cols c))"
  have cols: "length cols = ?n" "\<And>j. j < ?n \<Longrightarrow> cols ! j = (resolved od (new_cols c ! j))\<lparr>col_length := fd_Length nd (Suc j)\<rparr>"
    by (simp_all add: cols_def new_lengths_nth)
  have ok: "column_ok od (new_cols c ! j)" if "j < ?n" for j using assms(2) that by simp
  have old: "fd_Type nd (Suc j) = fd_Type od i \<and> fd_Length nd (Suc j) = fd_Length od i \<and> fd_Offset od i + fd_Length od i \<le> RowLen od \<and> i < FieldNum od \<and>
      col_old_offset (cols ! j) = fd_Offset od i \<and> col_length (cols ! j) = fd_Length od i \<and> col_old_index (cols ! j) = i"
    if "j < ?n" "i = col_old_index (new_cols c ! j)" "i \<noteq> 0" for i j
    using nd(3) that ok [OF that(1)] assms(1) by (simp add: cols(2) resolved_simps column_ok_def laid_out_def)
  have idx: "col_old_index (cols ! j) = col_old_index (new_cols c ! j)" if "j < ?n" for j using that by (simp add: cols(2) resolved_simps)
  have "\<forall>j < length cols. col_old_index (cols ! j) \<noteq> 0 \<longrightarrow> col_old_index (cols ! j) < FieldNum od \<and> col_length (cols ! j) = fd_Length nd (1 + j) \<and>
      col_old_offset (cols ! j) + col_length (cols ! j) \<le> length row"
    using old idx by (auto simp: cols(1) assms(6))
  from copy_fields_columns [OF nd(2) _ _ this, of "replicate (RowLen nd) 0"] cols(1) obtain new where
    new: "copy_row od nd cols row = Ok (Some new)" "length new = RowLen nd"
      "\<forall>j < Suc ?n. column nd new j = (if 1 \<le> j \<and> j < 1 + ?n \<and> col_old_index (cols ! (j - 1)) \<noteq> 0
       then take (col_length (cols ! (j - 1))) (drop (col_old_offset (cols ! (j - 1))) row) else column nd (replicate (RowLen nd) 0) j)"
    by (auto simp: copy_row_def)
  have z: "column nd (replicate (RowLen nd) 0) (Suc k) = replicate (fd_Length nd (Suc k)) 0" if "k < ?n" for k
    using in_order_bound [OF nd(2), of "Suc k"] that by (simp add: column_def)
  have "if col_old_index (new_cols c ! k) = 0
      then fd_Type nd (Suc k) = col_type (new_cols c ! k) \<and> column nd new (Suc k) = replicate (type_length (col_type (new_cols c ! k)) (col_length (new_cols c ! k))) 0
      else fd_Type nd (Suc k) = fd_Type od (col_old_index (new_cols c ! k)) \<and> fd_Length nd (Suc k) = fd_Length od (col_old_index (new_cols c ! k)) \<and>
        column nd new (Suc k) = column od row (col_old_index (new_cols c ! k))" if "k < ?n" for k
  proof (cases "col_old_index (new_cols c ! k) = 0")
    case True
    with new(3) that idx [OF that] have "column nd new (Suc k) = replicate (fd_Length nd (Suc k)) 0" by (simp add: z)
    with nd(3) that True show ?thesis by (simp add: resolved_simps)
  next
    case False
    with old [OF that refl] new(3) [rule_format, of "Suc k"] that
    have "column nd new (Suc k) = column od row (col_old_index (new_cols c ! k))" by (simp add: column_def [of od])
    with old [OF that refl False] False show ?thesis by simp
  qed
  moreover have "FieldNum nd = Suc ?n" using nd(2) by (simp add: in_order_def)
  ultimately show ?thesis using nd(1) new(1,2) by (simp only: Let_def flip: cols_def) blast
qed

lemma laid_out_demo: "laid_out demo_desc"
  by (simp add: laid_out_def type_length_def qbase_type_defs numeral_2_eq_2 All_less_Suc)

definition a_script :: resize_conf where
  "a_script = \<lparr>qb_root = Some ''/db'', qb_device = Some ''/dev/qxbase'', qb_table = ''t'', recreateonly = False,
     new_cols = [blank_col\<lparr>col_type := QBASE_TYPE_UINT\<rparr>, blank_col\<lparr>col_old_index := 1, col_type := 8\<rparr>], rows_pp = 2, lock_pages = 3\<rparr>"

theorem resized_rows_keep_columns_witness:
  "\<exists>nd cols new. new_table True (Some demo_desc) a_script = Ok (Some (nd, cols)) \<and>
     copy_row demo_desc nd cols [1, 0, 0, 0, 7, 9] = Ok (Some new) \<and> column nd new 1 = [0, 0, 0, 0] \<and> column nd new 2 = [7, 9]"
proof -
  have ok: "\<forall>col \<in> set (new_cols a_script). column_ok demo_desc col"
    by (simp add: a_script_def blank_col_def column_ok_def QBASE_TYPE_LAST_EFFECTIVE_def QBASE_TYPE_UINT_def)
  have old: "column demo_desc [1, 0, 0, 0, 7, 9] (Suc 0) = [7, 9]" by (simp add: column_def)
  from resized_rows_keep_columns [OF laid_out_demo ok, of "[1, 0, 0, 0, 7, 9]"] obtain nd cols new where
    "new_table True (Some demo_desc) a_script = Ok (Some (nd, cols))" "copy_row demo_desc nd cols [1, 0, 0, 0, 7, 9] = Ok (Some new)"
    "column nd new (Suc 0) = [0, 0, 0, 0]" "column nd new (Suc (Suc 0)) = [7, 9]"
    by (auto simp: a_script_def blank_col_def old type_length_def qbase_type_defs All_less_Suc numeral_eq_Suc Let_def)
  then show ?thesis by (auto simp: numeral_2_eq_2)
qed

definition a_script_file :: string where
  "a_script_file = ''TABLE t'' @ [LF]"

lemma read_a_script: "read_script (\<lambda>_. a_script) (Some a_script_file) [] = Inr a_script"
proof -
  obtain cf where cf: "GetConf_open (Some a_script_file) [] = Some cf" "ConfFile cf = ''TABLE t'' @ LF # []" "length (ConfString cf) = 4096"
    by (simp add: GetConf_open_def a_script_file_def)
  have t: "line_tokens ''TABLE t'' = [''TABLE'', ''t'']" by code_simp
  from read_directive [OF cf(2) _ _ t] cf(3) obtain cf1 cf2 where 1: "GetConf_string cf = (Token ''TABLE'', cf1)"
    "GetConf_token cf1 = (Token ''t'', cf2)" "ConfFile cf2 = []" "length (ConfString cf2) = 4096"
    by (auto simp: clean_def NUL_def LF_def)
  from GetConf_string_end [OF 1(3,4)] have "script_lines b cf2 x = Inr x" for b x by (subst script_lines.simps) simp
  moreover have "script_line (\<lambda>_. a_script) ''TABLE'' cf1 resize_defaults = Inr (a_script, cf2)"
    by (simp add: script_line_def str_ieq_def char_upper_def with_arg_def 1)
  ultimately have "script_lines (\<lambda>_. a_script) cf resize_defaults = Inr a_script" using 1(1) by (subst script_lines.simps) simp
  with cf(1) show ?thesis by (simp add: read_script_def options_given_def a_script_def)
qed

definition a_resize_env :: resize_env where
  "a_resize_env = \<lparr>rz_ok = \<lambda>cs c. True, rz_mem = True, caps_desc = demo_desc, old_rows = [], fetch_end = QBASE_E_LASTROW\<rparr>"

theorem resize_moves_or_loses_rows_witness:
  "\<exists>r cs fs'. resize_main a_resize_env (\<lambda>_. a_script) (Some a_script_file) []
       [table_file ''t'' ''qdbd'' \<mapsto> [1], table_file ''tmp_tbl'' ''qdbd'' \<mapsto> [2]] = (r, cs, fs') \<and>
     fs' (table_file ''t'' ''qdbd'') = None \<and> fs' (table_file ''tmp_tbl'' ''qdbd'') = Some [2]"
proof -
  let ?fs = "[table_file ''t'' ''qdbd'' \<mapsto> [1], table_file ''tmp_tbl'' ''qdbd'' \<mapsto> [2 :: byte]]"
  obtain r cs fs' where m: "resize_main a_resize_env (\<lambda>_. a_script) (Some a_script_file) [] ?fs = (r, cs, fs')" by (metis prod_cases3)
  have "table_file ''t'' ''qdbd'' \<noteq> table_file ''tmp_tbl'' ''qdbd''" by (simp add: table_file_eq)
  with resize_moves_or_loses_rows [OF read_a_script _ _ _ _ m, of "[1]"] m show ?thesis
    by (auto simp: a_script_def a_resize_env_def tmp_tab_name_def)
qed

text \<open>The number of columns, which is one more than the last index, passes the comparison.\<close>

lemma old_index_past_end:
  assumes "length od = 68 + 12 * FieldNum od" "col_type c = QBASE_TYPE_LAST_EFFECTIVE + 1" "col_old_index c = FieldNum od" "0 < FieldNum od"
  shows "resolve_columns od (c # cs) = Crash OutOfBounds"
  using assms by (simp add: Let_def)

end
