(* ===== verification/DnsNames.thy ===== *)
theory DnsNames
  imports QBaseTypes
begin

text \<open>
  The name functions of \<open>QX-dns/master.c\<close>: \<open>rcpy_string\<close> turns a dotted name into
  labels, \<open>rcmp_names\<close> compares the name of a query with a stored one, \<open>rprt_name\<close>
  prints a stored name into a packet. A stored name that ends in the byte \<open>0xC0\<close> goes on with
  the name of its zone. The two loops that may run forever are partial functions: no value means
  that the thread does not return. An access outside the buffers has the result \<open>Crash\<close>.
\<close>

section \<open>Results of code that may not return\<close>

type_synonym 'a run = "'a outcome option"

definition bindr :: "'a run \<Rightarrow> ('a \<Rightarrow> 'b run) \<Rightarrow> 'b run" where
  "bindr m f = (case m of None \<Rightarrow> None | Some (Crash c) \<Rightarrow> Some (Crash c) | Some (Ok x) \<Rightarrow> f x)"

lemma bindr_simps [simp]:
  "bindr None f = None" "bindr (Some (Crash c)) f = Some (Crash c)" "bindr (Some (Ok x)) f = f x"
  by (simp_all add: bindr_def)

lemma bindr_Ok_iff: "bindr m f = Some (Ok y) \<longleftrightarrow> (\<exists>x. m = Some (Ok x) \<and> f x = Some (Ok y))"
  by (auto simp: bindr_def split: option.split outcome.split)

section \<open>Names as labels\<close>

abbreviation DOT :: byte where "DOT \<equiv> 46"
abbreviation ZONE :: byte where "ZONE \<equiv> 0xC0"

text \<open>The loop over the copied text; \<open>i\<close> is the place of the length of the current label.\<close>

function rcpy_loop :: "bytes \<Rightarrow> nat \<Rightarrow> nat \<Rightarrow> bytes \<times> nat \<times> nat" where
  "rcpy_loop dst i j =
     (if j < length dst \<and> dst ! j \<noteq> 0 then
        if dst ! j = DOT then rcpy_loop (dst[i := word_of_nat (j - i - 1)]) j (Suc j)
        else rcpy_loop dst i (Suc j)
      else (dst, i, j))"
  by pat_completeness auto
termination by (relation "measure (\<lambda>(dst, i, j). length dst - j)") auto

declare rcpy_loop.simps [simp del]

text \<open>\<open>src\<close> is the text of the name without its terminator.\<close>

definition rcpy_string :: "bytes \<Rightarrow> bytes" where
  "rcpy_string src =
     (let (dst, i, j) = rcpy_loop (0 # src @ [0]) 0 1;
          n = (word_of_nat (j - i - 1) :: byte)
      in dst[i := if n = 0 then ZONE else n])"

definition encode_labels :: "bytes list \<Rightarrow> bytes" where
  "encode_labels ls = concat (map (\<lambda>l. word_of_nat (length l) # l) ls)"

definition dotted :: "bytes list \<Rightarrow> bytes" where
  "dotted ls = concat (map (\<lambda>l. l @ [DOT]) ls)"

definition label_ok :: "bytes \<Rightarrow> bool" where
  "label_ok l \<longleftrightarrow> l \<noteq> [] \<and> length l < 256 \<and> 0 \<notin> set l \<and> DOT \<notin> set l"

text \<open>The loop over one label.\<close>

lemma rcpy_label:
  assumes "0 \<notin> set l" "DOT \<notin> set l" "length pre = j"
  shows "rcpy_loop (pre @ l @ post) i j = rcpy_loop (pre @ l @ post) i (j + length l)"
  using assms
proof (induction l arbitrary: pre j)
  case Nil
  then show ?case by simp
next
  case (Cons b l)
  have "rcpy_loop (pre @ (b # l) @ post) i j = rcpy_loop ((pre @ [b]) @ l @ post) i (Suc j)"
    using Cons.prems by (subst rcpy_loop.simps) (auto simp: nth_append)
  also have "\<dots> = rcpy_loop ((pre @ [b]) @ l @ post) i (Suc j + length l)"
    by (rule Cons.IH) (use Cons.prems in auto)
  finally show ?case by simp
qed

lemma rcpy_dotted:
  assumes "\<forall>l \<in> set ls. label_ok l" "0 \<notin> set l" "DOT \<notin> set l"
  shows "rcpy_loop (pre @ b # dotted ls @ l @ [0]) (length pre) (length pre + 1) =
    (pre @ encode_labels ls @ (if ls = [] then b else DOT) # l @ [0], length pre + length (encode_labels ls),
     length pre + length (encode_labels ls) + 1 + length l)"
  using assms(1)
proof (induction ls arbitrary: pre b)
  case Nil
  have "rcpy_loop ((pre @ [b]) @ l @ [0]) (length pre) (length pre + 1) =
      rcpy_loop ((pre @ [b]) @ l @ [0]) (length pre) (length pre + 1 + length l)"
    by (rule rcpy_label) (use assms in auto)
  also have "\<dots> = ((pre @ [b]) @ l @ [0], length pre, length pre + 1 + length l)"
    by (subst rcpy_loop.simps) (simp add: nth_append)
  finally show ?case by (simp add: dotted_def encode_labels_def)
next
  case (Cons k ks)
  let ?n = "word_of_nat (length k) :: byte"
  have k: "0 \<notin> set k" "DOT \<notin> set k" using Cons.prems by (auto simp: label_ok_def)
  have "rcpy_loop (pre @ b # dotted (k # ks) @ l @ [0]) (length pre) (length pre + 1) =
      rcpy_loop ((pre @ [b]) @ k @ DOT # dotted ks @ l @ [0]) (length pre) (length pre + 1)"
    by (simp add: dotted_def)
  also have "\<dots> = rcpy_loop ((pre @ [b]) @ k @ DOT # dotted ks @ l @ [0]) (length pre) (length pre + 1 + length k)"
    by (rule rcpy_label [OF k]) simp
  also have "\<dots> = rcpy_loop ((pre @ ?n # k) @ DOT # dotted ks @ l @ [0]) (length (pre @ ?n # k)) (length (pre @ ?n # k) + 1)"
    by (subst rcpy_loop.simps) (simp add: nth_append list_update_append)
  also have "\<dots> = ((pre @ ?n # k) @ encode_labels ks @ (if ks = [] then DOT else DOT) # l @ [0],
      length (pre @ ?n # k) + length (encode_labels ks), length (pre @ ?n # k) + length (encode_labels ks) + 1 + length l)"
    by (rule Cons.IH) (use Cons.prems in simp)
  finally show ?case by (simp add: encode_labels_def)
qed

lemma rcpy_string_encodes:
  assumes "\<forall>l \<in> set (ls @ [l]). label_ok l"
  shows "rcpy_string (dotted ls @ l) = encode_labels (ls @ [l]) @ [0] \<and>
    rcpy_string (dotted (ls @ [l])) = encode_labels (ls @ [l]) @ [ZONE, 0]"
proof -
  have l: "label_ok l" and ls: "\<forall>l \<in> set ls. label_ok l" using assms by auto
  have n: "(word_of_nat (length l) :: byte) \<noteq> 0"
    using l unat_byte_of_nat [of "length l"] by (force simp: label_ok_def)
  have "rcpy_loop (0 # (dotted ls @ l) @ [0]) 0 1 = (encode_labels ls @ (if ls = [] then 0 else DOT) # l @ [0],
      length (encode_labels ls), length (encode_labels ls) + 1 + length l)"
    using rcpy_dotted [OF ls, of l "[]" 0] l by (simp add: label_ok_def)
  moreover have "rcpy_loop (0 # dotted (ls @ [l]) @ [0]) 0 1 = (encode_labels (ls @ [l]) @ [DOT, 0],
      length (encode_labels (ls @ [l])), length (encode_labels (ls @ [l])) + 1)"
    using rcpy_dotted [OF assms, of "[]" "[]" 0] by simp
  ultimately show ?thesis using n
    by (simp add: rcpy_string_def list_update_append encode_labels_def)
qed

text \<open>A name of non-empty labels is stored as those labels, each behind its length, and a
  final zero; a name that ends in a dot is stored as its labels and the mark that the name of
  the zone follows.\<close>

theorem rcpy_string_encodes_labels:
  assumes "\<forall>l \<in> set (ls @ [l]). label_ok l"
  shows "rcpy_string (dotted ls @ l) = encode_labels (ls @ [l]) @ [0] \<and>
    rcpy_string (dotted (ls @ [l])) = encode_labels (ls @ [l]) @ [ZONE, 0]"
  by (rule rcpy_string_encodes [OF assms])

theorem rcpy_string_encodes_labels_witness:
  "rcpy_string (bytes_of ''ab.c'') = [2, 97, 98, 1, 99, 0] \<and> rcpy_string (bytes_of ''ab.c.'') = [2, 97, 98, 1, 99, ZONE, 0]"
proof -
  have "\<forall>l \<in> set ([[97, 98]] @ [[99]]). label_ok l" by (simp add: label_ok_def)
  from rcpy_string_encodes_labels [OF this] show ?thesis
    by (simp add: dotted_def encode_labels_def bytes_of_def)
qed

section \<open>Comparing names\<close>

text \<open>\<open>c\<close> is the string that is being compared, the stored name or the name of the zone;
  \<open>zp\<close> is \<open>*zone_ptr\<close>.\<close>

partial_function (option) rcmp_loop :: "bytes \<Rightarrow> bytes \<Rightarrow> bytes \<Rightarrow> nat \<Rightarrow> nat \<Rightarrow> nat \<Rightarrow> (bool \<times> nat) run" where
  "rcmp_loop q z c qi ni zp =
     (if length q \<le> qi \<or> length c \<le> ni then Some (Crash OutOfBounds)
      else if c_toupper (q ! qi) \<noteq> c_toupper (c ! ni) then
        if c ! ni = ZONE then rcmp_loop q z z qi 0 (qi + 12) else Some (Ok (False, zp))
      else if q ! qi = 0 then Some (Ok (True, zp))
      else rcmp_loop q z c (qi + 1) (ni + 1) zp)"

definition rcmp_names :: "bytes \<Rightarrow> bytes \<Rightarrow> bytes \<Rightarrow> (bool \<times> nat) run" where
  "rcmp_names q name z = rcmp_loop q z name 0 0 0"

definition upper :: "bytes \<Rightarrow> bytes" where
  "upper = map c_toupper"

lemma c_toupper_zero [simp]: "c_toupper b = 0 \<longleftrightarrow> b = 0"
  by (auto simp: c_toupper_def)

lemma c_toupper_0 [simp]: "c_toupper 0 = 0"
  by simp

lemma c_toupper_ZONE: "c_toupper b = ZONE \<longleftrightarrow> b = ZONE"
proof
  assume e: "c_toupper b = ZONE"
  show "b = ZONE"
  proof (cases "97 \<le> b \<and> b \<le> 122")
    case True
    with e have "b - 32 = ZONE" by (simp add: c_toupper_def)
    then have "b = 224" by (simp add: diff_eq_eq)
    with True show ?thesis by simp
  next
    case False
    then have "c_toupper b = b" unfolding c_toupper_def by (simp only: if_False)
    with e show ?thesis by simp
  qed
qed (simp add: c_toupper_def)

text \<open>A string without the mark, compared to its end.\<close>

lemma rcmp_plain:
  assumes "0 \<notin> set qs" "0 \<notin> set cs" "ZONE \<notin> set cs"
  shows "rcmp_loop (qp @ qs @ 0 # qr) z (cp @ cs @ 0 # cr) (length qp) (length cp) zp =
    Some (Ok (upper qs = upper cs, zp))"
  using assms
proof (induction cs arbitrary: qs qp cp)
  case Nil
  then show ?case
    by (subst rcmp_loop.simps, cases qs) (auto simp: nth_append upper_def)
next
  case (Cons c cs)
  show ?case
  proof (cases qs)
    case Nil
    then show ?thesis using Cons.prems by (subst rcmp_loop.simps) (auto simp: nth_append upper_def)
  next
    case q: (Cons b bs)
    show ?thesis
    proof (cases "c_toupper b = c_toupper c")
      case False
      then show ?thesis using Cons.prems q by (subst rcmp_loop.simps) (auto simp: nth_append upper_def)
    next
      case True
      have "rcmp_loop (qp @ qs @ 0 # qr) z (cp @ (c # cs) @ 0 # cr) (length qp) (length cp) zp =
          rcmp_loop ((qp @ [b]) @ bs @ 0 # qr) z ((cp @ [c]) @ cs @ 0 # cr) (length (qp @ [b])) (length (cp @ [c])) zp"
        using True Cons.prems q by (subst rcmp_loop.simps) (auto simp: nth_append)
      also have "\<dots> = Some (Ok (upper bs = upper cs, zp))"
        by (rule Cons.IH) (use Cons.prems q in auto)
      finally show ?thesis using True q by (simp add: upper_def)
    qed
  qed
qed

text \<open>A string with the mark, and the name of the zone behind it.\<close>

lemma rcmp_zone:
  assumes "0 \<notin> set qs" "ZONE \<notin> set qs" "0 \<notin> set cs" "ZONE \<notin> set cs" "0 \<notin> set zs" "ZONE \<notin> set zs"
  shows "rcmp_loop (qp @ qs @ 0 # qr) (zs @ 0 # zr) (cp @ cs @ ZONE # cr) (length qp) (length cp) zp =
    Some (Ok (upper qs = upper (cs @ zs),
      if upper (take (length cs) qs) = upper cs then length qp + length cs + 12 else zp))"
  using assms
proof (induction cs arbitrary: qs qp cp)
  case Nil
  have "c_toupper ((qp @ qs @ 0 # qr) ! length qp) \<noteq> ZONE"
    using Nil.prems by (cases qs) (auto simp: nth_append c_toupper_ZONE c_toupper_def)
  then have "rcmp_loop (qp @ qs @ 0 # qr) (zs @ 0 # zr) (cp @ [] @ ZONE # cr) (length qp) (length cp) zp =
      rcmp_loop (qp @ qs @ 0 # qr) (zs @ 0 # zr) ([] @ zs @ 0 # zr) (length qp) (length ([] :: bytes)) (length qp + 12)"
    by (subst rcmp_loop.simps) (simp add: nth_append c_toupper_ZONE [THEN iffD2])
  also have "\<dots> = Some (Ok (upper qs = upper zs, length qp + 12))"
    by (rule rcmp_plain) (use Nil.prems in auto)
  finally show ?case by (simp add: upper_def)
next
  case (Cons c cs)
  show ?case
  proof (cases qs)
    case Nil
    then show ?thesis using Cons.prems by (subst rcmp_loop.simps) (auto simp: nth_append upper_def)
  next
    case q: (Cons b bs)
    show ?thesis
    proof (cases "c_toupper b = c_toupper c")
      case False
      then show ?thesis using Cons.prems q by (subst rcmp_loop.simps) (auto simp: nth_append upper_def)
    next
      case True
      have "rcmp_loop (qp @ qs @ 0 # qr) (zs @ 0 # zr) (cp @ (c # cs) @ ZONE # cr) (length qp) (length cp) zp =
          rcmp_loop ((qp @ [b]) @ bs @ 0 # qr) (zs @ 0 # zr) ((cp @ [c]) @ cs @ ZONE # cr) (length (qp @ [b])) (length (cp @ [c])) zp"
        using True Cons.prems q by (subst rcmp_loop.simps) (auto simp: nth_append)
      also have "\<dots> = Some (Ok (upper bs = upper (cs @ zs),
          if upper (take (length cs) bs) = upper cs then length (qp @ [b]) + length cs + 12 else zp))"
        by (rule Cons.IH) (use Cons.prems q in auto)
      finally show ?thesis using True q by (simp add: upper_def)
    qed
  qed
qed

text \<open>When neither the query nor the stored name nor the name of the zone has the mark
  inside, the comparison returns, without leaving any buffer, and says whether the query is the full
  stored name (the name, or the name followed by that of its zone) up to the case of letters; the
  pointer is the place of the zone's name in the packet.\<close>

theorem rcmp_names_correct:
  assumes "0 \<notin> set qs" "ZONE \<notin> set qs" "0 \<notin> set cs" "ZONE \<notin> set cs" "0 \<notin> set zs" "ZONE \<notin> set zs"
  shows "rcmp_names (qs @ 0 # qr) (cs @ 0 # cr) z = Some (Ok (upper qs = upper cs, 0)) \<and>
    rcmp_names (qs @ 0 # qr) (cs @ ZONE # cr) (zs @ 0 # zr) = Some (Ok (upper qs = upper (cs @ zs),
      if upper (take (length cs) qs) = upper cs then length cs + 12 else 0))"
  using rcmp_plain [of qs cs "[]" qr z "[]" cr 0] rcmp_zone [of qs cs zs "[]" qr zr "[]" cr 0] assms
  by (simp add: rcmp_names_def)

theorem rcmp_names_correct_witness:
  "rcmp_names [3, 81, 110, 120, 1, 99, 0, 1] [3, 113, 110, 120, ZONE, 0] [1, 67, 0] = Some (Ok (True, 16))"
  using rcmp_names_correct [where qs = "[3, 81, 110, 120, 1, 99]" and cs = "[3, 113, 110, 120]" and zs = "[1, 67]"
    and qr = "[1]" and cr = "[0]" and zr = "[]"]
  by (simp add: upper_def c_toupper_def)

section \<open>Printing names\<close>

text \<open>The name is printed into \<open>pkt\<close> from \<open>off\<close> on, at most \<open>len\<close> bytes; the result is the
  packet, the offset behind the name unless the name was cut off, and \<open>*zone_ptr\<close>.\<close>

definition pkt_size :: nat where "pkt_size = 512"

partial_function (option) rprt_loop ::
    "bytes \<Rightarrow> nat \<Rightarrow> bytes \<Rightarrow> bytes \<Rightarrow> nat \<Rightarrow> int \<Rightarrow> nat \<Rightarrow> nat \<Rightarrow> (bytes \<times> nat option \<times> nat) run" where
  "rprt_loop pkt off z c zp len lst i =
     (if int lst < len then
        if length pkt \<le> off + lst \<or> length c \<le> i then Some (Crash OutOfBounds)
        else
          let b = c ! i; pkt = pkt[off + lst := b] in
          if b = 0 then Some (Ok (pkt, Some (off + lst + 1), zp))
          else if b = ZONE then
            if zp \<noteq> 0 then
              if length pkt \<le> off + lst + 1 then Some (Crash OutOfBounds)
              else Some (Ok (put16 pkt (off + lst) (swap16 (0xC000 OR word_of_nat zp)), Some (off + lst + 2), zp))
            else rprt_loop pkt off z z lst len lst 0
          else rprt_loop pkt off z c zp len (lst + 1) (i + 1)
      else Some (Ok (pkt, None, zp)))"

definition rprt_name :: "bytes \<Rightarrow> nat \<Rightarrow> bytes \<Rightarrow> bytes \<Rightarrow> nat \<Rightarrow> int \<Rightarrow> (bytes \<times> nat option \<times> nat) run" where
  "rprt_name pkt off name z zp len = rprt_loop pkt off z name zp len 0 0"

lemma rprt_plain:
  assumes "0 \<notin> set cs" "ZONE \<notin> set cs" "off + lst + length cs < length pkt" "int (lst + length cs) < len"
    and "length cp = i"
  shows "rprt_loop pkt off z (cp @ cs @ 0 # cr) zp len lst i =
    Some (Ok (blit pkt (off + lst) (cs @ [0]), Some (off + lst + length cs + 1), zp))"
  using assms
proof (induction cs arbitrary: pkt lst cp i)
  case Nil
  then show ?case
    by (subst rprt_loop.simps) (auto simp: nth_append Let_def blit_def upd_conv_take_nth_drop)
next
  case (Cons c cs)
  have "rprt_loop pkt off z (cp @ (c # cs) @ 0 # cr) zp len lst i =
      rprt_loop (pkt[off + lst := c]) off z ((cp @ [c]) @ cs @ 0 # cr) zp len (lst + 1) (i + 1)"
    using Cons.prems by (subst rprt_loop.simps) (auto simp: nth_append Let_def)
  also have "\<dots> = Some (Ok (blit (pkt[off + lst := c]) (off + (lst + 1)) (cs @ [0]),
      Some (off + (lst + 1) + length cs + 1), zp))"
    by (rule Cons.IH) (use Cons.prems in auto)
  also have "blit (pkt[off + lst := c]) (off + (lst + 1)) (cs @ [0]) = blit pkt (off + lst) ((c # cs) @ [0])"
    using Cons.prems by (simp add: blit_def upd_conv_take_nth_drop take_Suc_conv_app_nth ac_simps)
  finally show ?case by simp
qed

end
