(* ===== verification/DnsMaster.thy ===== *)
theory DnsMaster
  imports DnsNames
begin

text \<open>
  The master database of \<open>QX-dns/master.c\<close>: zones with hosts, in the order of their lists, and
  \<open>qxdns_master_lookup\<close>, which answers a query in its own buffer. Constants are in the byte
  order of the packet, as the 16-bit values that the little-endian machine reads.
\<close>

section \<open>Packets\<close>

definition DNS_OPT_QR :: u16 where "DNS_OPT_QR = 0x0080"
definition DNS_OPT_AA :: u16 where "DNS_OPT_AA = 0x0004"
definition DNS_OPT_TC :: u16 where "DNS_OPT_TC = 0x0002"
definition DNS_OPT_RCODE_MASK :: u16 where "DNS_OPT_RCODE_MASK = 0x0F00"
definition DNS_OPT_RCODE_OK :: u16 where "DNS_OPT_RCODE_OK = 0"
definition DNS_OPT_RCODE_FE :: u16 where "DNS_OPT_RCODE_FE = 0x0100"
definition DNS_OPT_RCODE_SF :: u16 where "DNS_OPT_RCODE_SF = 0x0200"
definition DNS_OPT_RCODE_NE :: u16 where "DNS_OPT_RCODE_NE = 0x0300"
definition DNS_T_A :: u16 where "DNS_T_A = 0x0100"
definition DNS_T_CNAME :: u16 where "DNS_T_CNAME = 0x0500"
definition DNS_T_PTR :: u16 where "DNS_T_PTR = 0x0C00"
definition DNS_C_IN :: u16 where "DNS_C_IN = 0x0100"

lemmas dns_consts = DNS_OPT_QR_def DNS_OPT_AA_def DNS_OPT_TC_def DNS_OPT_RCODE_MASK_def
  DNS_OPT_RCODE_OK_def DNS_OPT_RCODE_FE_def DNS_OPT_RCODE_SF_def DNS_OPT_RCODE_NE_def
  DNS_T_A_def DNS_T_CNAME_def DNS_T_PTR_def DNS_C_IN_def

text \<open>\<open>dns_buffer_t\<close>. The pointers to connectors are their numbers in the list of all
  connectors; addresses of sockets are opaque numbers.\<close>

record dns_buffer =
  b_from :: nat
  qclient :: "nat option"
  qserver :: "nat option"
  ref_ID :: u16
  src_ID :: u16
  rcvtime :: nat
  b_next :: "nat option"
  b_prev :: "nat option"
  datalen :: nat
  pkt :: bytes

abbreviation dns_ID :: "bytes \<Rightarrow> u16" where "dns_ID p \<equiv> get16 p 0"
abbreviation dns_OPT :: "bytes \<Rightarrow> u16" where "dns_OPT p \<equiv> get16 p 2"
abbreviation dns_QDCOUNT :: "bytes \<Rightarrow> u16" where "dns_QDCOUNT p \<equiv> get16 p 4"

definition or_OPT :: "bytes \<Rightarrow> u16 \<Rightarrow> bytes" where
  "or_OPT p m = put16 p 2 (dns_OPT p OR m)"

section \<open>Zones and hosts\<close>

record mr_inaddr =
  ia_ans :: bytes
  ia_arpa :: bytes

record qxdns_mr =
  mx_pref :: u16
  mr_ttl :: u32
  aliases :: "bytes list"
  inaddrs :: "mr_inaddr list"
  cname :: bytes

text \<open>The lists of name servers and mail servers hold hosts of the zone, by their number from
  the end of \<open>hosts\<close>, where new hosts do not move it.\<close>

record qxdns_mz =
  zone_NS :: "nat list"
  zone_MX :: "nat list"
  hosts :: "qxdns_mr list"
  zone_name :: bytes

definition qxdns_new_mz :: "bytes \<Rightarrow> qxdns_mz list \<Rightarrow> qxdns_mz list" where
  "qxdns_new_mz name root =
     \<lparr>zone_NS = [], zone_MX = [], hosts = [], zone_name = rcpy_string name\<rparr> # root"

definition qxdns_new_mr :: "bytes \<Rightarrow> u32 \<Rightarrow> qxdns_mr" where
  "qxdns_new_mr nm ttl =
     \<lparr>mx_pref = 0, mr_ttl = swap32 ttl, aliases = [], inaddrs = [], cname = rcpy_string nm\<rparr>"

definition qxdns_add_mr_alias :: "qxdns_mr \<Rightarrow> bytes \<Rightarrow> qxdns_mr" where
  "qxdns_add_mr_alias host al = host\<lparr>aliases := rcpy_string al # aliases host\<rparr>"

text \<open>\<open>inet_ntoa\<close> of the address whose bytes, in memory order, are given.\<close>

definition dec_byte :: "byte \<Rightarrow> bytes" where
  "dec_byte b = (let n = unat b; d = (\<lambda>k. word_of_nat (48 + k)) in
     if n < 10 then [d n] else if n < 100 then [d (n div 10), d (n mod 10)]
     else [d (n div 100), d (n div 10 mod 10), d (n mod 10)])"

definition inet_ntoa :: "u32 \<Rightarrow> bytes" where
  "inet_ntoa a = (let m = put32 (replicate 4 0) 0 a in
     dec_byte (m ! 0) @ [DOT] @ dec_byte (m ! 1) @ [DOT] @ dec_byte (m ! 2) @ [DOT] @ dec_byte (m ! 3))"

definition sizeof_ans_a :: nat where "sizeof_ans_a = 16"

definition qxdns_add_mr_addr :: "qxdns_mr \<Rightarrow> u32 \<Rightarrow> qxdns_mr" where
  "qxdns_add_mr_addr host addr =
     (let a = replicate sizeof_ans_a 0;
          a = put32 a 12 addr; a = put16 a 10 (swap16 4); a = put32 a 6 (mr_ttl host);
          a = put16 a 4 DNS_C_IN; a = put16 a 2 DNS_T_A; a = put16 a 0 0x0CC0
      in host\<lparr>inaddrs := \<lparr>ia_ans = a,
           ia_arpa = rcpy_string (take 31 (inet_ntoa (swap32 addr) @ bytes_of ''.IN-ADDR.ARPA''))\<rparr> # inaddrs host\<rparr>)"

definition qxdns_add_mr :: "qxdns_mz \<Rightarrow> qxdns_mr \<Rightarrow> int \<Rightarrow> u16 \<Rightarrow> qxdns_mz" where
  "qxdns_add_mr zone host ns pref =
     (let k = length (hosts zone);
          host = (if pref \<noteq> 0 then host\<lparr>mx_pref := swap16 pref\<rparr> else host)
      in zone\<lparr>hosts := host # hosts zone,
              zone_MX := (if pref \<noteq> 0 then k # zone_MX zone else zone_MX zone),
              zone_NS := (if ns \<noteq> 0 then k # zone_NS zone else zone_NS zone)\<rparr>)"

section \<open>Looking for a host\<close>

text \<open>The first of some names that matches the query, with the place of the zone's name.\<close>

fun find_name :: "bytes \<Rightarrow> bytes \<Rightarrow> bytes list \<Rightarrow> nat option run" where
  "find_name q z [] = Some (Ok None)"
| "find_name q z (n # ns) =
     bindr (rcmp_names q n z) (\<lambda>(b, zp). if b then Some (Ok (Some zp)) else find_name q z ns)"

text \<open>\<open>DNS_T_A\<close>: the canonical name first, then the aliases. The flag says that an alias
  matched.\<close>

fun find_host_A :: "bytes \<Rightarrow> bytes \<Rightarrow> qxdns_mr list \<Rightarrow> (qxdns_mr \<times> bool \<times> nat) option run" where
  "find_host_A q z [] = Some (Ok None)"
| "find_host_A q z (h # hs) =
     bindr (rcmp_names q (cname h) z) (\<lambda>(b, zp).
       if b then Some (Ok (Some (h, False, zp)))
       else bindr (find_name q z (aliases h)) (\<lambda>r.
         case r of Some zp \<Rightarrow> Some (Ok (Some (h, True, zp))) | None \<Rightarrow> find_host_A q z hs))"

fun find_host_PTR :: "bytes \<Rightarrow> bytes \<Rightarrow> qxdns_mr list \<Rightarrow> (qxdns_mr \<times> nat) option run" where
  "find_host_PTR q z [] = Some (Ok None)"
| "find_host_PTR q z (h # hs) =
     bindr (find_name q z (map ia_arpa (inaddrs h))) (\<lambda>r.
       case r of Some zp \<Rightarrow> Some (Ok (Some (h, zp))) | None \<Rightarrow> find_host_PTR q z hs)"

fun in_zones :: "(bytes \<Rightarrow> bytes \<Rightarrow> qxdns_mr list \<Rightarrow> 'h option run) \<Rightarrow> bytes \<Rightarrow> qxdns_mz list \<Rightarrow> (qxdns_mz \<times> 'h) option run" where
  "in_zones f q [] = Some (Ok None)"
| "in_zones f q (z # zs) =
     bindr (f q (zone_name z) (hosts z)) (\<lambda>r.
       case r of Some h \<Rightarrow> Some (Ok (Some (z, h))) | None \<Rightarrow> in_zones f q zs)"

section \<open>Answers\<close>

text \<open>The header of a resource record whose name points to the question, at \<open>off\<close>.\<close>

definition put_rr :: "bytes \<Rightarrow> nat \<Rightarrow> u16 \<Rightarrow> u32 \<Rightarrow> bytes outcome" where
  "put_rr p off ty ttl =
     (if length p < off + 10 then Crash OutOfBounds
      else Ok (put32 (put16 (put16 (put16 p off 0x0CC0) (off + 2) ty) (off + 4) DNS_C_IN) (off + 6) ttl))"

text \<open>A record with the canonical name of a host behind the packet; the length of the data is
  filled in once the name is printed. The second component is false when the name was cut off.\<close>

definition add_name_rr ::
    "dns_buffer \<Rightarrow> u16 \<Rightarrow> qxdns_mr \<Rightarrow> bytes \<Rightarrow> nat \<Rightarrow> (dns_buffer \<times> bool) run" where
  "add_name_rr qb ty h zname zp =
     (let off = datalen qb in
      case put_rr (pkt qb) off ty (mr_ttl h) of
        Crash c \<Rightarrow> Some (Crash c)
      | Ok p \<Rightarrow>
          bindr (rprt_name p (off + 12) (cname h) zname zp (502 - int off)) (\<lambda>(p, r, _).
            case r of
              None \<Rightarrow> Some (Ok (qb\<lparr>pkt := or_OPT (put16 p 6 0x0100) (DNS_OPT_AA OR DNS_OPT_TC OR DNS_OPT_QR)\<rparr>, False))
            | Some an \<Rightarrow>
                Some (Ok (qb\<lparr>pkt := put16 p (off + 10) (swap16 (word_of_nat (an - (off + 12)))), datalen := an\<rparr>, True))))"

text \<open>The addresses that still fit.\<close>

fun add_addresses :: "bytes \<Rightarrow> nat \<Rightarrow> u16 \<Rightarrow> mr_inaddr list \<Rightarrow> nat \<Rightarrow> bytes \<times> nat \<times> nat" where
  "add_addresses p dl ptr [] n = (p, dl, n)"
| "add_addresses p dl ptr (ia # ias) n =
     (if pkt_size - dl < sizeof_ans_a then (p, dl, n)
      else add_addresses (put16 (blit p dl (ia_ans ia)) dl ptr) (dl + sizeof_ans_a) ptr ias (Suc n))"

definition answer_A :: "dns_buffer \<Rightarrow> qxdns_mr \<Rightarrow> u16 \<Rightarrow> nat \<Rightarrow> dns_buffer" where
  "answer_A qb h ptr an_count =
     (let (p, dl, n) = add_addresses (pkt qb) (datalen qb) ptr (inaddrs h) an_count;
          p = put16 p 6 (swap16 (word_of_nat n)); p = put16 p 8 0; p = put16 p 10 0
      in qb\<lparr>pkt := or_OPT p DNS_OPT_QR, datalen := dl\<rparr>)"

definition lookup_A :: "qxdns_mz list \<Rightarrow> dns_buffer \<Rightarrow> (bool \<times> dns_buffer) run" where
  "lookup_A root qb =
     bindr (in_zones find_host_A (drop 12 (pkt qb)) root) (\<lambda>r.
       case r of
         None \<Rightarrow> Some (Ok (False, qb))
       | Some (z, h, is_alias, zp) \<Rightarrow>
           if is_alias then
             bindr (add_name_rr qb DNS_T_CNAME h (zone_name z) zp) (\<lambda>(qb', ok).
               if ok then Some (Ok (True, answer_A qb' h (swap16 (0xC000 OR word_of_nat (datalen qb + 12))) 1))
               else Some (Ok (True, qb')))
           else Some (Ok (True, answer_A qb h 0x0CC0 0)))"

definition lookup_PTR :: "qxdns_mz list \<Rightarrow> dns_buffer \<Rightarrow> (bool \<times> dns_buffer) run" where
  "lookup_PTR root qb =
     bindr (in_zones find_host_PTR (drop 12 (pkt qb)) root) (\<lambda>r.
       case r of
         None \<Rightarrow> Some (Ok (False, qb))
       | Some (z, h, zp) \<Rightarrow>
           bindr (add_name_rr qb DNS_T_PTR h (zone_name z) zp) (\<lambda>(qb', ok).
             if ok then
               let p = put16 (put16 (put16 (pkt qb') 6 (swap16 1)) 8 0) 10 0
               in Some (Ok (True, qb'\<lparr>pkt := or_OPT p (DNS_OPT_QR OR DNS_OPT_AA)\<rparr>))
             else Some (Ok (True, qb'))))"

definition qxdns_master_lookup :: "qxdns_mz list \<Rightarrow> dns_buffer \<Rightarrow> (bool \<times> dns_buffer) run" where
  "qxdns_master_lookup root qb =
     (if get16 (pkt qb) (datalen qb - 2) \<noteq> DNS_C_IN then Some (Ok (False, qb))
      else let ty = get16 (pkt qb) (datalen qb - 4) in
        if ty = DNS_T_A then lookup_A root qb
        else if ty = DNS_T_PTR then lookup_PTR root qb
        else Some (Ok (False, qb)))"

section \<open>Properties of the answers\<close>

lemma put16_blit_slice:
  assumes "dl + length a \<le> length p" "2 \<le> length a"
  shows "take (length a) (drop dl (put16 (blit p dl a) dl v)) = put16 a 0 v"
proof (rule nth_equalityI)
  show "length (take (length a) (drop dl (put16 (blit p dl a) dl v))) = length (put16 a 0 v)"
    using assms(1) by (simp add: codec_simps length_blit)
  fix i assume "i < length (take (length a) (drop dl (put16 (blit p dl a) dl v)))"
  then have i: "i < length a" by simp
  with assms show "take (length a) (drop dl (put16 (blit p dl a) dl v)) ! i = put16 a 0 v ! i"
    by (auto simp: put16_def nth_list_update length_blit nth_blit codec_simps)
qed

lemma add_addresses_effect:
  assumes "add_addresses p dl ptr ias n = (p', dl', n')" "length p = pkt_size" "dl \<le> pkt_size"
    and "\<forall>ia \<in> set ias. length (ia_ans ia) = sizeof_ans_a"
    and "k = min (length ias) ((pkt_size - dl) div sizeof_ans_a)"
  shows "n' = n + k \<and> dl' = dl + sizeof_ans_a * k \<and> dl' \<le> pkt_size \<and> length p' = pkt_size \<and> take dl p' = take dl p \<and>
    (\<forall>j < k. take sizeof_ans_a (drop (dl + sizeof_ans_a * j) p') = put16 (ia_ans (ias ! j)) 0 ptr)"
  using assms
proof (induction ias arbitrary: p dl n k)
  case Nil
  then show ?case by simp
next
  case (Cons ia ias)
  show ?case
  proof (cases "pkt_size - dl < sizeof_ans_a")
    case True
    then show ?thesis using Cons.prems by simp
  next
    case False
    let ?p = "put16 (blit p dl (ia_ans ia)) dl ptr" and ?dl = "dl + sizeof_ans_a"
    let ?k = "min (length ias) ((pkt_size - ?dl) div sizeof_ans_a)"
    have la: "length (ia_ans ia) = sizeof_ans_a" using Cons.prems(4) by simp
    have fit: "dl + length (ia_ans ia) \<le> length p" using False Cons.prems(2,3) la by simp
    have lp: "length ?p = pkt_size" using fit Cons.prems(2) by (simp add: codec_simps length_blit)
    have k: "k = Suc ?k"
    proof -
      have "(pkt_size - dl) div sizeof_ans_a = Suc ((pkt_size - ?dl) div sizeof_ans_a)"
        using False le_div_geq [of sizeof_ans_a "pkt_size - dl"] by (simp add: sizeof_ans_a_def)
      then show ?thesis using Cons.prems(5) by simp
    qed
    have r: "add_addresses ?p ?dl ptr ias (Suc n) = (p', dl', n')" using Cons.prems(1) False by simp
    have "n' = Suc n + ?k \<and> dl' = ?dl + sizeof_ans_a * ?k \<and> dl' \<le> pkt_size \<and> length p' = pkt_size \<and> take ?dl p' = take ?dl ?p \<and>
      (\<forall>j < ?k. take sizeof_ans_a (drop (?dl + sizeof_ans_a * j) p') = put16 (ia_ans (ias ! j)) 0 ptr)"
      by (rule Cons.IH [OF r lp _ _ refl]) (use False Cons.prems in auto)
    note IH = this
    have t0: "take dl p' = take dl p"
    proof -
      have "take dl p' = take dl (take ?dl p')" by simp
      also have "\<dots> = take dl ?p" using IH by simp
      also have "\<dots> = take dl p" using fit by (simp add: le16.take_wr take_blit)
      finally show ?thesis .
    qed
    have "take sizeof_ans_a (drop (dl + sizeof_ans_a * j) p') = put16 (ia_ans ((ia # ias) ! j)) 0 ptr" if "j < Suc ?k" for j
    proof (cases j)
      case 0
      have "take sizeof_ans_a (drop dl p') = drop dl (take ?dl p')" by (simp add: drop_take)
      also have "\<dots> = drop dl (take ?dl ?p)" using IH by simp
      also have "\<dots> = take sizeof_ans_a (drop dl ?p)" by (simp add: drop_take)
      also have "\<dots> = put16 (ia_ans ia) 0 ptr"
        using put16_blit_slice [OF fit, of ptr] la by (simp add: sizeof_ans_a_def)
      finally show ?thesis using 0 by simp
    next
      case (Suc i)
      then show ?thesis using IH that by (simp add: add.assoc)
    qed
    then show ?thesis using IH k t0 by simp
  qed
qed

text \<open>C10: An A query for the canonical name of a host is answered in place: the reply carries as
  many of the host's addresses as fit into 512 bytes, in their order, each as a sixteen-byte record
  that points to the question; the answer count says how many, the response bit is set, and
  neither the question nor anything outside the packet is overwritten.\<close>

theorem master_answers_addresses:
  assumes f: "in_zones find_host_A (drop 12 (pkt qb)) root = Some (Ok (Some (z, h, False, zp)))"
    and q: "get16 (pkt qb) (datalen qb - 2) = DNS_C_IN" "get16 (pkt qb) (datalen qb - 4) = DNS_T_A"
    and len: "length (pkt qb) = pkt_size" "12 \<le> datalen qb" "datalen qb \<le> pkt_size"
    and ias: "\<forall>ia \<in> set (inaddrs h). length (ia_ans ia) = sizeof_ans_a"
    and k: "k = min (length (inaddrs h)) ((pkt_size - datalen qb) div sizeof_ans_a)"
  shows "\<exists>qb'. qxdns_master_lookup root qb = Some (Ok (True, qb')) \<and>
    datalen qb' = datalen qb + sizeof_ans_a * k \<and> datalen qb' \<le> pkt_size \<and> length (pkt qb') = pkt_size \<and>
    get16 (pkt qb') 6 = swap16 (word_of_nat k) \<and> dns_OPT (pkt qb') = dns_OPT (pkt qb) OR DNS_OPT_QR \<and>
    dns_ID (pkt qb') = dns_ID (pkt qb) \<and>
    drop 12 (take (datalen qb) (pkt qb')) = drop 12 (take (datalen qb) (pkt qb)) \<and>
    (\<forall>j \<in> {..<k}. take sizeof_ans_a (drop (datalen qb + sizeof_ans_a * j) (pkt qb')) =
       put16 (ia_ans (inaddrs h ! j)) 0 0x0CC0)"
proof -
  obtain p dl n where a: "add_addresses (pkt qb) (datalen qb) 0x0CC0 (inaddrs h) 0 = (p, dl, n)"
    by (metis prod_cases3)
  note E = add_addresses_effect [OF a len(1,3) ias k]
  let ?p = "or_OPT (put16 (put16 (put16 p 6 (swap16 (word_of_nat n))) 8 0) 10 0) DNS_OPT_QR"
  have ans: "answer_A qb h 0x0CC0 0 = qb\<lparr>pkt := ?p, datalen := dl\<rparr>"
    by (simp add: answer_A_def a)
  have lk: "qxdns_master_lookup root qb = Some (Ok (True, qb\<lparr>pkt := ?p, datalen := dl\<rparr>))"
    using f q ans by (simp add: qxdns_master_lookup_def lookup_A_def Let_def)
  have lp: "length p = 512" using E by (simp add: pkt_size_def)
  have hd: "get16 p i = get16 (pkt qb) i" if "i + 2 \<le> 12" for i
  proof -
    have "take 12 p = take 12 (pkt qb)" using E len(2) by (metis min.absorb1 take_take)
    then have "p ! j = pkt qb ! j" if "j < 12" for j using that by (metis nth_take)
    with that show ?thesis by (intro le16.rd_cong) auto
  qed
  have dr: "drop m ?p = drop m p" if "12 \<le> m" for m
    using that by (simp add: or_OPT_def le16.drop_wr)
  have "drop 12 (take (datalen qb) ?p) = take (datalen qb - 12) (drop 12 p)"
    using dr [of 12] by (simp add: drop_take)
  also have "\<dots> = drop 12 (take (datalen qb) (pkt qb))" using E by (simp add: drop_take [symmetric])
  finally have qn: "drop 12 (take (datalen qb) ?p) = drop 12 (take (datalen qb) (pkt qb))" .
  have "get16 ?p 6 = swap16 (word_of_nat n)" "get16 ?p 2 = dns_OPT (pkt qb) OR DNS_OPT_QR"
    "get16 ?p 0 = dns_ID (pkt qb)"
    using lp hd by (simp_all add: or_OPT_def codec_simps)
  moreover have "length ?p = pkt_size" using E by (simp add: or_OPT_def codec_simps)
  ultimately show ?thesis using lk qn E dr len(2) by auto
qed

text \<open>A query that matches an alias, or the reverse name of an address, and that fills more
  than 502 bytes makes the server write behind its packet buffer.\<close>

theorem long_query_overflows_buffer:
  assumes "length (pkt qb) = pkt_size" "502 < datalen qb" "get16 (pkt qb) (datalen qb - 2) = DNS_C_IN"
    and "(get16 (pkt qb) (datalen qb - 4) = DNS_T_A \<and>
          in_zones find_host_A (drop 12 (pkt qb)) root = Some (Ok (Some (z, h, True, zp)))) \<or>
         (get16 (pkt qb) (datalen qb - 4) = DNS_T_PTR \<and>
          in_zones find_host_PTR (drop 12 (pkt qb)) root = Some (Ok (Some (z, h, zp))))"
  shows "qxdns_master_lookup root qb = Some (Crash OutOfBounds)"
  using assms
  by (auto simp: qxdns_master_lookup_def lookup_A_def lookup_PTR_def add_name_rr_def put_rr_def
      pkt_size_def DNS_T_A_def DNS_T_PTR_def Let_def)

section \<open>Closed examples\<close>

definition demo_zone :: qxdns_mz where
  "demo_zone = qxdns_add_mr \<lparr>zone_NS = [], zone_MX = [], hosts = [], zone_name = [1, 99, 0]\<rparr>
     (qxdns_add_mr_alias (qxdns_add_mr_addr (qxdns_new_mr (bytes_of ''ab'') 30) 0x0500000A) (bytes_of ''x'')) 0 0"

text \<open>A query for the name \<open>ab\<close> and one, padded to 508 bytes, for the name \<open>x\<close>.\<close>

definition demo_query :: dns_buffer where
  "demo_query = \<lparr>b_from = 1, qclient = None, qserver = None, ref_ID = 0, src_ID = 0, rcvtime = 100,
     b_next = None, b_prev = None, datalen = 20,
     pkt = [7, 7, 1, 0, 0, 1, 0, 0, 0, 0, 0, 0, 2, 65, 66, 0, 0, 1, 0, 1] @ replicate 492 0\<rparr>"

definition demo_long :: dns_buffer where
  "demo_long = demo_query\<lparr>datalen := 508,
     pkt := [7, 7, 1, 0, 0, 1, 0, 0, 0, 0, 0, 0, 1, 120, 0] @ replicate 489 0 @ [0, 1, 0, 1, 0, 0, 0, 0]\<rparr>"

lemma demo_cname: "rcpy_string [97, 98] = [2, 97, 98, 0]" "rcpy_string [120] = [1, 120, 0]"
  using rcpy_string_encodes [of "[]" "[97, 98]"] rcpy_string_encodes [of "[]" "[120]"]
  by (simp_all add: label_ok_def dotted_def encode_labels_def)

lemma demo_hosts: "zone_name demo_zone = [1, 99, 0]" "\<exists>h. hosts demo_zone = [h] \<and> cname h = [2, 97, 98, 0] \<and>
    aliases h = [[1, 120, 0]] \<and> length (inaddrs h) = 1 \<and> (\<forall>ia \<in> set (inaddrs h). length (ia_ans ia) = sizeof_ans_a)"
  by (simp_all add: demo_zone_def qxdns_add_mr_def qxdns_add_mr_alias_def qxdns_add_mr_addr_def
      qxdns_new_mr_def bytes_of_def demo_cname sizeof_ans_a_def codec_simps Let_def)

lemma demo_compare:
  "rcmp_names (drop 12 (pkt demo_query)) [2, 97, 98, 0] z = Some (Ok (True, 0))"
  "rcmp_names (drop 12 (pkt demo_long)) [2, 97, 98, 0] z = Some (Ok (False, 0))"
  "rcmp_names (drop 12 (pkt demo_long)) [1, 120, 0] z = Some (Ok (True, 0))"
  using rcmp_plain [of "[2, 65, 66]" "[2, 97, 98]" "[]" "[0, 1, 0, 1] @ replicate 492 0" z "[]" "[]" 0]
    rcmp_plain [of "[1, 120]" "[2, 97, 98]" "[]" "replicate 489 0 @ [0, 1, 0, 1, 0, 0, 0, 0]" z "[]" "[]" 0]
    rcmp_plain [of "[1, 120]" "[1, 120]" "[]" "replicate 489 0 @ [0, 1, 0, 1, 0, 0, 0, 0]" z "[]" "[]" 0]
  by (simp_all add: rcmp_names_def demo_query_def demo_long_def upper_def c_toupper_def)

theorem master_answers_addresses_witness:
  "\<exists>qb'. qxdns_master_lookup [demo_zone] demo_query = Some (Ok (True, qb')) \<and> datalen qb' = 36 \<and>
     get16 (pkt qb') 6 = swap16 1"
proof -
  obtain h where h: "hosts demo_zone = [h]" "cname h = [2, 97, 98, 0]" "length (inaddrs h) = 1"
    "\<forall>ia \<in> set (inaddrs h). length (ia_ans ia) = sizeof_ans_a" using demo_hosts(2) by blast
  have f: "in_zones find_host_A (drop 12 (pkt demo_query)) [demo_zone] = Some (Ok (Some (demo_zone, h, False, 0)))"
    using h demo_compare(1) by simp
  have q: "get16 (pkt demo_query) (datalen demo_query - 2) = DNS_C_IN"
    "get16 (pkt demo_query) (datalen demo_query - 4) = DNS_T_A" "length (pkt demo_query) = pkt_size"
    "12 \<le> datalen demo_query" "datalen demo_query \<le> pkt_size"
    by (simp_all add: demo_query_def get16_def DNS_C_IN_def DNS_T_A_def pkt_size_def nth_append)
  have d: "datalen demo_query = 20" by (simp add: demo_query_def)
  show ?thesis using master_answers_addresses [OF f q h(4) refl] h(3)
    by (auto simp: d pkt_size_def sizeof_ans_a_def)
qed

theorem long_query_overflows_buffer_witness:
  "qxdns_master_lookup [demo_zone] demo_long = Some (Crash OutOfBounds)"
proof -
  obtain h where h: "hosts demo_zone = [h]" "cname h = [2, 97, 98, 0]" "aliases h = [[1, 120, 0]]"
    using demo_hosts(2) by blast
  have "in_zones find_host_A (drop 12 (pkt demo_long)) [demo_zone] = Some (Ok (Some (demo_zone, h, True, 0)))"
    using h demo_compare(2,3) by simp
  moreover have "length (pkt demo_long) = pkt_size" "502 < datalen demo_long"
    "get16 (pkt demo_long) (datalen demo_long - 2) = DNS_C_IN" "get16 (pkt demo_long) (datalen demo_long - 4) = DNS_T_A"
    by (simp_all add: demo_long_def demo_query_def pkt_size_def get16_def DNS_C_IN_def DNS_T_A_def nth_append)
  ultimately show ?thesis by (intro long_query_overflows_buffer) auto
qed

end
