(* ===== verification/DnsCache.thy ===== *)
theory DnsCache
  imports DnsMaster
begin

text \<open>
  \<open>QX-dns/cache.c\<close>: the array of cached responses with its replacement policy. Times are
  seconds as natural numbers; the locks are left out, because each call takes the lock for all of
  its work.
\<close>

section \<open>State and operations\<close>

record qxdns_cr =
  expires :: nat
  hits :: nat
  c_datalen :: nat
  c_pkt :: bytes

record dns_cache =
  CacheROOT :: "qxdns_cr list"
  CacheMAX :: nat
  CacheTTL :: nat

definition qxdns_cache_init :: "bool \<Rightarrow> nat \<Rightarrow> nat \<Rightarrow> dns_cache option" where
  "qxdns_cache_init mem_ok c_max c_ttl =
     (if mem_ok then Some \<lparr>CacheROOT = [], CacheMAX = c_max, CacheTTL = c_ttl\<rparr> else None)"

definition INT_MAX :: nat where "INT_MAX = 2147483647"

text \<open>The scan for a place: the position where it stops and the candidate for replacement. It
  stops at the first expired record; otherwise the candidate is the record with the fewest hits, and
  among those the one that expires first.\<close>

fun cache_scan :: "nat \<Rightarrow> qxdns_cr list \<Rightarrow> nat \<Rightarrow> nat \<Rightarrow> nat \<Rightarrow> nat option \<Rightarrow> nat \<times> nat option" where
  "cache_scan now [] i minhits ex index = (i, index)"
| "cache_scan now (r # rs) i minhits ex index =
     (if expires r < now then (i, Some i)
      else if hits r \<le> minhits then
        if hits r = minhits \<and> expires r > ex then cache_scan now rs (Suc i) minhits ex index
        else cache_scan now rs (Suc i) (hits r) (expires r) (Some i)
      else cache_scan now rs (Suc i) minhits ex index)"

text \<open>\<open>mem\<close> is the block that \<open>malloc\<close> provides for the packet of the new record. The
  index minus one, where there is no candidate, is outside the array.\<close>

definition qxdns_cache_add :: "bytes option \<Rightarrow> dns_cache \<Rightarrow> dns_buffer \<Rightarrow> (bool \<times> dns_cache) outcome" where
  "qxdns_cache_add mem ca msg =
     (case mem of
        None \<Rightarrow> Ok (False, ca)
      | Some block \<Rightarrow>
          let r = \<lparr>expires = rcvtime msg + CacheTTL ca, hits = 1, c_datalen = datalen msg,
                   c_pkt = blit block 0 (take (datalen msg) (pkt msg))\<rparr>;
              (i, index) = cache_scan (rcvtime msg) (CacheROOT ca) 0 INT_MAX (rcvtime msg + 172800) None
          in if i = length (CacheROOT ca) \<and> i < CacheMAX ca
             then Ok (True, ca\<lparr>CacheROOT := CacheROOT ca @ [r]\<rparr>)
             else case index of
                 None \<Rightarrow> Crash OutOfBounds
               | Some k \<Rightarrow> Ok (True, ca\<lparr>CacheROOT := (CacheROOT ca)[k := r]\<rparr>))"

text \<open>\<open>stricmp\<close> on two places in memory: it stops at the first difference or at the
  terminator.\<close>

fun stricmp_mem :: "bytes \<Rightarrow> bytes \<Rightarrow> bool outcome" where
  "stricmp_mem (a # as) (b # bs) =
     (if c_toupper a \<noteq> c_toupper b then Ok False
      else if a = 0 then Ok True else stricmp_mem as bs)"
| "stricmp_mem _ _ = Crash OutOfBounds"

fun cache_find :: "nat \<Rightarrow> bytes \<Rightarrow> qxdns_cr list \<Rightarrow> nat \<Rightarrow> nat option outcome" where
  "cache_find now name [] i = Ok None"
| "cache_find now name (r # rs) i =
     (if expires r < now then cache_find now name rs (Suc i)
      else case stricmp_mem name (drop 12 (c_pkt r)) of
          Crash c \<Rightarrow> Crash c
        | Ok True \<Rightarrow> Ok (Some i)
        | Ok False \<Rightarrow> cache_find now name rs (Suc i))"

definition qxdns_cache_lookup :: "dns_cache \<Rightarrow> dns_buffer \<Rightarrow> (bool \<times> dns_cache \<times> dns_buffer) outcome" where
  "qxdns_cache_lookup ca msg =
     (case cache_find (rcvtime msg) (drop 12 (pkt msg)) (CacheROOT ca) 0 of
        Crash c \<Rightarrow> Crash c
      | Ok None \<Rightarrow> Ok (False, ca, msg)
      | Ok (Some k) \<Rightarrow>
          let r = CacheROOT ca ! k in
          Ok (True, ca\<lparr>CacheROOT := (CacheROOT ca)[k := r\<lparr>hits := w32 (hits r + 1)\<rparr>]\<rparr>,
              msg\<lparr>pkt := blit (pkt msg) 2 (take (c_datalen r - 2) (drop 2 (c_pkt r))),
                  datalen := c_datalen r\<rparr>))"

section \<open>Replacement\<close>

definition rec_ok :: "qxdns_cr \<Rightarrow> bool" where
  "rec_ok r \<longleftrightarrow> hits r \<le> INT_MAX \<and> length (c_pkt r) = pkt_size \<and> 17 \<le> c_datalen r \<and> c_datalen r \<le> pkt_size"

definition cache_ok :: "dns_cache \<Rightarrow> bool" where
  "cache_ok ca \<longleftrightarrow> 0 < CacheMAX ca \<and> length (CacheROOT ca) \<le> CacheMAX ca \<and> (\<forall>r \<in> set (CacheROOT ca). rec_ok r)"

definition message_ok :: "dns_buffer \<Rightarrow> bool" where
  "message_ok m \<longleftrightarrow> length (pkt m) = pkt_size \<and> 17 \<le> datalen m \<and> datalen m \<le> pkt_size"

lemma cache_scan_expired:
  assumes "cache_scan now rs i minhits ex index = (j, k)" "j < i + length rs"
  shows "i \<le> j \<and> k = Some j \<and> expires (rs ! (j - i)) < now"
  using assms
proof (induction now rs i minhits ex index rule: cache_scan.induct)
  case (2 now r rs i minhits ex index)
  have shift: "Suc i \<le> j \<and> k = Some j \<and> expires (rs ! (j - Suc i)) < now \<Longrightarrow>
      i \<le> j \<and> k = Some j \<and> expires ((r # rs) ! (j - i)) < now"
    by (auto simp: Suc_diff_Suc [symmetric] nth_Cons' dest: Suc_le_lessD)
  show ?case
  proof (cases "expires r < now")
    case False
    then show ?thesis using 2 shift by (auto split: if_splits)
  qed (use 2 in auto)
qed simp

lemma cache_scan_all_live:
  assumes "cache_scan now rs i minhits ex index = (j, k)" "\<not> j < i + length rs"
  shows "\<forall>r \<in> set rs. \<not> expires r < now"
  using assms
proof (induction rs arbitrary: i minhits ex index)
  case Nil
  then show ?case by simp
next
  case (Cons r rs)
  have live: "\<not> expires r < now" using Cons.prems by auto
  with Cons.prems(1) obtain m e x where "cache_scan now rs (Suc i) m e x = (j, k)"
    by (auto split: if_splits)
  from Cons.IH [OF this] Cons.prems(2) live show ?case by simp
qed

text \<open>The order in which records are given up.\<close>

definition colder :: "nat \<times> nat \<Rightarrow> nat \<times> nat \<Rightarrow> bool" where
  "colder a b \<longleftrightarrow> fst a < fst b \<or> (fst a = fst b \<and> snd a \<le> snd b)"

definition warmth :: "qxdns_cr \<Rightarrow> nat \<times> nat" where
  "warmth r = (hits r, expires r)"

lemma colder_trans: "colder a b \<Longrightarrow> colder b c \<Longrightarrow> colder a c"
  by (auto simp: colder_def)

lemma colder_total: "colder a b \<or> colder b a"
  by (auto simp: colder_def)

lemma colder_refl [simp]: "colder a a"
  by (simp add: colder_def)

lemma cache_scan_candidate:
  assumes "cache_scan now rs i minhits ex index = (j, k)" "\<forall>r \<in> set rs. now \<le> expires r"
  shows "j = i + length rs \<and>
    ((k = index \<and> (\<forall>r \<in> set rs. \<not> colder (warmth r) (minhits, ex))) \<or>
     (\<exists>m < length rs. k = Some (i + m) \<and> colder (warmth (rs ! m)) (minhits, ex) \<and>
        (\<forall>r \<in> set rs. colder (warmth (rs ! m)) (warmth r))))"
  using assms
proof (induction rs arbitrary: i minhits ex index)
  case Nil
  then show ?case by simp
next
  case (Cons r rs)
  have live: "\<not> expires r < now" "\<forall>r \<in> set rs. now \<le> expires r" using Cons.prems(2) by auto
  show ?case
  proof (cases "colder (warmth r) (minhits, ex)")
    case False
    have "cache_scan now rs (Suc i) minhits ex index = (j, k)"
      using Cons.prems(1) live False by (auto simp: colder_def warmth_def split: if_splits)
    from Cons.IH [OF this live(2)] consider
      "j = i + length (r # rs)" "k = index" "\<forall>r \<in> set rs. \<not> colder (warmth r) (minhits, ex)"
      | m where "j = i + length (r # rs)" "m < length rs" "k = Some (Suc i + m)"
        "colder (warmth (rs ! m)) (minhits, ex)" "\<forall>r \<in> set rs. colder (warmth (rs ! m)) (warmth r)"
      by auto
    then show ?thesis
    proof cases
      case 1
      then show ?thesis using False by simp
    next
      case (2 m)
      have "colder (warmth (rs ! m)) (warmth r)"
        using False 2(4) colder_total colder_trans by blast
      with 2 show ?thesis by (intro conjI disjI2 exI [of _ "Suc m"]) auto
    qed
  next
    case True
    have s: "cache_scan now rs (Suc i) (hits r) (expires r) (Some i) = (j, k)"
      using Cons.prems(1) live True by (auto simp: colder_def warmth_def split: if_splits)
    have w: "(hits r, expires r) = warmth r" by (simp add: warmth_def)
    from Cons.IH [OF s live(2)] consider
      "j = i + length (r # rs)" "k = Some i" "\<forall>x \<in> set rs. \<not> colder (warmth x) (warmth r)"
      | m where "j = i + length (r # rs)" "m < length rs" "k = Some (Suc i + m)"
        "colder (warmth (rs ! m)) (warmth r)" "\<forall>r \<in> set rs. colder (warmth (rs ! m)) (warmth r)"
      unfolding w by auto
    then show ?thesis
    proof cases
      case 1
      then have "\<forall>x \<in> set rs. colder (warmth r) (warmth x)" using colder_total by blast
      with 1 True show ?thesis by (intro conjI disjI2 exI [of _ 0]) auto
    next
      case (2 m)
      then show ?thesis using True colder_trans by (intro conjI disjI2 exI [of _ "Suc m"]) auto
    qed
  qed
qed

definition new_record :: "bytes \<Rightarrow> dns_cache \<Rightarrow> dns_buffer \<Rightarrow> qxdns_cr" where
  "new_record block ca msg = \<lparr>expires = rcvtime msg + CacheTTL ca, hits = 1, c_datalen = datalen msg,
     c_pkt = blit block 0 (take (datalen msg) (pkt msg))\<rparr>"

lemma new_record_ok: "message_ok msg \<Longrightarrow> length block = pkt_size \<Longrightarrow> rec_ok (new_record block ca msg)"
  by (auto simp: new_record_def rec_ok_def message_ok_def INT_MAX_def length_blit)

lemma cache_ok_update: "cache_ok ca \<Longrightarrow> rec_ok r \<Longrightarrow> cache_ok (ca\<lparr>CacheROOT := (CacheROOT ca)[k := r]\<rparr>)"
  by (auto simp: cache_ok_def dest!: set_update_subset_insert [THEN subsetD])

text \<open>C11: Adding a response to a well-formed cache never leaves the array and keeps the cache
  well-formed, with at most \<open>CacheMAX\<close> records. What it does depends on the records: with an
  expired one, the first expired record is replaced; with room, the response is appended; in a
  full cache of live records the response replaces a record that has the fewest hits and, among
  those, expires first.\<close>

theorem cache_add_replaces_coldest:
  assumes ok: "cache_ok ca" and msg: "message_ok msg" and blk: "length block = pkt_size"
    and warm: "\<forall>r \<in> set (CacheROOT ca). hits r < INT_MAX"
  shows "\<exists>ca'. qxdns_cache_add (Some block) ca msg = Ok (True, ca') \<and> cache_ok ca' \<and>
    (if \<exists>r \<in> set (CacheROOT ca). expires r < rcvtime msg
     then \<exists>k < length (CacheROOT ca). expires (CacheROOT ca ! k) < rcvtime msg \<and>
            CacheROOT ca' = (CacheROOT ca)[k := new_record block ca msg]
     else if length (CacheROOT ca) < CacheMAX ca then CacheROOT ca' = CacheROOT ca @ [new_record block ca msg]
     else \<exists>k < length (CacheROOT ca). (\<forall>r \<in> set (CacheROOT ca). colder (warmth (CacheROOT ca ! k)) (warmth r)) \<and>
            CacheROOT ca' = (CacheROOT ca)[k := new_record block ca msg])"
proof -
  let ?rs = "CacheROOT ca" and ?now = "rcvtime msg" and ?r = "new_record block ca msg"
  obtain j k where s: "cache_scan ?now ?rs 0 INT_MAX (?now + 172800) None = (j, k)" by fastforce
  have add: "qxdns_cache_add (Some block) ca msg =
      (if j = length ?rs \<and> j < CacheMAX ca then Ok (True, ca\<lparr>CacheROOT := ?rs @ [?r]\<rparr>)
       else case k of None \<Rightarrow> Crash OutOfBounds | Some k \<Rightarrow> Ok (True, ca\<lparr>CacheROOT := ?rs[k := ?r]\<rparr>))"
    using s by (simp add: qxdns_cache_add_def new_record_def Let_def split: option.split)
  have rok: "rec_ok ?r" by (rule new_record_ok [OF msg blk])
  have upd: "cache_ok (ca\<lparr>CacheROOT := ?rs[k := ?r]\<rparr>)" for k by (rule cache_ok_update [OF ok rok])
  show ?thesis
  proof (cases "\<exists>r \<in> set ?rs. expires r < ?now")
    case True
    then obtain x where x: "x < length ?rs" "expires (?rs ! x) < ?now" by (auto simp: in_set_conv_nth)
    have "j < length ?rs"
    proof (rule ccontr)
      assume nj: "\<not> j < length ?rs"
      have "\<forall>r \<in> set ?rs. \<not> expires r < ?now"
        using s by (rule cache_scan_all_live) (use nj in simp)
      with x show False by auto
    qed
    with cache_scan_expired [OF s] add True upd show ?thesis by auto
  next
    case False
    then have live: "\<forall>r \<in> set ?rs. ?now \<le> expires r" by (simp add: not_less)
    note C = cache_scan_candidate [OF s live]
    then have j: "j = length ?rs" by simp
    show ?thesis
    proof (cases "length ?rs < CacheMAX ca")
      case True
      then show ?thesis using add j False ok rok by (auto simp: cache_ok_def)
    next
      case full: False
      then have "?rs \<noteq> []" using ok by (auto simp: cache_ok_def)
      then obtain r where "r \<in> set ?rs" by (cases ?rs) auto
      then have "colder (warmth r) (INT_MAX, ?now + 172800)" using warm by (simp add: colder_def warmth_def)
      with C \<open>r \<in> set ?rs\<close> obtain m where "m < length ?rs" "k = Some m"
        "\<forall>r \<in> set ?rs. colder (warmth (?rs ! m)) (warmth r)" by auto
      then show ?thesis using add j full False upd by auto
    qed
  qed
qed

definition demo_cr :: "nat \<Rightarrow> qxdns_cr" where
  "demo_cr n = \<lparr>expires = 50, hits = n, c_datalen = 20,
     c_pkt = [9, 9] @ replicate 10 7 @ [1, 97, 0, 0, 1, 0, 1] @ replicate 493 5\<rparr>"

definition demo_msg :: dns_buffer where
  "demo_msg = \<lparr>b_from = 0, qclient = None, qserver = None, ref_ID = 0, src_ID = 0, rcvtime = 10, b_next = None,
     b_prev = None, datalen = 19, pkt = [1, 2] @ replicate 10 0 @ [1, 65, 0, 0, 12, 0, 1] @ replicate 493 0\<rparr>"

definition demo_cache :: dns_cache where
  "demo_cache = \<lparr>CacheROOT = [demo_cr 3, demo_cr 2, demo_cr 4], CacheMAX = 3, CacheTTL = 60\<rparr>"

lemmas demo_cache_defs = demo_cr_def demo_msg_def demo_cache_def

lemma demo_cache_ok: "cache_ok demo_cache" "message_ok demo_msg"
  by (simp_all add: cache_ok_def rec_ok_def message_ok_def INT_MAX_def pkt_size_def demo_cache_defs)

theorem cache_add_replaces_coldest_witness:
  "\<exists>ca'. qxdns_cache_add (Some (replicate 512 0)) demo_cache demo_msg = Ok (True, ca') \<and> cache_ok ca' \<and>
     (\<exists>k < 3. (\<forall>r \<in> set (CacheROOT demo_cache). colder (warmth (CacheROOT demo_cache ! k)) (warmth r)) \<and>
        CacheROOT ca' = (CacheROOT demo_cache)[k := new_record (replicate 512 0) demo_cache demo_msg])"
proof -
  have live: "\<not> (\<exists>r \<in> set (CacheROOT demo_cache). expires r < rcvtime demo_msg)"
    and len: "length (CacheROOT demo_cache) = 3" "\<not> length (CacheROOT demo_cache) < CacheMAX demo_cache"
    by (simp_all add: demo_cache_defs)
  have "length (replicate 512 (0 :: byte)) = pkt_size" "\<forall>r \<in> set (CacheROOT demo_cache). hits r < INT_MAX"
    by (simp_all add: pkt_size_def demo_cache_defs INT_MAX_def)
  from cache_add_replaces_coldest [OF demo_cache_ok this] show ?thesis
    unfolding if_not_P [OF live] if_not_P [OF len(2)] unfolding len(1) .
qed

section \<open>Lookup\<close>

lemma stricmp_mem_eq:
  "0 \<in> set a \<Longrightarrow> length a \<le> length b \<Longrightarrow> stricmp_mem a b = Ok (stricmp_eq a b)"
  unfolding stricmp_eq_def by (induction a b rule: stricmp_mem.induct) (auto simp: cstr_def)

definition cache_hit :: "dns_buffer \<Rightarrow> qxdns_cr \<Rightarrow> bool" where
  "cache_hit m r \<longleftrightarrow> rcvtime m \<le> expires r \<and> stricmp_eq (drop 12 (pkt m)) (drop 12 (c_pkt r))"

lemma cache_find_first:
  assumes "message_ok m" "0 \<in> set (drop 12 (pkt m))" "\<forall>r \<in> set rs. rec_ok r"
  shows "cache_find (rcvtime m) (drop 12 (pkt m)) rs i =
    Ok (if \<exists>r \<in> set rs. cache_hit m r then Some (i + length (takeWhile (\<lambda>r. \<not> cache_hit m r) rs)) else None)"
  using assms(3)
proof (induction rs arbitrary: i)
  case (Cons r rs)
  have "length (drop 12 (pkt m)) \<le> length (drop 12 (c_pkt r))"
    using Cons.prems assms(1) by (simp add: message_ok_def rec_ok_def)
  note cmp = stricmp_mem_eq [OF assms(2) this]
  show ?case
    using Cons cmp by (auto simp: cache_hit_def split: bool.split)
qed simp

text \<open>A lookup never leaves the array, and a query whose name ends inside the packet is
  answered from the first live record with the same name, whatever the case of its letters:
  the query keeps its own ID, everything after it is the stored response, the record counts one hit
  more, and the cache stays well-formed. Nothing but the name is compared: type and class of the
  question play no part. Without such a record query and cache are as before.\<close>

theorem cache_lookup_answers:
  assumes ok: "cache_ok ca" and msg: "message_ok msg" and nul: "0 \<in> set (drop 12 (pkt msg))"
    and cool: "\<forall>r \<in> set (CacheROOT ca). hits r < INT_MAX"
  shows "\<exists>b ca' msg'. qxdns_cache_lookup ca msg = Ok (b, ca', msg') \<and> cache_ok ca' \<and>
    (if \<exists>r \<in> set (CacheROOT ca). cache_hit msg r
     then \<exists>k < length (CacheROOT ca). let r = CacheROOT ca ! k in
            cache_hit msg r \<and> (\<forall>j < k. \<not> cache_hit msg (CacheROOT ca ! j)) \<and> b \<and>
            CacheROOT ca' = (CacheROOT ca)[k := r\<lparr>hits := hits r + 1\<rparr>] \<and>
            datalen msg' = c_datalen r \<and> dns_ID (pkt msg') = dns_ID (pkt msg) \<and>
            take (c_datalen r - 2) (drop 2 (pkt msg')) = take (c_datalen r - 2) (drop 2 (c_pkt r))
     else \<not> b \<and> ca' = ca \<and> msg' = msg)"
proof -
  let ?rs = "CacheROOT ca" let ?n = "length (takeWhile (\<lambda>r. \<not> cache_hit msg r) ?rs)"
  have recs: "\<forall>r \<in> set ?rs. rec_ok r" using ok by (simp add: cache_ok_def)
  note find = cache_find_first [OF msg nul recs, of 0]
  show ?thesis
  proof (cases "\<exists>r \<in> set ?rs. cache_hit msg r")
    case False
    then have "qxdns_cache_lookup ca msg = Ok (False, ca, msg)"
      using find by (simp add: qxdns_cache_lookup_def)
    then show ?thesis unfolding if_not_P [OF False] using ok by blast
  next
    case True
    then have n: "?n < length ?rs" by (intro length_takeWhile_stop) simp
    let ?r = "?rs ! ?n"
    have hit: "cache_hit msg ?r" using nth_length_takeWhile [OF n] by simp
    have first: "\<not> cache_hit msg (?rs ! j)" if "j < ?n" for j
      using that by (metis nth_mem set_takeWhileD takeWhile_nth)
    have r: "rec_ok ?r" "hits ?r < INT_MAX" using recs cool n nth_mem by blast+
    then have w: "w32 (hits ?r + 1) = hits ?r + 1" and r': "rec_ok (?r\<lparr>hits := hits ?r + 1\<rparr>)"
      by (simp_all add: rec_ok_def INT_MAX_def)
    let ?src = "take (c_datalen ?r - 2) (drop 2 (c_pkt ?r))"
    let ?ca' = "ca\<lparr>CacheROOT := ?rs[?n := ?r\<lparr>hits := hits ?r + 1\<rparr>]\<rparr>"
    let ?msg' = "msg\<lparr>pkt := blit (pkt msg) 2 ?src, datalen := c_datalen ?r\<rparr>"
    have run: "qxdns_cache_lookup ca msg = Ok (True, ?ca', ?msg')"
      using find True w by (simp add: qxdns_cache_lookup_def Let_def)
    have len: "length ?src = c_datalen ?r - 2" "2 \<le> length (pkt msg)"
      using r(1) msg by (auto simp: rec_ok_def message_ok_def)
    have id: "dns_ID (pkt ?msg') = dns_ID (pkt msg)"
      using len(2) by (simp add: le16.rd_blit_before)
    have body: "take (c_datalen ?r - 2) (drop 2 (pkt ?msg')) = ?src"
      using len by (simp add: slice_blit)
    have "cache_ok ?ca'" by (rule cache_ok_update [OF ok r'])
    with run True n hit first id body show ?thesis
      by (intro exI conjI) (auto simp: Let_def intro!: exI [of _ ?n])
  qed
qed

theorem cache_lookup_answers_witness:
  "\<exists>b ca' msg'. qxdns_cache_lookup demo_cache demo_msg = Ok (b, ca', msg') \<and> cache_ok ca' \<and>
     b \<and> datalen msg' = 20 \<and> dns_ID (pkt msg') = dns_ID (pkt demo_msg)"
proof -
  have nul: "0 \<in> set (drop 12 (pkt demo_msg))" and cool: "\<forall>r \<in> set (CacheROOT demo_cache). hits r < INT_MAX"
    by (simp_all add: demo_cache_defs INT_MAX_def)
  have "cache_hit demo_msg (demo_cr 3)"
    by (simp add: cache_hit_def demo_cache_defs stricmp_eq_def cstr_def c_toupper_def)
  then have hit: "\<exists>r \<in> set (CacheROOT demo_cache). cache_hit demo_msg r" by (auto simp: demo_cache_def)
  have dl: "c_datalen (CacheROOT demo_cache ! k) = 20" if "k < length (CacheROOT demo_cache)" for k
    using that by (auto simp: demo_cache_def demo_cr_def less_Suc_eq)
  show ?thesis
    using cache_lookup_answers [OF demo_cache_ok nul cool] unfolding if_P [OF hit] Let_def
    using dl by metis
qed

end
