(* ===== verification/DnsServer.thy ===== *)
theory DnsServer
  imports DnsCache
begin

text \<open>
  \<open>QX-dns/main.c\<close>: the buffers and their lists, the handler of the thread pool, and the
  main loop. Buffers live at numbered addresses and are linked by their \<open>next\<close> and
  \<open>prev\<close> members as in the code; they are never given back to the system, so every address
  that was handed out stays valid. The connectors are one list, the listening ones first, then the
  external servers. A run that does not return is the value \<open>None\<close>.
\<close>

section \<open>State\<close>

record dns_connector =
  sock :: int
  c_addr :: nat

record dns_net =
  connectors :: "dns_connector list"
  bind_count :: nat
  zones :: "qxdns_mz list"

record dns_state =
  mem :: "nat \<Rightarrow> dns_buffer"
  brk :: nat
  free_buf :: "nat option"
  ready_buf :: "nat option"
  queue_head :: "nat option"
  queue_tail :: "nat option"
  IntReqNum :: u16
  cache :: dns_cache
  cur_time :: int
  sent :: "(int \<times> nat \<times> bytes) list"

definition srvr_connectors :: "dns_net \<Rightarrow> nat option" where
  "srvr_connectors net = (if bind_count net < length (connectors net) then Some (bind_count net) else None)"

definition connector :: "dns_net \<Rightarrow> nat option \<Rightarrow> dns_connector run" where
  "connector net p = (case p of None \<Rightarrow> Some (Crash NullPointer)
     | Some k \<Rightarrow> if k < length (connectors net) then Some (Ok (connectors net ! k)) else Some (Crash OutOfBounds))"

definition connector_next :: "dns_net \<Rightarrow> nat option \<Rightarrow> nat option run" where
  "connector_next net p = bindr (connector net p) (\<lambda>_. case p of
     None \<Rightarrow> Some (Ok None)
   | Some k \<Rightarrow> Some (Ok (if Suc k < length (connectors net) then Some (Suc k) else None)))"

text \<open>\<open>sendto\<close>; an assignment to a buffer.\<close>

definition sendto :: "dns_state \<Rightarrow> int \<Rightarrow> nat \<Rightarrow> dns_buffer \<Rightarrow> dns_state" where
  "sendto s fd addr b = s\<lparr>sent := sent s @ [(fd, addr, take (datalen b) (pkt b))]\<rparr>"

definition upd :: "nat \<Rightarrow> (dns_buffer \<Rightarrow> dns_buffer) \<Rightarrow> dns_state \<Rightarrow> dns_state" where
  "upd a f s = s\<lparr>mem := (mem s)(a := f (mem s a))\<rparr>"

definition push_free :: "nat \<Rightarrow> dns_state \<Rightarrow> dns_state" where
  "push_free a s = (upd a (b_next_update (\<lambda>_. free_buf s)) s)\<lparr>free_buf := Some a\<rparr>"

section \<open>The queue of forwarded queries\<close>

partial_function (option) find_query :: "(nat \<Rightarrow> dns_buffer) \<Rightarrow> u16 \<Rightarrow> nat option \<Rightarrow> nat option option" where
  "find_query m qid p = (case p of None \<Rightarrow> Some None
     | Some a \<Rightarrow> if ref_ID (m a) = qid then Some (Some a) else find_query m qid (b_next (m a)))"

definition unlink_query :: "nat \<Rightarrow> dns_state \<Rightarrow> dns_state" where
  "unlink_query a s =
     (let n = b_next (mem s a); p = b_prev (mem s a);
          s = (case p of Some k \<Rightarrow> upd k (b_next_update (\<lambda>_. n)) s | None \<Rightarrow> s\<lparr>queue_head := n\<rparr>)
      in case n of Some k \<Rightarrow> upd k (b_prev_update (\<lambda>_. p)) s | None \<Rightarrow> s\<lparr>queue_tail := p\<rparr>)"

definition append_query :: "nat \<Rightarrow> dns_state \<Rightarrow> dns_state" where
  "append_query a s =
     (let t = queue_tail s;
          s = upd a (b_prev_update (\<lambda>_. t)) s;
          s = (case t of Some k \<Rightarrow> upd k (b_next_update (\<lambda>_. Some a)) s | None \<Rightarrow> s\<lparr>queue_head := Some a\<rparr>)
      in s\<lparr>queue_tail := Some a\<rparr>)"

section \<open>The handler\<close>

text \<open>The local variables of \<open>thread_handler\<close> that its last part uses.\<close>

record handler_local =
  h_request :: nat
  h_tmp_q :: "nat option"
  save_rq :: bool
  c_sock :: int
  c_dest :: nat

definition is_response :: "dns_buffer \<Rightarrow> bool" where
  "is_response b \<longleftrightarrow> dns_OPT (pkt b) AND DNS_OPT_QR \<noteq> 0"

text \<open>The first critical section: a response looks for its query and takes it off the queue.\<close>

definition handler_search :: "nat \<Rightarrow> dns_state \<Rightarrow> (nat option \<times> dns_state) run" where
  "handler_search request s =
     (if is_response (mem s request) then
        (case find_query (mem s) (dns_ID (pkt (mem s request))) (queue_head s) of
           None \<Rightarrow> None
         | Some None \<Rightarrow> Some (Ok (None, s))
         | Some (Some q) \<Rightarrow> Some (Ok (Some q, unlink_query q s)))
      else Some (Ok (None, s)))"

text \<open>A response whose query is \<open>q\<close>. A failing server hands the query over to the next one;
  otherwise the client gets the response. \<open>block\<close> is what \<open>malloc\<close> gives to the
  cache.\<close>

definition wants_other_server :: "u16 \<Rightarrow> bool" where
  "wants_other_server opts \<longleftrightarrow> opts = DNS_OPT_RCODE_SF \<or> opts > DNS_OPT_RCODE_NE"

definition handle_response :: "dns_net \<Rightarrow> bytes option \<Rightarrow> nat \<Rightarrow> nat \<Rightarrow> dns_state \<Rightarrow> (handler_local \<times> dns_state) run" where
  "handle_response net block request q s =
     (let opts = dns_OPT (pkt (mem s request)) AND DNS_OPT_RCODE_MASK in
      bindr (if wants_other_server opts then connector_next net (qserver (mem s q)) else Some (Ok None)) (\<lambda>nx.
        case nx of
          Some k \<Rightarrow> bindr (connector net nx) (\<lambda>c. Some (Ok
            (\<lparr>h_request = q, h_tmp_q = Some request, save_rq = True, c_sock = sock c, c_dest = c_addr c\<rparr>,
             upd q (qserver_update (\<lambda>_. nx)) s)))
        | None \<Rightarrow>
            bindr (if opts = DNS_OPT_RCODE_OK \<or> opts = DNS_OPT_RCODE_NE
                   then Some (bindo (qxdns_cache_add block (cache s) (mem s request)) (\<lambda>(_, ca). Ok (s\<lparr>cache := ca\<rparr>)))
                   else Some (Ok s)) (\<lambda>s.
            bindr (connector net (qclient (mem s q))) (\<lambda>c. Some (Ok
              (\<lparr>h_request = request, h_tmp_q = Some q, save_rq = False, c_sock = sock c, c_dest = b_from (mem s q)\<rparr>,
               upd request (\<lambda>b. b\<lparr>pkt := put16 (pkt b) 0 (src_ID (mem s q))\<rparr>) s))))))"

text \<open>A query of a client: answered from the master database or the cache, or sent on to the
  first external server.\<close>

definition reply_local :: "dns_net \<Rightarrow> nat \<Rightarrow> dns_state \<Rightarrow> (handler_local \<times> dns_state) run" where
  "reply_local net request s =
     bindr (connector net (qclient (mem s request))) (\<lambda>c. Some (Ok
       (\<lparr>h_request = request, h_tmp_q = None, save_rq = False, c_sock = sock c, c_dest = b_from (mem s request)\<rparr>, s)))"

definition lookup_answer :: "dns_net \<Rightarrow> dns_state \<Rightarrow> dns_buffer \<Rightarrow> (bool \<times> dns_cache \<times> dns_buffer) run" where
  "lookup_answer net s b =
     bindr (qxdns_master_lookup (zones net) b) (\<lambda>(found, b).
       if found then Some (Ok (True, cache s, b)) else Some (qxdns_cache_lookup (cache s) b))"

definition handle_query :: "dns_net \<Rightarrow> nat \<Rightarrow> dns_state \<Rightarrow> (handler_local \<times> dns_state) run" where
  "handle_query net request s =
     (if dns_QDCOUNT (pkt (mem s request)) \<noteq> 0x0100 then
        reply_local net request (upd request (pkt_update (\<lambda>p. or_OPT p DNS_OPT_RCODE_FE)) s)
      else bindr (lookup_answer net s (mem s request)) (\<lambda>(found, ca, b).
        let s = upd request (\<lambda>_. b) (s\<lparr>cache := ca\<rparr>) in
        if \<not> found \<and> srvr_connectors net \<noteq> None then
          (let n = IntReqNum s;
               s = upd request (\<lambda>b. b\<lparr>src_ID := dns_ID (pkt b), qserver := srvr_connectors net, b_next := None\<rparr>) s;
               s = upd request (\<lambda>b. b\<lparr>ref_ID := n, pkt := put16 (pkt b) 0 n\<rparr>) (s\<lparr>IntReqNum := n + 1\<rparr>)
           in bindr (connector net (srvr_connectors net)) (\<lambda>c. Some (Ok
                (\<lparr>h_request = request, h_tmp_q = None, save_rq = True, c_sock = sock c, c_dest = c_addr c\<rparr>, s))))
        else reply_local net request
          (if found then s else upd request (pkt_update (\<lambda>p. or_OPT p DNS_OPT_RCODE_NE)) s)))"

text \<open>The middle part. A response without a query only leads to a warning.\<close>

definition handler_decide :: "dns_net \<Rightarrow> bytes option \<Rightarrow> nat \<Rightarrow> nat option \<Rightarrow> dns_state \<Rightarrow> (handler_local \<times> dns_state) run" where
  "handler_decide net block request q s =
     (if is_response (mem s request) then
        (case q of
           None \<Rightarrow> Some (Ok (\<lparr>h_request = request, h_tmp_q = None, save_rq = False, c_sock = -1, c_dest = 0\<rparr>, s))
         | Some k \<Rightarrow> handle_response net block request k s)
      else handle_query net request s)"

definition handler_send :: "handler_local \<Rightarrow> dns_state \<Rightarrow> dns_state" where
  "handler_send l s = (if c_sock l \<noteq> -1 then sendto s (c_sock l) (c_dest l) (mem s (h_request l)) else s)"

definition handler_free :: "handler_local \<Rightarrow> dns_state \<Rightarrow> dns_state" where
  "handler_free l s =
     (let s = (case h_tmp_q l of Some q \<Rightarrow> push_free q s | None \<Rightarrow> s)
      in if save_rq l then s else push_free (h_request l) s)"

definition handler_queue :: "handler_local \<Rightarrow> dns_state \<Rightarrow> dns_state" where
  "handler_queue l s = (if save_rq l then append_query (h_request l) s else s)"

definition thread_handler :: "dns_net \<Rightarrow> bytes option \<Rightarrow> nat \<Rightarrow> dns_state \<Rightarrow> dns_state run" where
  "thread_handler net block request s =
     bindr (handler_search request s) (\<lambda>(q, s).
     bindr (handler_decide net block request q s) (\<lambda>(l, s).
       Some (Ok (handler_queue l (handler_free l (handler_send l s))))))"

text \<open>\<open>thread_block\<close> waits while there is no message.\<close>

definition thread_block :: "dns_state \<Rightarrow> (nat \<times> dns_state) run" where
  "thread_block s = (case ready_buf s of None \<Rightarrow> None
     | Some a \<Rightarrow> Some (Ok (a, s\<lparr>ready_buf := b_next (mem s a)\<rparr>)))"

section \<open>The main loop\<close>

text \<open>A datagram: the sender, the result of \<open>recvfrom\<close> (negative for an error) and the bytes
  it stored.\<close>

type_synonym datagram = "nat \<times> int \<times> bytes"

definition zero_buffer :: dns_buffer where
  "zero_buffer = \<lparr>b_from = 0, qclient = None, qserver = None, ref_ID = 0, src_ID = 0, rcvtime = 0,
     b_next = None, b_prev = None, datalen = 0, pkt = replicate pkt_size 0\<rparr>"

definition take_buffer :: "bool \<Rightarrow> dns_state \<Rightarrow> (nat \<times> dns_state) outcome" where
  "take_buffer mem_ok s = (case free_buf s of
     Some a \<Rightarrow> Ok (a, upd a (\<lambda>_. zero_buffer) (s\<lparr>free_buf := b_next (mem s a)\<rparr>))
   | None \<Rightarrow> if mem_ok then Ok (brk s, upd (brk s) (\<lambda>_. zero_buffer) (s\<lparr>brk := brk s + 1\<rparr>))
            else Crash NullPointer)"

definition fill_buffer :: "nat \<Rightarrow> datagram \<Rightarrow> dns_buffer \<Rightarrow> dns_buffer" where
  "fill_buffer k d b = (case d of (from, n, bs) \<Rightarrow>
     b\<lparr>qclient := Some k, b_from := from, datalen := nat n,
       pkt := blit (pkt b) 0 (take (min (nat n) pkt_size) bs)\<rparr>)"

definition push_ready :: "nat \<Rightarrow> dns_state \<Rightarrow> dns_state" where
  "push_ready a s = (upd a (b_next_update (\<lambda>_. ready_buf s)) s)\<lparr>ready_buf := Some a\<rparr>"

text \<open>One readable connector. After a datagram that is too short the loop comes back to the same
  connector, whether or not there is another datagram; \<open>recvfrom\<close> then waits.\<close>

fun receive_conn :: "bool \<Rightarrow> nat \<Rightarrow> datagram list \<Rightarrow> dns_state \<Rightarrow> dns_state run" where
  "receive_conn mem_ok k [] s = None"
| "receive_conn mem_ok k (d # ds) s =
     bindr (Some (take_buffer mem_ok s)) (\<lambda>(a, s).
       let s = upd a (fill_buffer k d) s in
       if fst (snd d) < 17 then receive_conn mem_ok k ds (push_free a s)
       else Some (Ok (push_ready a (upd a (rcvtime_update (\<lambda>_. nat (cur_time s))) s))))"

fun receive_round :: "bool \<Rightarrow> (nat \<Rightarrow> bool) \<Rightarrow> (nat \<Rightarrow> datagram list) \<Rightarrow> nat list \<Rightarrow> dns_state \<Rightarrow> dns_state run" where
  "receive_round mem_ok fds inbox [] s = Some (Ok s)"
| "receive_round mem_ok fds inbox (k # ks) s =
     bindr (if fds k then receive_conn mem_ok k (inbox k) s else Some (Ok s))
       (receive_round mem_ok fds inbox ks)"

text \<open>The expiry of queries.\<close>

partial_function (option) sweep_queue :: "dns_net \<Rightarrow> nat option \<Rightarrow> dns_state \<Rightarrow> dns_state run" where
  "sweep_queue net p s = (case p of
     None \<Rightarrow> Some (Ok s)
   | Some a \<Rightarrow>
       let b = mem s a in
       if int (rcvtime b) < cur_time s then
         (case qserver b of
            None \<Rightarrow> Some (Crash NullPointer)
          | Some k \<Rightarrow>
              if Suc k < length (connectors net) then
                (let c = connectors net ! Suc k;
                     s = upd a (qserver_update (\<lambda>_. Some (Suc k))) s
                 in sweep_queue net (Some a) (sendto s (sock c) (c_addr c) (mem s a)))
              else sweep_queue net (b_next b) (push_free a (unlink_query a s)))
       else sweep_queue net (b_next b) s)"

text \<open>One iteration; \<open>fds\<close> is what \<open>select\<close> reports, or nothing after a timeout or a
  signal. The clock is read only when there is something to receive.\<close>

definition main_iteration ::
  "dns_net \<Rightarrow> bool \<Rightarrow> (nat \<times> (nat \<Rightarrow> bool) \<times> (nat \<Rightarrow> datagram list)) option \<Rightarrow> dns_state \<Rightarrow> dns_state run" where
  "main_iteration net mem_ok ready s =
     bindr (case ready of
         None \<Rightarrow> Some (Ok s)
       | Some (now, fds, inbox) \<Rightarrow>
           receive_round mem_ok fds inbox [0..<length (connectors net)] (s\<lparr>cur_time := int now\<rparr>)) (\<lambda>s.
     let s = s\<lparr>cur_time := cur_time s - 2\<rparr> in sweep_queue net (queue_head s) s)"

end
