(* ===== verification/DnsQueue.thy ===== *)
theory DnsQueue
  imports DnsServer
begin

text \<open>
  The lists of \<open>QX-dns/main.c\<close> as lists: what it means that the pointers in memory represent a
  doubly linked queue, a free list and a list of filled buffers, and what the operations of
  \<open>DnsServer\<close> do to the lists they represent.
\<close>

section \<open>Representation\<close>

definition first :: "nat list \<Rightarrow> nat option \<Rightarrow> nat option" where
  "first xs e = (case xs of [] \<Rightarrow> e | a # _ \<Rightarrow> Some a)"

definition final :: "nat option \<Rightarrow> nat list \<Rightarrow> nat option" where
  "final p xs = (if xs = [] then p else Some (last xs))"

lemma first_simps [simp]: "first [] e = e" "first (a # xs) e = Some a"
  "first (xs @ ys) e = first xs (first ys e)" "first (xs @ [a]) e = first xs (Some a)"
  by (auto simp: first_def split: list.split)

lemma final_simps [simp]: "final p [] = p" "final p (a # xs) = final (Some a) xs"
  "final p (xs @ ys) = final (final p xs) ys"
  by (auto simp: final_def)

fun dseg :: "(nat \<Rightarrow> dns_buffer) \<Rightarrow> nat option \<Rightarrow> nat list \<Rightarrow> nat option \<Rightarrow> bool" where
  "dseg m p [] e \<longleftrightarrow> True"
| "dseg m p (a # as) e \<longleftrightarrow> b_prev (m a) = p \<and> b_next (m a) = first as e \<and> dseg m (Some a) as e"

fun chain :: "(nat \<Rightarrow> dns_buffer) \<Rightarrow> nat option \<Rightarrow> nat list \<Rightarrow> bool" where
  "chain m p [] \<longleftrightarrow> p = None"
| "chain m p (a # as) \<longleftrightarrow> p = Some a \<and> chain m (b_next (m a)) as"

definition queue_rep :: "dns_state \<Rightarrow> nat list \<Rightarrow> bool" where
  "queue_rep s qs \<longleftrightarrow> queue_head s = first qs None \<and> queue_tail s = final None qs \<and> dseg (mem s) None qs None \<and> distinct qs"

lemma dseg_append: "dseg m p (xs @ ys) e \<longleftrightarrow> dseg m p xs (first ys e) \<and> dseg m (final p xs) ys e"
  by (induction xs arbitrary: p) auto

definition same_links :: "dns_buffer \<Rightarrow> dns_buffer \<Rightarrow> bool" where
  "same_links b c \<longleftrightarrow> b_next b = b_next c \<and> b_prev b = b_prev c"

lemma dseg_cong: "(\<And>a. a \<in> set xs \<Longrightarrow> same_links (m a) (m' a)) \<Longrightarrow> dseg m p xs e = dseg m' p xs e"
  by (induction xs arbitrary: p) (auto simp: same_links_def)

lemma chain_cong: "(\<And>a. a \<in> set xs \<Longrightarrow> b_next (m a) = b_next (m' a)) \<Longrightarrow> chain m p xs = chain m' p xs"
  by (induction xs arbitrary: p) auto

lemma dseg_outside [simp]: "k \<notin> set xs \<Longrightarrow> dseg (m(k := b)) p xs e = dseg m p xs e"
  by (rule dseg_cong) (auto simp: same_links_def)

lemma chain_outside [simp]: "k \<notin> set xs \<Longrightarrow> chain (m(k := b)) p xs = chain m p xs"
  by (rule chain_cong) auto

lemma upd_fields [simp]: "brk (upd a f s) = brk s" "free_buf (upd a f s) = free_buf s"
  "ready_buf (upd a f s) = ready_buf s" "queue_head (upd a f s) = queue_head s"
  "queue_tail (upd a f s) = queue_tail s" "IntReqNum (upd a f s) = IntReqNum s"
  "cache (upd a f s) = cache s" "cur_time (upd a f s) = cur_time s" "sent (upd a f s) = sent s"
  by (simp_all add: upd_def)

lemma mem_upd: "mem (upd a f s) = (mem s)(a := f (mem s a))"
  by (simp add: upd_def)

lemma mem_upd_app [simp]: "mem (upd a f s) k = (if k = a then f (mem s a) else mem s k)"
  by (simp add: upd_def)

lemma sendto_fields [simp]: "brk (sendto s fd to b) = brk s" "free_buf (sendto s fd to b) = free_buf s"
  "ready_buf (sendto s fd to b) = ready_buf s" "queue_head (sendto s fd to b) = queue_head s"
  "queue_tail (sendto s fd to b) = queue_tail s" "IntReqNum (sendto s fd to b) = IntReqNum s"
  "cache (sendto s fd to b) = cache s" "cur_time (sendto s fd to b) = cur_time s" "mem (sendto s fd to b) = mem s"
  "sent (sendto s fd to b) = sent s @ [(fd, to, take (datalen b) (pkt b))]"
  by (simp_all add: sendto_def)

section \<open>The queue operations\<close>

text \<open>The part of a buffer that the links do not hold.\<close>

definition content :: "dns_buffer \<Rightarrow> dns_buffer" where
  "content b = b\<lparr>b_next := None, b_prev := None\<rparr>"

lemma content_fields: "content b = content c \<Longrightarrow> b_from b = b_from c \<and> qclient b = qclient c \<and>
   qserver b = qserver c \<and> ref_ID b = ref_ID c \<and> src_ID b = src_ID c \<and> rcvtime b = rcvtime c \<and>
   datalen b = datalen c \<and> pkt b = pkt c"
  by (cases b; cases c) (simp add: content_def)

lemma content_links [simp]: "content (b_next_update f b) = content b" "content (b_prev_update f b) = content b"
  by (simp_all add: content_def)

lemma content_qserver: "content b = content c \<Longrightarrow> content (qserver_update f b) = content (qserver_update f c)"
  by (cases b; cases c) (simp add: content_def)

lemma unlink_frame:
  "content (mem (unlink_query a s) k) = content (mem s k)"
  "brk (unlink_query a s) = brk s" "free_buf (unlink_query a s) = free_buf s"
  "ready_buf (unlink_query a s) = ready_buf s" "IntReqNum (unlink_query a s) = IntReqNum s"
  "cache (unlink_query a s) = cache s" "cur_time (unlink_query a s) = cur_time s" "sent (unlink_query a s) = sent s"
  by (auto simp: unlink_query_def Let_def split: option.split)

lemma append_frame:
  "content (mem (append_query a s) k) = content (mem s k)"
  "brk (append_query a s) = brk s" "free_buf (append_query a s) = free_buf s"
  "ready_buf (append_query a s) = ready_buf s" "IntReqNum (append_query a s) = IntReqNum s"
  "cache (append_query a s) = cache s" "cur_time (append_query a s) = cur_time s" "sent (append_query a s) = sent s"
  by (auto simp: append_query_def Let_def split: option.split)

lemma unlink_rep:
  assumes "queue_rep s (xs @ a # ys)"
  shows "queue_rep (unlink_query a s) (xs @ ys)" "k \<notin> set (xs @ ys) \<Longrightarrow> mem (unlink_query a s) k = mem s k"
    "b_next (mem (unlink_query a s) a) = first ys None"
proof -
  have q: "queue_head s = first xs (Some a)" "queue_tail s = final (Some a) ys"
    "dseg (mem s) None xs (Some a)" "b_prev (mem s a) = final None xs" "b_next (mem s a) = first ys None"
    "dseg (mem s) (Some a) ys None" "distinct (xs @ a # ys)"
    using assms by (auto simp: queue_rep_def dseg_append)
  consider "xs = []" "ys = []" | y ys' where "xs = []" "ys = y # ys'" | x xs' where "xs = xs' @ [x]" "ys = []"
    | x xs' y ys' where "xs = xs' @ [x]" "ys = y # ys'"
    by (cases xs rule: rev_cases; cases ys) auto
  then have "queue_rep (unlink_query a s) (xs @ ys) \<and> (\<forall>k. k \<notin> set (xs @ ys) \<longrightarrow> mem (unlink_query a s) k = mem s k)"
  proof cases
    case 1
    then show ?thesis using q by (simp add: unlink_query_def queue_rep_def)
  next
    case (2 y ys')
    then show ?thesis using q by (auto simp: unlink_query_def queue_rep_def Let_def mem_upd)
  next
    case (3 x xs')
    then show ?thesis using q by (auto simp: unlink_query_def queue_rep_def Let_def mem_upd dseg_append)
  next
    case (4 x xs' y ys')
    then show ?thesis using q by (auto simp: unlink_query_def queue_rep_def Let_def mem_upd dseg_append)
  qed
  then show "queue_rep (unlink_query a s) (xs @ ys)" "k \<notin> set (xs @ ys) \<Longrightarrow> mem (unlink_query a s) k = mem s k"
    by blast+
  from \<open>_ \<and> _\<close> have "mem (unlink_query a s) a = mem s a" using q(7) by simp
  with q(5) show "b_next (mem (unlink_query a s) a) = first ys None" by simp
qed

lemma append_rep:
  assumes "queue_rep s qs" "a \<notin> set qs" "b_next (mem s a) = None"
  shows "queue_rep (append_query a s) (qs @ [a])" "k \<notin> set (qs @ [a]) \<Longrightarrow> mem (append_query a s) k = mem s k"
proof -
  have "queue_rep (append_query a s) (qs @ [a]) \<and> (\<forall>k. k \<notin> set (qs @ [a]) \<longrightarrow> mem (append_query a s) k = mem s k)"
    using assms
    by (cases qs rule: rev_cases) (auto simp: append_query_def queue_rep_def Let_def mem_upd dseg_append)
  then show "queue_rep (append_query a s) (qs @ [a])"
    "k \<notin> set (qs @ [a]) \<Longrightarrow> mem (append_query a s) k = mem s k" by blast+
qed

section \<open>Search\<close>

lemma find_query_list:
  "dseg m p qs None \<Longrightarrow> find_query m qid (first qs None) = Some (find (\<lambda>a. ref_ID (m a) = qid) qs)"
proof (induction qs arbitrary: p)
  case (Cons a qs)
  then have "b_next (m a) = first qs None"
    "find_query m qid (first qs None) = Some (find (\<lambda>a. ref_ID (m a) = qid) qs)" by auto
  then show ?case by (subst find_query.simps) simp
qed (subst find_query.simps; simp)

text \<open>A set of buffers that the search never leaves.\<close>

definition looping :: "(nat \<Rightarrow> dns_buffer) \<Rightarrow> nat set \<Rightarrow> bool" where
  "looping m S \<longleftrightarrow> (\<forall>a \<in> S. \<exists>b \<in> S. b_next (m a) = Some b)"

lemma find_query_closed:
  "find_query m qid p = Some r \<Longrightarrow> looping m S \<Longrightarrow> \<forall>x \<in> S. ref_ID (m x) \<noteq> qid \<Longrightarrow> x \<in> S \<Longrightarrow> p \<noteq> Some x"
proof (induction m qid p r arbitrary: x rule: find_query.raw_induct [rotated, consumes 1, case_names step])
  case (step f m qid p r)
  from step(3,5) obtain y where y: "y \<in> S" "b_next (m x) = Some y" by (auto simp: looping_def)
  have ne: "ref_ID (m x) \<noteq> qid" using step(4,5) by blast
  show ?case
  proof
    assume "p = Some x"
    then have "f m qid (Some y) = Some r" using step(2) ne y(2) by simp
    from step(1) [OF this step(3,4) y(1)] show False by simp
  qed
qed

lemma find_query_looping:
  assumes "looping m S" "a \<in> S" "\<forall>x \<in> S. ref_ID (m x) \<noteq> qid"
  shows "find_query m qid (Some a) = None"
  using find_query_closed [OF _ assms(1,3,2)] by (cases "find_query m qid (Some a)") auto

section \<open>All lists together\<close>

definition heap_ok :: "dns_state \<Rightarrow> nat list \<Rightarrow> nat list \<Rightarrow> nat list \<Rightarrow> bool" where
  "heap_ok s qs fs rs \<longleftrightarrow> queue_rep s qs \<and> chain (mem s) (free_buf s) fs \<and> chain (mem s) (ready_buf s) rs \<and>
     distinct (qs @ fs @ rs) \<and> (\<forall>a \<in> set (qs @ fs @ rs). a < brk s)"

definition fresh :: "nat \<Rightarrow> dns_state \<Rightarrow> nat list \<Rightarrow> bool" where
  "fresh a s ls \<longleftrightarrow> a \<notin> set ls \<and> a < brk s"

lemma heap_ok_other [simp]:
  "heap_ok (s\<lparr>IntReqNum := n\<rparr>) qs fs rs = heap_ok s qs fs rs"
  "heap_ok (s\<lparr>cache := ca\<rparr>) qs fs rs = heap_ok s qs fs rs"
  "heap_ok (s\<lparr>cur_time := t\<rparr>) qs fs rs = heap_ok s qs fs rs"
  "heap_ok (s\<lparr>sent := l\<rparr>) qs fs rs = heap_ok s qs fs rs"
  "heap_ok (sendto s fd to b) qs fs rs = heap_ok s qs fs rs"
  by (simp_all add: heap_ok_def queue_rep_def sendto_def)

lemma fresh_other [simp]: "fresh a (upd b f s) ls = fresh a s ls" "fresh a (sendto s fd to c) ls = fresh a s ls"
  "fresh a (s\<lparr>cache := ca\<rparr>) ls = fresh a s ls" "fresh a (s\<lparr>IntReqNum := n\<rparr>) ls = fresh a s ls"
  by (simp_all add: fresh_def sendto_def)

lemma upd_heap [simp]: "fresh a s (qs @ fs @ rs) \<Longrightarrow> heap_ok (upd a f s) qs fs rs = heap_ok s qs fs rs"
  by (simp add: heap_ok_def queue_rep_def mem_upd fresh_def)

lemma upd_heap_content:
  assumes "same_links (f (mem s a)) (mem s a)"
  shows "heap_ok (upd a f s) qs fs rs = heap_ok s qs fs rs"
proof -
  have l: "same_links (mem (upd a f s) k) (mem s k)" for k using assms by (simp add: same_links_def)
  then have "dseg (mem (upd a f s)) p xs e = dseg (mem s) p xs e" for p xs e by (intro dseg_cong) auto
  moreover have "chain (mem (upd a f s)) p xs = chain (mem s) p xs" for p xs
    using l by (intro chain_cong) (auto simp: same_links_def)
  ultimately show ?thesis by (simp add: heap_ok_def queue_rep_def)
qed

lemma push_free_heap:
  assumes "heap_ok s qs fs rs" "fresh a s (qs @ fs @ rs)"
  shows "heap_ok (push_free a s) qs (a # fs) rs"
  using assms by (auto simp: heap_ok_def queue_rep_def push_free_def fresh_def mem_upd)

lemma push_free_frame [simp]:
  "content (mem (push_free a s) k) = content (mem s k)" "b_next (mem (push_free a s) k) = (if k = a then free_buf s else b_next (mem s k))"
  "brk (push_free a s) = brk s" "IntReqNum (push_free a s) = IntReqNum s" "cache (push_free a s) = cache s"
  "cur_time (push_free a s) = cur_time s" "sent (push_free a s) = sent s" "ready_buf (push_free a s) = ready_buf s"
  "k \<noteq> a \<Longrightarrow> mem (push_free a s) k = mem s k"
  by (auto simp: push_free_def)

lemma fresh_push [simp]: "fresh b (push_free a s) ls = fresh b s ls"
  by (simp add: fresh_def)

lemma unlink_heap:
  assumes "heap_ok s (xs @ a # ys) fs rs"
  shows "heap_ok (unlink_query a s) (xs @ ys) fs rs" "fresh a (unlink_query a s) (xs @ ys @ fs @ rs)"
proof -
  have q: "queue_rep s (xs @ a # ys)" "chain (mem s) (free_buf s) fs" "chain (mem s) (ready_buf s) rs"
    "distinct (xs @ a # ys @ fs @ rs)" "\<forall>k \<in> set (xs @ a # ys @ fs @ rs). k < brk s"
    using assms by (auto simp: heap_ok_def)
  note u = unlink_rep [OF q(1)]
  have "mem (unlink_query a s) k = mem s k" if "k \<in> set fs \<union> set rs" for k
    using that q(4) by (intro u(2)) auto
  then have "chain (mem (unlink_query a s)) p fs = chain (mem s) p fs"
    "chain (mem (unlink_query a s)) p rs = chain (mem s) p rs" for p by (auto intro!: chain_cong)
  with u(1) q show "heap_ok (unlink_query a s) (xs @ ys) fs rs" by (auto simp: heap_ok_def unlink_frame)
  show "fresh a (unlink_query a s) (xs @ ys @ fs @ rs)" using q by (auto simp: fresh_def unlink_frame)
qed

lemma append_heap:
  assumes "heap_ok s qs fs rs" "fresh a s (qs @ fs @ rs)" "b_next (mem s a) = None"
  shows "heap_ok (append_query a s) (qs @ [a]) fs rs"
proof -
  have q: "queue_rep s qs" "chain (mem s) (free_buf s) fs" "chain (mem s) (ready_buf s) rs"
    "distinct (qs @ fs @ rs)" "\<forall>k \<in> set (qs @ fs @ rs). k < brk s" "a \<notin> set qs"
    using assms by (auto simp: heap_ok_def fresh_def)
  note u = append_rep [OF q(1,6) assms(3)]
  have "mem (append_query a s) k = mem s k" if "k \<in> set fs \<union> set rs" for k
    using that q(4) assms(2) by (intro u(2)) (auto simp: fresh_def)
  then have "chain (mem (append_query a s)) p fs = chain (mem s) p fs"
    "chain (mem (append_query a s)) p rs = chain (mem s) p rs" for p by (auto intro!: chain_cong)
  with u(1) q assms(2) show ?thesis by (auto simp: heap_ok_def append_frame fresh_def)
qed

lemma heap_queue: "heap_ok s qs fs rs \<Longrightarrow> queue_head s = first qs None \<and> dseg (mem s) None qs None"
  by (simp add: heap_ok_def queue_rep_def)

lemma heap_search:
  "heap_ok s qs fs rs \<Longrightarrow> find_query (mem s) qid (queue_head s) = Some (find (\<lambda>a. ref_ID (mem s a) = qid) qs)"
  using heap_queue find_query_list by metis

lemma find_split:
  assumes "find P xs = Some x"
  shows "\<exists>as bs. xs = as @ x # bs \<and> P x \<and> (\<forall>a \<in> set as. \<not> P a)"
  using assms
proof (induction xs)
  case (Cons y ys)
  show ?case
  proof (cases "P y")
    case True
    with Cons.prems show ?thesis by (intro exI [of _ "[]"] exI [of _ ys]) simp
  next
    case False
    with Cons.prems Cons.IH obtain as bs where "ys = as @ x # bs" "P x" "\<forall>a \<in> set as. \<not> P a" by auto
    with False show ?thesis by (intro exI [of _ "y # as"] exI [of _ bs]) simp
  qed
qed simp

end
