(* ===== verification/DnsProxy.thy ===== *)
theory DnsProxy
  imports DnsQueue
begin

text \<open>
  What the handler of \<open>QX-dns/main.c\<close> does with a message, in terms of the lists of
  \<open>DnsQueue\<close>: forwarding a query, delivering the response, handing a query to the next server,
  and what goes wrong there.
\<close>

section \<open>Forwarding\<close>

lemma thread_handler_query:
  "\<not> is_response (mem s a) \<Longrightarrow> thread_handler net blk a s =
     bindr (handle_query net a s) (\<lambda>(l, s). Some (Ok (handler_queue l (handler_free l (handler_send l s)))))"
  by (simp add: thread_handler_def handler_search_def handler_decide_def)

lemma connector_at [simp]: "k < length (connectors net) \<Longrightarrow> connector net (Some k) = Some (Ok (connectors net ! k))"
  by (simp add: connector_def)

text \<open>The buffer of a query as it goes to the server.\<close>

definition forwarded :: "dns_net \<Rightarrow> u16 \<Rightarrow> dns_buffer \<Rightarrow> dns_buffer" where
  "forwarded net n b = b\<lparr>src_ID := dns_ID (pkt b), qserver := srvr_connectors net, b_next := None,
     ref_ID := n, pkt := put16 (pkt b) 0 n\<rparr>"

lemma forward_run:
  assumes "\<not> is_response (mem s a)" "dns_QDCOUNT (pkt (mem s a)) = 0x0100"
    and "lookup_answer net s (mem s a) = Some (Ok (False, ca, b))"
    and "bind_count net < length (connectors net)" "sock (connectors net ! bind_count net) \<noteq> -1"
  shows "thread_handler net blk a s = Some (Ok (append_query a
    (sendto (upd a (\<lambda>_. forwarded net (IntReqNum s) b) (s\<lparr>cache := ca, IntReqNum := IntReqNum s + 1\<rparr>))
       (sock (connectors net ! bind_count net)) (c_addr (connectors net ! bind_count net))
       (forwarded net (IntReqNum s) b))))"
  using assms unfolding thread_handler_query [OF assms(1)]
  by (simp add: handle_query_def handler_send_def handler_free_def handler_queue_def srvr_connectors_def
      Let_def forwarded_def upd_def cong: dns_state.fold_congs)

text \<open>A query that neither the zones nor the cache answer goes to the first external server
  with a number of the proxy in place of its ID, and its buffer becomes the last element of the
  queue with the client's ID noted; all other buffers of the queue and both lists are as before.\<close>

theorem query_is_forwarded:
  assumes heap: "heap_ok s qs fs rs" "fresh a s (qs @ fs @ rs)"
    and query: "\<not> is_response (mem s a)" "dns_QDCOUNT (pkt (mem s a)) = 0x0100"
    and unknown: "lookup_answer net s (mem s a) = Some (Ok (False, ca, b))"
    and server: "bind_count net < length (connectors net)" "sock (connectors net ! bind_count net) \<noteq> -1"
  shows "\<exists>s'. thread_handler net blk a s = Some (Ok s') \<and> heap_ok s' (qs @ [a]) fs rs \<and>
    (let c = connectors net ! bind_count net in
     sent s' = sent s @ [(sock c, c_addr c, take (datalen b) (put16 (pkt b) 0 (IntReqNum s)))]) \<and>
    ref_ID (mem s' a) = IntReqNum s \<and> src_ID (mem s' a) = dns_ID (pkt b) \<and> b_from (mem s' a) = b_from b \<and>
    qserver (mem s' a) = Some (bind_count net) \<and> qclient (mem s' a) = qclient b \<and>
    IntReqNum s' = IntReqNum s + 1 \<and> (\<forall>k. k \<noteq> a \<longrightarrow> content (mem s' k) = content (mem s k))"
proof -
  let ?f = "forwarded net (IntReqNum s) b" and ?c = "connectors net ! bind_count net"
  let ?t = "sendto (upd a (\<lambda>_. ?f) (s\<lparr>cache := ca, IntReqNum := IntReqNum s + 1\<rparr>)) (sock ?c) (c_addr ?c) ?f"
  have run: "thread_handler net blk a s = Some (Ok (append_query a ?t))"
    by (rule forward_run [OF query unknown server])
  have t: "heap_ok ?t qs fs rs" "fresh a ?t (qs @ fs @ rs)" "mem ?t a = ?f" "b_next (mem ?t a) = None"
    using heap by (simp_all add: forwarded_def)
  have "content (mem (append_query a ?t) a) = content ?f" using t(3) by (simp add: append_frame)
  from content_fields [OF this] append_heap [OF t(1,2,4)] run show ?thesis
    by (intro exI [of _ "append_query a ?t"])
      (simp add: append_frame forwarded_def srvr_connectors_def server)
qed

section \<open>Delivering the response\<close>

definition keeps_query :: "dns_net \<Rightarrow> dns_buffer \<Rightarrow> dns_buffer \<Rightarrow> bool" where
  "keeps_query net r q \<longleftrightarrow> wants_other_server (dns_OPT (pkt r) AND DNS_OPT_RCODE_MASK) \<and>
     (\<exists>k. qserver q = Some k \<and> Suc k < length (connectors net))"

definition cacheable :: "dns_buffer \<Rightarrow> bool" where
  "cacheable r \<longleftrightarrow> (let opts = dns_OPT (pkt r) AND DNS_OPT_RCODE_MASK in
     opts = DNS_OPT_RCODE_OK \<or> opts = DNS_OPT_RCODE_NE)"

definition query_ok :: "dns_net \<Rightarrow> dns_buffer \<Rightarrow> bool" where
  "query_ok net q \<longleftrightarrow> (\<exists>k < length (connectors net). qclient q = Some k) \<and>
     (\<exists>k < length (connectors net). qserver q = Some k)"

lemma content_iff: "content b = content c \<Longrightarrow> is_response b = is_response c \<and> query_ok net b = query_ok net c \<and>
    keeps_query net r b = keeps_query net r c \<and> keeps_query net b q = keeps_query net c q \<and> cacheable b = cacheable c"
  by (drule content_fields) (simp add: is_response_def query_ok_def keeps_query_def cacheable_def)

lemma handle_response_answer:
  assumes q: "query_ok net (mem s q)" "\<not> keeps_query net (mem s r) (mem s q)"
    and add: "cacheable (mem s r) \<Longrightarrow> qxdns_cache_add blk (cache s) (mem s r) = Ok (b, ca)"
  shows "\<exists>k < length (connectors net). qclient (mem s q) = Some k \<and> handle_response net blk r q s = Some (Ok
    (\<lparr>h_request = r, h_tmp_q = Some q, save_rq = False, c_sock = sock (connectors net ! k), c_dest = b_from (mem s q)\<rparr>,
     upd r (\<lambda>b. b\<lparr>pkt := put16 (pkt b) 0 (src_ID (mem s q))\<rparr>)
       (if cacheable (mem s r) then s\<lparr>cache := ca\<rparr> else s)))"
proof -
  from q(1) obtain k j where k: "k < length (connectors net)" "qclient (mem s q) = Some k"
    "j < length (connectors net)" "qserver (mem s q) = Some j" by (auto simp: query_ok_def)
  let ?opts = "dns_OPT (pkt (mem s r)) AND DNS_OPT_RCODE_MASK"
  have nx: "(if wants_other_server ?opts then connector_next net (qserver (mem s q)) else Some (Ok None)) = Some (Ok None)"
    using q(2) k by (auto simp: connector_next_def keeps_query_def)
  show ?thesis
    using k add unfolding handle_response_def Let_def nx
    by (intro exI [of _ k]) (auto simp: cacheable_def Let_def)
qed

lemma response_run:
  assumes heap: "heap_ok s (xs @ q # ys) fs rs" "fresh r s (xs @ q # ys @ fs @ rs)"
    and r: "is_response (mem s r)" and q: "query_ok net (mem s q)" "\<not> keeps_query net (mem s r) (mem s q)"
    and add: "cacheable (mem s r) \<Longrightarrow> qxdns_cache_add blk (cache s) (mem s r) = Ok (b, ca)"
    and found: "find (\<lambda>q. ref_ID (mem s q) = dns_ID (pkt (mem s r))) (xs @ q # ys) = Some q"
    and socks: "\<forall>k < length (connectors net). sock (connectors net ! k) \<noteq> -1"
  shows "\<exists>k s'. qclient (mem s q) = Some k \<and> thread_handler net blk r s = Some (Ok s') \<and>
    heap_ok s' (xs @ ys) (r # q # fs) rs \<and>
    sent s' = sent s @ [(sock (connectors net ! k), b_from (mem s q),
      take (datalen (mem s r)) (put16 (pkt (mem s r)) 0 (src_ID (mem s q))))] \<and>
    cache s' = (if cacheable (mem s r) then ca else cache s) \<and> brk s' = brk s \<and> IntReqNum s' = IntReqNum s \<and>
    cur_time s' = cur_time s \<and> (\<forall>k. k \<noteq> r \<longrightarrow> content (mem s' k) = content (mem s k))"
proof -
  let ?u = "unlink_query q s"
  note u = unlink_heap [OF heap(1)]
  have rq: "r \<notin> set (xs @ ys)" "r \<noteq> q" using heap(2) by (auto simp: fresh_def)
  have "queue_rep s (xs @ q # ys)" using heap(1) by (simp add: heap_ok_def)
  from unlink_rep(2) [OF this rq(1)] have ur: "mem ?u r = mem s r" .
  have uq: "content (mem ?u q) = content (mem s q)" by (simp add: unlink_frame)
  note uf = content_fields [OF uq]
  have ucache: "cache ?u = cache s" by (simp add: unlink_frame)
  have "query_ok net (mem ?u q)" "\<not> keeps_query net (mem ?u r) (mem ?u q)"
    using q content_iff [OF uq] ur by auto
  from handle_response_answer [OF this, of blk b ca] add ur ucache uf obtain k where
    k: "k < length (connectors net)" "qclient (mem s q) = Some k" and
    hr: "handle_response net blk r q ?u = Some (Ok
      (\<lparr>h_request = r, h_tmp_q = Some q, save_rq = False, c_sock = sock (connectors net ! k), c_dest = b_from (mem s q)\<rparr>,
       upd r (\<lambda>b. b\<lparr>pkt := put16 (pkt b) 0 (src_ID (mem s q))\<rparr>) (if cacheable (mem s r) then ?u\<lparr>cache := ca\<rparr> else ?u)))"
    by auto
  define v where "v = (if cacheable (mem s r) then ?u\<lparr>cache := ca\<rparr> else ?u)"
  define w where "w = upd r (\<lambda>b. b\<lparr>pkt := put16 (pkt b) 0 (src_ID (mem s q))\<rparr>) v"
  define t where "t = sendto w (sock (connectors net ! k)) (b_from (mem s q)) (mem w r)"
  have run: "thread_handler net blk r s = Some (Ok (push_free r (push_free q t)))"
    using heap_search [OF heap(1)] found r ur hr k(1) socks
    by (simp add: thread_handler_def handler_search_def handler_decide_def handler_send_def handler_free_def
        handler_queue_def t_def w_def v_def [symmetric])
  have v: "heap_ok v (xs @ ys) fs rs" "fresh q v (xs @ ys @ fs @ rs)" "fresh r v (xs @ q # ys @ fs @ rs)" "mem v = mem ?u"
    using u heap(2) by (auto simp: v_def fresh_def unlink_frame)
  have t: "heap_ok t (xs @ ys) fs rs" "fresh q t (xs @ ys @ fs @ rs)" "fresh r t (xs @ ys @ (q # fs) @ rs)"
    using v by (auto simp: t_def w_def fresh_def)
  have heap': "heap_ok (push_free r (push_free q t)) (xs @ ys) (r # q # fs) rs"
    using push_free_heap [OF t(1)] t(2,3) push_free_heap [of "push_free q t" "xs @ ys" "q # fs" rs r] by simp
  have "mem w r = (mem s r)\<lparr>pkt := put16 (pkt (mem s r)) 0 (src_ID (mem s q))\<rparr>" using v(4) ur by (simp add: w_def)
  then have "sent t = sent s @ [(sock (connectors net ! k), b_from (mem s q),
      take (datalen (mem s r)) (put16 (pkt (mem s r)) 0 (src_ID (mem s q))))]"
    by (simp add: t_def w_def v_def unlink_frame)
  moreover have "cache t = (if cacheable (mem s r) then ca else cache s)" "brk t = brk s" "IntReqNum t = IntReqNum s" "cur_time t = cur_time s"
    by (simp_all add: t_def w_def v_def unlink_frame)
  moreover have "\<forall>k. k \<noteq> r \<longrightarrow> content (mem t k) = content (mem s k)"
    using v(4) by (simp add: t_def w_def unlink_frame)
  ultimately show ?thesis using run heap' k(2) by (intro exI [of _ k] exI [of _ "push_free r (push_free q t)"]) simp
qed

section \<open>Handing a query to the next server\<close>

lemma keep_run:
  assumes heap: "heap_ok s (xs @ q # ys) fs rs" "fresh r s (xs @ q # ys @ fs @ rs)"
    and r: "is_response (mem s r)" and keeps: "keeps_query net (mem s r) (mem s q)"
    and found: "find (\<lambda>q. ref_ID (mem s q) = dns_ID (pkt (mem s r))) (xs @ q # ys) = Some q"
    and socks: "\<forall>k < length (connectors net). sock (connectors net ! k) \<noteq> -1"
  shows "\<exists>k t. qserver (mem s q) = Some k \<and> Suc k < length (connectors net) \<and>
    thread_handler net blk r s = Some (Ok (append_query q t)) \<and>
    heap_ok t (xs @ ys) (r # fs) rs \<and> fresh q t (xs @ ys @ (r # fs) @ rs) \<and> b_next (mem t q) = first ys None \<and>
    content (mem t q) = content ((mem s q)\<lparr>qserver := Some (Suc k)\<rparr>) \<and>
    (\<forall>a. a \<noteq> q \<longrightarrow> content (mem t a) = content (mem s a)) \<and>
    sent t = sent s @ [(sock (connectors net ! Suc k), c_addr (connectors net ! Suc k), take (datalen (mem s q)) (pkt (mem s q)))] \<and>
    cur_time t = cur_time s \<and> brk t = brk s"
proof -
  let ?u = "unlink_query q s"
  note u = unlink_heap [OF heap(1)]
  have rq: "r \<notin> set (xs @ ys)" "r \<noteq> q" using heap(2) by (auto simp: fresh_def)
  have qr: "queue_rep s (xs @ q # ys)" using heap(1) by (simp add: heap_ok_def)
  from unlink_rep(2) [OF this rq(1)] have ur: "mem ?u r = mem s r" .
  have uq: "content (mem ?u q) = content (mem s q)" by (simp add: unlink_frame)
  note uf = content_fields [OF uq]
  from keeps obtain k where k: "qserver (mem s q) = Some k" "Suc k < length (connectors net)"
    and w: "wants_other_server (dns_OPT (pkt (mem s r)) AND DNS_OPT_RCODE_MASK)" by (auto simp: keeps_query_def)
  let ?c = "connectors net ! Suc k"
  define v where "v = upd q (qserver_update (\<lambda>_. Some (Suc k))) ?u"
  define t where "t = push_free r (sendto v (sock ?c) (c_addr ?c) (mem v q))"
  have run: "thread_handler net blk r s = Some (Ok (append_query q t))"
    using heap_search [OF heap(1)] found r ur uf k w socks
    by (simp add: thread_handler_def handler_search_def handler_decide_def handle_response_def Let_def
        connector_next_def handler_send_def handler_free_def handler_queue_def t_def v_def)
  have v: "heap_ok v (xs @ ys) fs rs" "fresh r v (xs @ ys @ fs @ rs)" "fresh q v (xs @ ys @ fs @ rs)"
    using u heap(2) by (auto simp: v_def fresh_def unlink_frame)
  have vq: "b_next (mem v q) = first ys None" "content (mem v q) = content ((mem s q)\<lparr>qserver := Some (Suc k)\<rparr>)"
    using unlink_rep(3) [OF qr] content_qserver [OF uq] by (simp_all add: v_def)
  have "heap_ok t (xs @ ys) (r # fs) rs" using push_free_heap [of "sendto v (sock ?c) (c_addr ?c) (mem v q)" "xs @ ys" fs rs r] v(1,2)
    by (simp add: t_def fresh_def)
  moreover have "fresh q t (xs @ ys @ (r # fs) @ rs)" using v(3) rq(2) by (auto simp: t_def fresh_def)
  moreover have "sent t = sent s @ [(sock ?c, c_addr ?c, take (datalen (mem s q)) (pkt (mem s q)))]"
    using uf by (simp add: t_def v_def unlink_frame)
  moreover have "\<forall>a. a \<noteq> q \<longrightarrow> content (mem t a) = content (mem s a)" by (simp add: t_def v_def unlink_frame)
  ultimately show ?thesis using run k vq rq(2)
    by (intro exI [of _ k] exI [of _ t]) (auto simp: t_def v_def unlink_frame)
qed

text \<open>C12: A response that carries the number of a query in the queue. If its result code asks for
  another server and there is a further one, the response is dropped and the query is sent to that
  server and queued again, with the server noted. Otherwise the client of the query gets the response
  with the ID the client chose, the query leaves the queue, both buffers return to the free list,
  and the cache has seen the response when its code is success or a missing name. Assumed are the
  invariants of the running proxy: the queue and the lists are well-formed, the query notes
  connectors that exist, their sockets are open, and adding to the cache does not crash.\<close>

theorem response_reaches_client_or_next_server:
  assumes heap: "heap_ok s qs fs rs" "fresh r s (qs @ fs @ rs)"
    and r: "is_response (mem s r)" and found: "find (\<lambda>q. ref_ID (mem s q) = dns_ID (pkt (mem s r))) qs = Some q"
    and q: "query_ok net (mem s q)"
    and add: "cacheable (mem s r) \<longrightarrow> qxdns_cache_add blk (cache s) (mem s r) = Ok (b, ca)"
    and socks: "\<forall>k < length (connectors net). sock (connectors net ! k) \<noteq> -1"
  shows "if keeps_query net (mem s r) (mem s q)
    then \<exists>k t. qserver (mem s q) = Some k \<and> Suc k < length (connectors net) \<and>
      thread_handler net blk r s = Some (Ok (append_query q t)) \<and>
      heap_ok t (remove1 q qs) (r # fs) rs \<and>
      content (mem t q) = content ((mem s q)\<lparr>qserver := Some (Suc k)\<rparr>) \<and>
      sent t = sent s @ [(sock (connectors net ! Suc k), c_addr (connectors net ! Suc k),
        take (datalen (mem s q)) (pkt (mem s q)))]
    else \<exists>k s'. qclient (mem s q) = Some k \<and> thread_handler net blk r s = Some (Ok s') \<and>
      heap_ok s' (remove1 q qs) (r # q # fs) rs \<and>
      sent s' = sent s @ [(sock (connectors net ! k), b_from (mem s q),
        take (datalen (mem s r)) (put16 (pkt (mem s r)) 0 (src_ID (mem s q))))] \<and>
      cache s' = (if cacheable (mem s r) then ca else cache s)"
proof -
  from find_split [OF found] obtain xs ys where qs: "qs = xs @ q # ys" "\<forall>a \<in> set xs. ref_ID (mem s a) \<noteq> dns_ID (pkt (mem s r))"
    and id: "ref_ID (mem s q) = dns_ID (pkt (mem s r))" by blast
  then have "q \<notin> set xs" by auto
  then have rm: "remove1 q qs = xs @ ys" using qs by (simp add: remove1_append)
  have fr: "fresh r s (xs @ q # ys @ fs @ rs)" using heap(2) qs(1) by simp
  show ?thesis
  proof (cases "keeps_query net (mem s r) (mem s q)")
    case True
    with keep_run [OF heap(1) [unfolded qs(1)] fr r True found [unfolded qs(1)] socks, of blk] rm show ?thesis by auto
  next
    case False
    with response_run [OF heap(1) [unfolded qs(1)] fr r q False _ found [unfolded qs(1)] socks, of blk b ca] add rm
    show ?thesis by auto
  qed
qed

lemma sweep_closed:
  "sweep_queue net p s = Some r \<Longrightarrow> looping (mem s) S \<Longrightarrow> \<forall>x \<in> S. \<not> int (rcvtime (mem s x)) < cur_time s \<Longrightarrow>
   x \<in> S \<Longrightarrow> p \<noteq> Some x"
proof (induction net p s r arbitrary: x rule: sweep_queue.raw_induct [rotated, consumes 1, case_names step])
  case (step f net p s r)
  from step(3,5) obtain y where y: "y \<in> S" "b_next (mem s x) = Some y" by (auto simp: looping_def)
  have ne: "\<not> int (rcvtime (mem s x)) < cur_time s" using step(4,5) by blast
  show ?case
  proof
    assume "p = Some x"
    then have "f net (Some y) s = Some r" using step(2) ne y(2) by (simp add: Let_def)
    from step(1) [OF this step(3,4) y(1)] show False by simp
  qed
qed

lemma stale_append:
  assumes "queue_rep t zs" "q \<notin> set zs" "b_next (mem t q) = Some y" "y \<in> set zs"
  shows "looping (mem (append_query q t)) (insert q (set zs))" "queue_head (append_query q t) = Some (hd zs)"
proof -
  from assms(4) obtain ws z where zs: "zs = ws @ [z]" by (cases zs rule: rev_cases) auto
  have w: "dseg (mem t) None ws (Some z)" "z \<notin> set ws" "queue_tail t = Some z" "queue_head t = Some (hd zs)"
    using assms(1) zs by (auto simp: queue_rep_def dseg_append first_def split: list.split)
  have m: "mem (append_query q t) = (mem t)(q := (mem t q)\<lparr>b_prev := Some z\<rparr>, z := (mem t z)\<lparr>b_next := Some q\<rparr>)"
    using w(3) assms(2) zs by (auto simp: append_query_def Let_def mem_upd fun_eq_iff)
  have "\<exists>b \<in> set zs. b_next (mem t a) = Some b" if "a \<in> set ws" for a
  proof -
    from that obtain as bs where "ws = as @ a # bs" by (meson split_list)
    with w(1) have "b_next (mem t a) = first bs (Some z)" by (simp add: dseg_append)
    then show ?thesis using zs \<open>ws = as @ a # bs\<close> by (cases bs) auto
  qed
  then show "looping (mem (append_query q t)) (insert q (set zs))"
    using assms(2-4) zs w(2) unfolding looping_def m by (auto dest!: bspec)
  show "queue_head (append_query q t) = Some (hd zs)" using w by (simp add: append_query_def Let_def)
qed

text \<open>After a server failure the query goes to the next server and is put back at the end of the
  queue, but its \<open>next\<close> member keeps the value it had in its old place. Unless the query was
  the last one, the queue is now circular: the handler of any response with an unknown number and
  the next check for expired queries, when none has expired, search for ever while they hold the
  lock of the queue.\<close>

theorem resent_query_makes_queue_circular:
  assumes heap: "heap_ok s (xs @ q # ys) fs rs" "fresh r s (xs @ q # ys @ fs @ rs)" and last: "ys \<noteq> []"
    and r: "is_response (mem s r)" and keeps: "keeps_query net (mem s r) (mem s q)"
    and found: "find (\<lambda>q. ref_ID (mem s q) = dns_ID (pkt (mem s r))) (xs @ q # ys) = Some q"
    and socks: "\<forall>k < length (connectors net). sock (connectors net ! k) \<noteq> -1"
  shows "\<exists>s'. thread_handler net blk r s = Some (Ok s') \<and>
    (\<forall>a blk'. is_response (mem s' a) \<and> (\<forall>x \<in> set (xs @ q # ys). ref_ID (mem s x) \<noteq> dns_ID (pkt (mem s' a)))
       \<longrightarrow> thread_handler net blk' a s' = None) \<and>
    ((\<forall>x \<in> set (xs @ q # ys). cur_time s \<le> int (rcvtime (mem s x)) + 2) \<longrightarrow> main_iteration net mem_ok None s' = None)"
proof -
  from keep_run [OF heap r keeps found socks, of blk] obtain k t where
    run: "thread_handler net blk r s = Some (Ok (append_query q t))" and
    t: "heap_ok t (xs @ ys) (r # fs) rs" "fresh q t (xs @ ys @ (r # fs) @ rs)" "b_next (mem t q) = first ys None"
      "content (mem t q) = content ((mem s q)\<lparr>qserver := Some (Suc k)\<rparr>)" "\<forall>a. a \<noteq> q \<longrightarrow> content (mem t a) = content (mem s a)"
      "cur_time t = cur_time s" by blast
  let ?s = "append_query q t" and ?S = "insert q (set (xs @ ys))"
  have nx: "b_next (mem t q) = Some (hd ys)" "hd ys \<in> set (xs @ ys)" using t(3) last by (cases ys; simp)+
  have "queue_rep t (xs @ ys)" "q \<notin> set (xs @ ys)" using t(1,2) by (auto simp: heap_ok_def fresh_def)
  note loop = stale_append [OF this nx]
  have hd: "hd (xs @ ys) \<in> ?S" using last by (cases xs; cases ys) auto
  have same: "ref_ID (mem ?s x) = ref_ID (mem s x) \<and> rcvtime (mem ?s x) = rcvtime (mem s x)" for x
  proof (cases "x = q")
    case True
    have "content (mem ?s q) = content ((mem s q)\<lparr>qserver := Some (Suc k)\<rparr>)" using t(4) by (simp add: append_frame)
    from content_fields [OF this] True show ?thesis by simp
  next
    case False
    then have "content (mem ?s x) = content (mem s x)" using t(5) by (simp add: append_frame)
    from content_fields [OF this] show ?thesis by simp
  qed
  have "thread_handler net blk' a ?s = None"
    if "is_response (mem ?s a)" "\<forall>x \<in> set (xs @ q # ys). ref_ID (mem s x) \<noteq> dns_ID (pkt (mem ?s a))" for a blk'
  proof -
    have "find_query (mem ?s) (dns_ID (pkt (mem ?s a))) (queue_head ?s) = None"
      unfolding loop(2) by (rule find_query_looping [OF loop(1) hd]) (use that(2) same in auto)
    with that(1) show ?thesis by (simp add: thread_handler_def handler_search_def)
  qed
  moreover have "main_iteration net mem_ok None ?s = None"
    if live: "\<forall>x \<in> set (xs @ q # ys). cur_time s \<le> int (rcvtime (mem s x)) + 2"
  proof -
    let ?t = "?s\<lparr>cur_time := cur_time ?s - 2\<rparr>"
    have "\<not> int (rcvtime (mem ?t x)) < cur_time ?t" if "x \<in> ?S" for x
    proof -
      have "cur_time s \<le> int (rcvtime (mem s x)) + 2" using live that by auto
      then show ?thesis using same [of x] t(6) by (simp add: append_frame)
    qed
    then have "sweep_queue net (Some (hd (xs @ ys))) ?t \<noteq> Some r" for r
      using sweep_closed [of net _ ?t r ?S] loop(1) hd by auto
    then show ?thesis using loop(2) by (cases "sweep_queue net (Some (hd (xs @ ys))) ?t") (auto simp: main_iteration_def Let_def)
  qed
  ultimately show ?thesis using run by blast
qed

section \<open>Examples\<close>

text \<open>One listening socket and two servers; two queries wait, buffer 2 is in a handler and
  buffer 3 is free.\<close>

definition demo_net :: dns_net where
  "demo_net = \<lparr>connectors = [\<lparr>sock = 3, c_addr = 100\<rparr>, \<lparr>sock = 4, c_addr = 101\<rparr>, \<lparr>sock = 5, c_addr = 102\<rparr>],
     bind_count = 1, zones = []\<rparr>"

definition demo_pkt :: "byte \<Rightarrow> byte \<Rightarrow> byte \<Rightarrow> bytes" where
  "demo_pkt n qr rcode = [n, 0, qr, rcode, 0, 1, 0, 0, 0, 0, 0, 0, 1, 97, 0, 0, 1, 0, 1] @ replicate 493 0"

definition demo_buf :: "nat \<Rightarrow> nat option \<Rightarrow> nat option \<Rightarrow> bytes \<Rightarrow> dns_buffer" where
  "demo_buf n nx pv p = \<lparr>b_from = 200 + n, qclient = Some 0, qserver = Some 1, ref_ID = of_nat (6 + n), src_ID = of_nat (40 + n),
     rcvtime = 10, b_next = nx, b_prev = pv, datalen = 19, pkt = p\<rparr>"

definition demo_state :: "bytes \<Rightarrow> dns_state" where
  "demo_state p = \<lparr>mem = (\<lambda>a. if a = 0 then demo_buf 0 (Some 1) None (demo_pkt 6 1 0)
       else if a = 1 then demo_buf 1 None (Some 0) (demo_pkt 7 1 0) else demo_buf a None None p), brk = 4,
     free_buf = Some 3, ready_buf = None, queue_head = Some 0, queue_tail = Some 1, IntReqNum = 8,
     cache = \<lparr>CacheROOT = [], CacheMAX = 3, CacheTTL = 60\<rparr>, cur_time = 11, sent = []\<rparr>"

lemmas demo_state_defs = demo_net_def demo_pkt_def demo_buf_def demo_state_def

lemma demo_heap: "heap_ok (demo_state p) [0, 1] [3] []" "fresh 2 (demo_state p) ([0, 1] @ [3] @ [])"
  by (simp_all add: heap_ok_def queue_rep_def fresh_def demo_state_def demo_buf_def final_def)

lemma demo_socks: "\<forall>k < length (connectors demo_net). sock (connectors demo_net ! k) \<noteq> -1"
  by (auto simp: demo_net_def less_Suc_eq)

lemma master_empty: "qxdns_master_lookup [] b = Some (Ok (False, b))"
  by (simp add: qxdns_master_lookup_def lookup_A_def lookup_PTR_def Let_def)

lemma demo_query_kind: "\<not> is_response (mem (demo_state (demo_pkt 9 1 0)) 2)"
  "dns_QDCOUNT (pkt (mem (demo_state (demo_pkt 9 1 0)) 2)) = 0x0100"
  "lookup_answer demo_net (demo_state (demo_pkt 9 1 0)) (mem (demo_state (demo_pkt 9 1 0)) 2) =
     Some (Ok (False, cache (demo_state (demo_pkt 9 1 0)), mem (demo_state (demo_pkt 9 1 0)) 2))"
  by (simp_all add: demo_state_defs is_response_def get16_def DNS_OPT_QR_def lookup_answer_def qxdns_cache_lookup_def
      master_empty)

theorem query_is_forwarded_witness:
  "\<exists>s'. thread_handler demo_net None 2 (demo_state (demo_pkt 9 1 0)) = Some (Ok s') \<and> heap_ok s' [0, 1, 2] [3] [] \<and>
     ref_ID (mem s' 2) = 8 \<and> src_ID (mem s' 2) = 9"
proof -
  have "bind_count demo_net < length (connectors demo_net)" "sock (connectors demo_net ! bind_count demo_net) \<noteq> -1"
    by (simp_all add: demo_net_def)
  from query_is_forwarded [OF demo_heap demo_query_kind this, of None] show ?thesis
    by (auto simp: demo_state_def demo_buf_def demo_pkt_def get16_def)
qed

text \<open>Buffer 2 holds a format error for the second query, then a server failure for the first.\<close>

definition demo_FE :: dns_state where "demo_FE = demo_state (demo_pkt 7 128 1)"
definition demo_SF :: dns_state where "demo_SF = demo_state (demo_pkt 6 128 2)"

lemmas demo_answer_defs = demo_FE_def demo_SF_def demo_state_defs dns_consts is_response_def keeps_query_def cacheable_def
  wants_other_server_def query_ok_def get16_def

lemma demo_FE_heap: "heap_ok demo_FE [0, 1] [3] []" "fresh 2 demo_FE ([0, 1] @ [3] @ [])"
  using demo_heap by (simp_all add: demo_FE_def)

lemma demo_FE_facts: "is_response (mem demo_FE 2)" "find (\<lambda>q. ref_ID (mem demo_FE q) = dns_ID (pkt (mem demo_FE 2))) [0, 1] = Some 1"
  "query_ok demo_net (mem demo_FE 1)"
  "cacheable (mem demo_FE 2) \<longrightarrow> qxdns_cache_add None (cache demo_FE) (mem demo_FE 2) = Ok (False, cache demo_FE)"
  "\<not> keeps_query demo_net (mem demo_FE 2) (mem demo_FE 1)"
  by (simp_all add: demo_answer_defs)

lemma demo_SF_first: "is_response (mem demo_SF 2)" "find (\<lambda>q. ref_ID (mem demo_SF q) = dns_ID (pkt (mem demo_SF 2))) [0, 1] = Some 0"
  "query_ok demo_net (mem demo_SF 0)"
  "cacheable (mem demo_SF 2) \<longrightarrow> qxdns_cache_add None (cache demo_SF) (mem demo_SF 2) = Ok (False, cache demo_SF)"
  "keeps_query demo_net (mem demo_SF 2) (mem demo_SF 0)" "heap_ok demo_SF [0, 1] [3] []" "fresh 2 demo_SF ([0, 1] @ [3] @ [])"
  using demo_heap by (simp_all add: demo_answer_defs)

theorem response_reaches_client_or_next_server_witness:
  "(\<exists>s'. thread_handler demo_net None 2 demo_FE = Some (Ok s') \<and> heap_ok s' [0] [2, 1, 3] [] \<and>
     sent s' = [(3, 201, take 19 (put16 (demo_pkt 7 128 1) 0 41))]) \<and>
   (\<exists>t. thread_handler demo_net None 2 demo_SF = Some (Ok (append_query 0 t)) \<and> heap_ok t [1] [2, 3] [] \<and>
     sent t = [(5, 102, take 19 (demo_pkt 6 1 0))])"
proof
  from response_reaches_client_or_next_server [OF demo_FE_heap demo_FE_facts(1-4) demo_socks] demo_FE_facts(5)
  show "\<exists>s'. thread_handler demo_net None 2 demo_FE = Some (Ok s') \<and> heap_ok s' [0] [2, 1, 3] [] \<and>
     sent s' = [(3, 201, take 19 (put16 (demo_pkt 7 128 1) 0 41))]"
    by (auto simp: demo_FE_def demo_state_def demo_buf_def demo_net_def)
next
  from response_reaches_client_or_next_server [OF demo_SF_first(6,7,1-4) demo_socks] demo_SF_first(5)
  show "\<exists>t. thread_handler demo_net None 2 demo_SF = Some (Ok (append_query 0 t)) \<and> heap_ok t [1] [2, 3] [] \<and>
     sent t = [(5, 102, take 19 (demo_pkt 6 1 0))]"
    by (auto simp: demo_SF_def demo_state_def demo_buf_def demo_net_def)
qed

lemma demo_SF_facts: "is_response (mem demo_SF 2)" "keeps_query demo_net (mem demo_SF 2) (mem demo_SF 0)"
  "find (\<lambda>q. ref_ID (mem demo_SF q) = dns_ID (pkt (mem demo_SF 2))) ([] @ 0 # [1]) = Some 0"
  "heap_ok demo_SF ([] @ 0 # [1]) [3] []" "fresh 2 demo_SF ([] @ 0 # [1] @ [3] @ [])" "[1 :: nat] \<noteq> []"
  using demo_heap by (simp_all add: demo_answer_defs)

theorem resent_query_makes_queue_circular_witness:
  "\<exists>s'. thread_handler demo_net None 2 demo_SF = Some (Ok s') \<and> main_iteration demo_net True None s' = None"
proof -
  have live: "\<forall>x \<in> set ([] @ 0 # [1]). cur_time demo_SF \<le> int (rcvtime (mem demo_SF x)) + 2"
    by (simp add: demo_answer_defs)
  show ?thesis
    using resent_query_makes_queue_circular [OF demo_SF_facts(4,5,6,1,2,3) demo_socks] live by blast
qed

end
