(* ===== verification/DnsLoop.thy ===== *)
theory DnsLoop
  imports DnsProxy
begin

text \<open>
  The main loop of \<open>QX-dns/main.c\<close>: the expiry of queries, and the invariant that every buffer
  is in exactly one of the three lists or in the hands of one thread.
\<close>

section \<open>Expiry\<close>

definition expired :: "dns_state \<Rightarrow> nat \<Rightarrow> bool" where
  "expired s a \<longleftrightarrow> int (rcvtime (mem s a)) < cur_time s"

text \<open>The messages to all servers after the one that was asked last.\<close>

definition resends :: "dns_net \<Rightarrow> dns_buffer \<Rightarrow> (int \<times> nat \<times> bytes) list" where
  "resends net b = (case qserver b of None \<Rightarrow> []
     | Some k \<Rightarrow> map (\<lambda>j. (sock (connectors net ! j), c_addr (connectors net ! j), take (datalen b) (pkt b)))
         [Suc k..<length (connectors net)])"

lemma resends_content: "content b = content c \<Longrightarrow> resends net b = resends net c"
  by (drule content_fields) (simp add: resends_def split: option.split)

definition resent :: "dns_net \<Rightarrow> nat \<Rightarrow> dns_state \<Rightarrow> dns_state" where
  "resent net a s = (upd a (qserver_update (\<lambda>_. Some (length (connectors net) - 1))) s)
     \<lparr>sent := sent s @ resends net (mem s a)\<rparr>"

lemma upd_idle: "f (mem s a) = mem s a \<Longrightarrow> upd a f s = s"
  by (simp add: upd_def)

lemma sweep_live: "\<not> expired s a \<Longrightarrow> sweep_queue net (Some a) s = sweep_queue net (b_next (mem s a)) s"
  by (subst sweep_queue.simps) (simp add: expired_def Let_def)

lemma sweep_expired:
  assumes "expired s a" "qserver (mem s a) = Some k" "k < length (connectors net)"
  shows "sweep_queue net (Some a) s = sweep_queue net (b_next (mem s a)) (push_free a (unlink_query a (resent net a s)))"
  using assms
proof (induction "length (connectors net) - Suc k" arbitrary: k s)
  case 0
  then have k: "length (connectors net) - 1 = k" "\<not> Suc k < length (connectors net)" by simp_all
  then have "resends net (mem s a) = []" using 0 by (simp add: resends_def)
  moreover have "upd a (qserver_update (\<lambda>_. Some k)) s = s" by (rule upd_idle) (use 0 in simp)
  ultimately have "resent net a s = s" unfolding resent_def k(1) by simp
  then show ?case using 0 k(2) by (subst sweep_queue.simps) (simp add: expired_def Let_def)
next
  case (Suc n)
  then have k: "Suc k < length (connectors net)" by simp
  let ?c = "connectors net ! Suc k"
  let ?u = "upd a (qserver_update (\<lambda>_. Some (Suc k))) s"
  let ?s = "sendto ?u (sock ?c) (c_addr ?c) (mem ?u a)"
  have "sweep_queue net (Some a) s = sweep_queue net (Some a) ?s"
    using Suc k by (subst sweep_queue.simps) (simp add: expired_def Let_def)
  also have "\<dots> = sweep_queue net (b_next (mem ?s a)) (push_free a (unlink_query a (resent net a ?s)))"
    by (rule Suc.hyps(1)) (use Suc k in \<open>simp_all add: expired_def\<close>)
  also have "resent net a ?s = resent net a s"
  proof -
    have "resends net (mem s a) = (sock ?c, c_addr ?c, take (datalen (mem s a)) (pkt (mem s a))) # resends net (mem ?s a)"
      using Suc.prems k by (simp add: resends_def upt_conv_Cons)
    then show ?thesis by (simp add: resent_def upd_def sendto_def)
  qed
  finally show ?case by simp
qed

lemma resent_heap: "heap_ok (resent net a s) qs fs rs = heap_ok s qs fs rs"
  unfolding resent_def heap_ok_other by (rule upd_heap_content) (simp add: same_links_def)

lemma sweep_spec:
  assumes "heap_ok s (xs @ ys) fs rs" "\<forall>a \<in> set ys. \<exists>k < length (connectors net). qserver (mem s a) = Some k"
  shows "\<exists>s'. sweep_queue net (first ys None) s = Some (Ok s') \<and>
    heap_ok s' (xs @ filter (\<lambda>a. \<not> expired s a) ys) (rev (filter (expired s) ys) @ fs) rs \<and>
    sent s' = sent s @ concat (map (\<lambda>a. resends net (mem s a)) (filter (expired s) ys)) \<and>
    (\<forall>a. a \<notin> set (filter (expired s) ys) \<longrightarrow> content (mem s' a) = content (mem s a)) \<and>
    brk s' = brk s \<and> cur_time s' = cur_time s \<and> cache s' = cache s \<and> IntReqNum s' = IntReqNum s"
  using assms
proof (induction ys arbitrary: xs fs s)
  case Nil
  then show ?case by (subst sweep_queue.simps) simp
next
  case (Cons a ys)
  have nx: "b_next (mem s a) = first ys None" and a: "a \<notin> set ys"
    using Cons.prems(1) by (auto simp: heap_ok_def queue_rep_def dseg_append)
  show ?case
  proof (cases "expired s a")
    case False
    have "heap_ok s ((xs @ [a]) @ ys) fs rs" using Cons.prems(1) by simp
    from Cons.IH [OF this] Cons.prems(2) sweep_live [OF False] nx False show ?thesis by simp
  next
    case True
    from Cons.prems(2) obtain k where k: "qserver (mem s a) = Some k" "k < length (connectors net)" by auto
    let ?s = "push_free a (unlink_query a (resent net a s))"
    have h: "heap_ok (resent net a s) (xs @ a # ys) fs rs" using Cons.prems(1) by (simp add: resent_heap)
    have h1: "heap_ok ?s (xs @ ys) (a # fs) rs" using push_free_heap [OF unlink_heap(1) [OF h]] unlink_heap(2) [OF h] by simp
    have c: "content (mem ?s b) = content (mem s b)" if "b \<noteq> a" for b
      using that by (simp add: unlink_frame resent_def)
    have ex: "expired ?s b = expired s b" if "b \<noteq> a" for b
      using content_fields [OF c [OF that]] by (simp add: expired_def unlink_frame resent_def)
    have rsd: "resends net (mem ?s b) = resends net (mem s b)" if "b \<noteq> a" for b
      by (rule resends_content [OF c [OF that]])
    have sv: "\<forall>b \<in> set ys. \<exists>k < length (connectors net). qserver (mem ?s b) = Some k"
    proof
      fix b assume b: "b \<in> set ys"
      then have "qserver (mem ?s b) = qserver (mem s b)" using a content_fields [OF c, of b] by blast
      then show "\<exists>k < length (connectors net). qserver (mem ?s b) = Some k"
        using Cons.prems(2) b unfolding \<open>qserver (mem ?s b) = qserver (mem s b)\<close> by simp
    qed
    have f1: "filter (expired ?s) ys = filter (expired s) ys"
      by (rule filter_cong [OF refl]) (metis ex a)
    have f2: "filter (\<lambda>b. \<not> expired ?s b) ys = filter (\<lambda>b. \<not> expired s b) ys"
      by (rule filter_cong [OF refl]) (metis ex a)
    have m: "map (\<lambda>b. resends net (mem ?s b)) (filter (expired s) ys) = map (\<lambda>b. resends net (mem s b)) (filter (expired s) ys)"
      by (rule map_cong [OF refl]) (metis rsd a filter_is_subset subsetD)
    have fr: "sent ?s = sent s @ resends net (mem s a)" "brk ?s = brk s" "cur_time ?s = cur_time s" "cache ?s = cache s" "IntReqNum ?s = IntReqNum s"
      by (simp_all add: unlink_frame resent_def)
    from Cons.IH [OF h1 sv, unfolded f1 f2 m fr] obtain s' where
      "sweep_queue net (first ys None) ?s = Some (Ok s')"
      "heap_ok s' (xs @ filter (\<lambda>b. \<not> expired s b) ys) (rev (filter (expired s) ys) @ a # fs) rs"
      "sent s' = (sent s @ resends net (mem s a)) @ concat (map (\<lambda>b. resends net (mem s b)) (filter (expired s) ys))"
      "\<forall>b. b \<notin> set (filter (expired s) ys) \<longrightarrow> content (mem s' b) = content (mem ?s b)"
      "brk s' = brk s" "cur_time s' = cur_time s" "cache s' = cache s" "IntReqNum s' = IntReqNum s" by blast
    then show ?thesis
      using sweep_expired [OF True k] nx True c by (intro exI [of _ s']) (simp del: push_free_frame)
  qed
qed

text \<open>C13: One round of the main loop without traffic ends, keeps the queries that have not expired
  in their order, and frees the buffer of every expired one. Before that, the expired query is sent
  to all the servers that were not asked yet, at once, so that no response of them can be matched to it any more.\<close>

theorem expired_queries_are_flushed:
  assumes "heap_ok s qs fs rs" "\<forall>a \<in> set qs. query_ok net (mem s a)"
  shows "\<exists>s'. main_iteration net mem_ok None s = Some (Ok s') \<and>
    (let gone = filter (\<lambda>a. int (rcvtime (mem s a)) < cur_time s - 2) qs;
         kept = filter (\<lambda>a. cur_time s - 2 \<le> int (rcvtime (mem s a))) qs in
     heap_ok s' kept (rev gone @ fs) rs \<and> sent s' = sent s @ concat (map (\<lambda>a. resends net (mem s a)) gone))"
proof -
  let ?t = "s\<lparr>cur_time := cur_time s - 2\<rparr>"
  have "\<forall>a \<in> set qs. \<exists>k < length (connectors net). qserver (mem ?t a) = Some k"
    using assms(2) by (auto simp: query_ok_def)
  moreover have "heap_ok ?t ([] @ qs) fs rs" using assms(1) by simp
  ultimately obtain s' where s': "sweep_queue net (first qs None) ?t = Some (Ok s')"
    "heap_ok s' ([] @ filter (\<lambda>a. \<not> expired ?t a) qs) (rev (filter (expired ?t) qs) @ fs) rs"
    "sent s' = sent ?t @ concat (map (\<lambda>a. resends net (mem ?t a)) (filter (expired ?t) qs))"
    using sweep_spec [of ?t "[]" qs fs rs net] by blast
  have e: "expired ?t = (\<lambda>a. int (rcvtime (mem s a)) < cur_time s - 2)" by (simp add: expired_def fun_eq_iff)
  have "main_iteration net mem_ok None s = Some (Ok s')"
    using s'(1) heap_queue [OF assms(1)] by (simp add: main_iteration_def Let_def)
  with s'(2,3) show ?thesis unfolding e by (simp add: not_less Let_def)
qed

lemma demo_queue_ok: "\<forall>a \<in> set [0, 1]. query_ok demo_net (mem (demo_state p) a)"
  by (simp add: demo_state_defs query_ok_def)

theorem expired_queries_are_flushed_witness:
  "\<exists>s'. main_iteration demo_net True None ((demo_state [])\<lparr>cur_time := 20\<rparr>) = Some (Ok s') \<and> heap_ok s' [] [1, 0, 3] [] \<and>
     map fst (sent s') = [5, 5]"
proof -
  let ?s = "(demo_state [])\<lparr>cur_time := 20\<rparr>"
  have "heap_ok ?s [0, 1] [3] []" "\<forall>a \<in> set [0, 1]. query_ok demo_net (mem ?s a)"
    using demo_heap(1) demo_queue_ok by simp_all
  from expired_queries_are_flushed [OF this, of True] show ?thesis
    by (auto simp: demo_state_defs resends_def)
qed

text \<open>Rounds in which nothing arrives.\<close>

fun idle_rounds :: "dns_net \<Rightarrow> nat \<Rightarrow> dns_state \<Rightarrow> dns_state run" where
  "idle_rounds net 0 s = Some (Ok s)"
| "idle_rounds net (Suc n) s = bindr (main_iteration net True None s) (idle_rounds net n)"

text \<open>The clock is read only after traffic, and every timeout takes two seconds off the time that
  expiry compares with. So as long as nothing arrives, a query that was not expired at first never
  expires, however many rounds pass, and nothing is sent.\<close>

theorem idle_server_never_expires:
  assumes "heap_ok s qs fs rs" "\<forall>a \<in> set qs. query_ok net (mem s a)"
    and "\<forall>a \<in> set qs. cur_time s - 2 \<le> int (rcvtime (mem s a))"
  shows "\<exists>s'. idle_rounds net n s = Some (Ok s') \<and> heap_ok s' qs fs rs \<and> sent s' = sent s \<and>
    cur_time s' = cur_time s - 2 * int n"
  using assms
proof (induction n arbitrary: s)
  case 0
  then show ?case by simp
next
  case (Suc n)
  let ?t = "s\<lparr>cur_time := cur_time s - 2\<rparr>"
  have sv: "\<forall>a \<in> set qs. \<exists>k < length (connectors net). qserver (mem ?t a) = Some k"
    using Suc.prems(2) by (auto simp: query_ok_def)
  have "heap_ok ?t ([] @ qs) fs rs" using Suc.prems(1) by simp
  moreover have "filter (expired ?t) qs = []" "filter (\<lambda>a. \<not> expired ?t a) qs = qs"
    using Suc.prems(3) by (auto simp: expired_def filter_empty_conv intro!: filter_True)
  ultimately obtain t where t: "sweep_queue net (first qs None) ?t = Some (Ok t)" "heap_ok t qs fs rs"
    "sent t = sent s" "cur_time t = cur_time s - 2" "\<forall>a. content (mem t a) = content (mem s a)"
    using sweep_spec [of ?t "[]" qs fs rs net] sv by auto
  have run: "main_iteration net True None s = Some (Ok t)"
    using t(1) heap_queue [OF Suc.prems(1)] by (simp add: main_iteration_def Let_def)
  have c: "query_ok net (mem t a) = query_ok net (mem s a)" "rcvtime (mem t a) = rcvtime (mem s a)" for a
    using content_iff content_fields t(5) by blast+
  have "\<forall>a \<in> set qs. query_ok net (mem t a)" "\<forall>a \<in> set qs. cur_time t - 2 \<le> int (rcvtime (mem t a))"
    using Suc.prems(2,3) t(4) unfolding c by force+
  from Suc.IH [OF t(2) this] run t(3,4) show ?case by auto
qed

theorem idle_server_never_expires_witness:
  "\<exists>s'. idle_rounds demo_net 1000 (demo_state []) = Some (Ok s') \<and> heap_ok s' [0, 1] [3] [] \<and> sent s' = []"
proof -
  have live: "\<forall>a \<in> set [0, 1]. cur_time (demo_state []) - 2 \<le> int (rcvtime (mem (demo_state []) a))"
    by (simp add: demo_state_defs)
  from idle_server_never_expires [OF demo_heap(1) demo_queue_ok live, of 1000] show ?thesis
    by (auto simp: demo_state_def)
qed

end
