(* ===== verification/DnsInvariant.thy ===== *)
theory DnsInvariant
  imports DnsLoop
begin

text \<open>
  Every run of the server, one event after another: no buffer is lost or in two lists, as long
  as no query is put back into the queue from the middle of it.
\<close>

section \<open>The invariant\<close>

definition client_ok :: "dns_net \<Rightarrow> dns_buffer \<Rightarrow> bool" where
  "client_ok net b \<longleftrightarrow> (\<exists>k < length (connectors net). qclient b = Some k)"

definition net_ok :: "dns_net \<Rightarrow> bool" where
  "net_ok net \<longleftrightarrow> (\<forall>k < length (connectors net). sock (connectors net ! k) \<noteq> -1)"

text \<open>The lists and the buffers in the hands of threads are all the buffers there are.\<close>

definition covers :: "dns_net \<Rightarrow> dns_state \<Rightarrow> nat list \<Rightarrow> nat list \<Rightarrow> nat list \<Rightarrow> nat set \<Rightarrow> bool" where
  "covers net s qs fs rs held \<longleftrightarrow> net_ok net \<and> heap_ok s qs fs rs \<and> set (qs @ fs @ rs) \<union> held = {..<brk s} \<and>
     set (qs @ fs @ rs) \<inter> held = {} \<and> (\<forall>a \<in> set qs. query_ok net (mem s a)) \<and> (\<forall>a \<in> set rs. client_ok net (mem s a))"

definition dns_inv :: "dns_net \<Rightarrow> dns_state \<Rightarrow> bool" where
  "dns_inv net s \<longleftrightarrow> (\<exists>qs fs rs. covers net s qs fs rs {})"

lemma client_content: "content b = content c \<Longrightarrow> client_ok net b = client_ok net c"
  by (drule content_fields) (simp add: client_ok_def)

lemma query_content: "content b = content c \<Longrightarrow> query_ok net b = query_ok net c"
  using content_iff by blast

lemma covers_replace:
  assumes "covers net s qs fs rs h" "heap_ok s' qs' fs' rs" "brk s' = brk s" "set qs' \<subseteq> set qs"
    and "set (qs' @ fs' @ rs) \<union> h' = set (qs @ fs @ rs) \<union> h" "set (qs' @ fs' @ rs) \<inter> h' = {}"
    and same: "\<forall>k \<in> set qs' \<union> set rs. content (mem s' k) = content (mem s k)"
  shows "covers net s' qs' fs' rs h'"
proof -
  have "query_ok net (mem s' k)" if "k \<in> set qs'" for k
    using that same assms(1,4) query_content [of "mem s' k" "mem s k" net] by (auto simp: covers_def)
  moreover have "client_ok net (mem s' k)" if "k \<in> set rs" for k
    using that same assms(1) client_content [of "mem s' k" "mem s k" net] by (auto simp: covers_def)
  ultimately show ?thesis using assms(1-3,5,6) by (simp add: covers_def)
qed

lemma covers_fresh: "covers net s qs fs rs {a} \<Longrightarrow> heap_ok s qs fs rs \<and> fresh a s (qs @ fs @ rs)"
  by (auto simp: covers_def fresh_def)

lemma covers_upd: "covers net s qs fs rs {a} \<Longrightarrow> covers net (upd a f s) qs fs rs {a}"
  using covers_fresh by (fastforce simp: covers_def)

lemma covers_other [simp]:
  "covers net (s\<lparr>IntReqNum := n\<rparr>) qs fs rs h = covers net s qs fs rs h"
  "covers net (s\<lparr>cache := ca\<rparr>) qs fs rs h = covers net s qs fs rs h"
  "covers net (s\<lparr>cur_time := t\<rparr>) qs fs rs h = covers net s qs fs rs h"
  "covers net (s\<lparr>sent := l\<rparr>) qs fs rs h = covers net s qs fs rs h"
  "covers net (sendto s fd to b) qs fs rs h = covers net s qs fs rs h"
  by (simp_all add: covers_def sendto_def)

lemma covers_free: "covers net s qs fs rs {a} \<Longrightarrow> covers net (push_free a s) qs (a # fs) rs {}"
  using covers_fresh [of net s qs fs rs a] push_free_heap [of s qs fs rs a]
    query_content [OF push_free_frame(1), of net a s] client_content [OF push_free_frame(1), of net a s]
  by (auto simp: covers_def)

lemma covers_ready:
  assumes "covers net s qs fs rs {a}" "client_ok net (mem s a)"
  shows "covers net (push_ready a s) qs fs (a # rs) {}"
proof -
  note f = covers_fresh [OF assms(1)]
  have "heap_ok (push_ready a s) qs fs (a # rs)"
    using f by (auto simp: heap_ok_def queue_rep_def push_ready_def fresh_def mem_upd)
  moreover have "content (mem (push_ready a s) k) = content (mem s k)" for k by (simp add: push_ready_def)
  then have "query_ok net (mem (push_ready a s) k) = query_ok net (mem s k)"
    "client_ok net (mem (push_ready a s) k) = client_ok net (mem s k)" for k
    using query_content client_content by blast+
  ultimately show ?thesis using assms by (auto simp: covers_def push_ready_def)
qed

lemma covers_append:
  assumes "covers net s qs fs rs {a}" "b_next (mem s a) = None" "query_ok net (mem s a)"
  shows "covers net (append_query a s) (qs @ [a]) fs rs {}"
proof -
  note f = covers_fresh [OF assms(1)]
  then have "heap_ok (append_query a s) (qs @ [a]) fs rs" using assms(2) by (intro append_heap) auto
  moreover have "query_ok net (mem (append_query a s) k) = query_ok net (mem s k)"
    "client_ok net (mem (append_query a s) k) = client_ok net (mem s k)" for k
    by (rule query_content, simp add: append_frame) (rule client_content, simp add: append_frame)
  ultimately show ?thesis using assms by (auto simp: covers_def append_frame)
qed

lemma covers_take:
  assumes "covers net s qs fs rs {}" "take_buffer mem_ok s = Ok (a, s')"
  shows "\<exists>fs'. covers net s' qs fs' rs {a}"
proof (cases "free_buf s")
  case None
  then have "a = brk s" "s' = upd (brk s) (\<lambda>_. zero_buffer) (s\<lparr>brk := brk s + 1\<rparr>)"
    using assms(2) by (auto simp: take_buffer_def split: if_splits)
  moreover have "covers net (s\<lparr>brk := brk s + 1\<rparr>) qs fs rs {brk s}"
    using assms(1) by (force simp: covers_def heap_ok_def queue_rep_def)
  ultimately show ?thesis using covers_upd by blast
next
  case (Some b)
  then obtain fs' where fs: "fs = b # fs'" using assms(1) by (cases fs) (auto simp: covers_def heap_ok_def)
  have "a = b" "s' = upd b (\<lambda>_. zero_buffer) (s\<lparr>free_buf := b_next (mem s b)\<rparr>)"
    using Some assms(2) by (auto simp: take_buffer_def)
  moreover have "covers net (s\<lparr>free_buf := b_next (mem s b)\<rparr>) qs fs' rs {b}"
    using assms(1) fs by (auto simp: covers_def heap_ok_def queue_rep_def)
  ultimately show ?thesis using covers_upd by blast
qed

lemma covers_block:
  assumes "covers net s qs fs rs {}" "thread_block s = Some (Ok (a, s'))"
  shows "\<exists>rs'. rs = a # rs' \<and> covers net s' qs fs rs' {a} \<and> client_ok net (mem s' a) \<and> mem s' = mem s \<and> queue_head s' = queue_head s"
proof -
  from assms(2) have r: "ready_buf s = Some a" "s' = s\<lparr>ready_buf := b_next (mem s a)\<rparr>"
    by (auto simp: thread_block_def split: option.splits)
  then obtain rs' where "rs = a # rs'" using assms(1) by (cases rs) (auto simp: covers_def heap_ok_def)
  with assms(1) r show ?thesis by (auto simp: covers_def heap_ok_def queue_rep_def)
qed

section \<open>The main loop\<close>

lemma covers_receive:
  "receive_conn mem_ok k ds s = Some (Ok s') \<Longrightarrow> covers net s qs fs rs {} \<Longrightarrow> k < length (connectors net) \<Longrightarrow>
   \<exists>fs' rs'. covers net s' qs fs' rs' {}"
proof (induction ds arbitrary: s fs)
  case (Cons d ds)
  from Cons.prems(1) obtain a t where t: "take_buffer mem_ok s = Ok (a, t)"
    by (cases "take_buffer mem_ok s") auto
  from covers_take [OF Cons.prems(2) t] obtain fs' where "covers net t qs fs' rs {a}" by blast
  then have u: "covers net (upd a (fill_buffer k d) t) qs fs' rs {a}" by (rule covers_upd)
  let ?u = "upd a (fill_buffer k d) t"
  show ?case
  proof (cases "fst (snd d) < 17")
    case True
    then have "receive_conn mem_ok k ds (push_free a ?u) = Some (Ok s')" using Cons.prems(1) t by (simp add: Let_def)
    then show ?thesis by (rule Cons.IH [OF _ covers_free [OF u] Cons.prems(3)])
  next
    case False
    let ?v = "upd a (rcvtime_update (\<lambda>_. nat (cur_time ?u))) ?u"
    have s': "s' = push_ready a ?v" using False Cons.prems(1) t by (simp add: Let_def)
    have "client_ok net (mem ?v a)" using Cons.prems(3) by (simp add: client_ok_def fill_buffer_def split: prod.split)
    from covers_ready [OF covers_upd [OF u] this] s' show ?thesis by blast
  qed
qed simp

lemma covers_round:
  "receive_round mem_ok fds inbox ks s = Some (Ok s') \<Longrightarrow> covers net s qs fs rs {} \<Longrightarrow> \<forall>k \<in> set ks. k < length (connectors net) \<Longrightarrow>
   \<exists>fs' rs'. covers net s' qs fs' rs' {}"
proof (induction ks arbitrary: s fs rs)
  case Nil
  then show ?case by auto
next
  case (Cons k ks)
  from Cons.prems(1) obtain t where t: "(if fds k then receive_conn mem_ok k (inbox k) s else Some (Ok s)) = Some (Ok t)"
    "receive_round mem_ok fds inbox ks t = Some (Ok s')" by (auto simp: bindr_Ok_iff)
  have "\<exists>fs' rs'. covers net t qs fs' rs' {}"
    using t(1) Cons.prems(2,3) covers_receive [of mem_ok k "inbox k" s t net qs fs rs] by (auto split: if_splits)
  then show ?case using Cons.IH [OF t(2)] Cons.prems(3) by auto
qed

lemma covers_sweep:
  assumes "covers net s qs fs rs {}"
  shows "\<exists>s' qs' fs'. sweep_queue net (queue_head s) s = Some (Ok s') \<and> covers net s' qs' fs' rs {}"
proof -
  have h: "heap_ok s ([] @ qs) fs rs" and v: "\<forall>a \<in> set qs. \<exists>k < length (connectors net). qserver (mem s a) = Some k"
    using assms by (auto simp: covers_def query_ok_def)
  from sweep_spec [OF h v] obtain s' where s': "sweep_queue net (first qs None) s = Some (Ok s')"
    "heap_ok s' ([] @ filter (\<lambda>a. \<not> expired s a) qs) (rev (filter (expired s) qs) @ fs) rs"
    "\<forall>a. a \<notin> set (filter (expired s) qs) \<longrightarrow> content (mem s' a) = content (mem s a)" "brk s' = brk s" by blast
  have "set rs \<inter> set qs = {}" using h by (auto simp: heap_ok_def)
  then have "covers net s' (filter (\<lambda>a. \<not> expired s a) qs) (rev (filter (expired s) qs) @ fs) rs {}"
    using s'(2-4) by (intro covers_replace [OF assms]) auto
  moreover have "queue_head s = first qs None" using assms by (simp add: covers_def heap_ok_def queue_rep_def)
  ultimately show ?thesis using s'(1) by auto
qed

lemma covers_main:
  assumes "covers net s qs fs rs {}" "main_iteration net mem_ok ready s = Some (Ok s')"
  shows "dns_inv net s'"
proof -
  have "\<exists>t fs' rs'. covers net t qs fs' rs' {} \<and> sweep_queue net (queue_head t) (t\<lparr>cur_time := cur_time t - 2\<rparr>) = Some (Ok s')"
  proof (cases ready)
    case None
    then show ?thesis using assms by (auto simp: main_iteration_def Let_def)
  next
    case (Some r)
    obtain now fds inbox where r: "ready = Some (now, fds, inbox)" using Some by (cases r) auto
    then obtain t where t: "receive_round mem_ok fds inbox [0..<length (connectors net)] (s\<lparr>cur_time := int now\<rparr>) = Some (Ok t)"
      "sweep_queue net (queue_head t) (t\<lparr>cur_time := cur_time t - 2\<rparr>) = Some (Ok s')"
      using assms(2) by (auto simp: main_iteration_def Let_def bindr_Ok_iff)
    have "covers net (s\<lparr>cur_time := int now\<rparr>) qs fs rs {}" using assms(1) by simp
    from covers_round [OF t(1) this] t(2) show ?thesis by auto
  qed
  then obtain t fs' rs' where t: "covers net t qs fs' rs' {}"
    "sweep_queue net (queue_head t) (t\<lparr>cur_time := cur_time t - 2\<rparr>) = Some (Ok s')" by blast
  have "covers net (t\<lparr>cur_time := cur_time t - 2\<rparr>) qs fs' rs' {}" using t(1) by simp
  from covers_sweep [OF this] t(2) show ?thesis by (auto simp: dns_inv_def)
qed

section \<open>The handler\<close>

lemma lookup_unknown: "lookup_answer net s b0 = Some (Ok (False, ca, b)) \<Longrightarrow> ca = cache s \<and> b = b0"
  by (auto simp: lookup_answer_def bindr_Ok_iff qxdns_master_lookup_def lookup_A_def lookup_PTR_def Let_def
      qxdns_cache_lookup_def split: if_splits option.splits outcome.splits prod.splits)

lemma reply_result:
  "reply_local net a s = Some (Ok (l, t)) \<Longrightarrow> h_request l = a \<and> h_tmp_q l = None \<and> \<not> save_rq l \<and> t = s"
  by (auto simp: reply_local_def bindr_Ok_iff)

lemma connector_range: "connector net p = Some (Ok c) \<Longrightarrow> \<exists>k < length (connectors net). p = Some k \<and> c = connectors net ! k"
  by (auto simp: connector_def split: option.splits if_splits)

lemma covers_query:
  assumes "covers net s qs fs rs {a}" "client_ok net (mem s a)" "handle_query net a s = Some (Ok (l, t))"
  shows "covers net t qs fs rs {a} \<and> h_request l = a \<and> h_tmp_q l = None \<and>
    (save_rq l \<longrightarrow> b_next (mem t a) = None \<and> query_ok net (mem t a))"
proof (cases "dns_QDCOUNT (pkt (mem s a)) \<noteq> 0x0100")
  case True
  then have "reply_local net a (upd a (pkt_update (\<lambda>p. or_OPT p DNS_OPT_RCODE_FE)) s) = Some (Ok (l, t))"
    using assms(3) by (simp add: handle_query_def)
  from reply_result [OF this] covers_upd [OF assms(1)] show ?thesis by auto
next
  case False
  then obtain found ca b where look: "lookup_answer net s (mem s a) = Some (Ok (found, ca, b))"
    using assms(3) by (auto simp: handle_query_def bindr_Ok_iff)
  let ?s = "upd a (\<lambda>_. b) (s\<lparr>cache := ca\<rparr>)"
  have c: "covers net ?s qs fs rs {a}" using covers_upd [of net "s\<lparr>cache := ca\<rparr>"] assms(1) by simp
  show ?thesis
  proof (cases "\<not> found \<and> srvr_connectors net \<noteq> None")
    case True
    then have b: "b = mem s a" using lookup_unknown look by auto
    let ?t = "upd a (\<lambda>b. b\<lparr>src_ID := dns_ID (pkt b), qserver := srvr_connectors net, b_next := None\<rparr>) ?s"
    let ?u = "upd a (\<lambda>b. b\<lparr>ref_ID := IntReqNum s, pkt := put16 (pkt b) 0 (IntReqNum s)\<rparr>) (?t\<lparr>IntReqNum := IntReqNum s + 1\<rparr>)"
    from True False look assms(3) obtain cn where cn: "connector net (srvr_connectors net) = Some (Ok cn)"
      and l: "l = \<lparr>h_request = a, h_tmp_q = None, save_rq = True, c_sock = sock cn, c_dest = c_addr cn\<rparr>" "t = ?u"
      by (auto simp: handle_query_def Let_def bindr_Ok_iff)
    have "covers net ?u qs fs rs {a}" using c by (intro covers_upd) (simp add: covers_upd)
    then show ?thesis using l connector_range [OF cn] assms(2) b by (auto simp: query_ok_def client_ok_def)
  next
    case no: False
    then have "reply_local net a (if found then ?s else upd a (pkt_update (\<lambda>p. or_OPT p DNS_OPT_RCODE_NE)) ?s) = Some (Ok (l, t))"
      using False look assms(3) by (cases found) (auto simp: handle_query_def Let_def)
    from reply_result [OF this] covers_upd [OF c] c show ?thesis by (simp split: if_splits)
  qed
qed

text \<open>The event that breaks the queue: a response that puts its query back, when that query was not
  the last one.\<close>

definition stale_resend :: "dns_net \<Rightarrow> nat \<Rightarrow> dns_state \<Rightarrow> bool" where
  "stale_resend net r s \<longleftrightarrow> is_response (mem s r) \<and>
     (case find_query (mem s) (dns_ID (pkt (mem s r))) (queue_head s) of
        Some (Some q) \<Rightarrow> b_next (mem s q) \<noteq> None \<and> keeps_query net (mem s r) (mem s q)
      | _ \<Rightarrow> False)"

lemma cache_add_needed:
  assumes "heap_ok s qs fs rs" "fresh r s (qs @ fs @ rs)" "is_response (mem s r)"
    and found: "find (\<lambda>q. ref_ID (mem s q) = dns_ID (pkt (mem s r))) qs = Some q" "qs = xs @ q # ys"
    and q: "query_ok net (mem s q)" "\<not> keeps_query net (mem s r) (mem s q)"
    and run: "thread_handler net blk r s = Some (Ok s')" and c: "cacheable (mem s r)"
  shows "\<exists>b ca. qxdns_cache_add blk (cache s) (mem s r) = Ok (b, ca)"
proof (cases "qxdns_cache_add blk (cache s) (mem s r)")
  case (Crash e)
  let ?u = "unlink_query q s"
  have qr: "queue_rep s (xs @ q # ys)" "r \<notin> set (xs @ ys)" using assms(1,2) found(2) by (auto simp: heap_ok_def fresh_def)
  have u: "mem ?u r = mem s r" "cache ?u = cache s" using unlink_rep(2) [OF qr] by (simp_all add: unlink_frame)
  have uf: "content (mem ?u q) = content (mem s q)" by (simp add: unlink_frame)
  have k: "query_ok net (mem ?u q)" "\<not> keeps_query net (mem ?u r) (mem ?u q)" using q content_iff [OF uf] u by auto
  have nx: "(if wants_other_server (dns_OPT (pkt (mem s r)) AND DNS_OPT_RCODE_MASK) then connector_next net (qserver (mem ?u q))
     else Some (Ok None)) = Some (Ok None)"
    using k u by (auto simp: connector_next_def keeps_query_def query_ok_def)
  have "handle_response net blk r q ?u = Some (Crash e)"
    using c Crash u nx by (simp add: handle_response_def Let_def cacheable_def)
  then have "thread_handler net blk r s = Some (Crash e)"
    using heap_search [OF assms(1)] found(1) assms(3) u
    by (simp add: thread_handler_def handler_search_def handler_decide_def)
  then show ?thesis using run by simp
qed auto

lemma covers_answered:
  assumes c: "covers net s (xs @ q # ys) fs rs {r}" and r: "is_response (mem s r)"
    and found: "find (\<lambda>q. ref_ID (mem s q) = dns_ID (pkt (mem s r))) (xs @ q # ys) = Some q"
    and q: "\<not> keeps_query net (mem s r) (mem s q)" and run: "thread_handler net blk r s = Some (Ok s')"
  shows "dns_inv net s'"
proof -
  note f = covers_fresh [OF c]
  have qo: "query_ok net (mem s q)" and socks: "\<forall>k < length (connectors net). sock (connectors net ! k) \<noteq> -1"
    using c by (auto simp: covers_def net_ok_def)
  obtain b ca where add: "cacheable (mem s r) \<Longrightarrow> qxdns_cache_add blk (cache s) (mem s r) = Ok (b, ca)"
    using cache_add_needed [OF conjunct1 [OF f] conjunct2 [OF f] r found refl qo q run] by blast
  have "fresh r s (xs @ q # ys @ fs @ rs)" using f by simp
  from response_run [OF conjunct1 [OF f] this r qo q add found socks] run
  have h: "heap_ok s' (xs @ ys) (r # q # fs) rs" "brk s' = brk s" "\<forall>k. k \<noteq> r \<longrightarrow> content (mem s' k) = content (mem s k)"
    by auto
  have "q \<notin> set xs \<union> set ys \<union> set fs \<union> set rs" using f by (auto simp: heap_ok_def)
  then have "covers net s' (xs @ ys) (r # q # fs) rs {}"
    using f h(3) by (intro covers_replace [OF c h(1,2)]) (auto simp: fresh_def)
  then show ?thesis by (auto simp: dns_inv_def)
qed

lemma covers_kept:
  assumes c: "covers net s (xs @ [q]) fs rs {r}" and r: "is_response (mem s r)"
    and found: "find (\<lambda>q. ref_ID (mem s q) = dns_ID (pkt (mem s r))) (xs @ [q]) = Some q"
    and q: "keeps_query net (mem s r) (mem s q)" and run: "thread_handler net blk r s = Some (Ok s')"
  shows "dns_inv net s'"
proof -
  note f = covers_fresh [OF c]
  have qo: "query_ok net (mem s q)" and socks: "\<forall>k < length (connectors net). sock (connectors net ! k) \<noteq> -1"
    using c by (auto simp: covers_def net_ok_def)
  have "fresh r s (xs @ q # [] @ fs @ rs)" using f by simp
  from keep_run [OF conjunct1 [OF f] this r q found socks, of blk] run obtain k t where
    t: "Suc k < length (connectors net)" "s' = append_query q t" "heap_ok t xs (r # fs) rs" "fresh q t (xs @ (r # fs) @ rs)"
    "b_next (mem t q) = None" "content (mem t q) = content ((mem s q)\<lparr>qserver := Some (Suc k)\<rparr>)"
    "\<forall>a. a \<noteq> q \<longrightarrow> content (mem t a) = content (mem s a)" "brk t = brk s" by auto
  have tq: "query_ok net (mem t q)" using query_content [OF t(6)] t(1) qo by (auto simp: query_ok_def)
  have "covers net t xs (r # fs) rs {q}"
    using t(4,7) by (intro covers_replace [OF c t(3,8)]) (auto simp: fresh_def)
  from covers_append [OF this t(5) tq] t(2) show ?thesis by (auto simp: dns_inv_def)
qed

lemma covers_handler:
  assumes c: "covers net s qs fs rs {a}" "client_ok net (mem s a)" and ok: "\<not> stale_resend net a s"
    and run: "thread_handler net blk a s = Some (Ok s')"
  shows "dns_inv net s'"
proof (cases "is_response (mem s a)")
  case False
  then obtain l t where l: "handle_query net a s = Some (Ok (l, t))" "s' = handler_queue l (handler_free l (handler_send l t))"
    using run thread_handler_query [OF False] by (auto simp: bindr_Ok_iff)
  note q = covers_query [OF c l(1)]
  then have snd: "covers net (handler_send l t) qs fs rs {a}" "mem (handler_send l t) = mem t" by (simp_all add: handler_send_def)
  show ?thesis
  proof (cases "save_rq l")
    case True
    then have "s' = append_query a (handler_send l t)" using l(2) q by (simp add: handler_free_def handler_queue_def)
    with covers_append [OF snd(1)] snd(2) q True show ?thesis by (auto simp: dns_inv_def)
  next
    case False
    then have "s' = push_free a (handler_send l t)" using l(2) q by (simp add: handler_free_def handler_queue_def)
    with covers_free [OF snd(1)] show ?thesis by (auto simp: dns_inv_def)
  qed
next
  case True
  note h = conjunct1 [OF covers_fresh [OF c(1)]]
  show ?thesis
  proof (cases "find (\<lambda>q. ref_ID (mem s q) = dns_ID (pkt (mem s a))) qs")
    case None
    then have "s' = push_free a s"
      using run True heap_search [OF h] by (simp add: thread_handler_def handler_search_def handler_decide_def
        handler_send_def handler_free_def handler_queue_def)
    with covers_free [OF c(1)] show ?thesis by (auto simp: dns_inv_def)
  next
    case (Some q)
    from find_split [OF Some] obtain xs ys where qs: "qs = xs @ q # ys" by blast
    show ?thesis
    proof (cases "keeps_query net (mem s a) (mem s q)")
      case False
      from covers_answered [OF c(1) [unfolded qs] True Some [unfolded qs] False run] show ?thesis .
    next
      case keep: True
      have "b_next (mem s q) = first ys None" using h qs by (simp add: heap_ok_def queue_rep_def dseg_append)
      then have "ys = []" using ok True Some keep heap_search [OF h] by (cases ys) (simp_all add: stale_resend_def)
      with qs have qs': "qs = xs @ [q]" by simp
      from covers_kept [OF c(1) [unfolded qs'] True Some [unfolded qs'] keep run] show ?thesis .
    qed
  qed
qed

section \<open>Runs\<close>

text \<open>The last part of \<open>qxdns_setup\<close>: the buffers, with whatever \<open>malloc\<close> left in
  them.\<close>

fun make_buffers :: "dns_buffer list \<Rightarrow> dns_state \<Rightarrow> dns_state" where
  "make_buffers [] s = s"
| "make_buffers (junk # js) s =
     make_buffers js (push_free (brk s) (upd (brk s) (\<lambda>_. junk) (s\<lparr>brk := brk s + 1\<rparr>)))"

definition dns_start :: "dns_cache \<Rightarrow> int \<Rightarrow> dns_buffer list \<Rightarrow> dns_state" where
  "dns_start ca t junk = make_buffers junk \<lparr>mem = (\<lambda>_. zero_buffer), brk = 0, free_buf = None, ready_buf = None,
     queue_head = None, queue_tail = None, IntReqNum = 1, cache = ca, cur_time = t, sent = []\<rparr>"

datatype dns_event =
    Serve "bytes option"
  | Loop bool "(nat \<times> (nat \<Rightarrow> bool) \<times> (nat \<Rightarrow> datagram list)) option"

fun dns_exec :: "dns_net \<Rightarrow> dns_state \<Rightarrow> dns_event \<Rightarrow> dns_state run" where
  "dns_exec net s (Serve blk) = bindr (thread_block s) (\<lambda>(a, s). thread_handler net blk a s)"
| "dns_exec net s (Loop mem_ok ready) = main_iteration net mem_ok ready s"

definition dns_step :: "dns_net \<Rightarrow> dns_state run \<Rightarrow> dns_event \<Rightarrow> dns_state run" where
  "dns_step net r e = bindr r (\<lambda>s. dns_exec net s e)"

text \<open>The events after which the queue is still a list.\<close>

definition no_stale_resend :: "dns_net \<Rightarrow> dns_state run \<Rightarrow> dns_event \<Rightarrow> bool" where
  "no_stale_resend net r e = (case r of
     Some (Ok s) \<Rightarrow> (case e of
         Serve blk \<Rightarrow> (case thread_block s of Some (Ok (a, s)) \<Rightarrow> \<not> stale_resend net a s | _ \<Rightarrow> True)
       | Loop _ _ \<Rightarrow> True)
   | _ \<Rightarrow> True)"

definition run_inv :: "dns_net \<Rightarrow> dns_state run \<Rightarrow> bool" where
  "run_inv net r \<longleftrightarrow> (\<forall>s. r = Some (Ok s) \<longrightarrow> dns_inv net s)"

lemma serve_inv:
  assumes "dns_inv net s" "thread_block s = Some (Ok (a, t))" "\<not> stale_resend net a t"
    and "thread_handler net blk a t = Some (Ok s')"
  shows "dns_inv net s'"
proof -
  from assms(1) obtain qs fs rs where "covers net s qs fs rs {}" by (auto simp: dns_inv_def)
  from covers_block [OF this assms(2)] obtain rs' where "covers net t qs fs rs' {a}" "client_ok net (mem t a)" by blast
  from covers_handler [OF this assms(3,4)] show ?thesis .
qed

interpretation dns: machine "dns_step net" "no_stale_resend net" "run_inv net" for net
proof
  fix r e assume inv: "run_inv net r" and ok: "no_stale_resend net r e"
  show "run_inv net (dns_step net r e)"
    unfolding run_inv_def
  proof (intro allI impI)
    fix s' assume "dns_step net r e = Some (Ok s')"
    then obtain s where s: "r = Some (Ok s)" "dns_exec net s e = Some (Ok s')" by (auto simp: dns_step_def bindr_Ok_iff)
    have d: "dns_inv net s" using inv s(1) by (simp add: run_inv_def)
    show "dns_inv net s'"
    proof (cases e)
      case (Serve blk)
      then obtain a t where "thread_block s = Some (Ok (a, t))" "thread_handler net blk a t = Some (Ok s')"
        using s(2) by (auto simp: bindr_Ok_iff)
      with serve_inv [OF d] ok Serve s(1) show ?thesis by (auto simp: no_stale_resend_def)
    next
      case (Loop mem_ok ready)
      then show ?thesis using d s(2) covers_main by (auto simp: dns_inv_def)
    qed
  qed
qed

lemma make_buffers_inv: "dns_inv net s \<Longrightarrow> dns_inv net (make_buffers js s)"
proof (induction js arbitrary: s)
  case (Cons j js)
  from Cons.prems obtain qs fs rs where "covers net s qs fs rs {}" by (auto simp: dns_inv_def)
  then have "covers net (s\<lparr>brk := brk s + 1\<rparr>) qs fs rs {brk s}" by (force simp: covers_def heap_ok_def queue_rep_def)
  from covers_free [OF covers_upd [OF this]] have "dns_inv net (push_free (brk s) (upd (brk s) (\<lambda>_. j) (s\<lparr>brk := brk s + 1\<rparr>)))"
    by (auto simp: dns_inv_def)
  then show ?case using Cons.IH by simp
qed simp

lemma start_inv: "net_ok net \<Longrightarrow> dns_inv net (dns_start ca t js)"
  unfolding dns_start_def
  by (rule make_buffers_inv) (auto simp: dns_inv_def covers_def heap_ok_def queue_rep_def intro!: exI [of _ "[]"])

text \<open>C14: In every run of message handling and rounds of the main loop in which no query is put back
  from the middle of the queue, the queue, the free list and the list of filled buffers together
  hold every buffer exactly once; every query in the queue knows its client and its server; and
  every filled buffer knows the connector it came from.\<close>

theorem no_buffer_is_lost:
  assumes "net_ok net" "dns.run net (Some (Ok (dns_start ca t junk))) evs = Some (Ok s)"
    and "dns.run_ok net (Some (Ok (dns_start ca t junk))) evs"
  shows "\<exists>qs fs rs. heap_ok s qs fs rs \<and> distinct (qs @ fs @ rs) \<and> set (qs @ fs @ rs) = {..<brk s} \<and>
    (\<forall>q \<in> set qs. query_ok net (mem s q)) \<and> (\<forall>a \<in> set rs. client_ok net (mem s a))"
proof -
  have "run_inv net (Some (Ok (dns_start ca t junk)))" using start_inv [OF assms(1)] by (simp add: run_inv_def)
  from dns.run_inv [OF this assms(3)] assms(2) have "dns_inv net s" by (simp add: run_inv_def)
  then show ?thesis by (auto simp: dns_inv_def covers_def heap_ok_def)
qed

definition demo_arrival :: dns_event where
  "demo_arrival = Loop True (Some (50, (\<lambda>k. k = 0), (\<lambda>_. [(77, 19, demo_pkt 9 1 0)])))"

definition demo_start :: dns_state where
  "demo_start = dns_start \<lparr>CacheROOT = [], CacheMAX = 3, CacheTTL = 60\<rparr> 0 [zero_buffer]"

lemma sweep_empty [simp]: "sweep_queue net None s = Some (Ok s)"
  by (subst sweep_queue.simps) simp

lemma demo_arrival_run: "\<exists>s. dns_exec demo_net demo_start demo_arrival = Some (Ok s) \<and> ready_buf s = Some 0 \<and>
    pkt (mem s 0) = demo_pkt 9 1 0 \<and> datalen (mem s 0) = 19 \<and> cache s = cache demo_start \<and> IntReqNum s = 1"
  by (simp add: demo_arrival_def demo_start_def dns_start_def main_iteration_def upt_rec demo_net_def
      take_buffer_def push_free_def zero_buffer_def fill_buffer_def push_ready_def Let_def pkt_size_def blit_def demo_pkt_def)

lemma demo_forward:
  assumes "pkt (mem s a) = demo_pkt 9 1 0" "datalen (mem s a) = 19" "cache s = cache demo_start"
  shows "\<exists>s'. thread_handler demo_net None a s = Some (Ok s')"
proof -
  have "lookup_answer demo_net s (mem s a) = Some (Ok (False, cache s, mem s a))"
    using assms(3) by (simp add: lookup_answer_def demo_net_def master_empty qxdns_cache_lookup_def demo_start_def dns_start_def push_free_def)
  then show ?thesis
    using forward_run [of s a demo_net "cache s" "mem s a" None] assms
    by (simp add: is_response_def demo_pkt_def get16_def DNS_OPT_QR_def demo_net_def)
qed

theorem no_buffer_is_lost_witness:
  "\<exists>s qs fs rs. dns.run demo_net (Some (Ok demo_start)) [demo_arrival, Serve None] = Some (Ok s) \<and>
     heap_ok s qs fs rs \<and> distinct (qs @ fs @ rs) \<and> set (qs @ fs @ rs) = {..<brk s}"
proof -
  obtain s where s: "dns_exec demo_net demo_start demo_arrival = Some (Ok s)" "ready_buf s = Some 0"
    "pkt (mem s 0) = demo_pkt 9 1 0" "datalen (mem s 0) = 19" "cache s = cache demo_start"
    using demo_arrival_run by blast
  let ?t = "s\<lparr>ready_buf := b_next (mem s 0)\<rparr>"
  have b: "thread_block s = Some (Ok (0, ?t))" using s(2) by (simp add: thread_block_def)
  obtain s' where s': "thread_handler demo_net None 0 ?t = Some (Ok s')" using demo_forward [of ?t 0] s by auto
  have run: "dns.run demo_net (Some (Ok demo_start)) [demo_arrival, Serve None] = Some (Ok s')"
    using s(1) b s' by (simp add: dns_step_def)
  have "\<not> stale_resend demo_net 0 ?t"
    using s(3) by (simp add: stale_resend_def is_response_def demo_pkt_def get16_def DNS_OPT_QR_def)
  then have "dns.run_ok demo_net (Some (Ok demo_start)) [demo_arrival, Serve None]"
    using s(1) b by (simp add: dns_step_def no_stale_resend_def demo_arrival_def)
  moreover have "net_ok demo_net" using demo_socks by (simp add: net_ok_def)
  ultimately show ?thesis using no_buffer_is_lost run unfolding demo_start_def by blast
qed

end
