(* ===== verification/DnsThreads.thy ===== *)
theory DnsThreads
  imports DnsInvariant
begin

text \<open>
  The threads of the pool next to each other: \<open>thread_block\<close> and \<open>thread_handler\<close> of
  \<open>QX-dns/main.c\<close> cut where they give up a lock or send, and the steps of all threads and of the
  main loop in any order.
\<close>

section \<open>Steps\<close>

datatype stage =
    Idle
  | Got nat
  | Searched nat "nat option"
  | Decided handler_local
  | Sent handler_local
  | Freed handler_local

fun thread_step :: "dns_net \<Rightarrow> bytes option \<Rightarrow> stage \<Rightarrow> dns_state \<Rightarrow> (stage \<times> dns_state) run" where
  "thread_step net blk Idle s = bindr (thread_block s) (\<lambda>(a, s). Some (Ok (Got a, s)))"
| "thread_step net blk (Got a) s = bindr (handler_search a s) (\<lambda>(q, s). Some (Ok (Searched a q, s)))"
| "thread_step net blk (Searched a q) s = bindr (handler_decide net blk a q s) (\<lambda>(l, s). Some (Ok (Decided l, s)))"
| "thread_step net blk (Decided l) s = Some (Ok (Sent l, handler_send l s))"
| "thread_step net blk (Sent l) s = Some (Ok (Freed l, handler_free l s))"
| "thread_step net blk (Freed l) s = Some (Ok (Idle, handler_queue l s))"

inductive dns_trans :: "dns_net \<Rightarrow> dns_state \<times> stage list \<Rightarrow> dns_state \<times> stage list \<Rightarrow> bool" for net where
  thread: "i < length ths \<Longrightarrow> thread_step net blk (ths ! i) s = Some (Ok (g, s')) \<Longrightarrow> dns_trans net (s, ths) (s', ths[i := g])"
| loop: "main_iteration net mem_ok ready s = Some (Ok s') \<Longrightarrow> dns_trans net (s, ths) (s', ths)"

inductive_cases dns_transE: "dns_trans net (s, ths) (s', ths')"

abbreviation dns_reaches :: "dns_net \<Rightarrow> dns_state \<times> stage list \<Rightarrow> dns_state \<times> stage list \<Rightarrow> bool" where
  "dns_reaches net \<equiv> (dns_trans net)\<^sup>*\<^sup>*"

lemma threads_stay: "dns_reaches net c c' \<Longrightarrow> length (snd c') = length (snd c)"
proof (induction rule: rtranclp_induct)
  case (step c' c'')
  then show ?case by (cases c'; cases c'') (auto elim!: dns_transE)
qed simp

lemma thread_move: "thread_step net blk g s = Some (Ok (g', s')) \<Longrightarrow> i < length ths \<Longrightarrow>
    dns_trans net (s, ths[i := g]) (s', ths[i := g'])"
  using dns_trans.thread [of i "ths[i := g]" net blk s g' s'] by simp

text \<open>A thread that is not disturbed does what \<open>thread_block\<close> and \<open>thread_handler\<close> do.\<close>

lemma thread_alone:
  assumes "thread_block s = Some (Ok (a, t))" "thread_handler net blk a t = Some (Ok s')" "i < length ths"
  shows "dns_reaches net (s, ths[i := Idle]) (s', ths[i := Idle])"
proof -
  from assms(2) obtain q u l v where q: "handler_search a t = Some (Ok (q, u))" "handler_decide net blk a q u = Some (Ok (l, v))"
    and s': "s' = handler_queue l (handler_free l (handler_send l v))"
    by (auto simp: thread_handler_def bindr_Ok_iff)
  note m = thread_move [OF _ assms(3)]
  have "dns_trans net (s, ths[i := Idle]) (t, ths[i := Got a])" by (rule m [of net blk]) (simp add: assms(1))
  moreover have "dns_trans net (t, ths[i := Got a]) (u, ths[i := Searched a q])" by (rule m [of net blk]) (simp add: q)
  moreover have "dns_trans net (u, ths[i := Searched a q]) (v, ths[i := Decided l])" by (rule m [of net blk]) (simp add: q)
  moreover have "dns_trans net (v, ths[i := Decided l]) (handler_send l v, ths[i := Sent l])" by (rule m [of net blk]) simp
  moreover have "dns_trans net (handler_send l v, ths[i := Sent l]) (handler_free l (handler_send l v), ths[i := Freed l])"
    by (rule m [of net blk]) simp
  moreover have "dns_trans net (handler_free l (handler_send l v), ths[i := Freed l]) (s', ths[i := Idle])"
    by (rule m [of net blk]) (simp add: s')
  ultimately show ?thesis by (meson converse_rtranclp_into_rtranclp rtranclp.rtrancl_refl)
qed

section \<open>A response that is too fast\<close>

text \<open>A query is sent to the server before it is put into the queue. When the response comes in
  between and another thread takes it, that thread finds no query with its number and drops it. The
  query then waits in the queue, although it was answered, and the client gets nothing.\<close>

theorem fast_response_is_dropped:
  assumes heap: "heap_ok s qs fs (r # rs)" "fresh a s (qs @ fs @ r # rs)"
    and local: "h_request l = a" "h_tmp_q l = None" "save_rq l" "b_next (mem s a) = None"
    and r: "is_response (mem s r)" "dns_ID (pkt (mem s r)) = ref_ID (mem s a)"
    and unique: "\<forall>q \<in> set qs. ref_ID (mem s q) \<noteq> ref_ID (mem s a)"
  shows "\<exists>s'. dns_reaches net (s, [Sent l, Idle]) (s', [Idle, Idle]) \<and>
    heap_ok s' (qs @ [a]) (r # fs) rs \<and> ref_ID (mem s' a) = dns_ID (pkt (mem s r)) \<and> sent s' = sent s"
proof -
  let ?t = "s\<lparr>ready_buf := b_next (mem s r)\<rparr>"
  have t: "thread_block s = Some (Ok (r, ?t))" "heap_ok ?t qs fs rs" "fresh r ?t (qs @ fs @ rs)" "a \<noteq> r"
    using heap by (auto simp: thread_block_def heap_ok_def queue_rep_def fresh_def)
  have "find (\<lambda>q. ref_ID (mem ?t q) = dns_ID (pkt (mem ?t r))) qs = None" using r(2) unique by (simp add: find_None_iff)
  then have "thread_handler net None r ?t = Some (Ok (push_free r ?t))"
    using r(1) heap_search [OF t(2)] by (simp add: thread_handler_def handler_search_def handler_decide_def
      handler_send_def handler_free_def handler_queue_def)
  from thread_alone [where i = 1 and ths = "[Sent l, Idle]" and net = net, OF t(1) this]
  have one: "dns_reaches net (s, [Sent l, Idle]) (push_free r ?t, [Sent l, Idle])" by simp
  let ?u = "push_free r ?t"
  have "dns_trans net (?u, [Sent l, Idle]) (?u, [Freed l, Idle])"
    using thread_move [of net None "Sent l" ?u "Freed l" "handler_free l ?u" 0 "[Idle, Idle]"] local
    by (simp add: handler_free_def)
  moreover have "dns_trans net (?u, [Freed l, Idle]) (append_query a ?u, [Idle, Idle])"
    using thread_move [of net None "Freed l" ?u Idle "handler_queue l ?u" 0 "[Idle, Idle]"] local
    by (simp add: handler_queue_def)
  ultimately have reach: "dns_reaches net (s, [Sent l, Idle]) (append_query a ?u, [Idle, Idle])"
    using one by (meson rtranclp.rtrancl_into_rtrancl)
  have "heap_ok ?u qs (r # fs) rs" by (rule push_free_heap [OF t(2,3)])
  moreover have "fresh a ?u (qs @ (r # fs) @ rs)" using heap(2) t(4) by (auto simp: fresh_def)
  moreover have "b_next (mem ?u a) = None" using local(4) t(4) by simp
  ultimately have h: "heap_ok (append_query a ?u) (qs @ [a]) (r # fs) rs" by (rule append_heap)
  have "content (mem (append_query a ?u) a) = content (mem s a)" using t(4) by (simp add: append_frame)
  from content_fields [OF this] have "ref_ID (mem (append_query a ?u) a) = dns_ID (pkt (mem s r))" using r(2) by simp
  with reach h show ?thesis by (intro exI [of _ "append_query a ?u"]) (simp add: append_frame)
qed

text \<open>Buffer 2 has gone to a server under the number 8, and its response waits in buffer 3.\<close>

definition demo_race :: dns_state where
  "demo_race = (demo_state (demo_pkt 8 128 0))\<lparr>free_buf := None, ready_buf := Some 3\<rparr>"

definition demo_local :: handler_local where
  "demo_local = \<lparr>h_request = 2, h_tmp_q = None, save_rq = True, c_sock = 4, c_dest = 101\<rparr>"

theorem fast_response_is_dropped_witness:
  "\<exists>s'. dns_reaches demo_net (demo_race, [Sent demo_local, Idle]) (s', [Idle, Idle]) \<and>
     heap_ok s' [0, 1, 2] [3] [] \<and> sent s' = []"
proof -
  have h: "heap_ok demo_race [0, 1] [] [3]" "fresh 2 demo_race ([0, 1] @ [] @ [3])"
    using demo_heap by (auto simp: demo_race_def heap_ok_def queue_rep_def fresh_def demo_state_def demo_buf_def)
  have l: "h_request demo_local = 2" "h_tmp_q demo_local = None" "save_rq demo_local" "b_next (mem demo_race 2) = None"
    by (simp_all add: demo_local_def demo_race_def demo_state_def demo_buf_def)
  have r: "is_response (mem demo_race 3)" "dns_ID (pkt (mem demo_race 3)) = ref_ID (mem demo_race 2)"
    "\<forall>q \<in> set [0, 1]. ref_ID (mem demo_race q) \<noteq> ref_ID (mem demo_race 2)"
    by (simp_all add: demo_race_def demo_state_defs is_response_def get16_def DNS_OPT_QR_def)
  from fast_response_is_dropped [OF h l r, of demo_net] show ?thesis by (auto simp: demo_race_def demo_state_def)
qed

end
