(* ===== verification/DnsConfig.thy ===== *)
theory DnsConfig
  imports DnsInvariant ConfRealm
begin

text \<open>
  The start of the server: \<open>qxdns_setup\<close> and the beginning of \<open>main\<close> in
  \<open>QX-dns/main.c\<close>. The configuration file is read with the reader of \<open>ConfReader\<close>. The
  system calls are parameters: \<open>inet_aton\<close>, and the result of each call of \<open>socket\<close> and
  \<open>bind\<close>. Allocation of the configuration records succeeds.
\<close>

section \<open>State\<close>

record dns_env =
  inet_aton :: "string \<Rightarrow> u32 option"
  socket :: "nat \<Rightarrow> int"
  bind_ok :: "dns_connector \<Rightarrow> bool"

record dns_setup =
  lo_water :: int
  hi_water :: int
  increment :: int
  maximum :: int
  c_max :: int
  c_ttl :: int
  num_bufs :: int
  bind_list :: "dns_connector list"
  srvr_list :: "dns_connector list"
  root_zone :: "qxdns_mz list"
  sockets :: nat

definition setup_defaults :: dns_setup where
  "setup_defaults = \<lparr>lo_water = 2, hi_water = 5, increment = 2, maximum = 9, c_max = 100, c_ttl = 86400,
     num_bufs = 200, bind_list = [], srvr_list = [], root_zone = [], sockets = 0\<rparr>"

text \<open>A socket address: the port 53 and the address.\<close>

definition sockaddr :: "u32 \<Rightarrow> nat" where
  "sockaddr ip = 53 * 4294967296 + unat ip"

definition new_connector :: "dns_env \<Rightarrow> u32 \<Rightarrow> dns_setup \<Rightarrow> setup_fail + (dns_connector \<times> dns_setup)" where
  "new_connector env ip su =
     (let fd = socket env (sockets su); su = su\<lparr>sockets := sockets su + 1\<rparr> in
      if fd < 0 then Inl ExitFailure else Inr (\<lparr>sock = fd, c_addr = sockaddr ip\<rparr>, su))"

definition token_addr :: "dns_env \<Rightarrow> string \<Rightarrow> u32" where
  "token_addr env t = (case inet_aton env t of Some ip \<Rightarrow> ip | None \<Rightarrow> 0)"

section \<open>The server realm\<close>

definition server_directive :: "dns_env \<Rightarrow> string \<Rightarrow> (string \<Rightarrow> dns_setup \<Rightarrow> setup_fail + dns_setup) option" where
  "server_directive env t =
     (if str_ieq ''POOLLOWATER'' t then Some (\<lambda>a su. Inr (su\<lparr>lo_water := atoi a\<rparr>))
      else if str_ieq ''POOLHIWATER'' t then Some (\<lambda>a su. Inr (su\<lparr>hi_water := atoi a\<rparr>))
      else if str_ieq ''POOLMAX'' t then Some (\<lambda>a su. Inr (su\<lparr>maximum := atoi a\<rparr>))
      else if str_ieq ''POOLINCREMENT'' t then Some (\<lambda>a su. Inr (su\<lparr>increment := atoi a\<rparr>))
      else if str_ieq ''CACHEMAX'' t then Some (\<lambda>a su. Inr (su\<lparr>c_max := atoi a\<rparr>))
      else if str_ieq ''CACHETTL'' t then Some (\<lambda>a su. Inr (su\<lparr>c_ttl := atoi a\<rparr>))
      else if str_ieq ''QUEUELEN'' t then Some (\<lambda>a su. Inr (su\<lparr>num_bufs := atoi a\<rparr>))
      else if str_ieq ''BIND'' t then Some (\<lambda>a su. case new_connector env (token_addr env a) su of
          Inl e \<Rightarrow> Inl e | Inr (c, su) \<Rightarrow> Inr (su\<lparr>bind_list := c # bind_list su\<rparr>))
      else if str_ieq ''EXTERNALDNS'' t then Some (\<lambda>a su. case new_connector env (token_addr env a) su of
          Inl e \<Rightarrow> Inl e | Inr (c, su) \<Rightarrow> Inr (su\<lparr>srvr_list := c # srvr_list su\<rparr>))
      else None)"

function server_realm :: "dns_env \<Rightarrow> conf \<Rightarrow> dns_setup \<Rightarrow> setup_fail + (dns_setup \<times> conf)" where
  "server_realm env cf su = (case GetConf_string cf of
     (Overrun, _) \<Rightarrow> Inl ReadOverrun
   | (NoToken, _) \<Rightarrow> Inl ExitFailure
   | (Token t, cf1) \<Rightarrow>
       if str_ieq ''</server>'' t then Inr (su, cf1)
       else (case server_directive env t of
           None \<Rightarrow> Inl ExitFailure
         | Some f \<Rightarrow> (case with_arg f cf1 su of Inl e \<Rightarrow> Inl e | Inr (su', cf2) \<Rightarrow> server_realm env cf2 su')))"
  by pat_completeness auto
termination
  by (relation "measure (\<lambda>(env, cf, su). length (ConfFile cf))")
    (auto dest!: GetConf_string_shorter [OF sym] with_arg_file)

section \<open>The zone realm\<close>

record host_state =
  hs_host :: qxdns_mr
  hs_ns :: int
  hs_mx :: u16

definition add_address :: "dns_env \<Rightarrow> string \<Rightarrow> host_state \<Rightarrow> host_state" where
  "add_address env t h = (case inet_aton env t of
     Some ip \<Rightarrow> h\<lparr>hs_host := qxdns_add_mr_addr (hs_host h) ip\<rparr> | None \<Rightarrow> h)"

definition add_alias :: "string \<Rightarrow> host_state \<Rightarrow> host_state" where
  "add_alias t h = h\<lparr>hs_host := qxdns_add_mr_alias (hs_host h) (bytes_of t)\<rparr>"

definition host_directive :: "dns_env \<Rightarrow> string \<Rightarrow> (conf \<Rightarrow> host_state \<Rightarrow> setup_fail + (host_state \<times> conf)) option" where
  "host_directive env t =
     (if str_ieq ''alias'' t then Some (each_arg add_alias)
      else if str_ieq ''address'' t then Some (each_arg (add_address env))
      else if str_ieq ''ns'' t then Some (with_arg (\<lambda>a h. Inr (h\<lparr>hs_ns := atoi a\<rparr>)))
      else if str_ieq ''mx'' t then Some (with_arg (\<lambda>a h. Inr (h\<lparr>hs_mx := word_of_int (atoi a)\<rparr>)))
      else None)"

lemma host_directive_file: "host_directive env t = Some f \<Longrightarrow> f cf h = Inr (h', cf') \<Longrightarrow> ConfFile cf' = ConfFile cf"
  by (auto simp: host_directive_def split: if_splits dest: each_arg_file with_arg_file)

function host_lines :: "dns_env \<Rightarrow> conf \<Rightarrow> host_state \<Rightarrow> setup_fail + (host_state \<times> conf)" where
  "host_lines env cf h = (case GetConf_string cf of
     (Overrun, _) \<Rightarrow> Inl ReadOverrun
   | (NoToken, _) \<Rightarrow> Inl ExitFailure
   | (Token t, cf1) \<Rightarrow>
       if str_ieq ''</host>'' t then Inr (h, cf1)
       else (case host_directive env t of
           None \<Rightarrow> Inl ExitFailure
         | Some f \<Rightarrow> (case f cf1 h of Inl e \<Rightarrow> Inl e | Inr (h', cf2) \<Rightarrow> host_lines env cf2 h')))"
  by pat_completeness auto
termination
  by (relation "measure (\<lambda>(env, cf, h). length (ConfFile cf))")
    (auto dest!: GetConf_string_shorter [OF sym] host_directive_file)

declare host_lines.simps [simp del]

lemma host_lines_file: "host_lines env cf h = Inr (h', cf') \<Longrightarrow> length (ConfFile cf') < length (ConfFile cf)"
proof (induction "length (ConfFile cf)" arbitrary: cf h rule: less_induct)
  case less
  from less.prems obtain t cf1 where t: "GetConf_string cf = (Token t, cf1)"
    by (subst (asm) host_lines.simps) (auto split: prod.splits token_result.splits)
  note sh = GetConf_string_shorter [OF t]
  show ?case
  proof (cases "str_ieq ''</host>'' t")
    case True
    then show ?thesis using less.prems t sh by (subst (asm) host_lines.simps) simp
  next
    case False
    then obtain f h1 cf2 where f: "host_directive env t = Some f" "f cf1 h = Inr (h1, cf2)" "host_lines env cf2 h1 = Inr (h', cf')"
      using less.prems t by (subst (asm) host_lines.simps) (auto split: option.splits sum.splits prod.splits)
    have "ConfFile cf2 = ConfFile cf1" by (rule host_directive_file [OF f(1,2)])
    with less.hyps [OF _ f(3)] sh show ?thesis by simp
  qed
qed

text \<open>\<open><host>\<close> with the time to live and the name on the same line.\<close>

definition host_realm :: "dns_env \<Rightarrow> conf \<Rightarrow> qxdns_mz \<Rightarrow> setup_fail + (qxdns_mz \<times> conf)" where
  "host_realm env cf zone = (case GetConf_token cf of
     (Overrun, _) \<Rightarrow> Inl ReadOverrun
   | (NoToken, _) \<Rightarrow> Inl ExitFailure
   | (Token ttl, cf1) \<Rightarrow> (case GetConf_token cf1 of
         (Overrun, _) \<Rightarrow> Inl ReadOverrun
       | (NoToken, _) \<Rightarrow> Inl ExitFailure
       | (Token nm, cf2) \<Rightarrow>
           (case host_lines env cf2 \<lparr>hs_host = qxdns_new_mr (bytes_of nm) (word_of_int (atoi ttl)), hs_ns = 0, hs_mx = 0\<rparr> of
              Inl e \<Rightarrow> Inl e
            | Inr (h, cf3) \<Rightarrow> Inr (qxdns_add_mr zone (hs_host h) (hs_ns h) (hs_mx h), cf3))))"

lemma host_realm_file: "host_realm env cf zone = Inr (z, cf') \<Longrightarrow> length (ConfFile cf') < length (ConfFile cf)"
  by (auto simp: host_realm_def split: prod.splits token_result.splits sum.splits
      dest!: host_lines_file ConfFile_token_eq [OF sym])

function zone_lines :: "dns_env \<Rightarrow> conf \<Rightarrow> qxdns_mz \<Rightarrow> setup_fail + (qxdns_mz \<times> conf)" where
  "zone_lines env cf zone = (case GetConf_string cf of
     (Overrun, _) \<Rightarrow> Inl ReadOverrun
   | (NoToken, _) \<Rightarrow> Inl ExitFailure
   | (Token t, cf1) \<Rightarrow>
       if str_ieq ''</zone>'' t then Inr (zone, cf1)
       else if str_ieq ''<host>'' t then
         (case host_realm env cf1 zone of Inl e \<Rightarrow> Inl e | Inr (zone', cf2) \<Rightarrow> zone_lines env cf2 zone')
       else Inl ExitFailure)"
  by pat_completeness auto
termination
  by (relation "measure (\<lambda>(env, cf, zone). length (ConfFile cf))")
    (auto dest!: GetConf_string_shorter [OF sym] host_realm_file)

declare server_realm.simps [simp del] zone_lines.simps [simp del]

definition zone_realm :: "dns_env \<Rightarrow> conf \<Rightarrow> dns_setup \<Rightarrow> setup_fail + (dns_setup \<times> conf)" where
  "zone_realm env cf su = (case GetConf_token cf of
     (Overrun, _) \<Rightarrow> Inl ReadOverrun
   | (NoToken, _) \<Rightarrow> Inl ExitFailure
   | (Token nm, cf1) \<Rightarrow>
       (case qxdns_new_mz (bytes_of nm) (root_zone su) of
          [] \<Rightarrow> Inl ExitFailure
        | zone # others \<Rightarrow>
            (case zone_lines env cf1 zone of
               Inl e \<Rightarrow> Inl e
             | Inr (zone', cf2) \<Rightarrow> Inr (su\<lparr>root_zone := zone' # others\<rparr>, cf2))))"

section \<open>The whole file\<close>

lemma server_realm_file: "server_realm env cf su = Inr (su', cf') \<Longrightarrow> length (ConfFile cf') < length (ConfFile cf)"
proof (induction "length (ConfFile cf)" arbitrary: cf su rule: less_induct)
  case less
  from less.prems obtain t cf1 where t: "GetConf_string cf = (Token t, cf1)"
    by (subst (asm) server_realm.simps) (auto split: prod.splits token_result.splits)
  note sh = GetConf_string_shorter [OF t]
  show ?case
  proof (cases "str_ieq ''</server>'' t")
    case True
    then show ?thesis using less.prems t sh by (subst (asm) server_realm.simps) simp
  next
    case False
    then obtain f su1 cf2 where f: "with_arg f cf1 su = Inr (su1, cf2)" "server_realm env cf2 su1 = Inr (su', cf')"
      using less.prems t by (subst (asm) server_realm.simps) (auto split: option.splits sum.splits prod.splits)
    with less.hyps [OF _ f(2)] with_arg_file [OF f(1)] sh show ?thesis by simp
  qed
qed

lemma zone_lines_file: "zone_lines env cf zone = Inr (z, cf') \<Longrightarrow> length (ConfFile cf') < length (ConfFile cf)"
proof (induction "length (ConfFile cf)" arbitrary: cf zone rule: less_induct)
  case less
  from less.prems obtain t cf1 where t: "GetConf_string cf = (Token t, cf1)"
    by (subst (asm) zone_lines.simps) (auto split: prod.splits token_result.splits)
  note sh = GetConf_string_shorter [OF t]
  show ?case
  proof (cases "str_ieq ''</zone>'' t")
    case True
    then show ?thesis using less.prems t sh by (subst (asm) zone_lines.simps) simp
  next
    case False
    then obtain z1 cf2 where f: "host_realm env cf1 zone = Inr (z1, cf2)" "zone_lines env cf2 z1 = Inr (z, cf')"
      using less.prems t by (subst (asm) zone_lines.simps) (auto split: if_splits sum.splits prod.splits)
    with less.hyps [OF _ f(2)] host_realm_file [OF f(1)] sh show ?thesis by simp
  qed
qed

lemma zone_realm_file: "zone_realm env cf su = Inr (su', cf') \<Longrightarrow> length (ConfFile cf') < length (ConfFile cf)"
  by (auto simp: zone_realm_def qxdns_new_mz_def split: prod.splits token_result.splits sum.splits
      dest!: zone_lines_file ConfFile_token_eq [OF sym])

function read_realms :: "dns_env \<Rightarrow> conf \<Rightarrow> dns_setup \<Rightarrow> setup_fail + dns_setup" where
  "read_realms env cf su = (case GetConf_string cf of
     (Overrun, _) \<Rightarrow> Inl ReadOverrun
   | (NoToken, _) \<Rightarrow> Inr su
   | (Token t, cf1) \<Rightarrow>
       if str_ieq ''<server>'' t then
         (case server_realm env cf1 su of Inl e \<Rightarrow> Inl e | Inr (su', cf2) \<Rightarrow> read_realms env cf2 su')
       else if str_ieq ''<zone>'' t then
         (case zone_realm env cf1 su of Inl e \<Rightarrow> Inl e | Inr (su', cf2) \<Rightarrow> read_realms env cf2 su')
       else Inl ExitFailure)"
  by pat_completeness auto
termination
  by (relation "measure (\<lambda>(env, cf, su). length (ConfFile cf))")
    (auto dest!: GetConf_string_shorter [OF sym] server_realm_file zone_realm_file)

declare read_realms.simps [simp del]

text \<open>Without a \<open>BIND\<close> directive the server listens on all addresses.\<close>

definition default_bind :: "dns_env \<Rightarrow> dns_setup \<Rightarrow> setup_fail + dns_setup" where
  "default_bind env su = (if bind_list su = [] then
       (case new_connector env 0 su of Inl e \<Rightarrow> Inl e | Inr (c, su) \<Rightarrow> Inr (su\<lparr>bind_list := [c]\<rparr>))
     else Inr su)"

definition qxdns_setup :: "dns_env \<Rightarrow> string option \<Rightarrow> string \<Rightarrow> bool \<Rightarrow> setup_fail + (dns_setup \<times> dns_cache)" where
  "qxdns_setup env file junk cache_mem =
     (case GetConf_open file junk of
        None \<Rightarrow> Inl ExitFailure
      | Some cf \<Rightarrow> (case read_realms env cf setup_defaults of
            Inl e \<Rightarrow> Inl e
          | Inr su \<Rightarrow> (case default_bind env su of
                Inl e \<Rightarrow> Inl e
              | Inr su \<Rightarrow> (case qxdns_cache_init (cache_mem \<and> 0 \<le> c_max su) (nat (c_max su)) (nat (c_ttl su)) of
                    None \<Rightarrow> Inl ExitFailure
                  | Some ca \<Rightarrow> Inr (su, ca)))))"

text \<open>The beginning of \<open>main\<close>: the list of servers is reversed, every listening socket is bound,
  and the servers are linked behind the listening connectors. \<open>bufs\<close> is what \<open>malloc\<close>
  gives for the buffers.\<close>

definition main_init :: "dns_env \<Rightarrow> string option \<Rightarrow> string \<Rightarrow> bool \<Rightarrow> dns_buffer list option \<Rightarrow> int \<Rightarrow>
    setup_fail + (dns_net \<times> dns_state)" where
  "main_init env file junk cache_mem bufs t =
     (case qxdns_setup env file junk cache_mem of
        Inl e \<Rightarrow> Inl e
      | Inr (su, ca) \<Rightarrow> (case bufs of
            None \<Rightarrow> Inl ExitFailure
          | Some bs \<Rightarrow>
              if list_all (bind_ok env) (bind_list su) then
                Inr (\<lparr>connectors = bind_list su @ rev (srvr_list su), bind_count = length (bind_list su), zones = root_zone su\<rparr>,
                     dns_start ca t (take (nat (num_bufs su)) bs))
              else Inl ExitFailure))"

end
