(* ===== verification/DnsOrder.thy ===== *)
theory DnsOrder
  imports DnsConfig
begin

text \<open>
  The order in which the external servers of a configuration file are asked.
\<close>

definition ext_line :: "string \<Rightarrow> string" where
  "ext_line a = ''ExternalDNS '' @ a"

lemma ext_line_tokens: "word_ok a \<Longrightarrow> line_tokens (ext_line a) = [''ExternalDNS'', a]"
proof -
  assume a: "word_ok a"
  then have "line_tokens a = [a]" by (intro line_tokens_word) (auto simp: word_ok_def is_stop_def)
  then have "line_tokens ('' '' @ a) = [a]" by (simp add: line_tokens_blank is_blank_def)
  then show ?thesis
    by (subst line_tokens.simps) (simp add: ext_line_def Let_def is_blank_def)
qed

lemma ext_line_clean: "word_ok a \<Longrightarrow> clean (ext_line a)"
  by (auto simp: word_ok_def is_stop_def clean_def ext_line_def NUL_def LF_def)

fun server_conns :: "dns_env \<Rightarrow> nat \<Rightarrow> string list \<Rightarrow> dns_connector list" where
  "server_conns env n [] = []"
| "server_conns env n (a # as) = \<lparr>sock = socket env n, c_addr = sockaddr (token_addr env a)\<rparr> # server_conns env (Suc n) as"

lemma realm_names: "str_ieq ''</server>'' ''</server>''" "\<not> str_ieq ''</server>'' ''ExternalDNS''"
  "str_ieq ''<server>'' ''<server>''"
  by (simp_all add: str_ieq_def char_upper_def)

lemma ext_directive: "server_directive env ''ExternalDNS'' = Some (\<lambda>a su. case new_connector env (token_addr env a) su of
    Inl e \<Rightarrow> Inl e | Inr (c, su) \<Rightarrow> Inr (su\<lparr>srvr_list := c # srvr_list su\<rparr>))"
proof -
  have "char_of (of_char c :: nat) = c" for c :: char by simp
  from this [of "CHR ''A''"] this [of "CHR ''E''"] this [of "CHR ''L''"] this [of "CHR ''N''"]
    this [of "CHR ''R''"] this [of "CHR ''T''"] this [of "CHR ''X''"]
  have "str_ieq ''EXTERNALDNS'' ''ExternalDNS''" by (simp add: str_ieq_def char_upper_def)
  moreover have "\<not> str_ieq ''POOLLOWATER'' ''ExternalDNS''" "\<not> str_ieq ''POOLHIWATER'' ''ExternalDNS''"
    "\<not> str_ieq ''POOLMAX'' ''ExternalDNS''" "\<not> str_ieq ''POOLINCREMENT'' ''ExternalDNS''"
    "\<not> str_ieq ''CACHEMAX'' ''ExternalDNS''" "\<not> str_ieq ''CACHETTL'' ''ExternalDNS''"
    "\<not> str_ieq ''QUEUELEN'' ''ExternalDNS''" "\<not> str_ieq ''BIND'' ''ExternalDNS''"
    by (simp_all add: str_ieq_def char_upper_def)
  ultimately show ?thesis unfolding server_directive_def by (simp only: if_False if_True)
qed

lemma server_realm_list:
  assumes "ConfFile cf = concat (map (\<lambda>a. ext_line a @ [LF]) as) @ ''</server>'' @ LF # rest"
    and "\<forall>a \<in> set as. word_ok a \<and> length (ext_line a) + 2 \<le> length (ConfString cf)" "11 \<le> length (ConfString cf)"
    and "\<forall>k. 0 \<le> socket env k"
  shows "\<exists>cf'. server_realm env cf su = Inr (su\<lparr>srvr_list := rev (server_conns env (sockets su) as) @ srvr_list su,
      sockets := sockets su + length as\<rparr>, cf') \<and> ConfFile cf' = rest \<and> length (ConfString cf') = length (ConfString cf)"
  using assms
proof (induction as arbitrary: cf su)
  case Nil
  have lt: "line_tokens ''</server>'' = [''</server>'']" by (intro line_tokens_word) (auto simp: is_blank_def)
  have "\<exists>cf1. GetConf_string cf = (Token ''</server>'', cf1) \<and> ConfFile cf1 = rest \<and> length (ConfString cf1) = length (ConfString cf)"
    by (rule read_word [OF _ _ _ lt]) (use Nil.prems in \<open>auto simp: clean_def NUL_def LF_def\<close>)
  then show ?case by (subst server_realm.simps) (auto simp: realm_names)
next
  case (Cons a as)
  have w: "word_ok a" "length (ext_line a) + 2 \<le> length (ConfString cf)" using Cons.prems(2) by auto
  let ?more = "concat (map (\<lambda>a. ext_line a @ [LF]) as) @ ''</server>'' @ LF # rest"
  obtain cf1 cf2 where rd: "GetConf_string cf = (Token ''ExternalDNS'', cf1)" "GetConf_token cf1 = (Token a, cf2)"
    "ConfFile cf2 = ?more" "length (ConfString cf2) = length (ConfString cf)"
    using read_directive [of cf "ext_line a" ?more, OF _ ext_line_clean [OF w(1)] w(2) ext_line_tokens [OF w(1)]] Cons.prems(1)
    by auto
  let ?su = "su\<lparr>sockets := sockets su + 1, srvr_list := \<lparr>sock = socket env (sockets su), c_addr = sockaddr (token_addr env a)\<rparr> # srvr_list su\<rparr>"
  have nn: "\<not> socket env (sockets su) < 0" using Cons.prems(4) by (simp add: not_less)
  have step: "server_realm env cf su = server_realm env cf2 ?su"
    using rd(1,2) nn by (subst server_realm.simps) (simp add: realm_names ext_directive with_arg_def new_connector_def Let_def)
  have "\<forall>a \<in> set as. word_ok a \<and> length (ext_line a) + 2 \<le> length (ConfString cf2)" "11 \<le> length (ConfString cf2)"
    using Cons.prems(2,3) rd(4) by auto
  from Cons.IH [OF rd(3) this Cons.prems(4), of ?su] rd(4) step show ?case by auto
qed

text \<open>A configuration with nothing but a list of external servers starts a server that listens
  on all addresses and asks the external servers in the order of the file: the first listed server
  is the one every query goes to first. (The sample configuration says the last one takes precedence.)\<close>

theorem servers_are_asked_in_file_order:
  assumes conf: "text0 = ''<server>'' @ [LF] @ concat (map (\<lambda>a. ext_line a @ [LF]) as) @ ''</server>'' @ [LF]"
    and words: "\<forall>a \<in> set as. word_ok a \<and> length (ext_line a) \<le> 4094"
    and os: "\<forall>k. 0 \<le> socket env k" "\<forall>c. bind_ok env c"
  shows "\<exists>net st. main_init env (Some text0) junk True (Some bufs) t = Inr (net, st) \<and> bind_count net = 1 \<and>
    connectors net = \<lparr>sock = socket env (length as), c_addr = sockaddr 0\<rparr> # server_conns env 0 as \<and>
    srvr_connectors net = (if as = [] then None else Some 1)"
proof -
  let ?more = "concat (map (\<lambda>a. ext_line a @ [LF]) as) @ ''</server>'' @ LF # []"
  obtain cf where cf: "GetConf_open (Some text0) junk = Some cf" "ConfFile cf = ''<server>'' @ LF # ?more" "length (ConfString cf) = 4096"
    by (simp add: GetConf_open_def conf)
  have lt: "line_tokens ''<server>'' = [''<server>'']" by (intro line_tokens_word) (auto simp: is_blank_def)
  obtain cf1 where cf1: "GetConf_string cf = (Token ''<server>'', cf1)" "ConfFile cf1 = ?more" "length (ConfString cf1) = 4096"
    using read_word [OF cf(2) _ _ lt] cf(3) by (auto simp: clean_def NUL_def LF_def)
  let ?su = "setup_defaults\<lparr>srvr_list := rev (server_conns env 0 as), sockets := length as\<rparr>"
  have "\<forall>a \<in> set as. word_ok a \<and> length (ext_line a) + 2 \<le> length (ConfString cf1)" "11 \<le> length (ConfString cf1)"
    using words cf1(3) by auto
  from server_realm_list [OF cf1(2) this os(1), of setup_defaults] obtain cf2 where
    cf2: "server_realm env cf1 setup_defaults = Inr (?su, cf2)" "ConfFile cf2 = []"
    by (auto simp: setup_defaults_def)
  have "GetConf_string cf2 = (NoToken, cf2\<lparr>GetConf_ln := Suc (GetConf_ln cf2)\<rparr>)"
    using cf2(2) by (subst GetConf_string.simps) (simp add: fgets_def Let_def)
  then have "read_realms env cf2 ?su = Inr ?su" by (subst read_realms.simps) simp
  then have "read_realms env cf setup_defaults = Inr ?su"
    using cf1(1) cf2(1) by (subst read_realms.simps) (simp add: realm_names)
  moreover have "default_bind env ?su = Inr (?su\<lparr>sockets := length as + 1, bind_list := [\<lparr>sock = socket env (length as), c_addr = sockaddr 0\<rparr>]\<rparr>)"
    using os(1) by (simp add: default_bind_def setup_defaults_def new_connector_def Let_def not_less)
  ultimately obtain ca where run: "qxdns_setup env (Some text0) junk True = Inr (?su\<lparr>sockets := length as + 1,
      bind_list := [\<lparr>sock = socket env (length as), c_addr = sockaddr 0\<rparr>]\<rparr>, ca)"
    using cf(1) by (simp add: qxdns_setup_def qxdns_cache_init_def setup_defaults_def)
  let ?net = "\<lparr>connectors = \<lparr>sock = socket env (length as), c_addr = sockaddr 0\<rparr> # server_conns env 0 as,
    bind_count = 1, zones = []\<rparr>"
  have "main_init env (Some text0) junk True (Some bufs) t = Inr (?net, dns_start ca t (take 200 bufs))"
    using run os(2) by (simp add: main_init_def list_all_iff setup_defaults_def)
  moreover have "srvr_connectors ?net = (if as = [] then None else Some 1)"
    by (cases as) (simp_all add: srvr_connectors_def)
  ultimately show ?thesis by (intro exI [of _ ?net]) auto
qed

definition demo_env :: dns_env where
  "demo_env = \<lparr>inet_aton = (\<lambda>s. if s = ''1.1.1.1'' then Some 1 else if s = ''2.2.2.2'' then Some 2 else None),
     socket = (\<lambda>k. int k + 3), bind_ok = (\<lambda>_. True)\<rparr>"

theorem servers_are_asked_in_file_order_witness:
  "\<exists>net st. main_init demo_env (Some (''<server>'' @ [LF] @ concat (map (\<lambda>a. ext_line a @ [LF]) [''2.2.2.2'', ''1.1.1.1'']) @ ''</server>'' @ [LF]))
      [] True (Some []) 0 = Inr (net, st) \<and> bind_count net = 1 \<and>
    map c_addr (connectors net) = [sockaddr 0, sockaddr 2, sockaddr 1] \<and> srvr_connectors net = Some 1"
proof -
  have w: "\<forall>a \<in> set [''2.2.2.2'', ''1.1.1.1'']. word_ok a \<and> length (ext_line a) \<le> 4094"
    by (simp add: word_ok_def is_stop_def is_blank_def ext_line_def NUL_def LF_def)
  have o: "\<forall>k. 0 \<le> socket demo_env k" "\<forall>c. bind_ok demo_env c" by (simp_all add: demo_env_def)
  from servers_are_asked_in_file_order [OF refl w o, of "[]" "[]" 0] show ?thesis
    by (auto simp: token_addr_def demo_env_def)
qed

end
