(* ===== verification/VpnControl.thy ===== *)
theory VpnControl
  imports QBaseTypes
begin

text \<open>
  \<open>QX-vpn/qx_vpn_cc.c\<close>: the control connection of the PPTP server. A message is the buffer
  \<open>cc_message_t\<close> of 224 bytes, in which the reply overlays the request; its members are read and
  written at their offsets. The results of the system calls that one message needs are an argument;
  the sockets for which the dispatcher will call back, each with the client it was registered for, are
  kept beside the clients.
\<close>

section \<open>State\<close>

record client =
  cc_sock :: int
  cli_addr :: nat
  cc_state :: u32
  cc_cookie :: u32
  cc_call_id :: u16
  cc_call_sn :: u16
  call_id :: u16
  saccm :: u32
  raccm :: u32
  raw_sock :: int
  snd_num :: u32
  snd_ack :: u32
  rcv_num :: u32
  pkt_in :: bytes
  pkt_out :: bytes

text \<open>The system: the sockets in the dispatcher with the address of the client that \<open>select_attach\<close>
  got, and what was sent on which socket.\<close>

record vpn_os =
  attached :: "(int \<times> nat) list"
  vpn_sent :: "(int \<times> bytes) list"

text \<open>The address of the client, and the results of \<open>socket\<close>, \<open>connect\<close> and
  \<open>select_attach\<close>.\<close>

record ccm_calls =
  self :: nat
  socket_result :: int
  connect_result :: int
  attach_result :: int

definition CC_STATE_IDLE :: u32 where "CC_STATE_IDLE = 0"
definition CC_STATE_ESTABLISHED :: u32 where "CC_STATE_ESTABLISHED = 1"
definition PPTP_PROTO_VERSION :: u16 where "PPTP_PROTO_VERSION = 0x0100"
definition MAGIC_COOKIE :: u32 where "MAGIC_COOKIE = 0x4D3C2B1A"
definition PPTPMT_CM :: u16 where "PPTPMT_CM = 0x0100"
definition CC_GE_NC :: u16 where "CC_GE_NC = 0x0100"
definition CC_GE_NR :: u16 where "CC_GE_NR = 0x0400"
definition CC_GE_BC :: u16 where "CC_GE_BC = 0x0500"

lemmas cc_consts = CC_STATE_IDLE_def CC_STATE_ESTABLISHED_def PPTP_PROTO_VERSION_def MAGIC_COOKIE_def
  PPTPMT_CM_def CC_GE_NC_def CC_GE_NR_def CC_GE_BC_def

datatype cmt =
    STARTREQ | STARTREP | STOPREQ | STOPREP | ECHOREQ | ECHOREP | OCALLREQ | OCALLREP | ICALLREQ
  | ICALLREP | ICALLCON | CCLEAREQ | CDISCNFY | WANERNFY | SLINKNFO | CMT_OTHER

definition cmt_of :: "u16 \<Rightarrow> cmt" where
  "cmt_of t = (if t = 0x0100 then STARTREQ else if t = 0x0200 then STARTREP else if t = 0x0300 then STOPREQ
     else if t = 0x0400 then STOPREP else if t = 0x0500 then ECHOREQ else if t = 0x0600 then ECHOREP
     else if t = 0x0700 then OCALLREQ else if t = 0x0800 then OCALLREP else if t = 0x0900 then ICALLREQ
     else if t = 0x0A00 then ICALLREP else if t = 0x0B00 then ICALLCON else if t = 0x0C00 then CCLEAREQ
     else if t = 0x0D00 then CDISCNFY else if t = 0x0E00 then WANERNFY else if t = 0x0F00 then SLINKNFO
     else CMT_OTHER)"

definition sizeof_cc_message :: nat where "sizeof_cc_message = 224"

text \<open>The members of the messages.\<close>

abbreviation m_msglen :: "bytes \<Rightarrow> u16" where "m_msglen m \<equiv> get16 m 0"
abbreviation m_type :: "bytes \<Rightarrow> u16" where "m_type m \<equiv> get16 m 2"
abbreviation m_cookie :: "bytes \<Rightarrow> u32" where "m_cookie m \<equiv> get32 m 4"
abbreviation m_ccm_type :: "bytes \<Rightarrow> u16" where "m_ccm_type m \<equiv> get16 m 8"
abbreviation m_reserved :: "bytes \<Rightarrow> u16" where "m_reserved m \<equiv> get16 m 10"

definition be16 :: "nat \<Rightarrow> u16" where "be16 n = swap16 (word_of_nat n)"
definition be32 :: "nat \<Rightarrow> u32" where "be32 n = swap32 (word_of_nat n)"

text \<open>\<open>snprintf\<close> of a text that fits.\<close>

definition put_text :: "bytes \<Rightarrow> nat \<Rightarrow> string \<Rightarrow> bytes" where
  "put_text m off s = blit m off (bytes_of s @ [0])"

section \<open>The handlers\<close>

text \<open>Each returns the result, the buffer with the reply, the number of bytes to send and the
  client; \<open>None\<close> stands for a return before anything is sent, with the result minus one.\<close>

definition cm_start :: "bytes \<Rightarrow> client \<Rightarrow> (int \<times> bytes \<times> nat \<times> client) option" where
  "cm_start m c =
     (if get16 m 14 \<noteq> 0 then None
      else let (res, m, c) =
          (if cc_state c \<noteq> CC_STATE_IDLE then (0, put16 m 14 0x0003, c)
           else if swap16 (get16 m 12) < PPTP_PROTO_VERSION then (-1, put16 m 14 0x0005, c)
           else (0, put16 m 14 0x0001, c\<lparr>cc_state := CC_STATE_ESTABLISHED, cc_cookie := m_cookie m\<rparr>));
        m = put16 m 12 (swap16 PPTP_PROTO_VERSION); m = put32 m 16 (be32 3); m = put32 m 20 0; m = put16 m 24 0;
        m = put16 m 26 (be16 1); m = put_text m 28 ''qnx.catnet.kaluga.org'';
        m = put_text m 92 ''PPTP server (c) -={ MikeP }=-''; m = put16 m 8 0x0200
      in Some (res, m, 156, c))"

definition cm_stop :: "bytes \<Rightarrow> client \<Rightarrow> (int \<times> bytes \<times> nat \<times> client) option" where
  "cm_stop m c = (if get16 m 14 \<noteq> 0 then None
     else Some (-1, put16 (put16 m 12 0x0001) 8 0x0400, 16, c))"

text \<open>The GRE socket of an outgoing call: the result code, and the client and the system after
  it.\<close>

definition open_call :: "ccm_calls \<Rightarrow> client \<Rightarrow> vpn_os \<Rightarrow> u16 \<times> int \<times> client \<times> vpn_os" where
  "open_call e c os =
     (if cc_state c \<noteq> CC_STATE_ESTABLISHED then (0x0002 OR CC_GE_NC, -1, c, os)
      else if cc_call_id c \<noteq> 0 \<and> cc_call_sn c \<noteq> 0 then (0x0007, 0, c, os)
      else let s = socket_result e; c = c\<lparr>raw_sock := s\<rparr> in
        if s < 0 then (0x0003, 0, c, os)
        else if connect_result e < 0 \<or> attach_result e < 0 then (0x0002 OR CC_GE_NR, 0, c\<lparr>raw_sock := -1\<rparr>, os)
        else (0x0001, 0, c, os\<lparr>attached := (s, self e) # attached os\<rparr>))"

definition cm_ocall :: "ccm_calls \<Rightarrow> bytes \<Rightarrow> client \<Rightarrow> vpn_os \<Rightarrow> (int \<times> bytes \<times> nat \<times> client \<times> vpn_os) option" where
  "cm_ocall e m c os =
     (if get16 m 38 \<noteq> 0 then None
      else let (rc, res, c, os) = open_call e c os;
        m = put16 m 16 rc;
        c = c\<lparr>cc_call_id := get16 m 12, cc_call_sn := get16 m 14, call_id := 3\<rparr>;
        m = put16 m 12 (call_id c); m = put16 m 14 (cc_call_id c); m = put16 m 18 0; m = put32 m 20 (be32 100000000);
        m = put16 m 24 (be16 8); m = put16 m 26 (be16 10); m = put32 m 28 0; m = put16 m 8 0x0800;
        m = put16 m 0 (be16 32)
      in Some (res, m, 32, c, os))"

definition cm_clear :: "bytes \<Rightarrow> client \<Rightarrow> (int \<times> bytes \<times> nat \<times> client) option" where
  "cm_clear m c =
     (if get16 m 14 \<noteq> 0 then None
      else let
        m = put16 m 14 (if get16 m 12 \<noteq> cc_call_id c then 0x0002 OR CC_GE_BC else 0x0004);
        m = put16 m 16 0; m = put16 m 18 0; m = m[20 := 0];
        m = put16 m 0 (be16 148); m = put16 m 8 0x0D00
      in Some (0, m, 148, c\<lparr>cc_call_id := 0, cc_call_sn := 0, call_id := 0\<rparr>))"

definition cm_link :: "bytes \<Rightarrow> client \<Rightarrow> int \<times> client" where
  "cm_link m c =
     (if get16 m 14 \<noteq> 0 then (-1, c)
      else if cc_state c = CC_STATE_ESTABLISHED \<and> cc_call_id c \<noteq> 0 \<and> cc_call_sn c \<noteq> 0
        then (0, c\<lparr>saccm := get32 m 16, raccm := get32 m 20\<rparr>)
      else (-1, c))"

definition send_reply :: "client \<Rightarrow> bytes \<Rightarrow> nat \<Rightarrow> vpn_os \<Rightarrow> vpn_os" where
  "send_reply c m n os = os\<lparr>vpn_sent := vpn_sent os @ [(cc_sock c, take n m)]\<rparr>"

definition dispatch_ccm :: "ccm_calls \<Rightarrow> int \<Rightarrow> bytes \<Rightarrow> client \<Rightarrow> vpn_os \<Rightarrow> int \<times> client \<times> vpn_os" where
  "dispatch_ccm e result m c os =
     (let reply = (\<lambda>r. case r of None \<Rightarrow> (-1, c, os)
            | Some (res, m', n, c') \<Rightarrow> (res, c', send_reply c m' n os))
      in case cmt_of (m_ccm_type m) of
        STARTREQ \<Rightarrow> reply (cm_start m c)
      | STOPREQ \<Rightarrow> reply (cm_stop m c)
      | CCLEAREQ \<Rightarrow> reply (cm_clear m c)
      | OCALLREQ \<Rightarrow> (case cm_ocall e m c os of None \<Rightarrow> (-1, c, os)
            | Some (res, m', n, c', os') \<Rightarrow> (res, c', send_reply c m' n os'))
      | SLINKNFO \<Rightarrow> (case cm_link m c of (res, c') \<Rightarrow> (res, c', os))
      | ECHOREQ \<Rightarrow> (result, c, send_reply c m 0 os)
      | ECHOREP \<Rightarrow> (result, c, send_reply c m 0 os)
      | CMT_OTHER \<Rightarrow> (result, c, send_reply c m 0 os)
      | _ \<Rightarrow> (-1, c, os))"

text \<open>What \<open>recv\<close> gives: its result, whether a signal interrupted it, and the buffer.\<close>

record received =
  r_result :: int
  r_eintr :: bool
  r_buffer :: bytes

definition handle_ccm :: "ccm_calls \<Rightarrow> received \<Rightarrow> client \<Rightarrow> vpn_os \<Rightarrow> int \<times> client \<times> vpn_os" where
  "handle_ccm e r c os =
     (let result = r_result r; m = r_buffer r in
      if result < 0 \<and> r_eintr r then (0, c, os)
      else if result \<le> 0 then (-1, c, os)
      else if result \<noteq> int (unat (swap16 (m_msglen m))) then (-1, c, os)
      else if MAGIC_COOKIE \<noteq> m_cookie m then (-1, c, os)
      else if m_type m \<noteq> PPTPMT_CM then (-1, c, os)
      else if m_reserved m \<noteq> 0 then (-1, c, os)
      else dispatch_ccm e result m c os)"

end
