(* ===== verification/VpnServer.thy ===== *)
theory VpnServer
  imports VpnControl
begin

text \<open>
  \<open>QX-vpn/qx_vpn_ppp.c\<close> and the callbacks of \<open>QX-vpn/qx_vpn_main.c\<close>: GRE packets, new
  connections, and the dispatch to the client records, which live at addresses until
  \<open>destroy_client\<close> frees them.
\<close>

section \<open>GRE packets\<close>

definition GRE_PROTOCOL :: u16 where "GRE_PROTOCOL = 0x0B88"
definition GRE_FL_S :: u16 where "GRE_FL_S = 0x0010"
definition GRE_FL_A :: u16 where "GRE_FL_A = 0x8000"
definition GRE_SANITY_MASK :: u16 where "GRE_SANITY_MASK = 0x7fef"
definition GRE_SANITY_VALUE :: u16 where "GRE_SANITY_VALUE = 0x0120"

definition pkt_in_size :: nat where "pkt_in_size = 1500"

text \<open>The acknowledgment of a packet: the client with the number noted, or \<open>None\<close> when the number is
  out of range.\<close>

definition gre_ack :: "u16 \<Rightarrow> bytes \<Rightarrow> nat \<Rightarrow> client \<Rightarrow> client option" where
  "gre_ack flags p g c =
     (if flags AND GRE_FL_A = 0 then Some c
      else let a = swap32 (if flags AND GRE_FL_S \<noteq> 0 then get32 p (g + 12) else get32 p (g + 8)) in
        if a < snd_ack c \<or> snd_num c \<le> a then None else Some (c\<lparr>snd_ack := a\<rparr>))"

text \<open>The packet after the IP header at \<open>g\<close>. Past the last check, the header of the answer is
  written through a pointer to the local variable \<open>ppp_out\<close> itself, twenty bytes into a variable
  of four.\<close>

definition gre_packet :: "bytes \<Rightarrow> nat \<Rightarrow> client \<Rightarrow> (int \<times> client) outcome" where
  "gre_packet p g c =
     (let flags = get16 p g in
      if flags AND GRE_SANITY_MASK \<noteq> GRE_SANITY_VALUE then Ok (0, c)
      else if get16 p (g + 2) \<noteq> GRE_PROTOCOL then Ok (0, c)
      else if get16 p (g + 6) \<noteq> call_id c then Ok (0, c)
      else case gre_ack flags p g c of
          None \<Rightarrow> Ok (0, c)
        | Some c \<Rightarrow>
            if flags AND GRE_FL_S = 0 then Ok (0, c)
            else let n = swap32 (get32 p (g + 8)) in
              if n < rcv_num c then Ok (0, c)
              else let c = c\<lparr>rcv_num := n\<rparr>; d = (if flags AND GRE_FL_A \<noteq> 0 then g + 16 else g + 12) in
                if p ! d \<noteq> 0xFF \<or> p ! (d + 1) \<noteq> 0x03 then Ok (0, c)
                else Crash OutOfBounds)"

text \<open>\<open>recv\<close> asks for 1514 bytes; more than the buffer holds run into the member behind it.\<close>

definition handle_ppp :: "received \<Rightarrow> client \<Rightarrow> (int \<times> client) outcome" where
  "handle_ppp r c =
     (let result = r_result r in
      if result < 0 then Ok (0, c)
      else if int pkt_in_size < result then Crash OutOfBounds
      else let p = blit (pkt_in c) 0 (take (nat result) (r_buffer r)); c = c\<lparr>pkt_in := p\<rparr> in
        if p ! 0 AND 0xF0 \<noteq> 0x40 then Ok (0, c)
        else gre_packet p (4 * unat (p ! 0 AND 0x0F)) c)"

section \<open>The clients\<close>

record vpn_server =
  clients :: "nat \<Rightarrow> client option"
  vpn_os :: vpn_os

definition destroy_client :: "nat \<Rightarrow> client \<Rightarrow> vpn_server \<Rightarrow> vpn_server" where
  "destroy_client a c sv =
     (let at = attached (vpn_os sv);
          at = (if cc_sock c \<noteq> -1 then filter (\<lambda>(s, _). s \<noteq> cc_sock c) at else at);
          at = (if raw_sock c \<noteq> -1 then filter (\<lambda>(s, _). s \<noteq> raw_sock c) at else at)
      in \<lparr>clients = (clients sv)(a := None), vpn_os = (vpn_os sv)\<lparr>attached := at\<rparr>\<rparr>)"

definition new_client :: "int \<Rightarrow> nat \<Rightarrow> client" where
  "new_client s from = \<lparr>cc_sock = s, cli_addr = from, cc_state = 0, cc_cookie = 0, cc_call_id = 0, cc_call_sn = 0,
     call_id = 0, saccm = 0xffffffff, raccm = 0xffffffff, raw_sock = -1, snd_num = 0, snd_ack = 0, rcv_num = 0,
     pkt_in = replicate pkt_in_size 0, pkt_out = replicate pkt_in_size 0\<rparr>"

text \<open>\<open>mem\<close> is the address that \<open>malloc\<close> gives.\<close>

definition lstn_action :: "int \<Rightarrow> nat \<Rightarrow> nat option \<Rightarrow> int \<Rightarrow> vpn_server \<Rightarrow> vpn_server" where
  "lstn_action new_sock from mem attach sv =
     (if new_sock < 0 then sv
      else case mem of None \<Rightarrow> sv
        | Some a \<Rightarrow>
            let c = new_client new_sock from; sv = sv\<lparr>clients := (clients sv)(a \<mapsto> c)\<rparr> in
            if attach < 0 then destroy_client a c sv
            else sv\<lparr>vpn_os := (vpn_os sv)\<lparr>attached := (new_sock, a) # attached (vpn_os sv)\<rparr>\<rparr>)"

definition cc_action :: "int \<Rightarrow> nat \<Rightarrow> ccm_calls \<Rightarrow> received \<Rightarrow> vpn_server \<Rightarrow> vpn_server outcome" where
  "cc_action s a e r sv =
     (case clients sv a of
        None \<Rightarrow> Crash UseAfterFree
      | Some c \<Rightarrow>
          if s = cc_sock c then
            (case handle_ccm (e\<lparr>self := a\<rparr>) r c (vpn_os sv) of
               (res, c', os') \<Rightarrow>
                 let sv = \<lparr>clients = (clients sv)(a \<mapsto> c'), vpn_os = os'\<rparr> in
                 Ok (if res < 0 then destroy_client a c' sv else sv))
          else if s = raw_sock c then
            bindo (handle_ppp r c) (\<lambda>(_, c'). Ok (sv\<lparr>clients := (clients sv)(a \<mapsto> c')\<rparr>))
          else Ok sv)"

end
