(* ===== verification/VpnCalls.thy ===== *)
theory VpnCalls
  imports VpnServer
begin

text \<open>
  The life of a client of \<open>QX-vpn\<close>: what every run of new connections and callbacks keeps, and a
  sequence of messages after which a freed client is used.
\<close>

section \<open>The invariant\<close>

definition client_ok :: "client \<Rightarrow> bool" where
  "client_ok c \<longleftrightarrow> (cc_state c = CC_STATE_IDLE \<or> cc_state c = CC_STATE_ESTABLISHED) \<and> (call_id c = 0 \<or> call_id c = 3) \<and>
     (cc_state c = CC_STATE_IDLE \<longrightarrow> cc_call_id c = 0 \<and> cc_call_sn c = 0 \<and> call_id c = 0 \<and> raw_sock c = -1)"

definition registered :: "(int \<times> nat) list \<Rightarrow> nat \<Rightarrow> client \<Rightarrow> bool" where
  "registered at a c \<longleftrightarrow> 0 \<le> cc_sock c \<and> (cc_sock c, a) \<in> set at \<and> (0 \<le> raw_sock c \<longrightarrow> (raw_sock c, a) \<in> set at)"

definition vpn_inv :: "vpn_server \<Rightarrow> bool" where
  "vpn_inv sv \<longleftrightarrow> distinct (map fst (attached (vpn_os sv))) \<and>
     (\<forall>a c. clients sv a = Some c \<longrightarrow> client_ok c \<and> registered (attached (vpn_os sv)) a c)"

text \<open>What the system may answer: a new descriptor is not one that is open, and \<open>malloc\<close> gives
  memory that is not in use.\<close>

datatype vpn_event =
    Accept int nat "nat option" int
  | Activity int nat ccm_calls received

definition vpn_fresh :: "vpn_server outcome \<Rightarrow> vpn_event \<Rightarrow> bool" where
  "vpn_fresh st e = (case st of Crash _ \<Rightarrow> True
     | Ok sv \<Rightarrow> (case e of
           Accept s from mem at \<Rightarrow> s \<notin> fst ` set (attached (vpn_os sv)) \<and> (case mem of Some a \<Rightarrow> clients sv a = None | None \<Rightarrow> True)
         | Activity s a calls r \<Rightarrow> socket_result calls \<notin> fst ` set (attached (vpn_os sv))))"

definition vpn_step :: "vpn_server outcome \<Rightarrow> vpn_event \<Rightarrow> vpn_server outcome" where
  "vpn_step st e = bindo st (\<lambda>sv. case e of
     Accept s from mem at \<Rightarrow> Ok (lstn_action s from mem at sv)
   | Activity s a calls r \<Rightarrow> cc_action s a calls r sv)"

definition vpn_outcome_ok :: "vpn_server outcome \<Rightarrow> bool" where
  "vpn_outcome_ok st \<longleftrightarrow> (\<forall>sv. st = Ok sv \<longrightarrow> vpn_inv sv)"

text \<open>One message on the control connection.\<close>

definition ccm_post :: "ccm_calls \<Rightarrow> client \<Rightarrow> vpn_os \<Rightarrow> client \<Rightarrow> vpn_os \<Rightarrow> int \<Rightarrow> bool" where
  "ccm_post e c os c' os' res \<longleftrightarrow> cc_sock c' = cc_sock c \<and> (0 \<le> res \<longrightarrow> client_ok c') \<and>
     (attached os' = attached os \<and> (raw_sock c' = raw_sock c \<or> raw_sock c' < 0) \<or>
      attached os' = (raw_sock c', self e) # attached os \<and> raw_sock c' = socket_result e \<and> 0 \<le> raw_sock c')"

lemma ccm_post_send [simp]: "ccm_post e c os c' (send_reply d m n os') res \<longleftrightarrow> ccm_post e c os c' os' res"
  by (simp add: ccm_post_def send_reply_def)

lemma ccm_post_same [simp]: "client_ok c \<Longrightarrow> ccm_post e c os c os res"
  by (simp add: ccm_post_def)

lemma open_call_post:
  "client_ok c \<Longrightarrow> open_call e c os = (rc, res, c', os') \<Longrightarrow>
   cc_sock c' = cc_sock c \<and> cc_state c' = cc_state c \<and> (0 \<le> res \<longrightarrow> cc_state c = CC_STATE_ESTABLISHED) \<and>
   (attached os' = attached os \<and> (raw_sock c' = raw_sock c \<or> raw_sock c' < 0) \<or>
    attached os' = (raw_sock c', self e) # attached os \<and> raw_sock c' = socket_result e \<and> 0 \<le> raw_sock c')"
  by (auto simp: open_call_def Let_def split: if_splits)

lemma ocall_post:
  assumes "client_ok c" "cm_ocall e m c os = Some (res, m', n, c', os')"
  shows "ccm_post e c os c' os' res"
proof -
  obtain rc res1 c1 os1 where o: "open_call e c os = (rc, res1, c1, os1)" by (cases "open_call e c os") auto
  have "res = res1" "c' = c1\<lparr>cc_call_id := get16 (put16 m 16 rc) 12, cc_call_sn := get16 (put16 m 16 rc) 14, call_id := 3\<rparr>" "os' = os1"
    using assms(2) o by (auto simp: cm_ocall_def Let_def split: if_splits)
  with open_call_post [OF assms(1) o] show ?thesis
    by (auto simp: ccm_post_def client_ok_def cc_consts)
qed

lemma dispatch_post:
  assumes "client_ok c" "dispatch_ccm e result m c os = (res, c', os')"
  shows "ccm_post e c os c' os' res"
proof -
  have start: "ccm_post e c os c' os res" if "cm_start m c = Some (res, m', n, c')" for m' n
    using that assms(1) by (auto simp: cm_start_def Let_def ccm_post_def client_ok_def cc_consts split: if_splits)
  have stop: "ccm_post e c os c' os res" if "cm_stop m c = Some (res, m', n, c')" for m' n
    using that assms(1) by (auto simp: cm_stop_def ccm_post_def split: if_splits)
  have clear: "ccm_post e c os c' os res" if "cm_clear m c = Some (res, m', n, c')" for m' n
    using that assms(1) by (auto simp: cm_clear_def Let_def ccm_post_def client_ok_def split: if_splits)
  have link: "ccm_post e c s c' s res" if "cm_link m c = (res, c')" for s
    using that assms(1) by (auto simp: cm_link_def ccm_post_def client_ok_def split: if_splits)
  note cases = start stop clear link ocall_post [OF assms(1)]
  show ?thesis
  proof (cases "cmt_of (m_ccm_type m)")
  qed (use assms in \<open>auto simp: dispatch_ccm_def Let_def intro: cases split: option.splits prod.splits\<close>)
qed

lemma handle_ccm_post:
  assumes "client_ok c" "handle_ccm e r c os = (res, c', os')"
  shows "ccm_post e c os c' os' res"
proof (cases "c' = c \<and> os' = os")
  case True
  then show ?thesis using assms(1) by (simp add: ccm_post_def)
next
  case False
  then have "dispatch_ccm e (r_result r) (r_buffer r) c os = (res, c', os')"
    using assms(2) by (auto simp: handle_ccm_def Let_def split: if_splits)
  then show ?thesis by (rule dispatch_post [OF assms(1)])
qed

definition ppp_keeps :: "client \<Rightarrow> client \<Rightarrow> bool" where
  "ppp_keeps c c' \<longleftrightarrow> cc_sock c' = cc_sock c \<and> raw_sock c' = raw_sock c \<and> (client_ok c \<longrightarrow> client_ok c')"

lemma gre_ack_keeps: "gre_ack flags p g c = Some c' \<Longrightarrow> ppp_keeps c c'"
  by (auto simp: gre_ack_def Let_def ppp_keeps_def client_ok_def split: if_splits)

lemma gre_packet_keeps: "gre_packet p g c = Ok (n, c') \<Longrightarrow> n = 0 \<and> ppp_keeps c c'"
  by (auto simp: gre_packet_def Let_def ppp_keeps_def client_ok_def dest!: gre_ack_keeps split: if_splits option.splits)

lemma handle_ppp_post:
  assumes "handle_ppp r c = Ok (n, c')"
  shows "n = 0 \<and> ppp_keeps c c'"
proof (cases "r_result r < 0 \<or> int pkt_in_size < r_result r")
  case False
  let ?c = "c\<lparr>pkt_in := blit (pkt_in c) 0 (take (nat (r_result r)) (r_buffer r))\<rparr>"
  have "ppp_keeps c ?c" by (simp add: ppp_keeps_def client_ok_def)
  moreover have "n = 0 \<and> ppp_keeps ?c c'"
  proof (cases "pkt_in ?c ! 0 AND 0xF0 \<noteq> 0x40")
    case True
    with assms False show ?thesis by (simp add: handle_ppp_def Let_def ppp_keeps_def)
  next
    case False': False
    with assms False have "gre_packet (pkt_in ?c) (4 * unat (pkt_in ?c ! 0 AND 0x0F)) ?c = Ok (n, c')"
      by (simp add: handle_ppp_def Let_def)
    then show ?thesis by (rule gre_packet_keeps)
  qed
  ultimately show ?thesis by (simp add: ppp_keeps_def)
qed (use assms in \<open>auto simp: handle_ppp_def Let_def ppp_keeps_def split: if_splits\<close>)

section \<open>Runs\<close>

lemma destroy_inv:
  assumes dist: "distinct (map fst (attached (vpn_os sv)))"
    and others: "\<And>b c'. b \<noteq> a \<Longrightarrow> clients sv b = Some c' \<Longrightarrow> client_ok c' \<and> registered (attached (vpn_os sv)) b c'"
    and own: "0 \<le> cc_sock c \<Longrightarrow> (cc_sock c, a) \<in> set (attached (vpn_os sv)) \<or> cc_sock c \<notin> fst ` set (attached (vpn_os sv))"
      "0 \<le> raw_sock c \<Longrightarrow> (raw_sock c, a) \<in> set (attached (vpn_os sv))"
  shows "vpn_inv (destroy_client a c sv)"
proof -
  let ?at = "attached (vpn_os sv)" let ?at' = "attached (vpn_os (destroy_client a c sv))"
  have keep: "(s, b) \<in> set ?at'" if s: "(s, b) \<in> set ?at" "0 \<le> s" "b \<noteq> a" for s b
  proof -
    have "s \<noteq> x" if "(x, a) \<in> set ?at \<or> x \<notin> fst ` set ?at" for x
      using that s dist by (force simp: distinct_map inj_on_def)
    then have "s \<noteq> cc_sock c" "s \<noteq> raw_sock c" using s(2) own by (metis, metis)
    with s(1) show ?thesis by (simp add: destroy_client_def Let_def)
  qed
  have "distinct (map fst ?at')" using dist by (auto simp: destroy_client_def Let_def distinct_map_filter)
  moreover have "client_ok c' \<and> registered ?at' b c'" if "clients (destroy_client a c sv) b = Some c'" for b c'
  proof -
    have "b \<noteq> a" "clients sv b = Some c'" using that by (auto simp: destroy_client_def Let_def split: if_splits)
    then show ?thesis using others keep by (auto simp: registered_def)
  qed
  ultimately show ?thesis by (simp add: vpn_inv_def)
qed

lemma lstn_inv:
  assumes "vpn_inv sv" "s \<notin> fst ` set (attached (vpn_os sv))" "\<And>a. mem = Some a \<Longrightarrow> clients sv a = None"
  shows "vpn_inv (lstn_action s from mem at sv)"
proof (cases "s < 0 \<or> mem = None")
  case True
  then show ?thesis using assms(1) by (auto simp: lstn_action_def split: option.split)
next
  case False
  then obtain a where a: "mem = Some a" "0 \<le> s" by auto
  let ?c = "new_client s from" let ?sv = "sv\<lparr>clients := (clients sv)(a \<mapsto> ?c)\<rparr>"
  show ?thesis
  proof (cases "at < 0")
    case True
    have "vpn_inv (destroy_client a ?c ?sv)"
      by (rule destroy_inv) (use assms in \<open>auto simp: vpn_inv_def new_client_def split: if_splits\<close>)
    then show ?thesis using True a by (simp add: lstn_action_def Let_def)
  next
    case False
    then show ?thesis using assms a
      by (auto simp: lstn_action_def Let_def vpn_inv_def registered_def client_ok_def new_client_def cc_consts split: if_splits)
  qed
qed

lemma cc_action_inv:
  assumes inv: "vpn_inv sv" and fr: "socket_result e \<notin> fst ` set (attached (vpn_os sv))" and run: "cc_action s a e r sv = Ok sv'"
  shows "vpn_inv sv'"
proof -
  from run obtain c where c: "clients sv a = Some c" by (auto simp: cc_action_def split: option.splits)
  then have ok: "client_ok c" "registered (attached (vpn_os sv)) a c" using inv by (auto simp: vpn_inv_def)
  show ?thesis
  proof (cases "s = cc_sock c")
    case True
    obtain res c' os' where h: "handle_ccm (e\<lparr>self := a\<rparr>) r c (vpn_os sv) = (res, c', os')" by (metis prod_cases3)
    from handle_ccm_post [OF ok(1) h] have p: "ccm_post (e\<lparr>self := a\<rparr>) c (vpn_os sv) c' os' res" .
    let ?sv = "\<lparr>clients = (clients sv)(a \<mapsto> c'), vpn_os = os'\<rparr>"
    have at: "set (attached (vpn_os sv)) \<subseteq> set (attached os')" "distinct (map fst (attached os'))"
      using p fr inv by (auto simp: ccm_post_def vpn_inv_def)
    have reg: "registered (attached os') a c'" using p ok(2) at(1) by (auto simp: ccm_post_def registered_def)
    have others: "client_ok d \<and> registered (attached os') b d" if "b \<noteq> a" "clients sv b = Some d" for b d
      using that inv at(1) by (auto simp: vpn_inv_def registered_def)
    show ?thesis
    proof (cases "res < 0")
      case True
      have "vpn_inv (destroy_client a c' ?sv)"
        by (rule destroy_inv) (use at(2) others reg in \<open>auto simp: registered_def\<close>)
      then show ?thesis using run c h True \<open>s = cc_sock c\<close> by (simp add: cc_action_def Let_def)
    next
      case False
      then have "client_ok c'" using p by (simp add: ccm_post_def)
      with at(2) others reg have "vpn_inv ?sv" by (auto simp: vpn_inv_def)
      then show ?thesis using run c h False \<open>s = cc_sock c\<close> by (simp add: cc_action_def Let_def)
    qed
  next
    case False
    then consider "sv' = sv" | n c' where "handle_ppp r c = Ok (n, c')" "sv' = sv\<lparr>clients := (clients sv)(a \<mapsto> c')\<rparr>"
      using run c by (auto simp: cc_action_def bindo_Ok_iff split: if_splits)
    then show ?thesis
    proof cases
      case (2 n c')
      from handle_ppp_post [OF 2(1)] ok have "client_ok c' \<and> registered (attached (vpn_os sv)) a c'" by (auto simp: registered_def ppp_keeps_def)
      with inv 2(2) show ?thesis by (auto simp: vpn_inv_def)
    qed (use inv in simp)
  qed
qed

interpretation vpn: machine vpn_step vpn_fresh vpn_outcome_ok
proof
  fix st e assume inv: "vpn_outcome_ok st" and fr: "vpn_fresh st e"
  show "vpn_outcome_ok (vpn_step st e)"
    unfolding vpn_outcome_ok_def
  proof (intro allI impI)
    fix sv' assume "vpn_step st e = Ok sv'"
    then obtain sv where sv: "st = Ok sv" "vpn_inv sv" "(case e of Accept s peer mem at \<Rightarrow> Ok (lstn_action s peer mem at sv)
        | Activity s a calls r \<Rightarrow> cc_action s a calls r sv) = Ok sv'"
      using inv by (auto simp: vpn_step_def bindo_Ok_iff vpn_outcome_ok_def)
    show "vpn_inv sv'"
    proof (cases e)
      case (Accept s peer mem at)
      then show ?thesis using sv fr lstn_inv [of sv s mem] by (auto simp: vpn_fresh_def split: option.splits)
    next
      case (Activity s a calls r)
      then show ?thesis using sv fr cc_action_inv by (auto simp: vpn_fresh_def)
    qed
  qed
qed

section \<open>Properties\<close>

definition vpn_start :: vpn_server where
  "vpn_start = \<lparr>clients = (\<lambda>_. None), vpn_os = \<lparr>attached = [], vpn_sent = []\<rparr>\<rparr>"

text \<open>C15: In every run of accepted connections and callbacks from the empty server, where the
  system gives descriptors and memory that are not in use, each client is in one of the two states,
  has no call and no GRE socket while it is idle, and each of its sockets is registered in the
  dispatcher, once, with the address of this client.\<close>

theorem vpn_clients_consistent:
  assumes "vpn.run (Ok vpn_start) evs = Ok sv" "vpn.run_ok (Ok vpn_start) evs"
  shows "distinct (map fst (attached (vpn_os sv))) \<and>
    (\<forall>a c. clients sv a = Some c \<longrightarrow> client_ok c \<and> registered (attached (vpn_os sv)) a c)"
proof -
  have "vpn_outcome_ok (Ok vpn_start)" by (simp add: vpn_outcome_ok_def vpn_inv_def vpn_start_def)
  from vpn.run_inv [OF this assms(2)] assms(1) have "vpn_inv sv" by (simp add: vpn_outcome_ok_def)
  then show ?thesis by (simp add: vpn_inv_def)
qed

definition ccm_valid :: "received \<Rightarrow> cmt \<Rightarrow> bool" where
  "ccm_valid r t \<longleftrightarrow> 0 < r_result r \<and> r_result r = int (unat (swap16 (m_msglen (r_buffer r)))) \<and>
     m_cookie (r_buffer r) = MAGIC_COOKIE \<and> m_type (r_buffer r) = PPTPMT_CM \<and> m_reserved (r_buffer r) = 0 \<and>
     cmt_of (m_ccm_type (r_buffer r)) = t"

lemma handle_ccm_valid: "ccm_valid r t \<Longrightarrow> handle_ccm e r c os = dispatch_ccm e (r_result r) (r_buffer r) c os"
  by (simp add: ccm_valid_def handle_ccm_def Let_def)

definition call_succeeds :: "ccm_calls \<Rightarrow> bool" where
  "call_succeeds e \<longleftrightarrow> 0 \<le> socket_result e \<and> 0 \<le> connect_result e \<and> 0 \<le> attach_result e"

lemma ocall_step:
  assumes "clients sv a = Some c" "cc_sock c = k" "cc_state c = CC_STATE_ESTABLISHED" "cc_call_id c = 0"
    and "ccm_valid r OCALLREQ" "get16 (r_buffer r) 38 = 0" "call_succeeds e"
  shows "\<exists>sv' c'. vpn_step (Ok sv) (Activity k a e r) = Ok sv' \<and> clients sv' a = Some c' \<and> cc_sock c' = k \<and>
    cc_state c' = CC_STATE_ESTABLISHED \<and> raw_sock c' = socket_result e \<and>
    attached (vpn_os sv') = (socket_result e, a) # attached (vpn_os sv)"
  using assms handle_ccm_valid [OF assms(5)]
  by (simp add: vpn_step_def cc_action_def dispatch_ccm_def ccm_valid_def cm_ocall_def open_call_def call_succeeds_def
      Let_def send_reply_def)

lemma clear_step:
  assumes "clients sv a = Some c" "cc_sock c = k" "ccm_valid r CCLEAREQ" "get16 (r_buffer r) 14 = 0"
  shows "\<exists>sv'. vpn_step (Ok sv) (Activity k a e r) = Ok sv' \<and>
    clients sv' a = Some (c\<lparr>cc_call_id := 0, cc_call_sn := 0, call_id := 0\<rparr>) \<and> attached (vpn_os sv') = attached (vpn_os sv)"
  using assms handle_ccm_valid [OF assms(3)]
  by (simp add: vpn_step_def cc_action_def dispatch_ccm_def ccm_valid_def cm_clear_def Let_def send_reply_def)

lemma stop_step:
  assumes "clients sv a = Some c" "cc_sock c = k" "ccm_valid r STOPREQ" "get16 (r_buffer r) 14 = 0"
  shows "\<exists>sv'. vpn_step (Ok sv) (Activity k a e r) = Ok sv' \<and> clients sv' a = None \<and>
    (\<forall>s. s \<noteq> k \<longrightarrow> s \<noteq> raw_sock c \<longrightarrow> (s, a) \<in> set (attached (vpn_os sv)) \<longrightarrow> (s, a) \<in> set (attached (vpn_os sv')))"
  using assms handle_ccm_valid [OF assms(3)]
  by (simp add: vpn_step_def cc_action_def dispatch_ccm_def ccm_valid_def cm_stop_def Let_def send_reply_def destroy_client_def)

text \<open>When a client in the established state opens a call, clears it, opens another and stops the
  connection, the client record is freed while the GRE socket of the first call stays registered
  with its address: any packet on that socket makes the server use the freed record.\<close>

theorem cleared_call_leaves_dangling_callback:
  assumes "clients sv a = Some c" "cc_sock c = k" "cc_state c = CC_STATE_ESTABLISHED" "cc_call_id c = 0"
    and "ccm_valid open1 OCALLREQ" "get16 (r_buffer open1) 38 = 0" "call_succeeds e1"
    and "ccm_valid clear CCLEAREQ" "get16 (r_buffer clear) 14 = 0"
    and "ccm_valid open2 OCALLREQ" "get16 (r_buffer open2) 38 = 0" "call_succeeds e3"
    and "ccm_valid stop STOPREQ" "get16 (r_buffer stop) 14 = 0"
    and "socket_result e1 \<noteq> k" "socket_result e1 \<noteq> socket_result e3"
  shows "\<exists>sv'. vpn.run (Ok sv) [Activity k a e1 open1, Activity k a e2 clear, Activity k a e3 open2, Activity k a e4 stop] = Ok sv' \<and>
    (socket_result e1, a) \<in> set (attached (vpn_os sv')) \<and>
    (\<forall>e r. vpn_step (Ok sv') (Activity (socket_result e1) a e r) = Crash UseAfterFree)"
proof -
  obtain s1 c1 where 1: "vpn_step (Ok sv) (Activity k a e1 open1) = Ok s1" "clients s1 a = Some c1" "cc_sock c1 = k"
      "cc_state c1 = CC_STATE_ESTABLISHED" "(socket_result e1, a) \<in> set (attached (vpn_os s1))"
    using ocall_step [OF assms(1-7)] by auto
  let ?c2 = "c1\<lparr>cc_call_id := 0, cc_call_sn := 0, call_id := 0\<rparr>"
  obtain s2 where 2: "vpn_step (Ok s1) (Activity k a e2 clear) = Ok s2" "clients s2 a = Some ?c2"
      "attached (vpn_os s2) = attached (vpn_os s1)"
    using clear_step [OF 1(2,3) assms(8,9)] by blast
  obtain s3 c3 where 3: "vpn_step (Ok s2) (Activity k a e3 open2) = Ok s3" "clients s3 a = Some c3" "cc_sock c3 = k"
      "raw_sock c3 = socket_result e3" "(socket_result e1, a) \<in> set (attached (vpn_os s3))"
    using ocall_step [OF 2(2) _ _ _ assms(10-12)] 1 2(3) by auto
  obtain s4 where 4: "vpn_step (Ok s3) (Activity k a e4 stop) = Ok s4" "clients s4 a = None"
      "(socket_result e1, a) \<in> set (attached (vpn_os s4))"
    using stop_step [OF 3(2,3) assms(13,14)] 3 assms(15,16) by auto
  show ?thesis
    by (intro exI [of _ s4]) (use 1 2 3 4 in \<open>simp add: vpn_step_def cc_action_def\<close>)
qed

lemma gre_flags_of_data:
  fixes f :: u16
  shows "f AND GRE_SANITY_MASK = GRE_SANITY_VALUE \<and> f AND GRE_FL_A = 0 \<and> f AND GRE_FL_S \<noteq> 0 \<longleftrightarrow> f = 0x0130"
proof
  assume h: "f AND GRE_SANITY_MASK = GRE_SANITY_VALUE \<and> f AND GRE_FL_A = 0 \<and> f AND GRE_FL_S \<noteq> 0"
  have one: "f AND GRE_FL_S = (if bit f 4 then 0x0010 else 0)"
    by (rule bit_word_eqI) (auto simp: GRE_FL_S_def bit_simps less_Suc_eq numeral_eq_Suc)
  have "f = (f AND GRE_SANITY_MASK) OR (f AND GRE_FL_A) OR (f AND GRE_FL_S)"
    by (rule bit_word_eqI) (auto simp: GRE_FL_S_def GRE_FL_A_def GRE_SANITY_MASK_def bit_simps less_Suc_eq numeral_eq_Suc)
  with h one show "f = 0x0130" by (simp add: GRE_SANITY_VALUE_def split: if_splits)
qed (simp add: GRE_FL_S_def GRE_FL_A_def GRE_SANITY_MASK_def GRE_SANITY_VALUE_def)

text \<open>To a client to which nothing was sent yet, which holds for every client since the server
  never counts a packet as sent, the GRE handler answers nothing: a packet that fits the buffer is
  dropped, unless it is an IPv4 packet with GRE flags 0x3001 (key, sequence number, no
  acknowledgment), the protocol and call of the client, a sequence number that is not old, and a PPP
  header; such a packet makes the handler write the answer's header over its own variables.\<close>

theorem data_packet_overwrites_stack:
  assumes "0 \<le> r_result r" "r_result r \<le> 1500" "snd_num c = 0"
    and p: "p = blit (pkt_in c) 0 (take (nat (r_result r)) (r_buffer r))" and g: "g = 4 * unat (p ! 0 AND 0x0F)"
  shows "if p ! 0 AND 0xF0 = 0x40 \<and> get16 p g = 0x0130 \<and> get16 p (g + 2) = GRE_PROTOCOL \<and> get16 p (g + 6) = call_id c \<and>
      rcv_num c \<le> swap32 (get32 p (g + 8)) \<and> p ! (g + 12) = 0xFF \<and> p ! (g + 13) = 0x03
    then handle_ppp r c = Crash OutOfBounds else \<exists>c'. handle_ppp r c = Ok (0, c') \<and> snd_num c' = 0"
proof -
  have ack: "gre_ack f p g (c\<lparr>pkt_in := p\<rparr>) = (if f AND GRE_FL_A = 0 then Some (c\<lparr>pkt_in := p\<rparr>) else None)" for f
    using assms(3) by (simp add: gre_ack_def Let_def)
  have h: "handle_ppp r c = (if p ! 0 AND 0xF0 \<noteq> 0x40 then Ok (0, c\<lparr>pkt_in := p\<rparr>) else gre_packet p g (c\<lparr>pkt_in := p\<rparr>))"
    using assms(1,2) p g by (simp add: handle_ppp_def Let_def pkt_in_size_def)
  show ?thesis
    unfolding h gre_flags_of_data [symmetric] using ack assms(3)
    by (auto simp: gre_packet_def Let_def not_less add.commute [of g])
qed

text \<open>The messages of a client: start, open a call, clear it, stop.\<close>

definition demo_message :: "byte \<Rightarrow> byte \<Rightarrow> bytes \<Rightarrow> received" where
  "demo_message n t body = \<lparr>r_result = int (unat n), r_eintr = False,
     r_buffer = [0, n, 0, 1, 0x1A, 0x2B, 0x3C, 0x4D, 0, t, 0, 0] @ body @ replicate 30 0\<rparr>"

definition demo_calls :: "int \<Rightarrow> ccm_calls" where
  "demo_calls s = \<lparr>self = 0, socket_result = s, connect_result = 0, attach_result = 0\<rparr>"

lemma demo_message_valid:
  "ccm_valid (demo_message 156 1 body) STARTREQ" "ccm_valid (demo_message 168 7 body) OCALLREQ"
  "ccm_valid (demo_message 16 12 body) CCLEAREQ" "ccm_valid (demo_message 16 3 body) STOPREQ"
  by (simp_all add: ccm_valid_def demo_message_def cmt_of_def cc_consts get16_def get32_def swap16_def)

lemma demo_call_succeeds: "0 \<le> s \<Longrightarrow> call_succeeds (demo_calls s)"
  by (simp add: call_succeeds_def demo_calls_def)

lemma start_step:
  assumes "clients sv a = Some c" "cc_sock c = k" "cc_state c = CC_STATE_IDLE" "ccm_valid r STARTREQ"
    and "get16 (r_buffer r) 14 = 0" "PPTP_PROTO_VERSION \<le> swap16 (get16 (r_buffer r) 12)"
  shows "\<exists>sv'. vpn_step (Ok sv) (Activity k a e r) = Ok sv' \<and>
    clients sv' a = Some (c\<lparr>cc_state := CC_STATE_ESTABLISHED, cc_cookie := m_cookie (r_buffer r)\<rparr>) \<and>
    attached (vpn_os sv') = attached (vpn_os sv)"
  using assms handle_ccm_valid [OF assms(4)]
  by (simp add: vpn_step_def cc_action_def dispatch_ccm_def ccm_valid_def cm_start_def Let_def send_reply_def not_less [symmetric])

definition demo_server :: vpn_server where
  "demo_server = lstn_action 5 1 (Some 7) 0 vpn_start"

lemma demo_server_state:
  "clients demo_server = [7 \<mapsto> new_client 5 1]" "attached (vpn_os demo_server) = [(5, 7)]"
  by (simp_all add: demo_server_def lstn_action_def vpn_start_def Let_def)

lemma demo_established:
  "\<exists>sv c. vpn_step (Ok demo_server) (Activity 5 7 (demo_calls 6) (demo_message 156 1 [1, 0])) = Ok sv \<and>
     clients sv 7 = Some c \<and> cc_sock c = 5 \<and> cc_state c = CC_STATE_ESTABLISHED \<and> cc_call_id c = 0"
  using start_step [of demo_server 7 "new_client 5 1" 5 "demo_message 156 1 [1, 0]" "demo_calls 6"] demo_message_valid(1) [of "[1, 0]"]
  by (fastforce simp: demo_server_state new_client_def cc_consts demo_message_def get16_def get32_def swap16_def)

theorem vpn_clients_consistent_witness:
  "\<exists>sv c. vpn.run (Ok vpn_start) [Accept 5 1 (Some 7) 0, Activity 5 7 (demo_calls 6) (demo_message 156 1 [1, 0])] = Ok sv \<and>
     clients sv 7 = Some c \<and> cc_state c = CC_STATE_ESTABLISHED \<and> registered (attached (vpn_os sv)) 7 c"
proof -
  let ?evs = "[Accept 5 1 (Some 7) 0, Activity 5 7 (demo_calls 6) (demo_message 156 1 [1, 0])]"
  obtain sv c where sv: "vpn_step (Ok demo_server) (Activity 5 7 (demo_calls 6) (demo_message 156 1 [1, 0])) = Ok sv"
     "clients sv 7 = Some c" "cc_state c = CC_STATE_ESTABLISHED"
    using demo_established by blast
  have "vpn_step (Ok vpn_start) (Accept 5 1 (Some 7) 0) = Ok demo_server" by (simp add: vpn_step_def demo_server_def)
  then have "vpn.run (Ok vpn_start) ?evs = Ok sv" "vpn.run_ok (Ok vpn_start) ?evs"
    using sv by (simp_all add: vpn_fresh_def demo_server_state) (simp_all add: vpn_start_def demo_calls_def)
  with vpn_clients_consistent [of ?evs sv] sv show ?thesis by blast
qed

theorem cleared_call_leaves_dangling_callback_witness:
  "\<exists>sv sv'. vpn.run (Ok sv) [Activity 5 7 (demo_calls 6) (demo_message 168 7 [1, 0, 1, 0]),
       Activity 5 7 (demo_calls 0) (demo_message 16 12 [1, 0]), Activity 5 7 (demo_calls 8) (demo_message 168 7 [2, 0, 2, 0]),
       Activity 5 7 (demo_calls 0) (demo_message 16 3 [1, 0])] = Ok sv' \<and> (6, 7) \<in> set (attached (vpn_os sv'))"
proof -
  obtain sv :: vpn_server and c where sv: "clients sv 7 = Some c" "cc_sock c = 5" "cc_state c = CC_STATE_ESTABLISHED" "cc_call_id c = 0"
    using demo_established by fast
  have z: "get16 (r_buffer (demo_message 168 7 [1, 0, 1, 0])) 38 = 0" "get16 (r_buffer (demo_message 16 12 [1, 0])) 14 = 0"
      "get16 (r_buffer (demo_message 168 7 [2, 0, 2, 0])) 38 = 0" "get16 (r_buffer (demo_message 16 3 [1, 0])) 14 = 0"
    by (simp_all add: demo_message_def get16_def)
  have sock: "socket_result (demo_calls s) = s" for s by (simp add: demo_calls_def)
  show ?thesis
    using cleared_call_leaves_dangling_callback [OF sv demo_message_valid(2) z(1) demo_call_succeeds [of 6] demo_message_valid(3) z(2)
        demo_message_valid(2) z(3) demo_call_succeeds [of 8] demo_message_valid(4) z(4), of "demo_calls 0" "demo_calls 0"]
    unfolding sock by (simp del: vpn.run.simps) blast
qed

theorem data_packet_overwrites_stack_witness:
  "handle_ppp \<lparr>r_result = 38, r_eintr = False, r_buffer = [0x45, 0, 0, 38, 0, 0, 0, 0, 64, 47, 0, 0, 10, 0, 0, 1, 10, 0, 0, 2,
      0x30, 0x01, 0x88, 0x0B, 0, 6, 3, 0, 0, 0, 0, 1, 0xFF, 3, 0xC0, 0x21, 1, 1]\<rparr> (new_client 5 1\<lparr>call_id := 3\<rparr>) = Crash OutOfBounds"
  using data_packet_overwrites_stack [of "\<lparr>r_result = 38, r_eintr = False, r_buffer = [0x45, 0, 0, 38, 0, 0, 0, 0, 64, 47, 0, 0, 10, 0, 0, 1, 10, 0, 0, 2,
      0x30, 0x01, 0x88, 0x0B, 0, 6, 3, 0, 0, 0, 0, 1, 0xFF, 3, 0xC0, 0x21, 1, 1]\<rparr>" "new_client 5 1\<lparr>call_id := 3\<rparr>"]
  by (simp add: new_client_def pkt_in_size_def blit_def get16_def get32_def GRE_PROTOCOL_def swap32_def)

end
