(* ===== verification/VpnConfig.thy ===== *)
theory VpnConfig
  imports ConfRealm VpnServer
begin

text \<open>
  The configuration and the start of the server in \<open>QX-vpn/qx_vpn_main.c\<close>: the address for the
  control connections, and the socket on which they are accepted. The framework that dispatches and
  the pool of threads are not modelled beyond whether they could be set up.
\<close>

definition PPTP_PORT :: nat where "PPTP_PORT = 1723"

record vpn_conf =
  vc_addr :: u32
  vc_port :: u16

definition vpn_defaults :: vpn_conf where
  "vpn_defaults = \<lparr>vc_addr = 0, vc_port = swap16 (word_of_nat PPTP_PORT)\<rparr>"

definition bind_directive :: "(string \<Rightarrow> u32 option) \<Rightarrow> string \<Rightarrow> (string option \<Rightarrow> vpn_conf \<Rightarrow> setup_fail + vpn_conf) option" where
  "bind_directive inet t =
     (if str_ieq ''Bind'' t then
        Some (given (\<lambda>a vc. Inr (case inet a of Some ip \<Rightarrow> vc\<lparr>vc_addr := ip\<rparr> | None \<Rightarrow> vc)))
      else None)"

lemma vpn_realm_shorter: "realm_lines fin dir cf x = Inr (y, cf') \<Longrightarrow> length (ConfFile cf') < length (ConfFile cf)"
  using realm_lines_keep [of dir "\<lambda>_. True" fin cf x y cf'] by simp

text \<open>The realm of a client has no directives yet.\<close>

function vpn_realms :: "(string \<Rightarrow> u32 option) \<Rightarrow> conf \<Rightarrow> vpn_conf \<Rightarrow> setup_fail + vpn_conf" where
  "vpn_realms inet cf vc = (case GetConf_string cf of
     (Overrun, _) \<Rightarrow> Inl ReadOverrun
   | (NoToken, _) \<Rightarrow> Inr vc
   | (Token t, cf1) \<Rightarrow>
       if str_ieq ''<server>'' t then
         (case realm_lines ''</server>'' (bind_directive inet) cf1 vc of Inl e \<Rightarrow> Inl e | Inr (vc', cf2) \<Rightarrow> vpn_realms inet cf2 vc')
       else if str_ieq ''<client>'' t then
         (case realm_lines ''</client>'' (\<lambda>_. None) cf1 vc of Inl e \<Rightarrow> Inl e | Inr (vc', cf2) \<Rightarrow> vpn_realms inet cf2 vc')
       else Inl ExitFailure)"
  by pat_completeness auto
termination
  by (relation "measure (\<lambda>(inet, cf, vc). length (ConfFile cf))")
    (auto dest!: GetConf_string_shorter [OF sym] vpn_realm_shorter)

declare vpn_realms.simps [simp del]

definition qx_vpn_configure :: "(string \<Rightarrow> u32 option) \<Rightarrow> string option \<Rightarrow> string \<Rightarrow> setup_fail + vpn_conf" where
  "qx_vpn_configure inet file junk =
     (case GetConf_open file junk of None \<Rightarrow> Inl ExitFailure | Some cf \<Rightarrow> vpn_realms inet cf vpn_defaults)"

text \<open>The results of the calls at the start.\<close>

record vpn_start_calls =
  vs_socket :: int
  vs_bind :: "vpn_conf \<Rightarrow> bool"
  vs_listen :: bool
  vs_dispatch :: bool
  vs_attach :: bool
  vs_pool :: bool

definition vpn_main :: "(string \<Rightarrow> u32 option) \<Rightarrow> string option \<Rightarrow> string \<Rightarrow> vpn_start_calls \<Rightarrow> setup_fail + (vpn_conf \<times> int)" where
  "vpn_main inet file junk e =
     (case qx_vpn_configure inet file junk of
        Inl x \<Rightarrow> Inl x
      | Inr vc \<Rightarrow>
          if vs_socket e < 0 \<or> \<not> vs_bind e vc \<or> \<not> vs_listen e \<or> \<not> vs_dispatch e \<or> \<not> vs_attach e \<or> \<not> vs_pool e then Inl ExitFailure
          else Inr (vc, vs_socket e))"

text \<open>The server always listens on the port of PPTP.\<close>

lemma bind_lines_port: "realm_lines fin (bind_directive inet) cf vc = Inr (y, cf') \<Longrightarrow> vc_port y = vc_port vc"
proof -
  have "f a x = Inr z \<Longrightarrow> vc_port z = vc_port x" if "bind_directive inet t = Some f" for t f a x z
    using that by (auto simp: bind_directive_def given_def split: if_splits option.splits)
  then show "realm_lines fin (bind_directive inet) cf vc = Inr (y, cf') \<Longrightarrow> vc_port y = vc_port vc"
    using realm_lines_keep [of "bind_directive inet" "\<lambda>x. vc_port x = vc_port vc" fin cf vc y cf'] by auto
qed

lemma no_lines_port: "realm_lines fin (\<lambda>_. None) cf vc = Inr (y, cf') \<Longrightarrow> vc_port y = vc_port vc"
  using realm_lines_keep [of "\<lambda>_. None" "\<lambda>x. vc_port x = vc_port vc" fin cf vc y cf'] by auto

lemma vpn_realms_port: "vpn_realms inet cf vc = Inr vc' \<Longrightarrow> vc_port vc' = vc_port vc"
proof (induction inet cf vc rule: vpn_realms.induct)
  case (1 inet cf vc)
  obtain r cf1 where g: "GetConf_string cf = (r, cf1)" by fastforce
  show ?case
  proof (cases r)
    case (Token t)
    show ?thesis
    proof (cases "str_ieq ''<server>'' t")
      case True
      then obtain x cf2 where x: "realm_lines ''</server>'' (bind_directive inet) cf1 vc = Inr (x, cf2)" "vpn_realms inet cf2 x = Inr vc'"
        using 1(3) g Token by (subst (asm) vpn_realms.simps) (auto split: sum.splits prod.splits)
      from 1(1) [OF g [symmetric] Token True x(1) refl x(2)] bind_lines_port [OF x(1)] show ?thesis by simp
    next
      case False
      then obtain x cf2 where s: "str_ieq ''<client>'' t" and x: "realm_lines ''</client>'' (\<lambda>_. None) cf1 vc = Inr (x, cf2)" "vpn_realms inet cf2 x = Inr vc'"
        using 1(3) g Token by (subst (asm) vpn_realms.simps) (auto split: sum.splits prod.splits if_splits)
      from 1(2) [OF g [symmetric] Token False s x(1) refl x(2)] no_lines_port [OF x(1)] show ?thesis by simp
    qed
  qed (use 1(3) g in \<open>subst (asm) vpn_realms.simps, simp\<close>)+
qed

lemma configured_port: "qx_vpn_configure inet file junk = Inr vc \<Longrightarrow> vc_port vc = swap16 1723"
  by (auto simp: qx_vpn_configure_def vpn_defaults_def PPTP_PORT_def split: option.splits dest: vpn_realms_port)

end
