(* ===== verification/MailGeneral.thy ===== *)
theory MailGeneral
  imports QBaseTypes
begin

text \<open>
  \<open>QX-mail/general.c\<close>: the line reader of the POP3 and SMTP servers on the segments that
  \<open>recv\<close> delivers, Base64, and MD5 with its unrolled rounds.
\<close>

section \<open>Lines from a connection\<close>

text \<open>The data waiting on a socket, segment by segment; when there is none, \<open>recv\<close> ends with a
  timeout or the end of the connection. A \<open>recv\<close> takes at most as much as was asked for and
  leaves the rest of the segment.\<close>

type_synonym segments = "bytes list"

fun recv :: "nat \<Rightarrow> segments \<Rightarrow> bytes option \<times> segments" where
  "recv n [] = (None, [])"
| "recv n (s # ss) =
     (if n = 0 \<or> s = [] then (None, s # ss)
      else (Some (take n s), if length s \<le> n then ss else drop n s # ss))"

definition segments_size :: "segments \<Rightarrow> nat" where
  "segments_size ss = sum_list (map length ss)"

lemma recv_smaller: "recv n ss = (Some d, ss') \<Longrightarrow> segments_size ss' < segments_size ss"
  by (cases ss) (auto simp: segments_size_def split: if_splits)

lemma recv_length: "recv n ss = (Some d, ss') \<Longrightarrow> 0 < length d \<and> length d \<le> n"
  by (cases ss) (auto split: if_splits)

text \<open>The result is minus one, \<open>None\<close> here, or the index behind the terminator that replaces the
  carriage return.\<close>

function read_line :: "nat \<Rightarrow> nat \<Rightarrow> bytes \<Rightarrow> segments \<Rightarrow> (nat option \<times> bytes \<times> segments) outcome" where
  "read_line bufsize index buffer ss =
     (case recv (bufsize - index) ss of
        (None, ss) \<Rightarrow> Ok (None, buffer, ss)
      | (Some d, ss) \<Rightarrow>
          if length buffer < index + length d then Crash OutOfBounds
          else let buffer = blit buffer index d; i = length (takeWhile (\<lambda>c. c \<noteq> 13) d) in
            if i < length d then Ok (Some (index + i + 1), buffer[index + i := 0], ss)
            else read_line bufsize (index + i) buffer ss)"
  by pat_completeness auto
termination
  by (relation "measure (\<lambda>(bufsize, index, buffer, ss). segments_size ss)") (auto dest: recv_smaller [OF sym])

declare read_line.simps [simp del]

definition ReadString :: "nat \<Rightarrow> bytes \<Rightarrow> segments \<Rightarrow> (nat option \<times> bytes \<times> segments) outcome" where
  "ReadString bufsize buffer ss = read_line bufsize 0 buffer ss"

section \<open>Base64\<close>

definition basis_64 :: bytes where
  "basis_64 = bytes_of ''ABCDEFGHIJKLMNOPQRSTUVWXYZabcdefghijklmnopqrstuvwxyz0123456789+/'' @ replicate 139 63"

definition index_64 :: "int list" where
  "index_64 = [
   -1, -1, -1, -1, -1, -1, -1, -1, -1, -1, -1, -1, -1, -1, -1, -1,
   -1, -1, -1, -1, -1, -1, -1, -1, -1, -1, -1, -1, -1, -1, -1, -1,
   -1, -1, -1, -1, -1, -1, -1, -1, -1, -1, -1, 62, -1, -1, -1, 63,
   52, 53, 54, 55, 56, 57, 58, 59, 60, 61, -1, -1, -1, -1, -1, -1,
   -1, 0, 1, 2, 3, 4, 5, 6, 7, 8, 9, 10, 11, 12, 13, 14,
   15, 16, 17, 18, 19, 20, 21, 22, 23, 24, 25, -1, -1, -1, -1, -1,
   -1, 26, 27, 28, 29, 30, 31, 32, 33, 34, 35, 36, 37, 38, 39, 40,
   41, 42, 43, 44, 45, 46, 47, 48, 49, 50, 51, -1, -1, -1, -1, -1]"

text \<open>\<open>char\<close> is signed: a byte above 127 is a negative number.\<close>

definition CHAR64 :: "byte \<Rightarrow> int" where
  "CHAR64 c = (if sint c < 0 \<or> sint c > 127 then -1 else index_64 ! unat c)"

datatype b64_result = B64_OK | B64_FAIL | B64_BUFOVER

definition basis :: "byte \<Rightarrow> byte" where
  "basis v = basis_64 ! unat v"

fun encode_groups :: "bytes \<Rightarrow> bytes" where
  "encode_groups (a # b # c # rest) =
     basis (drop_bit 2 a) # basis ((push_bit 4 a AND 0x30) OR drop_bit 4 b) #
     basis ((push_bit 2 b AND 0x3c) OR drop_bit 6 c) # basis (c AND 0x3f) # encode_groups rest"
| "encode_groups [a, b] =
     [basis (drop_bit 2 a), basis ((push_bit 4 a AND 0x30) OR drop_bit 4 b), basis (push_bit 2 b AND 0x3c), 61]"
| "encode_groups [a] = [basis (drop_bit 2 a), basis (push_bit 4 a AND 0x30), 61, 61]"
| "encode_groups [] = []"

text \<open>The result, what is written to the output, and the length stored through the pointer.\<close>

definition encode64 :: "bytes \<Rightarrow> nat \<Rightarrow> b64_result \<times> bytes \<times> nat" where
  "encode64 inp outmax =
     (let olen = w32 (w32 (length inp + 2) div 3 * 4) in
      if outmax < olen then (B64_BUFOVER, [], olen)
      else (B64_OK, encode_groups inp @ (if olen < outmax then [0] else []), olen))"

text \<open>\<open>k\<close> groups of four characters; the caller's buffer holds at least the \<open>inlen\<close>
  characters of which they are a part. The values are below 64, so that no bits are lost in
  \<open>int\<close>.\<close>

definition char_bits :: "byte \<Rightarrow> byte" where
  "char_bits c = word_of_int (CHAR64 c)"

fun decode_groups :: "nat \<Rightarrow> bytes \<Rightarrow> bytes \<Rightarrow> (b64_result \<times> bytes) outcome" where
  "decode_groups 0 inp out = Ok (B64_OK, out)"
| "decode_groups (Suc k) (c1 # c2 # c3 # c4 # inp) out =
     (if CHAR64 c1 = -1 \<or> CHAR64 c2 = -1 \<or> c3 \<noteq> 61 \<and> CHAR64 c3 = -1 \<or> c4 \<noteq> 61 \<and> CHAR64 c4 = -1
      then Ok (B64_FAIL, out)
      else
        let out = out @ [push_bit 2 (char_bits c1) OR drop_bit 4 (char_bits c2)] in
        if c3 = 61 then decode_groups k inp out
        else
          let out = out @ [(push_bit 4 (char_bits c2) AND 0xf0) OR drop_bit 2 (char_bits c3)] in
          if c4 = 61 then decode_groups k inp out
          else decode_groups k inp (out @ [(push_bit 6 (char_bits c3) AND 0xc0) OR char_bits c4]))"
| "decode_groups (Suc k) _ out = Crash OutOfBounds"

text \<open>What is written to the output, its terminator not counted; \<open>outlen\<close> is its length.\<close>

definition decode64 :: "bytes \<Rightarrow> nat \<Rightarrow> (b64_result \<times> bytes) outcome" where
  "decode64 inp inlen =
     (let (inp, inlen) = (if 2 \<le> inlen \<and> take 2 inp = [43, 32] then (drop 2 inp, inlen - 2) else (inp, inlen)) in
      if inp = [] then Crash OutOfBounds
      else if hd inp = 0 then Ok (B64_FAIL, [])
      else decode_groups (inlen div 4) inp [])"

section \<open>MD5\<close>

text \<open>The macro \<open>OP(f, a, b, c, d, s, M, T)\<close> on the variables \<open>A\<close> to \<open>D\<close>, which it names; the
  word is given by its index in the block.\<close>

datatype reg = A | B | C | D

datatype round_fun = FF | FG | FH | FI

fun F_FF :: "u32 \<Rightarrow> u32 \<Rightarrow> u32 \<Rightarrow> u32" where "F_FF b c d = (d XOR (b AND (c XOR d)))"
fun F_FG :: "u32 \<Rightarrow> u32 \<Rightarrow> u32 \<Rightarrow> u32" where "F_FG b c d = F_FF d b c"
fun F_FH :: "u32 \<Rightarrow> u32 \<Rightarrow> u32 \<Rightarrow> u32" where "F_FH b c d = (b XOR c XOR d)"
fun F_FI :: "u32 \<Rightarrow> u32 \<Rightarrow> u32 \<Rightarrow> u32" where "F_FI b c d = (c XOR (b OR NOT d))"

fun round_fun_of :: "round_fun \<Rightarrow> u32 \<Rightarrow> u32 \<Rightarrow> u32 \<Rightarrow> u32" where
  "round_fun_of FF = F_FF"
| "round_fun_of FG = F_FG"
| "round_fun_of FH = F_FH"
| "round_fun_of FI = F_FI"

definition CYCLIC :: "u32 \<Rightarrow> nat \<Rightarrow> u32" where
  "CYCLIC w s = push_bit s w OR drop_bit (32 - s) w"

type_synonym regs = "u32 \<times> u32 \<times> u32 \<times> u32"
type_synonym md5_op = "round_fun \<times> reg \<times> reg \<times> reg \<times> reg \<times> nat \<times> nat \<times> u32"

fun get_reg :: "reg \<Rightarrow> regs \<Rightarrow> u32" where
  "get_reg A (a, b, c, d) = a"
| "get_reg B (a, b, c, d) = b"
| "get_reg C (a, b, c, d) = c"
| "get_reg D (a, b, c, d) = d"

fun set_reg :: "reg \<Rightarrow> u32 \<Rightarrow> regs \<Rightarrow> regs" where
  "set_reg A v (a, b, c, d) = (v, b, c, d)"
| "set_reg B v (a, b, c, d) = (a, v, c, d)"
| "set_reg C v (a, b, c, d) = (a, b, v, d)"
| "set_reg D v (a, b, c, d) = (a, b, c, v)"

fun OP :: "(nat \<Rightarrow> u32) \<Rightarrow> md5_op \<Rightarrow> regs \<Rightarrow> regs" where
  "OP M (f, a, b, c, d, s, k, T) r =
     (let v = get_reg a r + (round_fun_of f (get_reg b r) (get_reg c r) (get_reg d r) + M k + T) in
      set_reg a (CYCLIC v s + get_reg b r) r)"

definition phase1 :: "md5_op list" where
  "phase1 = [
   (FF, A, B, C, D, 7, 0, 0xd76aa478), (FF, D, A, B, C, 12, 1, 0xe8c7b756),
   (FF, C, D, A, B, 17, 2, 0x242070db), (FF, B, C, D, A, 22, 3, 0xc1bdceee),
   (FF, A, B, C, D, 7, 4, 0xf57c0faf), (FF, D, A, B, C, 12, 5, 0x4787c62a),
   (FF, C, D, A, B, 17, 6, 0xa8304613), (FF, B, C, D, A, 22, 7, 0xfd469501),
   (FF, A, B, C, D, 7, 8, 0x698098d8), (FF, D, A, B, C, 12, 9, 0x8b44f7af),
   (FF, C, D, A, B, 17, 10, 0xffff5bb1), (FF, B, C, D, A, 22, 11, 0x895cd7be),
   (FF, A, B, C, D, 7, 12, 0x6b901122), (FF, D, A, B, C, 12, 13, 0xfd987193),
   (FF, C, D, A, B, 17, 14, 0xa679438e), (FF, B, C, D, A, 22, 15, 0x49b40821)]"

definition phase2 :: "md5_op list" where
  "phase2 = [
   (FG, A, B, C, D, 5, 1, 0xf61e2562), (FG, D, A, B, C, 9, 6, 0xc040b340),
   (FG, C, D, A, B, 14, 11, 0x265e5a51), (FG, B, C, D, A, 20, 0, 0xe9b6c7aa),
   (FG, A, B, C, D, 5, 5, 0xd62f105d), (FG, D, A, B, C, 9, 10, 0x02441453),
   (FG, C, D, A, B, 14, 15, 0xd8a1e681), (FG, B, C, D, A, 20, 4, 0xe7d3fbc8),
   (FG, A, B, C, D, 5, 9, 0x21e1cde6), (FG, D, A, B, C, 9, 14, 0xc33707d6),
   (FG, C, D, A, B, 14, 3, 0xf4d50d87), (FG, B, C, D, A, 20, 8, 0x455a14ed),
   (FG, A, B, C, D, 5, 13, 0xa9e3e905), (FG, D, A, B, C, 9, 2, 0xfcefa3f8),
   (FG, C, D, A, B, 14, 7, 0x676f02d9), (FG, B, C, D, A, 20, 12, 0x8d2a4c8a)]"

definition phase3 :: "md5_op list" where
  "phase3 = [
   (FH, A, B, C, D, 4, 5, 0xfffa3942), (FH, D, A, B, C, 11, 8, 0x8771f681),
   (FH, C, D, A, B, 16, 11, 0x6d9d6122), (FH, B, C, D, A, 23, 14, 0xfde5380c),
   (FH, A, B, C, D, 4, 1, 0xa4beea44), (FH, D, A, B, C, 11, 4, 0x4bdecfa9),
   (FH, C, D, A, B, 16, 7, 0xf6bb4b60), (FH, B, C, D, A, 23, 10, 0xbebfbc70),
   (FH, A, B, C, D, 4, 13, 0x289b7ec6), (FH, D, A, B, C, 11, 0, 0xeaa127fa),
   (FH, C, D, A, B, 16, 3, 0xd4ef3085), (FH, B, C, D, A, 23, 6, 0x04881d05),
   (FH, A, B, C, D, 4, 9, 0xd9d4d039), (FH, D, A, B, C, 11, 12, 0xe6db99e5),
   (FH, C, D, A, B, 16, 15, 0x1fa27cf8), (FH, B, C, D, A, 23, 2, 0xc4ac5665)]"

definition phase4 :: "md5_op list" where
  "phase4 = [
   (FI, A, B, C, D, 6, 0, 0xf4292244), (FI, D, A, B, C, 10, 7, 0x432aff97),
   (FI, C, D, A, B, 15, 14, 0xab9423a7), (FI, B, C, D, A, 21, 5, 0xfc93a039),
   (FI, A, B, C, D, 6, 12, 0x655b59c3), (FI, D, A, B, C, 10, 3, 0x8f0ccc92),
   (FI, C, D, A, B, 15, 10, 0xffeff47d), (FI, B, C, D, A, 21, 1, 0x85845dd1),
   (FI, A, B, C, D, 6, 8, 0x6fa87e4f), (FI, D, A, B, C, 10, 15, 0xfe2ce6e0),
   (FI, C, D, A, B, 15, 6, 0xa3014314), (FI, B, C, D, A, 21, 13, 0x4e0811a1),
   (FI, A, B, C, D, 6, 4, 0xf7537e82), (FI, D, A, B, C, 10, 11, 0xbd3af235),
   (FI, C, D, A, B, 15, 2, 0x2ad7d2bb), (FI, B, C, D, A, 21, 9, 0xeb86d391)]"

definition md5_block :: "(nat \<Rightarrow> u32) \<Rightarrow> regs \<Rightarrow> regs" where
  "md5_block M r =
     (case fold (OP M) (phase1 @ phase2 @ phase3 @ phase4) r of
        (A', B', C', D') \<Rightarrow> (case r of (AA, BB, CC, DD) \<Rightarrow> (A' + AA, B' + BB, C' + CC, D' + DD)))"

text \<open>The padded message: \<open>length\<close> words. Allocation is taken to succeed.\<close>

definition md5_words :: "nat \<Rightarrow> nat" where
  "md5_words n = (n div 64 + 1) * 16 + (if 56 \<le> n mod 64 then 16 else 0)"

definition md5_message :: "bytes \<Rightarrow> bytes" where
  "md5_message buf =
     (let n = length buf; l = md5_words n; m = blit (replicate (4 * l) 0) 0 buf; m = m[n := 0x80]
      in put32 m (4 * (l - 2)) (word_of_nat n * 8))"

definition md5_init :: regs where
  "md5_init = (0x67452301, 0xefcdab89, 0x98badcfe, 0x10325476)"

definition md5_result :: "regs \<Rightarrow> bytes" where
  "md5_result r = (case r of (a, b, c, d) \<Rightarrow> put32 (put32 (put32 (put32 (replicate 16 0) 0 a) 4 b) 8 c) 12 d)"

definition MD5bin :: "bytes \<Rightarrow> bytes" where
  "MD5bin buf =
     (let m = md5_message buf; times = md5_words (length buf) div 16
      in md5_result (fold (\<lambda>i r. md5_block (\<lambda>k. get32 m (4 * (16 * i + k))) r) [0..<times] md5_init))"

text \<open>\<open>%08x\<close> of the words with their bytes swapped: the hexadecimal digits of the bytes.\<close>

definition hex_digit :: "byte \<Rightarrow> byte" where
  "hex_digit v = (if v < 10 then 48 + v else 87 + v)"

definition hex_text :: "bytes \<Rightarrow> bytes" where
  "hex_text bs = concat (map (\<lambda>b. [hex_digit (drop_bit 4 b), hex_digit (b AND 15)]) bs)"

text \<open>\<open>sprintf\<close> writes the 32 digits and a terminator into a block of 32 bytes. \<open>room\<close> is the size
  of the block that the allocator really gives for such a request.\<close>

definition GetMD5 :: "nat \<Rightarrow> bytes \<Rightarrow> bytes outcome" where
  "GetMD5 room buf = (let s = hex_text (MD5bin buf) @ [0] in if room < length s then Crash OutOfBounds else Ok s)"

end
