(* ===== verification/MailPop.thy ===== *)
theory MailPop
  imports MailGeneral
begin

text \<open>
  \<open>QX-mail/pop3.c\<close>: a POP3 session, command by command, on the mailboxes that all sessions
  share. The buffer of the thread is kept with its old contents, since a short line leaves them behind
  its terminator.
\<close>

section \<open>State\<close>

datatype pop_state = MBX_NONE | MBX_AUTH | MBX_TRAN

record msgent =
  m_del :: bool
  m_size :: u32
  m_name :: bytes

record mailbox =
  mb_user :: bytes
  mb_password :: bytes

text \<open>The files below the root of the mailboxes, by path, in the order in which \<open>readdir\<close> gives
  them.\<close>

datatype node = Regular bytes | OtherNode

text \<open>What the threads share: the list of mailboxes, the holder of each one's mutex, the files and
  directories, the settings, and the size of the block that \<open>malloc (32)\<close> gives.\<close>

record mail_store =
  MBX :: "mailbox list"
  holder :: "nat \<Rightarrow> nat option"
  files :: "(bytes \<times> node) list"
  dirs :: "bytes list"
  server_fqdn :: bytes
  alc_buf_size :: nat
  md5_room :: nat

record pop_conn =
  pstate :: pop_state
  p_user :: "bytes option"
  p_greeting :: bytes
  msgs :: "msgent list"
  mbox :: "nat option"
  buffer :: bytes
  p_input :: segments
  p_output :: bytes

datatype pop_cmd = APOP | DELE | LIST | NOOP | PASS | QUIT | RETR | RSET | STAT | USER | POP_OTHER

definition pop_cmd_of :: "u32 \<Rightarrow> pop_cmd" where
  "pop_cmd_of w = (if w = 0x504f5041 then APOP else if w = 0x454c4544 then DELE else if w = 0x5453494c then LIST
     else if w = 0x504f4f4e then NOOP else if w = 0x53534150 then PASS else if w = 0x54495551 then QUIT
     else if w = 0x52544552 then RETR else if w = 0x54455352 then RSET else if w = 0x54415453 then STAT
     else if w = 0x52455355 then USER else POP_OTHER)"

definition POP3_POS :: bytes where "POP3_POS = bytes_of ''+OK'' @ [13, 10]"
definition POP3_NEG :: bytes where "POP3_NEG = bytes_of ''-ERR'' @ [13, 10]"
definition POP3_EOM :: bytes where "POP3_EOM = [13, 10, 46, 13, 10]"

section \<open>Text\<close>

fun dec_text :: "nat \<Rightarrow> bytes" where
  "dec_text n = (if n < 10 then [48 + word_of_nat n] else dec_text (n div 10) @ [48 + word_of_nat (n mod 10)])"

declare dec_text.simps [simp del]

definition int_text :: "int \<Rightarrow> bytes" where
  "int_text i = (if i < 0 then 45 # dec_text (nat (- i)) else dec_text (nat i))"

definition is_digit :: "byte \<Rightarrow> bool" where
  "is_digit b \<longleftrightarrow> 48 \<le> b \<and> b \<le> 57"

definition digits_value :: "bytes \<Rightarrow> int" where
  "digits_value ds = fold (\<lambda>b v. 10 * v + (uint b - 48)) (takeWhile is_digit ds) 0"

text \<open>\<open>atoi\<close>; the numbers are taken to fit an \<open>int\<close>.\<close>

definition atoi_bytes :: "bytes \<Rightarrow> int" where
  "atoi_bytes s = (let s = dropWhile (\<lambda>b. b = 32 \<or> 9 \<le> b \<and> b \<le> 13) s in
     case s of [] \<Rightarrow> 0
     | b # r \<Rightarrow> if b = 45 then - digits_value r else if b = 43 then digits_value r else digits_value s)"

definition sprintf_at :: "bytes \<Rightarrow> nat \<Rightarrow> bytes \<Rightarrow> bytes outcome" where
  "sprintf_at buf off s = (if length buf < off + length s + 1 then Crash OutOfBounds else Ok (blit buf off (s @ [0])))"

definition say :: "bytes \<Rightarrow> pop_conn \<Rightarrow> pop_conn" where
  "say s c = c\<lparr>p_output := p_output c @ s\<rparr>"

section \<open>Opening a mailbox\<close>

definition entry_of :: "bytes \<Rightarrow> bytes \<Rightarrow> bool" where
  "entry_of d p \<longleftrightarrow> take (length d + 1) p = d @ [47] \<and> 47 \<notin> set (drop (length d + 1) p)"

fun build_list :: "(bytes \<times> node) list \<Rightarrow> msgent list \<Rightarrow> bytes \<Rightarrow> (msgent list \<times> bytes) outcome" where
  "build_list [] ms buf = Ok (ms, buf)"
| "build_list ((p, nd) # es) ms buf =
     bindo (sprintf_at buf 0 p) (\<lambda>buf.
       build_list es (case nd of Regular d \<Rightarrow> \<lparr>m_del = False, m_size = word_of_nat (length d), m_name = p\<rparr> # ms | OtherNode \<Rightarrow> ms) buf)"

definition POPBuildSession :: "mail_store \<Rightarrow> pop_conn \<Rightarrow> pop_conn outcome" where
  "POPBuildSession st c =
     (case p_user c of
        None \<Rightarrow> Crash NullPointer
      | Some u \<Rightarrow>
          if u \<notin> set (dirs st) then Ok c
          else bindo (build_list (filter (\<lambda>(p, _). entry_of u p) (files st)) (msgs c) (buffer c)) (\<lambda>(ms, buf).
            Ok (c\<lparr>msgs := ms, buffer := buf\<rparr>)))"

fun find_mailbox :: "mailbox list \<Rightarrow> bytes \<Rightarrow> nat \<Rightarrow> nat option" where
  "find_mailbox [] u i = None"
| "find_mailbox (mb # mbs) u i = (if stricmp_eq (mb_user mb) u then Some i else find_mailbox mbs u (Suc i))"

text \<open>\<open>pthread_mutex_trylock\<close>, and \<open>pthread_mutex_unlock\<close>, which refuses a thread that does not
  hold the mutex.\<close>

definition trylock :: "nat \<Rightarrow> nat \<Rightarrow> mail_store \<Rightarrow> mail_store option" where
  "trylock t i st = (if holder st i = None then Some (st\<lparr>holder := (holder st)(i := Some t)\<rparr>) else None)"

definition unlock :: "nat \<Rightarrow> nat \<Rightarrow> mail_store \<Rightarrow> mail_store" where
  "unlock t i st = (if holder st i = Some t then st\<lparr>holder := (holder st)(i := None)\<rparr> else st)"

text \<open>The end of \<open>APOP\<close> and \<open>PASS\<close>: with the mailbox locked, the session opens; otherwise
  it starts over.\<close>

definition open_mailbox :: "nat \<Rightarrow> nat \<Rightarrow> mail_store \<Rightarrow> pop_conn \<Rightarrow> (pop_conn \<times> mail_store) outcome" where
  "open_mailbox t i st c =
     (case trylock t i st of
        None \<Rightarrow> Ok (c, st)
      | Some st \<Rightarrow> bindo (POPBuildSession st (c\<lparr>pstate := MBX_TRAN\<rparr>)) (\<lambda>c. Ok (say POP3_POS c, st)))"

definition close_auth :: "pop_conn \<Rightarrow> pop_conn" where
  "close_auth c = (if pstate c = MBX_TRAN then c else say POP3_NEG (c\<lparr>p_user := None, pstate := MBX_NONE\<rparr>))"

definition memicmp_eq :: "nat \<Rightarrow> bytes \<Rightarrow> bytes \<Rightarrow> bool" where
  "memicmp_eq n a b \<longleftrightarrow> map c_toupper (take n (a @ [0])) = map c_toupper (take n b)"

definition cmd_APOP :: "nat \<Rightarrow> nat \<Rightarrow> mail_store \<Rightarrow> pop_conn \<Rightarrow> (pop_conn \<times> mail_store) outcome" where
  "cmd_APOP t result st c =
     (let line = cstr (drop 5 (buffer c)) in
      if pstate c \<noteq> MBX_NONE \<or> result < 40 \<or> 32 \<notin> set line then Ok (say POP3_NEG c, st)
      else let u = takeWhile (\<lambda>b. b \<noteq> 32) line; hash = tl (dropWhile (\<lambda>b. b \<noteq> 32) line);
               c = c\<lparr>buffer := (buffer c)[5 + length u := 0], p_user := Some u, mbox := find_mailbox (MBX st) u 0\<rparr>
        in bindo (case mbox c of
             None \<Rightarrow> Ok (c, st)
           | Some i \<Rightarrow>
               let text = p_greeting c @ mb_password (MBX st ! i) in
               bindo (sprintf_at (buffer c) 0 text) (\<lambda>buf.
               bindo (GetMD5 (md5_room st) text) (\<lambda>myhash.
                 let c = c\<lparr>buffer := buf\<rparr> in
                 if memicmp_eq 32 hash myhash then open_mailbox t i st c else Ok (c, st))))
           (\<lambda>(c, st). Ok (close_auth c, st)))"

definition cmd_USER :: "nat \<Rightarrow> pop_conn \<Rightarrow> pop_conn" where
  "cmd_USER result c =
     (if pstate c \<noteq> MBX_NONE \<or> result < 7 then say POP3_NEG c
      else say POP3_POS (c\<lparr>p_user := Some (cstr (drop 5 (buffer c))), pstate := MBX_AUTH\<rparr>))"

definition cmd_PASS :: "nat \<Rightarrow> nat \<Rightarrow> mail_store \<Rightarrow> pop_conn \<Rightarrow> (pop_conn \<times> mail_store) outcome" where
  "cmd_PASS t result st c =
     (if pstate c \<noteq> MBX_AUTH \<or> result < 7 then Ok (say POP3_NEG c, st)
      else case p_user c of
        None \<Rightarrow> Crash NullPointer
      | Some u \<Rightarrow>
          let c = c\<lparr>mbox := find_mailbox (MBX st) u 0\<rparr> in
          bindo (case mbox c of
             None \<Rightarrow> Ok (c, st)
           | Some i \<Rightarrow> if stricmp_eq (mb_password (MBX st ! i)) (drop 5 (buffer c)) then open_mailbox t i st c else Ok (c, st))
           (\<lambda>(c, st). Ok (close_auth c, st)))"

section \<open>The messages of a session\<close>

definition cmd_STAT :: "pop_conn \<Rightarrow> pop_conn outcome" where
  "cmd_STAT c =
     (if pstate c \<noteq> MBX_TRAN then Ok (say POP3_NEG c)
      else let ms = filter (\<lambda>m. \<not> m_del m) (msgs c);
               text = bytes_of ''+OK '' @ int_text (int (length ms)) @ [32] @
                      int_text (sint (sum_list (map m_size ms))) @ [13, 10]
           in bindo (sprintf_at (buffer c) 0 text) (\<lambda>buf. Ok (say text (c\<lparr>buffer := buf\<rparr>))))"

text \<open>The message that the argument names: its index. A negative number names the first one.\<close>

definition msg_number :: "pop_conn \<Rightarrow> int option" where
  "msg_number c =
     (let n = atoi_bytes (cstr (drop 5 (buffer c))) in
      if buffer c ! 4 = 32 \<and> buffer c ! 5 \<noteq> 0 \<and> n \<noteq> 0 then Some n else None)"

definition find_msg :: "pop_conn \<Rightarrow> nat option" where
  "find_msg c =
     (case msg_number c of
        None \<Rightarrow> None
      | Some n \<Rightarrow> (let k = nat (n - 1) in if k < length (msgs c) \<and> \<not> m_del (msgs c ! k) then Some k else None))"

definition list_line :: "int \<Rightarrow> msgent \<Rightarrow> bytes" where
  "list_line i m = int_text i @ [32] @ int_text (sint (m_size m)) @ [13, 10]"

fun list_lines :: "int \<Rightarrow> msgent list \<Rightarrow> bytes \<Rightarrow> nat \<Rightarrow> (bytes \<times> nat) outcome" where
  "list_lines i [] buf len = Ok (buf, len)"
| "list_lines i (m # ms) buf len =
     (if m_del m then list_lines (i + 1) ms buf len
      else bindo (sprintf_at buf len (list_line i m)) (\<lambda>buf. list_lines (i + 1) ms buf (len + length (list_line i m))))"

definition cmd_LIST :: "pop_conn \<Rightarrow> pop_conn outcome" where
  "cmd_LIST c =
     (if pstate c \<noteq> MBX_TRAN then Ok (say POP3_NEG c)
      else if buffer c ! 4 = 0 then
        bindo (sprintf_at (buffer c) 0 POP3_POS) (\<lambda>buf.
        bindo (list_lines 1 (msgs c) buf (length POP3_POS)) (\<lambda>(buf, len).
          if length buf < len + 4 then Crash OutOfBounds
          else let buf = put32 buf len 0x000a0d2e in Ok (say (take (len + 3) buf) (c\<lparr>buffer := buf\<rparr>))))
      else case find_msg c of
          None \<Rightarrow> Ok (say POP3_NEG c)
        | Some k \<Rightarrow>
            let text = bytes_of ''+OK '' @ int_text (the (msg_number c)) @ [32] @ int_text (sint (m_size (msgs c ! k))) @ [13, 10]
            in bindo (sprintf_at (buffer c) 0 text) (\<lambda>buf. Ok (say text (c\<lparr>buffer := buf\<rparr>))))"

text \<open>The body goes through the buffer in pieces of its size.\<close>

function send_body :: "nat \<Rightarrow> bytes \<Rightarrow> pop_conn \<Rightarrow> pop_conn" where
  "send_body n d c =
     (if n = 0 \<or> d = [] then c
      else send_body n (drop n d) (say (take n d) (c\<lparr>buffer := blit (buffer c) 0 (take n d)\<rparr>)))"
  by pat_completeness auto
termination by (relation "measure (\<lambda>(n, d, c). length d)") auto

declare send_body.simps [simp del]

definition cmd_RETR :: "mail_store \<Rightarrow> pop_conn \<Rightarrow> pop_conn" where
  "cmd_RETR st c =
     (if pstate c \<noteq> MBX_TRAN then say POP3_NEG c
      else case find_msg c of
          None \<Rightarrow> say POP3_NEG c
        | Some k \<Rightarrow> (case map_of (files st) (m_name (msgs c ! k)) of
              Some (Regular d) \<Rightarrow> say POP3_EOM (send_body (alc_buf_size st) d (say POP3_POS c))
            | _ \<Rightarrow> say POP3_NEG c))"

definition cmd_DELE :: "pop_conn \<Rightarrow> pop_conn" where
  "cmd_DELE c =
     (if pstate c \<noteq> MBX_TRAN then say POP3_NEG c
      else case find_msg c of
          None \<Rightarrow> say POP3_NEG c
        | Some k \<Rightarrow> say POP3_POS (c\<lparr>msgs := (msgs c)[k := (msgs c ! k)\<lparr>m_del := True\<rparr>]\<rparr>))"

definition cmd_RSET :: "pop_conn \<Rightarrow> pop_conn" where
  "cmd_RSET c =
     (if pstate c \<noteq> MBX_TRAN then say POP3_NEG c
      else say POP3_POS (c\<lparr>msgs := map (\<lambda>m. m\<lparr>m_del := False\<rparr>) (msgs c)\<rparr>))"

definition remove_file :: "bytes \<Rightarrow> mail_store \<Rightarrow> mail_store" where
  "remove_file p st = st\<lparr>files := filter (\<lambda>(q, _). q \<noteq> p) (files st)\<rparr>"

definition release :: "nat \<Rightarrow> pop_conn \<Rightarrow> mail_store \<Rightarrow> mail_store" where
  "release t c st = (case mbox c of None \<Rightarrow> st | Some i \<Rightarrow> unlock t i st)"

definition cmd_QUIT :: "nat \<Rightarrow> mail_store \<Rightarrow> pop_conn \<Rightarrow> pop_conn \<times> mail_store" where
  "cmd_QUIT t st c =
     (say POP3_POS (c\<lparr>msgs := []\<rparr>),
      release t c (fold (\<lambda>m. if m_del m then remove_file (m_name m) else id) (msgs c) st))"

section \<open>A session\<close>

text \<open>One round of the loop; the first component tells whether the handler returned.\<close>

definition upcase4 :: "bytes \<Rightarrow> bytes" where
  "upcase4 buf = map c_toupper (take 4 buf) @ drop 4 buf"

definition pop_dispatch :: "nat \<Rightarrow> nat \<Rightarrow> mail_store \<Rightarrow> pop_conn \<Rightarrow> (bool \<times> pop_conn \<times> mail_store) outcome" where
  "pop_dispatch t result st c =
     (let stay = (\<lambda>c. Ok (False, c, st)) in
      case pop_cmd_of (get32 (buffer c) 0) of
        APOP \<Rightarrow> bindo (cmd_APOP t result st c) (\<lambda>(c, st). Ok (False, c, st))
      | USER \<Rightarrow> stay (cmd_USER result c)
      | PASS \<Rightarrow> bindo (cmd_PASS t result st c) (\<lambda>(c, st). Ok (False, c, st))
      | STAT \<Rightarrow> bindo (cmd_STAT c) stay
      | LIST \<Rightarrow> bindo (cmd_LIST c) stay
      | RETR \<Rightarrow> stay (cmd_RETR st c)
      | DELE \<Rightarrow> stay (cmd_DELE c)
      | RSET \<Rightarrow> stay (cmd_RSET c)
      | NOOP \<Rightarrow> if pstate c \<noteq> MBX_TRAN then Ok (True, say POP3_NEG c, st) else stay (say POP3_POS c)
      | QUIT \<Rightarrow> (case cmd_QUIT t st c of (c, st) \<Rightarrow> Ok (True, c, st))
      | POP_OTHER \<Rightarrow> stay (say POP3_NEG c))"

definition pop_command :: "nat \<Rightarrow> mail_store \<Rightarrow> pop_conn \<Rightarrow> (bool \<times> pop_conn \<times> mail_store) outcome" where
  "pop_command t st c =
     bindo (ReadString (alc_buf_size st - 1) (buffer c) (p_input c)) (\<lambda>(r, buf, ss).
       case r of
         None \<Rightarrow> Ok (True, c\<lparr>buffer := buf, p_input := ss\<rparr>, release t c st)
       | Some result \<Rightarrow> pop_dispatch t result st (c\<lparr>buffer := upcase4 buf, p_input := ss\<rparr>))"

text \<open>The greeting; \<open>now\<close> is the time. The buffer is the one of the thread.\<close>

definition pop_start :: "nat \<Rightarrow> bytes \<Rightarrow> segments \<Rightarrow> mail_store \<Rightarrow> pop_conn outcome" where
  "pop_start now buf ss st =
     (let g = [60] @ dec_text now @ [64] @ server_fqdn st @ [62]; text = bytes_of ''+OK '' @ g @ [13, 10] in
      bindo (sprintf_at buf 0 g) (\<lambda>buf.
      bindo (sprintf_at buf 0 text) (\<lambda>buf.
        Ok (say text \<lparr>pstate = MBX_NONE, p_user = None, p_greeting = g, msgs = [], mbox = None, buffer = buf,
              p_input = ss, p_output = []\<rparr>))))"

end
