(* ===== verification/MailSmtp.thy ===== *)
theory MailSmtp
  imports MailPop
begin

text \<open>
  \<open>QX-mail/smtp.c\<close>: an SMTP session, command by command, with the spool that the sessions share.
  The mailboxes and settings are those of the POP3 server.
\<close>

section \<open>State\<close>

datatype smtp_state = SS_NONE | SS_HELO | SS_RCPT | SS_DATA

text \<open>A message: sender, recipients, the last one first, and what its spool file holds, if there is
  one.\<close>

record smtpmsg =
  sm_from :: bytes
  sm_to :: "bytes list"
  sm_file :: "bytes option"

record smtp_conn =
  sstate :: smtp_state
  s_auth :: bool
  s_user :: "bytes option"
  s_greeting :: "bytes option"
  s_msgs :: "smtpmsg list"
  s_buffer :: bytes
  s_input :: segments
  s_output :: bytes

text \<open>The results of the system calls of one command: the address of the peer as text, the time, and
  whether \<open>mkstemp\<close> makes a file.\<close>

record smtp_calls =
  peer :: bytes
  now :: nat
  mkstemp_ok :: bool

datatype smtp_cmd = HELO | EHLO | AUTH | MAIL | RCPT | DATA | SRSET | SNOOP | SQUIT | SMTP_OTHER

definition smtp_cmd_of :: "u32 \<Rightarrow> smtp_cmd" where
  "smtp_cmd_of w = (if w = 0x4f4c4548 then HELO else if w = 0x4f4c4845 then EHLO else if w = 0x48545541 then AUTH
     else if w = 0x4c49414d then MAIL else if w = 0x54504352 then RCPT else if w = 0x41544144 then DATA
     else if w = 0x54455352 then SRSET else if w = 0x504f4f4e then SNOOP else if w = 0x54495551 then SQUIT
     else SMTP_OTHER)"

definition crlf :: bytes where "crlf = [13, 10]"

definition answer :: "bytes \<Rightarrow> smtp_conn \<Rightarrow> smtp_conn" where
  "answer s c = c\<lparr>s_output := s_output c @ s\<rparr>"

abbreviation answer_code :: "string \<Rightarrow> smtp_conn \<Rightarrow> smtp_conn" where
  "answer_code s c \<equiv> answer (bytes_of s @ crlf) c"

definition FreeSMTPSession :: "smtp_conn \<Rightarrow> smtp_conn" where
  "FreeSMTPSession c = c\<lparr>s_user := None, s_greeting := None, s_msgs := []\<rparr>"

text \<open>A command gives whether the handler returned, the session, and the spool.\<close>

type_synonym smtp_result = "(bool \<times> smtp_conn \<times> smtpmsg list) outcome"

section \<open>Greeting and envelope\<close>

definition cmd_HELO :: "bool \<Rightarrow> nat \<Rightarrow> mail_store \<Rightarrow> smtp_conn \<Rightarrow> smtpmsg list \<Rightarrow> smtp_result" where
  "cmd_HELO ext result st c sp =
     (let c = (if sstate c \<noteq> SS_NONE then FreeSMTPSession c else c); name = cstr (drop 5 (s_buffer c)) in
      if result < 7 then Ok (False, answer_code ''501'' c, sp)
      else if name = server_fqdn st then Ok (True, FreeSMTPSession (answer_code ''550 LOOP'' c), sp)
      else let c = c\<lparr>s_user := Some name, sstate := SS_HELO, s_auth := False\<rparr>;
               text = (if ext then bytes_of ''250-'' @ server_fqdn st @ crlf @ bytes_of ''250-8BITMIME'' @ crlf @
                         bytes_of ''250 AUTH LOGIN CRAM-MD5'' @ crlf
                       else bytes_of ''250 '' @ server_fqdn st @ crlf)
        in bindo (sprintf_at (s_buffer c) 0 text) (\<lambda>buf. Ok (False, answer text (c\<lparr>s_buffer := buf\<rparr>), sp)))"

definition strchr :: "byte \<Rightarrow> bytes \<Rightarrow> nat option" where
  "strchr b s = (if b \<in> set s then Some (length (takeWhile (\<lambda>x. x \<noteq> b) s)) else None)"

text \<open>The text after the first opening bracket, when the first closing one has been made a
  terminator.\<close>

definition bracketed :: "bytes \<Rightarrow> nat \<Rightarrow> nat \<Rightarrow> bytes" where
  "bracketed buf b e = cstr (drop (b + 1) (buf[e := 0]))"

text \<open>The pointer to the text is incremented before it is compared with \<open>NULL\<close>, so a line with only
  a closing bracket passes the test and the address one is read.\<close>

definition cmd_MAIL :: "smtp_conn \<Rightarrow> smtpmsg list \<Rightarrow> smtp_result" where
  "cmd_MAIL c sp =
     (let line = cstr (s_buffer c) in
      if sstate c \<noteq> SS_HELO then Ok (False, answer_code ''503'' c, sp)
      else case strchr 62 line of
          None \<Rightarrow> Ok (False, answer_code ''501'' c, sp)
        | Some e \<Rightarrow> (case strchr 60 line of
            None \<Rightarrow> Crash NullPointer
          | Some b \<Rightarrow>
              let s = bracketed (s_buffer c) b e;
                  m = \<lparr>sm_from = (if s = [] then bytes_of ''Bounced'' else s), sm_to = [], sm_file = None\<rparr>
              in Ok (False, answer_code ''250'' (c\<lparr>s_buffer := (s_buffer c)[e := 0], s_msgs := m # s_msgs c, sstate := SS_RCPT\<rparr>), sp)))"

definition local_user :: "mail_store \<Rightarrow> bytes \<Rightarrow> bool" where
  "local_user st s \<longleftrightarrow> (\<exists>mb \<in> set (MBX st). stricmp_eq s (mb_user mb))"

definition cmd_RCPT :: "mail_store \<Rightarrow> smtp_conn \<Rightarrow> smtpmsg list \<Rightarrow> smtp_result" where
  "cmd_RCPT st c sp =
     (let line = cstr (s_buffer c) in
      if sstate c \<noteq> SS_RCPT then Ok (False, answer_code ''503'' c, sp)
      else case strchr 62 line of
          None \<Rightarrow> Ok (False, answer_code ''501'' c, sp)
        | Some e \<Rightarrow> (case strchr 60 line of
            None \<Rightarrow> if MBX st = [] \<and> \<not> s_auth c then Ok (False, answer_code ''553'' (c\<lparr>s_buffer := (s_buffer c)[e := 0]\<rparr>), sp)
                    else Crash NullPointer
          | Some b \<Rightarrow>
              if b + 1 = e then Ok (False, answer_code ''501'' c, sp)
              else let s = bracketed (s_buffer c) b e; c = c\<lparr>s_buffer := (s_buffer c)[e := 0]\<rparr> in
                if \<not> local_user st s \<and> \<not> s_auth c then Ok (False, answer_code ''553'' c, sp)
                else case s_msgs c of
                    [] \<Rightarrow> Crash NullPointer
                  | m # ms \<Rightarrow> Ok (False, answer_code ''250'' (c\<lparr>s_msgs := m\<lparr>sm_to := s # sm_to m\<rparr> # ms\<rparr>), sp)))"

section \<open>The text of a message\<close>

text \<open>The last carriage return, if there is one.\<close>

definition last_cr :: "bytes \<Rightarrow> nat option" where
  "last_cr d = (if 13 \<in> set d then Some (length d - 1 - length (takeWhile (\<lambda>b. b \<noteq> 13) (rev d))) else None)"

definition is_eom :: "bytes \<Rightarrow> nat \<Rightarrow> bool" where
  "is_eom d r \<longleftrightarrow> d ! (r - 1) = 46 \<and> d ! (r - 2) = 10 \<and> d ! (r - 3) = 13"

text \<open>What is kept in the buffer up to \<open>start\<close> is what was received and not yet written. The result
  is \<open>None\<close> when the connection fails, and what was written to the file.\<close>

function data_loop :: "nat \<Rightarrow> nat \<Rightarrow> bytes \<Rightarrow> bytes \<Rightarrow> segments \<Rightarrow> (bytes option \<times> bytes \<times> segments) outcome" where
  "data_loop n start buf written ss =
     (case recv (n - start) ss of
        (None, ss) \<Rightarrow> Ok (None, buf, ss)
      | (Some d, ss) \<Rightarrow>
          if length buf < start + length d then Crash OutOfBounds
          else let result = start + length d; buf = blit buf start d; all = take result buf in
            case last_cr all of
              None \<Rightarrow> data_loop n result buf written ss
            | Some r \<Rightarrow>
                if r < 3 \<or> r = result - 1 then data_loop n result buf written ss
                else let eom = is_eom all r; r = (if eom then r - 3 else r);
                         written = written @ take r all; buf = blit buf 0 (drop r all) in
                  if eom then Ok (Some written, buf, ss)
                  else data_loop n (result - r) buf written ss)"
  by pat_completeness auto
termination
  by (relation "measure (\<lambda>(n, start, buf, written, ss). segments_size ss)") (auto dest: recv_smaller [OF sym])

declare data_loop.simps [simp del]

definition received_line :: "bytes \<Rightarrow> bytes \<Rightarrow> mail_store \<Rightarrow> bytes" where
  "received_line u addr st = bytes_of ''Received: from '' @ u @ [40] @ addr @ bytes_of '') by '' @ server_fqdn st @ crlf"

text \<open>When no file could be made, the writes go nowhere. \<open>sprintf\<close> of a null string is a crash.\<close>

definition cmd_DATA :: "smtp_calls \<Rightarrow> mail_store \<Rightarrow> smtp_conn \<Rightarrow> smtpmsg list \<Rightarrow> smtp_result" where
  "cmd_DATA e st c sp =
     (if sstate c \<noteq> SS_RCPT then Ok (False, answer_code ''503'' c, sp)
      else case (s_msgs c, s_user c) of
          (m # ms, Some u) \<Rightarrow>
            let line = received_line u (peer e) st in
            bindo (sprintf_at (s_buffer c) 0 line) (\<lambda>buf.
              let c = answer_code ''354'' c in
              bindo (data_loop (alc_buf_size st) 0 buf line (s_input c)) (\<lambda>(w, buf, ss).
                let c = c\<lparr>s_buffer := buf, s_input := ss\<rparr> in
                case w of
                  None \<Rightarrow> Ok (True, FreeSMTPSession c, sp)
                | Some w \<Rightarrow>
                    Ok (False, answer_code ''250'' (c\<lparr>s_msgs := [], sstate := SS_HELO\<rparr>),
                        m\<lparr>sm_file := (if mkstemp_ok e then Some w else None)\<rparr> # sp)))
        | _ \<Rightarrow> Crash NullPointer)"

section \<open>Authentication\<close>

text \<open>\<open>decode64\<close> from the start of a text into the buffer of the thread. It may be the same buffer:
  every group of four characters is read before the three bytes made of it are written, which lie not
  behind it.\<close>

definition decode_into :: "bytes \<Rightarrow> nat \<Rightarrow> bytes \<Rightarrow> (b64_result \<times> bytes) outcome" where
  "decode_into inp inlen buf =
     bindo (decode64 inp inlen) (\<lambda>(r, out).
       let out = (if r = B64_OK then out @ [0] else out) in
       if length buf < length out then Crash OutOfBounds else Ok (r, blit buf 0 out))"

definition check_password :: "mail_store \<Rightarrow> bytes \<Rightarrow> nat \<Rightarrow> smtp_conn \<Rightarrow> smtpmsg list \<Rightarrow> smtp_result" where
  "check_password st username plen c sp =
     (let c = c\<lparr>s_auth := False\<rparr>; fail = (\<lambda>c. Ok (True, answer_code ''535'' (FreeSMTPSession c), sp)) in
      case find_mailbox (MBX st) username 0 of
        None \<Rightarrow> fail c
      | Some i \<Rightarrow>
          bindo (decode_into (s_buffer c) plen (s_buffer c)) (\<lambda>(r, buf).
          let c = c\<lparr>s_buffer := buf\<rparr> in
          if r \<noteq> B64_OK then fail (answer_code ''551'' c)
          else if mb_password (MBX st ! i) = cstr buf
            then Ok (False, answer_code ''235'' (c\<lparr>s_auth := True, s_user := Some username\<rparr>), sp)
            else fail c))"

text \<open>A question, the line that answers it, and what is done with the line.\<close>

definition ask :: "string \<Rightarrow> (nat \<Rightarrow> smtp_conn \<Rightarrow> smtp_result) \<Rightarrow> smtp_conn \<Rightarrow> smtpmsg list \<Rightarrow> smtp_result" where
  "ask q k c sp =
     bindo (ReadString 256 (s_buffer c) (s_input c)) (\<lambda>(r, buf, ss).
       let c = answer_code q (c\<lparr>s_buffer := buf, s_input := ss\<rparr>) in
       case r of None \<Rightarrow> Ok (True, FreeSMTPSession c, sp) | Some n \<Rightarrow> k n c)"

definition auth_LOGIN :: "mail_store \<Rightarrow> smtp_conn \<Rightarrow> smtpmsg list \<Rightarrow> smtp_result" where
  "auth_LOGIN st c sp =
     ask ''334 VXNlcm5hbWU6'' (\<lambda>ulen c.
       bindo (decode_into (s_buffer c) ulen (s_buffer c)) (\<lambda>(r, buf).
         let c = c\<lparr>s_buffer := buf\<rparr> in
         if r \<noteq> B64_OK then Ok (False, answer_code ''551'' c, sp)
         else ask ''334 UGFzc3dvcmQ6'' (\<lambda>plen c. check_password st (cstr buf) plen c sp) c sp)) c sp"

text \<open>The digest of a challenge, computed in the buffer: the key is the password in a block of 64
  bytes that is combined with the pads.\<close>

definition key_block :: "byte \<Rightarrow> bytes \<Rightarrow> bytes \<Rightarrow> bytes" where
  "key_block p pw buf =
     (let b = blit (blit buf 0 (replicate 64 0)) 0 pw in map (\<lambda>x. x XOR p) (take 64 b) @ drop 64 b)"

definition cram_digest :: "nat \<Rightarrow> bytes \<Rightarrow> bytes \<Rightarrow> bytes \<Rightarrow> (bytes \<times> bytes) outcome" where
  "cram_digest room buf pw g =
     (if length buf < max (length pw) (max (64 + length g) 80) then Crash OutOfBounds
      else let b = blit (key_block 0x36 pw buf) 64 g;
               inner = MD5bin (take (64 + length g) b);
               b = blit (key_block 0x5c pw b) 64 inner
        in bindo (GetMD5 room (take 80 b)) (\<lambda>d. Ok (d, b)))"

text \<open>The challenge in its own buffer of 512 bytes, of which \<open>snprintf\<close> fills at most 511; the
  length is the one of the whole text.\<close>

definition send_challenge :: "smtp_calls \<Rightarrow> mail_store \<Rightarrow> smtp_conn \<Rightarrow> (bytes \<times> smtp_conn) outcome" where
  "send_challenge e st c =
     (let text = [60] @ dec_text (now e) @ [64] @ server_fqdn st @ [62];
          ch = take 510 text @ replicate (512 - min 510 (length text)) 0 in
      if 512 < length text then Crash OutOfBounds
      else case encode64 (take (length text) ch) (alc_buf_size st) of
        (r, out, olen) \<Rightarrow>
          if length (s_buffer c) < max (4 + length out) (olen + 6) then Crash OutOfBounds
          else let buf = blit (put32 (s_buffer c) 0 0x20343333) 4 out; buf = buf[olen + 4 := 13, olen + 5 := 10]
            in Ok (ch, answer (take (olen + 6) buf) (c\<lparr>s_buffer := buf, s_greeting := Some (cstr ch)\<rparr>)))"

text \<open>The answer: a name and a digest, after the decoding.\<close>

definition check_digest :: "mail_store \<Rightarrow> smtp_conn \<Rightarrow> smtpmsg list \<Rightarrow> smtp_result" where
  "check_digest st c sp =
     (let line = cstr (s_buffer c) in
      if 32 \<notin> set line then Ok (False, answer_code ''501'' c, sp)
      else let u = takeWhile (\<lambda>b. b \<noteq> 32) line; hash = tl (dropWhile (\<lambda>b. b \<noteq> 32) line); 
               c = c\<lparr>s_user := Some u, s_buffer := (s_buffer c)[length u := 0]\<rparr> in
        bindo (case find_mailbox (MBX st) u 0 of
            None \<Rightarrow> Ok c
          | Some i \<Rightarrow>
              bindo (cram_digest (md5_room st) (s_buffer c) (mb_password (MBX st ! i)) (the (s_greeting c))) (\<lambda>(myhash, buf).
              let c = c\<lparr>s_buffer := buf\<rparr> in Ok (if memicmp_eq 32 hash myhash then answer_code ''235'' (c\<lparr>s_auth := True\<rparr>) else c)))
        (\<lambda>c. if \<not> s_auth c then Ok (True, answer_code ''535'' (FreeSMTPSession c), sp) else Ok (False, c, sp)))"

definition auth_CRAM_MD5 :: "smtp_calls \<Rightarrow> mail_store \<Rightarrow> smtp_conn \<Rightarrow> smtpmsg list \<Rightarrow> smtp_result" where
  "auth_CRAM_MD5 e st c sp =
     bindo (send_challenge e st c) (\<lambda>(ch, c).
     bindo (ReadString 511 ch (s_input c)) (\<lambda>(r, ch, ss).
     let c = c\<lparr>s_input := ss\<rparr> in
     case r of
       None \<Rightarrow> Ok (True, FreeSMTPSession c, sp)
     | Some result \<Rightarrow>
         bindo (decode_into ch result (s_buffer c)) (\<lambda>(r, buf).
         let c = c\<lparr>s_buffer := buf\<rparr> in
         if r \<noteq> B64_OK then Ok (False, answer_code ''551'' c, sp) else check_digest st c sp)))"

definition cmd_AUTH :: "smtp_calls \<Rightarrow> mail_store \<Rightarrow> smtp_conn \<Rightarrow> smtpmsg list \<Rightarrow> smtp_result" where
  "cmd_AUTH e st c sp =
     (let arg = drop 5 (s_buffer c) in
      if sstate c \<noteq> SS_HELO then Ok (False, answer_code ''503'' c, sp)
      else if stricmp_eq arg (bytes_of ''LOGIN'') then auth_LOGIN st c sp
      else if \<not> stricmp_eq arg (bytes_of ''CRAM-MD5'') then Ok (False, answer_code ''550'' c, sp)
      else auth_CRAM_MD5 e st c sp)"

section \<open>A session\<close>

definition cmd_RSET_smtp :: "smtp_conn \<Rightarrow> smtp_conn" where
  "cmd_RSET_smtp c = answer_code ''250'' ((FreeSMTPSession c)\<lparr>s_user := s_user c, sstate := SS_HELO\<rparr>)"

definition smtp_dispatch :: "smtp_calls \<Rightarrow> nat \<Rightarrow> mail_store \<Rightarrow> smtp_conn \<Rightarrow> smtpmsg list \<Rightarrow> smtp_result" where
  "smtp_dispatch e result st c sp =
     (case smtp_cmd_of (get32 (s_buffer c) 0) of
        HELO \<Rightarrow> cmd_HELO False result st c sp
      | EHLO \<Rightarrow> cmd_HELO True result st c sp
      | MAIL \<Rightarrow> cmd_MAIL c sp
      | RCPT \<Rightarrow> cmd_RCPT st c sp
      | DATA \<Rightarrow> cmd_DATA e st c sp
      | SRSET \<Rightarrow> Ok (False, cmd_RSET_smtp c, sp)
      | SNOOP \<Rightarrow> Ok (False, answer_code ''250'' c, sp)
      | SQUIT \<Rightarrow>
          let text = bytes_of ''221 '' @ server_fqdn st @ bytes_of '' Bye'' @ crlf in
          bindo (sprintf_at (s_buffer c) 0 text) (\<lambda>buf.
            Ok (True, FreeSMTPSession (answer text (c\<lparr>s_buffer := buf\<rparr>)), sp))
      | AUTH \<Rightarrow> cmd_AUTH e st c sp
      | SMTP_OTHER \<Rightarrow> Ok (False, answer_code ''550'' c, sp))"

definition smtp_command :: "smtp_calls \<Rightarrow> mail_store \<Rightarrow> smtp_conn \<Rightarrow> smtpmsg list \<Rightarrow> smtp_result" where
  "smtp_command e st c sp =
     bindo (ReadString (alc_buf_size st - 1) (s_buffer c) (s_input c)) (\<lambda>(r, buf, ss).
       case r of
         None \<Rightarrow> Ok (True, FreeSMTPSession (c\<lparr>s_buffer := buf, s_input := ss\<rparr>), sp)
       | Some result \<Rightarrow> smtp_dispatch e result st (c\<lparr>s_buffer := upcase4 buf, s_input := ss\<rparr>) sp)"

definition smtp_start :: "bytes \<Rightarrow> segments \<Rightarrow> mail_store \<Rightarrow> smtp_conn outcome" where
  "smtp_start buf ss st =
     (let text = bytes_of ''220 '' @ server_fqdn st @ crlf in
      bindo (sprintf_at buf 0 text) (\<lambda>buf.
        Ok (answer text \<lparr>sstate = SS_NONE, s_auth = False, s_user = None, s_greeting = None, s_msgs = [], s_buffer = buf,
              s_input = ss, s_output = []\<rparr>)))"

end
