(* ===== verification/MailSpooler.thy ===== *)
theory MailSpooler
  imports MailSmtp DnsNames
begin

text \<open>
  \<open>QX-mail/spooler.c\<close>: the thread that takes messages from the spool, has them scanned, links
  them into the local mailboxes and hands the rest to other mail servers. What the network, the scanner and the
  clock answer is an argument; the calls on sockets that matter to a peer or to the other threads
  are recorded. A run that does not return, or waits for a mutex that a session holds, has no result.
\<close>

section \<open>What the calls answer\<close>

text \<open>\<open>stamp\<close> gives the time and the random number of each file name in turn; \<open>MAX_NAME\<close> is
  \<open>NAME_MAX\<close>; the scanner is asked about the contents of a spool file.\<close>

datatype av_result = ScanFailed | QAV_CLEAN | QAV_INTERNAL | QAV_VIRUS | QAV_OTHER

record spool_env =
  sp_tid :: int
  stamp :: "nat \<Rightarrow> int \<times> int"
  MAX_NAME :: nat
  UseSMTPRelay :: bool
  scan_file :: "bytes option \<Rightarrow> av_result"

datatype connect_result = Connected | ECONNREFUSED | ETIMEDOUT | OtherErrno

text \<open>The network during the delivery to one server: the socket and the answer of the name server,
  which names can be resolved, the buffer after that, the sockets and the results of the attempts to
  connect, by their number, what the server sends, and which pieces of the body can be sent.\<close>

record spool_net =
  dns_sock :: int
  dns_reply :: "bytes option"
  resolved :: "nat \<Rightarrow> bytes \<Rightarrow> bool"
  hostent_buf :: bytes
  net_sock :: "nat \<Rightarrow> int"
  connect_to :: "nat \<Rightarrow> connect_result"
  remote :: segments
  body_sent :: "nat \<Rightarrow> bool"

datatype net_call = NSend int bytes | NClose int

section \<open>The spool and local delivery\<close>

definition take_message :: "smtpmsg list \<Rightarrow> (smtpmsg \<times> smtpmsg list) option" where
  "take_message sp = (case sp of [] \<Rightarrow> None | m # sp \<Rightarrow> Some (m, sp))"

definition file_name :: "spool_env \<Rightarrow> bytes \<Rightarrow> nat \<Rightarrow> bytes" where
  "file_name e dir k = dir @ [47] @ int_text (sp_tid e) @ int_text (fst (stamp e k)) @ int_text (snd (stamp e k))"

text \<open>\<open>link\<close>: nothing happens without a file, without the directory, or when the name is taken.\<close>

definition link_file :: "bytes option \<Rightarrow> bytes \<Rightarrow> bytes \<Rightarrow> mail_store \<Rightarrow> mail_store" where
  "link_file d dir p st =
     (case d of
        Some c \<Rightarrow> if dir \<in> set (dirs st) \<and> p \<notin> fst ` set (files st) then st\<lparr>files := files st @ [(p, Regular c)]\<rparr> else st
      | None \<Rightarrow> st)"

text \<open>The recipients that are left go to a list of their own, in front.\<close>

fun local_delivery :: "spool_env \<Rightarrow> bytes option \<Rightarrow> bytes list \<Rightarrow> bytes list \<Rightarrow> nat \<Rightarrow> mail_store \<Rightarrow>
    (bytes list \<times> nat \<times> mail_store) run" where
  "local_delivery e d [] crcpt k st = Some (Ok (crcpt, k, st))"
| "local_delivery e d (r # rs) crcpt k st =
     (case find_mailbox (MBX st) r 0 of
        None \<Rightarrow> local_delivery e d rs (r # crcpt) k st
      | Some i \<Rightarrow>
          let u = mb_user (MBX st ! i); p = file_name e u k in
          if MAX_NAME e + 1 < length p + 1 then Some (Crash OutOfBounds)
          else if holder st i \<noteq> None then None
          else local_delivery e d rs crcpt (Suc k) (link_file d u p st))"

section \<open>Recipients by domain\<close>

text \<open>\<open>strrchr (r, '@')\<close>.\<close>

definition domain_of :: "bytes \<Rightarrow> bytes option" where
  "domain_of r = (if 64 \<in> set r then Some (64 # rev (takeWhile (\<lambda>b. b \<noteq> 64) (rev r))) else None)"

fun collect :: "bytes option \<Rightarrow> bytes list \<Rightarrow> bytes list \<Rightarrow> bytes list \<Rightarrow> (bytes list \<times> bytes list) outcome" where
  "collect dm [] same rest = Ok (same, rest)"
| "collect dm (r # rs) same rest =
     (case (dm, domain_of r) of
        (Some d, Some d') \<Rightarrow> if stricmp_eq d d' then collect dm rs (r # same) rest else collect dm rs same (r # rest)
      | _ \<Rightarrow> Crash NullPointer)"

text \<open>The recipients of the next transfer, their domain, and those that are left. With a relay
  all of them are one transfer.\<close>

fun next_group :: "bool \<Rightarrow> bytes list \<Rightarrow> (bytes list \<times> bytes option \<times> bytes list) outcome" where
  "next_group relay [] = Ok ([], None, [])"
| "next_group relay (r # rs) =
     (if relay then Ok (r # rs, None, [])
      else bindo (collect (domain_of r) rs [r] []) (\<lambda>(to, rest). Ok (to, domain_of r, rest)))"

section \<open>The question for mail exchangers\<close>

text \<open>From the end of the name to its at sign, every dot becomes the length of the label behind it.\<close>

function label_loop :: "bytes \<Rightarrow> nat \<Rightarrow> byte \<Rightarrow> bytes outcome" where
  "label_loop buf i j =
     (if buf ! i = 64 then Ok (buf[i := j])
      else let (buf, j) = (if buf ! i = 46 then (buf[i := j], 0) else (buf, j + 1)) in
        if i = 0 then Crash OutOfBounds else label_loop buf (i - 1) j)"
  by pat_completeness auto
termination by (relation "measure (\<lambda>(buf, i, j). i)") auto

declare label_loop.simps [simp del]

definition mx_header :: "bytes \<Rightarrow> bytes" where
  "mx_header buf = put16 (put16 (put16 (blit buf 0 (replicate 12 0)) 0 (swap16 2)) 2 1) 4 (swap16 1)"

definition mx_query :: "bytes \<Rightarrow> bytes \<Rightarrow> (bytes \<times> nat) outcome" where
  "mx_query buf dm =
     (let n = 12 + length dm + 1 in
      if length buf < n + 4 then Crash OutOfBounds
      else bindo (label_loop (blit (mx_header buf) 12 (dm @ [0])) (12 + length dm - 1) 0) (\<lambda>buf.
        Ok (put32 buf n 0x01000f00, n + 4)))"

section \<open>The answer\<close>

definition be16 :: "bytes \<Rightarrow> nat \<Rightarrow> nat" where
  "be16 buf i = unat (swap16 (get16 buf i))"

definition skip_query :: "bytes \<Rightarrow> nat \<Rightarrow> nat outcome" where
  "skip_query buf i =
     (let n = length (takeWhile (\<lambda>b. b \<noteq> 0) (drop i buf)) in
      if length buf \<le> i + n then Crash OutOfBounds else Ok (i + n + 5))"

function skip_zone :: "bytes \<Rightarrow> nat \<Rightarrow> nat outcome" where
  "skip_zone buf i =
     (if length buf \<le> i then Crash OutOfBounds
      else if buf ! i AND 0xc0 = 0xc0 then Ok (i + 2)
      else if buf ! i = 0 then Ok (i + 1)
      else skip_zone buf (i + 1))"
  by pat_completeness auto
termination by (relation "measure (\<lambda>(buf, i). length buf - i)") auto

declare skip_zone.simps [simp del]

text \<open>The name of an exchanger: \<open>acc\<close> is what has been written to \<open>rname\<close>, which has 256
  bytes.\<close>

partial_function (option) mx_name :: "bytes \<Rightarrow> nat \<Rightarrow> bytes \<Rightarrow> bytes run" where
  "mx_name buf i acc =
     (if length buf \<le> i then Some (Crash OutOfBounds)
      else if buf ! i AND 0xc0 = 0xc0 then
        if length buf \<le> i + 1 then Some (Crash OutOfBounds)
        else mx_name buf (be16 buf i mod 0x4000) acc
      else if buf ! i = 0 then Some (Ok (butlast acc))
      else let k = unat (buf ! i); acc' = acc @ take k (drop (i + 1) buf) @ [46] in
        if length buf < i + 1 + k \<or> 256 < length acc' then Some (Crash OutOfBounds)
        else if length acc' < 256 then mx_name buf (i + 1 + k) acc'
        else Some (Ok (butlast acc')))"

fun read_answers :: "nat \<Rightarrow> bytes \<Rightarrow> nat \<Rightarrow> bytes list \<Rightarrow> bytes list run" where
  "read_answers 0 buf here targets = Some (Ok targets)"
| "read_answers (Suc n) buf here targets =
     bindr (Some (skip_zone buf here)) (\<lambda>h.
       if length buf < h + 10 then Some (Crash OutOfBounds)
       else bindr (mx_name buf ((h + 12) mod 65536) []) (\<lambda>name.
         read_answers n buf (h + 12 + be16 buf (h + 8) - 2) (cstr name # targets)))"

text \<open>The servers to try: without an answer, the domain itself.\<close>

definition mx_targets :: "bytes \<Rightarrow> bytes \<Rightarrow> bytes list run" where
  "mx_targets buf dm =
     (if be16 buf 6 = 0 then Some (Ok [tl dm])
      else bindr (Some (skip_query buf 12)) (\<lambda>here. read_answers (be16 buf 6) buf here []))"

section \<open>Connecting\<close>

text \<open>A socket is asked for until there is one.\<close>

partial_function (option) make_socket :: "(nat \<Rightarrow> int) \<Rightarrow> nat \<Rightarrow> (int \<times> nat) option" where
  "make_socket sk n = (if sk n = -1 then make_socket sk (Suc n) else Some (sk n, n))"

text \<open>What a failed attempt does to the list of targets.\<close>

fun retarget :: "connect_result \<Rightarrow> bytes list \<Rightarrow> bytes list" where
  "retarget ECONNREFUSED (t # ts) = ts"
| "retarget ETIMEDOUT (t # ts) = ts @ [t]"
| "retarget res ts = ts"

text \<open>The result tells whether there is a connection, and has the socket that was used last.\<close>

partial_function (option) connect_loop :: "bool \<Rightarrow> spool_net \<Rightarrow> nat \<Rightarrow> bytes list \<Rightarrow> int \<Rightarrow> net_call list \<Rightarrow>
    (bool \<times> int \<times> net_call list) option" where
  "connect_loop relay net n targets sock cs =
     (if \<not> relay \<and> targets = [] then Some (False, sock, cs)
      else if \<not> relay \<and> \<not> resolved net n (hd targets) then connect_loop relay net (Suc n) (tl targets) sock cs
      else Option.bind (make_socket (net_sock net) n) (\<lambda>(s, m).
        if connect_to net m = Connected then Some (True, s, cs)
        else connect_loop relay net (Suc m) (if relay then targets else retarget (connect_to net m) targets) s
          (cs @ [NClose s])))"

section \<open>The dialogue\<close>

text \<open>The connection: the socket, what is waiting on it, the buffer of the thread, and the calls.\<close>

record chan =
  ch_sock :: int
  ch_in :: segments
  ch_buf :: bytes
  ch_calls :: "net_call list"

datatype delivery = Sent | NetworkError | NotDelivered | RemoteError

definition SMTP_GR :: u32 where "SMTP_GR = 0x00303232"
definition SMTP_OK :: u32 where "SMTP_OK = 0x00303532"
definition SMTP_DT :: u32 where "SMTP_DT = 0x00343533"

definition send_raw :: "bytes \<Rightarrow> chan \<Rightarrow> chan" where
  "send_raw s ch = ch\<lparr>ch_calls := ch_calls ch @ [NSend (ch_sock ch) s]\<rparr>"

definition hear :: "chan \<Rightarrow> (nat option \<times> chan) outcome" where
  "hear ch = bindo (ReadString 2047 (ch_buf ch) (ch_in ch)) (\<lambda>(r, buf, ss). Ok (r, ch\<lparr>ch_buf := buf, ch_in := ss\<rparr>))"

text \<open>A command is printed into the buffer and sent, and a line is read.\<close>

definition talk :: "bytes \<Rightarrow> chan \<Rightarrow> (nat option \<times> chan) outcome" where
  "talk s ch = bindo (sprintf_at (ch_buf ch) 0 s) (\<lambda>buf. hear (send_raw s (ch\<lparr>ch_buf := buf\<rparr>)))"

definition reply_code :: "chan \<Rightarrow> u32" where
  "reply_code ch = get32 (ch_buf ch) 0 AND 0xffffff"

definition remote_error :: "nat \<Rightarrow> chan \<Rightarrow> (delivery \<times> chan) outcome" where
  "remote_error r ch = Ok (RemoteError, ch\<lparr>ch_buf := (ch_buf ch)[r := 0]\<rparr>)"

definition on_reply :: "u32 \<Rightarrow> (nat \<Rightarrow> chan \<Rightarrow> (delivery \<times> chan) outcome) \<Rightarrow> (chan \<Rightarrow> (delivery \<times> chan) outcome) \<Rightarrow>
    nat option \<times> chan \<Rightarrow> (delivery \<times> chan) outcome" where
  "on_reply code bad good = (\<lambda>(r, ch). case r of
     None \<Rightarrow> Ok (NetworkError, ch)
   | Some n \<Rightarrow> if reply_code ch \<noteq> code then bad n ch else good ch)"

fun rcpt_loop :: "bytes list \<Rightarrow> nat \<Rightarrow> chan \<Rightarrow> (nat \<times> chan) outcome" where
  "rcpt_loop [] valid ch = Ok (valid, ch)"
| "rcpt_loop (r # rs) valid ch =
     bindo (talk (bytes_of ''RCPT TO:<'' @ r @ bytes_of ''>'' @ crlf) ch) (\<lambda>(res, ch).
       case res of
         None \<Rightarrow> Ok (valid, ch)
       | Some n \<Rightarrow> if reply_code ch \<noteq> SMTP_OK then rcpt_loop rs valid (ch\<lparr>ch_buf := (ch_buf ch)[n := 0]\<rparr>)
                   else rcpt_loop rs (Suc valid) ch)"

text \<open>The spool file in pieces of 1400 bytes; the result tells whether all of them could be sent.\<close>

function send_file :: "(nat \<Rightarrow> bool) \<Rightarrow> nat \<Rightarrow> bytes \<Rightarrow> chan \<Rightarrow> bool \<times> chan" where
  "send_file sent k d ch =
     (if d = [] then (True, ch)
      else let piece = take 1400 d; ch = ch\<lparr>ch_buf := blit (ch_buf ch) 0 piece\<rparr> in
        if sent k then send_file sent (Suc k) (drop 1400 d) (send_raw piece ch) else (False, ch))"
  by pat_completeness auto
termination by (relation "measure (\<lambda>(sent, k, d, ch). length d)") auto

declare send_file.simps [simp del]

definition send_data :: "(nat \<Rightarrow> bool) \<Rightarrow> bytes option \<Rightarrow> chan \<Rightarrow> (delivery \<times> chan) outcome" where
  "send_data sent d ch =
     bindo (hear (send_raw (bytes_of ''DATA'' @ crlf) ch))
      (on_reply SMTP_DT remote_error (\<lambda>ch.
        case d of
          None \<Rightarrow> Ok (NetworkError, ch)
        | Some d \<Rightarrow> (case send_file sent 0 d ch of
            (False, ch) \<Rightarrow> Ok (NetworkError, ch)
          | (True, ch) \<Rightarrow> bindo (hear (send_raw (crlf @ [46] @ crlf) ch)) (on_reply SMTP_OK remote_error (\<lambda>ch. Ok (Sent, ch))))))"

definition send_envelope :: "(nat \<Rightarrow> bool) \<Rightarrow> smtpmsg \<Rightarrow> bytes list \<Rightarrow> chan \<Rightarrow> (delivery \<times> chan) outcome" where
  "send_envelope sent m to ch =
     bindo (talk (bytes_of ''MAIL FROM:<'' @ sm_from m @ bytes_of ''>'' @ crlf) ch)
      (on_reply SMTP_OK remote_error (\<lambda>ch.
        bindo (rcpt_loop to 0 ch) (\<lambda>(valid, ch).
          if valid = 0 then Ok (NotDelivered, ch) else send_data sent (sm_file m) ch)))"

definition dialogue :: "(nat \<Rightarrow> bool) \<Rightarrow> bytes \<Rightarrow> smtpmsg \<Rightarrow> bytes list \<Rightarrow> chan \<Rightarrow> (delivery \<times> chan) outcome" where
  "dialogue sent fqdn m to ch =
     bindo (hear ch) (on_reply SMTP_GR remote_error (\<lambda>ch.
       bindo (talk (bytes_of ''EHLO '' @ fqdn @ crlf) ch) (on_reply SMTP_OK
         (\<lambda>_ ch. bindo (talk (bytes_of ''HELO '' @ fqdn @ crlf) ch) (on_reply SMTP_OK remote_error (send_envelope sent m to)))
         (send_envelope sent m to))))"

section \<open>One transfer\<close>

text \<open>The end of a transfer: \<open>QUIT\<close>, unless the connection is lost or there was none, and the socket
  is closed.\<close>

definition finish_transfer :: "delivery \<Rightarrow> int \<Rightarrow> net_call list \<Rightarrow> net_call list" where
  "finish_transfer r sock cs =
     cs @ (if r = NetworkError \<or> r = NotDelivered then [] else [NSend sock (bytes_of ''QUIT'' @ crlf)]) @ [NClose sock]"

definition converse :: "spool_net \<Rightarrow> bytes \<Rightarrow> smtpmsg \<Rightarrow> bytes list \<Rightarrow> bytes \<Rightarrow> bool \<times> int \<times> net_call list \<Rightarrow>
    (delivery \<times> bytes \<times> net_call list) run" where
  "converse net fqdn m to buf = (\<lambda>(ok, sock, cs).
     if \<not> ok then Some (Ok (NotDelivered, buf, finish_transfer NotDelivered sock cs))
     else bindr (Some (dialogue (body_sent net) fqdn m to \<lparr>ch_sock = sock, ch_in = remote net, ch_buf = buf, ch_calls = cs\<rparr>))
       (\<lambda>(r, ch). Some (Ok (r, ch_buf ch, finish_transfer r sock (ch_calls ch)))))"

definition transfer :: "spool_net \<Rightarrow> bytes \<Rightarrow> smtpmsg \<Rightarrow> bool \<Rightarrow> bytes list \<Rightarrow> bytes option \<Rightarrow> bytes \<Rightarrow>
    (delivery \<times> bytes \<times> net_call list) run" where
  "transfer net fqdn m relay to dm buf =
     (if relay then Option.bind (connect_loop True net 0 [] (-1) []) (converse net fqdn m to buf)
      else case dm of
        None \<Rightarrow> Some (Crash NullPointer)
      | Some d \<Rightarrow>
          bindr (Some (mx_query buf d)) (\<lambda>(buf, n).
            let cs = [NSend (dns_sock net) (take n buf)] in
            case dns_reply net of
              None \<Rightarrow> Some (Ok (NetworkError, buf, finish_transfer NetworkError (dns_sock net) cs))
            | Some reply \<Rightarrow>
                bindr (mx_targets (blit buf 0 (take 512 reply)) d) (\<lambda>targets.
                  Option.bind (connect_loop False net 0 targets (dns_sock net) (cs @ [NClose (dns_sock net)]))
                    (converse net fqdn m to (hostent_buf net)))))"

section \<open>One message\<close>

lemma collect_rest_length: "collect dm rs same rest = Ok (to, left) \<Longrightarrow> length left \<le> length rs + length rest"
  by (induction rs arbitrary: same rest) (fastforce split: option.splits if_splits)+

lemma next_group_smaller: "next_group relay (r # rs) = Ok (to, dm, rest) \<Longrightarrow> length rest < length (r # rs)"
  by (auto simp: bindo_Ok_iff dest: collect_rest_length split: if_splits)

text \<open>The transfers of the message, one after another, each with its own network; the number of the
  transfer counts up.\<close>

function external_delivery :: "(nat \<Rightarrow> spool_net) \<Rightarrow> bytes \<Rightarrow> smtpmsg \<Rightarrow> bool \<Rightarrow> nat \<Rightarrow> bytes list \<Rightarrow> bytes \<Rightarrow>
    (delivery \<times> net_call list) list \<Rightarrow> (bytes \<times> (delivery \<times> net_call list) list) run" where
  "external_delivery nets fqdn m relay g [] buf log = Some (Ok (buf, log))"
| "external_delivery nets fqdn m relay g (r # rs) buf log =
     (case next_group relay (r # rs) of
        Crash c \<Rightarrow> Some (Crash c)
      | Ok (to, dm, rest) \<Rightarrow>
          (case transfer (nets g) fqdn m relay to dm buf of
             None \<Rightarrow> None
           | Some (Crash c) \<Rightarrow> Some (Crash c)
           | Some (Ok (res, buf, cs)) \<Rightarrow> external_delivery nets fqdn m relay (Suc g) rest buf (log @ [(res, cs)])))"
  by pat_completeness auto
termination
  by (relation "measure (\<lambda>(nets, fqdn, m, relay, g, crcpt, buf, log). length crcpt)")
    (auto dest: next_group_smaller simp del: next_group.simps)

declare external_delivery.simps(2) [simp del]

record spooler =
  AVEnable :: bool
  names_made :: nat
  netbuf :: bytes
  deliveries :: "(delivery \<times> net_call list) list"

text \<open>The scan: the message goes on, or it is linked to the infected mail and given up.\<close>

definition infected :: bytes where "infected = bytes_of ''infected''"

definition scan_message :: "spool_env \<Rightarrow> smtpmsg \<Rightarrow> spooler \<Rightarrow> mail_store \<Rightarrow> bool \<times> spooler \<times> mail_store" where
  "scan_message e m s st =
     (if \<not> AVEnable s then (True, s, st)
      else case scan_file e (sm_file m) of
          ScanFailed \<Rightarrow> (True, s\<lparr>AVEnable := False\<rparr>, st)
        | QAV_VIRUS \<Rightarrow> (False, s\<lparr>names_made := Suc (names_made s)\<rparr>,
            link_file (sm_file m) infected (take (MAX_NAME e - 1) (file_name e infected (names_made s))) st)
        | _ \<Rightarrow> (True, s, st))"

definition spooler_round :: "spool_env \<Rightarrow> (nat \<Rightarrow> spool_net) \<Rightarrow> smtpmsg \<Rightarrow> spooler \<Rightarrow> mail_store \<Rightarrow> (spooler \<times> mail_store) run" where
  "spooler_round e nets m s st =
     (case scan_message e m s st of
        (False, s, st) \<Rightarrow> Some (Ok (s, st))
      | (True, s, st) \<Rightarrow>
          bindr (local_delivery e (sm_file m) (sm_to m) [] (names_made s) st) (\<lambda>(crcpt, k, st).
          bindr (external_delivery nets (server_fqdn st) m (UseSMTPRelay e) 0 crcpt (netbuf s) []) (\<lambda>(buf, log).
            Some (Ok (s\<lparr>names_made := k, netbuf := buf, deliveries := deliveries s @ log\<rparr>, st)))))"

end
