(* ===== verification/MailSessions.thy ===== *)
theory MailSessions
  imports MailPop
begin

text \<open>
  All POP3 sessions together, one command of one thread at a time: who holds which mailbox, and
  which files a session can remove.
\<close>

section \<open>The sessions\<close>

record pop_system =
  store :: mail_store
  sessions :: "nat \<Rightarrow> pop_conn option"

datatype pop_event =
    Connect nat nat bytes segments
  | Command nat

definition pop_step :: "pop_system outcome \<Rightarrow> pop_event \<Rightarrow> pop_system outcome" where
  "pop_step so e = bindo so (\<lambda>s. case e of
     Connect t now buf ss \<Rightarrow> bindo (pop_start now buf ss (store s)) (\<lambda>c. Ok (s\<lparr>sessions := (sessions s)(t \<mapsto> c)\<rparr>))
   | Command t \<Rightarrow> (case sessions s t of
         None \<Rightarrow> Ok s
       | Some c \<Rightarrow> bindo (pop_command t (store s) c) (\<lambda>(fin, c, st).
           Ok \<lparr>store = st, sessions = (sessions s)(t := if fin then None else Some c)\<rparr>)))"

text \<open>A thread accepts a connection when it has none, with a buffer of the configured size.\<close>

definition pop_event_ok :: "pop_system outcome \<Rightarrow> pop_event \<Rightarrow> bool" where
  "pop_event_ok so e = (case so of Crash _ \<Rightarrow> True | Ok s \<Rightarrow> (case e of
     Connect t now buf ss \<Rightarrow> sessions s t = None \<and> length buf = alc_buf_size (store s) | Command t \<Rightarrow> True))"

section \<open>The invariant\<close>

definition owned :: "mail_store \<Rightarrow> nat \<Rightarrow> nat set" where
  "owned st t = {i. holder st i = Some t}"

definition reads_mailbox :: "mail_store \<Rightarrow> nat \<Rightarrow> pop_conn \<Rightarrow> bool" where
  "reads_mailbox st t c \<longleftrightarrow> (\<exists>i u. mbox c = Some i \<and> p_user c = Some u \<and> i < length (MBX st) \<and>
     stricmp_eq (mb_user (MBX st ! i)) u \<and> owned st t = {i} \<and> (\<forall>n \<in> set (map m_name (msgs c)). entry_of u n))"

definition pop_ok :: "mail_store \<Rightarrow> nat \<Rightarrow> pop_conn \<Rightarrow> bool" where
  "pop_ok st t c \<longleftrightarrow> length (buffer c) = alc_buf_size st \<and>
     (if pstate c = MBX_TRAN then reads_mailbox st t c else msgs c = [] \<and> owned st t = {})"

fun thread_ok :: "mail_store \<Rightarrow> nat \<Rightarrow> pop_conn option \<Rightarrow> bool" where
  "thread_ok st t None \<longleftrightarrow> owned st t = {}"
| "thread_ok st t (Some c) \<longleftrightarrow> pop_ok st t c"

definition pop_inv :: "pop_system \<Rightarrow> bool" where
  "pop_inv s \<longleftrightarrow> (\<forall>t. thread_ok (store s) t (sessions s t))"

text \<open>What a thread leaves alone in the store, and in its own session.\<close>

definition frame :: "nat \<Rightarrow> mail_store \<Rightarrow> mail_store \<Rightarrow> bool" where
  "frame t st st' \<longleftrightarrow> MBX st' = MBX st \<and> alc_buf_size st' = alc_buf_size st \<and> (\<forall>t'. t' \<noteq> t \<longrightarrow> owned st' t' = owned st t')"

definition same_session :: "pop_conn \<Rightarrow> pop_conn \<Rightarrow> bool" where
  "same_session c c' \<longleftrightarrow> pstate c' = pstate c \<and> p_user c' = p_user c \<and> mbox c' = mbox c \<and>
     length (buffer c') = length (buffer c) \<and> map m_name (msgs c') = map m_name (msgs c)"

lemma frame_refl [simp]: "frame t st st"
  by (simp add: frame_def)

lemma frame_pop_ok: "frame t st st' \<Longrightarrow> t' \<noteq> t \<Longrightarrow> pop_ok st t' c \<Longrightarrow> pop_ok st' t' c"
  by (auto simp: frame_def pop_ok_def reads_mailbox_def)

lemma same_session_ok: "same_session c c' \<Longrightarrow> pop_ok st t c \<Longrightarrow> pop_ok st t c'"
  by (auto simp: same_session_def pop_ok_def reads_mailbox_def simp del: set_map)

lemma same_session_trans: "same_session a b \<Longrightarrow> same_session b c \<Longrightarrow> same_session a c"
  by (simp add: same_session_def)

lemma same_session_say [simp]: "same_session c (say s c') \<longleftrightarrow> same_session c c'"
  by (simp add: same_session_def say_def)

lemma same_session_refl [simp]: "same_session c c"
  by (simp add: same_session_def)

lemma same_session_buffer [simp]: "length b = length (buffer c) \<Longrightarrow> same_session c (c\<lparr>buffer := b\<rparr>)"
  by (simp add: same_session_def)

lemma sprintf_at_length: "sprintf_at buf off s = Ok b \<Longrightarrow> length b = length buf"
  by (auto simp: sprintf_at_def length_blit split: if_splits)

lemma read_line_length: "read_line n i buf ss = Ok (r, b, ss') \<Longrightarrow> length b = length buf"
proof (induction n i buf ss rule: read_line.induct)
  case (1 n i buf ss)
  obtain d s1 where r: "recv (n - i) ss = (d, s1)" by (cases "recv (n - i) ss") auto
  show ?case
  proof (cases d)
    case None
    with 1(2) r show ?thesis by (subst (asm) read_line.simps) simp
  next
    case (Some x)
    have fit: "\<not> length buf < i + length x" using 1(2) r Some by (subst (asm) read_line.simps) (auto split: if_splits)
    show ?thesis
    proof (cases "length (takeWhile (\<lambda>c. c \<noteq> 13) x) < length x")
      case True
      then show ?thesis using 1(2) r Some fit
        by (subst (asm) read_line.simps) (auto simp: Let_def length_blit)
    next
      case False
      then show ?thesis using 1(1) [OF r [symmetric] Some fit refl refl False] 1(2) r Some fit
        by (subst (asm) read_line.simps) (auto simp: Let_def length_blit)
    qed
  qed
qed

section \<open>The commands\<close>

lemma list_lines_length: "list_lines i ms buf len = Ok (b, n) \<Longrightarrow> length b = length buf"
  by (induction ms arbitrary: i buf len) (auto simp: bindo_Ok_iff dest: sprintf_at_length split: if_splits)

lemma send_body_same: "length (buffer c) = n \<Longrightarrow> same_session c (send_body n d c)"
proof (induction n d c rule: send_body.induct)
  case (1 n d c)
  show ?case
  proof (cases "n = 0 \<or> d = []")
    case False
    let ?c = "say (take n d) (c\<lparr>buffer := blit (buffer c) 0 (take n d)\<rparr>)"
    have l: "length (buffer ?c) = n" using 1(2) by (simp add: say_def length_blit)
    have "same_session c ?c" using 1(2) by (simp add: length_blit)
    from same_session_trans [OF this 1(1) [OF False l]] False show ?thesis by (subst send_body.simps) simp
  qed (subst send_body.simps, simp)
qed

lemma commands_same:
  "cmd_STAT c = Ok c' \<Longrightarrow> same_session c c'"
  "cmd_LIST c = Ok c' \<Longrightarrow> same_session c c'"
  "same_session c (cmd_DELE c)" "same_session c (cmd_RSET c)"
  "length (buffer c) = alc_buf_size st \<Longrightarrow> same_session c (cmd_RETR st c)"
proof -
  show "cmd_STAT c = Ok c' \<Longrightarrow> same_session c c'" by (auto simp: cmd_STAT_def Let_def bindo_Ok_iff dest: sprintf_at_length split: if_splits)
  show "cmd_LIST c = Ok c' \<Longrightarrow> same_session c c'"
    by (auto simp: cmd_LIST_def Let_def bindo_Ok_iff codec_simps dest!: list_lines_length sprintf_at_length split: if_splits option.splits)
  show "same_session c (cmd_DELE c)"
    by (auto simp: cmd_DELE_def same_session_def say_def find_msg_def Let_def map_update list_update_same_conv
        split: option.splits if_splits)
  show "same_session c (cmd_RSET c)" by (auto simp: cmd_RSET_def same_session_def say_def)
  show "length (buffer c) = alc_buf_size st \<Longrightarrow> same_session c (cmd_RETR st c)"
    using send_body_same [of "say POP3_POS c" "alc_buf_size st"]
    by (auto simp: cmd_RETR_def say_def same_session_def split: option.splits node.splits)
qed

lemma find_mailbox_correct:
  "find_mailbox mbs u n = Some i \<Longrightarrow> n \<le> i \<and> i - n < length mbs \<and> stricmp_eq (mb_user (mbs ! (i - n))) u"
proof (induction mbs arbitrary: n)
  case (Cons mb mbs)
  show ?case
  proof (cases "stricmp_eq (mb_user mb) u")
    case False
    with Cons have a: "Suc n \<le> i \<and> i - Suc n < length mbs \<and> stricmp_eq (mb_user (mbs ! (i - Suc n))) u" by auto
    have "i - n = Suc (i - Suc n)" using conjunct1 [OF a] by arith
    with a show ?thesis by simp
  qed (use Cons in auto)
qed simp

lemma build_list_names:
  "build_list es ms buf = Ok (ms', buf') \<Longrightarrow>
   length buf' = length buf \<and> (\<forall>m \<in> set ms'. m \<in> set ms \<or> m_name m \<in> fst ` set es)"
proof (induction es ms buf rule: build_list.induct)
  case (2 p nd es ms buf)
  from 2(2) obtain b where b: "sprintf_at buf 0 p = Ok b"
    and r: "build_list es (case nd of Regular d \<Rightarrow> \<lparr>m_del = False, m_size = word_of_nat (length d), m_name = p\<rparr> # ms | OtherNode \<Rightarrow> ms) b = Ok (ms', buf')"
    by (auto simp: bindo_Ok_iff)
  from 2(1) [OF b r] sprintf_at_length [OF b] show ?case by (auto split: node.splits)
qed simp

lemma POPBuildSession_same:
  assumes "POPBuildSession st c = Ok c'" "msgs c = []"
  shows "pstate c' = pstate c \<and> mbox c' = mbox c \<and> length (buffer c') = length (buffer c) \<and>
    (\<exists>u. p_user c = Some u \<and> p_user c' = Some u \<and> (\<forall>n \<in> set (map m_name (msgs c')). entry_of u n))"
  using assms by (fastforce simp: POPBuildSession_def bindo_Ok_iff dest: build_list_names split: option.splits if_splits)

lemma open_mailbox_ok:
  assumes "open_mailbox t i st c = Ok (c', st')" "mbox c = Some i" "p_user c = Some u" "i < length (MBX st)"
    and "stricmp_eq (mb_user (MBX st ! i)) u" "msgs c = []" "owned st t = {}" "pstate c \<noteq> MBX_TRAN" "length (buffer c) = alc_buf_size st"
  shows "frame t st st' \<and> pop_ok st' t (close_auth c')"
proof (cases "trylock t i st")
  case None
  then show ?thesis using assms by (auto simp: open_mailbox_def close_auth_def pop_ok_def say_def)
next
  case (Some st1)
  then have st1: "st1 = st\<lparr>holder := (holder st)(i := Some t)\<rparr>" and free: "holder st i = None" by (auto simp: trylock_def split: if_splits)
  obtain c1 where c1: "POPBuildSession st1 (c\<lparr>pstate := MBX_TRAN\<rparr>) = Ok c1" "c' = say POP3_POS c1" "st' = st1"
    using assms(1) Some by (auto simp: open_mailbox_def bindo_Ok_iff)
  from POPBuildSession_same [OF c1(1)] assms(2,3,6) have b: "pstate c1 = MBX_TRAN" "mbox c1 = Some i" "p_user c1 = Some u"
    "length (buffer c1) = length (buffer c)" "\<forall>n \<in> set (map m_name (msgs c1)). entry_of u n" by auto
  have o: "owned st1 t = {i}" using assms(7) st1 by (auto simp: owned_def)
  have fr: "frame t st st1" using free unfolding st1 frame_def owned_def by auto
  have "pop_ok st1 t c1" using b o assms(4,5,9) st1 by (simp add: pop_ok_def reads_mailbox_def)
  then have "pop_ok st1 t (close_auth c')" using b(1) c1(2) by (simp add: close_auth_def pop_ok_def reads_mailbox_def say_def)
  with fr c1(3) show ?thesis by simp
qed

lemma fail_auth_ok:
  "msgs c = [] \<Longrightarrow> owned st t = {} \<Longrightarrow> pstate c \<noteq> MBX_TRAN \<Longrightarrow> length (buffer c) = alc_buf_size st \<Longrightarrow>
   frame t st st \<and> pop_ok st t (close_auth c)"
  by (simp add: close_auth_def pop_ok_def say_def)

lemma say_ok [simp]: "pop_ok st t (say s c) \<longleftrightarrow> pop_ok st t c"
  by (simp add: pop_ok_def reads_mailbox_def say_def)

lemma cmd_PASS_ok:
  assumes ok: "pop_ok st t c" and run: "cmd_PASS t result st c = Ok (c', st')"
  shows "frame t st st' \<and> pop_ok st' t c'"
proof (cases "pstate c \<noteq> MBX_AUTH \<or> result < 7")
  case True
  then show ?thesis using ok run by (auto simp: cmd_PASS_def)
next
  case False
  then obtain u where u: "p_user c = Some u" using run by (auto simp: cmd_PASS_def split: option.splits)
  let ?c = "c\<lparr>mbox := find_mailbox (MBX st) u 0\<rparr>"
  have i: "msgs ?c = []" "owned st t = {}" "pstate ?c \<noteq> MBX_TRAN" "length (buffer ?c) = alc_buf_size st" "p_user ?c = Some u"
    using ok False u by (auto simp: pop_ok_def)
  show ?thesis
  proof (cases "find_mailbox (MBX st) u 0")
    case None
    then show ?thesis using run False u fail_auth_ok [OF i(1-4)] by (auto simp: cmd_PASS_def)
  next
    case (Some m)
    from find_mailbox_correct [OF Some] have m: "m < length (MBX st)" "stricmp_eq (mb_user (MBX st ! m)) u" by auto
    show ?thesis
    proof (cases "stricmp_eq (mb_password (MBX st ! m)) (drop 5 (buffer c))")
      case True
      then obtain c1 where "open_mailbox t m st ?c = Ok (c1, st')" "c' = close_auth c1"
        using run False u Some by (auto simp: cmd_PASS_def bindo_Ok_iff)
      with open_mailbox_ok [of t m st ?c c1 st' u] Some m i show ?thesis by simp
    qed (use run False u Some fail_auth_ok [OF i(1-4)] in \<open>auto simp: cmd_PASS_def\<close>)
  qed
qed

lemma cmd_APOP_ok:
  assumes ok: "pop_ok st t c" and run: "cmd_APOP t result st c = Ok (c', st')"
  shows "frame t st st' \<and> pop_ok st' t c'"
proof (cases "pstate c \<noteq> MBX_NONE \<or> result < 40 \<or> 32 \<notin> set (cstr (drop 5 (buffer c)))")
  case True
  then have "c' = say POP3_NEG c \<and> st' = st" using run by (auto simp: cmd_APOP_def Let_def)
  then show ?thesis using ok by simp
next
  case False
  let ?line = "cstr (drop 5 (buffer c))" let ?u = "takeWhile (\<lambda>b. b \<noteq> 32) ?line"
  let ?c = "c\<lparr>buffer := (buffer c)[5 + length ?u := 0], p_user := Some ?u, mbox := find_mailbox (MBX st) ?u 0\<rparr>"
  have i: "msgs ?c = []" "owned st t = {}" "pstate ?c \<noteq> MBX_TRAN" "length (buffer ?c) = alc_buf_size st" "p_user ?c = Some ?u"
    using ok False by (auto simp: pop_ok_def)
  show ?thesis
  proof (cases "find_mailbox (MBX st) ?u 0")
    case None
    then have "c' = close_auth ?c \<and> st' = st" using run False by (simp add: cmd_APOP_def Let_def)
    then show ?thesis using fail_auth_ok [OF i(1-4)] by simp
  next
    case (Some m)
    from find_mailbox_correct [OF Some] have m: "m < length (MBX st)" "stricmp_eq (mb_user (MBX st ! m)) ?u" by auto
    obtain buf myhash c1 where b: "sprintf_at (buffer ?c) 0 (p_greeting c @ mb_password (MBX st ! m)) = Ok buf"
      and r: "(if memicmp_eq 32 (tl (dropWhile (\<lambda>b. b \<noteq> 32) ?line)) myhash then open_mailbox t m st (?c\<lparr>buffer := buf\<rparr>)
               else Ok (?c\<lparr>buffer := buf\<rparr>, st)) = Ok (c1, st')" and c': "c' = close_auth c1"
      using run False Some unfolding cmd_APOP_def Let_def by (auto simp: bindo_Ok_iff)
    let ?d = "?c\<lparr>buffer := buf\<rparr>"
    have d: "msgs ?d = []" "pstate ?d \<noteq> MBX_TRAN" "length (buffer ?d) = alc_buf_size st" "p_user ?d = Some ?u" "mbox ?d = Some m"
      using i Some sprintf_at_length [OF b] by auto
    show ?thesis
    proof (cases "memicmp_eq 32 (tl (dropWhile (\<lambda>b. b \<noteq> 32) ?line)) myhash")
      case True
      with r have "open_mailbox t m st ?d = Ok (c1, st')" by simp
      from open_mailbox_ok [OF this d(5,4) m d(1) i(2) d(2,3)] c' show ?thesis by simp
    next
      case False
      with r have "c1 = ?d" "st' = st" by auto
      with fail_auth_ok [OF d(1) i(2) d(2,3)] c' show ?thesis by simp
    qed
  qed
qed

definition remove_marked :: "msgent list \<Rightarrow> mail_store \<Rightarrow> mail_store" where
  "remove_marked ms st = fold (\<lambda>m. if m_del m then remove_file (m_name m) else id) ms st"

lemma remove_marked_store:
  "MBX (remove_marked ms st) = MBX st \<and> alc_buf_size (remove_marked ms st) = alc_buf_size st \<and>
   holder (remove_marked ms st) = holder st \<and>
   files (remove_marked ms st) = filter (\<lambda>(q, _). \<forall>m \<in> set ms. m_del m \<longrightarrow> q \<noteq> m_name m) (files st)"
  unfolding remove_marked_def
proof (induction ms arbitrary: st)
  case (Cons m ms)
  show ?case using Cons.IH [of "if m_del m then remove_file (m_name m) st else st"]
    by (auto simp: remove_file_def intro!: filter_cong)
qed simp

lemma release_ok:
  assumes "pop_ok st t c"
  shows "frame t st (release t c st) \<and> owned (release t c st) t = {} \<and> files (release t c st) = files st"
proof (cases "pstate c = MBX_TRAN")
  case True
  then obtain i where "mbox c = Some i" "owned st t = {i}" using assms by (auto simp: pop_ok_def reads_mailbox_def)
  then show ?thesis by (auto simp: release_def unlock_def frame_def owned_def)
next
  case False
  then have "owned st t = {}" using assms by (simp add: pop_ok_def)
  then show ?thesis by (auto simp: release_def unlock_def frame_def owned_def split: option.split)
qed

lemma cmd_QUIT_ok:
  assumes "pop_ok st t c" "cmd_QUIT t st c = (c', st')"
  shows "frame t st st' \<and> owned st' t = {} \<and> files st' = filter (\<lambda>(q, _). \<forall>m \<in> set (msgs c). m_del m \<longrightarrow> q \<noteq> m_name m) (files st)"
proof -
  let ?s = "remove_marked (msgs c) st"
  note r = remove_marked_store [of "msgs c" st]
  have o: "owned ?s = owned st" using r by (auto simp: owned_def fun_eq_iff)
  have "pop_ok ?s t c" using assms(1) r o
    by (cases "pstate c = MBX_TRAN") (auto simp: pop_ok_def reads_mailbox_def)
  from release_ok [OF this] r o assms(2) show ?thesis
    by (auto simp: cmd_QUIT_def remove_marked_def frame_def)
qed

lemma auth_files:
  "open_mailbox t i st c = Ok (c', st') \<Longrightarrow> files st' = files st"
  "cmd_PASS t result st c = Ok (c', st') \<Longrightarrow> files st' = files st"
  "cmd_APOP t result st c = Ok (c', st') \<Longrightarrow> files st' = files st"
proof -
  have o: "files st' = files st" if "open_mailbox t i st c = Ok (c', st')" for i c c'
    using that by (auto simp: open_mailbox_def trylock_def bindo_Ok_iff split: option.splits if_splits)
  then show "open_mailbox t i st c = Ok (c', st') \<Longrightarrow> files st' = files st" by blast
  show "cmd_PASS t result st c = Ok (c', st') \<Longrightarrow> files st' = files st"
    by (auto simp: cmd_PASS_def Let_def bindo_Ok_iff dest: o split: option.splits if_splits)
  show "cmd_APOP t result st c = Ok (c', st') \<Longrightarrow> files st' = files st"
    by (auto simp: cmd_APOP_def Let_def bindo_Ok_iff dest: o split: option.splits if_splits)
qed

lemma dispatch_ok:
  assumes ok: "pop_ok st t c" and run: "pop_dispatch t result st c = Ok (fin, c', st')"
  shows "frame t st st' \<and> (if fin then owned st' t = {} else pop_ok st' t c') \<and>
    (files st' = files st \<or> files st' = filter (\<lambda>(q, _). \<forall>m \<in> set (msgs c). m_del m \<longrightarrow> q \<noteq> m_name m) (files st))"
proof -
  have same: ?thesis if "fin = False" "st' = st" "same_session c c'" using that same_session_ok [OF that(3) ok] by simp
  have len: "length (buffer c) = alc_buf_size st" using ok by (simp add: pop_ok_def)
  note run = run [unfolded pop_dispatch_def Let_def]
  show ?thesis
  proof (cases "pop_cmd_of (get32 (buffer c) 0)")
    case APOP
    then have "cmd_APOP t result st c = Ok (c', st')" "\<not> fin" using run by (auto simp: bindo_Ok_iff)
    with cmd_APOP_ok [OF ok] auth_files(3) show ?thesis by auto
  next
    case PASS
    then have "cmd_PASS t result st c = Ok (c', st')" "\<not> fin" using run by (auto simp: bindo_Ok_iff)
    with cmd_PASS_ok [OF ok] auth_files(2) show ?thesis by auto
  next
    case USER
    then have "c' = cmd_USER result c" "\<not> fin" "st' = st" using run by auto
    moreover have "pop_ok st t (cmd_USER result c)"
      using ok by (cases "pstate c \<noteq> MBX_NONE \<or> result < 7") (simp_all add: cmd_USER_def, simp add: pop_ok_def)
    ultimately show ?thesis by simp
  next
    case QUIT
    then obtain "cmd_QUIT t st c = (c', st')" "fin" using run by (cases "cmd_QUIT t st c") auto
    with cmd_QUIT_ok [OF ok] show ?thesis by simp
  next
    case NOOP
    show ?thesis
    proof (cases "pstate c = MBX_TRAN")
      case True
      with NOOP run have "\<not> fin" "c' = say POP3_POS c" "st' = st" by simp_all
      then show ?thesis using ok by simp
    next
      case False
      with NOOP run ok show ?thesis by (simp add: pop_ok_def)
    qed
  next
    case STAT
    then have "cmd_STAT c = Ok c'" "fin = False" "st' = st" using run by (auto simp: bindo_Ok_iff)
    then show ?thesis using commands_same(1) by (intro same)
  next
    case LIST
    then have "cmd_LIST c = Ok c'" "fin = False" "st' = st" using run by (auto simp: bindo_Ok_iff)
    then show ?thesis using commands_same(2) by (intro same)
  next
    case RETR
    then have "c' = cmd_RETR st c" "fin = False" "st' = st" using run by auto
    then show ?thesis using commands_same(5) [OF len] by (intro same) simp_all
  next
    case DELE
    then have "c' = cmd_DELE c" "fin = False" "st' = st" using run by auto
    then show ?thesis using commands_same(3) [of c] by (intro same) simp_all
  next
    case RSET
    then have "c' = cmd_RSET c" "fin = False" "st' = st" using run by auto
    then show ?thesis using commands_same(4) [of c] by (intro same) simp_all
  next
    case POP_OTHER
    then have "c' = say POP3_NEG c" "fin = False" "st' = st" using run by auto
    then show ?thesis using ok by simp
  qed
qed

lemma command_ok:
  assumes ok: "pop_ok st t c" and run: "pop_command t st c = Ok (fin, c', st')"
  shows "frame t st st' \<and> (if fin then owned st' t = {} else pop_ok st' t c') \<and>
    (files st' = files st \<or> files st' = filter (\<lambda>(q, _). \<forall>m \<in> set (msgs c). m_del m \<longrightarrow> q \<noteq> m_name m) (files st))"
proof -
  obtain r b ss where r: "ReadString (alc_buf_size st - 1) (buffer c) (p_input c) = Ok (r, b, ss)"
    using run by (auto simp: pop_command_def bindo_Ok_iff)
  then have l: "length b = length (buffer c)" by (auto simp: ReadString_def dest: read_line_length)
  show ?thesis
  proof (cases r)
    case None
    then show ?thesis using run r release_ok [OF ok] by (auto simp: pop_command_def)
  next
    case (Some result)
    let ?c = "c\<lparr>buffer := upcase4 b, p_input := ss\<rparr>"
    have "same_session c ?c" using l by (simp add: same_session_def upcase4_def)
    then have "pop_ok st t ?c" by (rule same_session_ok [OF _ ok])
    from dispatch_ok [OF this] run r Some show ?thesis by (simp add: pop_command_def)
  qed
qed

section \<open>Runs\<close>

definition pop_outcome_ok :: "pop_system outcome \<Rightarrow> bool" where
  "pop_outcome_ok so \<longleftrightarrow> (\<forall>s. so = Ok s \<longrightarrow> pop_inv s)"

lemma pop_start_ok:
  assumes "pop_start now buf ss st = Ok c" "length buf = alc_buf_size st" "owned st t = {}"
  shows "pop_ok st t c"
  using assms by (auto simp: pop_start_def Let_def bindo_Ok_iff pop_ok_def say_def dest!: sprintf_at_length)

lemma connect_inv:
  assumes "pop_inv s" "sessions s t = None" "length buf = alc_buf_size (store s)" "pop_start now buf ss (store s) = Ok c"
  shows "pop_inv (s\<lparr>sessions := (sessions s)(t \<mapsto> c)\<rparr>)"
proof -
  have "owned (store s) t = {}" using assms(1,2) by (metis pop_inv_def thread_ok.simps)
  with assms pop_start_ok [OF assms(4,3)] show ?thesis by (auto simp: pop_inv_def)
qed

lemma command_inv:
  assumes inv: "pop_inv s" and c: "sessions s t = Some c" and run: "pop_command t (store s) c = Ok (fin, c', st')"
  shows "pop_inv \<lparr>store = st', sessions = (sessions s)(t := if fin then None else Some c')\<rparr>"
proof -
  have ok: "thread_ok (store s) t' (sessions s t')" for t'
    using inv by (simp add: pop_inv_def)
  from ok [of t] c have "pop_ok (store s) t c" by simp
  from command_ok [OF this run] have fr: "frame t (store s) st'" and own: "if fin then owned st' t = {} else pop_ok st' t c'"
    by simp_all
  have "thread_ok st' t' (sessions s t')" if "t' \<noteq> t" for t'
    using ok [of t'] frame_pop_ok [OF fr that] fr that by (cases "sessions s t'") (auto simp: frame_def)
  with own show ?thesis by (auto simp: pop_inv_def)
qed

interpretation pop: machine pop_step pop_event_ok pop_outcome_ok
proof
  fix so e assume inv: "pop_outcome_ok so" and ev: "pop_event_ok so e"
  show "pop_outcome_ok (pop_step so e)"
  proof (cases so)
    case (Ok s)
    then have s: "pop_inv s" using inv by (simp add: pop_outcome_ok_def)
    show ?thesis
    proof (cases e)
      case (Connect t now buf ss)
      with Ok ev s connect_inv show ?thesis by (auto simp: pop_outcome_ok_def pop_step_def pop_event_ok_def bindo_Ok_iff)
    next
      case (Command t)
      have "pop_inv s'" if h: "pop_step so e = Ok s'" for s'
      proof (cases "sessions s t")
        case None
        then show ?thesis using h Ok s Command by (simp add: pop_step_def)
      next
        case (Some c)
        then obtain fin c' st' where "pop_command t (store s) c = Ok (fin, c', st')"
          "s' = \<lparr>store = st', sessions = (sessions s)(t := if fin then None else Some c')\<rparr>"
          using h Ok Command by (auto simp: pop_step_def bindo_Ok_iff)
        with command_inv [OF s Some] show ?thesis by simp
      qed
      then show ?thesis by (simp add: pop_outcome_ok_def)
    qed
  qed (simp add: pop_outcome_ok_def pop_step_def)
qed

definition mail_start :: "mail_store \<Rightarrow> pop_system" where
  "mail_start st = \<lparr>store = st\<lparr>holder := (\<lambda>_. None)\<rparr>, sessions = (\<lambda>_. None)\<rparr>"

lemma start_outcome_ok [simp]: "pop_outcome_ok (Ok (mail_start st))"
  by (simp add: pop_outcome_ok_def pop_inv_def mail_start_def owned_def)

text \<open>C18: In every interleaving of POP3 sessions, a mailbox is held by a thread exactly when this
  thread has an open session for it; so two sessions never have the same mailbox open, none is left
  locked when its session ends, and the session's messages are in the directory that carries the name
  of the mailbox, up to case.\<close>

theorem mailbox_held_by_its_session:
  assumes "pop.run (Ok (mail_start st)) evs = Ok s" "pop.run_ok (Ok (mail_start st)) evs"
  shows "(holder (store s) i = Some t \<longleftrightarrow> (\<exists>c. sessions s t = Some c \<and> pstate c = MBX_TRAN \<and> mbox c = Some i)) \<and>
    (\<forall>c. sessions s t = Some c \<longrightarrow> pstate c = MBX_TRAN \<longrightarrow>
       (\<exists>u. p_user c = Some u \<and> stricmp_eq (mb_user (MBX (store s) ! the (mbox c))) u \<and> (\<forall>m \<in> set (msgs c). entry_of u (m_name m))))"
proof -
  from pop.run_inv [OF start_outcome_ok assms(2)] assms(1) have "pop_inv s" by (simp add: pop_outcome_ok_def)
  then have t: "thread_ok (store s) t (sessions s t)" by (simp add: pop_inv_def)
  show ?thesis
  proof (cases "\<exists>c. sessions s t = Some c \<and> pstate c = MBX_TRAN")
    case True
    then obtain c j u where "sessions s t = Some c" "pstate c = MBX_TRAN" "mbox c = Some j" "p_user c = Some u"
      "stricmp_eq (mb_user (MBX (store s) ! j)) u" "owned (store s) t = {j}" "\<forall>n \<in> set (map m_name (msgs c)). entry_of u n"
      using t by (auto simp: pop_ok_def reads_mailbox_def)
    then show ?thesis by (auto simp: owned_def)
  next
    case False
    then have "owned (store s) t = {}" using t by (cases "sessions s t") (auto simp: pop_ok_def)
    with False show ?thesis by (auto simp: owned_def)
  qed
qed

text \<open>C19: In every interleaving, a file that a command removes was a message, marked as deleted, of
  the session whose thread holds the mailbox, and lies in the directory of this mailbox; no command
  adds or changes a file.\<close>

theorem only_the_reader_removes_mail:
  assumes "pop.run (Ok (mail_start st)) evs = Ok s" "pop.run_ok (Ok (mail_start st)) evs"
    and "pop_step (Ok s) (Command t) = Ok s'"
  shows "set (files (store s')) \<subseteq> set (files (store s)) \<and>
    (\<forall>p nd. (p, nd) \<in> set (files (store s)) \<longrightarrow> (p, nd) \<notin> set (files (store s')) \<longrightarrow>
       (\<exists>c i u m. sessions s t = Some c \<and> pstate c = MBX_TRAN \<and> holder (store s) i = Some t \<and> p_user c = Some u \<and>
          stricmp_eq (mb_user (MBX (store s) ! i)) u \<and> m \<in> set (msgs c) \<and> m_del m \<and> m_name m = p \<and> entry_of u p))"
proof (cases "sessions s t")
  case None
  then show ?thesis using assms(3) by (simp add: pop_step_def)
next
  case (Some c)
  from pop.run_inv [OF start_outcome_ok assms(2)] assms(1) have "pop_inv s" by (simp add: pop_outcome_ok_def)
  with Some have ok: "pop_ok (store s) t c" by (metis pop_inv_def thread_ok.simps)
  obtain fin c' st' where run: "pop_command t (store s) c = Ok (fin, c', st')" "store s' = st'"
    using assms(3) Some by (auto simp: pop_step_def bindo_Ok_iff)
  from command_ok [OF ok run(1)] have f: "files st' = files (store s) \<or>
      files st' = filter (\<lambda>(q, _). \<forall>m \<in> set (msgs c). m_del m \<longrightarrow> q \<noteq> m_name m) (files (store s))" by blast
  have "\<exists>c i u m. sessions s t = Some c \<and> pstate c = MBX_TRAN \<and> holder (store s) i = Some t \<and> p_user c = Some u \<and>
      stricmp_eq (mb_user (MBX (store s) ! i)) u \<and> m \<in> set (msgs c) \<and> m_del m \<and> m_name m = p \<and> entry_of u p"
    if "(p, nd) \<in> set (files (store s))" "(p, nd) \<notin> set (files st')" for p nd
  proof -
    from f that obtain m where m: "m \<in> set (msgs c)" "m_del m" "m_name m = p" by auto
    then have "pstate c = MBX_TRAN" using ok by (auto simp: pop_ok_def split: if_splits)
    with ok obtain i u where "owned (store s) t = {i}" "p_user c = Some u" "stricmp_eq (mb_user (MBX (store s) ! i)) u"
      "entry_of u p" using m by (auto simp: pop_ok_def reads_mailbox_def)
    with m Some \<open>pstate c = MBX_TRAN\<close> show ?thesis unfolding owned_def by blast
  qed
  moreover have "set (files st') \<subseteq> set (files (store s))" using f by auto
  ultimately show ?thesis unfolding run(2) by blast
qed

section \<open>A session\<close>

text \<open>\<open>USER ab\<close>, \<open>PASS xy\<close>, \<open>DELE 1\<close>, \<open>QUIT\<close>.\<close>

definition demo_lines :: segments where
  "demo_lines = [[85, 83, 69, 82, 32, 97, 98, 13, 10], [80, 65, 83, 83, 32, 120, 121, 13, 10], [68, 69, 76, 69, 32, 49, 13, 10], [81, 85, 73, 84, 13, 10]]"

definition demo_store :: mail_store where
  "demo_store = \<lparr>MBX = [\<lparr>mb_user = [65, 98], mb_password = [120, 121]\<rparr>], holder = (\<lambda>_. None),
     files = [([97, 98, 47, 109], Regular [104, 105])], dirs = [[97, 98]], server_fqdn = [104], alc_buf_size = 24, md5_room = 40\<rparr>"

definition held_store :: mail_store where
  "held_store = demo_store\<lparr>holder := [0 \<mapsto> 2]\<rparr>"

definition demo_conn0 :: pop_conn where
  "demo_conn0 = \<lparr>pstate = MBX_NONE, p_user = None, p_greeting = [60, 48, 64, 104, 62], msgs = [], mbox = None, buffer = [43, 79, 75, 32, 60, 48, 64, 104, 62, 13, 10, 0, 0, 0, 0, 0, 0, 0, 0, 0, 0, 0, 0, 0],
     p_input = [[85, 83, 69, 82, 32, 97, 98, 13, 10], [80, 65, 83, 83, 32, 120, 121, 13, 10], [68, 69, 76, 69, 32, 49, 13, 10], [81, 85, 73, 84, 13, 10]], p_output = [43, 79, 75, 32, 60, 48, 64, 104, 62, 13, 10]\<rparr>"

definition demo_conn1 :: pop_conn where
  "demo_conn1 = \<lparr>pstate = MBX_AUTH, p_user = Some [97, 98], p_greeting = [60, 48, 64, 104, 62], msgs = [], mbox = None, buffer = [85, 83, 69, 82, 32, 97, 98, 0, 10, 13, 10, 0, 0, 0, 0, 0, 0, 0, 0, 0, 0, 0, 0, 0],
     p_input = [[80, 65, 83, 83, 32, 120, 121, 13, 10], [68, 69, 76, 69, 32, 49, 13, 10], [81, 85, 73, 84, 13, 10]], p_output = [43, 79, 75, 32, 60, 48, 64, 104, 62, 13, 10, 43, 79, 75, 13, 10]\<rparr>"

definition demo_conn2 :: pop_conn where
  "demo_conn2 = \<lparr>pstate = MBX_TRAN, p_user = Some [97, 98], p_greeting = [60, 48, 64, 104, 62], msgs = [\<lparr>m_del = False, m_size = 2, m_name = [97, 98, 47, 109]\<rparr>], mbox = Some 0, buffer = [97, 98, 47, 109, 0, 120, 121, 0, 10, 13, 10, 0, 0, 0, 0, 0, 0, 0, 0, 0, 0, 0, 0, 0],
     p_input = [[68, 69, 76, 69, 32, 49, 13, 10], [81, 85, 73, 84, 13, 10]], p_output = [43, 79, 75, 32, 60, 48, 64, 104, 62, 13, 10, 43, 79, 75, 13, 10, 43, 79, 75, 13, 10]\<rparr>"

definition demo_conn3 :: pop_conn where
  "demo_conn3 = \<lparr>pstate = MBX_TRAN, p_user = Some [97, 98], p_greeting = [60, 48, 64, 104, 62], msgs = [\<lparr>m_del = True, m_size = 2, m_name = [97, 98, 47, 109]\<rparr>], mbox = Some 0, buffer = [68, 69, 76, 69, 32, 49, 0, 10, 10, 13, 10, 0, 0, 0, 0, 0, 0, 0, 0, 0, 0, 0, 0, 0],
     p_input = [[81, 85, 73, 84, 13, 10]], p_output = [43, 79, 75, 32, 60, 48, 64, 104, 62, 13, 10, 43, 79, 75, 13, 10, 43, 79, 75, 13, 10, 43, 79, 75, 13, 10]\<rparr>"

lemmas demo_defs = demo_store_def held_store_def demo_conn0_def demo_conn1_def demo_conn2_def demo_conn3_def

lemma dec_text_0: "dec_text 0 = [48]"
  by (subst dec_text.simps) simp

lemma demo_connect: "pop_start 0 [0, 0, 0, 0, 0, 0, 0, 0, 0, 0, 0, 0, 0, 0, 0, 0, 0, 0, 0, 0, 0, 0, 0, 0] demo_lines demo_store = Ok demo_conn0"
  by (simp add: pop_start_def demo_lines_def demo_defs Let_def sprintf_at_def bytes_of_def dec_text_0 blit_def say_def)

lemma demo_user: "pop_command 2 demo_store demo_conn0 = Ok (False, demo_conn1, demo_store)"
  by (simp add: pop_command_def ReadString_def demo_defs, subst read_line.simps)
    (simp add: upcase4_def c_toupper_def blit_def pop_dispatch_def pop_cmd_of_def get32_def Let_def cmd_USER_def cstr_def say_def POP3_POS_def bytes_of_def)

lemma demo_pass: "pop_command 2 demo_store demo_conn1 = Ok (False, demo_conn2, held_store)"
  by (simp add: pop_command_def ReadString_def demo_defs, subst read_line.simps)
    (simp add: upcase4_def c_toupper_def blit_def pop_dispatch_def pop_cmd_of_def get32_def Let_def cmd_PASS_def cstr_def say_def POP3_POS_def
      bytes_of_def stricmp_eq_def open_mailbox_def trylock_def POPBuildSession_def entry_of_def sprintf_at_def close_auth_def)

lemma demo_dele: "pop_command 2 held_store demo_conn2 = Ok (False, demo_conn3, held_store)"
  by (simp add: pop_command_def ReadString_def demo_defs, subst read_line.simps)
    (simp add: upcase4_def c_toupper_def blit_def pop_dispatch_def pop_cmd_of_def get32_def Let_def cmd_DELE_def cstr_def say_def POP3_POS_def
      bytes_of_def find_msg_def msg_number_def atoi_bytes_def digits_value_def is_digit_def)

lemma demo_quit:
  "\<exists>c. pop_command 2 held_store demo_conn3 = Ok (True, c, demo_store\<lparr>files := []\<rparr>)"
  by (simp add: pop_command_def ReadString_def demo_defs, subst read_line.simps)
    (simp add: upcase4_def c_toupper_def blit_def pop_dispatch_def pop_cmd_of_def get32_def Let_def cmd_QUIT_def remove_file_def
      release_def unlock_def fun_eq_iff)

definition demo_events :: "pop_event list" where
  "demo_events = [Connect 2 0 [0, 0, 0, 0, 0, 0, 0, 0, 0, 0, 0, 0, 0, 0, 0, 0, 0, 0, 0, 0, 0, 0, 0, 0] demo_lines, Command 2, Command 2]"

lemma demo_open:
  "pop.run (Ok (mail_start demo_store)) demo_events = Ok \<lparr>store = held_store, sessions = [2 \<mapsto> demo_conn2]\<rparr>"
  "pop.run_ok (Ok (mail_start demo_store)) demo_events"
  "pop.run (Ok (mail_start demo_store)) (demo_events @ [Command 2]) = Ok \<lparr>store = held_store, sessions = [2 \<mapsto> demo_conn3]\<rparr>"
  "pop.run_ok (Ok (mail_start demo_store)) (demo_events @ [Command 2])"
proof -
  have s: "mail_start demo_store = \<lparr>store = demo_store, sessions = Map.empty\<rparr>"
    by (simp add: mail_start_def demo_store_def)
  have len: "length [0, 0, 0, 0, 0, 0, 0, 0, 0, 0, 0, 0, 0, 0, 0, 0, 0, 0, 0, 0, 0, 0, 0, 0 :: byte] = alc_buf_size demo_store"
    by (simp add: demo_store_def)
  note run = pop_step_def demo_connect demo_user demo_pass demo_dele pop_event_ok_def demo_events_def s len
  show "pop.run (Ok (mail_start demo_store)) demo_events = Ok \<lparr>store = held_store, sessions = [2 \<mapsto> demo_conn2]\<rparr>"
    "pop.run (Ok (mail_start demo_store)) (demo_events @ [Command 2]) = Ok \<lparr>store = held_store, sessions = [2 \<mapsto> demo_conn3]\<rparr>"
    by (simp_all add: run del: list.size)
  show "pop.run_ok (Ok (mail_start demo_store)) demo_events" "pop.run_ok (Ok (mail_start demo_store)) (demo_events @ [Command 2])"
    by (simp_all add: run del: list.size)
qed

theorem mailbox_held_by_its_session_witness:
  "\<exists>s c. pop.run (Ok (mail_start demo_store)) demo_events = Ok s \<and> holder (store s) 0 = Some 2 \<and>
     sessions s 2 = Some c \<and> pstate c = MBX_TRAN \<and> mbox c = Some 0"
proof -
  have "holder held_store 0 = Some 2" by (simp add: held_store_def)
  with mailbox_held_by_its_session [OF demo_open(1,2), of 0 2] demo_open(1) show ?thesis by simp
qed

theorem only_the_reader_removes_mail_witness:
  "\<exists>s'. pop_step (Ok \<lparr>store = held_store, sessions = [2 \<mapsto> demo_conn3]\<rparr>) (Command 2) = Ok s' \<and>
     files held_store \<noteq> [] \<and> files (store s') = [] \<and> entry_of [97, 98] [97, 98, 47, 109]"
proof -
  obtain c where "pop_command 2 held_store demo_conn3 = Ok (True, c, demo_store\<lparr>files := []\<rparr>)" using demo_quit by blast
  then have q: "pop_step (Ok \<lparr>store = held_store, sessions = [2 \<mapsto> demo_conn3]\<rparr>) (Command 2) =
      Ok \<lparr>store = demo_store\<lparr>files := []\<rparr>, sessions = Map.empty\<rparr>"
    by (simp add: pop_step_def)
  have f: "([97, 98, 47, 109], Regular [104, 105]) \<in> set (files held_store)" by (simp add: held_store_def demo_store_def)
  from only_the_reader_removes_mail [OF demo_open(3,4) q] f
  have "entry_of [97, 98] [97, 98, 47, 109]" by (auto simp: demo_conn3_def)
  with q f show ?thesis by auto
qed

end
