(* ===== verification/MailCodec.thy ===== *)
theory MailCodec
  imports MailGeneral
begin

text \<open>
  What the general functions of \<open>QX-mail\<close> compute: Base64 is undone by its decoder, MD5 is the
  function of RFC 1321, and a line is what the segments hold up to the first carriage return.
\<close>

section \<open>Base64\<close>

lemma all_less_64: "(\<forall>n < 64. P n) \<longleftrightarrow> (\<forall>n \<in> set [0..<64]. P (n::nat))"
  by auto

lemma basis_table: "\<forall>n < 64. CHAR64 (basis_64 ! n) = int n \<and> basis_64 ! n \<noteq> 61 \<and> basis_64 ! n \<noteq> 0 \<and> basis_64 ! n \<noteq> 32"
  unfolding all_less_64 by (simp add: upt_rec basis_64_def bytes_of_def CHAR64_def index_64_def)

lemma basis_char:
  assumes "v < 64"
  shows "char_bits (basis v) = v" "CHAR64 (basis v) \<noteq> -1" "basis v \<noteq> 61" "basis v \<noteq> 0" "basis v \<noteq> 32"
proof -
  have n: "unat v < 64" using assms by (simp add: word_less_nat_alt)
  with basis_table have t: "CHAR64 (basis v) = int (unat v)" "basis v \<noteq> 61" "basis v \<noteq> 0" "basis v \<noteq> 32"
    unfolding basis_def by blast+
  then show "char_bits (basis v) = v" "basis v \<noteq> 61" "basis v \<noteq> 0" "basis v \<noteq> 32"
    by (simp_all add: char_bits_def)
  show "CHAR64 (basis v) \<noteq> -1" using t(1) by linarith
qed

lemma byte_eqI:
  fixes v w :: byte
  assumes "bit v 0 = bit w 0" "bit v 1 = bit w 1" "bit v 2 = bit w 2" "bit v 3 = bit w 3"
    and "bit v 4 = bit w 4" "bit v 5 = bit w 5" "bit v 6 = bit w 6" "bit v 7 = bit w 7"
  shows "v = w"
proof (rule bit_word_eqI)
  fix n assume "n < LENGTH(8)"
  then have "n \<in> {0, 1, 2, 3, 4, 5, 6, 7}" by auto
  with assms show "bit v n = bit w n" by blast
qed

lemma byte_bit: "8 \<le> n \<Longrightarrow> \<not> bit (v :: byte) n"
  by (auto dest: bit_imp_le_length)

lemma six_bits:
  fixes a b c :: byte
  shows "drop_bit 2 a < 64" "(push_bit 4 a AND 0x30) OR drop_bit 4 b < 64" "push_bit 4 a AND 0x30 < 64"
    "(push_bit 2 b AND 0x3c) OR drop_bit 6 c < 64" "push_bit 2 b AND 0x3c < 64" "c AND 0x3f < 64"
proof -
  have less: "v < 64" if "\<not> bit v 6" "\<not> bit v 7" for v :: byte
  proof -
    have "take_bit 6 v = v" by (rule byte_eqI) (use that in \<open>simp_all add: bit_take_bit_iff\<close>)
    then have "v = v AND mask 6" by (simp add: take_bit_eq_mask)
    moreover have "v AND mask 6 < 2 ^ 6" by (rule and_mask_less') simp
    ultimately show ?thesis by simp
  qed
  show "drop_bit 2 a < 64" "(push_bit 4 a AND 0x30) OR drop_bit 4 b < 64" "push_bit 4 a AND 0x30 < 64"
    "(push_bit 2 b AND 0x3c) OR drop_bit 6 c < 64" "push_bit 2 b AND 0x3c < 64" "c AND 0x3f < 64"
    by (rule less; simp add: bit_simps byte_bit)+
qed

lemma regroup:
  fixes a b c :: byte
  shows "push_bit 2 (drop_bit 2 a) OR drop_bit 4 ((push_bit 4 a AND 0x30) OR drop_bit 4 b) = a"
    "push_bit 2 (drop_bit 2 a) OR drop_bit 4 (push_bit 4 a AND 0x30) = a"
    "(push_bit 4 ((push_bit 4 a AND 0x30) OR drop_bit 4 b) AND 0xf0) OR drop_bit 2 ((push_bit 2 b AND 0x3c) OR drop_bit 6 c) = b"
    "(push_bit 4 ((push_bit 4 a AND 0x30) OR drop_bit 4 b) AND 0xf0) OR drop_bit 2 (push_bit 2 b AND 0x3c) = b"
    "(push_bit 6 ((push_bit 2 b AND 0x3c) OR drop_bit 6 c) AND 0xc0) OR (c AND 0x3f) = c"
  by (rule byte_eqI; simp add: bit_simps byte_bit)+

lemmas code_simps = six_bits basis_char regroup

lemma decode_encode:
  "decode_groups ((length x + 2) div 3) (encode_groups x @ rest) out = Ok (B64_OK, out @ x)"
proof (induction x arbitrary: out rule: encode_groups.induct)
  case (1 a b c x)
  have "(length (a # b # c # x) + 2) div 3 = Suc ((length x + 2) div 3)" by simp
  with 1 show ?case by (simp add: code_simps Let_def del: drop_bit_and drop_bit_or push_bit_and push_bit_or)
qed (simp_all add: code_simps Let_def del: drop_bit_and drop_bit_or push_bit_and push_bit_or)

lemma length_encode: "length (encode_groups x) = (length x + 2) div 3 * 4"
  by (induction x rule: encode_groups.induct) (simp_all, arith)

lemma encode_head: "x \<noteq> [] \<Longrightarrow> \<exists>c1 c2 u. encode_groups x = c1 # c2 # u \<and> c1 \<noteq> 0 \<and> c2 \<noteq> 32"
  by (cases x rule: encode_groups.cases) (auto simp: code_simps)

text \<open>C16: What \<open>encode64\<close> writes for a text that is not empty, \<open>decode64\<close> reads back, also when the
  length it is given counts up to three characters more, such as the terminator of the line; and the
  code is as long as \<open>encode64\<close> says.\<close>

theorem base64_roundtrip:
  assumes "x \<noteq> []" "length x < 3221225400" "r < 4"
    and "encode64 x outmax = (B64_OK, out, olen)"
  shows "decode64 out (olen + r) = Ok (B64_OK, x) \<and> olen = length (encode_groups x) \<and> length out \<le> outmax"
proof -
  have l: "olen = (length x + 2) div 3 * 4" and o: "out = encode_groups x @ (if olen < outmax then [0] else [])" "olen \<le> outmax"
    using assms by (auto simp: encode64_def Let_def split: if_splits)
  obtain c1 c2 u where h: "encode_groups x = c1 # c2 # u" "c1 \<noteq> 0" "c2 \<noteq> 32" using encode_head [OF assms(1)] by blast
  have d: "(olen + r) div 4 = (length x + 2) div 3" using l assms(3) by simp
  have "decode64 out (olen + r) = decode_groups ((length x + 2) div 3) out []"
    using h o d by (simp add: decode64_def Let_def)
  also have "\<dots> = Ok (B64_OK, x)" unfolding o using decode_encode [of x "[]" "[]"] decode_encode [of x "[0]" "[]"] by simp
  finally show ?thesis using l o by (simp add: length_encode)
qed

theorem base64_roundtrip_witness:
  "decode64 [99, 87, 53, 52, 0] 5 = Ok (B64_OK, [113, 110, 120]) \<and> length (encode_groups [113, 110, 120]) = 4"
proof -
  have e: "encode64 [113, 110, 120] 100 = (B64_OK, [99, 87, 53, 52, 0], 4)"
    by (simp add: encode64_def basis_def basis_64_def bytes_of_def)
  from base64_roundtrip [OF _ _ _ e, of 1] show ?thesis by simp
qed

section \<open>MD5\<close>

text \<open>RFC 1321: the function, the word and the shift of the \<open>i\<close>th step, the table of constants, and
  the padding.\<close>

definition rfc_table :: "u32 list" where
  "rfc_table = [
   0xd76aa478, 0xe8c7b756, 0x242070db, 0xc1bdceee, 0xf57c0faf, 0x4787c62a, 0xa8304613, 0xfd469501,
   0x698098d8, 0x8b44f7af, 0xffff5bb1, 0x895cd7be, 0x6b901122, 0xfd987193, 0xa679438e, 0x49b40821,
   0xf61e2562, 0xc040b340, 0x265e5a51, 0xe9b6c7aa, 0xd62f105d, 0x02441453, 0xd8a1e681, 0xe7d3fbc8,
   0x21e1cde6, 0xc33707d6, 0xf4d50d87, 0x455a14ed, 0xa9e3e905, 0xfcefa3f8, 0x676f02d9, 0x8d2a4c8a,
   0xfffa3942, 0x8771f681, 0x6d9d6122, 0xfde5380c, 0xa4beea44, 0x4bdecfa9, 0xf6bb4b60, 0xbebfbc70,
   0x289b7ec6, 0xeaa127fa, 0xd4ef3085, 0x04881d05, 0xd9d4d039, 0xe6db99e5, 0x1fa27cf8, 0xc4ac5665,
   0xf4292244, 0x432aff97, 0xab9423a7, 0xfc93a039, 0x655b59c3, 0x8f0ccc92, 0xffeff47d, 0x85845dd1,
   0x6fa87e4f, 0xfe2ce6e0, 0xa3014314, 0x4e0811a1, 0xf7537e82, 0xbd3af235, 0x2ad7d2bb, 0xeb86d391]"

definition rfc_function :: "nat \<Rightarrow> u32 \<Rightarrow> u32 \<Rightarrow> u32 \<Rightarrow> u32" where
  "rfc_function i x y z =
     (if i < 16 then (x AND y) OR (NOT x AND z)
      else if i < 32 then (x AND z) OR (y AND NOT z)
      else if i < 48 then x XOR y XOR z
      else y XOR (x OR NOT z))"

definition rfc_word :: "nat \<Rightarrow> nat" where
  "rfc_word i = (if i < 16 then i else if i < 32 then (5 * i + 1) mod 16 else if i < 48 then (3 * i + 5) mod 16 else 7 * i mod 16)"

definition rfc_shift :: "nat \<Rightarrow> nat" where
  "rfc_shift i = [[7, 12, 17, 22], [5, 9, 14, 20], [4, 11, 16, 23], [6, 10, 15, 21]] ! (i div 16) ! (i mod 4)"

definition rfc_step :: "(nat \<Rightarrow> u32) \<Rightarrow> nat \<Rightarrow> regs \<Rightarrow> regs" where
  "rfc_step M i r = (case r of (a, b, c, d) \<Rightarrow>
     (d, b + word_rotl (rfc_shift i) (a + rfc_function i b c d + M (rfc_word i) + rfc_table ! i), b, c))"

definition rfc_block :: "(nat \<Rightarrow> u32) \<Rightarrow> regs \<Rightarrow> regs" where
  "rfc_block M r =
     (case (r, fold (rfc_step M) [0..<64] r) of ((a, b, c, d), (a', b', c', d')) \<Rightarrow> (a + a', b + b', c + c', d + d'))"

function rfc_blocks :: "bytes \<Rightarrow> regs \<Rightarrow> regs" where
  "rfc_blocks m r = (if length m < 64 then r else rfc_blocks (drop 64 m) (rfc_block (\<lambda>k. get32 m (4 * k)) r))"
  by pat_completeness auto
termination by (relation "measure (length \<circ> fst)") auto

declare rfc_blocks.simps [simp del]

definition rfc_pad :: "bytes \<Rightarrow> bytes" where
  "rfc_pad buf =
     (let n = length buf; bits = 8 * n
      in buf @ [0x80] @ replicate ((119 - n mod 64) mod 64) 0 @
         map (\<lambda>k. word_of_nat (bits div 256 ^ k mod 256)) [0..<8])"

definition rfc_md5 :: "bytes \<Rightarrow> bytes" where
  "rfc_md5 buf = md5_result (rfc_blocks (rfc_pad buf) md5_init)"

lemma CYCLIC_rotl: "0 < s \<Longrightarrow> s < 32 \<Longrightarrow> CYCLIC w s = word_rotl s w"
proof (rule bit_word_eqI)
  fix n assume s: "0 < s" "s < 32" and "n < LENGTH(32)"
  then have n: "n < 32" by simp
  have l: "bit (CYCLIC w s) n \<longleftrightarrow> s \<le> n \<and> bit w (n - s) \<or> bit w (32 - s + n)"
    using n by (simp add: CYCLIC_def bit_or_iff bit_push_bit_iff bit_drop_bit_eq)
  have r: "bit (word_rotl s w) n \<longleftrightarrow> bit w ((n + 32 - s) mod 32)"
    using n s by (simp add: bit_word_rotl_iff)
  show "bit (CYCLIC w s) n = bit (word_rotl s w) n"
  proof (cases "s \<le> n")
    case True
    have "\<not> bit w (32 - s + n)" using True by (auto dest: bit_imp_le_length)
    moreover have "(n + 32 - s) mod 32 = n - s"
    proof -
      have "n + 32 - s = n - s + 32" using True by simp
      then have "(n + 32 - s) mod 32 = (n - s) mod 32" by (simp only: mod_add_self2)
      then show ?thesis using n by simp
    qed
    ultimately show ?thesis using True l r by simp
  next
    case False
    then have "(n + 32 - s) mod 32 = 32 - s + n" using s n by simp
    then show ?thesis using False l r by simp
  qed
qed

lemma round_functions:
  "i < 16 \<Longrightarrow> F_FF b c d = rfc_function i b c d"
  "16 \<le> i \<Longrightarrow> i < 32 \<Longrightarrow> F_FG b c d = rfc_function i b c d"
  "32 \<le> i \<Longrightarrow> i < 48 \<Longrightarrow> F_FH b c d = rfc_function i b c d"
  "48 \<le> i \<Longrightarrow> F_FI b c d = rfc_function i b c d"
  by (rule bit_word_eqI; auto simp: rfc_function_def bit_simps)+

text \<open>The registers in the order in which the \<open>i\<close>th step of the RFC has them.\<close>

fun view :: "nat \<Rightarrow> regs \<Rightarrow> regs" where
  "view i (a, b, c, d) = [(a, b, c, d), (d, a, b, c), (c, d, a, b), (b, c, d, a)] ! (i mod 4)"

fun conforms :: "nat \<Rightarrow> md5_op \<Rightarrow> bool" where
  "conforms i (f, a, b, c, d, s, k, T) \<longleftrightarrow>
     (a, b, c, d) = [(A, B, C, D), (D, A, B, C), (C, D, A, B), (B, C, D, A)] ! (i mod 4) \<and>
     f = [FF, FG, FH, FI] ! (i div 16) \<and> 0 < s \<and> s < 32 \<and> s = rfc_shift i \<and> k = rfc_word i \<and> T = rfc_table ! i"

primrec conform_all :: "nat \<Rightarrow> md5_op list \<Rightarrow> bool" where
  "conform_all i [] \<longleftrightarrow> True"
| "conform_all i (op # ops) \<longleftrightarrow> conforms i op \<and> conform_all (Suc i) ops"

lemma OP_step:
  assumes "conforms i op" "i < 64"
  shows "rfc_step M i (view i r) = view (Suc i) (OP M op r)"
proof -
  obtain f a b c d s k T where op: "op = (f, a, b, c, d, s, k, T)" by (cases op) auto
  obtain A' B' C' D' where r: "r = (A', B', C', D')" by (cases r) auto
  have F: "round_fun_of f = rfc_function i"
  proof -
    have "i div 16 = 0 \<and> i < 16 \<or> i div 16 = 1 \<and> 16 \<le> i \<and> i < 32 \<or> i div 16 = 2 \<and> 32 \<le> i \<and> i < 48 \<or> i div 16 = 3 \<and> 48 \<le> i"
      using assms(2) by linarith
    with assms(1) op show ?thesis by (auto simp: fun_eq_iff round_functions simp del: F_FF.simps F_FG.simps F_FH.simps F_FI.simps)
  qed
  have s: "CYCLIC w s = word_rotl s w" for w using assms(1) op by (simp add: CYCLIC_rotl)
  have "i mod 4 = 0 \<or> i mod 4 = 1 \<or> i mod 4 = 2 \<or> i mod 4 = 3" by linarith
  then show ?thesis
    using assms(1) op r F s
    by (elim disjE) (simp_all add: rfc_step_def Let_def mod_Suc add.assoc add.commute [of B'] add.commute [of A'] add.commute [of C'] add.commute [of D'])
qed

lemma OP_steps:
  "conform_all i ops \<Longrightarrow> i + length ops \<le> 64 \<Longrightarrow>
   fold (rfc_step M) [i..<i + length ops] (view i r) = view (i + length ops) (fold (OP M) ops r)"
proof (induction ops arbitrary: i r)
  case (Cons op ops)
  from Cons.prems OP_step [of i op M r] have "rfc_step M i (view i r) = view (Suc i) (OP M op r)" by simp
  with Cons.IH [of "Suc i" "OP M op r"] Cons.prems show ?case by (simp add: upt_conv_Cons del: upt_Suc)
qed simp

lemma phases_conform: "conform_all 0 (phase1 @ phase2 @ phase3 @ phase4)"
  by (simp add: phase1_def phase2_def phase3_def phase4_def rfc_shift_def rfc_word_def rfc_table_def)

lemma phases_length: "length (phase1 @ phase2 @ phase3 @ phase4) = 64"
  by (simp add: phase1_def phase2_def phase3_def phase4_def)

lemma block_eq: "md5_block M r = rfc_block M r"
proof -
  have v: "view 0 x = x" "view 64 x = x" for x by (cases x; simp)+
  from OP_steps [OF phases_conform, of M r] phases_length
  have "fold (OP M) (phase1 @ phase2 @ phase3 @ phase4) r = fold (rfc_step M) [0..<64] r"
    by (simp add: v del: upt_Suc fold_append)
  then show ?thesis
    by (simp add: md5_block_def rfc_block_def add.commute del: upt_Suc fold_append split: prod.splits)
qed

lemma put32_append: "i = length p \<Longrightarrow> put32 (p @ q) i v = p @ put32 q 0 v"
  by (simp add: put32_def list_update_append numeral_2_eq_2)

lemma pad_length:
  assumes "z = (119 - n mod 64) mod 64"
  shows "4 * md5_words n = n + 1 + z + 8" "md5_words n - 2 = (n + 1 + z) div 4" "4 * (md5_words n - 2) = n + 1 + z"
proof -
  define q k where "q = n div 64" and "k = n mod 64"
  then have qk: "n div 64 = q" "n mod 64 = k" and k: "k < 64" and n: "n = 64 * q + k" by simp_all
  have z: "z = (if 56 \<le> k then 119 - k else 55 - k)"
  proof (cases "56 \<le> k")
    case False
    then have "119 - k = 55 - k + 64" by simp
    then have "(119 - k) mod 64 = (55 - k) mod 64" by (simp only: mod_add_self2)
    with False show ?thesis unfolding assms qk by simp
  next
    case True
    with k show ?thesis unfolding assms qk by simp
  qed
  show l: "4 * md5_words n = n + 1 + z + 8" unfolding md5_words_def qk z n using k by auto
  show "4 * (md5_words n - 2) = n + 1 + z" using l by simp
  then show "md5_words n - 2 = (n + 1 + z) div 4" by linarith
qed

lemma length_bytes:
  assumes "n < 536870912"
  shows "put32 (replicate 8 0) 0 (word_of_nat n * 8) = map (\<lambda>k. word_of_nat (8 * n div 256 ^ k mod 256)) [0..<8]"
proof -
  have u: "unat (word_of_nat n * 8 :: u32) = 8 * n"
    using assms by (simp add: unat_word_ariths unat_of_nat take_bit_nat_eq_self)
  have s: "(256::nat)\<^sup>2 = 65536" "(256::nat) ^ 3 = 16777216" by simp_all
  have b: "8 * n div 16777216 < 256" "8 * n < 4294967296" using assms by simp_all
  have z: "8 * n div 256 ^ k = 0" if "4 \<le> k" for k
  proof -
    have "(256::nat) ^ 4 \<le> 256 ^ k" using that by (rule power_increasing) simp
    with b(2) show ?thesis by simp
  qed
  have r: "replicate 8 (0::byte) = [0, 0, 0, 0, 0, 0, 0, 0]" by (simp add: numeral_eq_Suc)
  show ?thesis using b(1) z unfolding put32_def u r by (simp add: upt_rec s)
qed

lemma pad_eq:
  assumes "length buf < 536870912"
  shows "md5_message buf = rfc_pad buf"
proof -
  define z where "z = (119 - length buf mod 64) mod 64"
  note l = pad_length [OF z_def]
  have r: "replicate (Suc z + 8) (0::byte) = 0 # replicate z 0 @ replicate 8 0"
    by (simp only: replicate_add replicate_Suc append_Cons)
  have "blit (replicate (4 * md5_words (length buf)) 0) 0 buf = buf @ replicate (Suc z + 8) 0"
    unfolding blit_def l(1) by simp
  then have m: "(blit (replicate (4 * md5_words (length buf)) 0) 0 buf)[length buf := 0x80] = (buf @ 0x80 # replicate z 0) @ replicate 8 0"
    unfolding r by (simp add: list_update_append)
  have p: "length buf + 1 + z = length (buf @ 0x80 # replicate z 0)" by simp
  show ?thesis
    unfolding md5_message_def rfc_pad_def Let_def l(3) m put32_append [OF p] length_bytes [OF assms] z_def [symmetric] by simp
qed

lemma blocks_eq:
  assumes "length m = 64 * t" "j \<le> t"
  shows "fold (\<lambda>i r. md5_block (\<lambda>k. get32 m (4 * (16 * i + k))) r) [j..<t] r = rfc_blocks (drop (64 * j) m) r"
  using assms(2)
proof (induction "t - j" arbitrary: j r)
  case 0
  then show ?case using assms(1) by (simp add: rfc_blocks.simps)
next
  case (Suc x)
  have "get32 (drop (64 * j) m) (4 * k) = get32 m (4 * (16 * j + k))" for k
    using Suc assms(1) by (simp add: get32_def algebra_simps)
  moreover have "\<not> 64 * t - 64 * j < 64" using Suc.hyps(2) by linarith
  ultimately show ?case using Suc.hyps(1) [of "Suc j"] Suc.hyps(2) assms(1)
    by (subst rfc_blocks.simps) (simp add: upt_conv_Cons block_eq add.commute)
qed

text \<open>C17: The unrolled \<open>MD5bin\<close>, with its register renaming, its folded functions and its padding in
  words, computes the MD5 of RFC 1321 for every message shorter than half a gigabyte; longer messages
  have a length in bits that does not fit the one word that the code stores.\<close>

theorem MD5bin_is_rfc1321:
  assumes "length buf < 536870912"
  shows "MD5bin buf = rfc_md5 buf"
proof -
  define z where "z = (119 - length buf mod 64) mod 64"
  have "length (rfc_pad buf) = 4 * md5_words (length buf)"
    unfolding pad_length(1) [OF z_def] by (simp add: rfc_pad_def Let_def z_def)
  then have "length (rfc_pad buf) = 64 * (md5_words (length buf) div 16)" by (auto simp: md5_words_def)
  from blocks_eq [OF this, of 0] show ?thesis unfolding MD5bin_def rfc_md5_def pad_eq [OF assms] by simp
qed

lemma abc_message: "md5_message [97, 98, 99] = [97, 98, 99, 0x80] @ replicate 52 0 @ [24, 0, 0, 0, 0, 0, 0, 0]"
  by (simp add: pad_eq rfc_pad_def upt_rec)

lemma abc_block:
  "md5_block (\<lambda>k. get32 ([97, 98, 99, 0x80] @ replicate 52 0 @ [24, 0, 0, 0, 0, 0, 0, 0]) (4 * k)) md5_init =
   (0x98500190, 0xb04fd23c, 0x7d3f96d6, 0x727fe128)"
  by (simp add: md5_block_def md5_init_def phase1_def phase2_def phase3_def phase4_def get32_def Let_def CYCLIC_def nth_append)

text \<open>The test vector of the RFC for \<open>abc\<close>.\<close>

theorem MD5bin_is_rfc1321_witness:
  "rfc_md5 [97, 98, 99] =
     [0x90, 0x01, 0x50, 0x98, 0x3c, 0xd2, 0x4f, 0xb0, 0xd6, 0x96, 0x3f, 0x7d, 0x28, 0xe1, 0x7f, 0x72]"
proof -
  have "MD5bin [97, 98, 99] = md5_result (0x98500190, 0xb04fd23c, 0x7d3f96d6, 0x727fe128)"
    using abc_block unfolding MD5bin_def abc_message Let_def by (simp add: md5_words_def)
  moreover have "replicate 16 (0::byte) = [0, 0, 0, 0, 0, 0, 0, 0, 0, 0, 0, 0, 0, 0, 0, 0]" by (simp add: numeral_eq_Suc)
  ultimately show ?thesis
    using MD5bin_is_rfc1321 [of "[97, 98, 99]"] by (simp add: md5_result_def put32_def)
qed

lemma length_hex_text [simp]: "length (hex_text bs) = 2 * length bs"
  by (induction bs) (simp_all add: hex_text_def)

lemma length_MD5bin [simp]: "length (MD5bin buf) = 16"
  by (simp add: MD5bin_def Let_def md5_result_def put32_def split: prod.split)

text \<open>A block of exactly the 32 bytes that are asked for is written past.\<close>

lemma GetMD5_room: "GetMD5 room buf = (if room < 33 then Crash OutOfBounds else Ok (hex_text (MD5bin buf) @ [0]))"
  by (simp add: GetMD5_def Let_def)

section \<open>Lines\<close>

lemma read_line_takes:
  assumes "\<forall>s \<in> set pre. s \<noteq> [] \<and> 13 \<notin> set s" "13 \<notin> set u" "bufsize \<le> length buffer"
    and "index + length (concat pre) + length (u @ 13 # v) \<le> bufsize"
  shows "\<exists>buf. read_line bufsize index buffer (pre @ (u @ 13 # v) # post) =
      Ok (Some (index + length (concat pre @ u) + 1), buf, post) \<and>
    take (index + length (concat pre @ u)) buf = take index buffer @ concat pre @ u \<and>
    buf ! (index + length (concat pre @ u)) = 0 \<and> length buf = length buffer"
  using assms
proof (induction pre arbitrary: index buffer)
  case Nil
  have u: "takeWhile (\<lambda>c. c \<noteq> 13) (u @ 13 # v) = u" by (rule takeWhile_stop) (use Nil.prems(2) in auto)
  have r: "recv (bufsize - index) ((u @ 13 # v) # post) = (Some (u @ 13 # v), post)" using Nil.prems by simp
  have t: "take (index + length u) (blit buffer index (u @ 13 # v)) = take index buffer @ u" using Nil.prems by (simp add: blit_def)
  have "read_line bufsize index buffer ((u @ 13 # v) # post) =
      Ok (Some (index + length u + 1), (blit buffer index (u @ 13 # v))[index + length u := 0], post)"
    by (subst read_line.simps) (use Nil.prems r u in \<open>simp add: Let_def\<close>)
  with t Nil.prems show ?case by (simp add: length_blit)
next
  case (Cons s pre)
  then have s: "s \<noteq> []" "13 \<notin> set s" and fit: "length s \<le> bufsize - index" by auto
  have u: "takeWhile (\<lambda>c. c \<noteq> 13) s = s" using s(2) by (auto simp: takeWhile_eq_all_conv)
  let ?b = "blit buffer index s"
  have b: "length ?b = length buffer" "take (index + length s) ?b = take index buffer @ s"
    using Cons.prems by (simp_all add: length_blit) (simp add: blit_def)
  have "read_line bufsize index buffer (s # pre @ (u @ 13 # v) # post) =
      read_line bufsize (index + length s) ?b (pre @ (u @ 13 # v) # post)"
    by (subst read_line.simps) (use Cons.prems s fit in \<open>simp add: Let_def u\<close>)
  with Cons.IH [of ?b "index + length s"] Cons.prems b show ?case by (simp add: add.assoc)
qed

text \<open>When the segments that arrive hold no carriage return up to one that does, \<open>ReadString\<close>
  stores their bytes up to it as a terminated line and drops the rest of that segment. So the line feed
  and any further commands that came in the same segment are lost, and a line feed that comes in a
  segment of its own becomes the first character of the next line.\<close>

theorem ReadString_takes_segments:
  assumes "\<forall>s \<in> set pre. s \<noteq> [] \<and> 13 \<notin> set s" "13 \<notin> set u" "bufsize \<le> length buffer"
    and "length (concat pre) + length (u @ 13 # v) \<le> bufsize"
  shows "\<exists>buf. ReadString bufsize buffer (pre @ (u @ 13 # v) # post) = Ok (Some (length (concat pre @ u) + 1), buf, post) \<and>
    take (length (concat pre @ u)) buf = concat pre @ u \<and> buf ! length (concat pre @ u) = 0"
  using read_line_takes [OF assms(1-3), of 0 v post] assms(4) unfolding ReadString_def by auto

text \<open>\<open>NOOP\<close> in two segments, the second of them with a \<open>QUIT\<close> behind it that is never seen.\<close>

theorem ReadString_takes_segments_witness:
  "\<exists>buf. ReadString 20 (replicate 30 0) [[78, 79], [79, 80, 13, 10, 81, 85, 73, 84, 13, 10], [10, 78]] = Ok (Some 5, buf, [[10, 78]]) \<and>
     take 4 buf = [78, 79, 79, 80] \<and> buf ! 4 = 0"
proof -
  have n: "length (concat [[78, 79]] @ [79, 80 :: byte]) = 4" by simp
  show ?thesis
    using ReadString_takes_segments [of "[[78, 79]]" "[79, 80]" 20 "replicate 30 0" "[10, 81, 85, 73, 84, 13, 10]" "[[10, 78]]"]
    unfolding n by simp
qed

end
