(* ===== verification/MailRelay.thy ===== *)
theory MailRelay
  imports MailSmtp MailSessions MailCodec
begin

text \<open>
  What SMTP sessions put into the spool, what their commands need of the order in which they come,
  and how the text of a message is put together from the segments of the connection.
\<close>

section \<open>The text of a message\<close>

lemma last_cr_Some:
  assumes "last_cr d = Some r"
  shows "r < length d \<and> d ! r = 13 \<and> 13 \<notin> set (drop (r + 1) d)"
proof -
  let ?k = "length (takeWhile (\<lambda>b. b \<noteq> 13) (rev d))"
  have m: "13 \<in> set d" and r: "r = length d - 1 - ?k" using assms by (auto simp: last_cr_def split: if_splits)
  have k: "?k < length d" using length_takeWhile_stop [of "rev d" "\<lambda>b. b \<noteq> 13"] m by auto
  have n: "rev d ! ?k = 13" using nth_length_takeWhile [of "\<lambda>b. b \<noteq> 13" "rev d"] k by simp
  have "rev d ! ?k = d ! r" using k r by (simp add: rev_nth)
  moreover have "drop (r + 1) d = rev (take ?k (rev d))" using k r by (simp add: rev_take Suc_diff_Suc)
  moreover have "13 \<notin> set (take ?k (rev d))"
    using takeWhile_eq_take [of "\<lambda>b. b \<noteq> 13" "rev d"] set_takeWhileD [of 13 "\<lambda>b. b \<noteq> 13" "rev d"] by auto
  ultimately show ?thesis using n k r by simp
qed

lemma last_cr_None: "last_cr d = None \<longleftrightarrow> 13 \<notin> set d"
  by (simp add: last_cr_def)

lemma recv_whole: "s \<noteq> [] \<Longrightarrow> length s \<le> n \<Longrightarrow> recv n (s # ss) = (Some s, ss)"
  by (cases s) auto

text \<open>A message and its end, which occurs nowhere before.\<close>

definition terminated :: "bytes \<Rightarrow> bytes" where
  "terminated body = body @ [13, 10, 46, 13, 10]"

definition ends_once :: "bytes \<Rightarrow> bool" where
  "ends_once body \<longleftrightarrow> (\<forall>i < length body. take 4 (drop i (body @ [13, 10, 46, 13])) \<noteq> [13, 10, 46, 13])"

text \<open>What is left in the buffer when the loop goes on.\<close>

definition pending :: "bytes \<Rightarrow> bool" where
  "pending p \<longleftrightarrow> (case last_cr p of None \<Rightarrow> True | Some r \<Rightarrow> r < 3 \<or> r = length p - 1)"

lemma cr_position:
  assumes "i < length (terminated body)" "terminated body ! i = 13"
  shows "i \<le> length body \<or> i = length body + 3"
proof (rule ccontr)
  assume h: "\<not> ?thesis"
  with assms(1) have "i = length body + 1 \<or> i = length body + 2 \<or> i = length body + 4" by (auto simp: terminated_def)
  with assms(2) show False by (auto simp: terminated_def nth_append)
qed

lemma eom_here:
  assumes "ends_once body" "3 \<le> p" "p \<le> length body + 3"
  shows "is_eom (terminated body) p \<and> terminated body ! p = 13 \<longleftrightarrow> p = length body + 3"
proof
  assume e: "is_eom (terminated body) p \<and> terminated body ! p = 13"
  let ?t = "body @ [13, 10, 46, 13]"
  have t: "terminated body ! j = ?t ! j" if "j < length body + 4" for j
    using that by (auto simp: terminated_def nth_append nth_Cons')
  show "p = length body + 3"
  proof (rule ccontr)
    assume "p \<noteq> length body + 3"
    then have i: "p - 3 < length body" using assms(2,3) by arith
    have "take 4 (drop (p - 3) ?t) = [13, 10, 46, 13]"
    proof (rule nth_equalityI)
      show "length (take 4 (drop (p - 3) ?t)) = length [13, 10, 46, 13 :: byte]" using i by simp
      fix j assume "j < length (take 4 (drop (p - 3) ?t))"
      then have j: "j < 4" by (simp only: length_take min_less_iff_conj)
      have "p - 3 \<le> length ?t" "p - 3 + j < length body + 4" using i j by simp_all
      then have "take 4 (drop (p - 3) ?t) ! j = terminated body ! (p - 3 + j)" by (simp only: nth_take [OF j] nth_drop t)
      moreover have "j = 0 \<or> j = 1 \<or> j = 2 \<or> j = 3" using j by auto
      ultimately show "take 4 (drop (p - 3) ?t) ! j = [13, 10, 46, 13] ! j"
        using e assms(2) by (auto simp: is_eom_def numeral_3_eq_3 numeral_2_eq_2 Suc_diff_Suc)
    qed
    with assms(1) i show False by (simp add: ends_once_def)
  qed
qed (simp add: is_eom_def terminated_def nth_append)

lemma nth_middle: "i < length y \<Longrightarrow> (x @ y @ z) ! (length x + i) = y ! i"
  by (simp add: nth_append)

lemma last_cr_first: "13 \<notin> set x \<Longrightarrow> last_cr (13 # x) = Some 0"
proof -
  assume "13 \<notin> set x"
  then have "takeWhile (\<lambda>b. b \<noteq> 13) (rev x @ [13]) = rev x" using takeWhile_stop [of "rev x" "\<lambda>b. b \<noteq> 13" 13 "[]"] by auto
  then show ?thesis by (simp add: last_cr_def)
qed

lemma take_blit_end:
  assumes "start + length d \<le> length buf"
  shows "take (start + length d) (blit buf start d) = take start buf @ d"
  using assms by (simp add: blit_def)

lemma not_pending_at_end:
  assumes T: "terminated body = dn @ p" and F: "length dn \<le> length body" and pend: "pending p"
  shows False
proof -
  have p: "p = drop (length dn) (terminated body)" using T by simp
  have len: "length p = length body + 5 - length dn" using p by (simp add: terminated_def)
  have at: "p ! i = terminated body ! (length dn + i)" for i using T by simp
  obtain e' where e': "e' = length body + 3 - length dn" by simp
  let ?e = e'
  have e: "?e < length p" "p ! ?e = 13" using F len by (auto simp: e' at terminated_def nth_append)
  then have "13 \<in> set p" by (metis nth_mem)
  then obtain r where r: "last_cr p = Some r" using last_cr_None [of p] by auto
  have "r = ?e"
  proof (rule ccontr)
    assume ne: "r \<noteq> ?e"
    have "terminated body ! (length dn + r) = 13" "length dn + r < length (terminated body)"
      using last_cr_Some [OF r] at [of r] len F by (auto simp: terminated_def)
    from cr_position [OF this(2,1)] ne F e' have "r < ?e" by auto
    then have "drop (r + 1) p ! (?e - (r + 1)) = p ! ?e" "?e - (r + 1) < length (drop (r + 1) p)" using e(1) by auto
    then have "p ! ?e \<in> set (drop (r + 1) p)" by (metis nth_mem)
    with last_cr_Some [OF r] e(2) show False by simp
  qed
  moreover have "3 \<le> e'" "e' \<noteq> length p - 1" using F len e' by arith+
  ultimately show False using pend r by (simp add: pending_def)
qed

lemma data_loop_stores:
  assumes "ends_once body" "\<forall>s \<in> set ss. s \<noteq> []" "terminated body = dn @ take start buf @ concat ss" "length dn \<le> length body"
    and "pending (take start buf)" "length (terminated body) \<le> n" "n \<le> length buf" "start \<le> length buf"
  shows "\<exists>buf'. data_loop n start buf (w @ dn) ss = Ok (Some (w @ body), buf', [])"
  using assms
proof (induction ss arbitrary: dn start buf)
  case Nil
  then show ?case using not_pending_at_end [of body dn "take start buf"] by simp
next
  case (Cons s ss)
  let ?all = "take start buf @ s" let ?b = "blit buf start s" let ?T = "terminated body"
  have T: "?T = dn @ ?all @ concat ss" using Cons.prems(3) by simp
  have fit: "start + length s \<le> n" using arg_cong [OF T, of length] Cons.prems(6,8) by simp
  have r: "recv (n - start) (s # ss) = (Some s, ss)" using Cons.prems(2) fit by (intro recv_whole) auto
  have all: "take (start + length s) ?b = ?all" using fit Cons.prems(7) by (intro take_blit_end) simp
  have len: "length ?all = start + length s" "length ?b = length buf" using fit Cons.prems(7,8) by (simp_all add: length_blit)
  have step: "data_loop n start buf (w @ dn) (s # ss) =
     (case last_cr ?all of None \<Rightarrow> data_loop n (start + length s) ?b (w @ dn) ss
      | Some r \<Rightarrow> if r < 3 \<or> r = start + length s - 1 then data_loop n (start + length s) ?b (w @ dn) ss
          else if is_eom ?all r then Ok (Some (w @ dn @ take (r - 3) ?all), blit ?b 0 (drop (r - 3) ?all), ss)
          else data_loop n (start + length s - r) (blit ?b 0 (drop r ?all)) (w @ dn @ take r ?all) ss)"
    using fit Cons.prems(7) r all by (subst data_loop.simps) (simp add: Let_def split: option.split)
  have more: "\<exists>buf'. data_loop n (start + length s) ?b (w @ dn) ss = Ok (Some (w @ body), buf', [])" if "pending ?all"
    using Cons.IH [of dn "start + length s" ?b] Cons.prems that T all len fit by simp
  show ?case
  proof (cases "last_cr ?all")
    case None
    then show ?thesis using step more by (simp add: pending_def)
  next
    case (Some k)
    show ?thesis
    proof (cases "k < 3 \<or> k = start + length s - 1")
      case True
      then show ?thesis using step more Some len by (simp add: pending_def)
    next
      case False
      note k = last_cr_Some [OF Some]
      let ?p = "length dn + k"
      have at: "?T ! (length dn + i) = ?all ! i" if "i < length ?all" for i unfolding T by (rule nth_middle [OF that])
      have p: "?T ! ?p = 13" "?p < length ?T" using k at [of k] T by auto
      from cr_position [OF p(2,1)] have pos: "?p \<le> length body \<or> ?p = length body + 3" .
      have e: "?T ! (?p - j) = ?all ! (k - j)" if "j \<le> 3" for j
      proof -
        have "k - j < length ?all" using k by linarith
        moreover have "length dn + (k - j) = ?p - j" using False that by linarith
        ultimately show ?thesis using at by metis
      qed
      have "is_eom ?all k \<longleftrightarrow> is_eom ?T ?p"
        using e [of 1] e [of 2] e [of 3] unfolding is_eom_def by (simp only: numeral_le_iff one_le_numeral le_refl) simp
      with eom_here [OF Cons.prems(1), of ?p] pos False p(1) have eom: "is_eom ?all k \<longleftrightarrow> ?p = length body + 3" by auto
      show ?thesis
      proof (cases "?p = length body + 3")
        case True
        have b: "dn @ take (k - 3) ?all = take (length dn + (k - 3)) ?T" unfolding T using k by simp
        have "length dn + (k - 3) = length body" using True False by auto
        then have "dn @ take (k - 3) ?all = body" using b by (simp add: terminated_def)
        moreover have "ss = []"
        proof -
          have "length ?T = length dn + length ?all + length (concat ss)" unfolding T by simp
          moreover have "length ?T = length body + 5" by (simp add: terminated_def)
          moreover have "k + 1 < length ?all" using False k len(1) by linarith
          ultimately have "length (concat ss) = 0" using True by linarith
          then have "concat ss = []" by simp
          with Cons.prems(2) show ?thesis by (cases ss) auto
        qed
        ultimately show ?thesis using step Some False eom True by simp
      next
        case noeom: False
        let ?P = "drop k ?all" let ?b' = "blit ?b 0 ?P"
        have "?P = 13 # drop (k + 1) ?all" using k by (metis Cons_nth_drop_Suc Suc_eq_plus1)
        then have pend: "pending ?P" using last_cr_first [of "drop (k + 1) ?all"] k by (simp add: pending_def)
        have lP: "length ?P = start + length s - k" using len(1) by simp
        have tP: "take (start + length s - k) ?b' = ?P" using take_blit_end [of 0 ?P ?b] lP len fit Cons.prems(7) by simp
        have "\<exists>buf'. data_loop n (start + length s - k) ?b' (w @ (dn @ take k ?all)) ss = Ok (Some (w @ body), buf', [])"
        proof (rule Cons.IH)
          show "terminated body = (dn @ take k ?all) @ take (start + length s - k) ?b' @ concat ss"
            unfolding tP using T append_take_drop_id [of k ?all] by (metis append_assoc)
          show "length (dn @ take k ?all) \<le> length body" using pos noeom k by simp
          show "n \<le> length ?b'" "start + length s - k \<le> length ?b'" using len lP fit Cons.prems(7) by (simp_all add: length_blit)
        qed (use Cons.prems pend tP in auto)
        then show ?thesis using step Some False eom noeom by simp
      qed
    qed
  qed
qed

section \<open>Sessions\<close>

definition allowed :: "mail_store \<Rightarrow> smtp_conn \<Rightarrow> smtpmsg \<Rightarrow> bool" where
  "allowed st c m \<longleftrightarrow> (\<forall>r \<in> set (sm_to m). local_user st r \<or> s_auth c)"

definition smtp_ok :: "mail_store \<Rightarrow> smtp_conn \<Rightarrow> bool" where
  "smtp_ok st c \<longleftrightarrow> length (s_buffer c) = alc_buf_size st \<and> sstate c \<noteq> SS_DATA \<and> (sstate c \<noteq> SS_RCPT \<longrightarrow> s_msgs c = []) \<and>
     (\<forall>m \<in> set (s_msgs c). allowed st c m)"

text \<open>What one command does to the spool: nothing, or one message more that was allowed.\<close>

definition spools :: "mail_store \<Rightarrow> smtp_conn \<Rightarrow> smtpmsg list \<Rightarrow> smtpmsg list \<Rightarrow> bool" where
  "spools st c sp sp' \<longleftrightarrow> sp' = sp \<or> (\<exists>m. sp' = m # sp \<and> allowed st c m)"

lemma answer_ok [simp]: "smtp_ok st (answer s c) \<longleftrightarrow> smtp_ok st c"
  by (simp add: smtp_ok_def allowed_def answer_def)

lemma spools_same [simp]: "spools st c sp sp"
  by (simp add: spools_def)

lemma free_ok: "length (s_buffer c) = alc_buf_size st \<Longrightarrow> sstate c \<noteq> SS_DATA \<Longrightarrow> smtp_ok st (FreeSMTPSession c)"
  by (simp add: smtp_ok_def FreeSMTPSession_def)

lemma sprintf_length: "sprintf_at buf off s = Ok b \<Longrightarrow> length b = length buf"
  by (auto simp: sprintf_at_def length_blit split: if_splits)

lemma decode_into_length: "decode_into inp n buf = Ok (r, b) \<Longrightarrow> length b = length buf"
  by (auto simp: decode_into_def bindo_Ok_iff Let_def length_blit split: if_splits)

lemma cmd_HELO_ok:
  assumes "smtp_ok st c" "cmd_HELO ext result st c sp = Ok (fin, c', sp')"
  shows "(\<not> fin \<longrightarrow> smtp_ok st c') \<and> sp' = sp"
proof -
  let ?c = "if sstate c \<noteq> SS_NONE then FreeSMTPSession c else c"
  have ok: "smtp_ok st ?c" "s_msgs ?c = []"
    using assms(1) free_ok [of c st] by (auto simp: smtp_ok_def FreeSMTPSession_def)
  show ?thesis
    using assms(2) ok unfolding cmd_HELO_def Let_def
    by (auto simp: bindo_Ok_iff smtp_ok_def answer_def dest!: sprintf_length split: if_splits)
qed

lemma cmd_MAIL_ok:
  assumes "smtp_ok st c" "cmd_MAIL c sp = Ok (fin, c', sp')"
  shows "\<not> fin \<and> smtp_ok st c' \<and> sp' = sp"
  using assms by (auto simp: cmd_MAIL_def Let_def smtp_ok_def answer_def allowed_def split: if_splits option.splits)

lemma cmd_RCPT_ok:
  assumes "smtp_ok st c" "cmd_RCPT st c sp = Ok (fin, c', sp')"
  shows "\<not> fin \<and> smtp_ok st c' \<and> sp' = sp"
  using assms by (auto simp: cmd_RCPT_def Let_def smtp_ok_def answer_def allowed_def split: if_splits option.splits list.splits)

lemma data_loop_length: "data_loop n start buf w ss = Ok (r, b, ss') \<Longrightarrow> length b = length buf"
proof (induction n start buf w ss rule: data_loop.induct)
  case (1 n start buf w ss)
  obtain d s1 where r: "recv (n - start) ss = (d, s1)" by (cases "recv (n - start) ss") auto
  show ?case
  proof (cases d)
    case None
    with 1(4) r show ?thesis by (subst (asm) data_loop.simps) simp
  next
    case (Some x)
    have fit: "\<not> length buf < start + length x" using 1(4) r Some by (subst (asm) data_loop.simps) (auto split: if_splits)
    let ?b = "blit buf start x" let ?all = "take (start + length x) ?b"
    have lb: "length ?b = length buf" using fit by (simp add: length_blit)
    note eq = 1(4) [unfolded data_loop.simps [of n start buf w ss] r Some]
    show ?thesis
    proof (cases "last_cr ?all")
      case None
      from 1(1) [OF r [symmetric] Some fit refl refl refl None] eq fit None lb show ?thesis by (simp add: Let_def)
    next
      case l: (Some k)
      show ?thesis
      proof (cases "k < 3 \<or> k = start + length x - 1")
        case True
        from 1(2) [OF r [symmetric] Some fit refl refl refl l True] eq fit l lb True show ?thesis by (simp add: Let_def)
      next
        case False
        let ?k = "if is_eom ?all k then k - 3 else k"
        have lc: "length (blit ?b 0 (drop ?k ?all)) = length buf" using lb by (subst length_blit) auto
        show ?thesis
        proof (cases "is_eom ?all k")
          case True
          with eq fit l False lc show ?thesis by (auto simp: Let_def)
        next
          case noeom: False
          from 1(3) [OF r [symmetric] Some fit refl refl refl l False refl refl refl refl noeom] eq fit l lc False noeom
          show ?thesis by (simp add: Let_def)
        qed
      qed
    qed
  qed
qed

lemma cmd_DATA_ok:
  assumes ok: "smtp_ok st c" and run: "cmd_DATA e st c sp = Ok (fin, c', sp')"
  shows "(\<not> fin \<longrightarrow> smtp_ok st c') \<and> spools st c sp sp'"
proof (cases "sstate c = SS_RCPT")
  case True
  then obtain m ms u where m: "s_msgs c = m # ms" "s_user c = Some u"
    using run by (auto simp: cmd_DATA_def split: list.splits option.splits)
  obtain b w b' ss where b: "sprintf_at (s_buffer c) 0 (received_line u (peer e) st) = Ok b"
    and w: "data_loop (alc_buf_size st) 0 b (received_line u (peer e) st) (s_input c) = Ok (w, b', ss)"
    using run True m by (auto simp: cmd_DATA_def Let_def bindo_Ok_iff answer_def)
  have l: "length b' = alc_buf_size st"
    using sprintf_length [OF b] data_loop_length [OF w] ok by (simp add: smtp_ok_def)
  have "allowed st c (m\<lparr>sm_file := f\<rparr>)" for f using ok m by (auto simp: smtp_ok_def allowed_def)
  then show ?thesis using run True m b w l ok
    by (cases w) (auto simp: cmd_DATA_def Let_def smtp_ok_def answer_def spools_def)
qed (use run ok in \<open>auto simp: cmd_DATA_def\<close>)

definition same_envelope :: "smtp_conn \<Rightarrow> smtp_conn \<Rightarrow> bool" where
  "same_envelope c c' \<longleftrightarrow> sstate c' = sstate c \<and> s_msgs c' = s_msgs c \<and> length (s_buffer c') = length (s_buffer c)"

lemma ReadString_length: "ReadString n buf ss = Ok (r, b, ss') \<Longrightarrow> length b = length buf"
  unfolding ReadString_def by (rule read_line_length)

lemmas lengths = ReadString_length decode_into_length sprintf_length

lemma same_envelope_refl [simp]: "same_envelope c (answer s c') \<longleftrightarrow> same_envelope c c'"
  by (simp add: same_envelope_def answer_def)

lemma same_envelope_self [simp]: "same_envelope c c"
  by (simp add: same_envelope_def)

lemma same_envelope_trans: "same_envelope a b \<Longrightarrow> same_envelope b c \<Longrightarrow> same_envelope a c"
  by (simp add: same_envelope_def)

text \<open>What the dialogues of \<open>AUTH\<close> keep.\<close>

definition auth_keeps :: "smtp_conn \<Rightarrow> smtpmsg list \<Rightarrow> smtp_result \<Rightarrow> bool" where
  "auth_keeps c sp R \<longleftrightarrow> (\<forall>fin c' sp'. R = Ok (fin, c', sp') \<longrightarrow> (\<not> fin \<longrightarrow> same_envelope c c') \<and> sp' = sp)"

lemma auth_keeps_Ok [simp]: "auth_keeps c sp (Ok (fin, c', sp')) \<longleftrightarrow> (\<not> fin \<longrightarrow> same_envelope c c') \<and> sp' = sp"
  by (auto simp: auth_keeps_def)

lemma auth_keeps_Crash [simp]: "auth_keeps c sp (Crash x)"
  by (simp add: auth_keeps_def)

lemma auth_keeps_bind: "(\<And>x. m = Ok x \<Longrightarrow> auth_keeps c sp (f x)) \<Longrightarrow> auth_keeps c sp (bindo m f)"
  by (cases m) auto

lemma auth_keeps_trans: "same_envelope c d \<Longrightarrow> auth_keeps d sp R \<Longrightarrow> auth_keeps c sp R"
  by (auto simp: auth_keeps_def intro: same_envelope_trans)

lemma check_password_keeps: "auth_keeps c sp (check_password st u n c sp)"
  by (auto simp: check_password_def Let_def same_envelope_def answer_def dest!: lengths split: option.split intro!: auth_keeps_bind)

lemma ask_keeps:
  assumes "\<And>n d. auth_keeps d sp (k n d)"
  shows "auth_keeps c sp (ask q k c sp)"
  unfolding ask_def
proof (rule auth_keeps_bind)
  fix x assume "ReadString 256 (s_buffer c) (s_input c) = Ok x"
  then obtain r b ss where x: "x = (r, b, ss)" and l: "length b = length (s_buffer c)" by (cases x) (auto dest: lengths)
  let ?c = "answer_code q (c\<lparr>s_buffer := b, s_input := ss\<rparr>)"
  have "same_envelope c ?c" using l by (simp add: same_envelope_def answer_def)
  then have "auth_keeps c sp (k n ?c)" for n by (rule auth_keeps_trans [OF _ assms])
  then show "auth_keeps c sp (case x of (r, buf, ss) \<Rightarrow>
      let c = answer_code q (c\<lparr>s_buffer := buf, s_input := ss\<rparr>) in
      case r of None \<Rightarrow> Ok (True, FreeSMTPSession c, sp) | Some n \<Rightarrow> k n c)"
    by (simp add: x Let_def split: option.split)
qed

lemma auth_LOGIN_keeps: "auth_keeps c sp (auth_LOGIN st c sp)"
  unfolding auth_LOGIN_def
proof (rule ask_keeps)
  fix n d
  show "auth_keeps d sp (bindo (decode_into (s_buffer d) n (s_buffer d)) (\<lambda>(r, buf).
      let c = d\<lparr>s_buffer := buf\<rparr> in
      if r \<noteq> B64_OK then Ok (False, answer_code ''551'' c, sp)
      else ask ''334 UGFzc3dvcmQ6'' (\<lambda>plen c. check_password st (cstr buf) plen c sp) c sp))"
  proof (rule auth_keeps_bind)
    fix x assume "decode_into (s_buffer d) n (s_buffer d) = Ok x"
    then obtain r b where x: "x = (r, b)" and "length b = length (s_buffer d)" by (cases x) (auto dest: lengths)
    then have e: "same_envelope d (d\<lparr>s_buffer := b\<rparr>)" by (simp add: same_envelope_def)
    from auth_keeps_trans [OF e ask_keeps [OF check_password_keeps]] e
    show "auth_keeps d sp (case x of (r, buf) \<Rightarrow>
        let c = d\<lparr>s_buffer := buf\<rparr> in
        if r \<noteq> B64_OK then Ok (False, answer_code ''551'' c, sp)
        else ask ''334 UGFzc3dvcmQ6'' (\<lambda>plen c. check_password st (cstr buf) plen c sp) c sp)"
      by (simp add: x Let_def)
  qed
qed

lemma send_challenge_same: "send_challenge e st c = Ok (ch, c') \<Longrightarrow> same_envelope c c'"
  by (auto simp: send_challenge_def Let_def same_envelope_def answer_def length_blit codec_simps split: if_splits prod.splits)

lemma length_key_block: "64 \<le> length b \<Longrightarrow> length pw \<le> length b \<Longrightarrow> length (key_block p pw b) = length b"
  by (simp add: key_block_def Let_def length_blit)

lemma cram_digest_length:
  assumes "cram_digest room buf pw g = Ok (d, b)"
  shows "length b = length buf"
proof -
  have l: "length pw \<le> length buf" "64 + length g \<le> length buf" "80 \<le> length buf" using assms by (auto simp: cram_digest_def split: if_splits)
  have n: "\<not> length buf < max (length pw) (max (64 + length g) 80)" using l by (simp add: not_less)
  let ?b = "blit (key_block 0x36 pw buf) 64 g"
  have lb: "length ?b = length buf" using l by (simp add: length_blit length_key_block)
  have "b = blit (key_block 0x5c pw ?b) 64 (MD5bin (take (64 + length g) ?b))"
    using assms unfolding cram_digest_def if_not_P [OF n] by (auto simp: Let_def bindo_Ok_iff)
  moreover have "length (key_block 0x5c pw ?b) = length buf" using l lb by (subst length_key_block) simp_all
  ultimately show ?thesis using l(3) by (simp add: length_blit)
qed

lemma check_digest_keeps: "auth_keeps c sp (check_digest st c sp)"
proof (cases "32 \<in> set (cstr (s_buffer c))")
  case True
  let ?u = "takeWhile (\<lambda>b. b \<noteq> 32) (cstr (s_buffer c))" let ?h = "tl (dropWhile (\<lambda>b. b \<noteq> 32) (cstr (s_buffer c)))"
  let ?c = "c\<lparr>s_user := Some ?u, s_buffer := (s_buffer c)[length ?u := 0]\<rparr>"
  define m where "m = (case find_mailbox (MBX st) ?u 0 of
      None \<Rightarrow> Ok ?c
    | Some i \<Rightarrow>
        bindo (cram_digest (md5_room st) (s_buffer ?c) (mb_password (MBX st ! i)) (the (s_greeting ?c))) (\<lambda>(myhash, buf).
          let c = ?c\<lparr>s_buffer := buf\<rparr> in
          Ok (if memicmp_eq 32 ?h myhash then answer_code ''235'' (c\<lparr>s_auth := True\<rparr>) else c)))"
  have e: "check_digest st c sp = bindo m (\<lambda>c.
      if \<not> s_auth c then Ok (True, answer_code ''535'' (FreeSMTPSession c), sp) else Ok (False, c, sp))"
    by (simp add: check_digest_def m_def True Let_def)
  have "same_envelope c x" if "m = Ok x" for x
  proof (cases "find_mailbox (MBX st) ?u 0")
    case None
    with that have "x = ?c" by (simp add: m_def)
    then show ?thesis by (simp add: same_envelope_def)
  next
    case (Some i)
    with that obtain h b where b: "cram_digest (md5_room st) (s_buffer ?c) (mb_password (MBX st ! i)) (the (s_greeting c)) = Ok (h, b)"
      and x: "x = (if memicmp_eq 32 ?h h then answer_code ''235'' (?c\<lparr>s_buffer := b, s_auth := True\<rparr>) else ?c\<lparr>s_buffer := b\<rparr>)"
      by (auto simp: m_def bindo_Ok_iff Let_def)
    from cram_digest_length [OF b] show ?thesis by (simp add: x same_envelope_def answer_def)
  qed
  then show ?thesis unfolding e by (intro auth_keeps_bind) simp
qed (simp add: check_digest_def)

lemma auth_CRAM_MD5_keeps: "auth_keeps c sp (auth_CRAM_MD5 e st c sp)"
  unfolding auth_CRAM_MD5_def
proof (rule auth_keeps_bind)
  fix x assume "send_challenge e st c = Ok x"
  then obtain ch d where x: "x = (ch, d)" and d: "same_envelope c d" by (cases x) (auto dest: send_challenge_same)
  have "auth_keeps d sp (if r \<noteq> B64_OK then Ok (False, answer_code ''551'' (d\<lparr>s_input := ss, s_buffer := b\<rparr>), sp)
      else check_digest st (d\<lparr>s_input := ss, s_buffer := b\<rparr>) sp)" if "length b = length (s_buffer d)" for r ss b
  proof -
    have e: "same_envelope d (d\<lparr>s_input := ss, s_buffer := b\<rparr>)" using that by (simp add: same_envelope_def)
    from auth_keeps_trans [OF e check_digest_keeps] e show ?thesis by simp
  qed
  then show "auth_keeps c sp (case x of (ch, c) \<Rightarrow> bindo (ReadString 511 ch (s_input c)) (\<lambda>(r, ch, ss).
     let c = c\<lparr>s_input := ss\<rparr> in
     case r of
       None \<Rightarrow> Ok (True, FreeSMTPSession c, sp)
     | Some result \<Rightarrow>
         bindo (decode_into ch result (s_buffer c)) (\<lambda>(r, buf).
         let c = c\<lparr>s_buffer := buf\<rparr> in
         if r \<noteq> B64_OK then Ok (False, answer_code ''551'' c, sp) else check_digest st c sp)))"
    unfolding x by (auto simp: Let_def dest!: decode_into_length split: option.split intro!: auth_keeps_bind auth_keeps_trans [OF d])
qed

lemma cmd_AUTH_ok:
  assumes ok: "smtp_ok st c" and run: "cmd_AUTH e st c sp = Ok (fin, c', sp')"
  shows "(\<not> fin \<longrightarrow> smtp_ok st c') \<and> sp' = sp"
proof (cases "sstate c = SS_HELO")
  case True
  have "same_envelope c c' \<Longrightarrow> smtp_ok st c'" using ok True by (simp add: smtp_ok_def same_envelope_def)
  then show ?thesis
    using run True ok auth_LOGIN_keeps [of c sp st] auth_CRAM_MD5_keeps [of c sp e st]
    by (auto simp: cmd_AUTH_def Let_def auth_keeps_def split: if_splits)
qed (use run ok in \<open>auto simp: cmd_AUTH_def\<close>)

lemma smtp_dispatch_ok:
  assumes ok: "smtp_ok st c" and run: "smtp_dispatch e result st c sp = Ok (fin, c', sp')"
  shows "(\<not> fin \<longrightarrow> smtp_ok st c') \<and> spools st c sp sp'"
proof -
  have other: ?thesis if "(\<not> fin \<longrightarrow> smtp_ok st c') \<and> sp' = sp" using that by simp
  show ?thesis
  proof (cases "smtp_cmd_of (get32 (s_buffer c) 0)")
    case HELO
    then show ?thesis using run cmd_HELO_ok [OF ok] by (intro other) (simp add: smtp_dispatch_def)
  next
    case EHLO
    then show ?thesis using run cmd_HELO_ok [OF ok] by (intro other) (simp add: smtp_dispatch_def)
  next
    case MAIL
    then show ?thesis using run cmd_MAIL_ok [OF ok] by (intro other) (simp add: smtp_dispatch_def)
  next
    case RCPT
    then show ?thesis using run cmd_RCPT_ok [OF ok] by (intro other) (simp add: smtp_dispatch_def)
  next
    case DATA
    then show ?thesis using run cmd_DATA_ok [OF ok] by (simp add: smtp_dispatch_def)
  next
    case AUTH
    then show ?thesis using run cmd_AUTH_ok [OF ok] by (intro other) (simp add: smtp_dispatch_def)
  next
    case SRSET
    then show ?thesis using run ok
      by (auto simp: smtp_dispatch_def cmd_RSET_smtp_def smtp_ok_def FreeSMTPSession_def answer_def)
  next
    case SQUIT
    then show ?thesis using run by (intro other) (auto simp: smtp_dispatch_def Let_def bindo_Ok_iff)
  qed (use run ok in \<open>auto simp: smtp_dispatch_def\<close>)
qed

lemma smtp_command_ok:
  assumes ok: "smtp_ok st c" and run: "smtp_command e st c sp = Ok (fin, c', sp')"
  shows "(\<not> fin \<longrightarrow> smtp_ok st c') \<and> spools st c sp sp'"
proof -
  obtain r b ss where r: "ReadString (alc_buf_size st - 1) (s_buffer c) (s_input c) = Ok (r, b, ss)"
    using run by (auto simp: smtp_command_def bindo_Ok_iff)
  show ?thesis
  proof (cases r)
    case None
    then show ?thesis using run r by (auto simp: smtp_command_def)
  next
    case (Some result)
    let ?c = "c\<lparr>s_buffer := upcase4 b, s_input := ss\<rparr>"
    have "smtp_ok st ?c" using ok ReadString_length [OF r] by (simp add: smtp_ok_def upcase4_def allowed_def)
    moreover have "smtp_dispatch e result st ?c sp = Ok (fin, c', sp')" using run r Some by (simp add: smtp_command_def)
    ultimately have "(\<not> fin \<longrightarrow> smtp_ok st c') \<and> spools st ?c sp sp'" by (rule smtp_dispatch_ok)
    then show ?thesis by (simp add: spools_def allowed_def)
  qed
qed

section \<open>All sessions\<close>

record smtp_system =
  box :: mail_store
  spool :: "smtpmsg list"
  clients_of :: "nat \<Rightarrow> smtp_conn option"

datatype smtp_event =
    SConnect nat bytes segments
  | SCommand nat smtp_calls

definition smtp_step :: "smtp_system outcome \<Rightarrow> smtp_event \<Rightarrow> smtp_system outcome" where
  "smtp_step so ev = bindo so (\<lambda>s. case ev of
     SConnect t buf ss \<Rightarrow> bindo (smtp_start buf ss (box s)) (\<lambda>c. Ok (s\<lparr>clients_of := (clients_of s)(t \<mapsto> c)\<rparr>))
   | SCommand t e \<Rightarrow> (case clients_of s t of
         None \<Rightarrow> Ok s
       | Some c \<Rightarrow> bindo (smtp_command e (box s) c (spool s)) (\<lambda>(fin, c, sp).
           Ok (s\<lparr>spool := sp, clients_of := (clients_of s)(t := if fin then None else Some c)\<rparr>))))"

definition smtp_event_ok :: "smtp_system outcome \<Rightarrow> smtp_event \<Rightarrow> bool" where
  "smtp_event_ok so ev = (case so of Crash _ \<Rightarrow> True | Ok s \<Rightarrow> (case ev of
     SConnect t buf ss \<Rightarrow> clients_of s t = None \<and> length buf = alc_buf_size (box s) | SCommand t e \<Rightarrow> True))"

definition smtp_inv :: "smtp_system outcome \<Rightarrow> bool" where
  "smtp_inv so \<longleftrightarrow> (\<forall>s. so = Ok s \<longrightarrow> (\<forall>t c. clients_of s t = Some c \<longrightarrow> smtp_ok (box s) c))"

lemma smtp_start_ok: "smtp_start buf ss st = Ok c \<Longrightarrow> length buf = alc_buf_size st \<Longrightarrow> smtp_ok st c"
  by (auto simp: smtp_start_def Let_def bindo_Ok_iff smtp_ok_def answer_def dest!: sprintf_length)

lemma smtp_command_step:
  assumes "smtp_step (Ok s) (SCommand t e) = Ok s'" "clients_of s t = Some c"
  obtains fin c' where "smtp_command e (box s) c (spool s) = Ok (fin, c', spool s')" "box s' = box s"
    "clients_of s' = (clients_of s)(t := if fin then None else Some c')"
  using assms by (auto simp: smtp_step_def bindo_Ok_iff)

interpretation smtp: machine smtp_step smtp_event_ok smtp_inv
proof
  fix so ev assume inv: "smtp_inv so" and ok: "smtp_event_ok so ev"
  show "smtp_inv (smtp_step so ev)"
  proof (cases so)
    case (Ok s)
    then have c: "smtp_ok (box s) c" if "clients_of s t = Some c" for t c using inv that by (auto simp: smtp_inv_def)
    show ?thesis
    proof (cases ev)
      case (SConnect t buf ss)
      then show ?thesis using Ok ok c smtp_start_ok [of buf ss "box s"]
        by (auto simp: smtp_inv_def smtp_step_def smtp_event_ok_def bindo_Ok_iff split: if_splits)
    next
      case (SCommand t e)
      have "smtp_ok (box s') d" if run: "smtp_step (Ok s) (SCommand t e) = Ok s'" and d: "clients_of s' t' = Some d" for s' t' d
      proof (cases "clients_of s t")
        case None
        with run d c show ?thesis by (auto simp: smtp_step_def)
      next
        case (Some c0)
        from smtp_command_step [OF run Some] obtain fin c' where r: "smtp_command e (box s) c0 (spool s) = Ok (fin, c', spool s')"
          "box s' = box s" "clients_of s' = (clients_of s)(t := if fin then None else Some c')" .
        from smtp_command_ok [OF c [OF Some] r(1)] have "\<not> fin \<longrightarrow> smtp_ok (box s) c'" by simp
        with r(2,3) d c show ?thesis by (auto split: if_splits)
      qed
      then show ?thesis by (simp add: smtp_inv_def Ok SCommand)
    qed
  qed (simp add: smtp_inv_def smtp_step_def)
qed

definition smtp_begin :: "mail_store \<Rightarrow> smtp_system" where
  "smtp_begin st = \<lparr>box = st, spool = [], clients_of = (\<lambda>_. None)\<rparr>"

text \<open>C20: In every interleaving of SMTP sessions, a command changes the spool at most by one message
  more, and each recipient of this message is the user of a mailbox of this server, unless the session
  that sent it is authenticated: the server is no open relay.\<close>

theorem no_open_relay:
  assumes "smtp.run (Ok (smtp_begin st)) evs = Ok s" "smtp.run_ok (Ok (smtp_begin st)) evs"
    and "smtp_step (Ok s) (SCommand t e) = Ok s'"
  shows "spool s' = spool s \<or> (\<exists>c m. clients_of s t = Some c \<and> spool s' = m # spool s \<and>
    (\<forall>r \<in> set (sm_to m). local_user (box s) r \<or> s_auth c))"
proof (cases "clients_of s t")
  case None
  then show ?thesis using assms(3) by (auto simp: smtp_step_def)
next
  case (Some c)
  have "smtp_inv (Ok (smtp_begin st))" by (simp add: smtp_inv_def smtp_begin_def)
  from smtp.run_inv [OF this assms(2)] assms(1) Some have ok: "smtp_ok (box s) c" by (simp add: smtp_inv_def)
  from smtp_command_step [OF assms(3) Some] obtain fin c' where r: "smtp_command e (box s) c (spool s) = Ok (fin, c', spool s')" .
  from smtp_command_ok [OF ok r] have "spools (box s) c (spool s) (spool s')" by simp
  then show ?thesis using Some by (auto simp: spools_def allowed_def)
qed

section \<open>The text of a message, continued\<close>

text \<open>C21: Whatever the segments in which a message arrives, as long as it fits the buffer and its end
  is the first line with a single dot, the spool file holds the \<open>Received\<close> line and the message
  without the end, and the session can go on with the next message.\<close>

theorem message_stored_from_any_segments:
  assumes "ends_once body" "\<forall>s \<in> set (s_input c). s \<noteq> []" "concat (s_input c) = terminated body"
    and "length (terminated body) \<le> alc_buf_size st" "length (s_buffer c) = alc_buf_size st"
    and "sstate c = SS_RCPT" "s_msgs c = m # ms" "s_user c = Some u" "mkstemp_ok e"
    and "length (received_line u (peer e) st) < alc_buf_size st"
  shows "\<exists>c'. cmd_DATA e st c sp = Ok (False, c', m\<lparr>sm_file := Some (received_line u (peer e) st @ body)\<rparr> # sp) \<and>
    s_input c' = [] \<and> s_msgs c' = [] \<and> sstate c' = SS_HELO"
proof -
  let ?l = "received_line u (peer e) st"
  obtain b where b: "sprintf_at (s_buffer c) 0 ?l = Ok b" using assms(5,10) by (simp add: sprintf_at_def)
  have "length b = alc_buf_size st" using sprintf_length [OF b] assms(5) by simp
  with data_loop_stores [OF assms(1,2), of "[]" 0 b "alc_buf_size st" ?l] assms(3,4)
  obtain buf' where "data_loop (alc_buf_size st) 0 b ?l (s_input c) = Ok (Some (?l @ body), buf', [])"
    by (auto simp: pending_def last_cr_def)
  with b assms(6-9) show ?thesis by (simp add: cmd_DATA_def Let_def answer_def)
qed

text \<open>When the buffer is full and its last byte is a carriage return, nothing is written and the next
  \<open>recv\<close> has no room: the message and the connection are given up.\<close>

lemma last_cr_end: "x \<noteq> [] \<Longrightarrow> last x = 13 \<Longrightarrow> last_cr x = Some (length x - 1)"
  by (cases x rule: rev_cases) (auto simp: last_cr_def)

lemma full_buffer_loses_message:
  assumes "0 < n" "n \<le> length s" "s ! (n - 1) = 13" "n \<le> length buf"
  shows "\<exists>buf' ss'. data_loop n 0 buf w (s # ss) = Ok (None, buf', ss')"
proof -
  let ?d = "take n s" let ?b = "blit buf 0 ?d"
  obtain rest where r: "recv n (s # ss) = (Some ?d, rest)" using assms(1,2) by (cases s) auto
  have d: "length ?d = n" "?d \<noteq> []" using assms(1,2) by auto
  then have l: "length ?d = n" "?d \<noteq> []" "last ?d = 13" using last_conv_nth [OF d(2)] assms(1,3) by simp_all
  have t: "take n ?b = ?d" using take_blit_end [of 0 ?d buf] l(1) assms(4) by simp
  have z: "recv 0 rest = (None, rest)" by (cases rest) auto
  have "data_loop n 0 buf w (s # ss) = data_loop n n ?b w rest"
    using r l t last_cr_end [OF l(2,3)] assms(4) by (subst data_loop.simps) (simp add: Let_def)
  moreover have "data_loop n n ?b w rest = Ok (None, ?b, rest)" by (subst data_loop.simps) (simp add: z)
  ultimately have "data_loop n 0 buf w (s # ss) = Ok (None, ?b, rest)" by simp
  then show ?thesis by blast
qed

section \<open>Lines\<close>

lemma c_toupper_eq_0 [simp]: "c_toupper b = 0 \<longleftrightarrow> b = 0"
proof (cases "97 \<le> b \<and> b \<le> 122")
  case True
  then have "b \<noteq> 32" "b \<noteq> 0" by auto
  with True show ?thesis by (auto simp: c_toupper_def)
qed (auto simp: c_toupper_def)

lemma cstr_line: "0 \<notin> set u \<Longrightarrow> cstr (u @ 0 # v) = u"
  unfolding cstr_def by (rule takeWhile_stop) auto

text \<open>A command line in a segment of its own.\<close>

lemma smtp_line:
  assumes "length (s_buffer c) = alc_buf_size st" "s_input c = (u @ [13, 10]) # post" "13 \<notin> set u" "4 \<le> length u"
    and "length u + 3 \<le> alc_buf_size st"
  shows "\<exists>v. smtp_command e st c sp =
      smtp_dispatch e (length u + 1) st (c\<lparr>s_buffer := map c_toupper (take 4 u) @ drop 4 u @ 0 # v, s_input := post\<rparr>) sp \<and>
    length (u @ 0 # v) = alc_buf_size st"
proof -
  let ?n = "alc_buf_size st - 1"
  have "\<exists>buf. read_line ?n 0 (s_buffer c) ((u @ 13 # [10]) # post) = Ok (Some (length u + 1), buf, post) \<and>
      take (length u) buf = u \<and> buf ! length u = 0 \<and> length buf = length (s_buffer c)"
    using read_line_takes [of "[]" u ?n "s_buffer c" 0 "[10]" post] assms by simp
  then obtain buf where r: "ReadString ?n (s_buffer c) (s_input c) = Ok (Some (length u + 1), buf, post)"
    and b: "take (length u) buf = u" "buf ! length u = 0" "length buf = alc_buf_size st"
    using assms(1,2) unfolding ReadString_def by auto
  let ?v = "drop (length u + 1) buf"
  have "buf = take (length u) buf @ buf ! length u # drop (Suc (length u)) buf"
    using assms(4,5) b(3) by (intro id_take_nth_drop) simp
  then have buf: "buf = u @ 0 # ?v" unfolding b by simp
  have "upcase4 buf = map c_toupper (take 4 u) @ drop 4 u @ 0 # ?v"
    unfolding upcase4_def by (subst (1 2) buf) (use assms(4) in simp)
  moreover have "length (u @ 0 # ?v) = alc_buf_size st" using buf b(3) by metis
  ultimately show ?thesis using r by (intro exI [of _ ?v]) (simp add: smtp_command_def)
qed

text \<open>When a client in the middle of a message sends \<open>HELO\<close> without a name, the session is
  emptied but stays in the state that waits for recipients; the next recipient makes the server follow
  a null pointer.\<close>

theorem bare_helo_then_rcpt_crashes:
  assumes "sstate c = SS_RCPT" "length (s_buffer c) = alc_buf_size st" "200 \<le> alc_buf_size st"
    and "s_input c = [72, 69, 76, 79, 13, 10] # ([82, 67, 80, 84, 32, 84, 79, 58, 60] @ a @ [62, 13, 10]) # post"
    and "0 \<notin> set a" "13 \<notin> set a" "60 \<notin> set a" "62 \<notin> set a" "a \<noteq> []" "length a < 100" "local_user st a"
  shows "\<exists>c'. smtp_command e st c sp = Ok (False, c', sp) \<and> smtp_command e' st c' sp = Crash NullPointer"
proof -
  let ?rcpt = "[82, 67, 80, 84, 32, 84, 79, 58, 60] @ a @ [62]"
  let ?helo = "[72, 69, 76, 79] :: byte list" let ?post = "([82, 67, 80, 84, 32, 84, 79, 58, 60] @ a @ [62, 13, 10]) # post"
  have h: "s_input c = (?helo @ [13, 10]) # ?post" "13 \<notin> set ?helo" "4 \<le> length ?helo" "length ?helo + 3 \<le> alc_buf_size st"
    using assms(3,4) by simp_all
  have m: "map c_toupper (take 4 ?helo) @ drop 4 ?helo @ 0 # v = ?helo @ 0 # v" for v by (simp add: c_toupper_def)
  obtain v where v: "smtp_command e st c sp = smtp_dispatch e (length ?helo + 1) st (c\<lparr>s_buffer := ?helo @ 0 # v, s_input := ?post\<rparr>) sp"
      "length (?helo @ 0 # v) = alc_buf_size st"
    using smtp_line [OF assms(2) h, of e sp] unfolding m by blast
  let ?c = "answer_code ''501'' (FreeSMTPSession (c\<lparr>s_buffer := [72, 69, 76, 79] @ 0 # v,
      s_input := ([82, 67, 80, 84, 32, 84, 79, 58, 60] @ a @ [62, 13, 10]) # post\<rparr>))"
  have 1: "smtp_command e st c sp = Ok (False, ?c, sp)"
    unfolding v by (simp add: smtp_dispatch_def smtp_cmd_of_def get32_def cmd_HELO_def assms(1))
  have c: "sstate ?c = SS_RCPT" "s_msgs ?c = []" "length (s_buffer ?c) = alc_buf_size st"
    "s_input ?c = (?rcpt @ [13, 10]) # post"
    using assms(1) v(2) by (simp_all add: answer_def FreeSMTPSession_def)
  have "13 \<notin> set ?rcpt" "4 \<le> length ?rcpt" "length ?rcpt + 3 \<le> alc_buf_size st" using assms(3,6,10) by simp_all
  from smtp_line [OF c(3,4) this, of e' sp] obtain w where
    w: "smtp_command e' st ?c sp = smtp_dispatch e' (length ?rcpt + 1) st (?c\<lparr>s_buffer := ?rcpt @ 0 # w, s_input := post\<rparr>) sp"
    by (auto simp: c_toupper_def)
  let ?d = "?c\<lparr>s_buffer := ?rcpt @ 0 # w, s_input := post\<rparr>"
  have line: "cstr (s_buffer ?d) = ?rcpt" using cstr_line [of ?rcpt w] assms(5) by simp
  have "takeWhile (\<lambda>x. x \<noteq> 62) (a @ [62]) = a" by (rule takeWhile_stop) (use assms(8) in auto)
  then have e1: "strchr 62 ?rcpt = Some (length a + 9)" by (simp add: strchr_def)
  have b1: "strchr 60 ?rcpt = Some 8" by (simp add: strchr_def)
  have "(s_buffer ?d)[length a + 9 := 0] = [82, 67, 80, 84, 32, 84, 79, 58, 60] @ a @ 0 # 0 # w"
    by (simp add: list_update_append numeral_eq_Suc)
  then have br: "bracketed (s_buffer ?d) 8 (length a + 9) = a"
    unfolding bracketed_def using cstr_line [of a "0 # w"] assms(5) by simp
  have "cmd_RCPT st ?d sp = Crash NullPointer"
    unfolding cmd_RCPT_def Let_def line e1 b1 using assms(9,11) c(1,2) br by simp
  moreover have "smtp_dispatch e' (length ?rcpt + 1) st ?d sp = cmd_RCPT st ?d sp"
    by (simp add: smtp_dispatch_def smtp_cmd_of_def get32_def)
  ultimately show ?thesis using 1 w by (intro exI [of _ ?c]) simp
qed

section \<open>Sessions of the example\<close>

text \<open>\<open>HELO h\<close>, \<open>MAIL <>\<close>, \<open>RCPT <a>\<close>, \<open>DATA\<close> and a message.\<close>

definition relay_store :: mail_store where
  "relay_store = \<lparr>MBX = [\<lparr>mb_user = [97], mb_password = [120]\<rparr>], holder = (\<lambda>_. None), files = [], dirs = [],
     server_fqdn = [113], alc_buf_size = 32, md5_room = 40\<rparr>"

definition relay_calls :: smtp_calls where
  "relay_calls = \<lparr>peer = [], now = 0, mkstemp_ok = True\<rparr>"

definition relay_buffer :: bytes where
  "relay_buffer = [0, 0, 0, 0, 0, 0, 0, 0, 0, 0, 0, 0, 0, 0, 0, 0, 0, 0, 0, 0, 0, 0, 0, 0, 0, 0, 0, 0, 0, 0, 0, 0]"

definition relay_conn0 :: smtp_conn where
  "relay_conn0 = \<lparr>sstate = SS_NONE, s_auth = False, s_user = None, s_greeting = None, s_msgs = [],
     s_buffer = [50, 50, 48, 32, 113, 13, 10, 0, 0, 0, 0, 0, 0, 0, 0, 0, 0, 0, 0, 0, 0, 0, 0, 0, 0, 0, 0, 0, 0, 0, 0, 0],
     s_input = [[72, 69, 76, 79, 32, 104, 13, 10], [77, 65, 73, 76, 32, 60, 62, 13, 10], [82, 67, 80, 84, 32, 60, 97, 62, 13, 10], [68, 65, 84, 65, 13, 10], [104, 105, 13, 10, 46], [13, 10]], s_output = [50, 50, 48, 32, 113, 13, 10]\<rparr>"

definition relay_conn1 :: smtp_conn where
  "relay_conn1 = \<lparr>sstate = SS_HELO, s_auth = False, s_user = Some [104], s_greeting = None, s_msgs = [],
     s_buffer = [50, 53, 48, 32, 113, 13, 10, 0, 0, 0, 0, 0, 0, 0, 0, 0, 0, 0, 0, 0, 0, 0, 0, 0, 0, 0, 0, 0, 0, 0, 0, 0],
     s_input = [[77, 65, 73, 76, 32, 60, 62, 13, 10], [82, 67, 80, 84, 32, 60, 97, 62, 13, 10], [68, 65, 84, 65, 13, 10], [104, 105, 13, 10, 46], [13, 10]], s_output = [50, 50, 48, 32, 113, 13, 10, 50, 53, 48, 32, 113, 13, 10]\<rparr>"

definition relay_conn2 :: smtp_conn where
  "relay_conn2 = \<lparr>sstate = SS_RCPT, s_auth = False, s_user = Some [104], s_greeting = None, s_msgs = [\<lparr>sm_from = [66, 111, 117, 110, 99, 101, 100], sm_to = [], sm_file = None\<rparr>],
     s_buffer = [77, 65, 73, 76, 32, 60, 0, 0, 10, 0, 0, 0, 0, 0, 0, 0, 0, 0, 0, 0, 0, 0, 0, 0, 0, 0, 0, 0, 0, 0, 0, 0],
     s_input = [[82, 67, 80, 84, 32, 60, 97, 62, 13, 10], [68, 65, 84, 65, 13, 10], [104, 105, 13, 10, 46], [13, 10]], s_output = [50, 50, 48, 32, 113, 13, 10, 50, 53, 48, 32, 113, 13, 10, 50, 53, 48, 13, 10]\<rparr>"

definition relay_conn3 :: smtp_conn where
  "relay_conn3 = \<lparr>sstate = SS_RCPT, s_auth = False, s_user = Some [104], s_greeting = None, s_msgs = [\<lparr>sm_from = [66, 111, 117, 110, 99, 101, 100], sm_to = [[97]], sm_file = None\<rparr>],
     s_buffer = [82, 67, 80, 84, 32, 60, 97, 0, 0, 10, 0, 0, 0, 0, 0, 0, 0, 0, 0, 0, 0, 0, 0, 0, 0, 0, 0, 0, 0, 0, 0, 0],
     s_input = [[68, 65, 84, 65, 13, 10], [104, 105, 13, 10, 46], [13, 10]], s_output = [50, 50, 48, 32, 113, 13, 10, 50, 53, 48, 32, 113, 13, 10, 50, 53, 48, 13, 10, 50, 53, 48, 13, 10]\<rparr>"

lemmas relay_defs = relay_store_def relay_calls_def relay_conn0_def relay_conn1_def relay_conn2_def relay_conn3_def

lemma relay_connect: "smtp_start relay_buffer (s_input relay_conn0) relay_store = Ok relay_conn0"
  by (simp add: smtp_start_def relay_defs relay_buffer_def Let_def sprintf_at_def bytes_of_def crlf_def blit_def answer_def)

lemma relay_helo: "smtp_command relay_calls relay_store relay_conn0 [] = Ok (False, relay_conn1, [])"
  by (simp add: smtp_command_def ReadString_def relay_defs, subst read_line.simps)
    (simp add: cmd_HELO_def sprintf_at_def upcase4_def c_toupper_def blit_def smtp_dispatch_def smtp_cmd_of_def get32_def Let_def cstr_def answer_def bytes_of_def crlf_def)

lemma relay_mail: "smtp_command relay_calls relay_store relay_conn1 [] = Ok (False, relay_conn2, [])"
  by (simp add: smtp_command_def ReadString_def relay_defs, subst read_line.simps)
    (simp add: cmd_MAIL_def strchr_def bracketed_def upcase4_def c_toupper_def blit_def smtp_dispatch_def smtp_cmd_of_def get32_def Let_def cstr_def answer_def bytes_of_def crlf_def)

lemma relay_rcpt: "smtp_command relay_calls relay_store relay_conn2 [] = Ok (False, relay_conn3, [])"
  by (simp add: smtp_command_def ReadString_def relay_defs, subst read_line.simps)
    (simp add: cmd_RCPT_def strchr_def bracketed_def local_user_def stricmp_eq_def upcase4_def c_toupper_def blit_def smtp_dispatch_def smtp_cmd_of_def get32_def Let_def cstr_def answer_def bytes_of_def crlf_def)

lemma relay_data:
  "\<exists>c m. smtp_command relay_calls relay_store relay_conn3 [] = Ok (False, c, [m]) \<and> sm_to m = [[97]]"
proof -
  let ?d = "[68, 65, 84, 65] :: byte list" let ?ss = "[[104, 105, 13, 10, 46], [13, 10]]"
  have f: "length (s_buffer relay_conn3) = alc_buf_size relay_store" "s_input relay_conn3 = (?d @ [13, 10]) # ?ss" "13 \<notin> set ?d"
    "4 \<le> length ?d" "length ?d + 3 \<le> alc_buf_size relay_store"
    by (simp_all add: relay_conn3_def relay_store_def)
  have m: "map c_toupper (take 4 ?d) @ drop 4 ?d @ 0 # v = ?d @ 0 # v" for v by (simp add: c_toupper_def)
  obtain v where v: "smtp_command relay_calls relay_store relay_conn3 [] =
      smtp_dispatch relay_calls (length ?d + 1) relay_store (relay_conn3\<lparr>s_buffer := ?d @ 0 # v, s_input := ?ss\<rparr>) []"
      "length (?d @ 0 # v) = alc_buf_size relay_store"
    using smtp_line [OF f, of relay_calls "[]"] unfolding m by blast
  let ?c = "relay_conn3\<lparr>s_buffer := ?d @ 0 # v, s_input := ?ss\<rparr>"
  let ?l = "received_line [104] [] relay_store"
  have ll: "length ?l = 25" by (simp add: received_line_def relay_store_def crlf_def)
  then obtain b where b: "sprintf_at (s_buffer ?c) 0 ?l = Ok b" using v(2) by (simp add: sprintf_at_def relay_store_def)
  have "length b = 32" using sprintf_length [OF b] v(2) by (simp add: relay_store_def)
  with data_loop_stores [of "[104, 105]" "[[104, 105, 13, 10, 46], [13, 10]]" "[]" 0 b 32 ?l]
  obtain b' where "data_loop 32 0 b ?l [[104, 105, 13, 10, 46], [13, 10]] = Ok (Some (?l @ [104, 105]), b', [])"
    by (auto simp: pending_def last_cr_def ends_once_def terminated_def less_Suc_eq)
  with b show ?thesis unfolding v(1)
    by (simp add: smtp_dispatch_def smtp_cmd_of_def get32_def cmd_DATA_def Let_def answer_def relay_defs)
qed

theorem no_open_relay_witness:
  "\<exists>s s' m. smtp.run (Ok (smtp_begin relay_store)) [SConnect 2 relay_buffer (s_input relay_conn0), SCommand 2 relay_calls,
       SCommand 2 relay_calls, SCommand 2 relay_calls] = Ok s \<and>
     smtp_step (Ok s) (SCommand 2 relay_calls) = Ok s' \<and> spool s' = m # spool s \<and> sm_to m = [[97]] \<and> local_user relay_store [97]"
proof -
  let ?evs = "[SConnect 2 relay_buffer (s_input relay_conn0), SCommand 2 relay_calls, SCommand 2 relay_calls, SCommand 2 relay_calls]"
  let ?s = "\<lparr>box = relay_store, spool = [], clients_of = [2 \<mapsto> relay_conn3]\<rparr>"
  have run: "smtp.run (Ok (smtp_begin relay_store)) ?evs = Ok ?s"
    by (simp add: smtp_step_def smtp_begin_def relay_connect relay_helo relay_mail relay_rcpt)
  have "length relay_buffer = alc_buf_size relay_store" by (simp add: relay_buffer_def relay_store_def)
  then have ok: "smtp.run_ok (Ok (smtp_begin relay_store)) ?evs"
    by (simp add: smtp_event_ok_def smtp_step_def smtp_begin_def relay_connect relay_helo relay_mail relay_rcpt)
  obtain c m where d: "smtp_command relay_calls relay_store relay_conn3 [] = Ok (False, c, [m])" "sm_to m = [[97]]"
    using relay_data by blast
  then have step: "smtp_step (Ok ?s) (SCommand 2 relay_calls) = Ok \<lparr>box = relay_store, spool = [m], clients_of = [2 \<mapsto> c]\<rparr>"
    by (simp add: smtp_step_def)
  have "\<not> s_auth relay_conn3" by (simp add: relay_conn3_def)
  with no_open_relay [OF run ok step] d(2) have "local_user relay_store [97]" by auto
  with run step d(2) show ?thesis by auto
qed

theorem message_stored_from_any_segments_witness:
  "\<exists>c'. cmd_DATA relay_calls relay_store (relay_conn3\<lparr>s_input := [[104], [105, 13], [10, 46, 13], [10]]\<rparr>) [] =
     Ok (False, c', [\<lparr>sm_from = [66, 111, 117, 110, 99, 101, 100], sm_to = [[97]],
       sm_file = Some (received_line [104] [] relay_store @ [104, 105])\<rparr>])"
proof -
  have l: "length (received_line [104] [] relay_store) < alc_buf_size relay_store"
    by (simp add: received_line_def relay_store_def crlf_def)
  show ?thesis
    using message_stored_from_any_segments [of "[104, 105]" "relay_conn3\<lparr>s_input := [[104], [105, 13], [10, 46, 13], [10]]\<rparr>" relay_store
        "\<lparr>sm_from = [66, 111, 117, 110, 99, 101, 100], sm_to = [[97]], sm_file = None\<rparr>" "[]" "[104]" relay_calls "[]"] l
    by (auto simp: ends_once_def terminated_def less_Suc_eq relay_conn3_def relay_store_def relay_calls_def)
qed

theorem bare_helo_then_rcpt_crashes_witness:
  "\<exists>c'. smtp_command relay_calls (relay_store\<lparr>alc_buf_size := 200\<rparr>)
      (relay_conn3\<lparr>s_buffer := replicate 200 0, s_input := [[72, 69, 76, 79, 13, 10], [82, 67, 80, 84, 32, 84, 79, 58, 60, 97, 62, 13, 10]]\<rparr>) [] =
      Ok (False, c', []) \<and> smtp_command relay_calls (relay_store\<lparr>alc_buf_size := 200\<rparr>) c' [] = Crash NullPointer"
proof (rule bare_helo_then_rcpt_crashes)
  show "local_user (relay_store\<lparr>alc_buf_size := 200\<rparr>) [97]" by (simp add: local_user_def relay_store_def)
qed (simp_all add: relay_conn3_def)

end
