(* ===== verification/MailDelivery.thy ===== *)
theory MailDelivery
  imports MailSpooler MailRelay "HOL-Library.Multiset"
begin

text \<open>
  What the spooler of \<open>QX-mail/spooler.c\<close> does with a message: the copies in the local mailboxes,
  the transfers by domain, the question and the answer about mail exchangers, the attempts to connect, and what a
  remote server gets to read.
\<close>

section \<open>Local copies\<close>

definition is_local :: "mail_store \<Rightarrow> bytes \<Rightarrow> bool" where
  "is_local st r \<longleftrightarrow> find_mailbox (MBX st) r 0 \<noteq> None"

definition mailbox_of :: "mail_store \<Rightarrow> bytes \<Rightarrow> bytes" where
  "mailbox_of st r = mb_user (MBX st ! the (find_mailbox (MBX st) r 0))"

text \<open>The names that are made for the local recipients, numbered from \<open>k\<close>, with the directories they are in.\<close>

definition local_names :: "spool_env \<Rightarrow> mail_store \<Rightarrow> bytes list \<Rightarrow> nat \<Rightarrow> (bytes \<times> bytes) list" where
  "local_names e st rs k = map (\<lambda>(i, r). (mailbox_of st r, file_name e (mailbox_of st r) i)) (enumerate k (filter (is_local st) rs))"

fun link_names :: "bytes \<Rightarrow> (bytes \<times> bytes) list \<Rightarrow> mail_store \<Rightarrow> mail_store" where
  "link_names c [] st = st"
| "link_names c ((dir, p) # ns) st = link_names c ns (link_file (Some c) dir p st)"

text \<open>No session holds the mailbox of a local recipient, and the names fit the buffer.\<close>

definition mailboxes_free :: "mail_store \<Rightarrow> bytes list \<Rightarrow> bool" where
  "mailboxes_free st rs \<longleftrightarrow> (\<forall>r \<in> set rs. is_local st r \<longrightarrow> holder st (the (find_mailbox (MBX st) r 0)) = None)"

definition names_fit :: "spool_env \<Rightarrow> mail_store \<Rightarrow> bytes list \<Rightarrow> nat \<Rightarrow> bool" where
  "names_fit e st rs k \<longleftrightarrow> (\<forall>n \<in> set (local_names e st rs k). length (snd n) \<le> MAX_NAME e)"

lemma link_file_frame [simp]:
  "MBX (link_file d dir p st) = MBX st" "holder (link_file d dir p st) = holder st" "dirs (link_file d dir p st) = dirs st"
  "server_fqdn (link_file d dir p st) = server_fqdn st"
  by (auto simp: link_file_def split: option.split)

lemma link_file_local [simp]:
  "is_local (link_file d dir p st) = is_local st" "mailbox_of (link_file d dir p st) = mailbox_of st"
  "mailboxes_free (link_file d dir p st) rs = mailboxes_free st rs"
  "local_names e (link_file d dir p st) rs k = local_names e st rs k" "names_fit e (link_file d dir p st) rs k = names_fit e st rs k"
proof -
  show l: "is_local (link_file d dir p st) = is_local st" "mailbox_of (link_file d dir p st) = mailbox_of st"
    by (simp_all add: is_local_def mailbox_of_def fun_eq_iff)
  show "mailboxes_free (link_file d dir p st) rs = mailboxes_free st rs" by (simp add: mailboxes_free_def l)
  show n: "local_names e (link_file d dir p st) rs k = local_names e st rs k" by (simp add: local_names_def l)
  show "names_fit e (link_file d dir p st) rs k = names_fit e st rs k" by (simp add: names_fit_def n)
qed

lemma local_delivery_links:
  assumes "mailboxes_free st rs" "names_fit e st rs k"
  shows "local_delivery e (Some c) rs crcpt k st =
    Some (Ok (rev (filter (\<lambda>r. \<not> is_local st r) rs) @ crcpt, k + length (filter (is_local st) rs), link_names c (local_names e st rs k) st))"
  using assms
proof (induction rs arbitrary: k st crcpt)
  case Nil
  then show ?case by (simp add: local_names_def)
next
  case (Cons r rs)
  then have free: "mailboxes_free st rs" by (simp add: mailboxes_free_def)
  show ?case
  proof (cases "find_mailbox (MBX st) r 0")
    case None
    then have "local_names e st (r # rs) k = local_names e st rs k" by (simp add: is_local_def local_names_def)
    moreover from this Cons.prems(2) have "names_fit e st rs k" by (simp add: names_fit_def)
    ultimately show ?thesis using None Cons.IH [OF free] by (simp add: is_local_def)
  next
    case (Some i)
    let ?p = "file_name e (mb_user (MBX st ! i)) k"
    have r: "is_local st r" "mailbox_of st r = mb_user (MBX st ! i)" using Some by (simp_all add: is_local_def mailbox_of_def)
    then have n: "local_names e st (r # rs) k = (mb_user (MBX st ! i), ?p) # local_names e st rs (Suc k)" by (simp add: local_names_def)
    then have fit: "length ?p \<le> MAX_NAME e" "names_fit e st rs (Suc k)" using Cons.prems(2) by (simp_all add: names_fit_def)
    have "holder st i = None" using Cons.prems(1) r(1) Some by (simp add: mailboxes_free_def)
    with n fit Some r(1) Cons.IH [of "link_file (Some c) (mb_user (MBX st ! i)) ?p st" "Suc k"] free show ?thesis by (simp add: Let_def)
  qed
qed

text \<open>Which of the names come to exist.\<close>

definition linked :: "mail_store \<Rightarrow> (bytes \<times> bytes) list \<Rightarrow> bytes set" where
  "linked st ns = {p. \<exists>dir. (dir, p) \<in> set ns \<and> dir \<in> set (dirs st)} - fst ` set (files st)"

lemma link_names_files:
  "\<exists>new. link_names c ns st = st\<lparr>files := files st @ new\<rparr> \<and> distinct (map fst new) \<and> fst ` set new = linked st ns \<and>
     (\<forall>x \<in> set new. snd x = Regular c)"
proof (induction ns arbitrary: st)
  case Nil
  then show ?case by (intro exI [of _ "[]"]) (simp add: linked_def)
next
  case (Cons n ns)
  obtain dir p where n: "n = (dir, p)" by fastforce
  show ?case
  proof (cases "dir \<in> set (dirs st) \<and> p \<notin> fst ` set (files st)")
    case False
    then have "link_file (Some c) dir p st = st" "linked st (n # ns) = linked st ns" by (auto simp: link_file_def linked_def n)
    with Cons.IH [of st] show ?thesis by (simp add: n)
  next
    case True
    let ?st = "st\<lparr>files := files st @ [(p, Regular c)]\<rparr>"
    from Cons.IH [of ?st] obtain new where new: "link_names c ns ?st = ?st\<lparr>files := files ?st @ new\<rparr>" "distinct (map fst new)"
      "fst ` set new = linked ?st ns" "\<forall>x \<in> set new. snd x = Regular c" by blast
    have "link_names c (n # ns) st = st\<lparr>files := files st @ (p, Regular c) # new\<rparr>" using new(1) True by (simp add: n link_file_def)
    moreover have "p \<notin> fst ` set new" unfolding new(3) by (simp add: linked_def)
    moreover have "insert p (linked ?st ns) = linked st (n # ns)" using True by (auto simp: linked_def n)
    ultimately show ?thesis using new(2-4) by (intro exI [of _ "(p, Regular c) # new"]) simp
  qed
qed

section \<open>One transfer for each domain\<close>

definition same_domain :: "bytes \<Rightarrow> bytes \<Rightarrow> bool" where
  "same_domain r s \<longleftrightarrow> domain_of r \<noteq> None \<and> domain_of s \<noteq> None \<and> stricmp_eq (the (domain_of r)) (the (domain_of s))"

text \<open>The transfers one after another, given their recipients.\<close>

fun transfers :: "(nat \<Rightarrow> spool_net) \<Rightarrow> bytes \<Rightarrow> smtpmsg \<Rightarrow> nat \<Rightarrow> bytes list list \<Rightarrow> bytes \<Rightarrow>
    (delivery \<times> net_call list) list \<Rightarrow> (bytes \<times> (delivery \<times> net_call list) list) run" where
  "transfers nets fqdn m g [] buf log = Some (Ok (buf, log))"
| "transfers nets fqdn m g (to # gs) buf log =
     bindr (transfer (nets g) fqdn m False to (domain_of (last to)) buf) (\<lambda>(res, buf, cs).
       transfers nets fqdn m (Suc g) gs buf (log @ [(res, cs)]))"

lemma collect_partition:
  assumes "\<forall>r \<in> set rs. domain_of r \<noteq> None"
  shows "collect (Some d) rs same rest =
    Ok (rev (filter (\<lambda>r. stricmp_eq d (the (domain_of r))) rs) @ same, rev (filter (\<lambda>r. \<not> stricmp_eq d (the (domain_of r))) rs) @ rest)"
  using assms by (induction rs arbitrary: same rest) auto

lemma stricmp_eq_trans: "stricmp_eq a b \<Longrightarrow> stricmp_eq b c \<Longrightarrow> stricmp_eq a c"
  by (simp add: stricmp_eq_def)

text \<open>The recipients by domain, as the loop collects them.\<close>

function by_domain :: "bytes list \<Rightarrow> bytes list list" where
  "by_domain [] = []"
| "by_domain (r # rs) = (rev (filter (same_domain r) rs) @ [r]) # by_domain (rev (filter (\<lambda>s. \<not> same_domain r s) rs))"
  by pat_completeness auto
termination by (relation "measure length") (auto simp: less_Suc_eq_le)

lemma next_group_by_domain:
  assumes "\<forall>s \<in> set (r # rs). domain_of s \<noteq> None"
  shows "next_group False (r # rs) = Ok (rev (filter (same_domain r) rs) @ [r], domain_of r, rev (filter (\<lambda>s. \<not> same_domain r s) rs))"
proof -
  obtain d where d: "domain_of r = Some d" using assms by auto
  have f: "filter (\<lambda>s. stricmp_eq d (the (domain_of s))) rs = filter (same_domain r) rs"
    "filter (\<lambda>s. \<not> stricmp_eq d (the (domain_of s))) rs = filter (\<lambda>s. \<not> same_domain r s) rs"
    using assms d by (auto simp: same_domain_def intro!: filter_cong)
  have "collect (Some d) rs [r] [] = Ok (rev (filter (same_domain r) rs) @ [r], rev (filter (\<lambda>s. \<not> same_domain r s) rs) @ [])"
    using collect_partition [of rs d "[r]" "[]"] assms unfolding f by simp
  then show ?thesis by (simp add: d)
qed

lemma external_delivery_by_domain:
  assumes "\<forall>r \<in> set rs. domain_of r \<noteq> None"
  shows "external_delivery nets fqdn m False g rs buf log = transfers nets fqdn m g (by_domain rs) buf log"
  using assms
proof (induction rs arbitrary: g buf log rule: by_domain.induct)
  case 1
  then show ?case by simp
next
  case (2 r rs)
  have "\<forall>s \<in> set (rev (filter (\<lambda>s. \<not> same_domain r s) rs)). domain_of s \<noteq> None" using 2 by auto
  note IH = 2(1) [OF this]
  show ?case
    by (simp add: external_delivery.simps(2) next_group_by_domain [OF 2(2)] bindr_def IH del: next_group.simps split: option.split outcome.split)
qed

lemma by_domain_mset: "mset (concat (by_domain rs)) = mset rs"
proof (induction rs rule: by_domain.induct)
  case (2 r rs)
  have "mset (concat (by_domain (r # rs))) = add_mset r (mset (filter (same_domain r) rs) + mset (filter (\<lambda>s. \<not> same_domain r s) rs))"
    using 2 by (simp del: mset_filter)
  also have "mset (filter (same_domain r) rs) + mset (filter (\<lambda>s. \<not> same_domain r s) rs) = mset rs"
    by (induction rs) auto
  finally show ?case by simp
qed simp

lemma by_domain_groups: "to \<in> set (by_domain rs) \<Longrightarrow> to \<noteq> [] \<and> (\<forall>r \<in> set to. r = last to \<or> same_domain (last to) r)"
  by (induction rs rule: by_domain.induct) auto

lemma same_domain_eq: "same_domain a b \<Longrightarrow> same_domain a c \<Longrightarrow> same_domain b c"
  by (auto simp: same_domain_def stricmp_eq_def)

lemma by_domain_members: "\<Union> (set ` set (by_domain rs)) = set rs"
  using arg_cong [OF by_domain_mset, of set_mset] by auto

lemma by_domain_apart: "i < j \<Longrightarrow> j < length (by_domain rs) \<Longrightarrow> r \<in> set (by_domain rs ! i) \<Longrightarrow> s \<in> set (by_domain rs ! j) \<Longrightarrow> \<not> same_domain r s"
proof (induction rs arbitrary: i j rule: by_domain.induct)
  case (2 q qs)
  let ?rest = "rev (filter (\<lambda>s. \<not> same_domain q s) qs)"
  obtain j' where j: "j = Suc j'" using 2 by (cases j) auto
  show ?case
  proof (cases i)
    case 0
    have "s \<in> set ?rest" using 2(3,5) j by_domain_members [of ?rest] by (auto intro: nth_mem)
    then have "\<not> same_domain q s" by simp
    moreover have "r = q \<or> same_domain q r" using 2(4) 0 by auto
    moreover have "same_domain r s \<Longrightarrow> same_domain q r \<Longrightarrow> same_domain q s"
      by (auto simp: same_domain_def intro: stricmp_eq_trans)
    ultimately show ?thesis by auto
  next
    case (Suc i')
    with 2 j show ?thesis by simp
  qed
qed simp

section \<open>The question for mail exchangers\<close>

lemma label_loop_label:
  assumes "pre \<noteq> []" "46 \<notin> set l" "64 \<notin> set l"
  shows "label_loop (pre @ l @ post) (length pre + length l - 1) j =
    label_loop (pre @ l @ post) (length pre - 1) (j + word_of_nat (length l))"
  using assms(2,3)
proof (induction l arbitrary: post j rule: rev_induct)
  case Nil
  then show ?case by simp
next
  case (snoc b l)
  have n: "(pre @ (l @ [b]) @ post) ! (length pre + length (l @ [b]) - 1) = b" by (simp add: nth_append)
  have "label_loop (pre @ (l @ [b]) @ post) (length pre + length (l @ [b]) - 1) j =
      label_loop (pre @ l @ [b] @ post) (length pre + length l - 1) (j + 1)"
    using snoc.prems assms(1) n by (subst label_loop.simps) (simp add: Let_def)
  also have "\<dots> = label_loop (pre @ l @ [b] @ post) (length pre - 1) (j + 1 + word_of_nat (length l))"
    by (rule snoc.IH) (use snoc.prems in auto)
  finally show ?case by (simp add: ac_simps)
qed

lemma label_loop_encodes:
  assumes "\<forall>k \<in> set (ls @ [l]). 46 \<notin> set k \<and> 64 \<notin> set k"
  shows "label_loop (pre @ 64 # dotted ls @ l @ post) (length pre + length (dotted ls @ l)) 0 = Ok (pre @ encode_labels (ls @ [l]) @ post)"
  using assms
proof (induction ls arbitrary: l post rule: rev_induct)
  case Nil
  have "label_loop (pre @ 64 # l @ post) (length pre + length l) 0 = label_loop (pre @ 64 # l @ post) (length pre) (word_of_nat (length l))"
    using label_loop_label [of "pre @ [64]" l post 0] Nil by simp
  also have "\<dots> = Ok (pre @ word_of_nat (length l) # l @ post)" by (subst label_loop.simps) (simp add: list_update_append)
  finally show ?case by (simp add: dotted_def encode_labels_def)
next
  case (snoc k ls)
  let ?pre = "pre @ 64 # dotted ls @ k" and ?n = "word_of_nat (length l) :: byte"
  have "label_loop ((?pre @ [46]) @ l @ post) (length (?pre @ [46]) + length l - 1) 0 =
      label_loop ((?pre @ [46]) @ l @ post) (length (?pre @ [46]) - 1) (0 + ?n)"
    by (rule label_loop_label) (use snoc.prems in auto)
  also have "\<dots> = label_loop (?pre @ ?n # l @ post) (length ?pre - 1) 0"
    by (subst label_loop.simps) (simp add: nth_append list_update_append)
  also have "\<dots> = Ok (pre @ encode_labels (ls @ [k]) @ ?n # l @ post)"
    using snoc.IH [of k "?n # l @ post"] snoc.prems by simp
  finally show ?case by (simp add: dotted_def encode_labels_def add.assoc)
qed

lemma mx_header_bytes:
  assumes "12 \<le> length buf"
  shows "mx_header buf = [0, 2, 1, 0, 0, 1, 0, 0, 0, 0, 0, 0] @ drop 12 buf"
proof -
  have p: "put16 bs i (swap16 2) = bs[i := 0, i + 1 := 2]" "put16 bs i 1 = bs[i := 1, i + 1 := 0]"
    "put16 bs i (swap16 1) = bs[i := 0, i + 1 := 1]" for bs i
    by (simp_all add: put16_def swap16_def)
  have z: "replicate 12 0 = [0, 0, 0, 0, 0, 0, 0, 0, 0, 0, 0, 0 :: byte]" by (simp add: eval_nat_numeral)
  have "blit buf 0 (replicate 12 0) = replicate 12 0 @ drop 12 buf" by (simp add: blit_def)
  then have "blit buf 0 (replicate 12 0) = [0, 0, 0, 0, 0, 0, 0, 0, 0, 0, 0, 0] @ drop 12 buf" unfolding z .
  moreover have "([0, 0, 0, 0, 0, 0, 0, 0, 0, 0, 0, 0] @ r)[0 := 0, 0 + 1 := 2, 2 := 1, 2 + 1 := 0, 4 := 0, 4 + 1 := 1] =
      [0, 2, 1, 0, 0, 1, 0, 0, 0, 0, 0, 0] @ r" for r :: bytes
    by (simp add: eval_nat_numeral)
  ultimately show ?thesis unfolding mx_header_def p by simp
qed

lemma take_put32:
  assumes "n + 4 \<le> length buf"
  shows "take (n + 4) (put32 buf n 0x01000f00) = take n buf @ [0, 15, 0, 1]"
proof -
  obtain m where "length (drop n buf) = Suc (Suc (Suc (Suc m)))" using that [of "length buf - n - 4"] assms by simp
  then obtain x y z w rest where "drop n buf = x # y # z # w # rest" by (fastforce simp: length_Suc_conv simp del: length_drop)
  then have b: "buf = take n buf @ x # y # z # w # rest" by (metis append_take_drop_id)
  have p: "put32 buf n 0x01000f00 = buf[n := 0, n + 1 := 15, n + 2 := 0, n + 3 := 1]" by (simp add: put32_def)
  have l: "length (take n buf) = n" using assms by simp
  have "(q @ x # y # z # w # rest)[length q := 0, length q + 1 := 15, length q + 2 := 0, length q + 3 := 1] = q @ [0, 15, 0, 1] @ rest" for q
    by (simp add: list_update_append eval_nat_numeral)
  from this [of "take n buf"] have "buf[n := 0, n + 1 := 15, n + 2 := 0, n + 3 := 1] = take n buf @ [0, 15, 0, 1] @ rest"
    unfolding l b [symmetric] .
  with l show ?thesis unfolding p by simp
qed

lemma length_encode_labels: "length (encode_labels ls) = length (dotted ls)"
  by (simp add: encode_labels_def dotted_def length_concat comp_def)

lemma mx_query_encodes:
  assumes "\<forall>k \<in> set (ls @ [l]). 46 \<notin> set k \<and> 64 \<notin> set k" "length (dotted ls @ l) + 18 \<le> length buf"
  shows "\<exists>buf'. mx_query buf (64 # dotted ls @ l) = Ok (buf', length (dotted ls @ l) + 18) \<and> length buf' = length buf \<and>
    take (length (dotted ls @ l) + 18) buf' = [0, 2, 1, 0, 0, 1, 0, 0, 0, 0, 0, 0] @ (encode_labels (ls @ [l]) @ [0]) @ [0, 15, 0, 1]"
proof -
  let ?h = "[0, 2, 1, 0, 0, 1, 0, 0, 0, 0, 0, 0] :: bytes" let ?d = "dotted ls @ l" let ?e = "encode_labels (ls @ [l])"
  let ?post = "0 # drop (14 + length ?d) buf" let ?b = "?h @ ?e @ ?post"
  have h: "length ?h = 12" by simp
  have e: "length ?e = length ?d + 1" by (simp add: length_encode_labels) (simp add: dotted_def)
  have q: "blit (mx_header buf) 12 ((64 # ?d) @ [0]) = ?h @ 64 # dotted ls @ l @ ?post"
    using assms(2) drop_append [of "14 + length ?d" ?h "drop 12 buf"] by (simp add: mx_header_bytes blit_def)
  have "label_loop (?h @ 64 # dotted ls @ l @ ?post) (12 + length ?d) 0 = Ok ?b"
    using label_loop_encodes [OF assms(1), of ?h ?post] unfolding h .
  then have "mx_query buf (64 # ?d) = Ok (put32 ?b (14 + length ?d) 0x01000f00, 14 + length ?d + 4)"
    using assms(2) q unfolding mx_query_def by (simp add: Let_def)
  moreover have "length ?b = length buf" using assms(2) e by simp
  moreover have "take (14 + length ?d + 4) (put32 ?b (14 + length ?d) 0x01000f00) = take (14 + length ?d) ?b @ [0, 15, 0, 1]"
    by (rule take_put32) (use assms(2) e in simp)
  moreover have "take (14 + length ?d) ?b = ?h @ ?e @ [0]"
  proof -
    have "length (?h @ ?e @ [0]) = 14 + length ?d" using e by simp
    then have "take (14 + length ?d) ((?h @ ?e @ [0]) @ drop (14 + length ?d) buf) = ?h @ ?e @ [0]" by (metis append_eq_conv_conj)
    then show ?thesis by simp
  qed
  ultimately show ?thesis by (intro exI [of _ "put32 ?b (14 + length ?d) 0x01000f00"]) (simp add: le32.length_wr add.commute)
qed

section \<open>The answer about mail exchangers\<close>

text \<open>A name in a packet as RFC 1035 has it: labels of 1 to 63 bytes, a pointer, or the end.\<close>

inductive name_at :: "bytes \<Rightarrow> nat \<Rightarrow> bytes list \<Rightarrow> bool" for buf where
  name_end: "i < length buf \<Longrightarrow> buf ! i = 0 \<Longrightarrow> name_at buf i []"
| name_label: "i + 1 + length l \<le> length buf \<Longrightarrow> 0 < length l \<Longrightarrow> length l < 64 \<Longrightarrow> unat (buf ! i) = length l \<Longrightarrow>
    take (length l) (drop (i + 1) buf) = l \<Longrightarrow> name_at buf (i + 1 + length l) ls \<Longrightarrow> name_at buf i (l # ls)"
| name_pointer: "i + 1 < length buf \<Longrightarrow> buf ! i AND 0xc0 = 0xc0 \<Longrightarrow> name_at buf (be16 buf i mod 0x4000) ls \<Longrightarrow> name_at buf i ls"

lemma short_label_no_pointer: "unat (b :: byte) < 64 \<Longrightarrow> b AND 0xc0 \<noteq> 0xc0"
proof
  assume b: "unat b < 64" "b AND 0xc0 = 0xc0"
  have "b AND 0xc0 \<le> b" by (simp add: word_and_le2)
  with b have "(0xc0 :: byte) \<le> b" by simp
  then have "192 \<le> unat b" by (simp add: word_le_nat_alt)
  with b(1) show False by simp
qed

lemma dotted_Cons [simp]: "dotted (l # ls) = l @ [DOT] @ dotted ls" "dotted [] = []"
  by (simp_all add: dotted_def)

lemma mx_name_label:
  assumes "i + 1 + length l \<le> length buf" "0 < length l" "length l < 64" "unat (buf ! i) = length l"
    and "take (length l) (drop (i + 1) buf) = l"
  shows "mx_name buf i acc =
    (if 256 < length acc + length l + 1 then Some (Crash OutOfBounds)
     else if length acc + length l + 1 < 256 then mx_name buf (i + 1 + length l) (acc @ l @ [46])
     else Some (Ok (acc @ l)))"
proof -
  have "buf ! i AND 0xc0 \<noteq> 0xc0" "buf ! i \<noteq> 0" using short_label_no_pointer [of "buf ! i"] assms(2-4) by auto
  then show ?thesis using assms by (subst mx_name.simps) (auto simp: Let_def butlast_append)
qed

lemma mx_name_end: "i < length buf \<Longrightarrow> buf ! i = 0 \<Longrightarrow> mx_name buf i acc = Some (Ok (butlast acc))"
  by (subst mx_name.simps) simp

lemma mx_name_pointer:
  "i + 1 < length buf \<Longrightarrow> buf ! i AND 0xc0 = 0xc0 \<Longrightarrow> mx_name buf i acc = mx_name buf (be16 buf i mod 0x4000) acc"
  by (subst mx_name.simps) simp

lemma mx_name_reads:
  "name_at buf i ls \<Longrightarrow> length (acc @ dotted ls) \<le> 256 \<Longrightarrow> mx_name buf i acc = Some (Ok (butlast (acc @ dotted ls)))"
proof (induction i ls arbitrary: acc rule: name_at.induct)
  case (name_label i l ls)
  show ?case
  proof (cases "length acc + length l + 1 < 256")
    case True
    with name_label show ?thesis by (subst mx_name_label [OF name_label(1-5)]) simp
  next
    case False
    with name_label(8) have "ls = []" by (cases ls) auto
    with False name_label show ?thesis by (subst mx_name_label [OF name_label(1-5)]) (simp add: butlast_append)
  qed
qed (simp_all add: mx_name_end mx_name_pointer)

lemma mx_name_overflows:
  "name_at buf i ls \<Longrightarrow> length acc < 256 \<Longrightarrow> 256 < length (acc @ dotted ls) \<Longrightarrow> \<forall>n. length (acc @ dotted (take n ls)) \<noteq> 256 \<Longrightarrow>
   mx_name buf i acc = Some (Crash OutOfBounds)"
proof (induction i ls arbitrary: acc rule: name_at.induct)
  case (name_label i l ls)
  have ne: "length acc + length l + 1 \<noteq> 256" using name_label.prems(3) [rule_format, of 1] by simp
  show ?case
  proof (cases "length acc + length l + 1 < 256")
    case True
    have "length ((acc @ l @ [46]) @ dotted (take n ls)) \<noteq> 256" for n
      using name_label.prems(3) [rule_format, of "Suc n"] by simp
    with True name_label.prems(2) name_label.IH [of "acc @ l @ [46]"]
    show ?thesis by (subst mx_name_label [OF name_label(1-5)]) simp
  next
    case False
    with ne show ?thesis by (subst mx_name_label [OF name_label(1-5)]) simp
  qed
qed (simp_all add: mx_name_pointer)

definition pointer_cycle :: "bytes \<Rightarrow> nat set \<Rightarrow> bool" where
  "pointer_cycle buf S \<longleftrightarrow> (\<forall>i \<in> S. i + 1 < length buf \<and> buf ! i AND 0xc0 = 0xc0 \<and> be16 buf i mod 0x4000 \<in> S)"

lemma mx_name_cycle: "mx_name buf i acc = Some r \<Longrightarrow> pointer_cycle buf S \<Longrightarrow> i \<notin> S"
proof (induction buf i acc r rule: mx_name.raw_induct [rotated, consumes 1, case_names step])
  case (step f buf i acc r)
  show ?case
  proof
    assume "i \<in> S"
    with step(3) have p: "i + 1 < length buf" "buf ! i AND 0xc0 = 0xc0" "be16 buf i mod 0x4000 \<in> S" by (auto simp: pointer_cycle_def)
    with step(2) have "f buf (be16 buf i mod 0x4000) acc = Some r" by simp
    from step(1) [OF this step(3)] p(3) show False by simp
  qed
qed

lemma mx_name_never: "pointer_cycle buf S \<Longrightarrow> i \<in> S \<Longrightarrow> mx_name buf i acc = None"
  using mx_name_cycle [of buf i acc _ S] by (cases "mx_name buf i acc") auto

section \<open>Connecting\<close>

lemma make_socket_ok: "sk n \<noteq> -1 \<Longrightarrow> make_socket sk n = Some (sk n, n)"
  by (subst make_socket.simps) simp

lemma connect_refused:
  assumes "\<forall>k. net_sock net k \<noteq> -1" "\<forall>k t. resolved net k t" "\<forall>k. connect_to net k = ECONNREFUSED"
  shows "connect_loop False net n ts sock cs =
    Some (False, if ts = [] then sock else net_sock net (n + length ts - 1), cs @ map (\<lambda>k. NClose (net_sock net k)) [n..<n + length ts])"
proof (induction ts arbitrary: n sock cs)
  case Nil
  show ?case by (subst connect_loop.simps) simp
next
  case (Cons t ts)
  have "connect_loop False net n (t # ts) sock cs = connect_loop False net (Suc n) ts (net_sock net n) (cs @ [NClose (net_sock net n)])"
    using assms by (subst connect_loop.simps) (simp add: make_socket_ok)
  then show ?case by (simp add: Cons.IH upt_conv_Cons del: upt_Suc)
qed

lemma connect_stuck:
  "connect_loop relay net n ts sock cs = Some r \<Longrightarrow> \<forall>k. connect_to net k \<in> {ETIMEDOUT, OtherErrno} \<Longrightarrow> \<forall>k t. resolved net k t \<Longrightarrow>
   relay \<or> ts \<noteq> [] \<Longrightarrow> False"
proof (induction relay net n ts sock cs r rule: connect_loop.raw_induct [rotated, consumes 1, case_names step])
  case (step f relay net n ts sock cs r)
  from step(2,4,5) obtain s m where "make_socket (net_sock net) n = Some (s, m)"
    "(if connect_to net m = Connected then Some (True, s, cs)
      else f relay net (Suc m) (if relay then ts else retarget (connect_to net m) ts) s (cs @ [NClose s])) = Some r"
    by (auto simp: bind_eq_Some_conv split: if_splits)
  moreover have "connect_to net m \<noteq> Connected" using step(3) by (auto dest!: spec [of _ m])
  ultimately have f: "f relay net (Suc m) (if relay then ts else retarget (connect_to net m) ts) s (cs @ [NClose s]) = Some r"
    by simp
  have "retarget (connect_to net m) ts \<noteq> []" if "ts \<noteq> []" using step(3) that by (cases ts) (auto dest!: spec [of _ m])
  with step(5) show False by (intro step(1) [OF f step(3,4)]) auto
qed

section \<open>What the other server reads\<close>

definition reply_line :: "string \<Rightarrow> bytes \<Rightarrow> bool" where
  "reply_line code s \<longleftrightarrow> length code = 3 \<and> (\<exists>t. s = bytes_of code @ t @ [13, 10] \<and> 13 \<notin> set (bytes_of code @ t)) \<and> length s \<le> 2047"

text \<open>The pieces in which the spool file is sent.\<close>

function pieces :: "bytes \<Rightarrow> bytes list" where
  "pieces d = (if d = [] then [] else take 1400 d # pieces (drop 1400 d))"
  by pat_completeness auto
termination by (relation "measure length") auto

declare pieces.simps [simp del]

lemma concat_pieces: "concat (pieces d) = d"
  by (induction d rule: pieces.induct) (subst pieces.simps, auto)

text \<open>A state of the connection in which the calls are \<open>cs\<close> and the lines \<open>ss\<close> are waiting.\<close>

definition at_line :: "int \<Rightarrow> net_call list \<Rightarrow> segments \<Rightarrow> chan \<Rightarrow> bool" where
  "at_line s cs ss ch \<longleftrightarrow> ch_sock ch = s \<and> ch_calls ch = cs \<and> ch_in ch = ss \<and> length (ch_buf ch) = 2048"

lemma take_bit_word_of_nat: "take_bit n (word_of_nat m :: u32) = word_of_nat (take_bit n m)"
  by (rule bit_word_eqI) (simp add: bit_simps)

lemma get32_low: "get32 b 0 AND 0xffffff = word_of_nat (unat (b ! 0) + 256 * unat (b ! 1) + 65536 * unat (b ! 2))"
proof -
  let ?n = "unat (b ! 0) + 256 * unat (b ! 1) + 65536 * unat (b ! 2)"
  have l: "?n < 16777216" using byte_bound [of "b ! 0"] byte_bound [of "b ! 1"] byte_bound [of "b ! 2"] by simp
  have g: "get32 b 0 = word_of_nat (?n + 16777216 * unat (b ! 3))" by (simp add: get32_def numeral_2_eq_2 numeral_3_eq_3)
  have m: "(0xffffff :: u32) = mask 24" by (simp add: mask_eq_exp_minus_1)
  have "get32 b 0 AND 0xffffff = take_bit 24 (get32 b 0)" unfolding m by (simp add: take_bit_eq_mask)
  also have "\<dots> = word_of_nat (take_bit 24 (?n + 16777216 * unat (b ! 3)))" unfolding g
    by (rule take_bit_word_of_nat)
  finally show ?thesis using l by (simp add: take_bit_eq_mod)
qed

lemma hear_reply:
  assumes "reply_line code s" "at_line k cs (s # ss) ch"
  shows "\<exists>n ch'. hear ch = Ok (Some n, ch') \<and> n < 2048 \<and> at_line k cs ss ch' \<and>
    reply_code ch' = word_of_nat (unat (bytes_of code ! 0) + 256 * unat (bytes_of code ! 1) + 65536 * unat (bytes_of code ! 2))"
proof -
  from assms(1) obtain t where s: "s = bytes_of code @ t @ [13, 10]" "13 \<notin> set (bytes_of code @ t)" and l: "length s \<le> 2047" "length code = 3"
    by (auto simp: reply_line_def)
  let ?u = "bytes_of code @ t"
  obtain b where r: "read_line 2047 0 (ch_buf ch) ([] @ (?u @ 13 # [10]) # ss) = Ok (Some (0 + length (concat [] @ ?u) + 1), b, ss)"
    and b: "take (0 + length (concat [] @ ?u)) b = take 0 (ch_buf ch) @ concat [] @ ?u" "length b = length (ch_buf ch)"
    using read_line_takes [of "[]" ?u 2047 "ch_buf ch" 0 "[10]" ss] s l assms(2) by (auto simp: at_line_def)
  have "b ! i = bytes_of code ! i" if "i < 3" for i
  proof -
    have "b ! i = take (length ?u) b ! i" using that l by simp
    also have "\<dots> = bytes_of code ! i" using b(1) that l by (simp add: nth_append)
    finally show ?thesis .
  qed
  then have c: "b ! 0 = bytes_of code ! 0" "b ! 1 = bytes_of code ! 1" "b ! 2 = bytes_of code ! 2" by simp_all
  have "ReadString 2047 (ch_buf ch) (ch_in ch) = Ok (Some (length ?u + 1), b, ss)"
    using r s assms(2) by (simp add: ReadString_def at_line_def)
  then have "hear ch = Ok (Some (length ?u + 1), ch\<lparr>ch_buf := b, ch_in := ss\<rparr>)" by (simp add: hear_def)
  moreover have "length ?u + 1 < 2048" using l s by simp
  moreover have "at_line k cs ss (ch\<lparr>ch_buf := b, ch_in := ss\<rparr>)" using assms(2) b(2) by (simp add: at_line_def)
  ultimately show ?thesis using c by (fastforce simp: reply_code_def get32_low)
qed

lemma sprintf_at_0: "length s < length b \<Longrightarrow> \<exists>b'. sprintf_at b 0 s = Ok b' \<and> length b' = length b"
  by (auto simp: sprintf_at_def length_blit)

lemma talk_reply:
  assumes "reply_line code s" "at_line k cs (s # ss) ch" "length t < 2048"
  shows "\<exists>n ch'. talk t ch = Ok (Some n, ch') \<and> n < 2048 \<and> at_line k (cs @ [NSend k t]) ss ch' \<and>
    reply_code ch' = word_of_nat (unat (bytes_of code ! 0) + 256 * unat (bytes_of code ! 1) + 65536 * unat (bytes_of code ! 2))"
proof -
  from assms(2,3) obtain b where b: "sprintf_at (ch_buf ch) 0 t = Ok b" "length b = length (ch_buf ch)"
    using sprintf_at_0 [of t "ch_buf ch"] by (auto simp: at_line_def)
  with assms(2) have "at_line k (cs @ [NSend k t]) (s # ss) (send_raw t (ch\<lparr>ch_buf := b\<rparr>))"
    by (simp add: at_line_def send_raw_def)
  from hear_reply [OF assms(1) this] b show ?thesis by (simp add: talk_def)
qed

lemma reply_codes:
  "word_of_nat (unat (bytes_of ''220'' ! 0) + 256 * unat (bytes_of ''220'' ! 1) + 65536 * unat (bytes_of ''220'' ! 2)) = SMTP_GR"
  "word_of_nat (unat (bytes_of ''250'' ! 0) + 256 * unat (bytes_of ''250'' ! 1) + 65536 * unat (bytes_of ''250'' ! 2)) = SMTP_OK"
  "word_of_nat (unat (bytes_of ''354'' ! 0) + 256 * unat (bytes_of ''354'' ! 1) + 65536 * unat (bytes_of ''354'' ! 2)) = SMTP_DT"
  by (simp_all add: bytes_of_def SMTP_GR_def SMTP_OK_def SMTP_DT_def)

lemmas hear_220 = hear_reply [of "''220''", unfolded reply_codes]
lemmas hear_250 = hear_reply [of "''250''", unfolded reply_codes]
lemmas hear_354 = hear_reply [of "''354''", unfolded reply_codes]
lemmas talk_250 = talk_reply [of "''250''", unfolded reply_codes]

abbreviation rcpt_command :: "bytes \<Rightarrow> bytes" where
  "rcpt_command r \<equiv> bytes_of ''RCPT TO:<'' @ r @ bytes_of ''>'' @ crlf"

lemma rcpt_loop_accepted:
  assumes "\<forall>s \<in> set rs. reply_line ''250'' s" "length rs = length to" "at_line k cs (rs @ ss) ch" "\<forall>r \<in> set to. length r < 2035"
  shows "\<exists>ch'. rcpt_loop to v ch = Ok (v + length to, ch') \<and> at_line k (cs @ map (\<lambda>r. NSend k (rcpt_command r)) to) ss ch'"
  using assms
proof (induction to arbitrary: rs v cs ch)
  case Nil
  then show ?case by simp
next
  case (Cons r to)
  then obtain s rs' where rs: "rs = s # rs'" by (cases rs) auto
  have a: "at_line k cs (s # rs' @ ss) ch" and t: "length (rcpt_command r) < 2048" using Cons.prems(3,4) rs by (simp_all add: crlf_def)
  from talk_250 [OF _ a t] Cons.prems(1) rs obtain n ch' where "talk (rcpt_command r) ch = Ok (Some n, ch')"
    "at_line k (cs @ [NSend k (rcpt_command r)]) (rs' @ ss) ch'" "reply_code ch' = SMTP_OK" by auto
  with Cons.IH [of rs' "cs @ [NSend k (rcpt_command r)]" ch' "Suc v"] Cons.prems rs show ?case by simp
qed

lemma send_file_pieces:
  assumes "\<forall>k. sent k" "at_line s cs ss ch"
  shows "\<exists>ch'. send_file sent k d ch = (True, ch') \<and> at_line s (cs @ map (NSend s) (pieces d)) ss ch'"
  using assms
proof (induction sent k d ch arbitrary: cs rule: send_file.induct)
  case (1 sent k d ch)
  show ?case
  proof (cases "d = []")
    case True
    with 1(3) show ?thesis by (simp add: send_file.simps pieces.simps)
  next
    case False
    let ?ch = "send_raw (take 1400 d) (ch\<lparr>ch_buf := blit (ch_buf ch) 0 (take 1400 d)\<rparr>)"
    have "at_line s (cs @ [NSend s (take 1400 d)]) ss ?ch" using 1(3) by (auto simp: at_line_def send_raw_def length_blit)
    from 1(1) [OF False refl refl _ 1(2) this] 1(2) obtain ch' where
      "send_file sent (Suc k) (drop 1400 d) ?ch = (True, ch')"
      "at_line s ((cs @ [NSend s (take 1400 d)]) @ map (NSend s) (pieces (drop 1400 d))) ss ch'" by blast
    moreover have "sent k" using 1(2) ..
    ultimately show ?thesis using False
      by (intro exI [of _ ch']) (subst send_file.simps, subst pieces.simps, simp add: Let_def)
  qed
qed

lemma send_data_accepted:
  assumes "\<forall>k. sent k" "reply_line ''354'' a" "reply_line ''250'' b" "at_line k cs [a, b] ch"
  shows "\<exists>ch'. send_data sent (Some d) ch = Ok (Sent, ch') \<and>
    at_line k (cs @ [NSend k (bytes_of ''DATA'' @ crlf)] @ map (NSend k) (pieces d) @ [NSend k (crlf @ [46] @ crlf)]) [] ch'"
proof -
  have "at_line k (cs @ [NSend k (bytes_of ''DATA'' @ crlf)]) [a, b] (send_raw (bytes_of ''DATA'' @ crlf) ch)"
    using assms(4) by (simp add: at_line_def send_raw_def)
  from hear_354 [OF assms(2) this] obtain n ch1 where 1: "hear (send_raw (bytes_of ''DATA'' @ crlf) ch) = Ok (Some n, ch1)"
    "at_line k (cs @ [NSend k (bytes_of ''DATA'' @ crlf)]) [b] ch1" "reply_code ch1 = SMTP_DT" by auto
  from send_file_pieces [OF assms(1) 1(2)] obtain ch2 where 2: "send_file sent 0 d ch1 = (True, ch2)"
    "at_line k (cs @ [NSend k (bytes_of ''DATA'' @ crlf)] @ map (NSend k) (pieces d)) [b] ch2" by auto
  then have "at_line k (cs @ [NSend k (bytes_of ''DATA'' @ crlf)] @ map (NSend k) (pieces d) @ [NSend k (crlf @ [46] @ crlf)]) [b]
      (send_raw (crlf @ [46] @ crlf) ch2)" by (simp add: at_line_def send_raw_def)
  from hear_250 [OF assms(3) this] obtain m ch3 where 3: "hear (send_raw (crlf @ [46] @ crlf) ch2) = Ok (Some m, ch3)"
    "at_line k (cs @ [NSend k (bytes_of ''DATA'' @ crlf)] @ map (NSend k) (pieces d) @ [NSend k (crlf @ [46] @ crlf)]) [] ch3"
    "reply_code ch3 = SMTP_OK" by auto
  from 1 2 3 show ?thesis by (simp add: send_data_def on_reply_def)
qed

section \<open>Messages\<close>

lemma scan_passes:
  assumes "\<not> AVEnable s \<or> scan_file e (sm_file m) \<noteq> QAV_VIRUS"
  shows "\<exists>av. scan_message e m s st = (True, s\<lparr>AVEnable := av\<rparr>, st)"
proof (cases "AVEnable s \<and> scan_file e (sm_file m) = ScanFailed")
  case True
  then show ?thesis by (auto simp: scan_message_def)
next
  case False
  then have "scan_message e m s st = (True, s, st)"
    using assms by (cases "scan_file e (sm_file m)") (auto simp: scan_message_def)
  then show ?thesis by (intro exI [of _ "AVEnable s"]) simp
qed

text \<open>C36: A message that the scanner lets pass, while no session holds the mailbox of one of its local recipients and the
  names made in their mailboxes do not exceed \<open>NAME_MAX\<close>. For each local recipient in turn one name is made, from
  the thread, the time and a random number. The new files have the contents of the message, and their names are exactly those
  of the made ones whose mailbox directory exists, without the ones that a file has already; a name that is made twice is there once.
  So a recipient without a directory or with a taken name gets no copy, which the code does not notice since it does not look at
  the result of \<open>link\<close>. The other recipients, in reverse order, are what the transfers to other servers are about.\<close>

theorem local_recipients_are_linked:
  assumes "sm_file m = Some c" "\<not> AVEnable s \<or> scan_file e (Some c) \<noteq> QAV_VIRUS"
    and "\<forall>r \<in> set (sm_to m). is_local st r \<longrightarrow> holder st (the (find_mailbox (MBX st) r 0)) = None \<and>
      (\<forall>k < length (sm_to m). length (file_name e (mailbox_of st r) (names_made s + k)) \<le> MAX_NAME e)"
  shows "\<exists>av new. let rs = filter (is_local st) (sm_to m);
       made = map (\<lambda>(i, r). (mailbox_of st r, file_name e (mailbox_of st r) i)) (enumerate (names_made s) rs)
     in spooler_round e nets m s st =
       bindr (external_delivery nets (server_fqdn st) m (UseSMTPRelay e) 0 (rev (filter (\<lambda>r. \<not> is_local st r) (sm_to m))) (netbuf s) [])
         (\<lambda>(buf, log). Some (Ok (s\<lparr>AVEnable := av, names_made := names_made s + length rs, netbuf := buf, deliveries := deliveries s @ log\<rparr>,
           st\<lparr>files := files st @ new\<rparr>))) \<and>
       distinct (map fst new) \<and> fst ` set new = {p. \<exists>dir. (dir, p) \<in> set made \<and> dir \<in> set (dirs st)} - fst ` set (files st) \<and>
       (\<forall>x \<in> set new. snd x = Regular c)"
proof -
  obtain av where av: "scan_message e m s st = (True, s\<lparr>AVEnable := av\<rparr>, st)"
    using scan_passes [of s e m st] assms(1,2) by auto
  have free: "mailboxes_free st (sm_to m)" using assms(3) by (auto simp: mailboxes_free_def)
  have "length (file_name e (mailbox_of st r) i) \<le> MAX_NAME e"
    if i: "(i, r) \<in> set (enumerate (names_made s) (filter (is_local st) (sm_to m)))" for i r
  proof -
    from i have k: "names_made s \<le> i" "i < names_made s + length (filter (is_local st) (sm_to m))"
      "filter (is_local st) (sm_to m) ! (i - names_made s) = r" by (auto simp: in_set_enumerate_eq)
    then have "i - names_made s < length (filter (is_local st) (sm_to m))" by linarith
    from nth_mem [OF this] k have r: "r \<in> set (sm_to m)" "is_local st r" "names_made s \<le> i" "i < names_made s + length (filter (is_local st) (sm_to m))"
      by simp_all
    then have "i - names_made s < length (sm_to m)" using length_filter_le [of "is_local st" "sm_to m"] by linarith
    with assms(3) r have "length (file_name e (mailbox_of st r) (names_made s + (i - names_made s))) \<le> MAX_NAME e" by blast
    with r(3) show ?thesis by simp
  qed
  then have "names_fit e st (sm_to m) (names_made s)" by (auto simp: names_fit_def local_names_def)
  note free this
  note d = local_delivery_links [OF this, of c "[]"]
  from link_names_files [of c "local_names e st (sm_to m) (names_made s)" st] obtain new where
    new: "link_names c (local_names e st (sm_to m) (names_made s)) st = st\<lparr>files := files st @ new\<rparr>" "distinct (map fst new)"
      "fst ` set new = linked st (local_names e st (sm_to m) (names_made s))" "\<forall>x \<in> set new. snd x = Regular c" by blast
  have "spooler_round e nets m s st =
      bindr (external_delivery nets (server_fqdn st) m (UseSMTPRelay e) 0 (rev (filter (\<lambda>r. \<not> is_local st r) (sm_to m))) (netbuf s) [])
        (\<lambda>(buf, log). Some (Ok (s\<lparr>AVEnable := av, names_made := names_made s + length (filter (is_local st) (sm_to m)),
          netbuf := buf, deliveries := deliveries s @ log\<rparr>, st\<lparr>files := files st @ new\<rparr>)))"
    by (simp add: spooler_round_def av assms(1) d new(1))
  with new(2-4) show ?thesis unfolding linked_def local_names_def Let_def by blast
qed

text \<open>C37: Without a relay, the transfers of a message are one for each domain: every recipient is in one
  of them, the recipients of a transfer have one domain, compared without case, and those of different transfers do
  not.\<close>

theorem one_transfer_per_domain:
  assumes "\<forall>r \<in> set rs. 64 \<in> set r"
  shows "external_delivery nets fqdn m False g rs buf log = transfers nets fqdn m g (by_domain rs) buf log \<and>
    mset (concat (by_domain rs)) = mset rs \<and>
    (\<forall>to \<in> set (by_domain rs). to \<noteq> [] \<and> (\<forall>r \<in> set to. r = last to \<or> same_domain (last to) r)) \<and>
    (\<forall>i j r s. i < j \<longrightarrow> j < length (by_domain rs) \<longrightarrow> r \<in> set (by_domain rs ! i) \<longrightarrow> s \<in> set (by_domain rs ! j) \<longrightarrow> \<not> same_domain r s)"
proof -
  have "\<forall>r \<in> set rs. domain_of r \<noteq> None" using assms by (simp add: domain_of_def)
  from external_delivery_by_domain [OF this] show ?thesis
    using by_domain_mset [of rs] by_domain_groups [of _ rs] by_domain_apart [of _ _ rs] by auto
qed

text \<open>The question that the spooler asks about a domain holds the name as the DNS server stores it:
  the loop that walks backwards from the end of the name and the one of \<open>rcpy_string\<close> agree. Behind the
  name are the type 15, for mail exchangers, and the class 1, in network byte order.\<close>

theorem mx_question_has_stored_name:
  assumes "\<forall>k \<in> set (ls @ [l]). label_ok k \<and> 64 \<notin> set k" "length (dotted ls @ l) + 18 \<le> length buf"
  shows "\<exists>buf'. mx_query buf (64 # dotted ls @ l) = Ok (buf', length (dotted ls @ l) + 18) \<and> length buf' = length buf \<and>
    take (length (dotted ls @ l) + 18) buf' =
      [0, 2, 1, 0, 0, 1, 0, 0, 0, 0, 0, 0] @ rcpy_string (dotted ls @ l) @ [0, 15, 0, 1]"
proof -
  have "rcpy_string (dotted ls @ l) = encode_labels (ls @ [l]) @ [0]" using rcpy_string_encodes [of ls l] assms(1) by auto
  with mx_query_encodes [OF _ assms(2)] assms(1) show ?thesis by (simp add: label_ok_def)
qed

text \<open>C38: The name of a mail exchanger in an answer, with or without compression, is read as its labels with
  dots between them when that text has at most 255 characters. A longer one makes the loop write behind \<open>rname\<close>,
  unless some of its labels fill the 256 bytes exactly.\<close>

theorem exchanger_name_is_decoded:
  assumes "name_at buf i ls"
  shows "(length (dotted ls) \<le> 256 \<longrightarrow> mx_name buf i [] = Some (Ok (butlast (dotted ls)))) \<and>
    (256 < length (dotted ls) \<and> (\<forall>n. length (dotted (take n ls)) \<noteq> 256) \<longrightarrow> mx_name buf i [] = Some (Crash OutOfBounds))"
  using mx_name_reads [OF assms, of "[]"] mx_name_overflows [OF assms, of "[]"] by simp

text \<open>When the name of the first exchanger in the answer is a pointer from which only pointers are
  reached, as one to itself, the spooler thread does not return from the transfer.\<close>

theorem pointer_cycle_hangs_spooler:
  assumes "mx_query buf d = Ok (buf', n)" "dns_reply net = Some reply" "b = blit buf' 0 (take 512 reply)"
    and "be16 b 6 \<noteq> 0" "skip_query b 12 = Ok here" "skip_zone b here = Ok h"
    and "h + 12 < 65536" "pointer_cycle b S" "h + 12 \<in> S"
  shows "transfer net fqdn m False to (Some d) buf = None"
proof -
  have "h + 12 + 1 < length b" using assms(8,9) unfolding pointer_cycle_def by blast
  moreover obtain k where "be16 b 6 = Suc k" using assms(4) not0_implies_Suc by blast
  ultimately have "mx_targets b d = None"
    using assms(5-7) mx_name_never [OF assms(8,9)] by (simp add: mx_targets_def bindr_def)
  with assms(1-3) show ?thesis by (simp add: transfer_def bindr_def Let_def)
qed

text \<open>C40: As long as every attempt to connect to the exchangers of a domain ends in a timeout, or in another error
  than a refusal, the transfer goes on: the list of exchangers is rotated and never gets shorter, and the
  spooler does not come to its next message.\<close>

theorem unreachable_exchangers_block_spooler:
  assumes "mx_query buf d = Ok (buf', n)" "dns_reply net = Some reply"
    and "mx_targets (blit buf' 0 (take 512 reply)) d = Some (Ok ts)" "ts \<noteq> []"
    and "\<forall>k t. resolved net k t" "\<forall>k. connect_to net k \<in> {ETIMEDOUT, OtherErrno}"
  shows "transfer net fqdn m False to (Some d) buf = None"
proof -
  have "connect_loop False net 0 ts (dns_sock net) cs = None" for cs
    using connect_stuck [OF _ assms(6,5)] assms(4) by (cases "connect_loop False net 0 ts (dns_sock net) cs") blast+
  with assms(1-3) show ?thesis by (simp add: transfer_def bindr_def Let_def)
qed

text \<open>When every exchanger refuses the connection, each of them is tried once and the transfer ends; but the socket of
  the last attempt is closed a second time, when its number may already belong to another thread.\<close>

theorem refused_transfer_closes_twice:
  assumes "mx_query buf d = Ok (buf', n)" "dns_reply net = Some reply"
    and "mx_targets (blit buf' 0 (take 512 reply)) d = Some (Ok ts)" "ts \<noteq> []"
    and "\<forall>k t. resolved net k t" "\<forall>k. net_sock net k \<noteq> -1" "\<forall>k. connect_to net k = ECONNREFUSED"
  shows "transfer net fqdn m False to (Some d) buf = Some (Ok (NotDelivered, hostent_buf net,
    [NSend (dns_sock net) (take n buf'), NClose (dns_sock net)] @ map (\<lambda>k. NClose (net_sock net k)) [0..<length ts] @
    [NClose (net_sock net (length ts - 1))]))"
  using assms(1-4)
  by (simp add: transfer_def connect_refused [OF assms(6,5,7)] bindr_def Let_def converse_def finish_transfer_def)

text \<open>C39: A server that greets and accepts every command is sent the sender, each recipient once in
  order, and the spool file between the \<open>DATA\<close> command and the end of the message, as the \<open>DATA\<close>
  command of a receiving server expects it.\<close>

theorem accepted_message_is_sent:
  assumes "ch_in ch = g # e # f # rs @ [a, b]" "length (ch_buf ch) = 2048"
    and "reply_line ''220'' g" "reply_line ''250'' e" "reply_line ''250'' f" "\<forall>s \<in> set rs. reply_line ''250'' s"
    and "reply_line ''354'' a" "reply_line ''250'' b" "length rs = length to" "to \<noteq> []"
    and "length fqdn < 2041" "length (sm_from m) < 2032" "\<forall>r \<in> set to. length r < 2035"
    and "sm_file m = Some d" "\<forall>k. sent k"
  shows "\<exists>ch' ps. dialogue sent fqdn m to ch = Ok (Sent, ch') \<and> ch_in ch' = [] \<and> concat ps = terminated d \<and>
    ch_calls ch' = ch_calls ch @ map (NSend (ch_sock ch))
      ([bytes_of ''EHLO '' @ fqdn @ crlf, bytes_of ''MAIL FROM:<'' @ sm_from m @ bytes_of ''>'' @ crlf] @
       map rcpt_command to @ [bytes_of ''DATA'' @ crlf] @ ps)"
proof -
  let ?k = "ch_sock ch" let ?helo = "bytes_of ''EHLO '' @ fqdn @ crlf" let ?mail = "bytes_of ''MAIL FROM:<'' @ sm_from m @ bytes_of ''>'' @ crlf"
  have "at_line ?k (ch_calls ch) (g # e # f # rs @ [a, b]) ch" using assms(1,2) by (simp add: at_line_def)
  from hear_220 [OF assms(3) this] obtain n1 ch1 where 1: "hear ch = Ok (Some n1, ch1)" "reply_code ch1 = SMTP_GR"
    "at_line ?k (ch_calls ch) (e # f # rs @ [a, b]) ch1" by auto
  have "length ?helo < 2048" "length ?mail < 2048" using assms(11,12) by (simp_all add: crlf_def)
  note t = this
  from talk_250 [OF assms(4) 1(3) t(1)] obtain n2 ch2 where 2: "talk ?helo ch1 = Ok (Some n2, ch2)" "reply_code ch2 = SMTP_OK"
    "at_line ?k (ch_calls ch @ [NSend ?k ?helo]) (f # rs @ [a, b]) ch2" by auto
  from talk_250 [OF assms(5) 2(3) t(2)] obtain n3 ch3 where 3: "talk ?mail ch2 = Ok (Some n3, ch3)" "reply_code ch3 = SMTP_OK"
    "at_line ?k (ch_calls ch @ [NSend ?k ?helo, NSend ?k ?mail]) (rs @ [a, b]) ch3" by auto
  from rcpt_loop_accepted [OF assms(6,9) 3(3) assms(13), of 0] obtain ch4 where 4: "rcpt_loop to 0 ch3 = Ok (length to, ch4)"
    "at_line ?k (ch_calls ch @ map (NSend ?k) ([?helo, ?mail] @ map rcpt_command to)) [a, b] ch4" by (auto simp: comp_def)
  from send_data_accepted [OF assms(15,7,8) 4(2), of d] obtain ch5 where 5: "send_data sent (Some d) ch4 = Ok (Sent, ch5)"
    "at_line ?k (ch_calls ch @ map (NSend ?k) ([?helo, ?mail] @ map rcpt_command to @ [bytes_of ''DATA'' @ crlf] @ pieces d @ [crlf @ [46] @ crlf])) [] ch5"
    by auto
  have "dialogue sent fqdn m to ch = Ok (Sent, ch5)"
    using 1 2 3 4 5 assms(10,14) by (simp add: dialogue_def send_envelope_def on_reply_def)
  moreover have "concat (pieces d @ [crlf @ [46] @ crlf]) = terminated d" by (simp add: concat_pieces terminated_def crlf_def)
  ultimately show ?thesis using 5(2) unfolding at_line_def by blast
qed

text \<open>An authenticated session may name a recipient without a domain. When no mailbox has that name, the
  spooler runs into a null pointer when it comes to the message, and the whole server ends.\<close>

theorem recipient_without_domain_crashes:
  assumes "sstate c = SS_RCPT" "s_auth c" "s_msgs c = m # ms" "sm_to m = []"
    and "s_buffer c = bytes_of ''RCPT TO:<'' @ r @ [62, 0] @ junk" "r \<noteq> []" "set r \<inter> {0, 60, 62, 64} = {}"
    and "find_mailbox (MBX st) r 0 = None" "\<not> UseSMTPRelay e" "\<not> AVEnable s \<or> scan_file e f \<noteq> QAV_VIRUS"
  shows "\<exists>c'. cmd_RCPT st c sp = Ok (False, c', sp) \<and> s_msgs c' = m\<lparr>sm_to := [r]\<rparr> # ms \<and>
    spooler_round e nets (m\<lparr>sm_to := [r], sm_file := f\<rparr>) s st = Some (Crash NullPointer)"
proof -
  let ?p = "bytes_of ''RCPT TO:<''" let ?m = "m\<lparr>sm_to := [r], sm_file := f\<rparr>"
  have p: "0 \<notin> set ?p" "62 \<notin> set ?p" "?p = bytes_of ''RCPT TO:'' @ [60]" "60 \<notin> set (bytes_of ''RCPT TO:'')" "length ?p = 9"
    by (simp_all add: bytes_of_def)
  have line: "cstr (s_buffer c) = ?p @ r @ [62]" using assms(5,7) p(1) by (auto simp: cstr_def takeWhile_append)
  have e: "strchr 62 (?p @ r @ [62]) = Some (9 + length r)" using p(2,5) assms(7) by (simp add: strchr_def takeWhile_append)
  have b: "strchr 60 (?p @ r @ [62]) = Some 8" using p(4) unfolding p(3) by (simp add: strchr_def takeWhile_append)
  have "bracketed (s_buffer c) 8 (9 + length r) = r"
    using assms(5,7) p(5) by (simp add: bracketed_def cstr_def list_update_append takeWhile_append)
  then obtain c' where c: "cmd_RCPT st c sp = Ok (False, c', sp)" "s_msgs c' = m\<lparr>sm_to := [r]\<rparr> # ms"
    using assms(1-4,6) by (simp add: cmd_RCPT_def line e b answer_def)
  obtain av where av: "scan_message e ?m s st = (True, s\<lparr>AVEnable := av\<rparr>, st)"
    using scan_passes [of s e ?m st] assms(10) by auto
  have "domain_of r = None" using assms(7) by (auto simp: domain_of_def)
  then have "spooler_round e nets ?m s st = Some (Crash NullPointer)"
    using assms(8,9) by (simp add: spooler_round_def av external_delivery.simps(2) transfer_def)
  with c show ?thesis by blast
qed

section \<open>Examples\<close>

definition ex_env :: spool_env where
  "ex_env = \<lparr>sp_tid = 1, stamp = (\<lambda>k. (0, int k)), MAX_NAME = 255, UseSMTPRelay = False, scan_file = (\<lambda>_. QAV_CLEAN)\<rparr>"

definition ex_spooler :: spooler where
  "ex_spooler = \<lparr>AVEnable = True, names_made = 0, netbuf = replicate 2048 0, deliveries = []\<rparr>"

definition ex_message :: smtpmsg where
  "ex_message = \<lparr>sm_from = [98], sm_to = [[97]], sm_file = Some [104, 105]\<rparr>"

text \<open>A network in which the answer of the name server is given and all attempts to connect have one result.\<close>

definition ex_net :: "bytes \<Rightarrow> connect_result \<Rightarrow> spool_net" where
  "ex_net reply res = \<lparr>dns_sock = 5, dns_reply = Some reply, resolved = (\<lambda>_ _. True), hostent_buf = replicate 2048 0,
     net_sock = (\<lambda>k. 6), connect_to = (\<lambda>_. res), remote = [], body_sent = (\<lambda>_. True)\<rparr>"

definition no_answer :: bytes where "no_answer = [0, 0, 0, 0, 0, 0, 0, 0, 0, 0, 0, 0]"

lemma ex_query: "\<exists>buf'. mx_query (replicate 40 0) [64, 121] = Ok (buf', 19) \<and> length buf' = 40"
  using mx_query_encodes [of "[]" "[121]" "replicate 40 0"] by (auto simp: dotted_def)

theorem local_recipients_are_linked_witness:
  "\<exists>s. spooler_round ex_env (\<lambda>_. ex_net [] ECONNREFUSED) ex_message ex_spooler (relay_store\<lparr>dirs := [[97]]\<rparr>) =
     Some (Ok (s, relay_store\<lparr>dirs := [[97]], files := [([97, 47, 49, 48, 48], Regular [104, 105])]\<rparr>))"
proof -
  let ?st = "relay_store\<lparr>dirs := [[97]]\<rparr>"
  have l: "find_mailbox (MBX ?st) [97] 0 = Some 0" by (simp add: relay_store_def)
  then have i: "is_local ?st [97]" "mailbox_of ?st [97] = [97]" by (simp_all add: is_local_def mailbox_of_def relay_store_def)
  have f: "file_name ex_env [97] 0 = [97, 47, 49, 48, 48]" by (simp add: file_name_def ex_env_def int_text_def dec_text.simps)
  have v: "sm_file ex_message = Some [104, 105]" "\<not> AVEnable ex_spooler \<or> scan_file ex_env (Some [104, 105]) \<noteq> QAV_VIRUS"
    by (simp_all add: ex_message_def ex_env_def)
  have short: "length (file_name ex_env [97] 0) \<le> MAX_NAME ex_env" unfolding f by (simp add: ex_env_def)
  have h: "\<forall>r \<in> set (sm_to ex_message). is_local ?st r \<longrightarrow> holder ?st (the (find_mailbox (MBX ?st) r 0)) = None \<and>
      (\<forall>k < length (sm_to ex_message). length (file_name ex_env (mailbox_of ?st r) (names_made ex_spooler + k)) \<le> MAX_NAME ex_env)"
    using short i by (simp add: ex_message_def ex_spooler_def) (simp add: relay_store_def)
  have r: "filter (\<lambda>r. \<not> is_local ?st r) (sm_to ex_message) = []" "filter (is_local ?st) (sm_to ex_message) = [[97]]"
    using i by (simp_all add: ex_message_def)
  have st: "dirs ?st = [[97]]" "files ?st = []" "names_made ex_spooler = 0" "deliveries ex_spooler = []" by (simp_all add: relay_store_def ex_spooler_def)
  from local_recipients_are_linked [OF v h, of "\<lambda>_. ex_net [] ECONNREFUSED", unfolded r] obtain av new where
    s: "spooler_round ex_env (\<lambda>_. ex_net [] ECONNREFUSED) ex_message ex_spooler ?st =
        Some (Ok (ex_spooler\<lparr>AVEnable := av, names_made := 1\<rparr>, ?st\<lparr>files := files ?st @ new\<rparr>))"
      "distinct (map fst new)" "fst ` set new = {[97, 47, 49, 48, 48]}" "\<forall>x \<in> set new. snd x = Regular [104, 105]"
    unfolding Let_def by (simp add: i f st ex_spooler_def) blast
  have "xs = [a]" if "distinct xs" "set xs = {a}" for xs and a :: bytes
    using that by (cases xs; cases "tl xs") auto
  from this [OF s(2)] s(3) have "map fst new = [[97, 47, 49, 48, 48]]" by simp
  with s(4) have "new = [([97, 47, 49, 48, 48], Regular [104, 105])]" by (auto simp: map_eq_Cons_conv)
  with s(1) st(2) show ?thesis by auto
qed

theorem one_transfer_per_domain_witness:
  "by_domain [[120, 64, 121], [122, 64, 119], [117, 64, 89]] = [[[117, 64, 89], [120, 64, 121]], [[122, 64, 119]]] \<and>
   external_delivery (\<lambda>_. ex_net [] ECONNREFUSED) [113] ex_message False 0 [[120, 64, 121], [122, 64, 119], [117, 64, 89]] [0] [] =
     transfers (\<lambda>_. ex_net [] ECONNREFUSED) [113] ex_message 0 (by_domain [[120, 64, 121], [122, 64, 119], [117, 64, 89]]) [0] []"
  using one_transfer_per_domain [of "[[120, 64, 121], [122, 64, 119], [117, 64, 89]]" "\<lambda>_. ex_net [] ECONNREFUSED" "[113]" ex_message 0 "[0]" "[]"]
  by (simp add: same_domain_def domain_of_def stricmp_eq_def cstr_def c_toupper_def)

theorem mx_question_has_stored_name_witness:
  "\<exists>buf'. mx_query (replicate 40 0) [64, 97, 46, 98] = Ok (buf', 21) \<and> length buf' = 40 \<and>
    take 21 buf' = [0, 2, 1, 0, 0, 1, 0, 0, 0, 0, 0, 0] @ rcpy_string [97, 46, 98] @ [0, 15, 0, 1]"
  using mx_question_has_stored_name [of "[[97]]" "[98]" "replicate 40 0"] by (simp add: label_ok_def)

lemma ex_name: "name_at [1, 97, 1, 98, 0] 0 [[97], [98]]"
proof -
  have "name_at [1, 97, 1, 98, 0] 4 []" by (rule name_end) auto
  then have "name_at [1, 97, 1, 98, 0] 2 [[98]]" using name_label [of 2 "[98]" "[1, 97, 1, 98, 0]" "[]"] by simp
  then show ?thesis using name_label [of 0 "[97]" "[1, 97, 1, 98, 0]" "[[98]]"] by (simp add: numeral_2_eq_2)
qed

theorem exchanger_name_is_decoded_witness: "mx_name [1, 97, 1, 98, 0] 0 [] = Some (Ok [97, 46, 98])"
  using exchanger_name_is_decoded [OF ex_name] by simp

text \<open>An answer of 32 bytes whose exchanger is a pointer to itself.\<close>

definition cyclic_answer :: bytes where
  "cyclic_answer = [0, 0, 0, 0, 0, 0, 0, 1, 0, 0, 0, 0, 0, 0, 15, 0, 1, 0, 0, 15, 0, 1, 0, 0, 0, 0, 0, 4, 0, 1, 0xc0, 30]"

theorem pointer_cycle_hangs_spooler_witness:
  "transfer (ex_net cyclic_answer ECONNREFUSED) [113] ex_message False [[120, 64, 121]] (Some [64, 121]) (replicate 40 0) = None"
proof -
  obtain buf' where q: "mx_query (replicate 40 0) [64, 121] = Ok (buf', 19)" and l: "length buf' = 40" using ex_query by auto
  define b where "b = blit buf' 0 (take 512 cyclic_answer)"
  have c: "length cyclic_answer = 32" by (simp add: cyclic_answer_def)
  then have b: "b = cyclic_answer @ drop 32 buf'" by (simp add: blit_def b_def)
  have p: "be16 b 6 = 1" "be16 b 30 mod 0x4000 = 30" "b ! 30 AND 0xc0 = 0xc0" "b ! 17 = 0"
    unfolding b unfolding cyclic_answer_def by (simp_all add: be16_def get16_def swap16_def)
  have n: "length b = 40" using l c by (simp add: b)
  then have h: "skip_query b 12 = Ok 17" unfolding b unfolding cyclic_answer_def by (simp add: skip_query_def)
  have z: "skip_zone b 17 = Ok 18" by (subst skip_zone.simps) (simp add: n p)
  have y: "pointer_cycle b {30}" using n p by (simp add: pointer_cycle_def)
  show ?thesis
    by (rule pointer_cycle_hangs_spooler [OF q _ b_def _ h z _ y]) (simp_all add: p ex_net_def)
qed

lemma no_answer_targets: "12 \<le> length buf \<Longrightarrow> mx_targets (blit buf 0 (take 512 no_answer)) [64, 121] = Some (Ok [[121]])"
  by (simp add: mx_targets_def no_answer_def blit_def be16_def get16_def swap16_def)

theorem unreachable_exchangers_block_spooler_witness:
  "transfer (ex_net no_answer ETIMEDOUT) [113] ex_message False [[120, 64, 121]] (Some [64, 121]) (replicate 40 0) = None"
proof -
  obtain buf' where q: "mx_query (replicate 40 0) [64, 121] = Ok (buf', 19)" and l: "length buf' = 40" using ex_query by auto
  from l have t: "mx_targets (blit buf' 0 (take 512 no_answer)) [64, 121] = Some (Ok [[121]])" by (simp add: no_answer_targets)
  show ?thesis by (rule unreachable_exchangers_block_spooler [OF q _ t]) (simp_all add: ex_net_def)
qed

theorem refused_transfer_closes_twice_witness:
  "\<exists>question. transfer (ex_net no_answer ECONNREFUSED) [113] ex_message False [[120, 64, 121]] (Some [64, 121]) (replicate 40 0) =
     Some (Ok (NotDelivered, replicate 2048 0, [NSend 5 question, NClose 5, NClose 6, NClose 6]))"
proof -
  obtain buf' where q: "mx_query (replicate 40 0) [64, 121] = Ok (buf', 19)" and l: "length buf' = 40" using ex_query by auto
  from l have t: "mx_targets (blit buf' 0 (take 512 no_answer)) [64, 121] = Some (Ok [[121]])" by (simp add: no_answer_targets)
  have "transfer (ex_net no_answer ECONNREFUSED) [113] ex_message False [[120, 64, 121]] (Some [64, 121]) (replicate 40 0) =
      Some (Ok (NotDelivered, hostent_buf (ex_net no_answer ECONNREFUSED), [NSend (dns_sock (ex_net no_answer ECONNREFUSED)) (take 19 buf'),
        NClose (dns_sock (ex_net no_answer ECONNREFUSED))] @ map (\<lambda>k. NClose (net_sock (ex_net no_answer ECONNREFUSED) k)) [0..<length [[121 :: byte]]] @
        [NClose (net_sock (ex_net no_answer ECONNREFUSED) (length [[121 :: byte]] - 1))]))"
    by (rule refused_transfer_closes_twice [OF q _ t]) (simp_all add: ex_net_def)
  then show ?thesis by (simp add: ex_net_def)
qed

definition ex_chan :: chan where
  "ex_chan = \<lparr>ch_sock = 6, ch_in = [[50, 50, 48, 13, 10], [50, 53, 48, 13, 10], [50, 53, 48, 13, 10], [50, 53, 48, 13, 10],
     [51, 53, 52, 13, 10], [50, 53, 48, 13, 10]], ch_buf = replicate 2048 0, ch_calls = []\<rparr>"

theorem accepted_message_is_sent_witness:
  "\<exists>ch' ps. dialogue (\<lambda>_. True) [113] ex_message [[120, 64, 121]] ex_chan = Ok (Sent, ch') \<and> ch_in ch' = [] \<and> concat ps = [104, 105, 13, 10, 46, 13, 10] \<and>
     ch_calls ch' = map (NSend 6)
       ([bytes_of ''EHLO q'' @ crlf, bytes_of ''MAIL FROM:<b>'' @ crlf, bytes_of ''RCPT TO:<x@y>'' @ crlf, bytes_of ''DATA'' @ crlf] @ ps)"
proof -
  have r: "reply_line ''220'' [50, 50, 48, 13, 10]" "reply_line ''250'' [50, 53, 48, 13, 10]" "reply_line ''354'' [51, 53, 52, 13, 10]"
    unfolding reply_line_def by (auto simp: bytes_of_def)
  have "\<exists>ch' ps. dialogue (\<lambda>_. True) [113] ex_message [[120, 64, 121]] ex_chan = Ok (Sent, ch') \<and> ch_in ch' = [] \<and>
      concat ps = terminated [104, 105] \<and> ch_calls ch' = ch_calls ex_chan @ map (NSend (ch_sock ex_chan))
        ([bytes_of ''EHLO '' @ [113] @ crlf, bytes_of ''MAIL FROM:<'' @ sm_from ex_message @ bytes_of ''>'' @ crlf] @
         map rcpt_command [[120, 64, 121]] @ [bytes_of ''DATA'' @ crlf] @ ps)"
    by (rule accepted_message_is_sent [OF _ _ r(1) r(2) r(2) _ r(3) r(2), of _ "[[50, 53, 48, 13, 10]]"])
      (simp_all add: ex_chan_def ex_message_def r)
  then show ?thesis by (simp add: terminated_def ex_chan_def ex_message_def bytes_of_def)
qed

theorem recipient_without_domain_crashes_witness:
  "\<exists>c'. cmd_RCPT relay_store (relay_conn2\<lparr>s_auth := True, s_buffer := bytes_of ''RCPT TO:<'' @ [120] @ [62, 0] @ []\<rparr>) [] = Ok (False, c', []) \<and>
    s_msgs c' = [ex_message\<lparr>sm_from := bytes_of ''Bounced'', sm_to := [[120]], sm_file := None\<rparr>] \<and>
    spooler_round ex_env (\<lambda>_. ex_net [] ECONNREFUSED) (ex_message\<lparr>sm_from := bytes_of ''Bounced'', sm_to := [[120]], sm_file := Some [104]\<rparr>) ex_spooler relay_store =
      Some (Crash NullPointer)"
  using recipient_without_domain_crashes [of "relay_conn2\<lparr>s_auth := True, s_buffer := bytes_of ''RCPT TO:<'' @ [120] @ [62, 0] @ []\<rparr>"
      "ex_message\<lparr>sm_from := bytes_of ''Bounced'', sm_to := [], sm_file := None\<rparr>" "[]" "[120]" "[]" relay_store ex_env ex_spooler
      "Some [104]" "[]" "\<lambda>_. ex_net [] ECONNREFUSED"]
  by (simp add: relay_conn2_def relay_store_def ex_env_def ex_message_def bytes_of_def stricmp_eq_def cstr_def c_toupper_def)

end
