(* ===== verification/MailMain.thy ===== *)
theory MailMain
  imports ConfRealm QBaseTypes
begin

text \<open>
  \<open>QX-mail/main.c\<close>: the configuration of the mail server, the start of its listeners, and the queue
  through which accepted connections reach the threads of the pool. What the resolver and the system calls
  answer is an argument. Writing terminators into a token, after it has been read, is modelled on the token only.
\<close>

section \<open>Settings\<close>

datatype listen_type = LISTEN_POP | LISTEN_SMTP

text \<open>The address of a listener is unknown when \<open>inet_aton\<close> refuses it: the record is not cleared.\<close>

record listener =
  l_type :: listen_type
  l_addr :: "u32 option"
  l_port :: u16

record mailbox_conf =
  mc_user :: "string option"
  mc_password :: "string option"

record mail_setup =
  cf_dir :: string
  cf_fqdn :: string
  cf_log :: string
  cf_level :: int
  cf_sync :: int
  cf_bufsize :: int
  cf_lowater :: int
  cf_hiwater :: int
  cf_increment :: int
  cf_maximum :: int
  cf_spoolers :: int
  cf_timeout :: int
  cf_av :: int
  cf_relay :: bool
  cf_relay_addr :: u32
  cf_relay_port :: u16
  cf_dns :: "u32 option"
  cf_listeners :: "listener list"
  cf_mailboxes :: "(string \<times> string) list"

record resolver =
  inet_addr :: "string \<Rightarrow> u32 option"
  host_addr :: "string \<Rightarrow> u32 option"

definition DEF_BUF_SIZE :: int where "DEF_BUF_SIZE = 8192"

definition mail_defaults :: mail_setup where
  "mail_defaults = \<lparr>cf_dir = ''/tmp'', cf_fqdn = ''QX-mail'', cf_log = ''/tmp/QX-mail.log'', cf_level = 3, cf_sync = 600,
     cf_bufsize = DEF_BUF_SIZE, cf_lowater = 2, cf_hiwater = 5, cf_increment = 2, cf_maximum = 9, cf_spoolers = 1, cf_timeout = 10,
     cf_av = 0, cf_relay = False, cf_relay_addr = 0, cf_relay_port = 0, cf_dns = None, cf_listeners = [], cf_mailboxes = []\<rparr>"

definition before :: "char \<Rightarrow> string \<Rightarrow> string" where
  "before c s = takeWhile (\<lambda>x. x \<noteq> c) s"

definition port_after :: "string \<Rightarrow> nat \<Rightarrow> u16" where
  "port_after s def =
     swap16 (if CHR '':'' \<in> set s then word_of_int (atoi (tl (dropWhile (\<lambda>x. x \<noteq> CHR '':'') s))) else word_of_nat def)"

definition set_relay :: "resolver \<Rightarrow> string option \<Rightarrow> mail_setup \<Rightarrow> mail_setup" where
  "set_relay rv a su =
     (case a of
        None \<Rightarrow> su\<lparr>cf_relay := False\<rparr>
      | Some t \<Rightarrow>
          if hd t = CHR ''['' then
            if CHR '']'' \<notin> set t then su\<lparr>cf_relay := False\<rparr>
            else let s = before (CHR '']'') t in
              su\<lparr>cf_relay := True, cf_relay_port := port_after s 25,
                cf_relay_addr := (case inet_addr rv (tl (before (CHR '':'') s)) of Some ip \<Rightarrow> ip | None \<Rightarrow> cf_relay_addr su)\<rparr>
          else (case host_addr rv t of
              None \<Rightarrow> su\<lparr>cf_relay := False\<rparr>
            | Some ip \<Rightarrow> su\<lparr>cf_relay := True, cf_relay_port := swap16 25, cf_relay_addr := ip\<rparr>))"

definition add_listener :: "resolver \<Rightarrow> listen_type \<Rightarrow> string \<Rightarrow> mail_setup \<Rightarrow> mail_setup" where
  "add_listener rv ty t su =
     su\<lparr>cf_listeners := \<lparr>l_type = ty, l_addr = inet_addr rv (before (CHR '':'') t),
         l_port = port_after t (case ty of LISTEN_POP \<Rightarrow> 110 | LISTEN_SMTP \<Rightarrow> 25)\<rparr> # cf_listeners su\<rparr>"

definition mail_directive :: "resolver \<Rightarrow> string \<Rightarrow> (string option \<Rightarrow> mail_setup \<Rightarrow> setup_fail + mail_setup) option" where
  "mail_directive rv t =
     (let arg = (\<lambda>f. Some (given (\<lambda>a su. Inr (f a su)))) in
      if str_ieq ''MXROOT'' t then arg (\<lambda>a su. su\<lparr>cf_dir := a\<rparr>)
      else if str_ieq ''SYNCINTERVAL'' t then arg (\<lambda>a su. su\<lparr>cf_sync := atoi a\<rparr>)
      else if str_ieq ''SERVERFQDN'' t then arg (\<lambda>a su. su\<lparr>cf_fqdn := a\<rparr>)
      else if str_ieq ''LOGFILE'' t then arg (\<lambda>a su. su\<lparr>cf_log := a\<rparr>)
      else if str_ieq ''LOGLEVEL'' t then arg (\<lambda>a su. su\<lparr>cf_level := atoi a\<rparr>)
      else if str_ieq ''CONNBUFSIZE'' t then arg (\<lambda>a su. su\<lparr>cf_bufsize := max DEF_BUF_SIZE (atoi a)\<rparr>)
      else if str_ieq ''POOLLOWATER'' t then arg (\<lambda>a su. su\<lparr>cf_lowater := atoi a\<rparr>)
      else if str_ieq ''POOLHIWATER'' t then arg (\<lambda>a su. su\<lparr>cf_hiwater := atoi a\<rparr>)
      else if str_ieq ''POOLMAX'' t then arg (\<lambda>a su. su\<lparr>cf_maximum := atoi a\<rparr>)
      else if str_ieq ''POOLINCREMENT'' t then arg (\<lambda>a su. su\<lparr>cf_increment := atoi a\<rparr>)
      else if str_ieq ''NUMSPOOLERS'' t then arg (\<lambda>a su. su\<lparr>cf_spoolers := max (cf_spoolers su) (atoi a)\<rparr>)
      else if str_ieq ''RCVTIMEOUT'' t then arg (\<lambda>a su. su\<lparr>cf_timeout := atoi a\<rparr>)
      else if str_ieq ''AVENABLE'' t then arg (\<lambda>a su. su\<lparr>cf_av := atoi a\<rparr>)
      else if str_ieq ''SMTPRELAY'' t then Some (\<lambda>a su. Inr (set_relay rv a su))
      else if str_ieq ''POP3LISTEN'' t then arg (add_listener rv LISTEN_POP)
      else if str_ieq ''SMTPLISTEN'' t then arg (add_listener rv LISTEN_SMTP)
      else if str_ieq ''USEDNS'' t then arg (\<lambda>a su. su\<lparr>cf_dns := Some (case inet_addr rv a of Some ip \<Rightarrow> ip
          | None \<Rightarrow> (case cf_dns su of Some ip \<Rightarrow> ip | None \<Rightarrow> 0))\<rparr>)
      else None)"

definition mailbox_directive :: "string \<Rightarrow> (string option \<Rightarrow> mailbox_conf \<Rightarrow> setup_fail + mailbox_conf) option" where
  "mailbox_directive t =
     (if str_ieq ''USER'' t then Some (given (\<lambda>a mb. Inr (mb\<lparr>mc_user := Some a\<rparr>)))
      else if str_ieq ''PASSWORD'' t then Some (given (\<lambda>a mb. Inr (mb\<lparr>mc_password := Some a\<rparr>)))
      else None)"

definition mailbox_realm :: "conf \<Rightarrow> mail_setup \<Rightarrow> setup_fail + (mail_setup \<times> conf)" where
  "mailbox_realm cf su =
     (case realm_lines ''</mailbox>'' mailbox_directive cf \<lparr>mc_user = None, mc_password = None\<rparr> of
        Inl e \<Rightarrow> Inl e
      | Inr (mb, cf') \<Rightarrow> (case (mc_user mb, mc_password mb) of
            (Some u, Some p) \<Rightarrow> Inr (su\<lparr>cf_mailboxes := (u, p) # cf_mailboxes su\<rparr>, cf')
          | _ \<Rightarrow> Inl ExitFailure))"

lemma realm_lines_shorter: "realm_lines fin dir cf x = Inr (y, cf') \<Longrightarrow> length (ConfFile cf') < length (ConfFile cf)"
  using realm_lines_keep [of dir "\<lambda>_. True" fin cf x y cf'] by simp

lemma mailbox_realm_shorter: "mailbox_realm cf su = Inr (su', cf') \<Longrightarrow> length (ConfFile cf') < length (ConfFile cf)"
  by (auto simp: mailbox_realm_def dest!: realm_lines_shorter split: sum.splits prod.splits option.splits)

function mail_realms :: "resolver \<Rightarrow> conf \<Rightarrow> mail_setup \<Rightarrow> setup_fail + mail_setup" where
  "mail_realms rv cf su = (case GetConf_string cf of
     (Overrun, _) \<Rightarrow> Inl ReadOverrun
   | (NoToken, _) \<Rightarrow> Inr su
   | (Token t, cf1) \<Rightarrow>
       if str_ieq ''<server>'' t then
         (case realm_lines ''</server>'' (mail_directive rv) cf1 su of Inl e \<Rightarrow> Inl e | Inr (su', cf2) \<Rightarrow> mail_realms rv cf2 su')
       else if str_ieq ''<mailbox>'' t then
         (case mailbox_realm cf1 su of Inl e \<Rightarrow> Inl e | Inr (su', cf2) \<Rightarrow> mail_realms rv cf2 su')
       else Inl ExitFailure)"
  by pat_completeness auto
termination
  by (relation "measure (\<lambda>(rv, cf, su). length (ConfFile cf))")
    (auto dest!: GetConf_string_shorter [OF sym] realm_lines_shorter mailbox_realm_shorter)

declare mail_realms.simps [simp del]

definition qmail_setup :: "resolver \<Rightarrow> string option \<Rightarrow> string \<Rightarrow> setup_fail + mail_setup" where
  "qmail_setup rv file junk =
     (case GetConf_open file junk of None \<Rightarrow> Inl ExitFailure | Some cf \<Rightarrow> mail_realms rv cf mail_defaults)"

section \<open>Start\<close>

text \<open>The results of the calls at the start; the listeners are numbered in their list.\<close>

record mail_os =
  log_opens :: bool
  ms_socket :: "nat \<Rightarrow> int"
  ms_bind :: "nat \<Rightarrow> bool"
  ms_listen :: "nat \<Rightarrow> bool"
  chdir_ok :: bool
  spooler_starts :: "nat \<Rightarrow> bool"
  pool_starts :: bool

fun open_listeners :: "mail_os \<Rightarrow> nat \<Rightarrow> listener list \<Rightarrow> (int \<times> listen_type) list option" where
  "open_listeners os k [] = Some []"
| "open_listeners os k (l # ls) =
     (if ms_socket os k < 0 \<or> \<not> ms_bind os k \<or> \<not> ms_listen os k then None
      else map_option (\<lambda>r. (ms_socket os k, l_type l) # r) (open_listeners os (Suc k) ls))"

definition mail_start :: "resolver \<Rightarrow> string option \<Rightarrow> string \<Rightarrow> mail_os \<Rightarrow> setup_fail + (mail_setup \<times> (int \<times> listen_type) list)" where
  "mail_start rv file junk os =
     (case qmail_setup rv file junk of
        Inl e \<Rightarrow> Inl e
      | Inr su \<Rightarrow>
          if \<not> log_opens os \<or> cf_listeners su = [] then Inl ExitFailure
          else (case open_listeners os 0 (cf_listeners su) of
              None \<Rightarrow> Inl ExitFailure
            | Some socks \<Rightarrow>
                if chdir_ok os \<and> (\<forall>k < nat (cf_spoolers su). spooler_starts os k) \<and> pool_starts os then Inr (su, socks)
                else Inl ExitFailure))"

section \<open>Accepted connections\<close>

text \<open>A connection is known by its address; \<open>c_link\<close> are the \<open>next\<close> pointers.\<close>

record accept_queue =
  c_head :: "nat option"
  c_tail :: "nat option"
  c_link :: "nat \<Rightarrow> nat option"

definition no_connections :: accept_queue where
  "no_connections = \<lparr>c_head = None, c_tail = None, c_link = (\<lambda>_. None)\<rparr>"

text \<open>The main loop adds a connection, whose record it has cleared.\<close>

definition add_connection :: "nat \<Rightarrow> accept_queue \<Rightarrow> accept_queue outcome" where
  "add_connection a q =
     (let q = q\<lparr>c_link := (c_link q)(a := None)\<rparr> in
      if c_head q = c_tail q then Ok (q\<lparr>c_head := Some a, c_tail := Some a\<rparr>)
      else case c_tail q of
          None \<Rightarrow> Crash NullPointer
        | Some t \<Rightarrow> Ok (q\<lparr>c_link := (c_link q)(t := Some a), c_tail := Some a\<rparr>))"

text \<open>\<open>pool_block\<close> takes a connection, or goes on waiting.\<close>

definition pool_block :: "accept_queue \<Rightarrow> (nat \<times> accept_queue) option" where
  "pool_block q =
     (case c_head q of
        None \<Rightarrow> None
      | Some a \<Rightarrow> Some (a,
          if c_head q = c_tail q then q\<lparr>c_head := None, c_tail := None\<rparr> else q\<lparr>c_head := c_link q a\<rparr>))"

text \<open>One round of the main loop: the listeners on which \<open>select\<close> reports activity, in the order of their
  list, and the results of \<open>accept\<close>; the records get the addresses from \<open>fresh\<close>, which are given back
  when \<open>accept\<close> fails.\<close>

fun accept_round :: "(int \<Rightarrow> bool) \<Rightarrow> (int \<Rightarrow> int) \<Rightarrow> nat list \<Rightarrow> (int \<times> listen_type) list \<Rightarrow> accept_queue \<Rightarrow>
    ((nat \<times> int \<times> listen_type) list \<times> accept_queue) outcome" where
  "accept_round ready acc fresh [] q = Ok ([], q)"
| "accept_round ready acc fresh ((s, ty) # ls) q =
     (if \<not> ready s \<or> acc s = -1 then accept_round ready acc fresh ls q
      else case fresh of
          [] \<Rightarrow> Crash NullPointer
        | a # fresh \<Rightarrow>
            bindo (add_connection a q) (\<lambda>q.
            bindo (accept_round ready acc fresh ls q) (\<lambda>(cs, q). Ok ((a, acc s, ty) # cs, q))))"

section \<open>The queue of connections\<close>

datatype accept_event = Arrive nat | Take

text \<open>The connections that threads got, the last one first, and the queue.\<close>

fun accept_step :: "accept_event \<Rightarrow> nat list \<times> accept_queue \<Rightarrow> (nat list \<times> accept_queue) outcome" where
  "accept_step (Arrive a) (done, q) = bindo (add_connection a q) (\<lambda>q. Ok (done, q))"
| "accept_step Take (done, q) = (case pool_block q of None \<Rightarrow> Ok (done, q) | Some (a, q) \<Rightarrow> Ok (a # done, q))"

fun accept_run :: "accept_event list \<Rightarrow> nat list \<times> accept_queue \<Rightarrow> (nat list \<times> accept_queue) outcome" where
  "accept_run [] s = Ok s"
| "accept_run (e # es) s = bindo (accept_step e s) (accept_run es)"

text \<open>A place for one connection, in which a new one replaces the old one.\<close>

fun slot_step :: "accept_event \<Rightarrow> nat list \<times> nat option \<Rightarrow> nat list \<times> nat option" where
  "slot_step (Arrive a) (done, p) = (done, Some a)"
| "slot_step Take (done, p) = (case p of None \<Rightarrow> (done, None) | Some a \<Rightarrow> (a # done, None))"

text \<open>The queue from the main loop to the threads has room for one connection only: whatever arrives
  and is taken in whatever order, it behaves as a single place in which a new connection replaces the one that waits, which is
  then neither served nor closed.\<close>

theorem queue_holds_one_connection:
  "\<exists>q. accept_run es ([], no_connections) = Ok (fst (fold slot_step es ([], None)), q) \<and>
     c_head q = snd (fold slot_step es ([], None)) \<and> c_tail q = c_head q"
proof -
  have "\<exists>q'. accept_run es (done, q) = Ok (fst (fold slot_step es (done, c_head q)), q') \<and>
      c_head q' = snd (fold slot_step es (done, c_head q)) \<and> c_tail q' = c_head q'"
    if "c_tail q = c_head q" for "done" q
    using that
  proof (induction es arbitrary: "done" q)
    case (Cons e es)
    show ?case
    proof (cases e)
      case (Arrive a)
      let ?q = "q\<lparr>c_link := (c_link q)(a := None), c_head := Some a, c_tail := Some a\<rparr>"
      have "accept_step e (done, q) = Ok (done, ?q)" using Cons.prems Arrive by (simp add: add_connection_def Let_def)
      with Cons.IH [of ?q "done"] Arrive show ?thesis by simp
    next
      case Take
      show ?thesis
      proof (cases "c_head q")
        case None
        with Cons.IH [OF Cons.prems, of "done"] Take show ?thesis by (simp add: pool_block_def)
      next
        case (Some a)
        with Cons.IH [of "q\<lparr>c_head := None, c_tail := None\<rparr>" "a # done"] Cons.prems Take show ?thesis
          by (simp add: pool_block_def)
      qed
    qed
  qed simp
  from this [of no_connections "[]"] show ?thesis by (simp add: no_connections_def)
qed

section \<open>Mailboxes\<close>

lemma word_line_tokens:
  assumes "word_ok a" "word_ok w"
  shows "line_tokens (w @ CHR '' '' # a) = [w, a]"
proof -
  from assms(1) have "line_tokens a = [a]" by (intro line_tokens_word) (auto simp: word_ok_def is_stop_def)
  then have b: "line_tokens (CHR '' '' # a) = [a]" by (simp add: line_tokens_blank is_blank_def)
  have w: "\<forall>c \<in> set w. \<not> is_blank c" "w \<noteq> []" "hd w \<noteq> CHR ''#''" using assms(2) by (auto simp: word_ok_def is_stop_def)
  then have d: "dropWhile is_blank (w @ CHR '' '' # a) = w @ CHR '' '' # a" by (cases w) auto
  have s: "is_blank CHR '' ''" by (simp add: is_blank_def)
  have t: "takeWhile (\<lambda>c. \<not> is_blank c) (w @ CHR '' '' # a) = w" by (rule takeWhile_stop) (use w s in auto)
  have u: "dropWhile (\<lambda>c. \<not> is_blank c) (w @ CHR '' '' # a) = CHR '' '' # a" using w s by (simp add: dropWhile_append2)
  show ?thesis using w b by (subst line_tokens.simps) (simp add: d t u Let_def)
qed

lemma realm_lines_arg:
  assumes "ConfFile cf = w @ CHR '' '' # a @ LF # rest" "word_ok w" "word_ok a" "length w + length a + 3 \<le> length (ConfString cf)"
    and "\<not> str_ieq fin w" "dir w = Some f" "f (Some a) x = Inr y"
  shows "\<exists>cf'. realm_lines fin dir cf x = realm_lines fin dir cf' y \<and> ConfFile cf' = rest \<and> length (ConfString cf') = length (ConfString cf)"
proof -
  let ?l = "w @ CHR '' '' # a"
  have "clean ?l" using assms(2,3) by (auto simp: clean_def word_ok_def is_stop_def NUL_def LF_def)
  from read_directive [OF _ this _ word_line_tokens [OF assms(3,2)], of cf rest] assms(1,4)
  obtain cf1 cf2 where "GetConf_string cf = (Token w, cf1)" "GetConf_token cf1 = (Token a, cf2)" "ConfFile cf2 = rest"
    "length (ConfString cf2) = length (ConfString cf)" by auto
  with assms(5-7) show ?thesis by (subst realm_lines.simps) (auto simp: directive_line_def)
qed

lemma realm_lines_last:
  assumes "ConfFile cf = fin @ LF # rest" "word_ok fin" "length fin + 2 \<le> length (ConfString cf)"
  shows "\<exists>cf'. realm_lines fin dir cf x = Inr (x, cf') \<and> ConfFile cf' = rest \<and> length (ConfString cf') = length (ConfString cf)"
proof -
  have c: "clean fin" and t: "line_tokens fin = [fin]"
    using assms(2) by (auto simp: clean_def word_ok_def is_stop_def NUL_def LF_def intro: line_tokens_word)
  from read_word [OF assms(1) c assms(3) t] obtain cf1 where "GetConf_string cf = (Token fin, cf1)" "ConfFile cf1 = rest"
    "length (ConfString cf1) = length (ConfString cf)" by auto
  then show ?thesis by (subst realm_lines.simps) (simp add: str_ieq_def)
qed

lemma mailbox_words: "\<not> str_ieq ''</mailbox>'' ''User''" "\<not> str_ieq ''</mailbox>'' ''Password''"
  "mailbox_directive ''User'' = Some (given (\<lambda>a mb. Inr (mb\<lparr>mc_user := Some a\<rparr>)))"
  "mailbox_directive ''Password'' = Some (given (\<lambda>a mb. Inr (mb\<lparr>mc_password := Some a\<rparr>)))"
  "word_ok ''User''" "word_ok ''Password''" "word_ok ''</mailbox>''" "word_ok ''<mailbox>''"
proof -
  have "char_of (of_char c :: nat) = c" for c :: char by simp
  from this [of "CHR ''U''"] this [of "CHR ''S''"] this [of "CHR ''E''"] this [of "CHR ''R''"] this [of "CHR ''P''"]
    this [of "CHR ''A''"] this [of "CHR ''W''"] this [of "CHR ''O''"] this [of "CHR ''D''"]
  have e: "str_ieq ''USER'' ''User''" "str_ieq ''PASSWORD'' ''Password''" by (simp_all add: str_ieq_def char_upper_def)
  have n: "\<not> str_ieq ''USER'' ''Password''" by (simp add: str_ieq_def char_upper_def)
  show "\<not> str_ieq ''</mailbox>'' ''User''" "\<not> str_ieq ''</mailbox>'' ''Password''" by (simp_all add: str_ieq_def char_upper_def)
  show "mailbox_directive ''User'' = Some (given (\<lambda>a mb. Inr (mb\<lparr>mc_user := Some a\<rparr>)))"
    "mailbox_directive ''Password'' = Some (given (\<lambda>a mb. Inr (mb\<lparr>mc_password := Some a\<rparr>)))"
    using e n by (simp_all add: mailbox_directive_def)
  show "word_ok ''User''" "word_ok ''Password''" "word_ok ''</mailbox>''" "word_ok ''<mailbox>''"
    by (simp_all add: word_ok_def is_stop_def is_blank_def NUL_def LF_def)
qed

lemma mailbox_realm_reads:
  assumes "ConfFile cf = ''User '' @ u @ LF # ''Password '' @ p @ LF # ''</mailbox>'' @ LF # rest" "word_ok u" "word_ok p"
    and "length u \<le> 4000" "length p \<le> 4000" "length (ConfString cf) = 4096"
  shows "\<exists>cf'. mailbox_realm cf su = Inr (su\<lparr>cf_mailboxes := (u, p) # cf_mailboxes su\<rparr>, cf') \<and> ConfFile cf' = rest \<and>
    length (ConfString cf') = 4096"
proof -
  let ?mb = "\<lparr>mc_user = None, mc_password = None\<rparr>" let ?read = "realm_lines ''</mailbox>'' mailbox_directive"
  note w = mailbox_words
  obtain cf1 where 1: "?read cf ?mb = ?read cf1 (?mb\<lparr>mc_user := Some u\<rparr>)" "ConfFile cf1 = ''Password '' @ p @ LF # ''</mailbox>'' @ LF # rest"
    "length (ConfString cf1) = 4096"
    using realm_lines_arg [of cf "''User''" u "''Password '' @ p @ LF # ''</mailbox>'' @ LF # rest" "''</mailbox>''" mailbox_directive
        "given (\<lambda>a mb. Inr (mb\<lparr>mc_user := Some a\<rparr>))" ?mb "?mb\<lparr>mc_user := Some u\<rparr>"] assms w
    by (auto simp: given_def)
  obtain cf2 where 2: "?read cf1 (?mb\<lparr>mc_user := Some u\<rparr>) = ?read cf2 (?mb\<lparr>mc_user := Some u, mc_password := Some p\<rparr>)"
    "ConfFile cf2 = ''</mailbox>'' @ LF # rest" "length (ConfString cf2) = 4096"
    using realm_lines_arg [of cf1 "''Password''" p "''</mailbox>'' @ LF # rest" "''</mailbox>''" mailbox_directive
        "given (\<lambda>a mb. Inr (mb\<lparr>mc_password := Some a\<rparr>))" "?mb\<lparr>mc_user := Some u\<rparr>" "?mb\<lparr>mc_user := Some u, mc_password := Some p\<rparr>"] 1 assms w
    by (auto simp: given_def)
  obtain cf3 where 3: "?read cf2 (?mb\<lparr>mc_user := Some u, mc_password := Some p\<rparr>) = Inr (?mb\<lparr>mc_user := Some u, mc_password := Some p\<rparr>, cf3)"
    "ConfFile cf3 = rest" "length (ConfString cf3) = 4096"
    using realm_lines_last [of cf2 "''</mailbox>''" rest mailbox_directive "?mb\<lparr>mc_user := Some u, mc_password := Some p\<rparr>"] 2 w(7) by auto
  from 1 2 3 show ?thesis by (auto simp: mailbox_realm_def)
qed

definition mailbox_text :: "string \<times> string \<Rightarrow> string" where
  "mailbox_text = (\<lambda>(u, p). ''<mailbox>'' @ LF # ''User '' @ u @ LF # ''Password '' @ p @ LF # ''</mailbox>'' @ [LF])"

lemma mail_realms_mailboxes:
  assumes "ConfFile cf = concat (map mailbox_text mbs)" "\<forall>(u, p) \<in> set mbs. word_ok u \<and> word_ok p \<and> length u \<le> 4000 \<and> length p \<le> 4000"
    and "length (ConfString cf) = 4096"
  shows "mail_realms rv cf su = Inr (su\<lparr>cf_mailboxes := rev mbs @ cf_mailboxes su\<rparr>)"
  using assms
proof (induction mbs arbitrary: cf su)
  case Nil
  then have "GetConf_string cf = (NoToken, cf\<lparr>GetConf_ln := Suc (GetConf_ln cf)\<rparr>)" by (simp add: GetConf_string_end)
  then show ?case by (subst mail_realms.simps) simp
next
  case (Cons mb mbs)
  obtain u p where mb: "mb = (u, p)" by fastforce
  let ?rest = "concat (map mailbox_text mbs)"
  let ?realm = "''User '' @ u @ LF # ''Password '' @ p @ LF # ''</mailbox>'' @ LF # ?rest"
  have t: "line_tokens ''<mailbox>'' = [''<mailbox>'']" by (intro line_tokens_word) (auto simp: is_blank_def)
  have f: "ConfFile cf = ''<mailbox>'' @ LF # ?realm" using Cons.prems(1) by (simp add: mb mailbox_text_def)
  from read_word [OF f _ _ t] Cons.prems(3) obtain cf1 where 1: "GetConf_string cf = (Token ''<mailbox>'', cf1)" "ConfFile cf1 = ?realm"
    "length (ConfString cf1) = 4096" by (auto simp: clean_def NUL_def LF_def)
  from mailbox_realm_reads [OF 1(2) _ _ _ _ 1(3), of su] Cons.prems(2) mb obtain cf2 where
    2: "mailbox_realm cf1 su = Inr (su\<lparr>cf_mailboxes := (u, p) # cf_mailboxes su\<rparr>, cf2)" "ConfFile cf2 = ?rest" "length (ConfString cf2) = 4096"
    by auto
  have n: "\<not> str_ieq ''<server>'' ''<mailbox>''" "str_ieq ''<mailbox>'' ''<mailbox>''" by (simp_all add: str_ieq_def char_upper_def)
  from Cons.IH [OF 2(2) _ 2(3), of "su\<lparr>cf_mailboxes := (u, p) # cf_mailboxes su\<rparr>"] Cons.prems(2) 1(1) 2(1) n
  show ?case by (subst mail_realms.simps) (simp add: mb)
qed

text \<open>A configuration that lists mailboxes, each with its user and its password, is accepted, and the mailboxes
  are kept in the reverse order of the file: of two entries for one user, the server looks at the later one.\<close>

theorem mailboxes_are_configured:
  assumes "\<forall>(u, p) \<in> set mbs. word_ok u \<and> word_ok p \<and> length u \<le> 4000 \<and> length p \<le> 4000"
  shows "qmail_setup rv (Some (concat (map mailbox_text mbs))) junk = Inr (mail_defaults\<lparr>cf_mailboxes := rev mbs\<rparr>)"
proof -
  obtain cf where cf: "GetConf_open (Some (concat (map mailbox_text mbs))) junk = Some cf" "ConfFile cf = concat (map mailbox_text mbs)"
    "length (ConfString cf) = 4096" by (simp add: GetConf_open_def)
  from mail_realms_mailboxes [OF cf(2) assms cf(3), of rv mail_defaults] cf(1) show ?thesis
    by (simp add: qmail_setup_def mail_defaults_def)
qed

theorem mailboxes_are_configured_witness:
  "qmail_setup \<lparr>inet_addr = (\<lambda>_. None), host_addr = (\<lambda>_. None)\<rparr> (Some (concat (map mailbox_text [(''a'', ''x''), (''b'', ''y'')]))) [] =
     Inr (mail_defaults\<lparr>cf_mailboxes := [(''b'', ''y''), (''a'', ''x'')]\<rparr>)"
  using mailboxes_are_configured [of "[(''a'', ''x''), (''b'', ''y'')]" "\<lparr>inet_addr = (\<lambda>_. None), host_addr = (\<lambda>_. None)\<rparr>" "[]"]
  by (simp add: word_ok_def is_stop_def is_blank_def NUL_def LF_def)

end
