(* ===== verification/BillRules.thy ===== *)
theory BillRules
  imports QBaseTypes
begin

text \<open>
  \<open>QX-billing/qxc_rules.c\<close>: the rules of the packet filter. Rules are added to the shadow lists and
  become active, all at once, when the lists are swapped. The rules for clients are a binary tree in an array; a pointer to a
  node is its index. The arrays are kept as the lists of their used entries: the entries behind the counters are
  never read. The locks are held for the whole of the critical parts and are left out.
\<close>

section \<open>Data\<close>

record qx_rule_exempt =
  x_active :: u32
  x_ip_mask :: u32
  x_ip_addr :: u32
  x_ip_proto :: u16
  x_port_lo :: u16
  x_port_hi :: u16
  x_dlc_proto :: u16

record qx_rule_nics =
  UID :: u32
  n_ip_addr :: u32
  n_mac :: bytes

record qxc_rule_nics =
  nic_rule :: qx_rule_nics
  nic_left :: "nat option"
  nic_right :: "nat option"

text \<open>What is logged of a packet.\<close>

record qx_log =
  l_mac :: bytes
  DLC_proto :: u16
  IP_clnt :: u32
  IP_host :: u32
  IP_proto :: u16
  Port_clnt :: u16
  Port_host :: u16
  bytes_to_cli :: u32
  bytes_to_host :: u32

definition PROTO_DLC_IPv4 :: u16 where "PROTO_DLC_IPv4 = 0x0008"
definition PROTO_IPv4_TCP :: u16 where "PROTO_IPv4_TCP = 6"
definition PROTO_IPv4_UDP :: u16 where "PROTO_IPv4_UDP = 17"

record rule_lists =
  ex_active :: "qx_rule_exempt list"
  ex_shadow :: "qx_rule_exempt list"
  ex_limit :: nat
  nc_list :: "qxc_rule_nics list"
  nc_shadow :: "qxc_rule_nics list"
  nc_limit :: nat

text \<open>\<open>memcmp\<close>, of which only the sign is used.\<close>

fun memcmp :: "bytes \<Rightarrow> bytes \<Rightarrow> int" where
  "memcmp (a # as) (b # bs) = (if a = b then memcmp as bs else if a < b then -1 else 1)"
| "memcmp _ _ = 0"

section \<open>Matching\<close>

definition exempt_matches :: "qx_rule_exempt \<Rightarrow> qx_log \<Rightarrow> bool" where
  "exempt_matches r p \<longleftrightarrow>
     x_dlc_proto r = DLC_proto p \<and>
     (DLC_proto p = PROTO_DLC_IPv4 \<longrightarrow>
        IP_host p AND x_ip_mask r = x_ip_addr r \<and>
        (x_ip_proto r \<noteq> 0 \<longrightarrow>
           IP_proto p = x_ip_proto r \<and>
           (IP_proto p = PROTO_IPv4_TCP \<or> IP_proto p = PROTO_IPv4_UDP \<longrightarrow>
              x_port_lo r \<le> Port_host p \<and> Port_host p \<le> x_port_hi r)))"

fun first_exempt :: "qx_rule_exempt list \<Rightarrow> qx_log \<Rightarrow> u32" where
  "first_exempt [] p = 0"
| "first_exempt (r # rs) p = (if exempt_matches r p then x_active r else first_exempt rs p)"

definition rule_match_exempt :: "rule_lists \<Rightarrow> qx_log \<Rightarrow> u32" where
  "rule_match_exempt s p = first_exempt (ex_active s) p"

partial_function (option) match_walk :: "qxc_rule_nics list \<Rightarrow> qx_log \<Rightarrow> nat option \<Rightarrow> bool option" where
  "match_walk arr p ptr =
     (case ptr of
        None \<Rightarrow> Some False
      | Some i \<Rightarrow>
          let nd = arr ! i; result = memcmp (n_mac (nic_rule nd)) (l_mac p) in
          if result = 0 \<and> n_ip_addr (nic_rule nd) = IP_clnt p then Some True
          else match_walk arr p (if result < 0 then nic_left nd else nic_right nd))"

definition tree_root :: "qxc_rule_nics list \<Rightarrow> nat option" where
  "tree_root arr = (if arr = [] then None else Some 0)"

definition rule_match_client :: "rule_lists \<Rightarrow> qx_log \<Rightarrow> bool option" where
  "rule_match_client s p = match_walk (nc_list s) p (tree_root (nc_list s))"

section \<open>Changing the lists\<close>

definition rule_init_lists :: "nat \<Rightarrow> nat \<Rightarrow> bool \<Rightarrow> rule_lists option" where
  "rule_init_lists ex_cnt nc_cnt mem_ok =
     (if mem_ok then Some \<lparr>ex_active = [], ex_shadow = [], ex_limit = ex_cnt, nc_list = [], nc_shadow = [], nc_limit = nc_cnt\<rparr> else None)"

definition rule_add_exempt :: "qx_rule_exempt \<Rightarrow> rule_lists \<Rightarrow> bool \<times> rule_lists" where
  "rule_add_exempt r s =
     (if length (ex_shadow s) = ex_limit s then (False, s) else (True, s\<lparr>ex_shadow := ex_shadow s @ [r]\<rparr>))"

text \<open>The node below which the new rule is linked, and whether to its left.\<close>

partial_function (option) add_walk :: "qxc_rule_nics list \<Rightarrow> bytes \<Rightarrow> nat \<Rightarrow> (nat \<times> bool) option" where
  "add_walk arr mac i =
     (let nd = arr ! i in
      if memcmp (n_mac (nic_rule nd)) mac < 0 then
        (case nic_left nd of None \<Rightarrow> Some (i, True) | Some j \<Rightarrow> add_walk arr mac j)
      else
        (case nic_right nd of None \<Rightarrow> Some (i, False) | Some j \<Rightarrow> add_walk arr mac j))"

definition link_node :: "qxc_rule_nics list \<Rightarrow> nat \<Rightarrow> bool \<Rightarrow> nat \<Rightarrow> qxc_rule_nics list" where
  "link_node arr i left k = arr[i := (if left then (arr ! i)\<lparr>nic_left := Some k\<rparr> else (arr ! i)\<lparr>nic_right := Some k\<rparr>)]"

definition rule_add_nic :: "qx_rule_nics \<Rightarrow> rule_lists \<Rightarrow> (bool \<times> rule_lists) option" where
  "rule_add_nic r s =
     (let n = length (nc_shadow s); arr = nc_shadow s @ [\<lparr>nic_rule = r, nic_left = None, nic_right = None\<rparr>] in
      if n = nc_limit s then Some (False, s)
      else if n = 0 then Some (True, s\<lparr>nc_shadow := arr\<rparr>)
      else (case add_walk arr (n_mac r) 0 of
          None \<Rightarrow> None
        | Some (i, left) \<Rightarrow> Some (True, s\<lparr>nc_shadow := link_node arr i left n\<rparr>)))"

definition rule_swap_lists :: "rule_lists \<Rightarrow> rule_lists" where
  "rule_swap_lists s = s\<lparr>ex_active := ex_shadow s, ex_shadow := [], nc_list := nc_shadow s, nc_shadow := []\<rparr>"

section \<open>The tree of an array\<close>

text \<open>The tree of indices below a pointer.\<close>

datatype shape = Tip | Fork shape nat shape

fun indices :: "shape \<Rightarrow> nat list" where
  "indices Tip = []"
| "indices (Fork l i r) = indices l @ i # indices r"

fun represents :: "qxc_rule_nics list \<Rightarrow> nat option \<Rightarrow> shape \<Rightarrow> bool" where
  "represents arr p Tip \<longleftrightarrow> p = None"
| "represents arr p (Fork l i r) \<longleftrightarrow>
     p = Some i \<and> i < length arr \<and> represents arr (nic_left (arr ! i)) l \<and> represents arr (nic_right (arr ! i)) r"

abbreviation mac_of :: "qxc_rule_nics list \<Rightarrow> nat \<Rightarrow> bytes" where
  "mac_of arr i \<equiv> n_mac (nic_rule (arr ! i))"

text \<open>Greater addresses are to the left, the others to the right.\<close>

fun ordered :: "qxc_rule_nics list \<Rightarrow> shape \<Rightarrow> bool" where
  "ordered arr Tip \<longleftrightarrow> True"
| "ordered arr (Fork l i r) \<longleftrightarrow> ordered arr l \<and> ordered arr r \<and>
     (\<forall>j \<in> set (indices l). memcmp (mac_of arr i) (mac_of arr j) < 0) \<and>
     (\<forall>j \<in> set (indices r). \<not> memcmp (mac_of arr i) (mac_of arr j) < 0)"

definition nic_tree :: "qxc_rule_nics list \<Rightarrow> bool" where
  "nic_tree arr \<longleftrightarrow> (\<exists>t. represents arr (tree_root arr) t \<and> ordered arr t \<and> distinct (indices t) \<and>
     set (indices t) = {..<length arr} \<and> (\<forall>nd \<in> set arr. length (n_mac (nic_rule nd)) = 6))"

lemma memcmp_same_length: "length a = length b \<Longrightarrow> memcmp a b = 0 \<longleftrightarrow> a = b"
  by (induction a b rule: memcmp.induct) auto

text \<open>A walk from a tree ends, and finds every rule of the tree.\<close>

lemma match_walk_tree:
  assumes "represents arr ptr t" "ordered arr t" "\<forall>nd \<in> set arr. length (n_mac (nic_rule nd)) = 6" "length (l_mac p) = 6"
  shows "match_walk arr p ptr = Some (\<exists>i \<in> set (indices t). mac_of arr i = l_mac p \<and> n_ip_addr (nic_rule (arr ! i)) = IP_clnt p)"
  using assms
proof (induction t arbitrary: ptr)
  case Tip
  then show ?case by (subst match_walk.simps) simp
next
  case (Fork l i r)
  let ?hit = "\<lambda>i. mac_of arr i = l_mac p \<and> n_ip_addr (nic_rule (arr ! i)) = IP_clnt p"
  let ?c = "memcmp (mac_of arr i) (l_mac p)"
  have ptr: "ptr = Some i" "i < length arr" using Fork.prems(1) by auto
  have z: "?c = 0 \<longleftrightarrow> mac_of arr i = l_mac p" using Fork.prems(3,4) ptr(2) by (intro memcmp_same_length) simp
  have l: "match_walk arr p (nic_left (arr ! i)) = Some (\<exists>j \<in> set (indices l). ?hit j)"
    and r: "match_walk arr p (nic_right (arr ! i)) = Some (\<exists>j \<in> set (indices r). ?hit j)"
    using Fork by auto
  show ?case
  proof (cases "?c < 0")
    case True
    with z have n: "mac_of arr i \<noteq> l_mac p" by auto
    have "\<not> ?hit j" if "j \<in> set (indices r)" for j using Fork.prems(2) that True by auto
    with n l True ptr(1) z show ?thesis by (subst match_walk.simps) (auto simp: Let_def)
  next
    case False
    have "\<not> ?hit j" if "j \<in> set (indices l)" for j using Fork.prems(2) that False by auto
    with r False ptr(1) z show ?thesis by (subst match_walk.simps) (auto simp: Let_def)
  qed
qed

text \<open>Linking a new node at the end of a walk.\<close>

fun planted :: "qxc_rule_nics list \<Rightarrow> nat \<Rightarrow> shape \<Rightarrow> shape" where
  "planted arr k Tip = Fork Tip k Tip"
| "planted arr k (Fork l i r) =
     (if memcmp (mac_of arr i) (mac_of arr k) < 0 then Fork (planted arr k l) i r else Fork l i (planted arr k r))"

lemma planted_indices: "set (indices (planted arr k t)) = insert k (set (indices t))"
  "distinct (indices t) \<Longrightarrow> k \<notin> set (indices t) \<Longrightarrow> distinct (indices (planted arr k t))"
proof -
  show s: "set (indices (planted arr k t)) = insert k (set (indices t))" for t by (induction t) auto
  show "distinct (indices t) \<Longrightarrow> k \<notin> set (indices t) \<Longrightarrow> distinct (indices (planted arr k t))"
    by (induction t) (auto simp: s)
qed

lemma planted_ordered: "ordered arr t \<Longrightarrow> ordered arr (planted arr k t)"
  by (induction t) (auto simp: planted_indices(1))

lemma represents_frame:
  "represents arr p t \<Longrightarrow> (\<And>i. i \<in> set (indices t) \<Longrightarrow> i < length arr' \<and> arr' ! i = arr ! i) \<Longrightarrow> represents arr' p t"
  by (induction t arbitrary: p) auto

lemma represents_less: "represents arr p t \<Longrightarrow> i \<in> set (indices t) \<Longrightarrow> i < length arr"
  by (induction t arbitrary: p) auto

lemma link_node_length [simp]: "length (link_node arr i left k) = length arr"
  by (simp add: link_node_def)

lemma link_node_rule [simp]: "nic_rule (link_node arr i left k ! j) = nic_rule (arr ! j)"
  by (cases "j = i"; cases "i < length arr") (auto simp: link_node_def list_update_beyond)

lemma link_node_rules: "map nic_rule (link_node arr i left k) = map nic_rule arr"
  by (rule nth_equalityI) auto

lemma link_node_other: "j \<noteq> i \<Longrightarrow> link_node arr i left k ! j = arr ! j"
  by (simp add: link_node_def)

lemma add_walk_links:
  assumes "represents arr (Some i) t" "distinct (indices t)" "k < length arr" "k \<notin> set (indices t)"
    and "nic_left (arr ! k) = None" "nic_right (arr ! k) = None"
  shows "\<exists>j left. add_walk arr (mac_of arr k) i = Some (j, left) \<and> j \<in> set (indices t) \<and>
    represents (link_node arr j left k) (Some i) (planted arr k t)"
  using assms
proof (induction t arbitrary: i)
  case Tip
  then show ?case by simp
next
  case (Fork l i' r)
  have i: "i' = i" "i < length arr" using Fork.prems(1) by auto
  let ?go = "memcmp (mac_of arr i) (mac_of arr k) < 0"
  have new: "represents (link_node arr i left k) (Some k) (Fork Tip k Tip)" for left
    using Fork.prems(3-6) i by (simp add: link_node_other)
  have keep: "represents arr p u \<Longrightarrow> j \<notin> set (indices u) \<Longrightarrow> represents (link_node arr j left k) p u" for p u j left
    by (rule represents_frame, assumption) (auto intro!: link_node_other dest: represents_less)
  show ?case
  proof (cases ?go)
    case True
    show ?thesis
    proof (cases l)
      case Tip
      then have "nic_left (arr ! i) = None" using Fork.prems(1) i by simp
      then have "add_walk arr (mac_of arr k) i = Some (i, True)" using True by (subst add_walk.simps) simp
      moreover have "represents (link_node arr i True k) (nic_right (arr ! i)) r"
        using Fork.prems(1,2) i by (intro keep) auto
      ultimately show ?thesis using True Tip i new [of True] by (auto simp: link_node_def)
    next
      case (Fork l' m r')
      then have m: "nic_left (arr ! i) = Some m" "represents arr (Some m) l" using Fork.prems(1) i by auto
      with Fork.IH(1) [OF m(2)] Fork.prems obtain j left where j: "add_walk arr (mac_of arr k) m = Some (j, left)"
        "j \<in> set (indices l)" "represents (link_node arr j left k) (Some m) (planted arr k l)" by auto
      have "add_walk arr (mac_of arr k) i = Some (j, left)" using True m(1) j(1) by (subst add_walk.simps) simp
      moreover have "j \<noteq> i" "j \<notin> set (indices r)" using j(2) Fork.prems(2) i by auto
      moreover have "represents (link_node arr j left k) (nic_right (arr ! i)) r"
        using Fork.prems(1) i calculation(3) by (intro keep) auto
      ultimately show ?thesis using True i j m by (intro exI [of _ j] exI [of _ left]) (simp add: link_node_other)
    qed
  next
    case False
    show ?thesis
    proof (cases r)
      case Tip
      then have "nic_right (arr ! i) = None" using Fork.prems(1) i by simp
      then have "add_walk arr (mac_of arr k) i = Some (i, False)" using False by (subst add_walk.simps) simp
      moreover have "represents (link_node arr i False k) (nic_left (arr ! i)) l"
        using Fork.prems(1,2) i by (intro keep) auto
      ultimately show ?thesis using False Tip i new [of False] by (auto simp: link_node_def)
    next
      case (Fork l' m r')
      then have m: "nic_right (arr ! i) = Some m" "represents arr (Some m) r" using Fork.prems(1) i by auto
      with Fork.IH(2) [OF m(2)] Fork.prems obtain j left where j: "add_walk arr (mac_of arr k) m = Some (j, left)"
        "j \<in> set (indices r)" "represents (link_node arr j left k) (Some m) (planted arr k r)" by auto
      have "add_walk arr (mac_of arr k) i = Some (j, left)" using False m(1) j(1) by (subst add_walk.simps) simp
      moreover have "j \<noteq> i" "j \<notin> set (indices l)" using j(2) Fork.prems(2) i by auto
      moreover have "represents (link_node arr j left k) (nic_left (arr ! i)) l"
        using Fork.prems(1) i calculation(3) by (intro keep) auto
      ultimately show ?thesis using False i j m by (intro exI [of _ j] exI [of _ left]) (simp add: link_node_other)
    qed
  qed
qed

end
