(* ===== verification/BillFilter.thy ===== *)
theory BillFilter
  imports BillRules ConfRealm
begin

text \<open>
  \<open>QX-billing/qxc_logging.c\<close>, \<open>qxc_main.c\<close> and \<open>qxc_rm.c\<close>: what the filter reads from a packet, the log
  of taxed packets with its two buffers, the two handlers through which \<open>io-net\<close> passes every packet,
  and the requests of the logger. A handler runs to its end before the next one; the interleaving of threads in the log is in
  \<open>BillLog\<close>. Functions of \<open>io-net\<close> that pass on or give back a packet are the verdict.
\<close>

section \<open>Packets\<close>

text \<open>The 80 bytes in which the beginning of a packet is stored are not cleared first.\<close>

definition PKT_LOG_LEN :: nat where "PKT_LOG_LEN = 80"

definition raw_packet :: "bytes \<Rightarrow> bytes \<Rightarrow> bytes" where
  "raw_packet junk frame = take PKT_LOG_LEN frame @ drop (min (length frame) PKT_LOG_LEN) junk"

definition is_tcp_udp :: "u16 \<Rightarrow> bool" where
  "is_tcp_udp pr \<longleftrightarrow> pr = PROTO_IPv4_TCP \<or> pr = PROTO_IPv4_UDP"

definition parse_ports :: "bytes \<Rightarrow> nat \<Rightarrow> bool \<Rightarrow> qx_log \<Rightarrow> qx_log" where
  "parse_ports raw i tocli p =
     (let src = swap16 (get16 raw i); dst = swap16 (get16 raw (i + 2)) in
      if tocli then p\<lparr>Port_host := src, Port_clnt := dst\<rparr> else p\<lparr>Port_host := dst, Port_clnt := src\<rparr>)"

definition parse_addresses :: "bytes \<Rightarrow> bool \<Rightarrow> qx_log \<Rightarrow> qx_log" where
  "parse_addresses raw tocli p =
     (let src = get32 raw 26; dst = get32 raw 30 in
      (if tocli then p\<lparr>IP_host := src, IP_clnt := dst\<rparr> else p\<lparr>IP_host := dst, IP_clnt := src\<rparr>)\<lparr>IP_proto := ucast (raw ! 23)\<rparr>)"

definition log_parse_pkt :: "bytes \<Rightarrow> nat \<Rightarrow> bool \<Rightarrow> qx_log option" where
  "log_parse_pkt raw len tocli =
     (let p = \<lparr>l_mac = take 6 (drop (if tocli then 0 else 6) raw), DLC_proto = get16 raw 12, IP_clnt = 0, IP_host = 0, IP_proto = 0,
                Port_clnt = 0, Port_host = 0, bytes_to_cli = 0, bytes_to_host = 0\<rparr>;
          ip_len = 4 * unat (raw ! 14 AND 0x0F) in
      if len < 14 then None
      else if DLC_proto p \<noteq> PROTO_DLC_IPv4 then Some p
      else if raw ! 14 AND 0xF0 \<noteq> 0x40 then None
      else if len < ip_len + 14 then None
      else let p = parse_addresses raw tocli p in
        if is_tcp_udp (IP_proto p) then
          if len < ip_len + 18 then None else Some (parse_ports raw (ip_len + 14) tocli p)
        else Some p)"

section \<open>The log\<close>

text \<open>The two buffers; the number of the one that is filled is \<open>log_fd_num\<close>.\<close>

record log_state =
  active_log :: "nat \<Rightarrow> qx_log"
  active_count :: nat
  shadow_log :: "nat \<Rightarrow> qx_log"
  shadow_count :: nat
  log_limit :: nat
  log_fd_num :: nat

definition log_init :: "nat \<Rightarrow> (nat \<Rightarrow> qx_log) \<Rightarrow> (nat \<Rightarrow> qx_log) \<Rightarrow> bool \<Rightarrow> log_state option" where
  "log_init slots a s shm_ok =
     (if shm_ok then Some \<lparr>active_log = a, active_count = 0, shadow_log = s, shadow_count = 0, log_limit = slots, log_fd_num = 0\<rparr>
      else None)"

definition log_store_pkt :: "qx_log \<Rightarrow> log_state \<Rightarrow> bool \<times> log_state" where
  "log_store_pkt p s =
     (let slot = active_count s; s = s\<lparr>active_count := slot + 1\<rparr> in
      if slot < log_limit s then (True, s\<lparr>active_log := (active_log s)(slot := p)\<rparr>)
      else (False, s\<lparr>active_count := log_limit s\<rparr>))"

text \<open>The number of the filled buffer and of its entries.\<close>

definition log_swap_log :: "log_state \<Rightarrow> (nat \<times> nat) \<times> log_state" where
  "log_swap_log s =
     ((log_fd_num s, active_count s),
      s\<lparr>shadow_count := active_count s, active_count := 0, active_log := shadow_log s, shadow_log := active_log s,
        log_fd_num := (if log_fd_num s = 1 then 0 else 1)\<rparr>)"

section \<open>The handlers of packets\<close>

record qxc_if_info =
  if_counters :: "u32 list"
  if_cell :: u16
  if_endpoint :: u16
  if_iface :: u16

record billing =
  interface :: qxc_if_info
  ifname :: bytes
  rules :: rule_lists
  log :: log_state

text \<open>A packet is a message of the system, with the name of an interface when it announces one, or a
  frame.\<close>

datatype payload = Advert bytes | OtherMsg | Frame bytes

record npkt =
  np_load :: payload
  np_cell :: u16
  np_endpoint :: u16
  np_iface :: u16

datatype verdict = Pass | Block

definition same_interface :: "npkt \<Rightarrow> billing \<Rightarrow> bool" where
  "same_interface pkt b \<longleftrightarrow> if_cell (interface b) = np_cell pkt \<and> if_endpoint (interface b) = np_endpoint pkt \<and> if_iface (interface b) = np_iface pkt"

definition RET_RME_ACTIVEONLY :: u32 where "RET_RME_ACTIVEONLY = 1"
definition RET_RME_EVERYONE :: u32 where "RET_RME_EVERYONE = 2"

definition set_bytes :: "bool \<Rightarrow> nat \<Rightarrow> qx_log \<Rightarrow> qx_log" where
  "set_bytes tocli n p = (if tocli then p\<lparr>bytes_to_cli := word_of_nat n\<rparr> else p\<lparr>bytes_to_host := word_of_nat n\<rparr>)"

text \<open>Steps 2 to 6 of both handlers.\<close>

definition check_frame :: "bool \<Rightarrow> bytes \<Rightarrow> bytes \<Rightarrow> billing \<Rightarrow> (verdict \<times> billing) option" where
  "check_frame tocli junk frame b =
     (case log_parse_pkt (raw_packet junk frame) (min (length frame) PKT_LOG_LEN) tocli of
        None \<Rightarrow> Some (Block, b)
      | Some p \<Rightarrow>
          let p = set_bytes tocli (length frame) p; exempt = rule_match_exempt (rules b) p in
          if exempt = RET_RME_EVERYONE then Some (Pass, b)
          else (case rule_match_client (rules b) p of
              None \<Rightarrow> None
            | Some False \<Rightarrow> Some (Block, b)
            | Some True \<Rightarrow>
                if exempt = RET_RME_ACTIVEONLY then Some (Pass, b)
                else (case log_store_pkt p (log b) of
                    (ok, l) \<Rightarrow> Some (if ok then Pass else Block, b\<lparr>log := l\<rparr>))))"

definition qxc_rx_up :: "bytes \<Rightarrow> npkt \<Rightarrow> billing \<Rightarrow> (verdict \<times> billing) option" where
  "qxc_rx_up junk pkt b =
     (case np_load pkt of
        Frame frame \<Rightarrow> if \<not> same_interface pkt b then Some (Pass, b) else check_frame False junk frame b
      | Advert name \<Rightarrow>
          Some (Pass, if stricmp_eq (ifname b) name
            then b\<lparr>interface := (interface b)\<lparr>if_cell := np_cell pkt, if_endpoint := np_endpoint pkt, if_iface := np_iface pkt\<rparr>\<rparr> else b)
      | OtherMsg \<Rightarrow> Some (Pass, b))"

definition qxc_rx_down :: "bytes \<Rightarrow> npkt \<Rightarrow> billing \<Rightarrow> (verdict \<times> billing) option" where
  "qxc_rx_down junk pkt b =
     (case np_load pkt of
        Frame frame \<Rightarrow> if \<not> same_interface pkt b then Some (Pass, b) else check_frame True junk frame b
      | _ \<Rightarrow> Some (Pass, b))"

section \<open>Requests of the logger\<close>

datatype qxc_cmd = QXC_ADD_TE | QXC_ADD_NIC | QXC_GET_INFO | QXC_SWAP_GET_LOG | QXC_OTHER

definition exempt_of :: "bytes \<Rightarrow> qx_rule_exempt" where
  "exempt_of d = \<lparr>x_active = get32 d 0, x_ip_mask = get32 d 4, x_ip_addr = get32 d 8, x_ip_proto = get16 d 12,
     x_port_lo = get16 d 14, x_port_hi = get16 d 16, x_dlc_proto = get16 d 18\<rparr>"

definition nics_of :: "bytes \<Rightarrow> qx_rule_nics" where
  "nics_of d = \<lparr>UID = get32 d 0, n_ip_addr = get32 d 4, n_mac = take 6 (drop 8 d)\<rparr>"

datatype qxc_reply = NoData | Info qxc_if_info | Region nat

text \<open>The data of the message is as long as the client says. The result is the value returned to the client,
  or \<open>ENOSYS\<close>; there is no result when the walk through the tree does not end.\<close>

definition qxc_rm_devctl :: "qxc_cmd \<Rightarrow> bytes \<Rightarrow> billing \<Rightarrow> ((int \<times> qxc_reply) option \<times> billing) option" where
  "qxc_rm_devctl cmd d b =
     (case cmd of
        QXC_ADD_TE \<Rightarrow>
          if 20 \<le> length d then (case rule_add_exempt (exempt_of d) (rules b) of
              (ok, r) \<Rightarrow> Some (Some (if ok then 1 else 0, NoData), b\<lparr>rules := r\<rparr>))
          else Some (Some (-1, NoData), b)
      | QXC_ADD_NIC \<Rightarrow>
          if 16 \<le> length d then (case rule_add_nic (nics_of d) (rules b) of
              None \<Rightarrow> None
            | Some (ok, r) \<Rightarrow> Some (Some (if ok then 1 else 0, NoData), b\<lparr>rules := r\<rparr>))
          else Some (Some (-1, NoData), b)
      | QXC_GET_INFO \<Rightarrow>
          if 40 \<le> length d then Some (Some (1, Info (interface b)), b) else Some (Some (-1, NoData), b)
      | QXC_SWAP_GET_LOG \<Rightarrow> (case log_swap_log (log b) of
            ((rgn, cnt), l) \<Rightarrow> Some (Some (int cnt, Region rgn), b\<lparr>log := l, rules := rule_swap_lists (rules b)\<rparr>))
      | QXC_OTHER \<Rightarrow> Some (None, b))"

section \<open>Start\<close>

record qxc_conf =
  qx_ifname :: string
  qx_devname :: string
  log_pkts :: int
  max_te :: int
  max_nics :: int

definition qxc_defaults :: qxc_conf where
  "qxc_defaults = \<lparr>qx_ifname = ''en0'', qx_devname = ''/dev/qxbil'', log_pkts = 1000, max_te = 10, max_nics = 10\<rparr>"

definition qxc_directive :: "string \<Rightarrow> (string option \<Rightarrow> qxc_conf \<Rightarrow> setup_fail + qxc_conf) option" where
  "qxc_directive t =
     (if str_ieq ''INTERFACE'' t then Some (given (\<lambda>a c. Inr (c\<lparr>qx_ifname := a\<rparr>)))
      else if str_ieq ''DEVICE'' t then Some (given (\<lambda>a c. Inr (c\<lparr>qx_devname := a\<rparr>)))
      else if str_ieq ''LOGPKTS'' t then Some (given (\<lambda>a c. Inr (c\<lparr>log_pkts := atoi a\<rparr>)))
      else if str_ieq ''MAXTAXEXEMPT'' t then Some (given (\<lambda>a c. Inr (c\<lparr>max_te := atoi a\<rparr>)))
      else if str_ieq ''MAXNICS'' t then Some (given (\<lambda>a c. Inr (c\<lparr>max_nics := atoi a\<rparr>)))
      else None)"

definition qxc_parse_config :: "string option \<Rightarrow> string \<Rightarrow> setup_fail + qxc_conf" where
  "qxc_parse_config file junk =
     (case GetConf_open file junk of None \<Rightarrow> Inl ExitFailure | Some cf \<Rightarrow> flat_lines qxc_directive cf qxc_defaults)"

text \<open>The initial contents of the buffers are arguments, as are the results of the calls. Numbers that
  are negative do not fit: no memory is got for them.\<close>

record qxc_start =
  qs_log0 :: "nat \<Rightarrow> qx_log"
  qs_log1 :: "nat \<Rightarrow> qx_log"
  qs_shm :: bool
  qs_mem :: bool
  qs_register :: bool

definition qxc_init :: "string option \<Rightarrow> string \<Rightarrow> qxc_start \<Rightarrow> setup_fail + billing" where
  "qxc_init file junk e =
     (case qxc_parse_config file junk of
        Inl x \<Rightarrow> Inl x
      | Inr c \<Rightarrow>
          (case (log_init (nat (log_pkts c)) (qs_log0 e) (qs_log1 e) (qs_shm e \<and> 0 \<le> log_pkts c),
                 rule_init_lists (nat (max_te c)) (nat (max_nics c)) (qs_mem e \<and> 0 \<le> max_te c \<and> 0 \<le> max_nics c)) of
             (Some l, Some r) \<Rightarrow>
               if qs_register e then Inr \<lparr>interface = \<lparr>if_counters = replicate 8 0, if_cell = 0, if_endpoint = 0, if_iface = 0\<rparr>,
                 ifname = bytes_of (qx_ifname c), rules = r, log = l\<rparr>
               else Inl ExitFailure
           | _ \<Rightarrow> Inl ExitFailure))"

end
