(* ===== verification/BillAccount.thy ===== *)
theory BillAccount
  imports BillFilter
begin

text \<open>
  What the packet filter of \<open>QX-billing\<close> guarantees: the tree of client rules decides as the set of
  rules would, no taxed packet passes without an entry in the log, and the logger gets each entry exactly once. A packet
  or a request is handled to its end before the next one; \<open>BillLog\<close> has the threads.
\<close>

section \<open>Rules\<close>

text \<open>A new rule becomes a new node, and the tree stays a search tree.\<close>

lemma rule_add_nic_tree:
  assumes t: "nic_tree (nc_shadow s)" and m: "length (n_mac r) = 6" and n: "length (nc_shadow s) < nc_limit s"
  shows "\<exists>arr. rule_add_nic r s = Some (True, s\<lparr>nc_shadow := arr\<rparr>) \<and> nic_tree arr \<and> map nic_rule arr = map nic_rule (nc_shadow s) @ [r]"
proof -
  let ?n = "length (nc_shadow s)" let ?nd = "\<lparr>nic_rule = r, nic_left = None, nic_right = None\<rparr>" let ?arr = "nc_shadow s @ [?nd]"
  have six: "\<forall>nd \<in> set ?arr. length (n_mac (nic_rule nd)) = 6" using t m by (auto simp: nic_tree_def)
  show ?thesis
  proof (cases "nc_shadow s = []")
    case True
    have "nic_tree ?arr" using six True by (auto simp: nic_tree_def tree_root_def intro!: exI [of _ "Fork Tip 0 Tip"])
    with True n show ?thesis by (intro exI [of _ ?arr]) (simp add: rule_add_nic_def Let_def)
  next
    case False
    with t obtain u where u: "represents (nc_shadow s) (Some 0) u" "ordered (nc_shadow s) u" "distinct (indices u)" "set (indices u) = {..<?n}"
      by (auto simp: nic_tree_def tree_root_def)
    have same: "?arr ! i = nc_shadow s ! i" if "i \<in> set (indices u)" for i using that u(4) by (simp add: nth_append)
    have r: "represents ?arr (Some 0) u" by (rule represents_frame [OF u(1)]) (use u(4) same in auto)
    have "ordered (nc_shadow s) v \<Longrightarrow> set (indices v) \<subseteq> {..<?n} \<Longrightarrow> ordered ?arr v" for v by (induction v) (auto simp: nth_append)
    then have o: "ordered ?arr u" using u(2,4) by blast
    have k: "?n < length ?arr" "?n \<notin> set (indices u)" "nic_left (?arr ! ?n) = None" "nic_right (?arr ! ?n) = None" "mac_of ?arr ?n = n_mac r"
      using u(4) by simp_all
    from add_walk_links [OF r u(3) k(1-4)] obtain j left where j: "add_walk ?arr (n_mac r) 0 = Some (j, left)"
      "represents (link_node ?arr j left ?n) (Some 0) (planted ?arr ?n u)" unfolding k(5) by auto
    let ?new = "link_node ?arr j left ?n"
    have walk: "add_walk (nc_shadow s @ [?nd]) (n_mac r) 0 = Some (j, left)" by (rule j(1))
    have ord: "ordered ?new v" if "ordered ?arr v" for v using that by (induction v) auto
    have "\<forall>nd \<in> set (link_node arr j left k). length (n_mac (nic_rule nd)) = 6" if "\<forall>nd \<in> set arr. length (n_mac (nic_rule nd)) = 6" for arr k
      using that by (simp add: all_set_conv_all_nth)
    from this [OF six] have six': "\<forall>nd \<in> set ?new. length (n_mac (nic_rule nd)) = 6" .
    have "length ?new = Suc ?n" by simp
    then have root: "tree_root ?new = Some 0" by (auto simp only: tree_root_def list.size nat.distinct split: if_split)
    have "set (indices (planted ?arr ?n u)) = {..<length ?new}" using planted_indices(1) [of ?arr ?n u] u(4) by auto
    then have "nic_tree ?new"
      unfolding nic_tree_def root using j(2) ord [OF planted_ordered [OF o]] planted_indices(2) [OF u(3) k(2)] six' by blast
    moreover have "map nic_rule ?new = map nic_rule ?arr" by (rule link_node_rules)
    ultimately show ?thesis using False n walk by (intro exI [of _ ?new]) (simp add: rule_add_nic_def Let_def)
  qed
qed

lemma match_nic_tree:
  assumes "nic_tree arr" "length (l_mac p) = 6"
  shows "match_walk arr p (tree_root arr) = Some (\<exists>r \<in> set (map nic_rule arr). n_mac r = l_mac p \<and> n_ip_addr r = IP_clnt p)"
proof -
  from assms(1) obtain t where t: "represents arr (tree_root arr) t" "ordered arr t" "set (indices t) = {..<length arr}"
    "\<forall>nd \<in> set arr. length (n_mac (nic_rule nd)) = 6" by (auto simp: nic_tree_def)
  have "(\<exists>i \<in> set (indices t). mac_of arr i = l_mac p \<and> n_ip_addr (nic_rule (arr ! i)) = IP_clnt p) \<longleftrightarrow>
      (\<exists>r \<in> set (map nic_rule arr). n_mac r = l_mac p \<and> n_ip_addr r = IP_clnt p)"
    using nth_mem [of _ arr] by (fastforce simp: t(3) in_set_conv_nth)
  with match_walk_tree [OF t(1,2,4) assms(2)] show ?thesis by simp
qed

fun add_nics :: "qx_rule_nics list \<Rightarrow> rule_lists \<Rightarrow> rule_lists option" where
  "add_nics [] s = Some s"
| "add_nics (r # rs) s = (case rule_add_nic r s of None \<Rightarrow> None | Some (ok, s) \<Rightarrow> add_nics rs s)"

lemma add_nics_tree:
  assumes "nic_tree (nc_shadow s)" "\<forall>r \<in> set rs. length (n_mac r) = 6" "length (nc_shadow s) + length rs \<le> nc_limit s"
  shows "\<exists>arr. add_nics rs s = Some (s\<lparr>nc_shadow := arr\<rparr>) \<and> nic_tree arr \<and> map nic_rule arr = map nic_rule (nc_shadow s) @ rs"
  using assms
proof (induction rs arbitrary: s)
  case Nil
  then show ?case by (intro exI [of _ "nc_shadow s"]) simp
next
  case (Cons r rs)
  then obtain arr where a: "rule_add_nic r s = Some (True, s\<lparr>nc_shadow := arr\<rparr>)" "nic_tree arr" "map nic_rule arr = map nic_rule (nc_shadow s) @ [r]"
    using rule_add_nic_tree [of s r] by auto
  from arg_cong [OF a(3), of length] have "length arr = length (nc_shadow s) + 1" by simp
  with Cons.IH [of "s\<lparr>nc_shadow := arr\<rparr>"] Cons.prems a show ?case by auto
qed

text \<open>C23: After rules for clients have been added, as many as there is room for, and the lists have been swapped,
  the walk through the tree ends and accepts exactly the packets whose hardware and IP addresses are those of
  one of the rules.\<close>

theorem client_rules_decide:
  assumes "rule_init_lists ex_cnt nc_cnt True = Some s0" "\<forall>r \<in> set rs. length (n_mac r) = 6" "length rs \<le> nc_cnt" "length (l_mac p) = 6"
  shows "\<exists>s. add_nics rs s0 = Some s \<and>
    rule_match_client (rule_swap_lists s) p = Some (\<exists>r \<in> set rs. n_mac r = l_mac p \<and> n_ip_addr r = IP_clnt p)"
proof -
  have s0: "nc_shadow s0 = []" "nc_limit s0 = nc_cnt" using assms(1) by (auto simp: rule_init_lists_def)
  have "nic_tree (nc_shadow s0)" by (auto simp: s0 nic_tree_def tree_root_def intro!: exI [of _ Tip])
  from add_nics_tree [OF this assms(2)] assms(3) s0 obtain arr where
    a: "add_nics rs s0 = Some (s0\<lparr>nc_shadow := arr\<rparr>)" "nic_tree arr" "map nic_rule arr = rs" by auto
  from match_nic_tree [OF a(2) assms(4)] a(1,3) show ?thesis by (simp add: rule_match_client_def rule_swap_lists_def)
qed

section \<open>What passes is paid for\<close>

text \<open>The entry of a frame: what the parser reads and its length.\<close>

definition entry_of :: "bool \<Rightarrow> bytes \<Rightarrow> bytes \<Rightarrow> qx_log option" where
  "entry_of tocli junk frame =
     map_option (set_bytes tocli (length frame)) (log_parse_pkt (raw_packet junk frame) (min (length frame) PKT_LOG_LEN) tocli)"

definition listed :: "rule_lists \<Rightarrow> qx_log \<Rightarrow> bool" where
  "listed s p \<longleftrightarrow> (\<exists>r \<in> set (map nic_rule (nc_list s)). n_mac r = l_mac p \<and> n_ip_addr r = IP_clnt p)"

definition log_entries :: "log_state \<Rightarrow> qx_log list" where
  "log_entries l = map (active_log l) [0..<active_count l]"

definition bill_ok :: "billing \<Rightarrow> bool" where
  "bill_ok b \<longleftrightarrow> nic_tree (nc_list (rules b)) \<and> nic_tree (nc_shadow (rules b)) \<and>
     length (nc_shadow (rules b)) \<le> nc_limit (rules b) \<and> active_count (log b) \<le> log_limit (log b)"

lemma log_parse_mac: "log_parse_pkt raw len tocli = Some p \<Longrightarrow> length raw = 80 \<Longrightarrow> length (l_mac p) = 6"
  by (auto simp: log_parse_pkt_def parse_addresses_def parse_ports_def Let_def split: if_splits)

lemma entry_mac: "entry_of tocli junk frame = Some p \<Longrightarrow> length junk = 80 \<Longrightarrow> length (l_mac p) = 6"
  by (auto simp: entry_of_def set_bytes_def raw_packet_def PKT_LOG_LEN_def dest!: log_parse_mac)

lemma log_store_entries:
  assumes "active_count l \<le> log_limit l"
  shows "active_count l < log_limit l \<Longrightarrow> fst (log_store_pkt p l) \<and> log_entries (snd (log_store_pkt p l)) = log_entries l @ [p]"
    and "\<not> active_count l < log_limit l \<Longrightarrow> \<not> fst (log_store_pkt p l) \<and> log_entries (snd (log_store_pkt p l)) = log_entries l"
    and "active_count (snd (log_store_pkt p l)) \<le> log_limit (snd (log_store_pkt p l))"
  using assms by (auto simp: log_store_pkt_def Let_def log_entries_def)

lemma check_frame_cases:
  assumes "bill_ok b" "length junk = 80"
  shows "\<exists>v l. check_frame tocli junk frame b = Some (v, b\<lparr>log := l\<rparr>) \<and> active_count l \<le> log_limit l \<and>
    (case entry_of tocli junk frame of
       None \<Rightarrow> v = Block \<and> l = log b
     | Some p \<Rightarrow>
         let x = rule_match_exempt (rules b) p; taxed = (x \<noteq> 2 \<and> listed (rules b) p \<and> x \<noteq> 1) in
         (v = Pass \<longleftrightarrow> x = 2 \<or> listed (rules b) p \<and> (x = 1 \<or> active_count (log b) < log_limit (log b))) \<and>
         log_entries l = log_entries (log b) @ (if v = Pass \<and> taxed then [p] else []))"
proof (cases "entry_of tocli junk frame")
  case None
  then have "check_frame tocli junk frame b = Some (Block, b\<lparr>log := log b\<rparr>)" by (simp add: entry_of_def check_frame_def)
  moreover have "active_count (log b) \<le> log_limit (log b)" using assms(1) by (simp add: bill_ok_def)
  ultimately show ?thesis using None by (intro exI [of _ Block] exI [of _ "log b"]) simp
next
  case (Some p)
  note ok = assms(1) [unfolded bill_ok_def]
  let ?x = "rule_match_exempt (rules b) p" and ?l = "log b"
  have m: "rule_match_client (rules b) p = Some (listed (rules b) p)"
    unfolding rule_match_client_def listed_def using ok entry_mac [OF Some assms(2)] by (intro match_nic_tree) auto
  have c: "check_frame tocli junk frame b =
      (if ?x = 2 then Some (Pass, b) else if \<not> listed (rules b) p then Some (Block, b) else if ?x = 1 then Some (Pass, b)
       else Some (if fst (log_store_pkt p ?l) then Pass else Block, b\<lparr>log := snd (log_store_pkt p ?l)\<rparr>))"
    using Some m by (auto simp: entry_of_def check_frame_def Let_def RET_RME_EVERYONE_def RET_RME_ACTIVEONLY_def split: prod.split)
  let ?l' = "if ?x = 2 \<or> \<not> listed (rules b) p \<or> ?x = 1 then ?l else snd (log_store_pkt p ?l)"
  let ?v = "if ?x = 2 \<or> listed (rules b) p \<and> (?x = 1 \<or> active_count ?l < log_limit ?l) then Pass else Block"
  have e: "check_frame tocli junk frame b = Some (?v, b\<lparr>log := ?l'\<rparr>)" using c log_store_entries(1,2) [of ?l p] ok by auto
  have "active_count ?l' \<le> log_limit ?l'" using ok log_store_entries(3) [of ?l p] by simp
  moreover have "log_entries ?l' = log_entries ?l @ (if ?v = Pass \<and> ?x \<noteq> 2 \<and> listed (rules b) p \<and> ?x \<noteq> 1 then [p] else [])"
    using log_store_entries(1,2) [of ?l p] ok by auto
  ultimately show ?thesis using e Some by (intro exI [of _ ?v] exI [of _ ?l']) (simp add: Let_def)
qed

definition handle_packet :: "bool \<Rightarrow> bytes \<Rightarrow> npkt \<Rightarrow> billing \<Rightarrow> (verdict \<times> billing) option" where
  "handle_packet tocli = (if tocli then qxc_rx_down else qxc_rx_up)"

text \<open>A frame on the watched interface, in either direction, passes only if it could be read, and is exempt for
  everyone, or belongs to a listed client and is exempt for listed clients or has its entry, with its length, at the end of
  the log.\<close>

theorem no_unbilled_traffic:
  assumes "bill_ok b" "length junk = 80" "np_load pkt = Frame frame" "same_interface pkt b"
  shows "\<exists>v l. handle_packet tocli junk pkt b = Some (v, b\<lparr>log := l\<rparr>) \<and>
    (v = Pass \<longrightarrow> (\<exists>p. entry_of tocli junk frame = Some p \<and>
       (rule_match_exempt (rules b) p = 2 \<or>
        listed (rules b) p \<and> (rule_match_exempt (rules b) p = 1 \<or> log_entries l = log_entries (log b) @ [p]))))"
proof -
  have h: "handle_packet tocli junk pkt b = check_frame tocli junk frame b"
    using assms(3,4) by (simp add: handle_packet_def qxc_rx_up_def qxc_rx_down_def)
  from check_frame_cases [OF assms(1,2), of tocli frame] obtain v l where c: "check_frame tocli junk frame b = Some (v, b\<lparr>log := l\<rparr>)"
    "case entry_of tocli junk frame of None \<Rightarrow> v = Block \<and> l = log b
     | Some p \<Rightarrow> let x = rule_match_exempt (rules b) p; taxed = (x \<noteq> 2 \<and> listed (rules b) p \<and> x \<noteq> 1) in
         (v = Pass \<longleftrightarrow> x = 2 \<or> listed (rules b) p \<and> (x = 1 \<or> active_count (log b) < log_limit (log b))) \<and>
         log_entries l = log_entries (log b) @ (if v = Pass \<and> taxed then [p] else [])" by blast
  then show ?thesis unfolding h by (intro exI [of _ v] exI [of _ l]) (auto simp: Let_def split: option.splits)
qed

section \<open>The logger gets every entry once\<close>

datatype bill_event = Packet bool bytes npkt | Command qxc_cmd bytes

text \<open>What a passed packet owes.\<close>

definition dues :: "bool \<Rightarrow> bytes \<Rightarrow> npkt \<Rightarrow> billing \<Rightarrow> verdict \<Rightarrow> qx_log list" where
  "dues tocli junk pkt b v =
     (case np_load pkt of
        Frame frame \<Rightarrow> (case entry_of tocli junk frame of
            Some p \<Rightarrow> if v = Pass \<and> same_interface pkt b \<and> rule_match_exempt (rules b) p \<noteq> 1 \<and> rule_match_exempt (rules b) p \<noteq> 2 then [p] else []
          | None \<Rightarrow> [])
      | _ \<Rightarrow> [])"

text \<open>The logger reads as many entries of the filled buffer as it was told.\<close>

fun bill_step :: "(billing \<times> qx_log list \<times> qx_log list) option \<Rightarrow> bill_event \<Rightarrow> (billing \<times> qx_log list \<times> qx_log list) option" where
  "bill_step None ev = None"
| "bill_step (Some (b, got, due)) (Packet tocli junk pkt) =
     (case handle_packet tocli junk pkt b of
        None \<Rightarrow> None
      | Some (v, b') \<Rightarrow> Some (b', got, due @ dues tocli junk pkt b v))"
| "bill_step (Some (b, got, due)) (Command cmd d) =
     (case qxc_rm_devctl cmd d b of
        None \<Rightarrow> None
      | Some (Some (cnt, Region _), b') \<Rightarrow> Some (b', got @ map (shadow_log (log b')) [0..<nat cnt], due)
      | Some (_, b') \<Rightarrow> Some (b', got, due))"

fun bill_event_ok :: "(billing \<times> qx_log list \<times> qx_log list) option \<Rightarrow> bill_event \<Rightarrow> bool" where
  "bill_event_ok s (Packet tocli junk pkt) \<longleftrightarrow> length junk = 80"
| "bill_event_ok s (Command cmd d) \<longleftrightarrow> True"

fun bill_inv :: "(billing \<times> qx_log list \<times> qx_log list) option \<Rightarrow> bool" where
  "bill_inv None \<longleftrightarrow> False"
| "bill_inv (Some (b, got, due)) \<longleftrightarrow> bill_ok b \<and> got @ log_entries (log b) = due"

lemma check_frame_dues:
  assumes "bill_ok b" "length junk = 80" "np_load pkt = Frame frame" "same_interface pkt b"
  shows "\<exists>v l. check_frame tocli junk frame b = Some (v, b\<lparr>log := l\<rparr>) \<and> active_count l \<le> log_limit l \<and>
    log_entries l = log_entries (log b) @ dues tocli junk pkt b v"
proof -
  from check_frame_cases [OF assms(1,2), of tocli frame] obtain v l where c: "check_frame tocli junk frame b = Some (v, b\<lparr>log := l\<rparr>)"
    "active_count l \<le> log_limit l"
    "case entry_of tocli junk frame of None \<Rightarrow> v = Block \<and> l = log b
     | Some p \<Rightarrow> let x = rule_match_exempt (rules b) p; taxed = (x \<noteq> 2 \<and> listed (rules b) p \<and> x \<noteq> 1) in
         (v = Pass \<longleftrightarrow> x = 2 \<or> listed (rules b) p \<and> (x = 1 \<or> active_count (log b) < log_limit (log b))) \<and>
         log_entries l = log_entries (log b) @ (if v = Pass \<and> taxed then [p] else [])" by blast
  have "log_entries l = log_entries (log b) @ dues tocli junk pkt b v"
  proof (cases "entry_of tocli junk frame")
    case None
    with c(3) assms(3) show ?thesis by (simp add: dues_def)
  next
    case (Some p)
    with c(3) assms(3,4) show ?thesis by (auto simp: dues_def Let_def)
  qed
  with c(1,2) show ?thesis by blast
qed

lemma packet_step:
  assumes "bill_inv (Some (b, got, due))" "length junk = 80"
  shows "bill_inv (bill_step (Some (b, got, due)) (Packet tocli junk pkt))"
proof (cases "\<exists>frame. np_load pkt = Frame frame \<and> same_interface pkt b")
  case True
  then obtain frame where f: "np_load pkt = Frame frame" "same_interface pkt b" by blast
  have h: "handle_packet tocli junk pkt b = check_frame tocli junk frame b"
    using f by (simp add: handle_packet_def qxc_rx_up_def qxc_rx_down_def)
  from check_frame_dues [OF _ assms(2) f, of tocli] assms(1) obtain v l where "check_frame tocli junk frame b = Some (v, b\<lparr>log := l\<rparr>)"
    "active_count l \<le> log_limit l" "log_entries l = log_entries (log b) @ dues tocli junk pkt b v" by auto
  with h assms(1) show ?thesis by (auto simp: bill_ok_def)
next
  case False
  then have "\<exists>b'. handle_packet tocli junk pkt b = Some (Pass, b') \<and> log b' = log b \<and> rules b' = rules b"
    by (cases "np_load pkt") (auto simp: handle_packet_def qxc_rx_up_def qxc_rx_down_def)
  then obtain b' where "handle_packet tocli junk pkt b = Some (Pass, b')" "log b' = log b" "rules b' = rules b" by blast
  moreover have "dues tocli junk pkt b Pass = []" using False by (auto simp: dues_def split: payload.split option.split)
  ultimately show ?thesis using assms(1) by (simp add: bill_ok_def)
qed

lemma command_step:
  assumes "bill_inv (Some (b, got, due))"
  shows "bill_inv (bill_step (Some (b, got, due)) (Command cmd d))"
proof (cases cmd)
  case QXC_ADD_TE
  with assms show ?thesis by (auto simp: qxc_rm_devctl_def rule_add_exempt_def bill_ok_def split: prod.split)
next
  case QXC_ADD_NIC
  show ?thesis
  proof (cases "16 \<le> length d \<and> length (nc_shadow (rules b)) < nc_limit (rules b)")
    case True
    then have "16 \<le> length d" ..
    then have m: "length (n_mac (nics_of d)) = 6" unfolding nics_of_def by simp
    from assms True rule_add_nic_tree [OF _ m, of "rules b"] obtain arr where
      "rule_add_nic (nics_of d) (rules b) = Some (True, rules b\<lparr>nc_shadow := arr\<rparr>)" "nic_tree arr"
      "map nic_rule arr = map nic_rule (nc_shadow (rules b)) @ [nics_of d]" by (auto simp: bill_ok_def)
    moreover from arg_cong [OF this(3), of length] have "length arr = Suc (length (nc_shadow (rules b)))" by simp
    ultimately show ?thesis using QXC_ADD_NIC True assms by (simp add: qxc_rm_devctl_def bill_ok_def)
  next
    case False
    with assms have "16 \<le> length d \<Longrightarrow> length (nc_shadow (rules b)) = nc_limit (rules b)" by (auto simp: bill_ok_def)
    with QXC_ADD_NIC assms show ?thesis by (auto simp: qxc_rm_devctl_def rule_add_nic_def Let_def)
  qed
next
  case QXC_SWAP_GET_LOG
  have "nic_tree []" by (auto simp: nic_tree_def tree_root_def intro!: exI [of _ Tip])
  with QXC_SWAP_GET_LOG assms show ?thesis
    by (auto simp: qxc_rm_devctl_def log_swap_log_def rule_swap_lists_def bill_ok_def log_entries_def)
qed (use assms in \<open>auto simp: qxc_rm_devctl_def\<close>)

interpretation bill: machine bill_step bill_event_ok bill_inv
proof
  fix s :: "(billing \<times> qx_log list \<times> qx_log list) option" and e
  assume "bill_inv s" "bill_event_ok s e"
  then show "bill_inv (bill_step s e)" by (cases s; cases e) (auto intro: packet_step command_step)
qed

text \<open>C22: From the start of the filter, in every sequence of packets and commands, the entries that the
  logger has fetched and those that wait in the log are, in order, those of the taxed packets that passed: none is lost,
  doubled or charged for a packet that was blocked. And every packet and command is handled to its end.\<close>

theorem traffic_is_accounted:
  assumes "qxc_init file junk e = Inr b0" "bill.run_ok (Some (b0, [], [])) es"
  shows "\<exists>b got due. bill.run (Some (b0, [], [])) es = Some (b, got, due) \<and> got @ log_entries (log b) = due"
proof -
  have "bill_inv (Some (b0, [], []))"
    using assms(1) by (auto simp: qxc_init_def log_init_def rule_init_lists_def bill_ok_def log_entries_def nic_tree_def tree_root_def
        intro!: exI [of _ Tip] split: sum.splits option.splits if_splits)
  from bill.run_inv [OF this assms(2)] show ?thesis by (cases "bill.run (Some (b0, [], [])) es") auto
qed

definition a_packet :: qx_log where
  "a_packet = \<lparr>l_mac = [1, 2, 3, 4, 5, 6], DLC_proto = 8, IP_clnt = 7, IP_host = 9, IP_proto = 17, Port_clnt = 0, Port_host = 0,
     bytes_to_cli = 100, bytes_to_host = 0\<rparr>"

definition a_client :: qx_rule_nics where
  "a_client = \<lparr>UID = 1, n_ip_addr = 7, n_mac = [1, 2, 3, 4, 5, 6]\<rparr>"

definition a_filter :: billing where
  "a_filter = \<lparr>interface = \<lparr>if_counters = [], if_cell = 0, if_endpoint = 0, if_iface = 0\<rparr>, ifname = [],
     rules = \<lparr>ex_active = [], ex_shadow = [], ex_limit = 1, nc_list = [\<lparr>nic_rule = a_client, nic_left = None, nic_right = None\<rparr>],
       nc_shadow = [], nc_limit = 1\<rparr>,
     log = \<lparr>active_log = \<lambda>i. a_packet, active_count = 0, shadow_log = \<lambda>i. a_packet, shadow_count = 0, log_limit = 1, log_fd_num = 0\<rparr>\<rparr>"

definition a_frame :: bytes where
  "a_frame = [9, 9, 9, 9, 9, 9, 1, 2, 3, 4, 5, 6, 8, 0, 0x45, 0, 0, 20, 0, 0, 0, 0, 64, 1, 0, 0, 7, 0, 0, 0, 9, 0, 0, 0]"

theorem client_rules_decide_witness:
  "\<exists>s0 s. rule_init_lists 1 2 True = Some s0 \<and> add_nics [a_client] s0 = Some s \<and> rule_match_client (rule_swap_lists s) a_packet = Some True"
proof -
  define s0 where "s0 = the (rule_init_lists 1 2 True)"
  have i: "rule_init_lists 1 2 True = Some s0" by (simp add: s0_def rule_init_lists_def)
  have m: "length (n_mac a_client) = 6" "length (l_mac a_packet) = 6" "n_mac a_client = l_mac a_packet" "n_ip_addr a_client = IP_clnt a_packet"
    by (simp_all add: a_client_def a_packet_def)
  from client_rules_decide [OF i, of "[a_client]" a_packet] m obtain s where
    "add_nics [a_client] s0 = Some s" "rule_match_client (rule_swap_lists s) a_packet = Some True" by auto
  with i show ?thesis by blast
qed

lemma a_filter_ok: "bill_ok a_filter"
proof -
  have "nic_tree (nc_list (rules a_filter))"
    by (auto simp: nic_tree_def tree_root_def a_filter_def a_client_def intro!: exI [of _ "Fork Tip 0 Tip"])
  moreover have "nic_tree (nc_shadow (rules a_filter))"
    by (auto simp: nic_tree_def tree_root_def a_filter_def intro!: exI [of _ Tip])
  ultimately show ?thesis by (simp add: bill_ok_def) (simp add: a_filter_def)
qed

theorem no_unbilled_traffic_witness:
  "\<exists>v l p. handle_packet False (replicate 80 0) \<lparr>np_load = Frame a_frame, np_cell = 0, np_endpoint = 0, np_iface = 0\<rparr> a_filter =
      Some (v, a_filter\<lparr>log := l\<rparr>) \<and> (v = Pass \<longrightarrow> log_entries l = log_entries (log a_filter) @ [p])"
proof -
  let ?pkt = "\<lparr>np_load = Frame a_frame, np_cell = 0, np_endpoint = 0, np_iface = 0\<rparr>"
  have s: "same_interface ?pkt a_filter" by (simp add: same_interface_def a_filter_def)
  have x: "rule_match_exempt (rules a_filter) p = 0" for p by (simp add: a_filter_def rule_match_exempt_def)
  from no_unbilled_traffic [OF a_filter_ok, of "replicate 80 0" ?pkt a_frame False] s show ?thesis by (auto simp: x)
qed

theorem traffic_is_accounted_witness:
  "\<exists>b0. qxc_init (Some []) [] \<lparr>qs_log0 = \<lambda>i. a_packet, qs_log1 = \<lambda>i. a_packet, qs_shm = True, qs_mem = True, qs_register = True\<rparr> = Inr b0 \<and>
     (\<exists>b got due. bill.run (Some (b0, [], []))
        [Command QXC_ADD_NIC (replicate 16 1), Command QXC_SWAP_GET_LOG [],
         Packet False (replicate 80 0) \<lparr>np_load = Frame a_frame, np_cell = 0, np_endpoint = 0, np_iface = 0\<rparr>] = Some (b, got, due) \<and>
        got @ log_entries (log b) = due)"
proof -
  let ?e = "\<lparr>qs_log0 = \<lambda>i. a_packet, qs_log1 = \<lambda>i. a_packet, qs_shm = True, qs_mem = True, qs_register = True\<rparr>"
  let ?es = "[Command QXC_ADD_NIC (replicate 16 1), Command QXC_SWAP_GET_LOG [],
     Packet False (replicate 80 0) \<lparr>np_load = Frame a_frame, np_cell = 0, np_endpoint = 0, np_iface = 0\<rparr>]"
  have "\<exists>b0. qxc_init (Some []) [] ?e = Inr b0"
    by (simp add: qxc_init_def qxc_parse_config_def GetConf_open_def flat_lines_end qxc_defaults_def log_init_def rule_init_lists_def)
  then obtain b0 where b0: "qxc_init (Some []) [] ?e = Inr b0" ..
  have "bill.run_ok (Some (b0, [], [])) ?es" by simp
  from traffic_is_accounted [OF b0 this] show ?thesis using b0 by blast
qed

end
