(* ===== verification/BillLog.thy ===== *)
theory BillLog
  imports BillAccount "HOL-Library.Multiset"
begin

text \<open>
  \<open>log_store_pkt\<close> of \<open>QX-billing/qxc_logging.c\<close> as the threads of \<open>io-net\<close> run it: all of them hold
  \<open>log_rwlock\<close> for reading, each takes its slot with one atomic addition, writes to that slot or clamps the counter,
  and leaves; \<open>log_swap_log\<close> waits until no thread is inside. Within its slot a thread writes alone, so that the copy of the entry
  is one step. The counter has 32 bits and exceeds the limit by at most the number of threads inside.
\<close>

section \<open>Threads in the log\<close>

datatype log_phase = Outside | Locked qx_log | Took qx_log nat

record log_threads =
  shared :: log_state
  phase :: "nat \<Rightarrow> log_phase"
  passed :: "qx_log multiset"
  fetched :: "qx_log multiset"

definition entries_of :: "(nat \<Rightarrow> qx_log) \<Rightarrow> nat set \<Rightarrow> qx_log multiset" where
  "entries_of l ks = image_mset l (mset_set ks)"

inductive log_trans :: "log_threads \<Rightarrow> log_threads \<Rightarrow> bool" where
  lock: "phase s t = Outside \<Longrightarrow> log_trans s (s\<lparr>phase := (phase s)(t := Locked p)\<rparr>)"
| take: "phase s t = Locked p \<Longrightarrow>
    log_trans s (s\<lparr>phase := (phase s)(t := Took p (active_count (shared s))),
      shared := (shared s)\<lparr>active_count := active_count (shared s) + 1\<rparr>\<rparr>)"
| store: "phase s t = Took p k \<Longrightarrow> k < log_limit (shared s) \<Longrightarrow>
    log_trans s (s\<lparr>phase := (phase s)(t := Outside), passed := add_mset p (passed s),
      shared := (shared s)\<lparr>active_log := (active_log (shared s))(k := p)\<rparr>\<rparr>)"
| full: "phase s t = Took p k \<Longrightarrow> \<not> k < log_limit (shared s) \<Longrightarrow>
    log_trans s (s\<lparr>phase := (phase s)(t := Outside), shared := (shared s)\<lparr>active_count := log_limit (shared s)\<rparr>\<rparr>)"
| swap: "\<forall>t. phase s t = Outside \<Longrightarrow> log_swap_log (shared s) = ((rgn, cnt), l) \<Longrightarrow>
    log_trans s (s\<lparr>shared := l, fetched := fetched s + entries_of (shadow_log l) {..<cnt}\<rparr>)"

definition log_begin :: "log_state \<Rightarrow> log_threads" where
  "log_begin l = \<lparr>shared = l, phase = (\<lambda>t. Outside), passed = {#}, fetched = {#}\<rparr>"

text \<open>A thread alone takes the three steps of \<open>log_store_pkt\<close>.\<close>

lemma alone_is_log_store_pkt:
  assumes "phase s t = Outside" "log_store_pkt p (shared s) = (ok, l)"
  shows "\<exists>m. log_trans\<^sup>*\<^sup>* s (s\<lparr>passed := m, shared := l\<rparr>) \<and> m = (if ok then add_mset p (passed s) else passed s)"
proof -
  define k s1 s2 where "k = active_count (shared s)" and "s1 = s\<lparr>phase := (phase s)(t := Locked p)\<rparr>"
    and "s2 = s1\<lparr>phase := (phase s1)(t := Took p k), shared := (shared s)\<lparr>active_count := k + 1\<rparr>\<rparr>"
  have 1: "log_trans s s1" unfolding s1_def using assms(1) by (rule lock)
  have "phase s1 t = Locked p" by (simp add: s1_def)
  from log_trans.take [OF this] have 2: "log_trans s1 s2" by (simp add: s2_def s1_def k_def)
  have p2: "phase s2 t = Took p k" by (simp add: s2_def)
  have bk: "(phase s2)(t := Outside) = phase s" using assms(1) by (auto simp: s2_def s1_def fun_eq_iff)
  let ?t = "s\<lparr>passed := if ok then add_mset p (passed s) else passed s, shared := l\<rparr>"
  have "log_trans s2 ?t"
  proof (cases "k < log_limit (shared s)")
    case True
    with assms(2) have ok: ok "l = (shared s)\<lparr>active_count := k + 1, active_log := (active_log (shared s))(k := p)\<rparr>"
      by (auto simp: log_store_pkt_def Let_def k_def)
    have "k < log_limit (shared s2)" using True by (simp add: s2_def)
    from store [OF p2 this] show ?thesis unfolding bk using ok by (simp add: s2_def s1_def)
  next
    case False
    with assms(2) have ok: "\<not> ok" "l = (shared s)\<lparr>active_count := log_limit (shared s)\<rparr>"
      by (auto simp: log_store_pkt_def Let_def k_def)
    have "\<not> k < log_limit (shared s2)" using False by (simp add: s2_def)
    from full [OF p2 this] show ?thesis unfolding bk using ok by (simp add: s2_def s1_def)
  qed
  with 1 2 show ?thesis by (auto intro: converse_rtranclp_into_rtranclp)
qed

section \<open>Slots\<close>

definition taken :: "log_threads \<Rightarrow> nat set" where
  "taken s = {k. k < log_limit (shared s) \<and> (\<exists>t p. phase s t = Took p k)}"

definition written :: "log_threads \<Rightarrow> nat set" where
  "written s = {..<min (active_count (shared s)) (log_limit (shared s))} - taken s"

definition log_inv :: "log_threads \<Rightarrow> bool" where
  "log_inv s \<longleftrightarrow>
     (\<forall>t p k. phase s t = Took p k \<longrightarrow> k < active_count (shared s) \<or> log_limit (shared s) \<le> active_count (shared s) \<and> log_limit (shared s) \<le> k) \<and>
     (\<forall>t t' p p' k. phase s t = Took p k \<longrightarrow> phase s t' = Took p' k \<longrightarrow> k < log_limit (shared s) \<longrightarrow> t = t') \<and>
     (log_limit (shared s) < active_count (shared s) \<longrightarrow> (\<exists>t p k. phase s t = Took p k \<and> log_limit (shared s) \<le> k)) \<and>
     passed s = fetched s + entries_of (active_log (shared s)) (written s)"

lemma log_invD:
  assumes "log_inv s"
  shows log_inv_slot: "phase s t = Took p k \<Longrightarrow>
      k < active_count (shared s) \<or> log_limit (shared s) \<le> active_count (shared s) \<and> log_limit (shared s) \<le> k"
    and log_inv_own: "phase s t = Took p k \<Longrightarrow> phase s t' = Took p' k \<Longrightarrow> k < log_limit (shared s) \<Longrightarrow> t = t'"
    and log_inv_over: "log_limit (shared s) < active_count (shared s) \<Longrightarrow> \<exists>t p k. phase s t = Took p k \<and> log_limit (shared s) \<le> k"
    and log_inv_passed: "passed s = fetched s + entries_of (active_log (shared s)) (written s)"
  using assms unfolding log_inv_def by blast+

lemma log_invI:
  assumes "active_count (shared s) = c" "log_limit (shared s) = n"
    and "\<forall>t p k. phase s t = Took p k \<longrightarrow> k < c \<or> n \<le> c \<and> n \<le> k"
    and "\<forall>t t' p p' k. phase s t = Took p k \<longrightarrow> phase s t' = Took p' k \<longrightarrow> k < n \<longrightarrow> t = t'"
    and "n < c \<longrightarrow> (\<exists>t p k. phase s t = Took p k \<and> n \<le> k)"
    and "passed s = fetched s + entries_of (active_log (shared s)) (written s)"
  shows "log_inv s"
  using assms(3-) unfolding log_inv_def assms(1,2) by (intro conjI)

lemma finite_written [simp]: "finite (written s)" by (simp add: written_def)

lemma entries_of_frame: "finite ks \<Longrightarrow> k \<notin> ks \<Longrightarrow> entries_of (l(k := p)) ks = entries_of l ks"
  unfolding entries_of_def by (rule image_mset_cong) auto

lemma entries_of_insert: "finite ks \<Longrightarrow> k \<notin> ks \<Longrightarrow> entries_of (l(k := p)) (insert k ks) = add_mset p (entries_of l ks)"
  using entries_of_frame [of ks k l p] by (simp add: entries_of_def)

lemma lock_keeps:
  assumes i: "log_inv s" and o: "phase s t = Outside"
  shows "log_inv (s\<lparr>phase := (phase s)(t := Locked p)\<rparr>)"
proof -
  have same: "(((phase s)(t := Locked p)) u = Took q k) = (phase s u = Took q k)" for u q k using o by simp
  have "written (s\<lparr>phase := (phase s)(t := Locked p)\<rparr>) = written s"
    unfolding written_def taken_def by (simp del: fun_upd_apply add: same)
  with i show ?thesis unfolding log_inv_def by (simp del: fun_upd_apply add: same)
qed

lemma take_keeps:
  assumes i: "log_inv s" and o: "phase s t = Locked p"
  shows "log_inv (s\<lparr>phase := (phase s)(t := Took p (active_count (shared s))),
      shared := (shared s)\<lparr>active_count := active_count (shared s) + 1\<rparr>\<rparr>)"
proof -
  let ?c = "active_count (shared s)" let ?L = "log_limit (shared s)"
  let ?s = "s\<lparr>phase := (phase s)(t := Took p ?c), shared := (shared s)\<lparr>active_count := ?c + 1\<rparr>\<rparr>"
  have tk: "(phase ?s u = Took q k) = (u = t \<and> q = p \<and> k = ?c \<or> phase s u = Took q k)" for u q k using o by auto
  have fresh: "?c < ?L \<Longrightarrow> phase s u \<noteq> Took q ?c" for u q using log_inv_slot [OF i, of u q ?c] by auto
  have "taken ?s = (if ?c < ?L then insert ?c (taken s) else taken s)"
    unfolding taken_def tk by auto
  moreover have "?c < ?L \<Longrightarrow> ?c \<notin> taken s" using fresh by (auto simp: taken_def)
  ultimately have w: "written ?s = written s" by (auto simp: written_def less_Suc_eq)
  have 1: "phase ?s u = Took q k \<Longrightarrow> k < ?c + 1 \<or> ?L \<le> ?c + 1 \<and> ?L \<le> k" for u q k
    using log_inv_slot [OF i, of u q k] unfolding tk by (auto split: if_splits)
  have 2: "phase ?s u = Took q k \<Longrightarrow> phase ?s u' = Took q' k \<Longrightarrow> k < ?L \<Longrightarrow> u = u'" for u u' q q' k
    using log_inv_own [OF i, of u q k u' q'] fresh unfolding tk by (auto split: if_splits)
  have 3: "?L < ?c + 1 \<Longrightarrow> \<exists>u q k. phase ?s u = Took q k \<and> ?L \<le> k"
    by (intro exI [of _ t] exI [of _ p] exI [of _ ?c]) simp
  show ?thesis using 1 2 3 log_inv_passed [OF i] unfolding log_inv_def w
    by (simp del: fun_upd_apply)
qed

lemma store_keeps:
  assumes i: "log_inv s" and o: "phase s t = Took p k" and k: "k < log_limit (shared s)"
  shows "log_inv (s\<lparr>phase := (phase s)(t := Outside), passed := add_mset p (passed s),
      shared := (shared s)\<lparr>active_log := (active_log (shared s))(k := p)\<rparr>\<rparr>)"
proof -
  let ?c = "active_count (shared s)" let ?L = "log_limit (shared s)"
  let ?s = "s\<lparr>phase := (phase s)(t := Outside), passed := add_mset p (passed s),
      shared := (shared s)\<lparr>active_log := (active_log (shared s))(k := p)\<rparr>\<rparr>"
  have tk: "(phase ?s u = Took q j) = (u \<noteq> t \<and> phase s u = Took q j)" for u q j by auto
  have kc: "k < ?c" using log_inv_slot [OF i o] k by auto
  have tk2: "taken ?s = taken s - {k}"
  proof -
    have own: "phase s u = Took q k \<Longrightarrow> u = t" for u q using log_inv_own [OF i o, of u q] k by simp
    have "phase s t = Took q j \<Longrightarrow> j = k" for q j using o by simp
    with own have e: "(\<exists>u q. phase ?s u = Took q j) = (j \<noteq> k \<and> (\<exists>u q. phase s u = Took q j))" for j unfolding tk by metis
    show ?thesis unfolding taken_def e by auto
  qed
  have ks: "k \<in> taken s" using o k by (auto simp: taken_def)
  have "written ?s = {..<min ?c ?L} - (taken s - {k})" unfolding written_def tk2 by simp
  moreover have "k \<in> {..<min ?c ?L}" using kc k by simp
  ultimately have w: "written ?s = insert k (written s)" "k \<notin> written s" using ks unfolding written_def [of s] by blast+
  have 1: "phase ?s u = Took q j \<Longrightarrow> j < ?c \<or> ?L \<le> ?c \<and> ?L \<le> j" for u q j
    using log_inv_slot [OF i, of u q j] unfolding tk by blast
  have 2: "phase ?s u = Took q j \<Longrightarrow> phase ?s u' = Took q' j \<Longrightarrow> j < ?L \<Longrightarrow> u = u'" for u u' q q' j
    using log_inv_own [OF i, of u q j u' q'] unfolding tk by blast
  have 3: "?L < ?c \<Longrightarrow> \<exists>u q j. phase ?s u = Took q j \<and> ?L \<le> j"
    
  proof -
    assume "?L < ?c"
    from log_inv_over [OF i this] obtain u q j where u: "phase s u = Took q j" "?L \<le> j" by blast
    with o k have "u \<noteq> t" by auto
    with u show ?thesis unfolding tk by blast
  qed
  have 4: "passed ?s = fetched ?s + entries_of (active_log (shared ?s)) (written ?s)"
    unfolding w(1) using log_inv_passed [OF i] entries_of_insert [OF finite_written w(2)] by simp
  show ?thesis
    by (rule log_invI [where c = ?c and n = ?L], simp, simp, use 1 in blast, use 2 in blast, use 3 in blast, rule 4)
qed

lemma full_keeps:
  assumes i: "log_inv s" and o: "phase s t = Took p k" and k: "\<not> k < log_limit (shared s)"
  shows "log_inv (s\<lparr>phase := (phase s)(t := Outside), shared := (shared s)\<lparr>active_count := log_limit (shared s)\<rparr>\<rparr>)"
proof -
  let ?c = "active_count (shared s)" let ?L = "log_limit (shared s)"
  let ?s = "s\<lparr>phase := (phase s)(t := Outside), shared := (shared s)\<lparr>active_count := ?L\<rparr>\<rparr>"
  have tk: "(phase ?s u = Took q j) = (u \<noteq> t \<and> phase s u = Took q j)" for u q j by auto
  have c: "?L \<le> ?c" using log_inv_slot [OF i o] k by auto
  have "(phase ?s u = Took q j) = (phase s u = Took q j)" if "j < ?L" for u q j using that o k by auto
  then have "taken ?s = taken s" unfolding taken_def by (intro Collect_cong conj_cong) (simp_all del: fun_upd_apply)
  then have w: "written ?s = written s" using c by (simp add: written_def)
  have 1: "phase ?s u = Took q j \<Longrightarrow> j < ?L \<or> ?L \<le> j" for u q j by auto
  have 2: "phase ?s u = Took q j \<Longrightarrow> phase ?s u' = Took q' j \<Longrightarrow> j < ?L \<Longrightarrow> u = u'" for u u' q q' j
    using log_inv_own [OF i, of u q j u' q'] unfolding tk by blast
  show ?thesis using 1 2 log_inv_passed [OF i] unfolding log_inv_def w by (simp del: fun_upd_apply)
qed

lemma swap_keeps:
  assumes i: "log_inv s" and o: "\<forall>t. phase s t = Outside" and l: "log_swap_log (shared s) = ((rgn, cnt), l)"
  shows "log_inv (s\<lparr>shared := l, fetched := fetched s + entries_of (shadow_log l) {..<cnt}\<rparr>)"
proof -
  have le: "active_count (shared s) \<le> log_limit (shared s)" using log_inv_over [OF i] o by fastforce
  have "taken s = {}" using o by (simp add: taken_def)
  with le have w: "written s = {..<active_count (shared s)}" by (simp add: written_def)
  from l have l: "cnt = active_count (shared s)" "active_count l = 0" "shadow_log l = active_log (shared s)" "log_limit l = log_limit (shared s)"
    by (auto simp: log_swap_log_def)
  let ?s = "s\<lparr>shared := l, fetched := fetched s + entries_of (shadow_log l) {..<cnt}\<rparr>"
  have "written ?s = {}" by (simp add: written_def l(2))
  then show ?thesis using o log_inv_passed [OF i] unfolding log_inv_def by (simp add: w l entries_of_def)
qed

lemma log_trans_inv: "log_trans s s' \<Longrightarrow> log_inv s \<Longrightarrow> log_inv s'"
  by (induction rule: log_trans.induct) (rule lock_keeps take_keeps store_keeps full_keeps swap_keeps; assumption)+

lemma log_begin_inv: "active_count l = 0 \<Longrightarrow> log_inv (log_begin l)"
  by (simp add: log_inv_def log_begin_def entries_of_def written_def)

lemma log_reachable_inv:
  assumes "log_init slots a0 a1 ok = Some l" "log_trans\<^sup>*\<^sup>* (log_begin l) s"
  shows "log_inv s"
  using assms(2) by (induction rule: rtranclp_induct) (use assms(1) in \<open>auto intro: log_begin_inv log_trans_inv simp: log_init_def split: if_splits\<close>)

text \<open>C29: Whatever the interleaving of the threads that store entries and of the exchanges of the buffers, no two
  threads write to the same slot of the log; and when no thread is inside, the entries that the logger was given and
  those that wait in the log are those for which the packet was let through, each exactly once, and they fit into the buffer.\<close>

theorem concurrent_entries_kept:
  assumes "log_init slots a0 a1 ok = Some l" "log_trans\<^sup>*\<^sup>* (log_begin l) s"
  shows "(\<forall>t t' p p' k. phase s t = Took p k \<longrightarrow> phase s t' = Took p' k \<longrightarrow> k < log_limit (shared s) \<longrightarrow> t = t') \<and>
    ((\<forall>t. phase s t = Outside) \<longrightarrow>
       active_count (shared s) \<le> log_limit (shared s) \<and> passed s = fetched s + mset (log_entries (shared s)))"
proof -
  note i = log_reachable_inv [OF assms]
  have "active_count (shared s) \<le> log_limit (shared s) \<and> passed s = fetched s + mset (log_entries (shared s))"
    if o: "\<forall>t. phase s t = Outside"
  proof
    show le: "active_count (shared s) \<le> log_limit (shared s)" using log_inv_over [OF i] o by fastforce
    have "taken s = {}" using o by (simp add: taken_def)
    with le have "written s = set [0..<active_count (shared s)]" by (auto simp: written_def)
    with log_inv_passed [OF i] show "passed s = fetched s + mset (log_entries (shared s))"
      by (simp add: entries_of_def log_entries_def)
  qed
  then show ?thesis using log_inv_own [OF i] by blast
qed

theorem concurrent_entries_kept_witness:
  "\<exists>l s. log_init 1 (\<lambda>i. a_packet) (\<lambda>i. a_packet) True = Some l \<and> log_trans\<^sup>*\<^sup>* (log_begin l) s \<and>
     passed s = {#a_packet#} \<and> passed s = fetched s + mset (log_entries (shared s))"
proof -
  define l where "l = \<lparr>active_log = \<lambda>i. a_packet, active_count = 0, shadow_log = \<lambda>i. a_packet, shadow_count = 0, log_limit = 1, log_fd_num = 0\<rparr>"
  have i: "log_init 1 (\<lambda>i. a_packet) (\<lambda>i. a_packet) True = Some l" by (simp add: log_init_def l_def)
  define m where "m = snd (log_store_pkt a_packet l)"
  have "log_store_pkt a_packet (shared (log_begin l)) = (True, m)" by (simp add: log_begin_def m_def l_def log_store_pkt_def Let_def)
  from alone_is_log_store_pkt [OF _ this, of 0] have r: "log_trans\<^sup>*\<^sup>* (log_begin l) ((log_begin l)\<lparr>passed := {#a_packet#}, shared := m\<rparr>)"
    by (simp add: log_begin_def)
  from concurrent_entries_kept [OF i r] have "{#a_packet#} = fetched (log_begin l) + mset (log_entries m)" by (simp add: log_begin_def)
  with i r show ?thesis by (intro exI [of _ l] exI [of _ "(log_begin l)\<lparr>passed := {#a_packet#}, shared := m\<rparr>"]) simp
qed

end
