(* ===== verification/BillLedger.thy ===== *)
theory BillLedger
  imports QBaseClient BillFilter
begin

text \<open>
  \<open>QX-billing/qxl_main.c\<close>: the logger, which in each round hands the rules of the database to the packet
  filter, fetches the packets that were logged under the rules of the round before, and charges them. The filter is
  the state \<open>billing\<close> of \<open>BillFilter\<close>, reached through its requests. Of the database the logger sees the rows that
  \<open>Qbase_fetch\<close> returns in turn until its last result, and what \<open>Qbase_seek\<close>, \<open>Qbase_updcur\<close> and
  \<open>Qbase_insert\<close> answer; what it changes there is recorded as calls. The columns of the tables are those of
  \<open>qxl_db.h\<close>. A \<open>double\<close> is its eight bytes, and the floating-point unit is a parameter.
\<close>

section \<open>Results\<close>

text \<open>The process exits, faults, or waits for ever for the filter.\<close>

datatype stop = ExitProgram | Fault crash | Hang

type_synonym 'a logged = "stop + 'a"

definition bindl :: "'a logged \<Rightarrow> ('a \<Rightarrow> 'b logged) \<Rightarrow> 'b logged" where
  "bindl m f = (case m of Inl e \<Rightarrow> Inl e | Inr x \<Rightarrow> f x)"

lemma bindl_simps [simp]: "bindl (Inl e) f = Inl e" "bindl (Inr x) f = f x"
  by (simp_all add: bindl_def)

lemma bindl_Inr_iff: "bindl m f = Inr y \<longleftrightarrow> (\<exists>x. m = Inr x \<and> f x = Inr y)"
  by (cases m) auto

section \<open>Columns\<close>

definition QXL_TAX_EXEMPT_DLC :: nat where "QXL_TAX_EXEMPT_DLC = 1"
definition QXL_TAX_EXEMPT_IP_MASK :: nat where "QXL_TAX_EXEMPT_IP_MASK = 2"
definition QXL_TAX_EXEMPT_IP_ADDR :: nat where "QXL_TAX_EXEMPT_IP_ADDR = 3"
definition QXL_TAX_EXEMPT_PROTO :: nat where "QXL_TAX_EXEMPT_PROTO = 4"
definition QXL_TAX_EXEMPT_PORT_LO :: nat where "QXL_TAX_EXEMPT_PORT_LO = 5"
definition QXL_TAX_EXEMPT_PORT_HI :: nat where "QXL_TAX_EXEMPT_PORT_HI = 6"
definition QXL_TAX_EXEMPT_ACTIVE :: nat where "QXL_TAX_EXEMPT_ACTIVE = 7"
definition QXL_TAXES_N :: nat where "QXL_TAXES_N = 0"
definition QXL_TAXES_ACTIVE :: nat where "QXL_TAXES_ACTIVE = 1"
definition QXL_TAXES_DEF_SUM_IN :: nat where "QXL_TAXES_DEF_SUM_IN = 2"
definition QXL_TAXES_DEF_SUM_OUT :: nat where "QXL_TAXES_DEF_SUM_OUT = 3"
definition QXL_TAXES_MONTAX :: nat where "QXL_TAXES_MONTAX = 5"
definition QXL_TAXDETAILS_TAX :: nat where "QXL_TAXDETAILS_TAX = 1"
definition QXL_TAXDETAILS_ACTIVE :: nat where "QXL_TAXDETAILS_ACTIVE = 2"
definition QXL_TAXDETAILS_IP_MASK :: nat where "QXL_TAXDETAILS_IP_MASK = 3"
definition QXL_TAXDETAILS_IP_ADDR :: nat where "QXL_TAXDETAILS_IP_ADDR = 4"
definition QXL_TAXDETAILS_PROTO :: nat where "QXL_TAXDETAILS_PROTO = 5"
definition QXL_TAXDETAILS_PORT :: nat where "QXL_TAXDETAILS_PORT = 6"
definition QXL_TAXDETAILS_TAXTOCLI :: nat where "QXL_TAXDETAILS_TAXTOCLI = 7"
definition QXL_TAXDETAILS_TAXFMCLI :: nat where "QXL_TAXDETAILS_TAXFMCLI = 8"
definition QXL_TAXDETAILS_TIMES :: nat where "QXL_TAXDETAILS_TIMES = 9"
definition QXL_TAXTIMES_N :: nat where "QXL_TAXTIMES_N = 0"
definition QXL_TAXTIMES_ACTIVE :: nat where "QXL_TAXTIMES_ACTIVE = 1"
definition QXL_TAXTIMES_COSTIN :: nat where "QXL_TAXTIMES_COSTIN = 3"
definition QXL_TAXTIMES_COSTOUT :: nat where "QXL_TAXTIMES_COSTOUT = 27"
definition QXL_ACCOUNTS_N :: nat where "QXL_ACCOUNTS_N = 0"
definition QXL_ACCOUNTS_TAX :: nat where "QXL_ACCOUNTS_TAX = 3"
definition QXL_ACCOUNTS_SUM :: nat where "QXL_ACCOUNTS_SUM = 4"
definition QXL_ACCOUNTS_ACTIVE :: nat where "QXL_ACCOUNTS_ACTIVE = 8"
definition QXL_ACCOUNTS_NEGATIVE :: nat where "QXL_ACCOUNTS_NEGATIVE = 9"
definition QXL_NICS_N :: nat where "QXL_NICS_N = 0"
definition QXL_NICS_ACCOUNT :: nat where "QXL_NICS_ACCOUNT = 2"
definition QXL_NICS_ACTIVE :: nat where "QXL_NICS_ACTIVE = 3"
definition QXL_NICS_IP :: nat where "QXL_NICS_IP = 4"
definition QXL_NICS_MAC :: nat where "QXL_NICS_MAC = 5"

definition QXB_FV_UINT :: "nat \<Rightarrow> desc \<Rightarrow> bytes \<Rightarrow> u32" where "QXB_FV_UINT no tc row = get32 row (fd_Offset tc no)"
definition QXB_FV_UINT16 :: "nat \<Rightarrow> desc \<Rightarrow> bytes \<Rightarrow> u16" where "QXB_FV_UINT16 no tc row = get16 row (fd_Offset tc no)"
definition QXB_FV_DBL :: "nat \<Rightarrow> desc \<Rightarrow> bytes \<Rightarrow> bytes" where "QXB_FV_DBL no tc row = take 8 (drop (fd_Offset tc no) row)"
definition QXB_FV_BIN :: "nat \<Rightarrow> desc \<Rightarrow> bytes \<Rightarrow> bytes" where "QXB_FV_BIN no tc row = drop (fd_Offset tc no) row"

text \<open>The rows of one table in one round.\<close>

record qtable =
  caption :: desc
  fetched_rows :: "bytes list"

section \<open>Rules and prices in memory\<close>

type_synonym dbl = bytes

record fpu =
  times_u32 :: "dbl \<Rightarrow> u32 \<Rightarrow> dbl"
  divided :: "dbl \<Rightarrow> dbl \<Rightarrow> dbl"
  plus_dbl :: "dbl \<Rightarrow> dbl \<Rightarrow> dbl"
  minus_dbl :: "dbl \<Rightarrow> dbl"
  below_zero :: "dbl \<Rightarrow> bool"
  is_zero :: "dbl \<Rightarrow> bool"
  dbl_of :: "int \<Rightarrow> dbl"

record qxl_tax_time =
  tt_UID :: u32
  cur_tax_to_cli :: dbl
  cur_tax_from_cli :: dbl

record qxl_tax_det =
  td_ip_mask :: u32
  td_ip_addr :: u32
  td_ip_proto :: u16
  td_ip_port :: u16
  tax_to_cli :: dbl
  tax_from_cli :: dbl

text \<open>The chain that starts at \<open>td\<close>.\<close>

record qxl_tax =
  tax_UID :: u32
  def_tax_to_cli :: dbl
  def_tax_from_cli :: dbl
  td :: "qxl_tax_det list"

text \<open>Pointers to taxes and accounts are indexes into the arrays of the same round.\<close>

record qxl_accnt =
  acc_UID :: u32
  acc_tax :: "nat option"

record qxl_NIC =
  nic_UID :: u32
  nic_account :: "nat option"
  nrule :: qx_rule_nics

text \<open>What the pointers named \<open>crnt_\<close> or \<open>shdw_\<close> show. They are exchanged in every round: the logger keeps
  the tariff that \<open>crnt_\<close> shows, reads a new one, and after the exchange charges by the one it kept, which is
  what \<open>shdw_\<close> shows then.\<close>

record tariff =
  taxes :: "qxl_tax list"
  accounts :: "qxl_accnt list"
  NICs :: "qxl_NIC list"

section \<open>Settings\<close>

record qxl_conf =
  ql_device :: string
  logpkts :: int
  nTblRows :: int
  MaxTaxes :: int
  MaxTaxDetails :: int
  MaxTaxTimes :: int
  MaxAccounts :: int
  MaxNICs :: int
  SuspendTime :: int
  DataUnits :: int

definition qxl_defaults :: qxl_conf where
  "qxl_defaults = \<lparr>ql_device = ''/dev/qxbil'', logpkts = 1000, nTblRows = 1000, MaxTaxes = 10, MaxTaxDetails = 100,
     MaxTaxTimes = 10, MaxAccounts = 1000, MaxNICs = 1000, SuspendTime = 1000, DataUnits = 1000000\<rparr>"

definition qxl_directive :: "string \<Rightarrow> (string option \<Rightarrow> qxl_conf \<Rightarrow> setup_fail + qxl_conf) option" where
  "qxl_directive t =
     (if str_ieq ''INTERFACE'' t then Some (given (\<lambda>a c. Inr c))
      else if str_ieq ''DEVICE'' t then Some (given (\<lambda>a c. Inr (c\<lparr>ql_device := a\<rparr>)))
      else if str_ieq ''LOGPKTS'' t then Some (given (\<lambda>a c. Inr (c\<lparr>logpkts := atoi a\<rparr>)))
      else if str_ieq ''LOGROWS'' t then Some (given (\<lambda>a c. Inr (c\<lparr>nTblRows := atoi a\<rparr>)))
      else if str_ieq ''MAXTAXES'' t then Some (given (\<lambda>a c. Inr (c\<lparr>MaxTaxes := atoi a\<rparr>)))
      else if str_ieq ''MAXTAXDETAILS'' t then Some (given (\<lambda>a c. Inr (c\<lparr>MaxTaxDetails := atoi a\<rparr>)))
      else if str_ieq ''MAXTAXTIMES'' t then Some (given (\<lambda>a c. Inr (c\<lparr>MaxTaxTimes := atoi a\<rparr>)))
      else if str_ieq ''MAXACCOUNTS'' t then Some (given (\<lambda>a c. Inr (c\<lparr>MaxAccounts := atoi a\<rparr>)))
      else if str_ieq ''MAXNICS'' t then Some (given (\<lambda>a c. Inr (c\<lparr>MaxNICs := atoi a\<rparr>)))
      else if str_ieq ''SUSPENDTIME'' t then Some (given (\<lambda>a c. Inr (c\<lparr>SuspendTime := atoi a\<rparr>)))
      else if str_ieq ''DATAUNITS'' t then Some (given (\<lambda>a c. Inr (c\<lparr>DataUnits := atoi a\<rparr>)))
      else None)"

definition qxl_parse_config :: "string option \<Rightarrow> string \<Rightarrow> setup_fail + qxl_conf" where
  "qxl_parse_config file junk =
     (case GetConf_open file junk of None \<Rightarrow> Inl ExitFailure | Some cf \<Rightarrow> flat_lines qxl_directive cf qxl_defaults)"

section \<open>Reading the tables\<close>

definition rule_of_row :: "desc \<Rightarrow> bytes \<Rightarrow> qx_rule_exempt" where
  "rule_of_row tc row =
     \<lparr>x_active = QXB_FV_UINT QXL_TAX_EXEMPT_ACTIVE tc row, x_ip_mask = QXB_FV_UINT QXL_TAX_EXEMPT_IP_MASK tc row,
      x_ip_addr = QXB_FV_UINT QXL_TAX_EXEMPT_IP_ADDR tc row, x_ip_proto = QXB_FV_UINT16 QXL_TAX_EXEMPT_PROTO tc row,
      x_port_lo = QXB_FV_UINT16 QXL_TAX_EXEMPT_PORT_LO tc row, x_port_hi = QXB_FV_UINT16 QXL_TAX_EXEMPT_PORT_HI tc row,
      x_dlc_proto = QXB_FV_UINT16 QXL_TAX_EXEMPT_DLC tc row\<rparr>"

text \<open>The structures of \<open>qx_rules.h\<close> as they lie in memory.\<close>

definition exempt_bytes :: "qx_rule_exempt \<Rightarrow> bytes" where
  "exempt_bytes r = put16 (put16 (put16 (put16 (put32 (put32 (put32 (replicate 20 0) 0 (x_active r)) 4 (x_ip_mask r)) 8 (x_ip_addr r))
     12 (x_ip_proto r)) 14 (x_port_lo r)) 16 (x_port_hi r)) 18 (x_dlc_proto r)"

definition nics_bytes :: "qx_rule_nics \<Rightarrow> bytes" where
  "nics_bytes r = put32 (put32 (replicate 8 0) 0 (UID r)) 4 (n_ip_addr r) @ n_mac r @ [0, 0]"

fun push_exempts :: "desc \<Rightarrow> bytes list \<Rightarrow> billing \<Rightarrow> billing logged" where
  "push_exempts tc [] b = Inr b"
| "push_exempts tc (row # rows) b =
     (case qxc_rm_devctl QXC_ADD_TE (exempt_bytes (rule_of_row tc row)) b of
        None \<Rightarrow> Inl Hang
      | Some (_, b) \<Rightarrow> push_exempts tc rows b)"

text \<open>In the loops below an array whose configured size is not positive was not allocated. The
  index of the first record with a number:\<close>

fun uid_index :: "u32 \<Rightarrow> u32 list \<Rightarrow> nat option" where
  "uid_index u [] = None"
| "uid_index u (v # vs) = (if v = u then Some 0 else map_option Suc (uid_index u vs))"

fun read_taxes :: "desc \<Rightarrow> int \<Rightarrow> bytes list \<Rightarrow> qxl_tax list \<Rightarrow> qxl_tax list logged" where
  "read_taxes tc n [] ts = Inr ts"
| "read_taxes tc n (row # rows) ts =
     (let ts' = ts @ [\<lparr>tax_UID = QXB_FV_UINT QXL_TAXES_N tc row, def_tax_to_cli = QXB_FV_DBL QXL_TAXES_DEF_SUM_IN tc row,
                def_tax_from_cli = QXB_FV_DBL QXL_TAXES_DEF_SUM_OUT tc row, td = []\<rparr>] in
      if n \<le> 0 then Inl (Fault NullPointer)
      else if int (length ts') = n then Inr ts' else read_taxes tc n rows ts')"

fun read_times :: "desc \<Rightarrow> int \<Rightarrow> nat \<Rightarrow> bytes list \<Rightarrow> qxl_tax_time list \<Rightarrow> qxl_tax_time list logged" where
  "read_times tc n hour [] ts = Inr ts"
| "read_times tc n hour (row # rows) ts =
     (let ts' = ts @ [\<lparr>tt_UID = QXB_FV_UINT QXL_TAXTIMES_N tc row,
                cur_tax_to_cli = QXB_FV_DBL (QXL_TAXTIMES_COSTIN + hour) tc row,
                cur_tax_from_cli = QXB_FV_DBL (QXL_TAXTIMES_COSTOUT + hour) tc row\<rparr>] in
      if n \<le> 0 then Inl (Fault NullPointer)
      else if int (length ts') = n then Inr ts' else read_times tc n hour rows ts')"

definition detail_of_row :: "desc \<Rightarrow> qxl_tax_time list \<Rightarrow> bytes \<Rightarrow> qxl_tax_det" where
  "detail_of_row tc tts row =
     (let d = \<lparr>td_ip_mask = QXB_FV_UINT QXL_TAXDETAILS_IP_MASK tc row, td_ip_addr = QXB_FV_UINT QXL_TAXDETAILS_IP_ADDR tc row,
               td_ip_proto = QXB_FV_UINT16 QXL_TAXDETAILS_PROTO tc row, td_ip_port = QXB_FV_UINT16 QXL_TAXDETAILS_PORT tc row,
               tax_to_cli = QXB_FV_DBL QXL_TAXDETAILS_TAXTOCLI tc row, tax_from_cli = QXB_FV_DBL QXL_TAXDETAILS_TAXFMCLI tc row\<rparr> in
      case find (\<lambda>t. tt_UID t = QXB_FV_UINT QXL_TAXDETAILS_TIMES tc row) tts of
        None \<Rightarrow> d
      | Some t \<Rightarrow> d\<lparr>tax_to_cli := cur_tax_to_cli t, tax_from_cli := cur_tax_from_cli t\<rparr>)"

text \<open>A detail is counted when its tax was found or has the number 0; the record of one that is not counted is used
  again.\<close>

fun read_details :: "desc \<Rightarrow> int \<Rightarrow> qxl_tax_time list \<Rightarrow> bytes list \<Rightarrow> nat \<Rightarrow> qxl_tax list \<Rightarrow> (nat \<times> qxl_tax list) logged" where
  "read_details tc n tts [] cnt ts = Inr (cnt, ts)"
| "read_details tc n tts (row # rows) cnt ts =
     (let tax = QXB_FV_UINT QXL_TAXDETAILS_TAX tc row;
          (cnt', ts') = (case uid_index tax (map tax_UID ts) of
              Some i \<Rightarrow> (Suc cnt, ts[i := (ts ! i)\<lparr>td := detail_of_row tc tts row # td (ts ! i)\<rparr>])
            | None \<Rightarrow> (if tax = 0 then Suc cnt else cnt, ts)) in
      if n \<le> 0 then Inl (Fault NullPointer)
      else if int cnt' = n then Inr (cnt', ts') else read_details tc n tts rows cnt' ts')"

text \<open>Of the result the two numbers \<open>ACC_sum\<close> and \<open>ACC_neg_allowed\<close> are looked at first.\<close>

fun read_accounts :: "fpu \<Rightarrow> desc \<Rightarrow> int \<Rightarrow> qxl_tax list \<Rightarrow> bytes list \<Rightarrow> qxl_accnt list \<Rightarrow> qxl_accnt list logged" where
  "read_accounts f tc n ts [] accs = Inr accs"
| "read_accounts f tc n ts (row # rows) accs =
     (let tax = QXB_FV_UINT QXL_ACCOUNTS_TAX tc row; uid = QXB_FV_UINT QXL_ACCOUNTS_N tc row;
          accs' = (case uid_index tax (map tax_UID ts) of
              Some i \<Rightarrow> accs @ [\<lparr>acc_UID = uid, acc_tax = Some i\<rparr>]
            | None \<Rightarrow> if tax = 0 then accs @ [\<lparr>acc_UID = uid, acc_tax = None\<rparr>] else accs) in
      if below_zero f (QXB_FV_DBL QXL_ACCOUNTS_SUM tc row) \<and> QXB_FV_UINT QXL_ACCOUNTS_NEGATIVE tc row \<noteq> 1
        then read_accounts f tc n ts rows accs
      else if n \<le> 0 then Inl (Fault NullPointer)
      else if int (length accs') = n then Inr accs' else read_accounts f tc n ts rows accs')"

fun read_NICs :: "desc \<Rightarrow> int \<Rightarrow> qxl_accnt list \<Rightarrow> bytes list \<Rightarrow> qxl_NIC list \<Rightarrow> billing \<Rightarrow> (qxl_NIC list \<times> billing) logged" where
  "read_NICs tc n accs [] nics b = Inr (nics, b)"
| "read_NICs tc n accs (row # rows) nics b =
     (let accnt = QXB_FV_UINT QXL_NICS_ACCOUNT tc row; uid = QXB_FV_UINT QXL_NICS_N tc row;
          r = \<lparr>UID = uid, n_ip_addr = QXB_FV_UINT QXL_NICS_IP tc row, n_mac = take 6 (QXB_FV_BIN QXL_NICS_MAC tc row)\<rparr> in
      if n \<le> 0 then Inl (Fault NullPointer)
      else bindl (case uid_index accnt (map acc_UID accs) of
            Some i \<Rightarrow> (case qxc_rm_devctl QXC_ADD_NIC (nics_bytes r) b of
                None \<Rightarrow> Inl Hang
              | Some (_, b) \<Rightarrow> Inr (nics @ [\<lparr>nic_UID = uid, nic_account = Some i, nrule = r\<rparr>], b))
          | None \<Rightarrow> Inr (if accnt = 0 then nics @ [\<lparr>nic_UID = uid, nic_account = None, nrule = r\<rparr>] else nics, b))
        (\<lambda>(nics', b). if int (length nics') = n then Inr (nics', b) else read_NICs tc n accs rows nics' b))"

record qxl_tables =
  T_tax_exempt :: qtable
  T_taxes :: qtable
  T_tax_times :: qtable
  T_tax_details :: qtable
  T_accounts :: qtable
  T_NICs :: qtable

text \<open>Steps 1 to 5 of a round.\<close>

definition read_tables :: "fpu \<Rightarrow> qxl_conf \<Rightarrow> nat \<Rightarrow> qxl_tables \<Rightarrow> billing \<Rightarrow> (tariff \<times> billing) logged" where
  "read_tables f c hour db b =
     bindl (push_exempts (caption (T_tax_exempt db)) (fetched_rows (T_tax_exempt db)) b) (\<lambda>b.
     bindl (read_taxes (caption (T_taxes db)) (MaxTaxes c) (fetched_rows (T_taxes db)) []) (\<lambda>ts.
     bindl (read_times (caption (T_tax_times db)) (MaxTaxTimes c) hour (fetched_rows (T_tax_times db)) []) (\<lambda>tts.
     bindl (read_details (caption (T_tax_details db)) (MaxTaxDetails c) tts (fetched_rows (T_tax_details db)) 0 ts) (\<lambda>(_, ts).
     bindl (read_accounts f (caption (T_accounts db)) (MaxAccounts c) ts (fetched_rows (T_accounts db)) []) (\<lambda>accs.
     bindl (read_NICs (caption (T_NICs db)) (MaxNICs c) accs (fetched_rows (T_NICs db)) [] b) (\<lambda>(nics, b).
       Inr (\<lparr>taxes = ts, accounts = accs, NICs = nics\<rparr>, b)))))))"

section \<open>Sessions\<close>

definition same_session :: "qx_log \<Rightarrow> qx_log \<Rightarrow> bool" where
  "same_session p s \<longleftrightarrow> l_mac p = l_mac s \<and> IP_host p = IP_host s \<and> IP_clnt p = IP_clnt s \<and> Port_host p = Port_host s \<and>
     IP_proto p = IP_proto s \<and> DLC_proto p = DLC_proto s"

fun join_session :: "qx_log \<Rightarrow> qx_log list \<Rightarrow> qx_log list" where
  "join_session p [] = [p]"
| "join_session p (s # ss) =
     (if same_session p s then s\<lparr>bytes_to_cli := bytes_to_cli s + bytes_to_cli p, bytes_to_host := bytes_to_host s + bytes_to_host p\<rparr> # ss
      else s # join_session p ss)"

text \<open>The packets are read from a region that is mapped for \<open>logpkts\<close> entries, and the sessions
  stored in an array of that size.\<close>

fun form_sessions :: "int \<Rightarrow> nat \<Rightarrow> qx_log list \<Rightarrow> qx_log list \<Rightarrow> qx_log list logged" where
  "form_sessions n cnt [] ss = Inr ss"
| "form_sessions n cnt (p # ps) ss =
     (let ss' = join_session p ss in
      if n \<le> int cnt \<or> n < int (length ss') then Inl (Fault OutOfBounds) else form_sessions n (Suc cnt) ps ss')"

section \<open>The log table\<close>

record clock =
  tm_yday :: int
  tm_year :: int
  tm_mon :: nat
  tm_hour :: nat

text \<open>A row of the log. \<open>tlog_pclnt\<close> is set nowhere.\<close>

record log_record =
  tlog_time :: u32
  tlog_nic :: u32
  tlog_mac :: bytes
  tlog_dlc :: u16
  tlog_ipclnt :: u32
  tlog_iphost :: u32
  tlog_proto :: u16
  tlog_pclnt :: u16
  tlog_phost :: u16
  tlog_btocli :: u32
  tlog_btohst :: u32
  tlog_stocli :: dbl
  tlog_stohst :: dbl
  tlog_accpay :: u32

datatype db_call =
    SelectLog bytes
  | CreateLog bytes int
  | SignalEOD
  | InsertLog log_record
  | SeekAccount u32
  | SubtractFromCurrent dbl
  | FlushAccounts
  | FlushLog

text \<open>The answer to a call, given those before it.\<close>

record qxl_env =
  fp :: fpu
  answer :: "db_call list \<Rightarrow> db_call \<Rightarrow> qerr"
  localtime :: "u32 \<Rightarrow> clock"
  date_name :: "clock \<Rightarrow> bytes"

record logger =
  crnt :: tariff
  log_row :: log_record
  log_t_tm :: clock
  log_t_time :: u32
  cycle :: u32
  calls :: "db_call list"

definition ask :: "qxl_env \<Rightarrow> db_call \<Rightarrow> logger \<Rightarrow> qerr \<times> logger" where
  "ask e c s = (answer e (calls s) c, s\<lparr>calls := calls s @ [c]\<rparr>)"

definition change_log_table :: "qxl_env \<Rightarrow> qxl_conf \<Rightarrow> u32 \<Rightarrow> logger \<Rightarrow> logger logged" where
  "change_log_table e c log_time s =
     (let tm = localtime e log_time; name = date_name e tm in
      if tm_yday tm = tm_yday (log_t_tm s) \<and> tm_year tm = tm_year (log_t_tm s) then Inr s
      else
        let (r, s) = ask e (SelectLog name) s in
        bindl (if r = QBASE_E_OK then Inr s
               else if r \<noteq> QBASE_E_NOTBLEXIST then Inl ExitProgram
               else let (r, s) = ask e (CreateLog name (nTblRows c)) s in
                 if r = QBASE_E_OK then Inr s else Inl ExitProgram)
          (\<lambda>s. let s = s\<lparr>log_t_tm := tm\<rparr>; s = (if log_t_time s \<noteq> 0 then snd (ask e SignalEOD s) else s) in
            Inr (s\<lparr>log_t_time := log_time, cycle := 0\<rparr>)))"

section \<open>Charging\<close>

definition nic_matches :: "qx_log \<Rightarrow> qxl_NIC \<Rightarrow> bool" where
  "nic_matches p n \<longleftrightarrow> n_mac (nrule n) = l_mac p \<and> n_ip_addr (nrule n) = IP_clnt p"

definition detail_matches :: "qx_log \<Rightarrow> qxl_tax_det \<Rightarrow> bool" where
  "detail_matches p d \<longleftrightarrow> td_ip_addr d = IP_host p AND td_ip_mask d \<and> (td_ip_proto d = 0 \<or> td_ip_proto d = IP_proto p) \<and>
     (td_ip_port d = 0 \<or> td_ip_port d = Port_host p)"

definition prices :: "qxl_tax \<Rightarrow> qx_log \<Rightarrow> dbl \<times> dbl" where
  "prices t p = (case find (detail_matches p) (td t) of
       Some d \<Rightarrow> (tax_to_cli d, tax_from_cli d)
     | None \<Rightarrow> (def_tax_to_cli t, def_tax_from_cli t))"

definition set_session :: "qx_log \<Rightarrow> log_record \<Rightarrow> log_record" where
  "set_session p row = row\<lparr>tlog_mac := l_mac p, tlog_dlc := DLC_proto p, tlog_ipclnt := IP_clnt p, tlog_iphost := IP_host p,
     tlog_proto := IP_proto p, tlog_phost := Port_host p, tlog_btocli := bytes_to_cli p, tlog_btohst := bytes_to_host p\<rparr>"

definition cost :: "fpu \<Rightarrow> int \<Rightarrow> dbl \<Rightarrow> u32 \<Rightarrow> dbl" where
  "cost f units price n = divided f (times_u32 f price n) (dbl_of f units)"

text \<open>A failed seek or update is only reported.\<close>

definition charge_session :: "qxl_env \<Rightarrow> qxl_conf \<Rightarrow> tariff \<Rightarrow> qx_log \<Rightarrow> logger \<Rightarrow> logger logged" where
  "charge_session e c g p s =
     (let row = set_session p (log_row s) in
      case find (nic_matches p) (NICs g) of
        None \<Rightarrow> Inr (s\<lparr>log_row := row\<rparr>)
      | Some nic \<Rightarrow>
          (case nic_account nic of None \<Rightarrow> Inl (Fault NullPointer) | Some a \<Rightarrow>
           let acc = accounts g ! a in
           case acc_tax acc of None \<Rightarrow> Inl (Fault NullPointer) | Some t \<Rightarrow>
           let (pr_cli, pr_hst) = prices (taxes g ! t) p;
               to_cli = cost (fp e) (DataUnits c) pr_cli (bytes_to_cli p);
               to_hst = cost (fp e) (DataUnits c) pr_hst (bytes_to_host p);
               row = row\<lparr>tlog_nic := nic_UID nic, tlog_accpay := acc_UID acc, tlog_stocli := to_cli, tlog_stohst := to_hst\<rparr>;
               (r, s) = ask e (InsertLog row) (s\<lparr>log_row := row\<rparr>) in
           if r \<noteq> QBASE_E_OK then Inl ExitProgram
           else Inr (snd (ask e (SubtractFromCurrent (plus_dbl (fp e) to_cli to_hst)) (snd (ask e (SeekAccount (acc_UID acc)) s))))))"

fun charge_sessions :: "qxl_env \<Rightarrow> qxl_conf \<Rightarrow> tariff \<Rightarrow> qx_log list \<Rightarrow> logger \<Rightarrow> logger logged" where
  "charge_sessions e c g [] s = Inr s"
| "charge_sessions e c g (p # ps) s = bindl (charge_session e c g p s) (charge_sessions e c g ps)"

section \<open>A round\<close>

text \<open>The two regions that the logger has mapped, \<open>shm_logs\<close>: the filter fills the one with the number
  \<open>log_fd_num\<close>, the other one is at rest.\<close>

definition shm_logs :: "log_state \<Rightarrow> nat \<Rightarrow> nat \<Rightarrow> qx_log" where
  "shm_logs l rgn = (if rgn = log_fd_num l then active_log l else shadow_log l)"

text \<open>The entries are those of the region that the filter names. A request that failed would leave the
  number of entries as it was; the filter answers this one always.\<close>

definition swap_get_log :: "billing \<Rightarrow> (qx_log list \<times> billing) logged" where
  "swap_get_log b =
     (case qxc_rm_devctl QXC_SWAP_GET_LOG (replicate 4 0) b of
        Some (Some (cnt, Region rgn), b') \<Rightarrow> Inr (map (shm_logs (log b') rgn) [0..<nat cnt], b')
      | _ \<Rightarrow> Inl Hang)"

definition qxl_round :: "qxl_env \<Rightarrow> qxl_conf \<Rightarrow> u32 \<Rightarrow> u32 \<Rightarrow> qxl_tables \<Rightarrow> logger \<times> billing \<Rightarrow> (logger \<times> billing) logged" where
  "qxl_round e c now log_time db = (\<lambda>(s, b).
     bindl (read_tables (fp e) c (tm_hour (localtime e now)) db b) (\<lambda>(g, b).
     bindl (swap_get_log b) (\<lambda>(captured_log, b).
     let charged = crnt s; s = s\<lparr>crnt := g, cycle := cycle s + 1\<rparr> in
     bindl (form_sessions (logpkts c) 0 captured_log []) (\<lambda>sessions_log.
     bindl (change_log_table e c log_time s) (\<lambda>s.
     bindl (charge_sessions e c charged sessions_log (s\<lparr>log_row := (log_row s)\<lparr>tlog_time := log_time\<rparr>\<rparr>)) (\<lambda>s.
       Inr (snd (ask e FlushLog (snd (ask e FlushAccounts s))), b)))))))"

end
