(* ===== verification/BillBook.thy ===== *)
theory BillBook
  imports BillLedger
begin

text \<open>
  What the recorded calls do to the tables of the database, when they are applied one after the other. A connection has a
  current row, which a successful \<open>Qbase_seek\<close> chooses; a successful \<open>Qbase_updcur\<close> changes the sum of the
  current row. An account book notes the account that the connection stands on and, in order, the amounts that were taken from or
  added to accounts.
\<close>

section \<open>Account books\<close>

datatype posting = Taken dbl | Added dbl

record book =
  current :: "u32 option"
  postings :: "(u32 \<times> posting) list"

definition new_book :: book where "new_book = \<lparr>current = None, postings = []\<rparr>"

definition seek_row :: "u32 \<Rightarrow> book \<Rightarrow> book" where
  "seek_row u bk = bk\<lparr>current := Some u\<rparr>"

definition post :: "posting \<Rightarrow> book \<Rightarrow> book" where
  "post d bk = (case current bk of None \<Rightarrow> bk | Some u \<Rightarrow> bk\<lparr>postings := postings bk @ [(u, d)]\<rparr>)"

lemma postings_seek [simp]: "postings (seek_row u bk) = postings bk"
  by (simp add: seek_row_def)

lemma postings_post_seek [simp]: "postings (post d (seek_row u bk)) = postings bk @ [(u, d)]"
  by (simp add: post_def seek_row_def)

text \<open>What happened to one account.\<close>

definition of_account :: "u32 \<Rightarrow> book \<Rightarrow> posting list" where
  "of_account u bk = map snd (filter (\<lambda>p. fst p = u) (postings bk))"

section \<open>The calls of the logger\<close>

text \<open>The rows of the log and the book; a call that is refused changes nothing.\<close>

fun settle_call :: "qerr \<Rightarrow> db_call \<Rightarrow> log_record list \<times> book \<Rightarrow> log_record list \<times> book" where
  "settle_call r (InsertLog row) (rows, bk) = (if r = QBASE_E_OK then rows @ [row] else rows, bk)"
| "settle_call r (SeekAccount u) (rows, bk) = (rows, if r = QBASE_E_OK then seek_row u bk else bk)"
| "settle_call r (SubtractFromCurrent d) (rows, bk) = (rows, if r = QBASE_E_OK then post (Taken d) bk else bk)"
| "settle_call r c db = db"

fun settle :: "(db_call list \<Rightarrow> db_call \<Rightarrow> qerr) \<Rightarrow> db_call list \<Rightarrow> db_call list \<Rightarrow> log_record list \<times> book \<Rightarrow> log_record list \<times> book" where
  "settle ans before [] db = db"
| "settle ans before (c # cs) db = settle ans (before @ [c]) cs (settle_call (ans before c) c db)"

lemma settle_append: "settle ans before (cs @ cs') db = settle ans (before @ cs) cs' (settle ans before cs db)"
  by (induction cs arbitrary: before db) simp_all

text \<open>Calls that concern neither the rows nor the accounts.\<close>

definition tableless :: "db_call \<Rightarrow> bool" where
  "tableless c \<longleftrightarrow> (case c of InsertLog row \<Rightarrow> False | SeekAccount u \<Rightarrow> False | SubtractFromCurrent d \<Rightarrow> False | _ \<Rightarrow> True)"

lemma settle_tableless: "\<forall>c \<in> set cs. tableless c \<Longrightarrow> settle ans before cs db = db"
proof (induction cs arbitrary: before db)
  case (Cons c cs)
  then have "settle_call r c db = db" for r by (cases c; cases db) (simp_all add: tableless_def)
  with Cons show ?case by simp
qed simp

text \<open>The failure of a seek is only reported by the logger: the sum is then taken from the account of the last
  seek that succeeded.\<close>

lemma failed_seek_charges_other:
  assumes "ans before (SeekAccount u) \<noteq> QBASE_E_OK" "ans (before @ [SeekAccount u]) (SubtractFromCurrent d) = QBASE_E_OK" "current bk = Some v"
  shows "settle ans before [SeekAccount u, SubtractFromCurrent d] (rows, bk) = (rows, bk\<lparr>postings := postings bk @ [(v, Taken d)]\<rparr>)"
  using assms by (simp add: post_def)

end
