(* ===== verification/BillMoney.thy ===== *)
theory BillMoney
  imports BillBook BillAccount
begin

section \<open>Sessions are sums of packets\<close>

definition session_key :: "qx_log \<Rightarrow> bytes \<times> u32 \<times> u32 \<times> u16 \<times> u16 \<times> u16" where
  "session_key p = (l_mac p, IP_host p, IP_clnt p, Port_host p, IP_proto p, DLC_proto p)"

definition key_total :: "(qx_log \<Rightarrow> u32) \<Rightarrow> bytes \<times> u32 \<times> u32 \<times> u16 \<times> u16 \<times> u16 \<Rightarrow> qx_log list \<Rightarrow> u32" where
  "key_total f k ps = (\<Sum>p \<leftarrow> filter (\<lambda>p. session_key p = k) ps. f p)"

lemma same_session_key: "same_session p s \<longleftrightarrow> session_key p = session_key s"
  by (auto simp: same_session_def session_key_def)

lemma session_key_bytes [simp]: "session_key (p\<lparr>bytes_to_cli := m, bytes_to_host := n\<rparr>) = session_key p"
  by (simp add: session_key_def)

lemma key_total_Nil [simp]: "key_total f k [] = 0"
  by (simp add: key_total_def)

lemma key_total_Cons [simp]: "key_total f k (p # ps) = (if session_key p = k then f p else 0) + key_total f k ps"
  by (simp add: key_total_def)

lemma join_session_keys: "set (map session_key (join_session p ss)) = insert (session_key p) (set (map session_key ss))"
  by (induction ss) (auto simp: same_session_key)

lemma join_session_distinct: "distinct (map session_key ss) \<Longrightarrow> distinct (map session_key (join_session p ss))"
proof (induction ss)
  case (Cons s ss)
  have "session_key s \<notin> set (map session_key (join_session p ss))" if "session_key p \<noteq> session_key s"
    using join_session_keys [of p ss] that Cons.prems by auto
  with Cons show ?case by (auto simp: same_session_key)
qed simp

lemma join_session_totals:
  "key_total bytes_to_cli k (join_session p ss) = key_total bytes_to_cli k (p # ss)"
  "key_total bytes_to_host k (join_session p ss) = key_total bytes_to_host k (p # ss)"
  by (induction ss) (auto simp: same_session_key)

lemma join_session_length: "length (join_session p ss) \<le> Suc (length ss)"
  by (induction ss) auto

lemma form_sessions_runs:
  "length ss \<le> cnt \<Longrightarrow> int (cnt + length ps) \<le> n \<Longrightarrow> form_sessions n cnt ps ss = Inr (fold join_session ps ss)"
proof (induction ps arbitrary: cnt ss)
  case (Cons p ps)
  with join_session_length [of p ss] show ?case by (auto simp: Let_def)
qed simp

lemma fold_join_session:
  "distinct (map session_key ss) \<Longrightarrow> distinct (map session_key (fold join_session ps ss))"
  "set (map session_key (fold join_session ps ss)) = set (map session_key ps) \<union> set (map session_key ss)"
  "key_total bytes_to_cli k (fold join_session ps ss) = key_total bytes_to_cli k ps + key_total bytes_to_cli k ss"
  "key_total bytes_to_host k (fold join_session ps ss) = key_total bytes_to_host k ps + key_total bytes_to_host k ss"
proof (induction ps arbitrary: ss)
  case (Cons p ps)
  { case 1
    then show ?case using Cons.IH(1) [OF join_session_distinct [OF 1]] by simp
  next
    case 2
    then show ?case using Cons.IH(2) [of "join_session p ss"] join_session_keys [of p ss] by simp
  next
    case 3
    then show ?case using Cons.IH(3) [of "join_session p ss"] by (simp add: join_session_totals)
  next
    case 4
    then show ?case using Cons.IH(4) [of "join_session p ss"] by (simp add: join_session_totals) }
qed simp_all

lemma distinct_key_total:
  "distinct (map session_key ss) \<Longrightarrow> s \<in> set ss \<Longrightarrow> key_total f (session_key s) ss = f s"
proof (induction ss)
  case (Cons x ss)
  have none: "key_total f k ss = 0" if "k \<notin> set (map session_key ss)" for k
  proof -
    have "filter (\<lambda>p. session_key p = k) ss = []" using that by (auto simp: filter_empty_conv)
    then show ?thesis by (simp add: key_total_def)
  qed
  show ?case
  proof (cases "s = x")
    case True
    with Cons.prems none show ?thesis by auto
  next
    case False
    with Cons show ?thesis by force
  qed
qed simp

text \<open>C25: When the mapped region and the array have room for the fetched packets, these are divided into sessions:
  there is one session for each combination of client, host, port and protocols that occurs, and its two byte counts are
  the sums, modulo 2 to the power 32, of those of its packets.\<close>

theorem sessions_sum_packets:
  assumes "int (length ps) \<le> n"
  shows "\<exists>ss. form_sessions n 0 ps [] = Inr ss \<and> distinct (map session_key ss) \<and>
    set (map session_key ss) = set (map session_key ps) \<and>
    (\<forall>s \<in> set ss. bytes_to_cli s = key_total bytes_to_cli (session_key s) ps \<and> bytes_to_host s = key_total bytes_to_host (session_key s) ps)"
proof -
  let ?ss = "fold join_session ps []"
  have f: "form_sessions n 0 ps [] = Inr ?ss" using assms by (intro form_sessions_runs) simp_all
  have d: "distinct (map session_key ?ss)" by (rule fold_join_session(1)) simp
  have "bytes_to_cli s = key_total bytes_to_cli (session_key s) ps \<and> bytes_to_host s = key_total bytes_to_host (session_key s) ps"
    if "s \<in> set ?ss" for s
    using distinct_key_total [OF d that, of bytes_to_cli] distinct_key_total [OF d that, of bytes_to_host] by (simp add: fold_join_session(3,4))
  with f d fold_join_session(2) [of ps "[]"] show ?thesis by (intro exI [of _ ?ss]) simp
qed

theorem sessions_sum_packets_witness:
  "\<exists>ss. form_sessions 2 0 [a_packet, a_packet] [] = Inr ss \<and>
     (\<forall>s \<in> set ss. bytes_to_cli s = key_total bytes_to_cli (session_key s) [a_packet, a_packet])"
  using sessions_sum_packets [of "[a_packet, a_packet]" 2] by auto

section \<open>A tariff and the rules of the filter\<close>

definition payer_ok :: "tariff \<Rightarrow> qxl_NIC \<Rightarrow> bool" where
  "payer_ok g n \<longleftrightarrow> (\<exists>a t. nic_account n = Some a \<and> a < length (accounts g) \<and> acc_tax (accounts g ! a) = Some t \<and> t < length (taxes g))"

text \<open>The columns that link the tables hold no 0, and addresses are whole.\<close>

definition rows_linked :: "qxl_tables \<Rightarrow> bool" where
  "rows_linked db \<longleftrightarrow>
     (\<forall>row \<in> set (fetched_rows (T_accounts db)). QXB_FV_UINT QXL_ACCOUNTS_TAX (caption (T_accounts db)) row \<noteq> 0) \<and>
     (\<forall>row \<in> set (fetched_rows (T_NICs db)). QXB_FV_UINT QXL_NICS_ACCOUNT (caption (T_NICs db)) row \<noteq> 0 \<and>
        6 \<le> length (QXB_FV_BIN QXL_NICS_MAC (caption (T_NICs db)) row))"

lemma uid_index_less: "uid_index u vs = Some i \<Longrightarrow> i < length vs"
  by (induction vs arbitrary: i) (auto split: if_splits)

lemma read_taxes_runs: "0 < n \<Longrightarrow> \<exists>ts'. read_taxes tc n rows ts = Inr ts'"
  by (induction rows arbitrary: ts) (auto simp: Let_def)

lemma read_times_runs: "0 < n \<Longrightarrow> \<exists>ts'. read_times tc n hour rows ts = Inr ts'"
  by (induction rows arbitrary: ts) (auto simp: Let_def)

lemma read_details_runs: "0 < n \<Longrightarrow> \<exists>k ts'. read_details tc n tts rows cnt ts = Inr (k, ts') \<and> length ts' = length ts"
proof (induction rows arbitrary: cnt ts)
  case (Cons row rows)
  let ?tax = "QXB_FV_UINT QXL_TAXDETAILS_TAX tc row"
  obtain cnt1 ts1 where 1: "(case uid_index ?tax (map tax_UID ts) of
      Some i \<Rightarrow> (Suc cnt, ts[i := (ts ! i)\<lparr>td := detail_of_row tc tts row # td (ts ! i)\<rparr>])
    | None \<Rightarrow> (if ?tax = 0 then Suc cnt else cnt, ts)) = (cnt1, ts1)" "length ts1 = length ts"
    by (cases "uid_index ?tax (map tax_UID ts)") auto
  from Cons.IH [OF Cons.prems, of cnt1 ts1] Cons.prems show ?case by (simp add: Let_def 1)
qed simp

lemma read_accounts_runs:
  assumes "0 < n" "\<forall>row \<in> set rows. QXB_FV_UINT QXL_ACCOUNTS_TAX tc row \<noteq> 0" "\<forall>a \<in> set accs. \<exists>t < length ts. acc_tax a = Some t"
  shows "\<exists>accs'. read_accounts f tc n ts rows accs = Inr accs' \<and> (\<forall>a \<in> set accs'. \<exists>t < length ts. acc_tax a = Some t)"
  using assms(2,3)
proof (induction rows arbitrary: accs)
  case (Cons row rows)
  define i where "i = uid_index (QXB_FV_UINT QXL_ACCOUNTS_TAX tc row) (map tax_UID ts)"
  define accs1 where "accs1 = (case i of Some j \<Rightarrow> accs @ [\<lparr>acc_UID = QXB_FV_UINT QXL_ACCOUNTS_N tc row, acc_tax = Some j\<rparr>] | None \<Rightarrow> accs)"
  have "\<forall>a \<in> set accs1. \<exists>t < length ts. acc_tax a = Some t"
    using Cons.prems(2) uid_index_less [of "QXB_FV_UINT QXL_ACCOUNTS_TAX tc row" "map tax_UID ts"]
    by (auto simp: accs1_def i_def split: option.split)
  moreover have "QXB_FV_UINT QXL_ACCOUNTS_TAX tc row \<noteq> 0" using Cons.prems(1) by simp
  ultimately show ?case using Cons.IH [of accs] Cons.IH [of accs1] Cons.prems assms(1)
    by (cases i) (auto simp: Let_def accs1_def i_def)
qed simp

lemma nics_of_bytes: "length (n_mac r) = 6 \<Longrightarrow> nics_of (nics_bytes r) = r"
  by (simp add: nics_of_def nics_bytes_def le32.rd_append codec_simps)

lemma add_nic_devctl:
  assumes "bill_ok b" "length (n_mac r) = 6"
  shows "\<exists>v b'. qxc_rm_devctl QXC_ADD_NIC (nics_bytes r) b = Some (v, b') \<and> bill_ok b' \<and> log b' = log b \<and>
    nc_list (rules b') = nc_list (rules b) \<and>
    set (map nic_rule (nc_shadow (rules b'))) \<subseteq> insert r (set (map nic_rule (nc_shadow (rules b))))"
proof (cases "length (nc_shadow (rules b)) < nc_limit (rules b)")
  case True
  have len: "16 \<le> length (nics_bytes r)" using assms(2) by (simp add: nics_bytes_def codec_simps)
  from assms True rule_add_nic_tree [OF _ assms(2), of "rules b"] obtain arr where
    a: "rule_add_nic r (rules b) = Some (True, rules b\<lparr>nc_shadow := arr\<rparr>)" "nic_tree arr"
      "map nic_rule arr = map nic_rule (nc_shadow (rules b)) @ [r]" by (auto simp: bill_ok_def)
  from arg_cong [OF a(3), of length] have "length arr = Suc (length (nc_shadow (rules b)))" by simp
  moreover from arg_cong [OF a(3), of set] have "nic_rule ` set arr = insert r (nic_rule ` set (nc_shadow (rules b)))" by simp
  ultimately show ?thesis using assms True len a(1,2) by (simp add: qxc_rm_devctl_def nics_of_bytes bill_ok_def)
next
  case False
  with assms(1) have "length (nc_shadow (rules b)) = nc_limit (rules b)" by (simp add: bill_ok_def)
  moreover have "16 \<le> length (nics_bytes r)" using assms(2) by (simp add: nics_bytes_def codec_simps)
  ultimately show ?thesis using assms by (auto simp: qxc_rm_devctl_def rule_add_nic_def Let_def nics_of_bytes)
qed

lemma read_NICs_runs:
  assumes "0 < n" "\<forall>row \<in> set rows. QXB_FV_UINT QXL_NICS_ACCOUNT tc row \<noteq> 0 \<and> 6 \<le> length (QXB_FV_BIN QXL_NICS_MAC tc row)"
    and "bill_ok b" "\<forall>r \<in> set (map nic_rule (nc_shadow (rules b))). \<exists>x \<in> set nics. nrule x = r"
    and "\<forall>x \<in> set nics. \<exists>i < length accs. nic_account x = Some i"
  shows "\<exists>nics' b'. read_NICs tc n accs rows nics b = Inr (nics', b') \<and> bill_ok b' \<and> log b' = log b \<and>
    nc_list (rules b') = nc_list (rules b) \<and> (\<forall>r \<in> set (map nic_rule (nc_shadow (rules b'))). \<exists>x \<in> set nics'. nrule x = r) \<and>
    (\<forall>x \<in> set nics'. \<exists>i < length accs. nic_account x = Some i)"
  using assms(2-)
proof (induction rows arbitrary: nics b)
  case (Cons row rows)
  let ?uid = "QXB_FV_UINT QXL_NICS_N tc row"
  define r where "r = \<lparr>UID = ?uid, n_ip_addr = QXB_FV_UINT QXL_NICS_IP tc row, n_mac = take 6 (QXB_FV_BIN QXL_NICS_MAC tc row)\<rparr>"
  have ok: "QXB_FV_UINT QXL_NICS_ACCOUNT tc row \<noteq> 0" "length (n_mac r) = 6" using Cons.prems(1) by (auto simp: r_def)
  show ?case
  proof (cases "uid_index (QXB_FV_UINT QXL_NICS_ACCOUNT tc row) (map acc_UID accs)")
    case None
    with Cons.IH [OF _ Cons.prems(2-4)] Cons.prems(1,2,3,4) ok assms(1) show ?thesis by (auto simp: Let_def)
  next
    case (Some i)
    define nics1 where "nics1 = nics @ [\<lparr>nic_UID = ?uid, nic_account = Some i, nrule = r\<rparr>]"
    from add_nic_devctl [OF Cons.prems(2) ok(2)] obtain v b1 where
      b1: "qxc_rm_devctl QXC_ADD_NIC (nics_bytes r) b = Some (v, b1)" "bill_ok b1" "log b1 = log b" "nc_list (rules b1) = nc_list (rules b)"
        "set (map nic_rule (nc_shadow (rules b1))) \<subseteq> insert r (set (map nic_rule (nc_shadow (rules b))))" by blast
    have 1: "\<forall>r \<in> set (map nic_rule (nc_shadow (rules b1))). \<exists>x \<in> set nics1. nrule x = r"
      using b1(5) Cons.prems(3) by (fastforce simp: nics1_def)
    have 2: "\<forall>x \<in> set nics1. \<exists>i < length accs. nic_account x = Some i"
      using Cons.prems(4) uid_index_less [OF Some] by (auto simp: nics1_def)
    have step: "read_NICs tc n accs (row # rows) nics b =
        (if int (length nics1) = n then Inr (nics1, b1) else read_NICs tc n accs rows nics1 b1)"
      using assms(1) Some b1(1) by (simp add: Let_def r_def [symmetric] nics1_def)
    have rest: "\<forall>row \<in> set rows. QXB_FV_UINT QXL_NICS_ACCOUNT tc row \<noteq> 0 \<and> 6 \<le> length (QXB_FV_BIN QXL_NICS_MAC tc row)"
      using Cons.prems(1) by simp
    from Cons.IH [OF rest b1(2) 1 2] 1 2 b1(2-4) show ?thesis unfolding step by (cases "int (length nics1) = n") auto
  qed
qed simp

lemma push_exempts_runs:
  assumes "bill_ok b"
  shows "\<exists>b'. push_exempts tc rows b = Inr b' \<and> bill_ok b' \<and> log b' = log b \<and> nc_list (rules b') = nc_list (rules b) \<and>
    nc_shadow (rules b') = nc_shadow (rules b)"
  using assms
proof (induction rows arbitrary: b)
  case (Cons row rows)
  let ?r = "rule_of_row tc row"
  have len: "length (exempt_bytes ?r) = 20" by (simp add: exempt_bytes_def codec_simps)
  obtain ok r' where r': "rule_add_exempt (exempt_of (exempt_bytes ?r)) (rules b) = (ok, r')" by fastforce
  then have same: "nc_list r' = nc_list (rules b)" "nc_shadow r' = nc_shadow (rules b)" "nc_limit r' = nc_limit (rules b)"
    by (auto simp: rule_add_exempt_def split: if_splits)
  with Cons.prems have "bill_ok (b\<lparr>rules := r'\<rparr>)" by (simp add: bill_ok_def)
  from Cons.IH [OF this] same r' len show ?case by (auto simp: qxc_rm_devctl_def)
qed simp

definition sizes_ok :: "qxl_conf \<Rightarrow> bool" where
  "sizes_ok c \<longleftrightarrow> 0 < MaxTaxes c \<and> 0 < MaxTaxTimes c \<and> 0 < MaxTaxDetails c \<and> 0 < MaxAccounts c \<and> 0 < MaxNICs c"

text \<open>Every rule in \<open>arr\<close> was pushed for a NIC of the tariff.\<close>

definition pushed :: "tariff \<Rightarrow> qxc_rule_nics list \<Rightarrow> bool" where
  "pushed g arr \<longleftrightarrow> (\<forall>r \<in> set (map nic_rule arr). \<exists>n \<in> set (NICs g). nrule n = r) \<and> (\<forall>n \<in> set (NICs g). payer_ok g n)"

lemma read_tables_runs:
  assumes "sizes_ok c" "rows_linked db" "bill_ok b" "nc_shadow (rules b) = []"
  shows "\<exists>g b'. read_tables f c hour db b = Inr (g, b') \<and> bill_ok b' \<and> log b' = log b \<and> nc_list (rules b') = nc_list (rules b) \<and>
    pushed g (nc_shadow (rules b'))"
proof -
  note z = assms(1) [unfolded sizes_ok_def] and l = assms(2) [unfolded rows_linked_def]
  from push_exempts_runs [OF assms(3)] assms(4) obtain b1 where
    1: "push_exempts (caption (T_tax_exempt db)) (fetched_rows (T_tax_exempt db)) b = Inr b1" "bill_ok b1" "log b1 = log b"
      "nc_list (rules b1) = nc_list (rules b)" "nc_shadow (rules b1) = []" by metis
  from z read_taxes_runs obtain ts where 2: "read_taxes (caption (T_taxes db)) (MaxTaxes c) (fetched_rows (T_taxes db)) [] = Inr ts" by blast
  from z read_times_runs obtain tts where
    3: "read_times (caption (T_tax_times db)) (MaxTaxTimes c) hour (fetched_rows (T_tax_times db)) [] = Inr tts" by blast
  from z read_details_runs obtain k ts' where
    4: "read_details (caption (T_tax_details db)) (MaxTaxDetails c) tts (fetched_rows (T_tax_details db)) 0 ts = Inr (k, ts')" by blast
  from z l read_accounts_runs [of "MaxAccounts c" "fetched_rows (T_accounts db)" "caption (T_accounts db)" "[]" ts' f] obtain accs where
    5: "read_accounts f (caption (T_accounts db)) (MaxAccounts c) ts' (fetched_rows (T_accounts db)) [] = Inr accs"
      "\<forall>a \<in> set accs. \<exists>t < length ts'. acc_tax a = Some t" by auto
  from z l 1 read_NICs_runs [of "MaxNICs c" "fetched_rows (T_NICs db)" "caption (T_NICs db)" b1 "[]" accs] obtain nics b2 where
    6: "read_NICs (caption (T_NICs db)) (MaxNICs c) accs (fetched_rows (T_NICs db)) [] b1 = Inr (nics, b2)" "bill_ok b2"
      "log b2 = log b1" "nc_list (rules b2) = nc_list (rules b1)"
      "\<forall>r \<in> set (map nic_rule (nc_shadow (rules b2))). \<exists>x \<in> set nics. nrule x = r"
      "\<forall>x \<in> set nics. \<exists>i < length accs. nic_account x = Some i" by auto
  let ?g = "\<lparr>taxes = ts', accounts = accs, NICs = nics\<rparr>"
  have "payer_ok ?g n" if "n \<in> set nics" for n
  proof -
    from 6(6) that obtain i where i: "i < length accs" "nic_account n = Some i" by blast
    with 5(2) nth_mem [OF i(1)] obtain t where "t < length ts'" "acc_tax (accs ! i) = Some t" by blast
    with i show ?thesis by (auto simp: payer_ok_def)
  qed
  then have "pushed ?g (nc_shadow (rules b2))" using 6(5) by (simp add: pushed_def)
  with 1 2 3 4 5(1) 6 show ?thesis by (intro exI [of _ ?g] exI [of _ b2]) (simp add: read_tables_def)
qed

lemma swap_get_log_runs:
  assumes "bill_ok b"
  shows "\<exists>b'. swap_get_log b = Inr (log_entries (log b), b') \<and> bill_ok b' \<and> log_entries (log b') = [] \<and> log_limit (log b') = log_limit (log b) \<and>
    nc_list (rules b') = nc_shadow (rules b) \<and> nc_shadow (rules b') = []"
proof -
  have "nic_tree []" by (auto simp: nic_tree_def tree_root_def intro!: exI [of _ Tip])
  with assms show ?thesis
    by (auto simp: swap_get_log_def shm_logs_def qxc_rm_devctl_def log_swap_log_def rule_swap_lists_def bill_ok_def log_entries_def)
qed

section \<open>Charges\<close>

text \<open>The database accepts rows, seeks and updates; only the table of a new day may not exist yet.\<close>

definition answers_ok :: "qxl_env \<Rightarrow> bool" where
  "answers_ok e \<longleftrightarrow> (\<forall>h row u d name k. answer e h (InsertLog row) = QBASE_E_OK \<and>
     answer e h (SeekAccount u) = QBASE_E_OK \<and> answer e h (SubtractFromCurrent d) = QBASE_E_OK \<and>
     (answer e h (SelectLog name) = QBASE_E_OK \<or> answer e h (SelectLog name) = QBASE_E_NOTBLEXIST) \<and>
     answer e h (CreateLog name k) = QBASE_E_OK)"

text \<open>The row of a session: its packets' addresses, protocols and volumes, the card and the account, and the prices of the tariff.\<close>

definition row_of_session :: "qxl_env \<Rightarrow> qxl_conf \<Rightarrow> tariff \<Rightarrow> u32 \<Rightarrow> qx_log \<Rightarrow> log_record \<Rightarrow> bool" where
  "row_of_session e c g now p row \<longleftrightarrow>
     (\<exists>nic a t. nic \<in> set (NICs g) \<and> nic_matches p nic \<and> nic_account nic = Some a \<and> acc_tax (accounts g ! a) = Some t \<and>
        tlog_time row = now \<and> tlog_mac row = l_mac p \<and> tlog_dlc row = DLC_proto p \<and> tlog_ipclnt row = IP_clnt p \<and>
        tlog_iphost row = IP_host p \<and> tlog_proto row = IP_proto p \<and> tlog_phost row = Port_host p \<and>
        tlog_nic row = nic_UID nic \<and> tlog_accpay row = acc_UID (accounts g ! a) \<and>
        tlog_btocli row = bytes_to_cli p \<and> tlog_btohst row = bytes_to_host p \<and>
        tlog_stocli row = cost (fp e) (DataUnits c) (fst (prices (taxes g ! t) p)) (bytes_to_cli p) \<and>
        tlog_stohst row = cost (fp e) (DataUnits c) (snd (prices (taxes g ! t) p)) (bytes_to_host p))"

text \<open>What a row costs its account.\<close>

definition price_of_row :: "fpu \<Rightarrow> log_record \<Rightarrow> u32 \<times> posting" where
  "price_of_row f row = (tlog_accpay row, Taken (plus_dbl f (tlog_stocli row) (tlog_stohst row)))"

text \<open>In the end \<open>new\<close> stands behind the rows of the log, and the price of each of these rows was taken from its account.\<close>

definition charged :: "fpu \<Rightarrow> log_record list \<Rightarrow> log_record list \<times> book \<Rightarrow> log_record list \<times> book \<Rightarrow> bool" where
  "charged f new db db' \<longleftrightarrow> fst db' = fst db @ new \<and> postings (snd db') = postings (snd db) @ map (price_of_row f) new"

lemma charged_trans: "charged f xs db db1 \<Longrightarrow> charged f ys db1 db2 \<Longrightarrow> charged f (xs @ ys) db db2"
  by (simp add: charged_def)

lemma charged_Nil [simp]: "charged f [] db db"
  by (simp add: charged_def)

definition has_payer :: "tariff \<Rightarrow> qx_log \<Rightarrow> bool" where
  "has_payer g p \<longleftrightarrow> (\<exists>nic \<in> set (NICs g). nic_matches p nic) \<and> (\<forall>nic \<in> set (NICs g). payer_ok g nic)"

lemma charge_session_charged:
  assumes "answers_ok e" "has_payer g p"
  shows "\<exists>s' cs row. charge_session e c g p s = Inr s' \<and> calls s' = calls s @ cs \<and> row_of_session e c g (tlog_time (log_row s)) p row \<and>
    (\<forall>h db. charged (fp e) [row] db (settle (answer e) h cs db)) \<and>
    tlog_time (log_row s') = tlog_time (log_row s) \<and> crnt s' = crnt s"
proof -
  from assms(2) obtain nic where n: "find (nic_matches p) (NICs g) = Some nic"
    by (cases "find (nic_matches p) (NICs g)") (auto simp: has_payer_def find_None_iff)
  then have m: "nic \<in> set (NICs g)" "nic_matches p nic" by (auto simp: find_Some_iff)
  with assms(2) obtain a t where a: "nic_account nic = Some a" "acc_tax (accounts g ! a) = Some t"
    by (auto simp: has_payer_def payer_ok_def)
  obtain x y where xy: "prices (taxes g ! t) p = (x, y)" by fastforce
  have i: "answer e h (InsertLog row) = QBASE_E_OK" "answer e h (SeekAccount u) = QBASE_E_OK"
    "answer e h (SubtractFromCurrent d) = QBASE_E_OK" for h row u d using assms(1) by (simp_all add: answers_ok_def)
  define row where "row = (set_session p (log_row s))\<lparr>tlog_nic := nic_UID nic, tlog_accpay := acc_UID (accounts g ! a),
    tlog_stocli := cost (fp e) (DataUnits c) x (bytes_to_cli p), tlog_stohst := cost (fp e) (DataUnits c) y (bytes_to_host p)\<rparr>"
  define cs where "cs = [InsertLog row, SeekAccount (acc_UID (accounts g ! a)),
    SubtractFromCurrent (plus_dbl (fp e) (tlog_stocli row) (tlog_stohst row))]"
  have "\<exists>s'. charge_session e c g p s = Inr s' \<and> calls s' = calls s @ cs \<and> tlog_time (log_row s') = tlog_time (log_row s) \<and> crnt s' = crnt s"
    using a by (simp add: charge_session_def n xy ask_def i set_session_def Let_def cs_def row_def)
  moreover have "row_of_session e c g (tlog_time (log_row s)) p row"
    using m a by (auto simp: row_of_session_def row_def set_session_def xy)
  moreover have "charged (fp e) [row] db (settle (answer e) h cs db)" for h db
    by (cases db) (simp add: cs_def i charged_def price_of_row_def row_def)
  ultimately show ?thesis by blast
qed

lemma charge_sessions_charged:
  assumes "answers_ok e" "\<forall>p \<in> set ps. has_payer g p"
  shows "\<exists>s' cs new. charge_sessions e c g ps s = Inr s' \<and> calls s' = calls s @ cs \<and>
    list_all2 (row_of_session e c g (tlog_time (log_row s))) ps new \<and>
    (\<forall>h db. charged (fp e) new db (settle (answer e) h cs db)) \<and> crnt s' = crnt s"
  using assms(2)
proof (induction ps arbitrary: s)
  case Nil
  then show ?case by (intro exI [of _ s] exI [of _ "[]"]) simp
next
  case (Cons p ps)
  then obtain s1 cs row where 1: "charge_session e c g p s = Inr s1" "calls s1 = calls s @ cs"
    "row_of_session e c g (tlog_time (log_row s)) p row" "\<And>h db. charged (fp e) [row] db (settle (answer e) h cs db)"
    "tlog_time (log_row s1) = tlog_time (log_row s)" "crnt s1 = crnt s"
    using charge_session_charged [OF assms(1), of g p c s] by auto
  from Cons.IH [of s1] Cons.prems obtain s2 cs2 new where 2: "charge_sessions e c g ps s1 = Inr s2" "calls s2 = calls s1 @ cs2"
    "list_all2 (row_of_session e c g (tlog_time (log_row s1))) ps new"
    "\<And>h db. charged (fp e) new db (settle (answer e) h cs2 db)" "crnt s2 = crnt s1" by auto
  have "charged (fp e) (row # new) db (settle (answer e) h (cs @ cs2) db)" for h db
    using charged_trans [OF 1(4) [of db h] 2(4)] by (simp add: settle_append)
  with 1 2 show ?case by (intro exI [of _ s2] exI [of _ "cs @ cs2"] exI [of _ "row # new"]) simp
qed

lemma change_log_table_runs:
  assumes "answers_ok e"
  shows "\<exists>s' pre. change_log_table e c log_time s = Inr s' \<and> calls s' = calls s @ pre \<and> (\<forall>x \<in> set pre. tableless x) \<and>
    crnt s' = crnt s \<and> log_row s' = log_row s"
proof (cases "tm_yday (localtime e log_time) = tm_yday (log_t_tm s) \<and> tm_year (localtime e log_time) = tm_year (log_t_tm s)")
  case True
  then show ?thesis by (intro exI [of _ s] exI [of _ "[]"]) (simp add: change_log_table_def Let_def)
next
  case False
  let ?name = "date_name e (localtime e log_time)"
  have k: "answer e h (CreateLog ?name (nTblRows c)) = QBASE_E_OK" for h using assms by (simp add: answers_ok_def)
  from assms have "answer e (calls s) (SelectLog ?name) = QBASE_E_OK \<or> answer e (calls s) (SelectLog ?name) = QBASE_E_NOTBLEXIST"
    by (simp add: answers_ok_def)
  then show ?thesis using False by (auto simp: change_log_table_def Let_def ask_def k tableless_def)
qed

section \<open>Filter and logger together\<close>

datatype money_event = Passing bool bytes npkt | Round u32 u32 qxl_tables

fun money_step :: "qxl_env \<Rightarrow> qxl_conf \<Rightarrow> (logger \<times> billing) logged \<Rightarrow> money_event \<Rightarrow> (logger \<times> billing) logged" where
  "money_step e c (Inl x) ev = Inl x"
| "money_step e c (Inr (s, b)) (Passing tocli junk pkt) =
     (case handle_packet tocli junk pkt b of None \<Rightarrow> Inl Hang | Some (v, b') \<Rightarrow> Inr (s, b'))"
| "money_step e c (Inr (s, b)) (Round now log_time db) = qxl_round e c now log_time db (s, b)"

fun money_event_ok :: "(logger \<times> billing) logged \<Rightarrow> money_event \<Rightarrow> bool" where
  "money_event_ok s (Passing tocli junk pkt) \<longleftrightarrow> length junk = 80"
| "money_event_ok s (Round now log_time db) \<longleftrightarrow> rows_linked db"

fun money_inv :: "qxl_env \<Rightarrow> qxl_conf \<Rightarrow> (logger \<times> billing) logged \<Rightarrow> bool" where
  "money_inv e c (Inl x) \<longleftrightarrow> False"
| "money_inv e c (Inr (s, b)) \<longleftrightarrow> answers_ok e \<and> sizes_ok c \<and> bill_ok b \<and> nc_shadow (rules b) = [] \<and> int (log_limit (log b)) \<le> logpkts c \<and>
     pushed (crnt s) (nc_list (rules b)) \<and> (\<forall>p \<in> set (log_entries (log b)). listed (rules b) p)"

lemma nic_tree_Nil [simp]: "nic_tree []"
  by (auto simp: nic_tree_def tree_root_def intro!: exI [of _ Tip])

lemma log_store_limit [simp]: "log_limit (snd (log_store_pkt p l)) = log_limit l"
  by (simp add: log_store_pkt_def Let_def)

lemma check_frame_limit: "check_frame tocli junk frame b = Some (v, b') \<Longrightarrow> log_limit (log b') = log_limit (log b)"
  by (auto simp: check_frame_def Let_def split: option.splits if_splits bool.splits prod.splits
      dest!: arg_cong [where f = "\<lambda>x. log_limit (snd x)"])

lemma passing_keeps:
  assumes i: "money_inv e c (Inr (s, b))" and j: "length junk = 80"
  shows "money_inv e c (money_step e c (Inr (s, b)) (Passing tocli junk pkt))"
proof (cases "\<exists>frame. np_load pkt = Frame frame \<and> same_interface pkt b")
  case True
  then obtain frame where f: "np_load pkt = Frame frame" "same_interface pkt b" by blast
  have h: "handle_packet tocli junk pkt b = check_frame tocli junk frame b"
    using f by (simp add: handle_packet_def qxc_rx_up_def qxc_rx_down_def)
  from i have ok: "bill_ok b" by simp
  from check_frame_cases [OF ok j, of tocli frame] obtain v l where c: "check_frame tocli junk frame b = Some (v, b\<lparr>log := l\<rparr>)"
    "active_count l \<le> log_limit l"
    "case entry_of tocli junk frame of None \<Rightarrow> v = Block \<and> l = log b
     | Some p \<Rightarrow> let x = rule_match_exempt (rules b) p; taxed = (x \<noteq> 2 \<and> listed (rules b) p \<and> x \<noteq> 1) in
         (v = Pass \<longleftrightarrow> x = 2 \<or> listed (rules b) p \<and> (x = 1 \<or> active_count (log b) < log_limit (log b))) \<and>
         log_entries l = log_entries (log b) @ (if v = Pass \<and> taxed then [p] else [])" by blast
  from check_frame_limit [OF c(1)] have lim: "log_limit l = log_limit (log b)" by simp
  have "\<forall>p \<in> set (log_entries l). listed (rules b) p"
    using c(3) i by (auto simp: Let_def split: option.splits if_splits)
  with c(1,2) i lim h show ?thesis by (simp add: bill_ok_def)
next
  case False
  then have "\<exists>b'. handle_packet tocli junk pkt b = Some (Pass, b') \<and> log b' = log b \<and> rules b' = rules b"
    by (cases "np_load pkt") (auto simp: handle_packet_def qxc_rx_up_def qxc_rx_down_def)
  with i show ?thesis by (auto simp: bill_ok_def)
qed

lemma listed_has_payer: "pushed g (nc_list rl) \<Longrightarrow> listed rl p \<Longrightarrow> has_payer g p"
  unfolding pushed_def listed_def has_payer_def nic_matches_def by metis

lemma has_payer_key: "session_key p = session_key q \<Longrightarrow> has_payer g p = has_payer g q"
  by (simp add: has_payer_def nic_matches_def session_key_def)

text \<open>What one round does, from a state that a run can reach.\<close>

lemma round_runs:
  assumes i: "money_inv e c (Inr (s, b))" and r: "rows_linked db"
  shows "\<exists>s' b' ss cs new. qxl_round e c now log_time db (s, b) = Inr (s', b') \<and> money_inv e c (Inr (s', b')) \<and>
    form_sessions (logpkts c) 0 (log_entries (log b)) [] = Inr ss \<and> calls s' = calls s @ cs \<and>
    list_all2 (row_of_session e c (crnt s) log_time) ss new \<and> (\<forall>h tbl. charged (fp e) new tbl (settle (answer e) h cs tbl)) \<and>
    log_entries (log b') = []"
proof -
  from i have z: "answers_ok e" "sizes_ok c" "bill_ok b" "nc_shadow (rules b) = []" by simp_all
  from read_tables_runs [OF z(2) r z(3,4)] obtain g b1 where 1: "read_tables (fp e) c (tm_hour (localtime e now)) db b = Inr (g, b1)"
    "bill_ok b1" "log b1 = log b" "nc_list (rules b1) = nc_list (rules b)" "pushed g (nc_shadow (rules b1))" by blast
  from swap_get_log_runs [OF 1(2)] 1(3) obtain b2 where 2: "swap_get_log b1 = Inr (log_entries (log b), b2)" "bill_ok b2"
    "log_entries (log b2) = []" "log_limit (log b2) = log_limit (log b)" "nc_list (rules b2) = nc_shadow (rules b1)" "nc_shadow (rules b2) = []" by auto
  have "length (log_entries (log b)) \<le> log_limit (log b)" using z(3) by (simp add: log_entries_def bill_ok_def)
  with i have room: "int (length (log_entries (log b))) \<le> logpkts c" by simp
  define ss where "ss = fold join_session (log_entries (log b)) []"
  from room have 3: "form_sessions (logpkts c) 0 (log_entries (log b)) [] = Inr ss" unfolding ss_def by (intro form_sessions_runs) simp_all
  have pay: "has_payer (crnt s) p" if "p \<in> set ss" for p
  proof -
    from that fold_join_session(2) [of "log_entries (log b)" "[]"] have "session_key p \<in> session_key ` set (log_entries (log b))"
      unfolding ss_def by auto
    then obtain q where q: "q \<in> set (log_entries (log b))" "session_key p = session_key q" by blast
    from i q(1) have "has_payer (crnt s) q" by (intro listed_has_payer [of _ "rules b"]) auto
    with has_payer_key [OF q(2)] show ?thesis by simp
  qed
  define s1 where "s1 = s\<lparr>crnt := g, cycle := cycle s + 1\<rparr>"
  from change_log_table_runs [OF z(1), of c log_time s1] obtain s2 pre where 4: "change_log_table e c log_time s1 = Inr s2"
    "calls s2 = calls s1 @ pre" "\<forall>x \<in> set pre. tableless x" "crnt s2 = crnt s1" by blast
  define s3 where "s3 = s2\<lparr>log_row := (log_row s2)\<lparr>tlog_time := log_time\<rparr>\<rparr>"
  from charge_sessions_charged [OF z(1), of ss "crnt s" c s3] pay obtain s4 cs new where 5: "charge_sessions e c (crnt s) ss s3 = Inr s4"
    "calls s4 = calls s3 @ cs" "list_all2 (row_of_session e c (crnt s) log_time) ss new"
    "\<And>h tbl. charged (fp e) new tbl (settle (answer e) h cs tbl)" "crnt s4 = crnt s3" by (auto simp: s3_def)
  define s5 where "s5 = snd (ask e FlushLog (snd (ask e FlushAccounts s4)))"
  have run: "qxl_round e c now log_time db (s, b) = Inr (s5, b2)"
    by (simp add: qxl_round_def 1(1) 2(1) 3 4(1) 5(1) Let_def flip: s1_def s3_def s5_def)
  have cs: "calls s5 = calls s @ (pre @ cs @ [FlushAccounts, FlushLog])" "crnt s5 = g"
    by (simp_all add: s5_def ask_def 5(2,5) s3_def 4(2,4) s1_def)
  have inv: "money_inv e c (Inr (s5, b2))" using i 2 1(5) by (simp add: cs(2))
  have last: "settle (answer e) h [FlushAccounts, FlushLog] tbl = tbl" for h tbl by (rule settle_tableless) (simp add: tableless_def)
  have "charged (fp e) new tbl (settle (answer e) h (pre @ cs @ [FlushAccounts, FlushLog]) tbl)" for h tbl
    using 5(4) [of tbl "h @ pre"] 4(3) by (simp only: settle_append settle_tableless last)
  then show ?thesis using run inv cs(1) 2(3) 3 5(3) by blast
qed

interpretation money: machine "money_step e c" money_event_ok "money_inv e c" for e c
proof
  fix s :: "(logger \<times> billing) logged" and ev
  assume i: "money_inv e c s" and ok: "money_event_ok s ev"
  then obtain l b where s: "s = Inr (l, b)" by (cases s) auto
  show "money_inv e c (money_step e c s ev)"
  proof (cases ev)
    case (Passing tocli junk pkt)
    with i ok s show ?thesis using passing_keeps by simp
  next
    case (Round now log_time db)
    with i ok s round_runs [of e c l b db now log_time] show ?thesis by auto
  qed
qed

text \<open>The logger at its start, when no rule and no packet is in the filter.\<close>

definition fresh_logger :: "logger \<Rightarrow> bool" where
  "fresh_logger s \<longleftrightarrow> NICs (crnt s) = []"

lemma fresh_inv:
  assumes "qxc_init file junk e0 = Inr b0" "fresh_logger s0" "int (log_limit (log b0)) \<le> logpkts c" "answers_ok e" "sizes_ok c"
  shows "money_inv e c (Inr (s0, b0))"
  using assms by (auto simp: qxc_init_def log_init_def rule_init_lists_def bill_ok_def log_entries_def nic_tree_def tree_root_def
      pushed_def fresh_logger_def intro!: exI [of _ Tip] split: sum.splits option.splits if_splits)

text \<open>C24: Filter and logger together: from their start, in every sequence of packets and rounds, no round fails, and the
  round that fetches the waiting entries forms their sessions and adds to the log one row for each, with the card and the account that
  the card with its addresses belongs to and the prices of the tariff that was in force when the packets passed; and from
  exactly these accounts the sum of the two prices of each row is taken, once. The conditions: the log of the filter is not larger
  than what the logger has mapped; the array sizes of the configuration are positive; in the tables of every round the accounts have
  taxes and the cards accounts (the number 0 stops the logger, theorem \<open>account_without_tax_stops_logger\<close>); and the database
  accepts the rows, seeks and updates (after a failed seek another account pays, lemma \<open>failed_seek_charges_other\<close>).\<close>

theorem round_charges_every_session:
  assumes "qxc_init file junk e0 = Inr b0" "fresh_logger s0" "int (log_limit (log b0)) \<le> logpkts c" "answers_ok e" "sizes_ok c"
    and "money.run_ok e c (Inr (s0, b0)) es" "rows_linked db"
  shows "\<exists>s b s' b' ss new. money.run e c (Inr (s0, b0)) es = Inr (s, b) \<and>
    money.run e c (Inr (s0, b0)) (es @ [Round now log_time db]) = Inr (s', b') \<and>
    form_sessions (logpkts c) 0 (log_entries (log b)) [] = Inr ss \<and> log_entries (log b') = [] \<and>
    list_all2 (row_of_session e c (crnt s) log_time) ss new \<and>
    (let (rows, bk) = settle (answer e) [] (calls s) ([], bk0); (rows', bk') = settle (answer e) [] (calls s') ([], bk0)
     in rows' = rows @ new \<and>
       postings bk' = postings bk @ map (\<lambda>row. (tlog_accpay row, Taken (plus_dbl (fp e) (tlog_stocli row) (tlog_stohst row)))) new)"
proof -
  from money.run_inv [OF fresh_inv [OF assms(1-5)] assms(6)] obtain s b where r: "money.run e c (Inr (s0, b0)) es = Inr (s, b)"
    "money_inv e c (Inr (s, b))" by (cases "money.run e c (Inr (s0, b0)) es") auto
  from round_runs [OF r(2) assms(7), of now log_time] obtain s' b' ss cs new where
    q: "qxl_round e c now log_time db (s, b) = Inr (s', b')" "form_sessions (logpkts c) 0 (log_entries (log b)) [] = Inr ss"
      "calls s' = calls s @ cs" "list_all2 (row_of_session e c (crnt s) log_time) ss new"
      "\<And>h tbl. charged (fp e) new tbl (settle (answer e) h cs tbl)" "log_entries (log b') = []" by blast
  have "money.run e c (Inr (s0, b0)) (es @ [Round now log_time db]) = Inr (s', b')" by (simp add: money.run_append r(1) q(1))
  moreover have "let (rows, bk) = settle (answer e) [] (calls s) ([], bk0); (rows', bk') = settle (answer e) [] (calls s') ([], bk0)
     in rows' = rows @ new \<and>
       postings bk' = postings bk @ map (\<lambda>row. (tlog_accpay row, Taken (plus_dbl (fp e) (tlog_stocli row) (tlog_stohst row)))) new"
    using q(5) [of "settle (answer e) [] (calls s) ([], bk0)" "calls s"]
    by (auto simp: q(3) settle_append charged_def price_of_row_def Let_def split: prod.splits)
  ultimately show ?thesis using r(1) q(2,4,6) by blast
qed

definition plain_fpu :: fpu where
  "plain_fpu = \<lparr>times_u32 = \<lambda>d n. d, divided = \<lambda>d d'. d, plus_dbl = \<lambda>d d'. d, minus_dbl = \<lambda>d. d, below_zero = \<lambda>d. False,
     is_zero = \<lambda>d. False, dbl_of = \<lambda>i. []\<rparr>"

definition an_env :: qxl_env where
  "an_env = \<lparr>fp = plain_fpu, answer = \<lambda>h c. QBASE_E_OK, localtime = \<lambda>t. \<lparr>tm_yday = 0, tm_year = 70, tm_mon = 0, tm_hour = 0\<rparr>,
     date_name = \<lambda>t. []\<rparr>"

definition no_rows :: qxl_tables where
  "no_rows = (let t = \<lparr>caption = [], fetched_rows = []\<rparr> in
     \<lparr>T_tax_exempt = t, T_taxes = t, T_tax_times = t, T_tax_details = t, T_accounts = t, T_NICs = t\<rparr>)"

definition a_logger :: logger where
  "a_logger = \<lparr>crnt = \<lparr>taxes = [], accounts = [], NICs = []\<rparr>,
     log_row = \<lparr>tlog_time = 0, tlog_nic = 0, tlog_mac = [], tlog_dlc = 0, tlog_ipclnt = 0, tlog_iphost = 0, tlog_proto = 0, tlog_pclnt = 0,
       tlog_phost = 0, tlog_btocli = 0, tlog_btohst = 0, tlog_stocli = [], tlog_stohst = [], tlog_accpay = 0\<rparr>,
     log_t_tm = \<lparr>tm_yday = 0, tm_year = 70, tm_mon = 0, tm_hour = 0\<rparr>, log_t_time = 0, cycle = 0, calls = []\<rparr>"

definition a_start :: qxc_start where
  "a_start = \<lparr>qs_log0 = \<lambda>i. a_packet, qs_log1 = \<lambda>i. a_packet, qs_shm = True, qs_mem = True, qs_register = True\<rparr>"

lemma a_filter_starts: "\<exists>b0. qxc_init (Some []) [] a_start = Inr b0 \<and> log_limit (log b0) = 1000 \<and> nc_limit (rules b0) = 10"
  by (simp add: a_start_def qxc_init_def qxc_parse_config_def GetConf_open_def flat_lines_end qxc_defaults_def log_init_def rule_init_lists_def)

lemma an_env_ok: "answers_ok an_env" "sizes_ok qxl_defaults" "fresh_logger a_logger" "rows_linked no_rows"
  by (simp_all add: answers_ok_def an_env_def sizes_ok_def qxl_defaults_def fresh_logger_def a_logger_def rows_linked_def no_rows_def Let_def)

section \<open>An account without a tax\<close>

lemma read_taxes_UIDs:
  "read_taxes tc n rows ts = Inr ts' \<Longrightarrow> set (map tax_UID ts') \<subseteq> set (map tax_UID ts) \<union> QXB_FV_UINT QXL_TAXES_N tc ` set rows"
proof (induction rows arbitrary: ts)
  case (Cons row rows)
  define ts1 where "ts1 = ts @ [\<lparr>tax_UID = QXB_FV_UINT QXL_TAXES_N tc row, def_tax_to_cli = QXB_FV_DBL QXL_TAXES_DEF_SUM_IN tc row,
                def_tax_from_cli = QXB_FV_DBL QXL_TAXES_DEF_SUM_OUT tc row, td = []\<rparr>]"
  have u: "set (map tax_UID ts1) = insert (QXB_FV_UINT QXL_TAXES_N tc row) (set (map tax_UID ts))" by (simp add: ts1_def)
  from Cons.prems have "ts' = ts1 \<or> read_taxes tc n rows ts1 = Inr ts'" by (auto simp: Let_def ts1_def split: if_splits)
  then show ?case
  proof
    assume "ts' = ts1"
    then show ?thesis by (auto simp: ts1_def)
  next
    assume "read_taxes tc n rows ts1 = Inr ts'"
    from Cons.IH [OF this] show ?thesis unfolding u by (simp only: list.set image_insert) blast
  qed
qed simp

lemma read_details_UIDs: "read_details tc n tts rows cnt ts = Inr (k, ts') \<Longrightarrow> map tax_UID ts' = map tax_UID ts"
proof (induction rows arbitrary: cnt ts)
  case (Cons row rows)
  let ?tax = "QXB_FV_UINT QXL_TAXDETAILS_TAX tc row"
  obtain cnt1 ts1 where 1: "(case uid_index ?tax (map tax_UID ts) of
      Some i \<Rightarrow> (Suc cnt, ts[i := (ts ! i)\<lparr>td := detail_of_row tc tts row # td (ts ! i)\<rparr>])
    | None \<Rightarrow> (if ?tax = 0 then Suc cnt else cnt, ts)) = (cnt1, ts1)" by fastforce
  then have "map tax_UID ts1 = map tax_UID ts"
    by (auto simp: map_update list_update_same_conv dest!: uid_index_less split: option.splits if_splits)
  with Cons.IH [of cnt1 ts1] Cons.prems show ?case by (simp add: Let_def 1 split: if_splits)
qed simp

lemma uid_index_None: "u \<notin> set vs \<Longrightarrow> uid_index u vs = None"
  by (induction vs) auto

text \<open>A table of accounts and one of cards with one row each, linked to each other but not to a tax.\<close>

definition unlinked_account :: "qxl_conf \<Rightarrow> fpu \<Rightarrow> qxl_tables \<Rightarrow> qx_rule_nics \<Rightarrow> bool" where
  "unlinked_account c f db r \<longleftrightarrow> sizes_ok c \<and> fetched_rows (T_tax_exempt db) = [] \<and>
     (\<forall>row \<in> set (fetched_rows (T_taxes db)). QXB_FV_UINT QXL_TAXES_N (caption (T_taxes db)) row \<noteq> 0) \<and>
     (\<exists>arow nrow. fetched_rows (T_accounts db) = [arow] \<and> fetched_rows (T_NICs db) = [nrow] \<and>
        \<not> below_zero f (QXB_FV_DBL QXL_ACCOUNTS_SUM (caption (T_accounts db)) arow) \<and>
        QXB_FV_UINT QXL_ACCOUNTS_TAX (caption (T_accounts db)) arow = 0 \<and>
        QXB_FV_UINT QXL_NICS_ACCOUNT (caption (T_NICs db)) nrow = QXB_FV_UINT QXL_ACCOUNTS_N (caption (T_accounts db)) arow \<and>
        r = \<lparr>UID = QXB_FV_UINT QXL_NICS_N (caption (T_NICs db)) nrow, n_ip_addr = QXB_FV_UINT QXL_NICS_IP (caption (T_NICs db)) nrow,
             n_mac = take 6 (QXB_FV_BIN QXL_NICS_MAC (caption (T_NICs db)) nrow)\<rparr>)"

lemma read_unlinked:
  assumes u: "unlinked_account c f db r" and m: "length (n_mac r) = 6" and b: "bill_ok b"
  shows "\<exists>g b' n. read_tables f c hour db b = Inr (g, b') \<and> bill_ok b' \<and> log b' = log b \<and> nc_list (rules b') = nc_list (rules b) \<and>
    ex_shadow (rules b') = ex_shadow (rules b) \<and> interface b' = interface b \<and>
    (nc_shadow (rules b) = [] \<and> 0 < nc_limit (rules b) \<longrightarrow> map nic_rule (nc_shadow (rules b')) = [r]) \<and>
    NICs g = [n] \<and> nrule n = r \<and> nic_account n = Some 0 \<and> acc_tax (accounts g ! 0) = None"
proof -
  from u obtain arow nrow where z: "sizes_ok c" "fetched_rows (T_tax_exempt db) = []"
    "\<forall>row \<in> set (fetched_rows (T_taxes db)). QXB_FV_UINT QXL_TAXES_N (caption (T_taxes db)) row \<noteq> 0"
    and a: "fetched_rows (T_accounts db) = [arow]" "\<not> below_zero f (QXB_FV_DBL QXL_ACCOUNTS_SUM (caption (T_accounts db)) arow)"
      "QXB_FV_UINT QXL_ACCOUNTS_TAX (caption (T_accounts db)) arow = 0"
    and n: "fetched_rows (T_NICs db) = [nrow]"
      "QXB_FV_UINT QXL_NICS_ACCOUNT (caption (T_NICs db)) nrow = QXB_FV_UINT QXL_ACCOUNTS_N (caption (T_accounts db)) arow"
    and r: "\<lparr>UID = QXB_FV_UINT QXL_NICS_N (caption (T_NICs db)) nrow, n_ip_addr = QXB_FV_UINT QXL_NICS_IP (caption (T_NICs db)) nrow,
        n_mac = take 6 (QXB_FV_BIN QXL_NICS_MAC (caption (T_NICs db)) nrow)\<rparr> = r" unfolding unlinked_account_def by auto
  note s = z(1) [unfolded sizes_ok_def]
  from s read_taxes_runs obtain ts where 2: "read_taxes (caption (T_taxes db)) (MaxTaxes c) (fetched_rows (T_taxes db)) [] = Inr ts" by blast
  from s read_times_runs obtain tts where
    3: "read_times (caption (T_tax_times db)) (MaxTaxTimes c) hour (fetched_rows (T_tax_times db)) [] = Inr tts" by blast
  from s read_details_runs obtain k ts' where
    4: "read_details (caption (T_tax_details db)) (MaxTaxDetails c) tts (fetched_rows (T_tax_details db)) 0 ts = Inr (k, ts')" by blast
  have "0 \<notin> set (map tax_UID ts)" using read_taxes_UIDs [OF 2] z(3) by auto
  then have "0 \<notin> set (map tax_UID ts')" unfolding read_details_UIDs [OF 4] .
  then have 0: "uid_index 0 (map tax_UID ts') = None" by (rule uid_index_None)
  let ?uid = "QXB_FV_UINT QXL_ACCOUNTS_N (caption (T_accounts db)) arow"
  have 5: "read_accounts f (caption (T_accounts db)) (MaxAccounts c) ts' (fetched_rows (T_accounts db)) [] = Inr [\<lparr>acc_UID = ?uid, acc_tax = None\<rparr>]"
    using s a 0 by (simp add: Let_def)
  from add_nic_devctl [OF b m] obtain v b1 where 6: "qxc_rm_devctl QXC_ADD_NIC (nics_bytes r) b = Some (v, b1)" "bill_ok b1" "log b1 = log b"
    "nc_list (rules b1) = nc_list (rules b)" by blast
  have len: "16 \<le> length (nics_bytes r)" using m by (simp add: nics_bytes_def codec_simps)
  have 7: "ex_shadow (rules b1) = ex_shadow (rules b)" "interface b1 = interface b"
    using 6(1) len by (auto simp: qxc_rm_devctl_def rule_add_nic_def Let_def split: option.splits if_splits prod.splits)
  have 8: "map nic_rule (nc_shadow (rules b1)) = [r]" if "nc_shadow (rules b) = []" "0 < nc_limit (rules b)"
    using 6(1) len that by (auto simp: qxc_rm_devctl_def rule_add_nic_def Let_def nics_of_bytes m)
  let ?n = "\<lparr>nic_UID = QXB_FV_UINT QXL_NICS_N (caption (T_NICs db)) nrow, nic_account = Some 0, nrule = r\<rparr>"
  have 9: "read_NICs (caption (T_NICs db)) (MaxNICs c) [\<lparr>acc_UID = ?uid, acc_tax = None\<rparr>] (fetched_rows (T_NICs db)) [] b = Inr ([?n], b1)"
    using s n 6(1) by (simp add: Let_def r)
  have "read_tables f c hour db b = Inr (\<lparr>taxes = ts', accounts = [\<lparr>acc_UID = ?uid, acc_tax = None\<rparr>], NICs = [?n]\<rparr>, b1)"
    by (simp add: read_tables_def z(2) 2 3 4 5 9)
  with 6 7 8 show ?thesis by (intro exI conjI) (assumption | simp)+
qed

lemma swap_get_log_eq:
  "swap_get_log b = Inr (log_entries (log b), b\<lparr>log := snd (log_swap_log (log b)), rules := rule_swap_lists (rules b)\<rparr>)"
  by (simp add: swap_get_log_def shm_logs_def qxc_rm_devctl_def log_swap_log_def log_entries_def)

lemma round_before_charges:
  assumes "answers_ok e" "read_tables (fp e) c (tm_hour (localtime e now)) db b = Inr (g, b1)" "log_entries (log b1) = ps"
    "int (length ps) \<le> logpkts c"
  shows "\<exists>s'. qxl_round e c now log_time db (s, b) =
    bindl (charge_sessions e c (crnt s) (fold join_session ps []) s') (\<lambda>s. Inr (snd (ask e FlushLog (snd (ask e FlushAccounts s))),
      b1\<lparr>log := snd (log_swap_log (log b1)), rules := rule_swap_lists (rules b1)\<rparr>)) \<and> crnt s' = g"
proof -
  have f: "form_sessions (logpkts c) 0 ps [] = Inr (fold join_session ps [])" using assms(4) by (intro form_sessions_runs) simp_all
  define s1 where "s1 = s\<lparr>crnt := g, cycle := cycle s + 1\<rparr>"
  from change_log_table_runs [OF assms(1), of c log_time s1] obtain s2 where t: "change_log_table e c log_time s1 = Inr s2" "crnt s2 = crnt s1" by blast
  show ?thesis
    by (intro exI [of _ "s2\<lparr>log_row := (log_row s2)\<lparr>tlog_time := log_time\<rparr>\<rparr>"])
      (simp add: qxl_round_def assms(2) swap_get_log_eq assms(3) f t Let_def flip: s1_def, simp add: t s1_def)
qed

text \<open>The first round hands the rule of a card to the filter, and the next frame of this card waits in the log.\<close>

lemma first_frame_waits:
  assumes "qxc_init file junk e0 = Inr b0" "0 < log_limit (log b0)" "0 \<le> logpkts c" "answers_ok e"
    and 1: "read_tables (fp e) c (tm_hour (localtime e t1)) db b0 = Inr (g, b1)" "bill_ok b1" "log b1 = log b0" "ex_shadow (rules b1) = []"
      "interface b1 = interface b0" "map nic_rule (nc_shadow (rules b1)) = [r]"
    and "length j = 80" "np_load pkt = Frame frame" "same_interface pkt b0" "entry_of tocli j frame = Some p"
    and "n_mac r = l_mac p" "n_ip_addr r = IP_clnt p"
  shows "\<exists>s2 b3. money.run e c (Inr (s0, b0)) [Round t1 u1 db, Passing tocli j pkt] = Inr (s2, b3) \<and> crnt s2 = g \<and> bill_ok b3 \<and>
    log_entries (log b3) = [p]"
proof -
  have b0: "log_entries (log b0) = []" "active_count (log b0) = 0"
    using assms(1) by (auto simp: qxc_init_def log_init_def log_entries_def split: sum.splits option.splits if_splits)
  let ?b2 = "b1\<lparr>log := snd (log_swap_log (log b1)), rules := rule_swap_lists (rules b1)\<rparr>"
  from round_before_charges [OF assms(4) 1(1), of "[]" u1 s0] 1(3) b0(1) assms(3) obtain s1 where
    2: "qxl_round e c t1 u1 db (s0, b0) = Inr (snd (ask e FlushLog (snd (ask e FlushAccounts s1))), ?b2)" "crnt s1 = g" by auto
  define s2 where "s2 = snd (ask e FlushLog (snd (ask e FlushAccounts s1)))"
  have s2: "crnt s2 = g" by (simp add: s2_def ask_def 2(2))
  have b2: "bill_ok ?b2" using 1(2) by (simp add: bill_ok_def rule_swap_lists_def log_swap_log_def)
  have l: "listed (rules ?b2) p" using 1(6) assms(15,16) by (simp add: listed_def rule_swap_lists_def)
  have x: "rule_match_exempt (rules ?b2) p = 0" using 1(4) by (simp add: rule_match_exempt_def rule_swap_lists_def)
  have c: "active_count (log ?b2) = 0" "log_limit (log ?b2) = log_limit (log b0)" by (simp_all add: log_swap_log_def 1(3))
  from check_frame_cases [OF b2 assms(11), of tocli frame] obtain v l where
    3: "check_frame tocli j frame ?b2 = Some (v, ?b2\<lparr>log := l\<rparr>)" "active_count l \<le> log_limit l" "log_entries l = [p]"
    using assms(2) l x c by (auto simp: assms(14) Let_def log_entries_def)
  define b3 where "b3 = ?b2\<lparr>log := l\<rparr>"
  have b3: "bill_ok b3" using b2 3(2) by (simp add: b3_def bill_ok_def)
  have "same_interface pkt ?b2" using assms(13) by (simp add: same_interface_def 1(5))
  then have h: "handle_packet tocli j pkt ?b2 = Some (v, b3)"
    using assms(12) 3(1) by (cases tocli) (simp_all add: handle_packet_def qxc_rx_up_def qxc_rx_down_def b3_def)
  have "log_entries (log b3) = [p]" using 3(3) by (simp add: b3_def)
  with s2 b3 h 2(1) show ?thesis by (intro exI [of _ s2] exI [of _ b3]) (simp flip: s2_def)
qed

text \<open>An active account whose tax has the number 0, and a card of it: the card is handed to the filter, which lets
  its packets pass, and the round that fetches the first of them follows the null pointer to the tax.\<close>

theorem account_without_tax_stops_logger:
  assumes "qxc_init file junk e0 = Inr b0" "fresh_logger s0" "0 < log_limit (log b0)" "1 \<le> logpkts c" "0 < nc_limit (rules b0)"
    and "answers_ok e" "unlinked_account c (fp e) db r" "length (n_mac r) = 6"
    and "length j = 80" "np_load pkt = Frame frame" "same_interface pkt b0" "entry_of tocli j frame = Some p"
    and "n_mac r = l_mac p" "n_ip_addr r = IP_clnt p"
  shows "money.run e c (Inr (s0, b0)) [Round t1 u1 db, Passing tocli j pkt, Round t2 u2 db] = Inl (Fault NullPointer)"
proof -
  have b0: "bill_ok b0" "nc_shadow (rules b0) = []" "ex_shadow (rules b0) = []"
    using assms(1) by (auto simp: qxc_init_def log_init_def rule_init_lists_def bill_ok_def split: sum.splits option.splits if_splits)
  from read_unlinked [OF assms(7,8) b0(1), of "tm_hour (localtime e t1)"] b0(2,3) assms(5) obtain g b1 n where
    1: "read_tables (fp e) c (tm_hour (localtime e t1)) db b0 = Inr (g, b1)" "bill_ok b1" "log b1 = log b0" "ex_shadow (rules b1) = []"
      "interface b1 = interface b0" "map nic_rule (nc_shadow (rules b1)) = [r]"
    and g: "NICs g = [n]" "nrule n = r" "nic_account n = Some 0" "acc_tax (accounts g ! 0) = None" by auto
  have "0 \<le> logpkts c" using assms(4) by simp
  from first_frame_waits [OF assms(1,3) this assms(6) 1 assms(9-14)] obtain s2 b3 where
    3: "money.run e c (Inr (s0, b0)) [Round t1 u1 db, Passing tocli j pkt] = Inr (s2, b3)" "crnt s2 = g" "bill_ok b3" "log_entries (log b3) = [p]" by blast
  from read_unlinked [OF assms(7,8) 3(3), of "tm_hour (localtime e t2)"] obtain g' b4 where
    4: "read_tables (fp e) c (tm_hour (localtime e t2)) db b3 = Inr (g', b4)" "log b4 = log b3" by blast
  have "log_entries (log b4) = [p]" using 4(2) 3(4) by simp
  from round_before_charges [OF assms(6) 4(1) this, of u2 s2] assms(4) obtain s3 where
    5: "qxl_round e c t2 u2 db (s2, b3) = bindl (charge_sessions e c g [p] s3) (\<lambda>s. Inr (snd (ask e FlushLog (snd (ask e FlushAccounts s))),
      b4\<lparr>log := snd (log_swap_log (log b4)), rules := rule_swap_lists (rules b4)\<rparr>))" by (auto simp: 3(2))
  have "find (nic_matches p) (NICs g) = Some n" using g(1,2) assms(13,14) by (simp add: nic_matches_def)
  then have "charge_sessions e c g [p] s3 = Inl (Fault NullPointer)" using g(3,4) by (simp add: charge_session_def Let_def)
  with 5 have "qxl_round e c t2 u2 db (s2, b3) = Inl (Fault NullPointer)" by simp
  then show ?thesis using money.run_append [of e c "Inr (s0, b0)" "[Round t1 u1 db, Passing tocli j pkt]" "[Round t2 u2 db]"] 3(1) by simp
qed

text \<open>A table all of whose columns lie at the beginning of the row, with rows of zeros.\<close>

definition zero_table :: "bytes list \<Rightarrow> qtable" where
  "zero_table rows = \<lparr>caption = replicate 200 0, fetched_rows = rows\<rparr>"

definition an_unlinked_account :: qxl_tables where
  "an_unlinked_account = \<lparr>T_tax_exempt = zero_table [], T_taxes = zero_table [], T_tax_times = zero_table [], T_tax_details = zero_table [],
     T_accounts = zero_table [replicate 8 0], T_NICs = zero_table [replicate 8 0]\<rparr>"

lemma zero_fields: "k < 10 \<Longrightarrow> QXB_FV_UINT k (replicate 200 0) (replicate 8 0) = 0" "k < 10 \<Longrightarrow> QXB_FV_BIN k (replicate 200 0) (replicate 8 0) = replicate 8 0"
  by (simp_all add: QXB_FV_UINT_def QXB_FV_BIN_def fd_Offset_def get32_def)

definition zero_rule :: qx_rule_nics where
  "zero_rule = \<lparr>UID = 0, n_ip_addr = 0, n_mac = replicate 6 0\<rparr>"

lemma an_account_is_unlinked: "unlinked_account qxl_defaults (fp an_env) an_unlinked_account zero_rule"
  by (simp add: unlinked_account_def an_env_ok an_unlinked_account_def zero_table_def zero_rule_def zero_fields QXL_ACCOUNTS_TAX_def
      QXL_ACCOUNTS_N_def QXL_NICS_ACCOUNT_def QXL_NICS_N_def QXL_NICS_IP_def QXL_NICS_MAC_def an_env_def plain_fpu_def)

definition zero_entry :: qx_log where
  "zero_entry = \<lparr>l_mac = replicate 6 0, DLC_proto = 0, IP_clnt = 0, IP_host = 0, IP_proto = 0, Port_clnt = 0, Port_host = 0,
     bytes_to_cli = 0, bytes_to_host = 20\<rparr>"

lemma zero_frame: "entry_of False (replicate 80 0) (replicate 20 0) = Some zero_entry"
proof -
  have "raw_packet (replicate 80 0) (replicate 20 0) = replicate 80 0" by (simp add: raw_packet_def PKT_LOG_LEN_def flip: replicate_add)
  then show ?thesis
    by (simp add: entry_of_def log_parse_pkt_def Let_def set_bytes_def PKT_LOG_LEN_def PROTO_DLC_IPv4_def get16_def zero_entry_def)
qed

theorem account_without_tax_stops_logger_witness:
  "\<exists>b0. qxc_init (Some []) [] a_start = Inr b0 \<and>
     money.run an_env qxl_defaults (Inr (a_logger, b0)) [Round 0 0 an_unlinked_account,
       Passing False (replicate 80 0) \<lparr>np_load = Frame (replicate 20 0), np_cell = 0, np_endpoint = 0, np_iface = 0\<rparr>,
       Round 0 0 an_unlinked_account] = Inl (Fault NullPointer)"
proof -
  let ?pkt = "\<lparr>np_load = Frame (replicate 20 0), np_cell = 0, np_endpoint = 0, np_iface = 0\<rparr>"
  from a_filter_starts obtain b0 where b0: "qxc_init (Some []) [] a_start = Inr b0" "log_limit (log b0) = 1000" "nc_limit (rules b0) = 10" by blast
  have s: "same_interface ?pkt b0" using b0(1) by (auto simp: same_interface_def qxc_init_def split: sum.splits option.splits if_splits)
  have "money.run an_env qxl_defaults (Inr (a_logger, b0)) [Round 0 0 an_unlinked_account, Passing False (replicate 80 0) ?pkt,
      Round 0 0 an_unlinked_account] = Inl (Fault NullPointer)"
    by (rule account_without_tax_stops_logger [OF b0(1) an_env_ok(3) _ _ _ an_env_ok(1) an_account_is_unlinked _ _ _ s zero_frame])
      (simp_all add: b0 qxl_defaults_def zero_rule_def zero_entry_def)
  with b0(1) show ?thesis by blast
qed

section \<open>A card whose traffic is charged\<close>

text \<open>One tax, one account and one card, all with the number 0x01010101, and a frame of the card.\<close>

definition a_linked_account :: qxl_tables where
  "a_linked_account = \<lparr>T_tax_exempt = zero_table [], T_taxes = zero_table [replicate 8 1], T_tax_times = zero_table [], T_tax_details = zero_table [],
     T_accounts = zero_table [replicate 8 1], T_NICs = zero_table [replicate 8 1]\<rparr>"

definition ones_rule :: qx_rule_nics where
  "ones_rule = \<lparr>UID = 0x01010101, n_ip_addr = 0x01010101, n_mac = replicate 6 1\<rparr>"

definition ones_frame :: bytes where
  "ones_frame = [9, 9, 9, 9, 9, 9, 1, 1, 1, 1, 1, 1, 8, 0, 0x45, 0, 0, 20, 0, 0, 0, 0, 64, 1, 0, 0, 1, 1, 1, 1, 9, 0, 0, 0]"

definition ones_entry :: qx_log where
  "ones_entry = \<lparr>l_mac = replicate 6 1, DLC_proto = 8, IP_clnt = 0x01010101, IP_host = 9, IP_proto = 1, Port_clnt = 0, Port_host = 0,
     bytes_to_cli = 0, bytes_to_host = 34\<rparr>"

lemma ones_fields: "k < 10 \<Longrightarrow> QXB_FV_UINT k (replicate 200 0) (replicate 8 1) = 0x01010101"
  "k < 10 \<Longrightarrow> QXB_FV_BIN k (replicate 200 0) (replicate 8 1) = replicate 8 1"
  by (simp_all add: QXB_FV_UINT_def QXB_FV_BIN_def fd_Offset_def get32_def)

lemma six_ones: "[1, 1, 1, 1, 1, 1] = replicate 6 (1 :: byte)"
  by (simp add: numeral_eq_Suc)

lemma ones_frame_entry: "entry_of False (replicate 80 0) ones_frame = Some ones_entry"
  by (simp add: entry_of_def raw_packet_def ones_frame_def PKT_LOG_LEN_def log_parse_pkt_def Let_def set_bytes_def PROTO_DLC_IPv4_def
      get16_def get32_def parse_addresses_def is_tcp_udp_def PROTO_IPv4_TCP_def PROTO_IPv4_UDP_def ones_entry_def six_ones)

lemma read_linked_account:
  assumes b: "bill_ok b" "nc_shadow (rules b) = []" "ex_shadow (rules b) = []" "0 < nc_limit (rules b)"
  shows "\<exists>g b'. read_tables plain_fpu qxl_defaults hour a_linked_account b = Inr (g, b') \<and> bill_ok b' \<and> log b' = log b \<and>
    ex_shadow (rules b') = [] \<and> interface b' = interface b \<and> map nic_rule (nc_shadow (rules b')) = [ones_rule]"
proof -
  have m: "length (n_mac ones_rule) = 6" by (simp add: ones_rule_def)
  have len: "16 \<le> length (nics_bytes ones_rule)" using m by (simp add: nics_bytes_def codec_simps)
  from add_nic_devctl [OF b(1) m] obtain v b1 where 6: "qxc_rm_devctl QXC_ADD_NIC (nics_bytes ones_rule) b = Some (v, b1)" "bill_ok b1"
    "log b1 = log b" by blast
  have 7: "ex_shadow (rules b1) = []" "interface b1 = interface b"
    using 6(1) len b(3) by (auto simp: qxc_rm_devctl_def rule_add_nic_def Let_def split: option.splits if_splits prod.splits)
  have 8: "map nic_rule (nc_shadow (rules b1)) = [ones_rule]"
    using 6(1) len b(2,4) by (auto simp: qxc_rm_devctl_def rule_add_nic_def Let_def nics_of_bytes m)
  have "\<exists>g. read_tables plain_fpu qxl_defaults hour a_linked_account b = Inr (g, b1)" (is "\<exists>g. ?read g")
    by (simp add: read_tables_def a_linked_account_def zero_table_def qxl_defaults_def plain_fpu_def Let_def ones_fields QXL_TAXES_N_def
        QXL_ACCOUNTS_TAX_def QXL_ACCOUNTS_N_def QXL_NICS_ACCOUNT_def QXL_NICS_N_def QXL_NICS_IP_def QXL_NICS_MAC_def
        6(1) [unfolded ones_rule_def])
  then obtain g where "?read g" ..
  with 6(2,3) 7 8 show ?thesis by (intro exI [of _ g] exI [of _ b1] conjI)
qed

theorem round_charges_every_session_witness:
  "\<exists>b0 s b s' b' row. let es = [Round 0 0 a_linked_account,
       Passing False (replicate 80 0) \<lparr>np_load = Frame ones_frame, np_cell = 0, np_endpoint = 0, np_iface = 0\<rparr>] in
     qxc_init (Some []) [] a_start = Inr b0 \<and> money.run an_env qxl_defaults (Inr (a_logger, b0)) es = Inr (s, b) \<and>
     log_entries (log b) = [ones_entry] \<and>
     money.run an_env qxl_defaults (Inr (a_logger, b0)) (es @ [Round 0 0 a_linked_account]) = Inr (s', b') \<and>
     row_of_session an_env qxl_defaults (crnt s) 0 ones_entry row \<and>
     fst (settle (answer an_env) [] (calls s') ([], new_book)) = fst (settle (answer an_env) [] (calls s) ([], new_book)) @ [row] \<and>
     postings (snd (settle (answer an_env) [] (calls s') ([], new_book))) =
       postings (snd (settle (answer an_env) [] (calls s) ([], new_book))) @ [(tlog_accpay row, Taken (plus_dbl (fp an_env) (tlog_stocli row) (tlog_stohst row)))]"
proof -
  let ?pkt = "\<lparr>np_load = Frame ones_frame, np_cell = 0, np_endpoint = 0, np_iface = 0\<rparr>"
  let ?es = "[Round 0 0 a_linked_account, Passing False (replicate 80 0) ?pkt]"
  from a_filter_starts obtain b0 where b0: "qxc_init (Some []) [] a_start = Inr b0" "log_limit (log b0) = 1000" "nc_limit (rules b0) = 10" by blast
  then have f: "bill_ok b0" "nc_shadow (rules b0) = []" "ex_shadow (rules b0) = []" "0 < nc_limit (rules b0)" "same_interface ?pkt b0"
    by (auto simp: qxc_init_def log_init_def rule_init_lists_def bill_ok_def same_interface_def split: sum.splits option.splits if_splits)
  have fp: "fp an_env = plain_fpu" by (simp add: an_env_def)
  from read_linked_account [OF f(1-4), of "tm_hour (localtime an_env 0)"] obtain g b1 where
    1: "read_tables (fp an_env) qxl_defaults (tm_hour (localtime an_env 0)) a_linked_account b0 = Inr (g, b1)" "bill_ok b1" "log b1 = log b0"
      "ex_shadow (rules b1) = []" "interface b1 = interface b0" "map nic_rule (nc_shadow (rules b1)) = [ones_rule]" by (auto simp: fp)
  have c: "0 < log_limit (log b0)" "0 \<le> logpkts qxl_defaults" "int (log_limit (log b0)) \<le> logpkts qxl_defaults"
    "n_mac ones_rule = l_mac ones_entry" "n_ip_addr ones_rule = IP_clnt ones_entry" "length (replicate 80 0) = (80 :: nat)"
    "np_load ?pkt = Frame ones_frame" by (simp_all add: b0(2) qxl_defaults_def ones_rule_def ones_entry_def)
  from first_frame_waits [OF b0(1) c(1,2) an_env_ok(1) 1 c(6,7) f(5) ones_frame_entry c(4,5), of a_logger 0] obtain s b where
    2: "money.run an_env qxl_defaults (Inr (a_logger, b0)) ?es = Inr (s, b)" "log_entries (log b) = [ones_entry]" by blast
  have l: "rows_linked a_linked_account"
    by (simp add: rows_linked_def a_linked_account_def zero_table_def ones_fields QXL_ACCOUNTS_TAX_def QXL_NICS_ACCOUNT_def QXL_NICS_MAC_def)
  then have ok: "money.run_ok an_env qxl_defaults (Inr (a_logger, b0)) ?es" by simp
  from round_charges_every_session [OF b0(1) an_env_ok(3) c(3) an_env_ok(1,2) ok l, of 0 0 new_book] obtain s1 b1 s' b' ss new where
    r: "money.run an_env qxl_defaults (Inr (a_logger, b0)) ?es = Inr (s1, b1)"
      "money.run an_env qxl_defaults (Inr (a_logger, b0)) (?es @ [Round 0 0 a_linked_account]) = Inr (s', b')"
      "form_sessions (logpkts qxl_defaults) 0 (log_entries (log b1)) [] = Inr ss"
      "list_all2 (row_of_session an_env qxl_defaults (crnt s1) 0) ss new"
      "let (rows, bk) = settle (answer an_env) [] (calls s1) ([], new_book); (rows', bk') = settle (answer an_env) [] (calls s') ([], new_book)
       in rows' = rows @ new \<and>
         postings bk' = postings bk @ map (\<lambda>row. (tlog_accpay row, Taken (plus_dbl (fp an_env) (tlog_stocli row) (tlog_stohst row)))) new"
    by blast
  have same: "s1 = s" "b1 = b" using r(1) unfolding 2(1) by simp_all
  note 3 = r(2) r(3,4) [unfolded same] r(5) [unfolded same]
  have "ss = [ones_entry]" using 3(2) by (simp add: 2(2) qxl_defaults_def Let_def)
  with 3(3) obtain row where "new = [row]" "row_of_session an_env qxl_defaults (crnt s) 0 ones_entry row" by (auto simp: list_all2_Cons1)
  with b0(1) 2 3(1,4) show ?thesis unfolding Let_def by (intro exI conjI) (assumption | simp add: split_beta)+
qed

end
