(* ===== verification/BillDaily.thy ===== *)
theory BillDaily
  imports BillMoney QBaseTables
begin

text \<open>
  The start of the logger (\<open>QX-billing/qxl_main.c\<close>, \<open>main\<close> before its loop), and \<open>qxl_eod.c\<close>, the thread that
  takes the daily part of the monthly taxes. The start is the list of its calls in order; each of them ends the program
  when it fails.
\<close>

section \<open>Start\<close>

text \<open>The connections are named as in the code.\<close>

datatype conn = T_exempt | T_tax | T_details | T_times | T_acc | T_updacc | T_nics | T_logs | TU_taxes | TU_accounts | TU_updacc | TU_payments

datatype compare = Q_CMP_G | Q_CMP_EQ

datatype start_call =
    Qconnect conn
  | Select conn string
  | Caps conn
  | PushFilter conn compare nat u32
  | UpdateHeader conn
  | OpenDevice string
  | ShmOpen string
  | MapLog nat int

definition connect_calls :: "start_call list" where
  "connect_calls = map Qconnect [T_exempt, T_tax, T_details, T_times, T_acc, T_updacc, T_nics, T_logs]"

definition select_tax_calls :: "start_call list" where
  "select_tax_calls =
     [Select T_exempt ''tax_exempt'', Caps T_exempt, PushFilter T_exempt Q_CMP_G QXL_TAX_EXEMPT_ACTIVE 0,
      Select T_tax ''taxes'', Caps T_tax, PushFilter T_tax Q_CMP_EQ QXL_TAXES_ACTIVE 1,
      Select T_details ''tax_details'', Caps T_details, PushFilter T_details Q_CMP_EQ QXL_TAXDETAILS_ACTIVE 1,
      Select T_times ''tax_times'', Caps T_times, PushFilter T_times Q_CMP_EQ QXL_TAXTIMES_ACTIVE 1]"

definition select_client_calls :: "start_call list" where
  "select_client_calls =
     [Select T_acc ''accounts'', Caps T_acc, PushFilter T_acc Q_CMP_EQ QXL_ACCOUNTS_ACTIVE 1,
      Select T_updacc ''accounts'', UpdateHeader T_updacc,
      Select T_nics ''NICs'', Caps T_nics, PushFilter T_nics Q_CMP_EQ QXL_NICS_ACTIVE 1]"

definition QXL_LOG_FCOUNT :: nat where "QXL_LOG_FCOUNT = 14"
definition QXL_LOG_PCOUNT :: nat where "QXL_LOG_PCOUNT = 5"

text \<open>The types of the columns of the log, from the first on.\<close>

definition log_columns :: "(nat \<times> nat) list" where
  "log_columns =
     [(QBASE_TYPE_UINT, 0), (QBASE_TYPE_UINT, 0), (QBASE_TYPE_BINARY, 6), (QBASE_TYPE_UINT16, 0), (QBASE_TYPE_UINT, 0), (QBASE_TYPE_UINT, 0),
      (QBASE_TYPE_UINT16, 0), (QBASE_TYPE_UINT16, 0), (QBASE_TYPE_UINT16, 0), (QBASE_TYPE_UINT, 0), (QBASE_TYPE_UINT, 0),
      (QBASE_TYPE_DOUBLE, 0), (QBASE_TYPE_DOUBLE, 0), (QBASE_TYPE_UINT, 0)]"

definition log_table_desc :: "bool \<Rightarrow> int \<Rightarrow> desc outcome" where
  "log_table_desc mem_ok rows =
     bindo (Qbase_new_tbldesc mem_ok QXL_LOG_FCOUNT (nat (rows mod 4294967296)) QXL_LOG_PCOUNT (bytes_of ''log'')) (\<lambda>r.
       case r of None \<Rightarrow> Crash NullPointer | Some d \<Rightarrow> set_columns log_columns 1 d)"

definition device_calls :: "qxl_conf \<Rightarrow> start_call list" where
  "device_calls c = [OpenDevice (ql_device c), ShmOpen ''/dev/qxc_log0'', MapLog 0 (logpkts c), ShmOpen ''/dev/qxc_log1'', MapLog 1 (logpkts c)]"

text \<open>The first comparison of dates is with the first of January 1970.\<close>

definition qxl_start :: "(start_call \<Rightarrow> bool) \<Rightarrow> bool \<Rightarrow> (u32 \<Rightarrow> clock) \<Rightarrow> log_record \<Rightarrow> string option \<Rightarrow> string \<Rightarrow> (qxl_conf \<times> desc \<times> logger) logged" where
  "qxl_start ok mem_ok lt row file junk =
     (case qxl_parse_config file junk of
        Inl x \<Rightarrow> Inl ExitProgram
      | Inr c \<Rightarrow>
          if \<not> list_all ok (connect_calls @ select_tax_calls @ select_client_calls) then Inl ExitProgram
          else (case log_table_desc mem_ok (nTblRows c) of
              Crash x \<Rightarrow> Inl (Fault x)
            | Ok d \<Rightarrow>
                if \<not> list_all ok (device_calls c) then Inl ExitProgram
                else Inr (c, d, \<lparr>crnt = \<lparr>taxes = [], accounts = [], NICs = []\<rparr>, log_row = row, log_t_tm = lt 0, log_t_time = 0,
                  cycle = 0, calls = []\<rparr>)))"

section \<open>The end of a day\<close>

definition eod_start_calls :: "start_call list" where
  "eod_start_calls =
     map Qconnect [TU_taxes, TU_accounts, TU_updacc, TU_payments] @
     [Select TU_taxes ''taxes'', Caps TU_taxes, Select TU_accounts ''accounts'', Select TU_updacc ''accounts'', Caps TU_accounts,
      UpdateHeader TU_updacc, Select TU_payments ''payments'', Caps TU_payments]"

definition mon_day :: "int list" where
  "mon_day = [31, 28, 31, 30, 31, 30, 31, 31, 30, 31, 30, 31]"

record payment =
  pay_account :: u32
  pay_sum :: dbl
  pay_date :: u32
  pay_desc :: bytes

datatype eod_call = EODSeek u32 | EODSubtract dbl | EODPayment payment | FlushPayments | FlushUpdacc

text \<open>Failures of these calls are only printed.\<close>

fun charge_accounts :: "fpu \<Rightarrow> desc \<Rightarrow> u32 \<Rightarrow> dbl \<Rightarrow> u32 \<Rightarrow> bytes \<Rightarrow> bytes list \<Rightarrow> eod_call list" where
  "charge_accounts f tc TID amount date descr [] = []"
| "charge_accounts f tc TID amount date descr (row # rows) =
     (let AID = QXB_FV_UINT QXL_ACCOUNTS_N tc row in
      if TID = QXB_FV_UINT QXL_ACCOUNTS_TAX tc row
      then [EODSeek AID, EODSubtract amount,
            EODPayment \<lparr>pay_account = AID, pay_sum = minus_dbl f amount, pay_date = date, pay_desc = descr\<rparr>] else [])
     @ charge_accounts f tc TID amount date descr rows"

text \<open>The accounts are read again for every tax.\<close>

fun charge_taxes :: "fpu \<Rightarrow> desc \<Rightarrow> desc \<Rightarrow> (nat \<Rightarrow> bytes list) \<Rightarrow> dbl \<Rightarrow> u32 \<Rightarrow> bytes \<Rightarrow> nat \<Rightarrow> bytes list \<Rightarrow> eod_call list" where
  "charge_taxes f ttc atc accs days date descr k [] = []"
| "charge_taxes f ttc atc accs days date descr k (row # rows) =
     (let TID = QXB_FV_UINT QXL_TAXES_N ttc row; montax = QXB_FV_DBL QXL_TAXES_MONTAX ttc row in
      if is_zero f montax then charge_taxes f ttc atc accs days date descr k rows
      else charge_accounts f atc TID (divided f montax days) date descr (accs k) @ [FlushPayments, FlushUpdacc] @
        charge_taxes f ttc atc accs days date descr (Suc k) rows)"

definition pay_text :: "bytes \<Rightarrow> bytes" where
  "pay_text name = take 254 (bytes_of ''Monthly tax. (payment for '' @ name @ bytes_of '')'')"

definition end_of_day :: "qxl_env \<Rightarrow> desc \<Rightarrow> desc \<Rightarrow> bytes list \<Rightarrow> (nat \<Rightarrow> bytes list) \<Rightarrow> logger \<Rightarrow> eod_call list" where
  "end_of_day e ttc atc tax_rows accs s =
     charge_taxes (fp e) ttc atc accs (dbl_of (fp e) (mon_day ! tm_mon (log_t_tm s))) (log_t_time s)
       (pay_text (date_name e (log_t_tm s))) 0 tax_rows"

definition EOD_func :: "(start_call \<Rightarrow> bool) \<Rightarrow> qxl_env \<Rightarrow> desc \<Rightarrow> desc \<Rightarrow> (bytes list \<times> (nat \<Rightarrow> bytes list) \<times> logger) list \<Rightarrow> eod_call list logged" where
  "EOD_func ok e ttc atc signals =
     (if list_all ok eod_start_calls then Inr (concat (map (\<lambda>(tax_rows, accs, s). end_of_day e ttc atc tax_rows accs s) signals))
      else Inl ExitProgram)"

section \<open>Every account pays once a day\<close>

text \<open>The effect of the calls, none of which is refused, on the table of payments and on the sums of the accounts.\<close>

fun eod_effect :: "eod_call \<Rightarrow> payment list \<times> book \<Rightarrow> payment list \<times> book" where
  "eod_effect (EODSeek u) (ps, bk) = (ps, seek_row u bk)"
| "eod_effect (EODSubtract d) (ps, bk) = (ps, post (Taken d) bk)"
| "eod_effect (EODPayment p) (ps, bk) = (ps @ [p], bk)"
| "eod_effect FlushPayments db = db"
| "eod_effect FlushUpdacc db = db"

text \<open>What the calls do when the accounts that pay the tax are \<open>uids\<close>.\<close>

definition collected :: "fpu \<Rightarrow> dbl \<Rightarrow> u32 \<Rightarrow> bytes \<Rightarrow> u32 list \<Rightarrow> payment list \<times> book \<Rightarrow> payment list \<times> book \<Rightarrow> bool" where
  "collected f amount date descr uids db db' \<longleftrightarrow>
     fst db' = fst db @ map (\<lambda>u. \<lparr>pay_account = u, pay_sum = minus_dbl f amount, pay_date = date, pay_desc = descr\<rparr>) uids \<and>
     postings (snd db') = postings (snd db) @ map (\<lambda>u. (u, Taken amount)) uids"

text \<open>Number and tax of an account.\<close>

definition account_key :: "desc \<Rightarrow> bytes \<Rightarrow> u32 \<times> u32" where
  "account_key tc row = (QXB_FV_UINT QXL_ACCOUNTS_N tc row, QXB_FV_UINT QXL_ACCOUNTS_TAX tc row)"

definition payers :: "u32 \<Rightarrow> (u32 \<times> u32) list \<Rightarrow> u32 list" where
  "payers TID accs = map fst (filter (\<lambda>a. snd a = TID) accs)"

lemma charge_accounts_collected:
  "collected f amount date descr (payers TID (map (account_key tc) rows)) db (fold eod_effect (charge_accounts f tc TID amount date descr rows) db)"
proof (induction rows arbitrary: db)
  case (Cons row rows)
  obtain ps bk where db: "db = (ps, bk)" by fastforce
  show ?case
  proof (cases "TID = QXB_FV_UINT QXL_ACCOUNTS_TAX tc row")
    case True
    then show ?thesis
      using Cons.IH [of "(ps @ [\<lparr>pay_account = QXB_FV_UINT QXL_ACCOUNTS_N tc row, pay_sum = minus_dbl f amount, pay_date = date, pay_desc = descr\<rparr>],
        post (Taken amount) (seek_row (QXB_FV_UINT QXL_ACCOUNTS_N tc row) bk))"]
      by (simp add: db Let_def collected_def payers_def account_key_def)
  next
    case False
    then show ?thesis using Cons.IH [of db] by (simp add: Let_def payers_def account_key_def)
  qed
qed (simp add: collected_def payers_def)

text \<open>What one account pays, as the tax table has it.\<close>

definition daily_part :: "fpu \<Rightarrow> desc \<Rightarrow> dbl \<Rightarrow> bytes list \<Rightarrow> u32 \<Rightarrow> dbl list" where
  "daily_part f ttc days tax_rows tax =
     (case find (\<lambda>t. QXB_FV_UINT QXL_TAXES_N ttc t = tax) tax_rows of
        Some t \<Rightarrow> let fee = QXB_FV_DBL QXL_TAXES_MONTAX ttc t in if is_zero f fee then [] else [divided f fee days]
      | None \<Rightarrow> [])"

text \<open>The payments and the amounts of one account.\<close>

definition payments_of :: "u32 \<Rightarrow> payment list \<Rightarrow> payment list" where
  "payments_of uid ps = filter (\<lambda>p. pay_account p = uid) ps"

definition settled :: "fpu \<Rightarrow> u32 \<Rightarrow> bytes \<Rightarrow> u32 \<Rightarrow> dbl list \<Rightarrow> payment list \<times> book \<Rightarrow> payment list \<times> book \<Rightarrow> bool" where
  "settled f date descr uid amounts db db' \<longleftrightarrow>
     payments_of uid (fst db') = payments_of uid (fst db) @
       map (\<lambda>d. \<lparr>pay_account = uid, pay_sum = minus_dbl f d, pay_date = date, pay_desc = descr\<rparr>) amounts \<and>
     of_account uid (snd db') = of_account uid (snd db) @ map Taken amounts"

lemma settled_Nil [simp]: "settled f date descr uid [] db db"
  by (simp add: settled_def)

lemma settled_trans: "settled f date descr uid xs db db1 \<Longrightarrow> settled f date descr uid ys db1 db2 \<Longrightarrow> settled f date descr uid (xs @ ys) db db2"
  by (simp add: settled_def)

lemma collected_settled:
  assumes "collected f amount date descr uids db db'" "distinct uids"
  shows "settled f date descr uid (if uid \<in> set uids then [amount] else []) db db'"
proof -
  have "filter (\<lambda>u. u = uid) uids = (if uid \<in> set uids then [uid] else [])"
    using assms(2) by (induction uids) (auto simp: filter_empty_conv)
  then show ?thesis using assms(1)
    by (auto simp: collected_def settled_def payments_of_def of_account_def filter_map o_def)
qed

lemma flush_effect [simp]: "fold eod_effect (cs @ [FlushPayments, FlushUpdacc] @ ds) db = fold eod_effect ds (fold eod_effect cs db)"
  by simp

lemma payers_mem: "distinct (map fst accs) \<Longrightarrow> (uid, tax) \<in> set accs \<Longrightarrow> uid \<in> set (payers TID accs) \<longleftrightarrow> TID = tax"
  by (force simp: payers_def distinct_map inj_on_def)

lemma payers_distinct: "distinct (map fst accs) \<Longrightarrow> distinct (payers TID accs)"
  by (auto simp: payers_def distinct_map inj_on_def)

lemma charge_taxes_settled:
  assumes "\<forall>k. map (account_key atc) (accs k) = keys" "distinct (map fst keys)" "(uid, tax) \<in> set keys"
    and "distinct (map (QXB_FV_UINT QXL_TAXES_N ttc) ts)"
  shows "settled f date descr uid (daily_part f ttc days ts tax) db (fold eod_effect (charge_taxes f ttc atc accs days date descr k ts) db)"
  using assms(4)
proof (induction ts arbitrary: k db)
  case (Cons t ts)
  let ?TID = "QXB_FV_UINT QXL_TAXES_N ttc t" and ?fee = "QXB_FV_DBL QXL_TAXES_MONTAX ttc t"
  have rest: "find (\<lambda>t. QXB_FV_UINT QXL_TAXES_N ttc t = tax) ts = None" if "?TID = tax"
    using Cons.prems that by (auto simp: find_None_iff image_iff)
  have part: "daily_part f ttc days (t # ts) tax =
      (if ?TID = tax \<and> \<not> is_zero f ?fee then [divided f ?fee days] else []) @ daily_part f ttc days ts tax"
    using rest by (auto simp: daily_part_def Let_def)
  have d: "distinct (map (QXB_FV_UINT QXL_TAXES_N ttc) ts)" using Cons.prems by simp
  show ?case
  proof (cases "is_zero f ?fee")
    case True
    with part Cons.IH [OF d] show ?thesis by (simp add: Let_def)
  next
    case False
    let ?cs = "charge_accounts f atc ?TID (divided f ?fee days) date descr (accs k)"
    have "collected f (divided f ?fee days) date descr (payers ?TID keys) db (fold eod_effect ?cs db)"
      using charge_accounts_collected [of f "divided f ?fee days" date descr ?TID atc "accs k" db] assms(1) by simp
    from collected_settled [OF this payers_distinct [OF assms(2)], of uid] payers_mem [OF assms(2,3), of ?TID]
    have 1: "settled f date descr uid (if ?TID = tax then [divided f ?fee days] else []) db (fold eod_effect ?cs db)" by simp
    have "fold eod_effect (charge_taxes f ttc atc accs days date descr k (t # ts)) db =
        fold eod_effect (charge_taxes f ttc atc accs days date descr (Suc k) ts) (fold eod_effect ?cs db)"
      using False by (simp add: Let_def)
    with settled_trans [OF 1 Cons.IH [OF d, where k = "Suc k" and db = "fold eod_effect ?cs db"]] part False show ?thesis by simp
  qed
qed (simp add: daily_part_def)

text \<open>C26: At the end of a day, for every account: when there is a tax with the number the account has, and its
  monthly fee is not zero, then this fee divided by the days of the month is taken from the sum of this account, once,
  and the payments get one row for it with the negative amount, the date and the text; otherwise the account keeps its sum and gets no
  row. The conditions: the numbers of the accounts and those of the taxes are distinct, nobody adds or removes accounts or changes
  their taxes while they are read again for each tax (their sums may change, and do), and the database accepts the calls (their
  failures are only printed).\<close>

theorem account_pays_daily_part:
  assumes "\<forall>k. map (\<lambda>row. (QXB_FV_UINT QXL_ACCOUNTS_N atc row, QXB_FV_UINT QXL_ACCOUNTS_TAX atc row)) (accs k) = keys"
    and "distinct (map fst keys)" "distinct (map (QXB_FV_UINT QXL_TAXES_N ttc) tax_rows)" "(uid, tax) \<in> set keys"
  shows "let (ps', bk') = fold eod_effect (end_of_day e ttc atc tax_rows accs s) (ps, bk);
       amounts = (case find (\<lambda>t. QXB_FV_UINT QXL_TAXES_N ttc t = tax) tax_rows of
          None \<Rightarrow> []
        | Some t \<Rightarrow> let fee = QXB_FV_DBL QXL_TAXES_MONTAX ttc t in
            if is_zero (fp e) fee then [] else [divided (fp e) fee (dbl_of (fp e) (mon_day ! tm_mon (log_t_tm s)))])
     in of_account uid bk' = of_account uid bk @ map Taken amounts \<and>
       payments_of uid ps' = payments_of uid ps @ map (\<lambda>d. \<lparr>pay_account = uid, pay_sum = minus_dbl (fp e) d, pay_date = log_t_time s,
         pay_desc = pay_text (date_name e (log_t_tm s))\<rparr>) amounts"
proof -
  have "\<forall>k. map (account_key atc) (accs k) = keys" using assms(1) by (simp add: account_key_def [abs_def])
  from charge_taxes_settled [OF this assms(2,4,3), of "fp e" "log_t_time s" "pay_text (date_name e (log_t_tm s))"
      "dbl_of (fp e) (mon_day ! tm_mon (log_t_tm s))" "(ps, bk)" 0]
  show ?thesis by (simp add: settled_def end_of_day_def daily_part_def Let_def split_beta del: split_paired_All)
qed

theorem account_pays_daily_part_witness:
  "\<exists>ps' bk'. fold eod_effect (end_of_day an_env (replicate 200 0) (replicate 200 0) [replicate 8 0] (\<lambda>k. [replicate 8 0]) a_logger)
       ([], \<lparr>current = None, postings = []\<rparr>) = (ps', bk') \<and>
     of_account 0 bk' = [Taken (replicate 8 0)] \<and> map pay_sum (payments_of 0 ps') = [replicate 8 0]"
proof -
  have f: "QXB_FV_DBL QXL_TAXES_MONTAX (replicate 200 0) (replicate 8 0) = replicate 8 0"
    by (simp add: QXB_FV_DBL_def QXL_TAXES_MONTAX_def fd_Offset_def get32_def)
  have z: "QXB_FV_UINT QXL_ACCOUNTS_N (replicate 200 0) (replicate 8 0) = 0" "QXB_FV_UINT QXL_ACCOUNTS_TAX (replicate 200 0) (replicate 8 0) = 0"
    "QXB_FV_UINT QXL_TAXES_N (replicate 200 0) (replicate 8 0) = 0"
    by (simp_all add: QXL_ACCOUNTS_N_def QXL_ACCOUNTS_TAX_def QXL_TAXES_N_def zero_fields)
  obtain ps' bk' where r: "fold eod_effect (end_of_day an_env (replicate 200 0) (replicate 200 0) [replicate 8 0] (\<lambda>k. [replicate 8 0]) a_logger)
       ([], \<lparr>current = None, postings = []\<rparr>) = (ps', bk')" by fastforce
  have p: "\<not> is_zero (fp an_env) d" "divided (fp an_env) d d' = d" "minus_dbl (fp an_env) d = d" for d d'
    by (simp_all add: an_env_def plain_fpu_def)
  from account_pays_daily_part [of "replicate 200 0" "\<lambda>k. [replicate 8 0]" "[(0, 0)]" "replicate 200 0" "[replicate 8 0]" 0 0 an_env a_logger
      "[]" "\<lparr>current = None, postings = []\<rparr>"] r
  show ?thesis by (simp add: z f p of_account_def payments_of_def)
qed

section \<open>The columns of the log\<close>

text \<open>The logger describes its log table as a key and fourteen columns of these types, one after the
  other without gaps or overlaps in a row of 62 bytes.\<close>

lemma log_columns_laid_out:
  "\<exists>d. log_table_desc True rows = Ok d \<and> FieldNum d = 15 \<and> map (fd_Type d) [1..<15] = [0, 0, 6, 2, 0, 0, 2, 2, 2, 0, 0, 4, 4, 0] \<and>
     map (fd_Length d) [0..<15] = [4, 4, 4, 6, 2, 4, 4, 2, 2, 2, 4, 4, 8, 8, 4] \<and>
     map (fd_Offset d) [0..<15] = [0, 4, 8, 12, 18, 20, 24, 28, 30, 32, 34, 38, 42, 50, 58] \<and> RowLen d = 62"
proof -
  have name: "length (bytes_of ''log'') \<le> 32" by (simp add: bytes_of_def)
  from new_tbldesc_fits [of 14, OF _ name, of "nat (rows mod 4294967296)" 5] obtain d where d: "Qbase_new_tbldesc True 14 (nat (rows mod 4294967296)) 5 (bytes_of ''log'') = Ok (Some d)"
    "desc_fits 15 4 d" "\<forall>j < 15. fd_Length d j = 4" by auto
  have "desc_fits 15 8 d" using d(2) by (auto simp: desc_fits_def)
  moreover have "\<forall>(ty, len) \<in> set log_columns. ty < 4294967296 \<and> type_length ty len \<le> 8"
    by (simp add: log_columns_def type_length_def QBASE_TYPE_UINT_def QBASE_TYPE_UINT16_def QBASE_TYPE_BINARY_def QBASE_TYPE_DOUBLE_def
        QBASE_TYPE_INT_def QBASE_TYPE_INT16_def QBASE_TYPE_TIMESTAMP_def QBASE_TYPE_VARLEN_def)
  moreover have "length log_columns = 14" "log_columns \<noteq> []" by (simp_all add: log_columns_def)
  ultimately obtain d' where d': "set_columns log_columns 1 d = Ok d'" "desc_fits 15 8 d'" "RowLen d' = field_start d' 15"
    "\<forall>j < 15. fd_Offset d' j = field_start d' j"
    "\<forall>j. fd_Type d' j = (if 1 \<le> j \<and> j < 15 then fst (log_columns ! (j - 1)) else fd_Type d j)"
    "\<forall>j. fd_Length d' j = (if 1 \<le> j \<and> j < 15 then (case log_columns ! (j - 1) of (ty, len) \<Rightarrow> type_length ty len) else fd_Length d j)"
    using set_columns_fits [of 15 8 d 1 log_columns] by simp blast
  have "length log_columns = 14" by (simp add: log_columns_def)
  then have t: "map (fd_Type d') [1..<15] = map fst log_columns"
    by (intro nth_equalityI) (simp_all add: d'(5))
  have l: "map (fd_Length d') [0..<15] = [4, 4, 4, 6, 2, 4, 4, 2, 2, 2, 4, 4, 8, 8, 4]"
    by (simp add: upt_rec d'(6) d(3) log_columns_def type_length_def QBASE_TYPE_UINT_def QBASE_TYPE_UINT16_def QBASE_TYPE_BINARY_def
        QBASE_TYPE_DOUBLE_def QBASE_TYPE_INT_def QBASE_TYPE_INT16_def QBASE_TYPE_TIMESTAMP_def QBASE_TYPE_VARLEN_def)
  have st: "field_start d' k = sum_list (take k [4, 4, 4, 6, 2, 4, 4, 2, 2, 2, 4, 4, 8, 8, 4])" if "k \<le> 15" for k
    using that unfolding l [symmetric] field_start_def by (simp add: take_map)
  have o: "map (fd_Offset d') [0..<15] = [0, 4, 8, 12, 18, 20, 24, 28, 30, 32, 34, 38, 42, 50, 58]"
  proof -
    have "map (fd_Offset d') [0..<15] = map (\<lambda>k. sum_list (take k [4, 4, 4, 6, 2, 4, 4, 2, 2, 2, 4, 4, 8, 8, 4])) [0..<15]"
      by (rule map_cong) (simp_all add: d'(4) st)
    also have "\<dots> = [0, 4, 8, 12, 18, 20, 24, 28, 30, 32, 34, 38, 42, 50, 58]" by (simp add: upt_rec)
    finally show ?thesis .
  qed
  have "log_table_desc True rows = Ok d'" using d(1) d'(1) by (simp add: log_table_desc_def QXL_LOG_FCOUNT_def QXL_LOG_PCOUNT_def)
  moreover have "FieldNum d' = 15" using d'(2) by (simp add: desc_fits_def)
  moreover have "RowLen d' = 62" by (simp add: d'(3) st)
  moreover have "map fst log_columns = [0, 0, 6, 2, 0, 0, 2, 2, 2, 0, 0, 4, 4, 0]"
    by (simp add: log_columns_def QBASE_TYPE_UINT_def QBASE_TYPE_UINT16_def QBASE_TYPE_BINARY_def QBASE_TYPE_DOUBLE_def)
  ultimately show ?thesis using t l o by (intro exI [of _ d'] conjI) simp_all
qed

end
