(* ===== verification/BillCheck.thy ===== *)
theory BillCheck
  imports BillDaily
begin

text \<open>
  \<open>QX-billing/qxl_consistency.c\<close>: the tool that looks for rows of a log table that name a card whose addresses are not those of
  the row, moves the price of the row to the account of the right card, and corrects the row. The rows of the two tables
  are those that \<open>Qbase_fetch\<close> returns, and the calls that change a table are recorded.
\<close>

section \<open>The check\<close>

definition QXL_LOG_N :: nat where "QXL_LOG_N = 0"
definition QXL_LOG_NIC :: nat where "QXL_LOG_NIC = 2"
definition QXL_LOG_MAC :: nat where "QXL_LOG_MAC = 3"
definition QXL_LOG_IPCLNT :: nat where "QXL_LOG_IPCLNT = 5"
definition QXL_LOG_STOCLI :: nat where "QXL_LOG_STOCLI = 12"
definition QXL_LOG_STOHST :: nat where "QXL_LOG_STOHST = 13"
definition QXL_LOG_ACCPAY :: nat where "QXL_LOG_ACCPAY = 14"

record nic_item =
  NID :: u32
  AID :: u32
  nip :: u32
  nmac :: bytes

text \<open>The array has 200 places.\<close>

fun read_nics :: "desc \<Rightarrow> bytes list \<Rightarrow> nic_item list \<Rightarrow> nic_item list outcome" where
  "read_nics tc [] nics = Ok nics"
| "read_nics tc (row # rows) nics =
     (if 200 \<le> length nics then Crash OutOfBounds
      else read_nics tc rows (nics @ [\<lparr>NID = QXB_FV_UINT QXL_NICS_N tc row, AID = QXB_FV_UINT QXL_NICS_ACCOUNT tc row,
        nip = QXB_FV_UINT QXL_NICS_IP tc row, nmac = take 6 (QXB_FV_BIN QXL_NICS_MAC tc row)\<rparr>]))"

datatype check_call =
    SeekAcc u32
  | SubSum dbl
  | AddSum dbl
  | SeekLog u32
  | SetCard u32 u32

datatype check_end = Checked nat nat nat | NoCard u32 | CallFailed | NoTables

definition card_matches :: "desc \<Rightarrow> bytes \<Rightarrow> nic_item \<Rightarrow> bool" where
  "card_matches tc row n \<longleftrightarrow> nip n = QXB_FV_UINT QXL_LOG_IPCLNT tc row \<and> take 6 (QXB_FV_BIN QXL_LOG_MAC tc row) = nmac n"

definition fix_calls :: "fpu \<Rightarrow> desc \<Rightarrow> bytes \<Rightarrow> nic_item \<Rightarrow> nic_item \<Rightarrow> check_call list" where
  "fix_calls f tc row old new =
     (let pay = plus_dbl f (QXB_FV_DBL QXL_LOG_STOCLI tc row) (QXB_FV_DBL QXL_LOG_STOHST tc row) in
      [SeekAcc (AID new), SubSum pay, SeekAcc (AID old), AddSum pay, SeekLog (QXB_FV_UINT QXL_LOG_N tc row), SetCard (NID new) (AID new)])"

text \<open>The three numbers are \<open>num_total_recs\<close>, \<open>num_fixed_recs\<close> and \<open>num_skipped_recs\<close>.\<close>

fun check_rows :: "fpu \<Rightarrow> (check_call list \<Rightarrow> check_call \<Rightarrow> bool) \<Rightarrow> desc \<Rightarrow> nic_item list \<Rightarrow> bytes list \<Rightarrow> nat \<Rightarrow> nat \<Rightarrow> nat \<Rightarrow>
    check_call list \<Rightarrow> check_end \<times> check_call list" where
  "check_rows f ok tc nics [] tot fixed skipped cs = (Checked tot fixed skipped, cs)"
| "check_rows f ok tc nics (row # rows) tot fixed skipped cs =
     (case find (\<lambda>n. NID n = QXB_FV_UINT QXL_LOG_NIC tc row) nics of
        None \<Rightarrow> (NoCard (QXB_FV_UINT QXL_LOG_N tc row), cs)
      | Some old \<Rightarrow>
          if card_matches tc row old then check_rows f ok tc nics rows (Suc tot) fixed skipped cs
          else (case find (card_matches tc row) nics of
              None \<Rightarrow> check_rows f ok tc nics rows (Suc tot) fixed (Suc skipped) cs
            | Some new \<Rightarrow>
                let (done, cs) = run_calls ok (fix_calls f tc row old new) cs in
                if done then check_rows f ok tc nics rows (Suc tot) (Suc fixed) skipped cs else (CallFailed, cs)))"

datatype ck_conn = LT_read | LT_upd | NT_read | AT_upd

datatype ck_start = CkConnect ck_conn | CkSelect ck_conn string | CkCaps ck_conn | CkHeader ck_conn

definition ck_start_calls :: "string \<Rightarrow> ck_start list" where
  "ck_start_calls tbl =
     [CkConnect LT_read, CkConnect LT_upd, CkConnect NT_read, CkConnect AT_upd,
      CkSelect LT_read tbl, CkCaps LT_read, CkSelect LT_upd tbl, CkCaps LT_upd, CkHeader LT_upd,
      CkSelect NT_read ''NICs'', CkCaps NT_read, CkSelect AT_upd ''accounts'', CkCaps AT_upd, CkHeader AT_upd]"

text \<open>\<open>last_result\<close> is that of \<open>Qbase_fetch\<close> after the last card.\<close>

definition consistency_main :: "fpu \<Rightarrow> (ck_start \<Rightarrow> bool) \<Rightarrow> (check_call list \<Rightarrow> check_call \<Rightarrow> bool) \<Rightarrow> string option \<Rightarrow> qtable \<Rightarrow> qerr \<Rightarrow> qtable \<Rightarrow>
    (check_end \<times> check_call list) outcome" where
  "consistency_main f start_ok ok arg cards last_result log_table =
     (case arg of None \<Rightarrow> Ok (NoTables, [])
      | Some name \<Rightarrow>
          if \<not> list_all start_ok (ck_start_calls (take 31 name)) then Ok (NoTables, [])
          else bindo (read_nics (caption cards) (fetched_rows cards) []) (\<lambda>nics.
            if last_result \<noteq> QBASE_E_LASTROW then Ok (NoTables, [])
            else Ok (check_rows f ok (caption log_table) nics (fetched_rows log_table) 0 0 0 [])))"

section \<open>What the calls do\<close>

text \<open>The tables behind the connections: the accounts, the row of the log that its connection stands on, and the rows of
  the log. \<open>Qbase_updcur\<close> on the log sets the two columns of the current row.\<close>

record check_db =
  acc_book :: book
  at_log :: "u32 option"
  log_rows :: "bytes list"

definition set_card :: "desc \<Rightarrow> u32 \<Rightarrow> u32 \<Rightarrow> bytes \<Rightarrow> bytes" where
  "set_card tc nid aid row = put32 (put32 row (fd_Offset tc QXL_LOG_NIC) nid) (fd_Offset tc QXL_LOG_ACCPAY) aid"

fun check_effect :: "desc \<Rightarrow> check_call \<Rightarrow> check_db \<Rightarrow> check_db" where
  "check_effect tc (SeekAcc u) D = D\<lparr>acc_book := seek_row u (acc_book D)\<rparr>"
| "check_effect tc (SubSum d) D = D\<lparr>acc_book := post (Taken d) (acc_book D)\<rparr>"
| "check_effect tc (AddSum d) D = D\<lparr>acc_book := post (Added d) (acc_book D)\<rparr>"
| "check_effect tc (SeekLog u) D = D\<lparr>at_log := Some u\<rparr>"
| "check_effect tc (SetCard nid aid) D = (case at_log D of None \<Rightarrow> D | Some u \<Rightarrow>
     D\<lparr>log_rows := map (\<lambda>row. if QXB_FV_UINT QXL_LOG_N tc row = u then set_card tc nid aid row else row) (log_rows D)\<rparr>)"

section \<open>What the check leaves behind\<close>

text \<open>The card that a row names when it is not the one with its addresses, and that one.\<close>

definition misplaced :: "desc \<Rightarrow> nic_item list \<Rightarrow> bytes \<Rightarrow> (nic_item \<times> nic_item) option" where
  "misplaced tc nics row =
     (case find (\<lambda>n. NID n = QXB_FV_UINT QXL_LOG_NIC tc row) nics of
        None \<Rightarrow> None
      | Some old \<Rightarrow> if card_matches tc row old then None else map_option (Pair old) (find (card_matches tc row) nics))"

definition corrected :: "desc \<Rightarrow> nic_item list \<Rightarrow> bytes \<Rightarrow> bytes" where
  "corrected tc nics row = (case misplaced tc nics row of None \<Rightarrow> row | Some (old, new) \<Rightarrow> set_card tc (NID new) (AID new) row)"

definition price :: "fpu \<Rightarrow> desc \<Rightarrow> bytes \<Rightarrow> dbl" where
  "price f tc row = plus_dbl f (QXB_FV_DBL QXL_LOG_STOCLI tc row) (QXB_FV_DBL QXL_LOG_STOHST tc row)"

text \<open>The price of a misplaced row moves from the account of the old card to that of the new one.\<close>

definition moved :: "fpu \<Rightarrow> desc \<Rightarrow> nic_item list \<Rightarrow> bytes \<Rightarrow> (u32 \<times> posting) list" where
  "moved f tc nics row = (case misplaced tc nics row of None \<Rightarrow> []
     | Some (old, new) \<Rightarrow> [(AID new, Taken (price f tc row)), (AID old, Added (price f tc row))])"

text \<open>The columns as \<open>log_columns_laid_out\<close> describes them.\<close>

definition log_layout :: "desc \<Rightarrow> bool" where
  "log_layout tc \<longleftrightarrow> fd_Offset tc QXL_LOG_N = 0 \<and> fd_Offset tc QXL_LOG_NIC = 8 \<and> fd_Offset tc QXL_LOG_MAC = 12 \<and> fd_Offset tc QXL_LOG_IPCLNT = 20 \<and>
     fd_Offset tc QXL_LOG_ACCPAY = 58"

lemma set_card_keeps:
  assumes "log_layout tc" "62 \<le> length row"
  shows "card_matches tc (set_card tc u v row) = card_matches tc row"
    and "QXB_FV_UINT QXL_LOG_NIC tc (set_card tc u v row) = u"
    and "QXB_FV_UINT QXL_LOG_N tc (set_card tc u v row) = QXB_FV_UINT QXL_LOG_N tc row"
proof -
  let ?r = "put32 (put32 row 8 u) 58 v"
  have "take 6 (drop 12 ?r) = take 6 (drop 12 row)"
    by (rule nth_equalityI) (use assms(2) in \<open>auto simp: le32.length_wr le32.nth_wr\<close>)
  moreover have "get32 ?r 20 = get32 row 20" using assms(2) by (simp add: le32.rd_wr_disjoint)
  ultimately show "card_matches tc (set_card tc u v row) = card_matches tc row"
    using assms(1) by (intro ext) (simp add: card_matches_def set_card_def QXB_FV_UINT_def QXB_FV_BIN_def log_layout_def)
  show "QXB_FV_UINT QXL_LOG_NIC tc (set_card tc u v row) = u"
    using assms by (simp add: set_card_def QXB_FV_UINT_def log_layout_def le32.rd_wr_disjoint le32.rd_wr)
  show "QXB_FV_UINT QXL_LOG_N tc (set_card tc u v row) = QXB_FV_UINT QXL_LOG_N tc row"
    using assms by (simp add: set_card_def QXB_FV_UINT_def log_layout_def le32.rd_wr_disjoint)
qed

lemma find_NID:
  "distinct (map NID nics) \<Longrightarrow> n \<in> set nics \<Longrightarrow> find (\<lambda>m. NID m = NID n) nics = Some n"
  by (induction nics) auto

lemma find_SomeD: "find P xs = Some x \<Longrightarrow> x \<in> set xs \<and> P x"
  by (auto simp: find_Some_iff)

lemma corrected_row:
  assumes "log_layout tc" "62 \<le> length row" "distinct (map NID nics)" "find (\<lambda>n. NID n = QXB_FV_UINT QXL_LOG_NIC tc row) nics = Some old"
  shows "\<exists>n. find (\<lambda>m. NID m = QXB_FV_UINT QXL_LOG_NIC tc (corrected tc nics row)) nics = Some n \<and>
    card_matches tc (corrected tc nics row) = card_matches tc row \<and>
    (card_matches tc row n \<longleftrightarrow> (\<exists>m \<in> set nics. card_matches tc row m))"
proof (cases "card_matches tc row old")
  case True
  with assms(4) find_SomeD [OF assms(4)] show ?thesis by (auto simp: corrected_def misplaced_def)
next
  case False
  show ?thesis
  proof (cases "find (card_matches tc row) nics")
    case None
    then have "\<not> (\<exists>m \<in> set nics. card_matches tc row m)" by (auto simp: find_None_iff)
    moreover have "corrected tc nics row = row" using assms(4) False None by (simp add: corrected_def misplaced_def)
    ultimately show ?thesis using assms(4) False by simp
  next
    case (Some new)
    note m = find_SomeD [OF Some]
    have "corrected tc nics row = set_card tc (NID new) (AID new) row"
      using assms(4) False Some by (simp add: corrected_def misplaced_def)
    with m set_card_keeps [OF assms(1,2)] find_NID [OF assms(3), of new] show ?thesis by auto
  qed
qed

definition unmatched :: "desc \<Rightarrow> nic_item list \<Rightarrow> bytes list \<Rightarrow> nat" where
  "unmatched tc nics rows = length (filter (\<lambda>row. \<not> (\<exists>m \<in> set nics. card_matches tc row m)) rows)"

text \<open>The calls of one correction, on tables in which the number of the row occurs once.\<close>

lemma fix_calls_effect:
  "fold (check_effect tc) (fix_calls f tc row old new) D =
     (let D' = fold (check_effect tc) (fix_calls f tc row old new) D in
      D'\<lparr>log_rows := map (\<lambda>r. if QXB_FV_UINT QXL_LOG_N tc r = QXB_FV_UINT QXL_LOG_N tc row then set_card tc (NID new) (AID new) r else r) (log_rows D)\<rparr>)"
  "postings (acc_book (fold (check_effect tc) (fix_calls f tc row old new) D)) =
     postings (acc_book D) @ [(AID new, Taken (price f tc row)), (AID old, Added (price f tc row))]"
  by (simp_all add: fix_calls_def Let_def price_def)

text \<open>The rows that were checked are corrected, those to come are as they were.\<close>

lemma check_rows_effect:
  assumes "check_rows f ok tc nics rows tot fixed skipped cs = (Checked tot' fixed' skipped', cs')"
    and "log_layout tc" "\<forall>row \<in> set (done @ rows). 62 \<le> length row" "distinct (map (QXB_FV_UINT QXL_LOG_N tc) (done @ rows))"
    and "log_rows (fold (check_effect tc) cs D) = map (corrected tc nics) done @ rows"
  shows "(\<forall>row \<in> set rows. \<exists>old. find (\<lambda>n. NID n = QXB_FV_UINT QXL_LOG_NIC tc row) nics = Some old) \<and>
    tot' = tot + length rows \<and> skipped' = skipped + unmatched tc nics rows \<and>
    fixed' = fixed + length (filter (\<lambda>row. misplaced tc nics row \<noteq> None) rows) \<and>
    log_rows (fold (check_effect tc) cs' D) = map (corrected tc nics) (done @ rows) \<and>
    postings (acc_book (fold (check_effect tc) cs' D)) = postings (acc_book (fold (check_effect tc) cs D)) @ concat (map (moved f tc nics) rows)"
  using assms(1,3-5)
proof (induction rows arbitrary: "done" tot fixed skipped cs)
  case (Cons row rows)
  from Cons.prems(1) obtain old where old: "find (\<lambda>n. NID n = QXB_FV_UINT QXL_LOG_NIC tc row) nics = Some old"
    by (auto split: option.splits)
  have b: "\<forall>r \<in> set ((done @ [row]) @ rows). 62 \<le> length r" "distinct (map (QXB_FV_UINT QXL_LOG_N tc) ((done @ [row]) @ rows))"
    using Cons.prems(2,3) by simp_all
  show ?case
  proof (cases "misplaced tc nics row")
    case None
    then have keep: "corrected tc nics row = row" "moved f tc nics row = []" by (simp_all add: corrected_def moved_def)
    have c: "check_rows f ok tc nics rows (Suc tot) fixed (if \<exists>m \<in> set nics. card_matches tc row m then skipped else Suc skipped) cs =
        (Checked tot' fixed' skipped', cs')"
    proof (cases "card_matches tc row old")
      case True
      with Cons.prems(1) old find_SomeD [OF old] show ?thesis by auto
    next
      case False
      with None old have "find (card_matches tc row) nics = None" by (simp add: misplaced_def)
      moreover from this have "\<not> (\<exists>m \<in> set nics. card_matches tc row m)" by (auto simp: find_None_iff)
      ultimately show ?thesis using Cons.prems(1) old False by simp
    qed
    have "log_rows (fold (check_effect tc) cs D) = map (corrected tc nics) (done @ [row]) @ rows" using Cons.prems(4) keep by simp
    from Cons.IH [OF c b this] old None keep show ?thesis by (auto simp: unmatched_def)
  next
    case (Some p)
    then obtain new where new: "\<not> card_matches tc row old" "find (card_matches tc row) nics = Some new" "p = (old, new)"
      using old by (auto simp: misplaced_def split: if_splits)
    from Cons.prems(1) old new obtain cs1 where 1: "run_calls ok (fix_calls f tc row old new) cs = (True, cs1)"
      "check_rows f ok tc nics rows (Suc tot) (Suc fixed) skipped cs1 = (Checked tot' fixed' skipped', cs')"
      by (auto simp: Let_def split: prod.splits if_splits)
    have cs1: "fold (check_effect tc) cs1 D = fold (check_effect tc) (fix_calls f tc row old new) (fold (check_effect tc) cs D)"
      by (simp only: run_calls_done [OF 1(1)] fold_append comp_apply)
    have keys: "QXB_FV_UINT QXL_LOG_N tc (corrected tc nics r) = QXB_FV_UINT QXL_LOG_N tc r" if "r \<in> set done" for r
      using set_card_keeps(3) [OF assms(2)] Cons.prems(2) that by (auto simp: corrected_def split: option.split)
    have "log_rows (fold (check_effect tc) cs1 D) = map (\<lambda>r. if QXB_FV_UINT QXL_LOG_N tc r = QXB_FV_UINT QXL_LOG_N tc row
        then set_card tc (NID new) (AID new) r else r) (map (corrected tc nics) done @ row # rows)"
      unfolding cs1 by (subst fix_calls_effect(1)) (simp add: Cons.prems(4) Let_def)
    also have "\<dots> = map (corrected tc nics) (done @ [row]) @ rows"
      using Cons.prems(3) keys Some new(3) by (auto simp: corrected_def image_iff intro!: map_idI)
    finally have l: "log_rows (fold (check_effect tc) cs1 D) = map (corrected tc nics) (done @ [row]) @ rows" .
    have "postings (acc_book (fold (check_effect tc) cs1 D)) = postings (acc_book (fold (check_effect tc) cs D)) @ moved f tc nics row"
      unfolding cs1 fix_calls_effect(2) using Some new(3) by (simp add: moved_def)
    with Cons.IH [OF 1(2) b l] old Some find_SomeD [OF new(2)] show ?thesis by (auto simp: unmatched_def)
  qed
qed (simp add: unmatched_def)

lemma check_rows_clean:
  assumes "\<forall>row \<in> set rows. \<exists>n. find (\<lambda>m. NID m = QXB_FV_UINT QXL_LOG_NIC tc row) nics = Some n \<and>
    (card_matches tc row n \<longleftrightarrow> (\<exists>m \<in> set nics. card_matches tc row m))"
  shows "check_rows f ok tc nics rows tot fixed skipped cs = (Checked (tot + length rows) fixed (skipped + unmatched tc nics rows), cs)"
  using assms
proof (induction rows arbitrary: tot skipped)
  case (Cons row rows)
  then obtain n where n: "find (\<lambda>m. NID m = QXB_FV_UINT QXL_LOG_NIC tc row) nics = Some n"
    "card_matches tc row n \<longleftrightarrow> (\<exists>m \<in> set nics. card_matches tc row m)" by auto
  have rest: "check_rows f ok tc nics rows t fixed k cs = (Checked (t + length rows) fixed (k + unmatched tc nics rows), cs)" for t k
    using Cons by simp
  show ?case
  proof (cases "card_matches tc row n")
    case True
    then show ?thesis using n rest by (auto simp: unmatched_def)
  next
    case False
    with n(2) have "find (card_matches tc row) nics = None" by (auto simp: find_None_iff)
    with False n rest show ?thesis by (simp add: unmatched_def)
  qed
qed (simp add: unmatched_def)

text \<open>C28: A check that comes to its end, all its calls accepted, on a log table whose columns lie as the logger lays them out and
  whose rows have distinct numbers, and cards with distinct numbers. The effect of its calls on the tables, in order: each row
  that names a card whose addresses are not its own, while there is a card that has them, names this card and its account,
  and the other rows and columns are as they were; the price of each such row was taken from the account of the
  right card and added to the account of the wrong one, and nothing else was taken or added; and a second check of the rows as
  they are now, whatever its calls would answer, makes none, fixes nothing and skips the same rows.\<close>

theorem second_check_changes_nothing:
  assumes "check_rows f ok tc nics rows 0 0 0 [] = (Checked n fixed skipped, cs)"
    and "log_layout tc" "\<forall>row \<in> set rows. 62 \<le> length row" "distinct (map (QXB_FV_UINT QXL_LOG_N tc) rows)" "distinct (map NID nics)"
  shows "let D = fold (check_effect tc) cs \<lparr>acc_book = bk, at_log = pos, log_rows = rows\<rparr> in
    log_rows D = map (\<lambda>row. case misplaced tc nics row of None \<Rightarrow> row | Some (old, new) \<Rightarrow> set_card tc (NID new) (AID new) row) rows \<and>
    postings (acc_book D) = postings bk @ concat (map (\<lambda>row. case misplaced tc nics row of None \<Rightarrow> []
       | Some (old, new) \<Rightarrow> [(AID new, Taken (price f tc row)), (AID old, Added (price f tc row))]) rows) \<and>
    n = length rows \<and> fixed = length (filter (\<lambda>row. misplaced tc nics row \<noteq> None) rows) \<and>
    check_rows f ok' tc nics (log_rows D) 0 0 0 [] = (Checked (length rows) 0 skipped, [])"
proof -
  let ?D = "\<lparr>acc_book = bk, at_log = pos, log_rows = rows\<rparr>"
  from check_rows_effect [OF assms(1,2), of "[]" ?D] assms(3,4) have
    c: "\<forall>row \<in> set rows. \<exists>old. find (\<lambda>n. NID n = QXB_FV_UINT QXL_LOG_NIC tc row) nics = Some old" "n = length rows"
      "skipped = unmatched tc nics rows" "fixed = length (filter (\<lambda>row. misplaced tc nics row \<noteq> None) rows)"
      "log_rows (fold (check_effect tc) cs ?D) = map (corrected tc nics) rows"
      "postings (acc_book (fold (check_effect tc) cs ?D)) = postings bk @ concat (map (moved f tc nics) rows)" by simp_all
  have r: "\<exists>n. find (\<lambda>m. NID m = QXB_FV_UINT QXL_LOG_NIC tc (corrected tc nics row)) nics = Some n \<and>
    card_matches tc (corrected tc nics row) = card_matches tc row \<and> (card_matches tc row n \<longleftrightarrow> (\<exists>m \<in> set nics. card_matches tc row m))"
    if "row \<in> set rows" for row using corrected_row [OF assms(2) _ assms(5)] c(1) assms(3) that by blast
  then have "\<forall>row \<in> set (map (corrected tc nics) rows). \<exists>n. find (\<lambda>m. NID m = QXB_FV_UINT QXL_LOG_NIC tc row) nics = Some n \<and>
    (card_matches tc row n \<longleftrightarrow> (\<exists>m \<in> set nics. card_matches tc row m))" by auto metis
  from check_rows_clean [OF this, of f ok' 0 0 0 "[]"] have
    "check_rows f ok' tc nics (map (corrected tc nics) rows) 0 0 0 [] = (Checked (length rows) 0 (unmatched tc nics (map (corrected tc nics) rows)), [])" by simp
  moreover have "unmatched tc nics (map (corrected tc nics) rows) = unmatched tc nics rows"
  proof -
    have "filter (\<lambda>row. \<not> (\<exists>m \<in> set nics. card_matches tc (corrected tc nics row) m)) rows =
        filter (\<lambda>row. \<not> (\<exists>m \<in> set nics. card_matches tc row m)) rows"
      by (rule filter_cong) (use r in fastforce)+
    then show ?thesis by (simp add: unmatched_def filter_map o_def)
  qed
  ultimately show ?thesis using c by (simp add: corrected_def [abs_def] moved_def [abs_def] Let_def)
qed

definition a_log_desc :: desc where
  "a_log_desc = set_Offset (set_Offset (set_Offset (set_Offset (replicate 248 0) 2 8) 3 12) 5 20) 14 58"

lemma a_log_layout: "log_layout a_log_desc"
  by (simp add: log_layout_def a_log_desc_def set_Offset_same set_Offset_other QXL_LOG_N_def QXL_LOG_NIC_def QXL_LOG_MAC_def QXL_LOG_IPCLNT_def
      QXL_LOG_ACCPAY_def) (simp add: fd_Offset_def get32_def)

definition two_cards :: "nic_item list" where
  "two_cards = [\<lparr>NID = 0, AID = 1, nip = 7, nmac = replicate 6 0\<rparr>, \<lparr>NID = 1, AID = 2, nip = 0, nmac = replicate 6 0\<rparr>]"

lemma zero_row: "QXB_FV_UINT QXL_LOG_NIC a_log_desc (replicate 62 0) = 0" "QXB_FV_UINT QXL_LOG_IPCLNT a_log_desc (replicate 62 0) = 0"
  "take 6 (QXB_FV_BIN QXL_LOG_MAC a_log_desc (replicate 62 0)) = replicate 6 0"
  using a_log_layout by (simp_all add: log_layout_def QXB_FV_UINT_def QXB_FV_BIN_def get32_def)

theorem second_check_changes_nothing_witness:
  "\<exists>cs D. check_rows plain_fpu (\<lambda>h c. True) a_log_desc two_cards [replicate 62 0] 0 0 0 [] = (Checked 1 1 0, cs) \<and>
     D = fold (check_effect a_log_desc) cs \<lparr>acc_book = \<lparr>current = None, postings = []\<rparr>, at_log = None, log_rows = [replicate 62 0]\<rparr> \<and>
     log_rows D = [set_card a_log_desc 1 2 (replicate 62 0)] \<and>
     (\<exists>d. postings (acc_book D) = [(2, Taken d), (1, Added d)]) \<and>
     check_rows plain_fpu (\<lambda>h c. False) a_log_desc two_cards (log_rows D) 0 0 0 [] = (Checked 1 0 0, [])"
proof -
  define row :: bytes where "row = replicate 62 0"
  note z = zero_row [folded row_def]
  have "\<exists>cs. check_rows plain_fpu (\<lambda>h c. True) a_log_desc two_cards [row] 0 0 0 [] = (Checked 1 1 0, cs)"
    by (simp add: two_cards_def card_matches_def z fix_calls_def Let_def)
  then obtain cs where cs: "check_rows plain_fpu (\<lambda>h c. True) a_log_desc two_cards [row] 0 0 0 [] = (Checked 1 1 0, cs)" by blast
  have d: "distinct (map NID two_cards)" by (simp add: two_cards_def)
  have l: "\<forall>r \<in> set [row]. 62 \<le> length r" by (simp add: row_def)
  have u: "distinct (map (QXB_FV_UINT QXL_LOG_N a_log_desc) [row])" by simp
  have m: "misplaced a_log_desc two_cards row = Some (two_cards ! 0, two_cards ! 1)"
    by (simp add: misplaced_def two_cards_def card_matches_def z)
  have t: "NID (two_cards ! 1) = 1" "AID (two_cards ! 1) = 2" "AID (two_cards ! 0) = 1" by (simp_all add: two_cards_def)
  define D where "D = fold (check_effect a_log_desc) cs \<lparr>acc_book = \<lparr>current = None, postings = []\<rparr>, at_log = None, log_rows = [row]\<rparr>"
  from second_check_changes_nothing [OF cs a_log_layout l u d, of "\<lparr>current = None, postings = []\<rparr>" None "\<lambda>h c. False"]
  have "log_rows D = [set_card a_log_desc 1 2 row]" "postings (acc_book D) = [(2, Taken (price plain_fpu a_log_desc row)), (1, Added (price plain_fpu a_log_desc row))]"
    "check_rows plain_fpu (\<lambda>h c. False) a_log_desc two_cards (log_rows D) 0 0 0 [] = (Checked 1 0 0, [])"
    by (auto simp: Let_def m t [simplified] simp del: check_rows.simps simp flip: D_def)
  with cs show ?thesis unfolding row_def [symmetric] by (intro exI [of _ cs] exI [of _ D] conjI) (assumption | rule D_def | blast)+
qed

text \<open>More cards than the array has places.\<close>

lemma many_cards_overflow: "length nics + length rows > 200 \<Longrightarrow> length nics \<le> 200 \<Longrightarrow> read_nics tc rows nics = Crash OutOfBounds"
  by (induction rows arbitrary: nics) auto

end
