(* ===== verification/NtcFilter.thy ===== *)
theory NtcFilter
  imports QBaseTypes
begin

text \<open>
  \<open>nfm-ntc/main.c\<close> and \<open>ntc_rm.c\<close>: the packet counter, a filter of \<open>io-net\<close> that lets the frames of listed cards pass,
  logs them in a queue, and hands the queue to its reader through a device. The list of cards is made of nodes at
  numbered addresses with pointers to the next and the previous node, as in the code. A handler runs to its end before
  the next one. The functions of \<open>io-net\<close> that pass on or give back a packet are the verdict.
\<close>

section \<open>State\<close>

definition MAC_ADDR_LENGTH :: nat where "MAC_ADDR_LENGTH = 6"
definition PKT_LOG_SIZE :: nat where "PKT_LOG_SIZE = 42"
definition PKT_DIR_IN :: u16 where "PKT_DIR_IN = 0"
definition PKT_DIR_OUT :: u16 where "PKT_DIR_OUT = 1"
definition MAX_PACKETS_LOGGED :: nat where "MAX_PACKETS_LOGGED = 500"
definition MAX_PKT_READ :: nat where "MAX_PKT_READ = 50"
definition ARP_FRAME :: u16 where "ARP_FRAME = 0x0806"

text \<open>The headers of a logged packet are its first 42 bytes.\<close>

record pkt_info =
  pk_len :: u32
  pk_headers :: bytes
  pk_dir :: u16

record block_list =
  block_NID :: u32
  block_VID :: u16
  block_next :: "nat option"
  block_prev :: "nat option"

record if_info =
  in_name :: bytes
  in_cell :: u16
  in_endpoint :: u16
  in_iface :: u16
  ofinterest :: bool
  dead :: bool

text \<open>Nodes below \<open>block_top\<close> were allocated; one that was given back has no contents. The list of interfaces only grows at its
  head, and no pointer into it is kept.\<close>

record ntc =
  ntc_ifs :: "if_info list"
  blocklist :: "nat option"
  block_mem :: "nat \<Rightarrow> block_list option"
  block_top :: nat
  pktq :: "pkt_info list"
  num_packets :: nat
  num_pkt_missed :: u32
  blocked_in :: u32
  blocked_out :: u32
  pkt_log_limit :: nat

text \<open>\<open>alloc\<close> gives the queue with any contents, or nothing, which is not noticed.\<close>

definition ntc_init :: "bool \<Rightarrow> bool \<Rightarrow> pkt_info list option \<Rightarrow> bool \<Rightarrow> ntc option" where
  "ntc_init reg_ok pattern_ok queue thread_ok =
     (if reg_ok \<and> pattern_ok \<and> thread_ok
      then Some \<lparr>ntc_ifs = [], blocklist = None, block_mem = (\<lambda>a. None), block_top = 0,
        pktq = (case queue of None \<Rightarrow> [] | Some q \<Rightarrow> q), num_packets = 0, num_pkt_missed = 0, blocked_in = 0, blocked_out = 0,
        pkt_log_limit = MAX_PACKETS_LOGGED\<rparr>
      else None)"

section \<open>Frames\<close>

datatype ntc_verdict = PassOn | GiveBack

text \<open>A hardware address is read as a 32-bit and a 16-bit number.\<close>

definition card_at :: "bytes \<Rightarrow> nat \<Rightarrow> u32 \<times> u16" where
  "card_at b off = (get32 b off, get16 b (off + 4))"

text \<open>The walk along the list does not end when the list is circular.\<close>

partial_function (option) find_card :: "(nat \<Rightarrow> block_list option) \<Rightarrow> u32 \<times> u16 \<Rightarrow> nat option \<Rightarrow> nat option outcome option" where
  "find_card m mac p =
     (case p of
        None \<Rightarrow> Some (Ok None)
      | Some a \<Rightarrow>
          (case m a of
             None \<Rightarrow> Some (Crash UseAfterFree)
           | Some nd \<Rightarrow> if mac = (block_NID nd, block_VID nd) then Some (Ok (Some a)) else find_card m mac (block_next nd)))"

text \<open>A short packet leaves the rest of the old headers in its place of the queue.\<close>

definition log_packet :: "u16 \<Rightarrow> bytes \<Rightarrow> ntc \<Rightarrow> ntc outcome" where
  "log_packet dir frame s =
     (let n = num_packets s in
      if pkt_log_limit s < n + 1 then Ok (s\<lparr>num_pkt_missed := num_pkt_missed s + 1\<rparr>)
      else if length (pktq s) \<le> n then Crash OutOfBounds
      else Ok (s\<lparr>pktq := (pktq s)[n := \<lparr>pk_len = word_of_nat (length frame),
                pk_headers = blit (pk_headers (pktq s ! n)) 0 (take PKT_LOG_SIZE frame), pk_dir = dir\<rparr>], num_packets := n + 1\<rparr>))"

text \<open>Steps 2 and 3 of both handlers. \<open>iov\<close> is the first buffer of the packet, \<open>frame\<close> all of its bytes.\<close>

definition check_card :: "bool \<Rightarrow> bytes \<Rightarrow> bytes \<Rightarrow> ntc \<Rightarrow> (ntc_verdict \<times> ntc) outcome option" where
  "check_card incoming iov frame s =
     (if length iov < 14 then Some (Crash OutOfBounds)
      else if get16 iov (2 * MAC_ADDR_LENGTH) = ARP_FRAME then Some (Ok (PassOn, s))
      else
        (case find_card (block_mem s) (card_at iov (if incoming then MAC_ADDR_LENGTH else 0)) (blocklist s) of
           None \<Rightarrow> None
         | Some (Crash x) \<Rightarrow> Some (Crash x)
         | Some (Ok None) \<Rightarrow> Some (Ok (GiveBack,
             if incoming then s\<lparr>blocked_in := blocked_in s + 1\<rparr> else s\<lparr>blocked_out := blocked_out s + 1\<rparr>))
         | Some (Ok (Some a)) \<Rightarrow>
             Some (bindo (log_packet (if incoming then PKT_DIR_IN else PKT_DIR_OUT) frame s) (\<lambda>s. Ok (PassOn, s)))))"

definition same_if :: "u16 \<Rightarrow> u16 \<Rightarrow> u16 \<Rightarrow> if_info \<Rightarrow> bool" where
  "same_if cell endpoint iface i \<longleftrightarrow> in_cell i = cell \<and> in_endpoint i = endpoint \<and> in_iface i = iface"

text \<open>Step 1: a packet of a known interface that is not of interest is passed on. One of an unknown interface is checked.\<close>

definition skipped :: "u16 \<Rightarrow> u16 \<Rightarrow> u16 \<Rightarrow> ntc \<Rightarrow> bool" where
  "skipped cell endpoint iface s \<longleftrightarrow>
     (case find (same_if cell endpoint iface) (ntc_ifs s) of None \<Rightarrow> False | Some i \<Rightarrow> \<not> ofinterest i)"

text \<open>The first interface with a property is changed.\<close>

fun change_if :: "(if_info \<Rightarrow> bool) \<Rightarrow> (if_info \<Rightarrow> if_info) \<Rightarrow> if_info list \<Rightarrow> if_info list option" where
  "change_if P f [] = None"
| "change_if P f (i # is) = (if P i then Some (f i # is) else map_option ((#) i) (change_if P f is))"

datatype ntc_up = UpFrame bytes bytes | UpDying | UpAdvert bytes | UpOther

definition IFNAMSIZ :: nat where "IFNAMSIZ = 16"

definition ntc_advert :: "u16 \<Rightarrow> u16 \<Rightarrow> u16 \<Rightarrow> bytes \<Rightarrow> ntc \<Rightarrow> ntc" where
  "ntc_advert cell endpoint iface name s =
     s\<lparr>ntc_ifs :=
       (case change_if (\<lambda>i. stricmp_eq (in_name i) name)
            (\<lambda>i. i\<lparr>in_cell := cell, in_endpoint := endpoint, in_iface := iface, dead := False\<rparr>) (ntc_ifs s) of
          Some is \<Rightarrow> is
        | None \<Rightarrow> \<lparr>in_name = take (IFNAMSIZ - 1) name, in_cell = cell, in_endpoint = endpoint, in_iface = iface,
            ofinterest = False, dead = False\<rparr> # ntc_ifs s)\<rparr>"

definition ntc_rx_up :: "u16 \<Rightarrow> u16 \<Rightarrow> u16 \<Rightarrow> ntc_up \<Rightarrow> ntc \<Rightarrow> (ntc_verdict \<times> ntc) outcome option" where
  "ntc_rx_up cell endpoint iface up s =
     (case up of
        UpFrame iov frame \<Rightarrow> if skipped cell endpoint iface s then Some (Ok (PassOn, s)) else check_card True iov frame s
      | UpDying \<Rightarrow> Some (Ok (PassOn, s\<lparr>ntc_ifs :=
          (case change_if (same_if cell endpoint iface) (\<lambda>i. i\<lparr>dead := True\<rparr>) (ntc_ifs s) of Some is \<Rightarrow> is | None \<Rightarrow> ntc_ifs s)\<rparr>))
      | UpAdvert name \<Rightarrow> Some (Ok (PassOn, ntc_advert cell endpoint iface name s))
      | UpOther \<Rightarrow> Some (Ok (PassOn, s)))"

text \<open>Going down, no packet is a message or a frame with its buffers.\<close>

definition ntc_rx_down :: "u16 \<Rightarrow> u16 \<Rightarrow> u16 \<Rightarrow> (bytes \<times> bytes) option \<Rightarrow> ntc \<Rightarrow> (ntc_verdict \<times> ntc) outcome option" where
  "ntc_rx_down cell endpoint iface down s =
     (case down of
        None \<Rightarrow> Some (Ok (PassOn, s))
      | Some (iov, frame) \<Rightarrow> if skipped cell endpoint iface s then Some (Ok (PassOn, s)) else check_card False iov frame s)"

section \<open>The device\<close>

definition sizeof_pkt_info :: nat where "sizeof_pkt_info = 48"
definition sizeof_if_info :: nat where "sizeof_if_info = 28"

datatype ntc_read = ReadNoSys | Packets "pkt_info list"

text \<open>The test of the type of the request has the value of its lowest bit, because the comparison binds stronger. The packets are taken from the
  end of the queue.\<close>

definition ntc_rm_read :: "u32 \<Rightarrow> nat \<Rightarrow> ntc \<Rightarrow> ntc_read \<times> ntc" where
  "ntc_rm_read xtype nbytes s =
     (if xtype AND 1 \<noteq> 0 then (ReadNoSys, s)
      else if nbytes < sizeof_pkt_info \<or> num_packets s = 0 then (Packets [], s)
      else
        let npkts = min (min MAX_PKT_READ (nbytes div sizeof_pkt_info)) (num_packets s);
            n = num_packets s - npkts
        in (Packets (take npkts (drop n (pktq s))), s\<lparr>num_packets := n\<rparr>))"

datatype ntc_cmd = NTC_FLUSH | NTC_NUMMISSED | NTC_NUMBLOCKED | NTC_QUEUELEN | NTC_ADDBLOCK | NTC_DELBLOCK | NTC_IFPRESENT |
  NTC_ADDIF | NTC_DELIF | NTC_EXIT

datatype ntc_reply = NtcNoSys | NtcValue int | NtcData bytes | NtcIfs nat "if_info list"

text \<open>The new node becomes the head; the \<open>prev\<close> of the old head stays as it is.\<close>

definition add_block :: "bool \<Rightarrow> u32 \<times> u16 \<Rightarrow> ntc \<Rightarrow> ntc outcome" where
  "add_block mem_ok mac s =
     (if \<not> mem_ok then Crash NullPointer
      else let a = block_top s in
        Ok (s\<lparr>block_mem := (block_mem s)(a \<mapsto> \<lparr>block_NID = fst mac, block_VID = snd mac, block_next = blocklist s, block_prev = None\<rparr>),
              block_top := a + 1, blocklist := Some a\<rparr>))"

definition set_node :: "nat \<Rightarrow> (block_list \<Rightarrow> block_list) \<Rightarrow> (nat \<Rightarrow> block_list option) \<Rightarrow> (nat \<Rightarrow> block_list option) outcome" where
  "set_node a f m = (case m a of None \<Rightarrow> Crash UseAfterFree | Some nd \<Rightarrow> Ok (m(a \<mapsto> f nd)))"

definition unlink_block :: "nat \<Rightarrow> ntc \<Rightarrow> ntc outcome" where
  "unlink_block a s =
     (case block_mem s a of
        None \<Rightarrow> Crash UseAfterFree
      | Some nd \<Rightarrow>
          bindo (case block_next nd of None \<Rightarrow> Ok (block_mem s) | Some b \<Rightarrow> set_node b (\<lambda>x. x\<lparr>block_prev := block_prev nd\<rparr>) (block_mem s)) (\<lambda>m.
          bindo (case block_prev nd of
                None \<Rightarrow> Ok (m, block_next nd)
              | Some b \<Rightarrow> bindo (set_node b (\<lambda>x. x\<lparr>block_next := block_next nd\<rparr>) m) (\<lambda>m. Ok (m, blocklist s))) (\<lambda>(m, head).
            Ok (s\<lparr>block_mem := m(a := None), blocklist := head\<rparr>))))"

definition set_interest :: "bool \<Rightarrow> bytes \<Rightarrow> ntc \<Rightarrow> ntc_reply \<times> ntc" where
  "set_interest on name s =
     (case change_if (\<lambda>i. stricmp_eq (in_name i) name) (\<lambda>i. i\<lparr>ofinterest := on\<rparr>) (ntc_ifs s) of
        Some is \<Rightarrow> (NtcValue 1, s\<lparr>ntc_ifs := is\<rparr>)
      | None \<Rightarrow> (NtcValue 0, s))"

definition ntc_rm_devctl :: "bool \<Rightarrow> ntc_cmd \<Rightarrow> bytes \<Rightarrow> nat \<Rightarrow> ntc \<Rightarrow> (ntc_reply \<times> ntc) outcome option" where
  "ntc_rm_devctl mem_ok cmd data nbytes s =
     (case cmd of
        NTC_FLUSH \<Rightarrow> Some (Ok (NtcValue 0, s\<lparr>num_packets := 0\<rparr>))
      | NTC_NUMMISSED \<Rightarrow> Some (Ok (NtcData (put32 (replicate 4 0) 0 (num_pkt_missed s)), s))
      | NTC_NUMBLOCKED \<Rightarrow> Some (Ok (NtcData (put32 (put32 (replicate 8 0) 0 (blocked_in s)) 4 (blocked_out s)), s))
      | NTC_QUEUELEN \<Rightarrow> Some (Ok (NtcData (put32 (replicate 4 0) 0 (word_of_nat (num_packets s))), s))
      | NTC_ADDBLOCK \<Rightarrow>
          if length data < 6 then Some (Crash OutOfBounds)
          else Some (bindo (add_block mem_ok (card_at data 0) s) (\<lambda>s. Ok (NtcValue 0, s)))
      | NTC_DELBLOCK \<Rightarrow>
          if length data < 6 then Some (Crash OutOfBounds)
          else (case find_card (block_mem s) (card_at data 0) (blocklist s) of
              None \<Rightarrow> None
            | Some (Crash x) \<Rightarrow> Some (Crash x)
            | Some (Ok None) \<Rightarrow> Some (Ok (NtcValue 0, s))
            | Some (Ok (Some a)) \<Rightarrow> Some (bindo (unlink_block a s) (\<lambda>s. Ok (NtcValue 0, s))))
      | NTC_IFPRESENT \<Rightarrow> Some (Ok (NtcIfs (length (ntc_ifs s)) (take (nbytes div sizeof_if_info) (ntc_ifs s)), s))
      | NTC_ADDIF \<Rightarrow> Some (Ok (set_interest True data s))
      | NTC_DELIF \<Rightarrow> Some (Ok (set_interest False data s))
      | NTC_EXIT \<Rightarrow> Some (Ok (NtcNoSys, s)))"

end
