(* ===== verification/NtcLog.thy ===== *)
theory NtcLog
  imports NtcFilter "HOL-Library.Multiset"
begin

text \<open>
  What the packet counter \<open>nfm-ntc\<close> guarantees: the nodes of its list of cards are always a proper chain, so that every packet and
  request is handled to its end; which frames pass; and that every frame that passes because of its card is logged and read
  once or counted as missed.
\<close>

section \<open>The list of cards\<close>

text \<open>The pointers to previous nodes are all null.\<close>

fun block_chain :: "(nat \<Rightarrow> block_list option) \<Rightarrow> nat option \<Rightarrow> nat list \<Rightarrow> bool" where
  "block_chain m p [] \<longleftrightarrow> p = None"
| "block_chain m p (a # as) \<longleftrightarrow> p = Some a \<and> (\<exists>nd. m a = Some nd \<and> block_prev nd = None \<and> block_chain m (block_next nd) as)"

definition node_card :: "(nat \<Rightarrow> block_list option) \<Rightarrow> nat \<Rightarrow> u32 \<times> u16" where
  "node_card m a = (block_NID (the (m a)), block_VID (the (m a)))"

definition block_rep :: "ntc \<Rightarrow> nat list \<Rightarrow> bool" where
  "block_rep s as \<longleftrightarrow> block_chain (block_mem s) (blocklist s) as \<and> distinct as \<and> (\<forall>a \<in> set as. a < block_top s)"

text \<open>The cards from the newest on.\<close>

definition listed_cards :: "ntc \<Rightarrow> (u32 \<times> u16) list \<Rightarrow> bool" where
  "listed_cards s cs \<longleftrightarrow> (\<exists>as. block_rep s as \<and> cs = map (node_card (block_mem s)) as)"

lemma block_chain_other [simp]: "a \<notin> set as \<Longrightarrow> block_chain (m(a := x)) p as = block_chain m p as"
  by (induction as arbitrary: p) auto

lemma node_card_other: "a \<notin> set as \<Longrightarrow> map (node_card (m(a := x))) as = map (node_card m) as"
  by (auto simp: node_card_def)

lemma find_card_chain:
  "block_chain m p as \<Longrightarrow> find_card m mac p = Some (Ok (find (\<lambda>a. node_card m a = mac) as))"
proof (induction as arbitrary: p)
  case (Cons a as)
  then obtain nd where "p = Some a" "m a = Some nd" "block_chain m (block_next nd) as" by auto
  with Cons.IH [of "block_next nd"] show ?case by (subst find_card.simps) (auto simp: node_card_def)
qed (simp add: find_card.simps)

lemma find_card_listed:
  assumes "listed_cards s cs"
  shows "\<exists>r. find_card (block_mem s) mac (blocklist s) = Some (Ok r) \<and> (r \<noteq> None \<longleftrightarrow> mac \<in> set cs)"
proof -
  from assms obtain as where "block_rep s as" "cs = map (node_card (block_mem s)) as" by (auto simp: listed_cards_def)
  moreover from this(1) have "find_card (block_mem s) mac (blocklist s) = Some (Ok (find (\<lambda>a. node_card (block_mem s) a = mac) as))"
    by (intro find_card_chain) (simp add: block_rep_def)
  ultimately show ?thesis by (auto simp: find_None_iff simp flip: not_None_eq)
qed

lemma add_block_listed:
  assumes "listed_cards s cs"
  shows "\<exists>s'. add_block True mac s = Ok s' \<and> listed_cards s' (mac # cs)"
proof -
  from assms obtain as where as: "block_rep s as" "cs = map (node_card (block_mem s)) as" by (auto simp: listed_cards_def)
  define s' where "s' = s\<lparr>block_mem := (block_mem s)(block_top s \<mapsto> \<lparr>block_NID = fst mac, block_VID = snd mac, block_next = blocklist s, block_prev = None\<rparr>),
    block_top := block_top s + 1, blocklist := Some (block_top s)\<rparr>"
  from as(1) have new: "block_top s \<notin> set as" by (auto simp: block_rep_def)
  have m: "block_mem s' = (block_mem s)(block_top s \<mapsto> \<lparr>block_NID = fst mac, block_VID = snd mac, block_next = blocklist s, block_prev = None\<rparr>)"
    "blocklist s' = Some (block_top s)" "block_top s' = block_top s + 1" by (simp_all add: s'_def)
  have "block_rep s' (block_top s # as)" using as(1) new by (auto simp: block_rep_def m)
  moreover have "node_card (block_mem s') (block_top s) = mac" by (simp add: node_card_def m)
  moreover have "map (node_card (block_mem s')) as = cs" unfolding m(1) node_card_other [OF new] by (rule as(2) [symmetric])
  ultimately have "listed_cards s' (mac # cs)"
    unfolding listed_cards_def by (intro exI [of _ "block_top s # as"]) simp
  then show ?thesis by (simp add: add_block_def Let_def s'_def)
qed

lemma block_chain_suffix:
  "block_chain m p (xs @ a # ys) \<Longrightarrow> \<exists>nd. m a = Some nd \<and> block_prev nd = None \<and> block_chain m (block_next nd) ys"
  by (induction xs arbitrary: p) auto

lemma unlink_block_drops:
  assumes "block_rep s (xs @ a # ys)"
  shows "\<exists>s'. unlink_block a s = Ok s' \<and> block_rep s' ys \<and> map (node_card (block_mem s')) ys = map (node_card (block_mem s)) ys"
proof -
  from assms block_chain_suffix obtain nd where nd: "block_mem s a = Some nd" "block_prev nd = None" "block_chain (block_mem s) (block_next nd) ys"
    unfolding block_rep_def by metis
  from assms have d: "a \<notin> set ys" "distinct ys" "\<forall>b \<in> set ys. b < block_top s" by (auto simp: block_rep_def)
  have "(case block_next nd of None \<Rightarrow> Ok (block_mem s) | Some b \<Rightarrow> set_node b (\<lambda>x. x\<lparr>block_prev := block_prev nd\<rparr>) (block_mem s)) = Ok (block_mem s)"
  proof (cases ys)
    case (Cons b zs)
    with nd(3) obtain x where x: "block_next nd = Some b" "block_mem s b = Some x" "block_prev x = None" by auto
    then have "x\<lparr>block_prev := block_prev nd\<rparr> = x" by (cases x) (simp add: nd(2))
    with x show ?thesis by (auto simp: set_node_def fun_eq_iff)
  qed (use nd(3) in simp)
  then have "unlink_block a s = Ok (s\<lparr>block_mem := (block_mem s)(a := None), blocklist := block_next nd\<rparr>)"
    by (simp add: unlink_block_def nd(1,2))
  moreover have "block_rep (s\<lparr>block_mem := (block_mem s)(a := None), blocklist := block_next nd\<rparr>) ys"
    using nd(3) d by (simp add: block_rep_def)
  ultimately show ?thesis using node_card_other [OF d(1)] by auto
qed

section \<open>Runs\<close>

datatype ntc_event =
    FrameUp u16 u16 u16 bytes bytes
  | MessageUp u16 u16 u16 ntc_up
  | FrameDown u16 u16 u16 bytes bytes
  | MessageDown u16 u16 u16
  | ReadQueue u32 nat
  | Request ntc_cmd bytes nat

text \<open>What is counted beside the state: the cards that were asked for, what was read and what was flushed, and of the frames
  that passed because of their card those that found room in the queue and those that did not.\<close>

record ntc_history =
  cards :: "(u32 \<times> u16) list"
  got :: "pkt_info list"
  flushed :: "pkt_info list"
  kept :: "(u16 \<times> bytes) list"
  lost :: "(u16 \<times> bytes) list"

definition queue_of :: "ntc \<Rightarrow> pkt_info list" where
  "queue_of s = take (num_packets s) (pktq s)"

definition drop_newer :: "'a \<Rightarrow> 'a list \<Rightarrow> 'a list" where
  "drop_newer x xs = (if x \<in> set xs then tl (dropWhile (\<lambda>y. y \<noteq> x) xs) else xs)"

definition count_frame :: "ntc \<Rightarrow> bool \<Rightarrow> u16 \<Rightarrow> bytes \<Rightarrow> ntc_history \<Rightarrow> ntc_history" where
  "count_frame s passed dir frame h =
     (if \<not> passed then h
      else if num_packets s < pkt_log_limit s then h\<lparr>kept := kept h @ [(dir, frame)]\<rparr> else h\<lparr>lost := lost h @ [(dir, frame)]\<rparr>)"

text \<open>The frames that are looked at: those of interfaces that are not skipped, without the ones that are taken for ARP.\<close>

definition checked :: "u16 \<Rightarrow> u16 \<Rightarrow> u16 \<Rightarrow> bytes \<Rightarrow> ntc \<Rightarrow> bool" where
  "checked cell endpoint iface iov s \<longleftrightarrow> \<not> skipped cell endpoint iface s \<and> get16 iov 12 \<noteq> ARP_FRAME"

definition count_request :: "ntc_cmd \<Rightarrow> bytes \<Rightarrow> ntc \<Rightarrow> ntc_history \<Rightarrow> ntc_history" where
  "count_request cmd data s h =
     (case cmd of
        NTC_FLUSH \<Rightarrow> h\<lparr>flushed := flushed h @ queue_of s\<rparr>
      | NTC_ADDBLOCK \<Rightarrow> h\<lparr>cards := card_at data 0 # cards h\<rparr>
      | NTC_DELBLOCK \<Rightarrow> h\<lparr>cards := drop_newer (card_at data 0) (cards h)\<rparr>
      | _ \<Rightarrow> h)"

fun handled :: "(ntc_history \<Rightarrow> 'r \<Rightarrow> ntc_history) \<Rightarrow> ntc_history \<Rightarrow> ('r \<times> ntc) outcome option \<Rightarrow> (ntc \<times> ntc_history) option" where
  "handled f h (Some (Ok (r, s))) = Some (s, f h r)"
| "handled f h r = None"

fun ntc_step :: "(ntc \<times> ntc_history) option \<Rightarrow> ntc_event \<Rightarrow> (ntc \<times> ntc_history) option" where
  "ntc_step None ev = None"
| "ntc_step (Some (s, h)) (FrameUp c e i iov frame) =
     handled (\<lambda>h v. count_frame s (v = PassOn \<and> checked c e i iov s) PKT_DIR_IN frame h) h (ntc_rx_up c e i (UpFrame iov frame) s)"
| "ntc_step (Some (s, h)) (MessageUp c e i up) = handled (\<lambda>h v. h) h (ntc_rx_up c e i up s)"
| "ntc_step (Some (s, h)) (FrameDown c e i iov frame) =
     handled (\<lambda>h v. count_frame s (v = PassOn \<and> checked c e i iov s) PKT_DIR_OUT frame h) h (ntc_rx_down c e i (Some (iov, frame)) s)"
| "ntc_step (Some (s, h)) (MessageDown c e i) = handled (\<lambda>h v. h) h (ntc_rx_down c e i None s)"
| "ntc_step (Some (s, h)) (ReadQueue xtype n) =
     (let (r, s') = ntc_rm_read xtype n s in Some (s', case r of Packets ps \<Rightarrow> h\<lparr>got := got h @ ps\<rparr> | ReadNoSys \<Rightarrow> h))"
| "ntc_step (Some (s, h)) (Request cmd data n) =
     handled (\<lambda>h r. count_request cmd data s h) h (ntc_rm_devctl True cmd data n s)"

fun ntc_event_ok :: "(ntc \<times> ntc_history) option \<Rightarrow> ntc_event \<Rightarrow> bool" where
  "ntc_event_ok s (FrameUp c e i iov frame) \<longleftrightarrow> 14 \<le> length iov \<and> length frame < 4294967296"
| "ntc_event_ok s (FrameDown c e i iov frame) \<longleftrightarrow> 14 \<le> length iov \<and> length frame < 4294967296"
| "ntc_event_ok s (MessageUp c e i up) \<longleftrightarrow> (\<forall>iov frame. up \<noteq> UpFrame iov frame)"
| "ntc_event_ok s (Request cmd data n) \<longleftrightarrow> 6 \<le> length data"
| "ntc_event_ok s ev \<longleftrightarrow> True"

text \<open>What a reader learns from an entry, and what it should learn of a frame.\<close>

definition learned :: "pkt_info \<Rightarrow> u16 \<times> u32 \<times> bytes" where
  "learned e = (pk_dir e, pk_len e, take (min PKT_LOG_SIZE (unat (pk_len e))) (pk_headers e))"

definition facts_of :: "u16 \<times> bytes \<Rightarrow> u16 \<times> u32 \<times> bytes" where
  "facts_of = (\<lambda>(dir, frame). (dir, word_of_nat (length frame), take PKT_LOG_SIZE frame))"

definition queue_ok :: "ntc \<Rightarrow> bool" where
  "queue_ok s \<longleftrightarrow> num_packets s \<le> pkt_log_limit s \<and> length (pktq s) = pkt_log_limit s \<and> (\<forall>e \<in> set (pktq s). length (pk_headers e) = PKT_LOG_SIZE)"

fun ntc_inv :: "(ntc \<times> ntc_history) option \<Rightarrow> bool" where
  "ntc_inv None \<longleftrightarrow> False"
| "ntc_inv (Some (s, h)) \<longleftrightarrow> listed_cards s (cards h) \<and> queue_ok s \<and>
     mset (map learned (got h @ flushed h @ queue_of s)) = mset (map facts_of (kept h)) \<and> num_pkt_missed s = word_of_nat (length (lost h))"

lemma learned_entry:
  assumes "length old = PKT_LOG_SIZE" "length frame < 4294967296"
  shows "learned \<lparr>pk_len = word_of_nat (length frame), pk_headers = blit old 0 (take PKT_LOG_SIZE frame), pk_dir = dir\<rparr> = facts_of (dir, frame)"
  using assms by (simp add: learned_def facts_of_def unat_of_nat take_bit_nat_eq_self blit_def min_def PKT_LOG_SIZE_def)

lemma log_packet_cases:
  assumes "queue_ok s" "length frame < 4294967296"
  shows "\<exists>s'. log_packet dir frame s = Ok s' \<and> queue_ok s' \<and> (\<forall>cs. listed_cards s cs \<longrightarrow> listed_cards s' cs) \<and>
    (if num_packets s < pkt_log_limit s
     then map learned (queue_of s') = map learned (queue_of s) @ [facts_of (dir, frame)] \<and> num_pkt_missed s' = num_pkt_missed s
     else queue_of s' = queue_of s \<and> num_pkt_missed s' = num_pkt_missed s + 1)"
proof (cases "num_packets s < pkt_log_limit s")
  case True
  let ?n = "num_packets s"
  let ?e = "\<lparr>pk_len = word_of_nat (length frame), pk_headers = blit (pk_headers (pktq s ! ?n)) 0 (take PKT_LOG_SIZE frame), pk_dir = dir\<rparr>"
  let ?s = "s\<lparr>pktq := (pktq s)[?n := ?e], num_packets := ?n + 1\<rparr>"
  from True assms(1) have n: "?n < length (pktq s)" and h: "length (pk_headers (pktq s ! ?n)) = PKT_LOG_SIZE" by (auto simp: queue_ok_def)
  have "log_packet dir frame s = Ok ?s" using True n by (simp add: log_packet_def Let_def)
  moreover have "queue_of ?s = queue_of s @ [?e]" using n by (simp add: queue_of_def take_Suc_conv_app_nth)
  then have "map learned (queue_of ?s) = map learned (queue_of s) @ [facts_of (dir, frame)]" using learned_entry [OF h assms(2)] by simp
  moreover have "length (pk_headers ?e) = PKT_LOG_SIZE" using h by (simp add: length_blit)
  then have "queue_ok ?s" using assms(1) True by (auto simp: queue_ok_def dest!: set_update_subset_insert [THEN subsetD])
  moreover have "listed_cards ?s cs = listed_cards s cs" for cs by (simp add: listed_cards_def block_rep_def)
  ultimately show ?thesis using True by (intro exI [of _ ?s]) simp
next
  case False
  then show ?thesis using assms(1) by (simp add: log_packet_def Let_def queue_ok_def queue_of_def listed_cards_def block_rep_def)
qed


lemma check_card_cases:
  assumes "listed_cards s cs" "queue_ok s" "14 \<le> length iov" "length frame < 4294967296"
  shows "\<exists>v s'. check_card incoming iov frame s = Some (Ok (v, s')) \<and> queue_ok s' \<and> listed_cards s' cs \<and>
    (v = PassOn \<longleftrightarrow> get16 iov 12 = ARP_FRAME \<or> card_at iov (if incoming then 6 else 0) \<in> set cs) \<and>
    (if v = PassOn \<and> get16 iov 12 \<noteq> ARP_FRAME then
       (if num_packets s < pkt_log_limit s
        then map learned (queue_of s') = map learned (queue_of s) @ [facts_of (if incoming then PKT_DIR_IN else PKT_DIR_OUT, frame)] \<and>
          num_pkt_missed s' = num_pkt_missed s
        else queue_of s' = queue_of s \<and> num_pkt_missed s' = num_pkt_missed s + 1)
     else queue_of s' = queue_of s \<and> num_pkt_missed s' = num_pkt_missed s)"
proof -
  let ?dir = "if incoming then PKT_DIR_IN else PKT_DIR_OUT" and ?mac = "card_at iov (if incoming then 6 else 0)"
  from find_card_listed [OF assms(1), of ?mac] obtain r where r: "find_card (block_mem s) ?mac (blocklist s) = Some (Ok r)" "r \<noteq> None \<longleftrightarrow> ?mac \<in> set cs" by blast
  have c: "check_card incoming iov frame s =
      (if get16 iov 12 = ARP_FRAME then Some (Ok (PassOn, s))
       else case r of None \<Rightarrow> Some (Ok (GiveBack, if incoming then s\<lparr>blocked_in := blocked_in s + 1\<rparr> else s\<lparr>blocked_out := blocked_out s + 1\<rparr>))
         | Some a \<Rightarrow> Some (bindo (log_packet ?dir frame s) (\<lambda>s. Ok (PassOn, s))))"
    using assms(3) r(1) by (simp add: check_card_def MAC_ADDR_LENGTH_def split: if_splits)
  consider "get16 iov 12 = ARP_FRAME" | "get16 iov 12 \<noteq> ARP_FRAME" "r = None" | a where "get16 iov 12 \<noteq> ARP_FRAME" "r = Some a" by (cases r) auto
  then show ?thesis
  proof cases
    case 2
    with c r(2) assms(1,2) show ?thesis by (auto simp: queue_ok_def queue_of_def listed_cards_def block_rep_def)
  next
    case 3
    from log_packet_cases [OF assms(2,4), of ?dir] obtain s' where s': "log_packet ?dir frame s = Ok s'" "queue_ok s'" "listed_cards s' cs"
      "if num_packets s < pkt_log_limit s
       then map learned (queue_of s') = map learned (queue_of s) @ [facts_of (?dir, frame)] \<and> num_pkt_missed s' = num_pkt_missed s
       else queue_of s' = queue_of s \<and> num_pkt_missed s' = num_pkt_missed s + 1" using assms(1) by blast
    have "check_card incoming iov frame s = Some (Ok (PassOn, s'))" using c 3 s'(1) by simp
    with 3 r(2) s'(2-4) show ?thesis by (intro exI [of _ PassOn] exI [of _ s']) simp
  qed (use c assms(1,2) in simp)
qed

lemma listed_ifs [simp]: "listed_cards (s\<lparr>ntc_ifs := is\<rparr>) cs = listed_cards s cs" "queue_ok (s\<lparr>ntc_ifs := is\<rparr>) = queue_ok s"
  "queue_of (s\<lparr>ntc_ifs := is\<rparr>) = queue_of s" "listed_cards (s\<lparr>num_packets := k\<rparr>) cs = listed_cards s cs"
  by (simp_all add: listed_cards_def block_rep_def queue_ok_def queue_of_def)

lemma learned_snoc: "map learned q' = map learned q @ [x] \<Longrightarrow> image_mset learned (mset q') = add_mset x (image_mset learned (mset q))"
  by (drule arg_cong [of _ _ mset]) simp

text \<open>A frame in either direction.\<close>

lemma frame_step:
  assumes "ntc_inv (Some (s, h))" "14 \<le> length iov" "length frame < 4294967296"
    and "r = (if skipped c e i s then Some (Ok (PassOn, s)) else check_card incoming iov frame s)"
    and "dir = (if incoming then PKT_DIR_IN else PKT_DIR_OUT)"
  shows "ntc_inv (handled (\<lambda>h v. count_frame s (v = PassOn \<and> checked c e i iov s) dir frame h) h r)"
proof (cases "skipped c e i s")
  case True
  with assms(1,4) show ?thesis by (simp add: checked_def count_frame_def)
next
  case False
  from check_card_cases [of s "cards h" iov frame incoming] assms(1-3) obtain v s' where v: "check_card incoming iov frame s = Some (Ok (v, s'))"
    "queue_ok s'" "listed_cards s' (cards h)"
    "if v = PassOn \<and> get16 iov 12 \<noteq> ARP_FRAME then
       (if num_packets s < pkt_log_limit s
        then map learned (queue_of s') = map learned (queue_of s) @ [facts_of (dir, frame)] \<and> num_pkt_missed s' = num_pkt_missed s
        else queue_of s' = queue_of s \<and> num_pkt_missed s' = num_pkt_missed s + 1)
     else queue_of s' = queue_of s \<and> num_pkt_missed s' = num_pkt_missed s" by (auto simp only: ntc_inv.simps assms(5))
  from v assms(1) False show ?thesis by (auto simp: assms(4) count_frame_def checked_def dest: learned_snoc split: if_splits)
qed

lemma read_step:
  assumes "ntc_inv (Some (s, h))"
  shows "ntc_inv (ntc_step (Some (s, h)) (ReadQueue xtype n))"
proof (cases "xtype AND 1 \<noteq> 0 \<or> n < sizeof_pkt_info \<or> num_packets s = 0")
  case True
  with assms show ?thesis by (auto simp: ntc_rm_read_def)
next
  case False
  define k where "k = min (min MAX_PKT_READ (n div sizeof_pkt_info)) (num_packets s)"
  have k: "k \<le> num_packets s" by (simp add: k_def)
  then have "queue_of s = take (num_packets s - k) (pktq s) @ take k (drop (num_packets s - k) (pktq s))"
    by (simp add: queue_of_def flip: take_add)
  moreover have "ntc_rm_read xtype n s = (Packets (take k (drop (num_packets s - k) (pktq s))), s\<lparr>num_packets := num_packets s - k\<rparr>)"
    using False by (simp add: ntc_rm_read_def Let_def k_def)
  ultimately show ?thesis using assms by (auto simp: queue_ok_def queue_of_def ac_simps)
qed


lemma drop_newer_split: "x \<notin> set xs \<Longrightarrow> drop_newer x (xs @ x # ys) = ys"
  by (induction xs) (auto simp: drop_newer_def)

lemma unlink_block_frame: "unlink_block a s = Ok s' \<Longrightarrow> pktq s' = pktq s \<and> num_packets s' = num_packets s \<and> pkt_log_limit s' = pkt_log_limit s \<and> num_pkt_missed s' = num_pkt_missed s"
  by (auto simp: unlink_block_def bindo_Ok_iff split: option.splits)

lemma delete_step:
  assumes "listed_cards s cs" "6 \<le> length data"
  shows "\<exists>s'. ntc_rm_devctl mem_ok NTC_DELBLOCK data n s = Some (Ok (NtcValue 0, s')) \<and> listed_cards s' (drop_newer (card_at data 0) cs) \<and>
    pktq s' = pktq s \<and> num_packets s' = num_packets s \<and> pkt_log_limit s' = pkt_log_limit s \<and> num_pkt_missed s' = num_pkt_missed s"
proof (cases "card_at data 0 \<in> set cs")
  case True
  then obtain newer older where sp: "cs = newer @ card_at data 0 # older" "card_at data 0 \<notin> set newer" by (meson split_list_first)
  from assms(1) obtain as where as: "block_rep s as" "cs = map (node_card (block_mem s)) as" by (auto simp: listed_cards_def)
  from as(2) sp(1) obtain xs a ys where x: "as = xs @ a # ys" "newer = map (node_card (block_mem s)) xs" "card_at data 0 = node_card (block_mem s) a"
    "older = map (node_card (block_mem s)) ys" by (auto simp: append_eq_map_conv Cons_eq_map_conv)
  have "find (\<lambda>b. node_card (block_mem s) b = card_at data 0) (xs @ a # ys) = Some a"
    using sp(2) x(2) by (induction xs arbitrary: newer) (auto simp: x(3))
  with as(1) find_card_chain [of "block_mem s" "blocklist s" as "card_at data 0"] have f: "find_card (block_mem s) (card_at data 0) (blocklist s) = Some (Ok (Some a))"
    by (simp add: block_rep_def x(1))
  from unlink_block_drops [of s xs a ys] as(1) obtain s' where s': "unlink_block a s = Ok s'" "block_rep s' ys"
    "map (node_card (block_mem s')) ys = older" unfolding x(1,4) by blast
  then have "listed_cards s' (drop_newer (card_at data 0) cs)"
    unfolding sp(1) drop_newer_split [OF sp(2)] listed_cards_def by (intro exI [of _ ys]) simp
  with f s'(1) unlink_block_frame [OF s'(1)] assms(2) show ?thesis by (simp add: ntc_rm_devctl_def)
next
  case False
  with find_card_listed [OF assms(1), of "card_at data 0"] assms show ?thesis by (auto simp: ntc_rm_devctl_def drop_newer_def)
qed

lemma add_block_frame: "add_block ok mac s = Ok s' \<Longrightarrow> pktq s' = pktq s \<and> num_packets s' = num_packets s \<and> pkt_log_limit s' = pkt_log_limit s \<and> num_pkt_missed s' = num_pkt_missed s"
  by (auto simp: add_block_def Let_def split: if_splits)

lemma same_queue:
  assumes "pktq s' = pktq s" "num_packets s' = num_packets s" "pkt_log_limit s' = pkt_log_limit s"
  shows "queue_of s' = queue_of s" "queue_ok s' = queue_ok s"
  using assms by (simp_all add: queue_of_def queue_ok_def)

lemma request_step:
  assumes "ntc_inv (Some (s, h))" "6 \<le> length data"
  shows "ntc_inv (ntc_step (Some (s, h)) (Request cmd data n))"
proof (cases cmd)
  case NTC_FLUSH
  with assms(1) show ?thesis by (auto simp: ntc_rm_devctl_def count_request_def queue_of_def queue_ok_def)
next
  case NTC_ADDBLOCK
  from add_block_listed [of s "cards h" "card_at data 0"] assms(1) obtain s' where s': "add_block True (card_at data 0) s = Ok s'"
    "listed_cards s' (card_at data 0 # cards h)" by auto
  with same_queue [of s' s] add_block_frame [OF s'(1)] NTC_ADDBLOCK assms show ?thesis by (auto simp: ntc_rm_devctl_def count_request_def)
next
  case NTC_DELBLOCK
  from delete_step [of s "cards h" data True n] assms obtain s' where s': "ntc_rm_devctl True NTC_DELBLOCK data n s = Some (Ok (NtcValue 0, s'))"
    "listed_cards s' (drop_newer (card_at data 0) (cards h))" "pktq s' = pktq s" "num_packets s' = num_packets s" "pkt_log_limit s' = pkt_log_limit s"
    "num_pkt_missed s' = num_pkt_missed s" by auto
  with same_queue [OF s'(3-5)] NTC_DELBLOCK assms(1) show ?thesis by (simp add: count_request_def)
qed (use assms in \<open>auto simp: ntc_rm_devctl_def count_request_def set_interest_def split: option.splits\<close>)

lemma message_step: "ntc_inv (Some (s, h)) \<Longrightarrow> \<forall>iov frame. up \<noteq> UpFrame iov frame \<Longrightarrow> ntc_inv (handled (\<lambda>h v. h) h (ntc_rx_up c e i up s))"
  by (cases up) (auto simp: ntc_rx_up_def ntc_advert_def)

interpretation ntc: machine ntc_step ntc_event_ok ntc_inv
proof
  fix s ev
  assume a: "ntc_inv s" "ntc_event_ok s ev"
  then obtain t h where s: "s = Some (t, h)" by (cases s) auto
  show "ntc_inv (ntc_step s ev)"
  proof (cases ev)
    case (FrameUp c e i iov frame)
    with a show ?thesis unfolding s ntc_step.simps FrameUp by (intro frame_step [where incoming = True]) (simp_all add: ntc_rx_up_def)
  next
    case (FrameDown c e i iov frame)
    with a show ?thesis unfolding s ntc_step.simps FrameDown by (intro frame_step [where incoming = False]) (simp_all add: ntc_rx_down_def)
  next
    case (MessageUp c e i up)
    with a message_step show ?thesis by (simp add: s)
  next
    case (MessageDown c e i)
    with a show ?thesis by (simp add: s ntc_rx_down_def)
  next
    case (ReadQueue xtype n)
    with a read_step show ?thesis by (simp only: s)
  next
    case (Request cmd data n)
    with a request_step show ?thesis by (simp only: s ntc_event_ok.simps)
  qed
qed


section \<open>What the counter does\<close>

definition no_history :: ntc_history where
  "no_history = \<lparr>cards = [], got = [], flushed = [], kept = [], lost = []\<rparr>"

lemma init_inv:
  assumes "ntc_init reg pat (Some q) thr = Some s0" "length q = MAX_PACKETS_LOGGED" "\<forall>e \<in> set q. length (pk_headers e) = PKT_LOG_SIZE"
  shows "ntc_inv (Some (s0, no_history))"
proof -
  from assms have "block_rep s0 []" "queue_ok s0" "queue_of s0 = []" "num_pkt_missed s0 = 0"
    by (auto simp: ntc_init_def block_rep_def queue_ok_def queue_of_def split: if_splits)
  moreover from this(1) have "listed_cards s0 []" unfolding listed_cards_def by (intro exI [of _ "[]"]) simp
  ultimately show ?thesis by (simp add: no_history_def)
qed

text \<open>C31: From the start of the filter, in every sequence of packets, reads and requests, each of which is handled to its end: what the reader has
  got, what was flushed and what waits in the queue are, in some order, the direction, length and headers of the frames that passed because of their card and
  found room in the queue, each once; and the counter of missed packets, modulo 2 to the power 32, is the number of those that found
  no room.\<close>

theorem logged_frames_are_read_once:
  assumes "ntc_init reg pat (Some q) thr = Some s0" "length q = MAX_PACKETS_LOGGED" "\<forall>e \<in> set q. length (pk_headers e) = PKT_LOG_SIZE"
    and "ntc.run_ok (Some (s0, no_history)) es"
  shows "\<exists>s h. ntc.run (Some (s0, no_history)) es = Some (s, h) \<and>
    mset (map learned (got h @ flushed h @ queue_of s)) = mset (map facts_of (kept h)) \<and> num_pkt_missed s = word_of_nat (length (lost h))"
  using ntc.run_inv [OF init_inv [OF assms(1-3)] assms(4)] by (cases "ntc.run (Some (s0, no_history)) es") auto

text \<open>The two bytes that the comparison of the type takes for ARP: those of 0x0806 with the low byte first.\<close>

lemma two_bytes_2054: "x < (256 :: nat) \<Longrightarrow> x + 256 * y = 2054 \<longleftrightarrow> x = 6 \<and> y = 8"
  by (cases "y < 8"; cases "8 < y") auto

lemma arp_bytes: "get16 b i = ARP_FRAME \<longleftrightarrow> b ! i = 0x06 \<and> b ! (i + 1) = 0x08"
proof -
  have bound: "unat (b ! i) < 256" "unat (b ! (i + 1)) < 256"
    using unsigned_less [of "b ! i", where ?'a = nat] unsigned_less [of "b ! (i + 1)", where ?'a = nat] by simp_all
  have "get16 b i = ARP_FRAME \<longleftrightarrow> unat (get16 b i) = 2054" by (simp add: ARP_FRAME_def word_unat_eq_iff)
  also have "\<dots> \<longleftrightarrow> unat (b ! i) + 256 * unat (b ! (i + 1)) = 2054"
  proof -
    have "unat (word_of_nat n :: u16) = n" if "n < 65536" for n using that by (simp add: unsigned_of_nat take_bit_nat_eq_self)
    from this [of "unat (b ! i) + 256 * unat (b ! (i + 1))"] bound
    have "unat (get16 b i) = unat (b ! i) + 256 * unat (b ! (i + 1))" unfolding get16_def by linarith
    then show ?thesis by simp
  qed
  also have "\<dots> \<longleftrightarrow> unat (b ! i) = 6 \<and> unat (b ! (i + 1)) = 8" by (rule two_bytes_2054 [OF bound(1)])
  also have "\<dots> \<longleftrightarrow> b ! i = 0x06 \<and> b ! (i + 1) = 0x08" by (simp add: word_unat_eq_iff)
  finally show ?thesis .
qed

lemma given_back: "check_card incoming iov frame s = Some (Ok (GiveBack, s')) \<Longrightarrow>
    s' = (if incoming then s\<lparr>blocked_in := blocked_in s + 1\<rparr> else s\<lparr>blocked_out := blocked_out s + 1\<rparr>)"
  by (cases "log_packet (if incoming then PKT_DIR_IN else PKT_DIR_OUT) frame s")
    (auto simp: check_card_def split: if_splits option.splits outcome.splits)

text \<open>C32: The verdict of the code on the next frame of every such sequence, in either direction. Only a frame of a known
  interface that is not of interest is passed unseen; frames of unknown interfaces are judged like those of interfaces of interest. Of
  the frames that are judged, one is given back, and counted as blocked in its direction, exactly when the address of its client is none
  of the cards that were added and are not gone with the deletion of an older one, and its bytes 12 and 13 are not 06 08.
  So real ARP frames, which carry 08 06, get no exception, although the comment and the read.me promise one (theorem
  \<open>arp_frames_are_blocked\<close>); the exception goes to the unused type 0x0608.\<close>

theorem verdict_on_next_frame:
  assumes "ntc_init reg pat (Some q) thr = Some s0" "length q = MAX_PACKETS_LOGGED" "\<forall>e \<in> set q. length (pk_headers e) = PKT_LOG_SIZE"
    and "ntc.run_ok (Some (s0, no_history)) es" "14 \<le> length iov" "length frame < 4294967296"
  shows "\<exists>s h v s'. ntc.run (Some (s0, no_history)) es = Some (s, h) \<and>
    (if incoming then ntc_rx_up c e i (UpFrame iov frame) s else ntc_rx_down c e i (Some (iov, frame)) s) = Some (Ok (v, s')) \<and>
    (v = GiveBack \<longleftrightarrow> \<not> (\<exists>k. find (same_if c e i) (ntc_ifs s) = Some k \<and> \<not> ofinterest k) \<and>
       card_at iov (if incoming then 6 else 0) \<notin> set (cards h) \<and> \<not> (iov ! 12 = 0x06 \<and> iov ! 13 = 0x08)) \<and>
    (v = GiveBack \<longrightarrow> s' = (if incoming then s\<lparr>blocked_in := blocked_in s + 1\<rparr> else s\<lparr>blocked_out := blocked_out s + 1\<rparr>))"
proof -
  from ntc.run_inv [OF init_inv [OF assms(1-3)] assms(4)] obtain s h where r: "ntc.run (Some (s0, no_history)) es = Some (s, h)" "ntc_inv (Some (s, h))"
    by (cases "ntc.run (Some (s0, no_history)) es") auto
  from check_card_cases [of s "cards h" iov frame incoming] r(2) assms(5,6) obtain v s' where
    v: "check_card incoming iov frame s = Some (Ok (v, s'))" "v = PassOn \<longleftrightarrow> get16 iov 12 = ARP_FRAME \<or> card_at iov (if incoming then 6 else 0) \<in> set (cards h)"
    by auto
  have sk: "skipped c e i s \<longleftrightarrow> (\<exists>k. find (same_if c e i) (ntc_ifs s) = Some k \<and> \<not> ofinterest k)"
    by (simp add: skipped_def split: option.split)
  have give: "v = GiveBack \<longleftrightarrow> card_at iov (if incoming then 6 else 0) \<notin> set (cards h) \<and> \<not> (iov ! 12 = 0x06 \<and> iov ! 13 = 0x08)"
    using v(2) arp_bytes [of iov 12] by (cases v) auto
  show ?thesis
  proof (cases "skipped c e i s")
    case True
    then show ?thesis unfolding sk [symmetric] using r(1)
      by (intro exI [of _ s] exI [of _ h] exI [of _ PassOn]) (auto simp: ntc_rx_up_def ntc_rx_down_def sk)
  next
    case False
    have "(if incoming then ntc_rx_up c e i (UpFrame iov frame) s else ntc_rx_down c e i (Some (iov, frame)) s) = Some (Ok (v, s'))"
      using False v(1) by (cases incoming) (simp_all add: ntc_rx_up_def ntc_rx_down_def)
    then show ?thesis using r(1) give given_back [of incoming iov frame s s'] v(1) False sk by blast
  qed
qed

text \<open>The frames of ARP, whose type is 0x0806 with its high byte first, are not recognised, because the two bytes are
  compared as a number of the machine: an ARP frame from a card that is not listed is given back.\<close>

theorem arp_frames_are_blocked:
  assumes "listed_cards s cs" "\<not> skipped c e i s" "14 \<le> length iov" "iov ! 12 = 0x08" "iov ! 13 = 0x06" "card_at iov 6 \<notin> set cs"
  shows "ntc_rx_up c e i (UpFrame iov frame) s = Some (Ok (GiveBack, s\<lparr>blocked_in := blocked_in s + 1\<rparr>))"
proof -
  from find_card_listed [OF assms(1), of "card_at iov 6"] assms(6) have f: "find_card (block_mem s) (card_at iov 6) (blocklist s) = Some (Ok None)" by auto
  have "get16 iov 12 = 0x0608" using assms(3-5) by (simp add: get16_def)
  then show ?thesis using assms(2,3) f by (simp add: ntc_rx_up_def check_card_def MAC_ADDR_LENGTH_def ARP_FRAME_def)
qed

text \<open>The \<open>prev\<close> of a node is never set, so the node that is deleted is taken for the head of the
  list: with a card go all cards that were added after it, and they are blocked from then on.\<close>

theorem deleting_card_drops_newer:
  assumes "listed_cards s (newer @ mac # older)" "mac \<notin> set newer" "card_at data 0 = mac" "6 \<le> length data"
  shows "\<exists>s'. ntc_rm_devctl mem_ok NTC_DELBLOCK data n s = Some (Ok (NtcValue 0, s')) \<and> listed_cards s' older"
  using delete_step [OF assms(1,4), of mem_ok n] drop_newer_split [OF assms(2), of older] assms(3) by auto

section \<open>Examples\<close>

definition an_arp_frame :: bytes where
  "an_arp_frame = [9, 9, 9, 9, 9, 9, 1, 2, 3, 4, 5, 6, 8, 6, 0, 1]"

definition a_queue :: "pkt_info list" where
  "a_queue = replicate 500 \<lparr>pk_len = 0, pk_headers = replicate 42 0, pk_dir = 0\<rparr>"

lemma a_queue_ok: "length a_queue = MAX_PACKETS_LOGGED" "\<forall>e \<in> set a_queue. length (pk_headers e) = PKT_LOG_SIZE"
  by (auto simp: a_queue_def MAX_PACKETS_LOGGED_def PKT_LOG_SIZE_def)

definition a_counter :: ntc where
  "a_counter = the (ntc_init True True (Some a_queue) True)"

lemma a_counter_init: "ntc_init True True (Some a_queue) True = Some a_counter"
  by (simp add: a_counter_def ntc_init_def)

lemma a_counter_facts: "ntc_ifs a_counter = []" "blocked_in a_counter = 0" "listed_cards a_counter []"
  using init_inv [OF a_counter_init a_queue_ok] by (simp_all add: no_history_def) (simp_all add: a_counter_def ntc_init_def)

theorem logged_frames_are_read_once_witness:
  "\<exists>s h. ntc.run (Some (a_counter, no_history)) [Request NTC_ADDBLOCK [1, 2, 3, 4, 5, 6] 6, FrameUp 0 0 0 an_arp_frame an_arp_frame, ReadQueue 0 480] = Some (s, h) \<and>
     mset (map learned (got h @ flushed h @ queue_of s)) = mset (map facts_of (kept h))"
proof -
  have "ntc.run_ok (Some (a_counter, no_history)) [Request NTC_ADDBLOCK [1, 2, 3, 4, 5, 6] 6, FrameUp 0 0 0 an_arp_frame an_arp_frame, ReadQueue 0 480]"
    by (simp add: an_arp_frame_def)
  from logged_frames_are_read_once [OF a_counter_init a_queue_ok this] show ?thesis by blast
qed

text \<open>With one card added, its next frame passes and a frame of another card is given back and counted.\<close>

definition an_ip_frame :: "byte \<Rightarrow> bytes" where
  "an_ip_frame n = [9, 9, 9, 9, 9, 9, 1, 2, 3, 4, 5, n, 8, 0, 69, 0]"

lemma card_added:
  assumes "ntc.run (Some (a_counter, no_history)) [Request NTC_ADDBLOCK [1, 2, 3, 4, 5, 6] 6] = Some (s, h)"
  shows "ntc_ifs s = []" "cards h = [card_at [1, 2, 3, 4, 5, 6] 0]" "blocked_in s = 0"
  using assms by (auto simp: ntc_rm_devctl_def add_block_def a_counter_facts no_history_def Let_def count_request_def)

lemma an_ip_frame_card: "card_at (an_ip_frame n) 6 = card_at [1, 2, 3, 4, 5, n] 0" "card_at [1, 2, 3, 4, 5, 7] 0 \<noteq> card_at [1, 2, 3, 4, 5, 6] 0"
  by (simp_all add: an_ip_frame_def card_at_def get32_def get16_def)

theorem verdict_on_next_frame_witness:
  "\<exists>s h s'. ntc.run (Some (a_counter, no_history)) [Request NTC_ADDBLOCK [1, 2, 3, 4, 5, 6] 6] = Some (s, h) \<and>
     ntc_rx_up 0 0 0 (UpFrame (an_ip_frame 6) (an_ip_frame 6)) s = Some (Ok (PassOn, s')) \<and>
     ntc_rx_up 0 0 0 (UpFrame (an_ip_frame 7) (an_ip_frame 7)) s = Some (Ok (GiveBack, s\<lparr>blocked_in := 1\<rparr>))"
proof -
  let ?es = "[Request NTC_ADDBLOCK [1, 2, 3, 4, 5, 6] 6]"
  have ok: "ntc.run_ok (Some (a_counter, no_history)) ?es" by simp
  have l: "14 \<le> length (an_ip_frame n)" "length (an_ip_frame n) < 4294967296" "an_ip_frame n ! 13 = 0" for n
    by (simp_all add: an_ip_frame_def)
  note verdict = verdict_on_next_frame [OF a_counter_init a_queue_ok ok l(1,2), of True 0 0 0, unfolded if_True]
  from verdict [of 6 6] obtain s h v s' where r: "ntc.run (Some (a_counter, no_history)) ?es = Some (s, h)"
    and a: "ntc_rx_up 0 0 0 (UpFrame (an_ip_frame 6) (an_ip_frame 6)) s = Some (Ok (v, s'))"
      "v = GiveBack \<longleftrightarrow> \<not> (\<exists>k. find (same_if 0 0 0) (ntc_ifs s) = Some k \<and> \<not> ofinterest k) \<and>
        card_at (an_ip_frame 6) 6 \<notin> set (cards h) \<and> \<not> (an_ip_frame 6 ! 12 = 0x06 \<and> an_ip_frame 6 ! 13 = 0x08)"
    by (elim exE conjE) (rule that)
  have p: "v = PassOn" using a(2) card_added(2) [OF r] an_ip_frame_card(1) [of 6] by (cases v) auto
  from verdict [of 7 7] obtain s2 h2 w t where r2: "ntc.run (Some (a_counter, no_history)) ?es = Some (s2, h2)"
    and b: "ntc_rx_up 0 0 0 (UpFrame (an_ip_frame 7) (an_ip_frame 7)) s2 = Some (Ok (w, t))"
      "w = GiveBack \<longleftrightarrow> \<not> (\<exists>k. find (same_if 0 0 0) (ntc_ifs s2) = Some k \<and> \<not> ofinterest k) \<and>
        card_at (an_ip_frame 7) 6 \<notin> set (cards h2) \<and> \<not> (an_ip_frame 7 ! 12 = 0x06 \<and> an_ip_frame 7 ! 13 = 0x08)"
      "w = GiveBack \<longrightarrow> t = s2\<lparr>blocked_in := blocked_in s2 + 1\<rparr>" by (elim exE conjE) (rule that; assumption)
  have same: "s2 = s" "h2 = h" using r r2 by (simp_all del: ntc.run.simps)
  have "w = GiveBack" using b(2) card_added [OF r] an_ip_frame_card l(3) [of 7] same by auto
  then have "ntc_rx_up 0 0 0 (UpFrame (an_ip_frame 7) (an_ip_frame 7)) s = Some (Ok (GiveBack, s\<lparr>blocked_in := 1\<rparr>))"
    using b(1,3) same card_added(3) [OF r] by simp
  with r a(1) p show ?thesis by blast
qed

theorem arp_frames_are_blocked_witness:
  "ntc_rx_up 0 0 0 (UpFrame an_arp_frame an_arp_frame) a_counter = Some (Ok (GiveBack, a_counter\<lparr>blocked_in := 1\<rparr>))"
  using arp_frames_are_blocked [OF a_counter_facts(3), of 0 0 0 an_arp_frame an_arp_frame]
  by (simp add: skipped_def a_counter_facts an_arp_frame_def)

theorem deleting_card_drops_newer_witness:
  "\<exists>s s'. listed_cards s [(2, 0), (1, 0)] \<and> ntc_rm_devctl True NTC_DELBLOCK [1, 0, 0, 0, 0, 0] 6 s = Some (Ok (NtcValue 0, s')) \<and> listed_cards s' []"
proof -
  from add_block_listed [OF a_counter_facts(3), of "(1, 0)"] obtain s1 where "listed_cards s1 [(1, 0)]" by blast
  from add_block_listed [OF this, of "(2, 0)"] obtain s2 where s2: "listed_cards s2 ([(2, 0)] @ (1, 0) # [])" by auto
  have c: "card_at [1, 0, 0, 0, 0, 0] 0 = (1, 0)" by (simp add: card_at_def get32_def get16_def)
  from deleting_card_drops_newer [OF s2 _ c, of True 6] s2 show ?thesis by auto
qed

end
