(* ===== verification/NtcReader.thy ===== *)
theory NtcReader
  imports NtcLog QBaseTables
begin

text \<open>
  \<open>ntcread/ntcread.c\<close> and \<open>logging.h\<close>: the reader of the packet counter. It lists the cards of the database with the filter, reads the
  queue, sums the packets up in sessions, and writes the sessions to a table of the day. Of the database it sees the rows that
  are fetched and the answers to its calls. A \<open>double\<close> is its eight bytes, and what is computed with it is a parameter.
  Output on the screen is left out; records and row buffers are allocated.
\<close>

section \<open>Data\<close>

type_synonym float_bytes = bytes

text \<open>\<open>price\<close> is the product with the bytes, divided by 1048576.\<close>

record ntc_fpu =
  price :: "u32 \<Rightarrow> float_bytes \<Rightarrow> float_bytes"
  dbl_plus :: "float_bytes \<Rightarrow> float_bytes \<Rightarrow> float_bytes"

record acnt_data =
  a_UIN :: u32
  a_client :: u32
  sum_current :: float_bytes
  account_number :: bytes
  pay_mb_out :: float_bytes
  pay_mb_in :: float_bytes
  a_closed :: u32

record det_data =
  dt_UIN :: u32
  dt_NIC :: u32
  layer :: u16
  dt_proto :: u16
  IPcln :: u32
  IPdst :: u32
  PortCli :: u16
  PortDst :: u16
  BytesToCli :: u32
  BytesFromCli :: u32
  SumToCli :: float_bytes
  SumFromCli :: float_bytes

record nic_data =
  n_UIN :: u32
  n_MAC :: bytes
  n_closed :: u32
  n_accnt :: u32

text \<open>The account of a card is its place in the list of accounts.\<close>

record nic =
  NCard :: nic_data
  acnt_p :: nat
  LOG :: "det_data list"

record reader =
  accounts :: "acnt_data list"
  nics :: "nic list"
  ItIsTimeToLog :: nat

datatype reader_stop = ReaderExit | ReaderFault crash

type_synonym 'a readers = "reader_stop + 'a"

definition bind_reader :: "'a readers \<Rightarrow> ('a \<Rightarrow> 'b readers) \<Rightarrow> 'b readers" where
  "bind_reader m f = (case m of Inl e \<Rightarrow> Inl e | Inr x \<Rightarrow> f x)"

lemma bind_reader_simps [simp]: "bind_reader (Inl e) f = Inl e" "bind_reader (Inr x) f = f x"
  by (simp_all add: bind_reader_def)

lemma bind_reader_Inr_iff: "bind_reader m f = Inr y \<longleftrightarrow> (\<exists>x. m = Inr x \<and> f x = Inr y)"
  by (cases m) auto

section \<open>Reading accounts and cards\<close>

text \<open>A row is copied over a structure in a block of \<open>room\<close> bytes that has the contents \<open>junk\<close>.\<close>

definition copied_row :: "nat \<Rightarrow> bytes \<Rightarrow> bytes \<Rightarrow> bytes readers" where
  "copied_row room junk row = (if room < length row then Inl (ReaderFault OutOfBounds) else Inr (row @ drop (length row) junk))"

definition account_of :: "bytes \<Rightarrow> acnt_data" where
  "account_of d = \<lparr>a_UIN = get32 d 0, a_client = get32 d 4, sum_current = take 8 (drop 8 d), account_number = take 20 (drop 16 d),
     pay_mb_out = take 8 (drop 36 d), pay_mb_in = take 8 (drop 44 d), a_closed = get32 d 52\<rparr>"

fun read_accounts :: "bytes \<Rightarrow> bytes list \<Rightarrow> acnt_data list \<Rightarrow> acnt_data list readers" where
  "read_accounts junk [] as = Inr as"
| "read_accounts junk (row # rows) as = bind_reader (copied_row 60 junk row) (\<lambda>d. read_accounts junk rows (account_of d # as))"

definition card_of :: "bytes \<Rightarrow> nic_data" where
  "card_of d = \<lparr>n_UIN = get32 d 0, n_MAC = take 6 (drop 4 d), n_closed = get32 d 10, n_accnt = get32 d 14\<rparr>"

fun index_of :: "('a \<Rightarrow> bool) \<Rightarrow> 'a list \<Rightarrow> nat option" where
  "index_of P [] = None"
| "index_of P (x # xs) = (if P x then Some 0 else map_option Suc (index_of P xs))"

fun read_cards :: "bytes \<Rightarrow> acnt_data list \<Rightarrow> bytes list \<Rightarrow> nic list \<Rightarrow> nic list readers" where
  "read_cards junk as [] ns = Inr ns"
| "read_cards junk as (row # rows) ns = bind_reader (copied_row 32 junk row) (\<lambda>d.
     case index_of (\<lambda>a. a_UIN a = n_accnt (card_of d)) as of
       None \<Rightarrow> Inl ReaderExit
     | Some i \<Rightarrow> read_cards junk as rows (\<lparr>NCard = card_of d, acnt_p = i, LOG = []\<rparr> # ns))"

section \<open>Start\<close>

text \<open>The calls to the database in order; each of them ends the program when it fails.\<close>

datatype reader_call =
    RConnect string
  | RSelect string
  | RCaps string
  | SelectDay bytes
  | CreateDay bytes
  | CapsDay
  | InsertDay det_data u32

definition reader_start_calls :: "reader_call list" where
  "reader_start_calls =
     [RConnect ''acnt'', RConnect ''nic'', RConnect ''log'', RSelect ''ACCOUNTS'', RSelect ''NICS'', RCaps ''ACCOUNTS'', RCaps ''NICS'']"

text \<open>The interfaces that the filter knows are printed from an array of five.\<close>

definition list_interfaces :: "ntc \<Rightarrow> ntc readers" where
  "list_interfaces s =
     (case ntc_rm_devctl True NTC_IFPRESENT (replicate (5 * sizeof_if_info) 0) (5 * sizeof_if_info) s of
        Some (Ok (NtcIfs n is, s)) \<Rightarrow> if 5 < n then Inl (ReaderFault OutOfBounds) else Inr s
      | _ \<Rightarrow> Inl ReaderExit)"

definition watch_interface :: "ntc \<Rightarrow> ntc readers" where
  "watch_interface s =
     (case ntc_rm_devctl True NTC_ADDIF (bytes_of ''en0'' @ [0]) IFNAMSIZ s of
        Some (Ok (r, s)) \<Rightarrow> Inr s
      | _ \<Rightarrow> Inl ReaderExit)"

fun allow_cards :: "nic list \<Rightarrow> ntc \<Rightarrow> ntc readers" where
  "allow_cards [] s = Inr s"
| "allow_cards (n # ns) s =
     (if n_closed (NCard n) = 0 then
        (case ntc_rm_devctl True NTC_ADDBLOCK (n_MAC (NCard n)) MAC_ADDR_LENGTH s of
           Some (Ok (r, s)) \<Rightarrow> allow_cards ns s
         | _ \<Rightarrow> Inl ReaderExit)
      else allow_cards ns s)"

text \<open>The rows of the two tables and the last result of \<open>Qbase_fetch\<close> for each.\<close>

record reader_db =
  account_rows :: "bytes list"
  account_end :: qerr
  card_rows :: "bytes list"
  card_end :: qerr

definition reader_start :: "(reader_call \<Rightarrow> bool) \<Rightarrow> bytes \<Rightarrow> reader_db \<Rightarrow> bool \<Rightarrow> ntc \<Rightarrow> (reader \<times> ntc) readers" where
  "reader_start ok junk db device_ok s =
     (if \<not> list_all ok reader_start_calls then Inl ReaderExit
      else bind_reader (read_accounts junk (account_rows db) []) (\<lambda>as.
        if account_end db \<noteq> QBASE_E_LASTROW then Inl ReaderExit
        else bind_reader (read_cards junk as (card_rows db) []) (\<lambda>ns.
          if card_end db \<noteq> QBASE_E_LASTROW \<or> \<not> device_ok then Inl ReaderExit
          else bind_reader (list_interfaces s) (\<lambda>s. bind_reader (watch_interface s) (\<lambda>s. bind_reader (allow_cards ns s) (\<lambda>s.
            Inr (\<lparr>accounts = as, nics = ns, ItIsTimeToLog = 0\<rparr>, s)))))))"

section \<open>Sessions\<close>

text \<open>The headers of a packet, at their places behind each other.\<close>

definition ether_type :: "pkt_info \<Rightarrow> u16" where "ether_type e = get16 (pk_headers e) 12"
definition ip_proto :: "pkt_info \<Rightarrow> u16" where "ip_proto e = ucast (pk_headers e ! 23)"
definition ip_src :: "pkt_info \<Rightarrow> u32" where "ip_src e = get32 (pk_headers e) 26"
definition ip_dst :: "pkt_info \<Rightarrow> u32" where "ip_dst e = get32 (pk_headers e) 30"
definition src_port :: "pkt_info \<Rightarrow> u16" where "src_port e = get16 (pk_headers e) 34"
definition dst_port :: "pkt_info \<Rightarrow> u16" where "dst_port e = get16 (pk_headers e) 36"

definition client_mac :: "pkt_info \<Rightarrow> u32 \<times> u16" where
  "client_mac e = card_at (pk_headers e) (if pk_dir e = PKT_DIR_IN then 6 else 0)"

definition portful :: "u16 \<Rightarrow> bool" where
  "portful p \<longleftrightarrow> p = 6 \<or> p = 17"

definition in_session :: "pkt_info \<Rightarrow> det_data \<Rightarrow> bool" where
  "in_session e d \<longleftrightarrow>
     (let inc = (pk_dir e = PKT_DIR_IN) in
      layer d = ether_type e \<and>
      (layer d \<noteq> 0x0008 \<or>
       dt_proto d = ip_proto e \<and> IPcln d = (if inc then ip_src e else ip_dst e) \<and> IPdst d = (if inc then ip_dst e else ip_src e) \<and>
       (\<not> portful (dt_proto d) \<or>
        PortCli d = (if inc then src_port e else dst_port e) \<and> PortDst d = (if inc then dst_port e else src_port e))))"

definition new_session :: "u32 \<Rightarrow> pkt_info \<Rightarrow> det_data" where
  "new_session uin e =
     (let inc = (pk_dir e = PKT_DIR_IN);
          d = \<lparr>dt_UIN = 0, dt_NIC = uin, layer = ether_type e, dt_proto = 0, IPcln = 0, IPdst = 0, PortCli = 0, PortDst = 0, BytesToCli = 0,
               BytesFromCli = 0, SumToCli = replicate 8 0, SumFromCli = replicate 8 0\<rparr> in
      if layer d \<noteq> 0x0008 then d
      else let d = d\<lparr>IPcln := (if inc then ip_src e else ip_dst e), IPdst := (if inc then ip_dst e else ip_src e), dt_proto := ip_proto e\<rparr> in
        if \<not> portful (dt_proto d) then d
        else d\<lparr>PortCli := (if inc then src_port e else dst_port e), PortDst := (if inc then dst_port e else src_port e)\<rparr>)"

definition add_bytes :: "pkt_info \<Rightarrow> det_data \<Rightarrow> det_data" where
  "add_bytes e d = (if pk_dir e = PKT_DIR_IN then d\<lparr>BytesFromCli := BytesFromCli d + pk_len e\<rparr> else d\<lparr>BytesToCli := BytesToCli d + pk_len e\<rparr>)"

text \<open>A new session becomes the head of its list.\<close>

definition log_session :: "u32 \<Rightarrow> pkt_info \<Rightarrow> det_data list \<Rightarrow> det_data list" where
  "log_session uin e ds =
     (case index_of (in_session e) ds of
        Some i \<Rightarrow> ds[i := add_bytes e (ds ! i)]
      | None \<Rightarrow> add_bytes e (new_session uin e) # ds)"

fun log_entries :: "pkt_info list \<Rightarrow> nic list \<Rightarrow> nic list readers" where
  "log_entries [] ns = Inr ns"
| "log_entries (e # es) ns =
     (case index_of (\<lambda>n. card_at (n_MAC (NCard n)) 0 = client_mac e) ns of
        None \<Rightarrow> Inl ReaderExit
      | Some i \<Rightarrow> log_entries es (ns[i := (ns ! i)\<lparr>LOG := log_session (n_UIN (NCard (ns ! i))) e (LOG (ns ! i))\<rparr>]))"

section \<open>Writing the sessions\<close>

record reader_env =
  rfp :: ntc_fpu
  ranswer :: "reader_call list \<Rightarrow> reader_call \<Rightarrow> qerr"
  day_name :: "u32 \<Rightarrow> bytes"

text \<open>The columns of the table, from the first on.\<close>

definition day_columns :: "(nat \<times> nat) list" where
  "day_columns =
     [(QBASE_TYPE_UINT, 0), (QBASE_TYPE_UINT16, 0), (QBASE_TYPE_UINT16, 0), (QBASE_TYPE_UINT, 0), (QBASE_TYPE_UINT, 0), (QBASE_TYPE_UINT16, 0),
      (QBASE_TYPE_UINT16, 0), (QBASE_TYPE_UINT, 0), (QBASE_TYPE_UINT, 0), (QBASE_TYPE_DOUBLE, 0), (QBASE_TYPE_DOUBLE, 0), (QBASE_TYPE_TIMESTAMP, 0)]"

definition day_table_desc :: "bytes \<Rightarrow> desc outcome" where
  "day_table_desc name = bindo (Qbase_new_tbldesc True 12 100 3 name) (\<lambda>r. case r of None \<Rightarrow> Crash NullPointer | Some d \<Rightarrow> set_columns day_columns 1 d)"

definition open_day :: "reader_env \<Rightarrow> u32 \<Rightarrow> reader_call list \<Rightarrow> reader_call list readers" where
  "open_day e now cs =
     (let name = day_name e now; r = ranswer e cs (SelectDay name); cs = cs @ [SelectDay name] in
      if r = QBASE_E_OK then
        if ranswer e cs CapsDay = QBASE_E_OK then Inr (cs @ [CapsDay]) else Inl ReaderExit
      else if r \<noteq> QBASE_E_NOTBLEXIST then Inl ReaderExit
      else if ranswer e cs (CreateDay name) = QBASE_E_OK then Inr (cs @ [CreateDay name]) else Inl ReaderExit)"

definition priced :: "ntc_fpu \<Rightarrow> acnt_data \<Rightarrow> det_data \<Rightarrow> det_data" where
  "priced f a d = d\<lparr>SumToCli := price f (BytesToCli d) (pay_mb_in a), SumFromCli := price f (BytesFromCli d) (pay_mb_out a)\<rparr>"

fun save_sessions :: "reader_env \<Rightarrow> u32 \<Rightarrow> nat \<Rightarrow> det_data list \<Rightarrow> acnt_data list \<times> reader_call list \<Rightarrow> (acnt_data list \<times> reader_call list) readers" where
  "save_sessions e now i [] st = Inr st"
| "save_sessions e now i (d # ds) (as, cs) =
     (let d = priced (rfp e) (as ! i) d;
          as = as[i := (as ! i)\<lparr>sum_current := dbl_plus (rfp e) (sum_current (as ! i)) (dbl_plus (rfp e) (SumToCli d) (SumFromCli d))\<rparr>] in
      if ranswer e cs (InsertDay d now) = QBASE_E_OK then save_sessions e now i ds (as, cs @ [InsertDay d now]) else Inl ReaderExit)"

fun save_cards :: "reader_env \<Rightarrow> u32 \<Rightarrow> nic list \<Rightarrow> acnt_data list \<times> reader_call list \<Rightarrow> (acnt_data list \<times> reader_call list) readers" where
  "save_cards e now [] st = Inr st"
| "save_cards e now (n # ns) st = bind_reader (save_sessions e now (acnt_p n) (LOG n) st) (save_cards e now ns)"

definition save_log :: "reader_env \<Rightarrow> u32 \<Rightarrow> reader \<Rightarrow> reader_call list \<Rightarrow> (reader \<times> reader_call list) readers" where
  "save_log e now r cs =
     bind_reader (open_day e now cs) (\<lambda>cs.
     bind_reader (save_cards e now (nics r) (map (\<lambda>a. a\<lparr>sum_current := replicate 8 0\<rparr>) (accounts r), cs)) (\<lambda>(as, cs).
       Inr (r\<lparr>accounts := as, nics := map (\<lambda>n. n\<lparr>LOG := []\<rparr>) (nics r), ItIsTimeToLog := 0\<rparr>, cs)))"

section \<open>A round\<close>

text \<open>The two requests for the counters are only printed.\<close>

definition ntcread_round :: "reader_env \<Rightarrow> u32 \<Rightarrow> reader \<times> reader_call list \<times> ntc \<Rightarrow> (reader \<times> reader_call list \<times> ntc) readers" where
  "ntcread_round e now = (\<lambda>(r, cs, s).
     (case ntc_rm_read 0 (MAX_PKT_READ * sizeof_pkt_info) s of
        (ReadNoSys, s) \<Rightarrow> Inl ReaderExit
      | (Packets ps, s) \<Rightarrow>
          if ps = [] then Inr (r, cs, s)
          else bind_reader (log_entries ps (nics r)) (\<lambda>ns.
            let r = r\<lparr>nics := ns, ItIsTimeToLog := ItIsTimeToLog r + 1\<rparr> in
            if ItIsTimeToLog r = 3 then bind_reader (save_log e now r cs) (\<lambda>(r, cs). Inr (r, cs, s)) else Inr (r, cs, s))))"

end
