(* ===== verification/NtcTotals.thy ===== *)
theory NtcTotals
  imports NtcReader
begin

text \<open>
  The packet counter and its reader together: the sessions that the reader forms and writes hold the bytes of the packets it has read,
  and every packet that the filter has logged is of a card that the reader knows.
\<close>

section \<open>Sums over sessions\<close>

text \<open>A session belongs to a card and is one combination of protocols, addresses and ports.\<close>

type_synonym session_key = "u16 \<times> u16 \<times> u32 \<times> u32 \<times> u16 \<times> u16"

definition key_of :: "det_data \<Rightarrow> session_key" where
  "key_of d = (layer d, dt_proto d, IPcln d, IPdst d, PortCli d, PortDst d)"

definition amount :: "bool \<Rightarrow> det_data \<Rightarrow> u32" where
  "amount inc d = (if inc then BytesFromCli d else BytesToCli d)"

definition weight :: "bool \<Rightarrow> pkt_info \<Rightarrow> u32" where
  "weight inc e = (if (pk_dir e = PKT_DIR_IN) = inc then pk_len e else 0)"

definition session_total :: "bool \<Rightarrow> u32 \<times> session_key \<Rightarrow> det_data list \<Rightarrow> u32" where
  "session_total inc k ds = (\<Sum>d \<leftarrow> ds. if (dt_NIC d, key_of d) = k then amount inc d else 0)"

lemma session_total_simps [simp]:
  "session_total inc k [] = 0" "session_total inc k (ds @ ds') = session_total inc k ds + session_total inc k ds'"
  "session_total inc k (d # ds) = (if (dt_NIC d, key_of d) = k then amount inc d else 0) + session_total inc k ds"
  by (simp_all add: session_total_def)

text \<open>The fields that a session does not use are zero.\<close>

definition proper :: "det_data \<Rightarrow> bool" where
  "proper d \<longleftrightarrow> (layer d \<noteq> 8 \<longrightarrow> dt_proto d = 0 \<and> IPcln d = 0 \<and> IPdst d = 0) \<and> (layer d \<noteq> 8 \<or> \<not> portful (dt_proto d) \<longrightarrow> PortCli d = 0 \<and> PortDst d = 0)"

lemma new_session_facts: "dt_NIC (new_session u e) = u" "proper (new_session u e)" "amount inc (new_session u e) = 0"
  by (simp_all add: new_session_def Let_def proper_def amount_def)

lemma add_bytes_facts: "dt_NIC (add_bytes e d) = dt_NIC d" "key_of (add_bytes e d) = key_of d" "proper (add_bytes e d) = proper d"
  "amount inc (add_bytes e d) = amount inc d + weight inc e"
  by (auto simp: add_bytes_def key_of_def proper_def amount_def weight_def)

lemma in_session_key: "proper d \<Longrightarrow> in_session e d \<longleftrightarrow> key_of d = key_of (new_session u e)"
  by (auto simp: in_session_def key_of_def new_session_def Let_def proper_def)

lemma index_of_Some: "index_of P xs = Some i \<Longrightarrow> i < length xs \<and> P (xs ! i)"
  by (induction xs arbitrary: i) (auto split: if_splits)

lemma index_of_None: "index_of P xs = None \<longleftrightarrow> (\<forall>x \<in> set xs. \<not> P x)"
  by (induction xs) auto

lemma session_total_update:
  assumes "i < length ds" "dt_NIC x = dt_NIC (ds ! i)" "key_of x = key_of (ds ! i)"
  shows "session_total inc k (ds[i := x]) = session_total inc k ds + (if (dt_NIC x, key_of x) = k then amount inc x - amount inc (ds ! i) else 0)"
  using assms
proof (induction ds arbitrary: i)
  case (Cons d ds)
  then show ?case by (cases i) (auto simp: algebra_simps)
qed simp

definition sessions_ok :: "u32 \<Rightarrow> det_data list \<Rightarrow> bool" where
  "sessions_ok u ds \<longleftrightarrow> (\<forall>d \<in> set ds. dt_NIC d = u \<and> proper d)"

lemma log_session_total:
  assumes "sessions_ok u ds"
  shows "session_total inc k (log_session u e ds) = session_total inc k ds + (if (u, key_of (new_session u e)) = k then weight inc e else 0) \<and>
    sessions_ok u (log_session u e ds)"
proof (cases "index_of (in_session e) ds")
  case None
  then show ?thesis using assms by (auto simp: log_session_def add_bytes_facts new_session_facts sessions_ok_def)
next
  case (Some i)
  with index_of_Some [OF Some] have i: "i < length ds" "in_session e (ds ! i)" "log_session u e ds = ds[i := add_bytes e (ds ! i)]" by (simp_all add: log_session_def)
  from assms i(1) have d: "dt_NIC (ds ! i) = u" "proper (ds ! i)" by (simp_all add: sessions_ok_def)
  from in_session_key [OF d(2)] i(2) have k: "key_of (ds ! i) = key_of (new_session u e)" by blast
  have "sessions_ok u (ds[i := add_bytes e (ds ! i)])" using assms d
    by (auto simp: sessions_ok_def add_bytes_facts dest!: set_update_subset_insert [THEN subsetD])
  with session_total_update [OF i(1), of "add_bytes e (ds ! i)" inc k] show ?thesis by (simp add: i(3) add_bytes_facts d k)
qed

definition pending :: "nic list \<Rightarrow> det_data list" where
  "pending ns = concat (map LOG ns)"

definition mac_of :: "nic \<Rightarrow> u32 \<times> u16" where
  "mac_of n = card_at (n_MAC (NCard n)) 0"

definition nics_ok :: "nic list \<Rightarrow> bool" where
  "nics_ok ns \<longleftrightarrow> (\<forall>n \<in> set ns. sessions_ok (n_UIN (NCard n)) (LOG n))"

text \<open>The key of the session of a packet.\<close>

definition packet_key :: "nic list \<Rightarrow> pkt_info \<Rightarrow> u32 \<times> session_key" where
  "packet_key ns e =
     (let u = (case index_of (\<lambda>n. mac_of n = client_mac e) ns of None \<Rightarrow> 0 | Some i \<Rightarrow> n_UIN (NCard (ns ! i))) in (u, key_of (new_session u e)))"

definition packet_total :: "nic list \<Rightarrow> bool \<Rightarrow> u32 \<times> session_key \<Rightarrow> pkt_info list \<Rightarrow> u32" where
  "packet_total ns inc k es = (\<Sum>e \<leftarrow> es. if packet_key ns e = k then weight inc e else 0)"

text \<open>What stays of the cards.\<close>

lemma index_of_map: "index_of (\<lambda>x. P (f x)) xs = index_of P (map f xs)"
  by (induction xs) auto

lemma packet_key_cong:
  assumes "map NCard ns' = map NCard ns"
  shows "packet_key ns' e = packet_key ns e"
proof -
  have i: "index_of (\<lambda>n. mac_of n = client_mac e) ms = index_of (\<lambda>c. card_at (n_MAC c) 0 = client_mac e) (map NCard ms)" for ms
    unfolding mac_of_def by (rule index_of_map)
  have "NCard (ns' ! j) = NCard (ns ! j)" if "j < length ns" for j
    using assms that by (metis length_map nth_map)
  moreover have "j < length ns" if "index_of (\<lambda>c. card_at (n_MAC c) 0 = client_mac e) (map NCard ns) = Some j" for j
    using index_of_Some [OF that] by simp
  ultimately show ?thesis unfolding packet_key_def i assms by (auto split: option.split)
qed

lemma pending_update:
  "i < length ns \<Longrightarrow> session_total inc k (pending (ns[i := n])) = session_total inc k (pending ns) - session_total inc k (LOG (ns ! i)) + session_total inc k (LOG n)"
proof (induction ns arbitrary: i)
  case (Cons m ns)
  then show ?case by (cases i) (auto simp: pending_def algebra_simps)
qed simp

lemma log_entries_totals:
  assumes "nics_ok ns" "\<forall>e \<in> set es. client_mac e \<in> set (map mac_of ns)"
  shows "\<exists>ns'. log_entries es ns = Inr ns' \<and> map NCard ns' = map NCard ns \<and> map acnt_p ns' = map acnt_p ns \<and> nics_ok ns' \<and>
    (\<forall>inc k. session_total inc k (pending ns') = session_total inc k (pending ns) + packet_total ns inc k es)"
  using assms
proof (induction es arbitrary: ns)
  case Nil
  then show ?case by (simp add: packet_total_def)
next
  case (Cons e es)
  from Cons.prems(2) obtain i where "index_of (\<lambda>n. mac_of n = client_mac e) ns = Some i"
    using index_of_None [of "\<lambda>n. mac_of n = client_mac e" ns] by fastforce
  note i = this index_of_Some [OF this, THEN conjunct1]
  define u where "u = n_UIN (NCard (ns ! i))"
  define ns1 where "ns1 = ns[i := (ns ! i)\<lparr>LOG := log_session u e (LOG (ns ! i))\<rparr>]"
  have ok: "sessions_ok u (LOG (ns ! i))" using Cons.prems(1) i(2) by (simp add: nics_ok_def u_def)
  have m: "map NCard ns1 = map NCard ns" "map acnt_p ns1 = map acnt_p ns" using i(2) list_update_id [of "map NCard ns" i] list_update_id [of "map acnt_p ns" i] by (simp_all add: ns1_def map_update)
  have n1: "nics_ok ns1" using Cons.prems(1) log_session_total [OF ok] unfolding nics_ok_def ns1_def
    by (auto simp: u_def dest!: set_update_subset_insert [THEN subsetD])
  have macs: "set (map mac_of ns1) = set (map mac_of ns)"
    using arg_cong [OF m(1), of "\<lambda>cs. set (map (\<lambda>c. card_at (n_MAC c) 0) cs)"] by (simp add: mac_of_def image_image)
  from Cons.IH [OF n1] Cons.prems(2) macs obtain ns' where ns': "log_entries es ns1 = Inr ns'" "map NCard ns' = map NCard ns1"
    "map acnt_p ns' = map acnt_p ns1" "nics_ok ns'"
    "\<forall>inc k. session_total inc k (pending ns') = session_total inc k (pending ns1) + packet_total ns1 inc k es" by auto
  have key: "packet_key ns e = (u, key_of (new_session u e))" by (simp add: packet_key_def i(1) u_def Let_def)
  have "session_total inc k (pending ns1) = session_total inc k (pending ns) + (if packet_key ns e = k then weight inc e else 0)" for inc k
    unfolding ns1_def pending_update [OF i(2)] key using log_session_total [OF ok, of inc k e] by simp
  moreover have "packet_total ns1 inc k es = packet_total ns inc k es" for inc k
    by (simp add: packet_total_def packet_key_cong [OF m(1)])
  ultimately have "session_total inc k (pending ns') = session_total inc k (pending ns) + packet_total ns inc k (e # es)" for inc k
    using ns'(5) [rule_format, of inc k] by (simp add: packet_total_def add.assoc)
  moreover have "log_entries (e # es) ns = Inr ns'" using i(1) ns'(1) by (simp add: mac_of_def u_def ns1_def)
  ultimately show ?case using ns'(2-4) m by auto
qed


section \<open>Sums over the table\<close>

definition written :: "reader_call list \<Rightarrow> det_data list" where
  "written cs = concat (map (\<lambda>c. case c of InsertDay d now \<Rightarrow> [d] | _ \<Rightarrow> []) cs)"

lemma written_simps [simp]: "written [] = []" "written (cs @ ds) = written cs @ written ds" "written (InsertDay d now # cs) = d # written cs"
  "written (SelectDay nm # cs) = written cs" "written (CreateDay nm # cs) = written cs" "written (CapsDay # cs) = written cs"
  by (simp_all add: written_def)

definition answers_fine :: "reader_env \<Rightarrow> bool" where
  "answers_fine e \<longleftrightarrow> (\<forall>cs nm. ranswer e cs (SelectDay nm) \<in> {QBASE_E_OK, QBASE_E_NOTBLEXIST} \<and> ranswer e cs (CreateDay nm) = QBASE_E_OK) \<and>
     (\<forall>cs d now. ranswer e cs (InsertDay d now) = QBASE_E_OK) \<and> (\<forall>cs. ranswer e cs CapsDay = QBASE_E_OK)"

lemma priced_facts: "dt_NIC (priced f a d) = dt_NIC d" "key_of (priced f a d) = key_of d" "amount inc (priced f a d) = amount inc d"
  by (simp_all add: priced_def key_of_def amount_def)

lemma save_sessions_total:
  assumes "answers_fine e"
  shows "\<exists>as' cs'. save_sessions e now i ds (as, cs) = Inr (as', cs') \<and>
    (\<forall>inc k. session_total inc k (written cs') = session_total inc k (written cs) + session_total inc k ds)"
proof (induction ds arbitrary: as cs)
  case (Cons d ds)
  let ?d = "priced (rfp e) (as ! i) d"
  from Cons [of "as[i := (as ! i)\<lparr>sum_current := dbl_plus (rfp e) (sum_current (as ! i)) (dbl_plus (rfp e) (SumToCli ?d) (SumFromCli ?d))\<rparr>]" "cs @ [InsertDay ?d now]"]
    assms show ?case by (auto simp: answers_fine_def Let_def priced_facts add.assoc)
qed simp

lemma save_cards_total:
  assumes "answers_fine e"
  shows "\<exists>as' cs'. save_cards e now ns (as, cs) = Inr (as', cs') \<and>
    (\<forall>inc k. session_total inc k (written cs') = session_total inc k (written cs) + session_total inc k (pending ns))"
proof (induction ns arbitrary: as cs)
  case (Cons n ns)
  from save_sessions_total [OF assms, of now "acnt_p n" "LOG n" as cs] obtain as1 cs1 where
    1: "save_sessions e now (acnt_p n) (LOG n) (as, cs) = Inr (as1, cs1)"
      "\<forall>inc k. session_total inc k (written cs1) = session_total inc k (written cs) + session_total inc k (LOG n)" by blast
  from Cons [of as1 cs1] 1 show ?case by (auto simp: pending_def add.assoc)
qed (simp add: pending_def)

lemma open_day_runs: "answers_fine e \<Longrightarrow> \<exists>cs'. open_day e now cs = Inr cs' \<and> written cs' = written cs"
  by (auto simp: open_day_def answers_fine_def Let_def)

lemma save_log_total:
  assumes "answers_fine e" "nics_ok (nics r)"
  shows "\<exists>r' cs'. save_log e now r cs = Inr (r', cs') \<and> map NCard (nics r') = map NCard (nics r) \<and> nics_ok (nics r') \<and> ItIsTimeToLog r' = 0 \<and>
    (\<forall>inc k. session_total inc k (written cs' @ pending (nics r')) = session_total inc k (written cs @ pending (nics r)))"
proof -
  from open_day_runs [OF assms(1)] obtain cs1 where 1: "open_day e now cs = Inr cs1" "written cs1 = written cs" by blast
  from save_cards_total [OF assms(1), of now "nics r" "map (\<lambda>a. a\<lparr>sum_current := replicate 8 0\<rparr>) (accounts r)" cs1] obtain as' cs' where
    2: "save_cards e now (nics r) (map (\<lambda>a. a\<lparr>sum_current := replicate 8 0\<rparr>) (accounts r), cs1) = Inr (as', cs')"
      "\<forall>inc k. session_total inc k (written cs') = session_total inc k (written cs1) + session_total inc k (pending (nics r))" by blast
  have "pending (map (\<lambda>n. n\<lparr>LOG := []\<rparr>) ns) = []" for ns by (induction ns) (auto simp: pending_def)
  then show ?thesis using 1 2 by (auto simp: save_log_def nics_ok_def sessions_ok_def)
qed

lemma map_NCard_macs: "map NCard ns' = map NCard ns \<Longrightarrow> set (map mac_of ns') = set (map mac_of ns)"
  by (drule arg_cong [of _ _ "\<lambda>cs. set (map (\<lambda>c. card_at (n_MAC c) 0) cs)"]) (simp add: mac_of_def image_image)

text \<open>A round when all packets of the queue are of known cards.\<close>

lemma ntcread_round_total:
  assumes "answers_fine e" "nics_ok (nics r)" "ntc_rm_read 0 (MAX_PKT_READ * sizeof_pkt_info) s = (Packets ps, s')"
    and "\<forall>p \<in> set ps. client_mac p \<in> set (map mac_of (nics r))"
  shows "\<exists>r' cs'. ntcread_round e now (r, cs, s) = Inr (r', cs', s') \<and> map NCard (nics r') = map NCard (nics r) \<and> nics_ok (nics r') \<and>
    (\<forall>inc k. session_total inc k (written cs' @ pending (nics r')) = session_total inc k (written cs @ pending (nics r)) + packet_total (nics r) inc k ps)"
proof (cases "ps = []")
  case True
  then have "ntcread_round e now (r, cs, s) = Inr (r, cs, s')" by (simp add: ntcread_round_def assms(3))
  with True assms(2) show ?thesis by (simp add: packet_total_def)
next
  case False
  from log_entries_totals [OF assms(2,4)] obtain ns where ns: "log_entries ps (nics r) = Inr ns" "map NCard ns = map NCard (nics r)" "nics_ok ns"
    "\<forall>inc k. session_total inc k (pending ns) = session_total inc k (pending (nics r)) + packet_total (nics r) inc k ps" by blast
  define r1 where "r1 = r\<lparr>nics := ns, ItIsTimeToLog := ItIsTimeToLog r + 1\<rparr>"
  have n: "nics r1 = ns" by (simp add: r1_def)
  have e: "ntcread_round e now (r, cs, s) = (if ItIsTimeToLog r1 = 3 then bind_reader (save_log e now r1 cs) (\<lambda>(r, cs). Inr (r, cs, s')) else Inr (r1, cs, s'))"
    using False by (simp add: ntcread_round_def assms(3) ns(1) Let_def r1_def)
  show ?thesis
  proof (cases "ItIsTimeToLog r1 = 3")
    case True
    from save_log_total [OF assms(1), of r1 now cs] ns(3) n obtain r2 cs2 where
      "save_log e now r1 cs = Inr (r2, cs2)" "map NCard (nics r2) = map NCard ns" "nics_ok (nics r2)"
      "\<forall>inc k. session_total inc k (written cs2 @ pending (nics r2)) = session_total inc k (written cs @ pending ns)" by auto
    with e True ns(2,4) show ?thesis by (auto simp: add.assoc)
  next
    case False
    with e n ns(2-4) show ?thesis by (auto simp: add.assoc)
  qed
qed

section \<open>Filter and reader together\<close>

lemma card_at_cong: "(\<And>i. i < 14 \<Longrightarrow> xs ! i = ys ! i) \<Longrightarrow> off \<le> 8 \<Longrightarrow> card_at xs off = card_at ys off"
  by (simp add: card_at_def get32_def get16_def)

lemma entry_card:
  assumes "learned e = facts_of (dir, frame)" "14 \<le> length frame" "length frame < 4294967296"
  shows "client_mac e = card_at frame (if dir = PKT_DIR_IN then 6 else 0)"
proof -
  from assms have d: "pk_dir e = dir" "take (min PKT_LOG_SIZE (length frame)) (pk_headers e) = take PKT_LOG_SIZE frame"
    by (auto simp: learned_def facts_of_def unat_of_nat take_bit_nat_eq_self)
  have "pk_headers e ! i = frame ! i" if "i < 14" for i
    using arg_cong [OF d(2), of "\<lambda>xs. xs ! i"] that assms(2) by (simp add: PKT_LOG_SIZE_def)
  then show ?thesis unfolding client_mac_def d(1) by (intro card_at_cong) auto
qed

fun frame_known :: "(u32 \<times> u16) set \<Rightarrow> u16 \<times> bytes \<Rightarrow> bool" where
  "frame_known macs (dir, frame) \<longleftrightarrow> 14 \<le> length frame \<and> length frame < 4294967296 \<and> card_at frame (if dir = PKT_DIR_IN then 6 else 0) \<in> macs"

definition kept_known :: "ntc_history \<Rightarrow> (u32 \<times> u16) set \<Rightarrow> bool" where
  "kept_known h macs \<longleftrightarrow> list_all (frame_known macs) (kept h)"

lemma got_known:
  assumes "ntc_inv (Some (s, h))" "kept_known h macs" "e \<in> set (got h)"
  shows "client_mac e \<in> macs"
proof -
  from assms(1) have "set (map learned (got h @ flushed h @ queue_of s)) = set (map facts_of (kept h))" by (metis ntc_inv.simps(2) mset_eq_setD)
  with assms(3) have "learned e \<in> facts_of ` set (kept h)" by auto
  then obtain dir frame where "(dir, frame) \<in> set (kept h)" "learned e = facts_of (dir, frame)" by auto
  moreover from this(1) assms(2) have "frame_known macs (dir, frame)" by (auto simp: kept_known_def list_all_iff)
  ultimately show ?thesis using entry_card [of e dir frame] by auto
qed

text \<open>A frame of the network whose first buffer is the beginning of it.\<close>

fun network_event :: "ntc_event \<Rightarrow> bool" where
  "network_event (FrameUp c e i iov frame) \<longleftrightarrow> 14 \<le> length iov \<and> length frame < 4294967296 \<and> take (length iov) frame = iov"
| "network_event (FrameDown c e i iov frame) \<longleftrightarrow> 14 \<le> length iov \<and> length frame < 4294967296 \<and> take (length iov) frame = iov"
| "network_event (MessageUp c e i up) \<longleftrightarrow> (\<forall>iov frame. up \<noteq> UpFrame iov frame)"
| "network_event (MessageDown c e i) \<longleftrightarrow> True"
| "network_event ev \<longleftrightarrow> False"

lemma checked_frame_known:
  assumes "ntc_inv (Some (s, h))" "set (cards h) \<subseteq> macs" "kept_known h macs" "14 \<le> length iov" "length frame < 4294967296" "take (length iov) frame = iov"
    and "handled (\<lambda>h v. count_frame s (v = PassOn \<and> checked c e i iov s) dir frame h) h r = Some (s', h')"
    and "r = (if skipped c e i s then Some (Ok (PassOn, s)) else check_card incoming iov frame s)" "dir = (if incoming then PKT_DIR_IN else PKT_DIR_OUT)"
  shows "cards h' = cards h \<and> got h' = got h \<and> kept_known h' macs"
proof (cases "skipped c e i s")
  case True
  with assms(3,7,8) show ?thesis by (auto simp: checked_def count_frame_def)
next
  case False
  from check_card_cases [of s "cards h" iov frame incoming] assms(1,4,5) obtain v t where v: "check_card incoming iov frame s = Some (Ok (v, t))"
    "v = PassOn \<longleftrightarrow> get16 iov 12 = ARP_FRAME \<or> card_at iov (if incoming then 6 else 0) \<in> set (cards h)" by auto
  have l: "14 \<le> length frame" using assms(4,6) by (metis length_take min.bounded_iff)
  have "iov ! j = frame ! j" if "j < 14" for j using arg_cong [OF assms(6), of "\<lambda>xs. xs ! j"] that assms(4) by simp
  then have "card_at iov (if incoming then 6 else 0) = card_at frame (if incoming then 6 else 0)" by (intro card_at_cong) auto
  moreover have "(dir = PKT_DIR_IN) = incoming" by (simp add: assms(9) PKT_DIR_IN_def PKT_DIR_OUT_def)
  ultimately have "frame_known macs (dir, frame)" if "v = PassOn" "get16 iov 12 \<noteq> ARP_FRAME" using v(2) that l assms(2,5) by auto
  with assms(3,7) v(1) False show ?thesis by (auto simp: assms(8) count_frame_def checked_def kept_known_def split: if_splits)
qed

lemma network_step:
  assumes "ntc_inv (Some (s, h))" "set (cards h) \<subseteq> macs" "kept_known h macs" "network_event ev"
  shows "\<exists>s' h'. ntc_step (Some (s, h)) ev = Some (s', h') \<and> ntc_inv (Some (s', h')) \<and> cards h' = cards h \<and> got h' = got h \<and> kept_known h' macs"
proof -
  have "ntc_event_ok (Some (s, h)) ev" using assms(4) by (cases ev) auto
  from ntc.step_inv [OF assms(1) this] obtain s' h' where st: "ntc_step (Some (s, h)) ev = Some (s', h')" "ntc_inv (Some (s', h'))"
    by (cases "ntc_step (Some (s, h)) ev") auto
  have "cards h' = cards h \<and> got h' = got h \<and> kept_known h' macs"
  proof (cases ev)
    case (FrameUp c e i iov frame)
    with st(1) assms show ?thesis by (intro checked_frame_known [where incoming = True, OF assms(1-3)]) (auto simp: ntc_rx_up_def)
  next
    case (FrameDown c e i iov frame)
    with st(1) assms show ?thesis by (intro checked_frame_known [where incoming = False, OF assms(1-3)]) (auto simp: ntc_rx_down_def)
  next
    case (MessageUp c e i up)
    with st(1) assms(3,4) show ?thesis by (cases up) (auto simp: ntc_rx_up_def)
  next
    case (MessageDown c e i)
    with st(1) assms(3) show ?thesis by (auto simp: ntc_rx_down_def)
  qed (use assms(4) in auto)
  with st show ?thesis by blast
qed

datatype nr_event = Net ntc_event | ReaderRound u32

fun nr_step :: "reader_env \<Rightarrow> (ntc \<times> ntc_history \<times> reader \<times> reader_call list) readers \<Rightarrow> nr_event \<Rightarrow> (ntc \<times> ntc_history \<times> reader \<times> reader_call list) readers" where
  "nr_step e (Inl x) ev = Inl x"
| "nr_step e (Inr (s, h, r, cs)) (Net ev) =
     (case ntc_step (Some (s, h)) ev of None \<Rightarrow> Inl (ReaderFault BrokenChain) | Some (s', h') \<Rightarrow> Inr (s', h', r, cs))"
| "nr_step e (Inr (s, h, r, cs)) (ReaderRound now) =
     bind_reader (ntcread_round e now (r, cs, s)) (\<lambda>(r', cs', s').
       Inr (s', (case fst (ntc_rm_read 0 (MAX_PKT_READ * sizeof_pkt_info) s) of Packets ps \<Rightarrow> h\<lparr>got := got h @ ps\<rparr> | ReadNoSys \<Rightarrow> h), r', cs'))"

fun nr_event_ok :: "(ntc \<times> ntc_history \<times> reader \<times> reader_call list) readers \<Rightarrow> nr_event \<Rightarrow> bool" where
  "nr_event_ok s (Net ev) \<longleftrightarrow> network_event ev"
| "nr_event_ok s (ReaderRound now) \<longleftrightarrow> True"

fun nr_inv :: "reader_env \<Rightarrow> (ntc \<times> ntc_history \<times> reader \<times> reader_call list) readers \<Rightarrow> bool" where
  "nr_inv e (Inl x) \<longleftrightarrow> False"
| "nr_inv e (Inr (s, h, r, cs)) \<longleftrightarrow> answers_fine e \<and> ntc_inv (Some (s, h)) \<and> nics_ok (nics r) \<and> set (cards h) \<subseteq> set (map mac_of (nics r)) \<and>
     kept_known h (set (map mac_of (nics r))) \<and>
     (\<forall>inc k. session_total inc k (written cs @ pending (nics r)) = packet_total (nics r) inc k (got h))"

lemma packet_total_append: "packet_total ns inc k (es @ fs) = packet_total ns inc k es + packet_total ns inc k fs"
  by (simp add: packet_total_def)

lemma nr_round_step:
  assumes "nr_inv e (Inr (s, h, r, cs))"
  shows "nr_inv e (nr_step e (Inr (s, h, r, cs)) (ReaderRound now))"
proof -
  obtain ps s' where rd: "ntc_rm_read 0 (MAX_PKT_READ * sizeof_pkt_info) s = (Packets ps, s')"
    by (cases "ntc_rm_read 0 (MAX_PKT_READ * sizeof_pkt_info) s") (auto simp: ntc_rm_read_def Let_def split: if_splits)
  define h' where "h' = h\<lparr>got := got h @ ps\<rparr>"
  have i: "ntc_inv (Some (s', h'))" using read_step [of s h 0 "MAX_PKT_READ * sizeof_pkt_info"] assms(1) by (simp add: rd h'_def)
  have kn: "kept_known h' (set (map mac_of (nics r)))" using assms(1) by (simp add: h'_def kept_known_def)
  have "\<forall>p \<in> set ps. client_mac p \<in> set (map mac_of (nics r))" using got_known [OF i kn] by (simp add: h'_def)
  from ntcread_round_total [OF _ _ rd this, of e now cs] assms(1) obtain r' cs' where
    r': "ntcread_round e now (r, cs, s) = Inr (r', cs', s')" "map NCard (nics r') = map NCard (nics r)" "nics_ok (nics r')"
      "\<forall>inc k. session_total inc k (written cs' @ pending (nics r')) = session_total inc k (written cs @ pending (nics r)) + packet_total (nics r) inc k ps"
    by (auto simp del: split_paired_All)
  have p: "packet_total (nics r') inc k es = packet_total (nics r) inc k es" for inc k es
    by (simp add: packet_total_def packet_key_cong [OF r'(2)])
  have "session_total inc k (written cs' @ pending (nics r')) = packet_total (nics r') inc k (got h')" for inc k
    using r'(4) [rule_format, of inc k] assms(1) by (simp add: p h'_def packet_total_append del: split_paired_All session_total_simps)
  moreover have "nr_step e (Inr (s, h, r, cs)) (ReaderRound now) = Inr (s', h', r', cs')" by (simp add: r'(1) rd h'_def)
  ultimately show ?thesis using i kn r'(3) map_NCard_macs [OF r'(2)] assms(1) by (simp add: h'_def del: split_paired_All session_total_simps set_map)
qed


lemma nr_step_inv: "nr_inv e s \<Longrightarrow> nr_event_ok s ev \<Longrightarrow> nr_inv e (nr_step e s ev)"
proof -
  assume a: "nr_inv e s" "nr_event_ok s ev"
  then obtain t h r cs where s: "s = Inr (t, h, r, cs)" by (cases s) auto
  show "nr_inv e (nr_step e s ev)"
  proof (cases ev)
    case (Net nev)
    from network_step [of t h "set (map mac_of (nics r))" nev] a obtain t' h' where
      "ntc_step (Some (t, h)) nev = Some (t', h')" "ntc_inv (Some (t', h'))" "cards h' = cards h" "got h' = got h" "kept_known h' (set (map mac_of (nics r)))"
      unfolding s Net by auto
    with a(1) show ?thesis by (simp add: s Net del: ntc_step.simps)
  next
    case (ReaderRound now)
    with a nr_round_step show ?thesis by (simp only: s)
  qed
qed

interpretation nr: machine "nr_step e" nr_event_ok "nr_inv e" for e
  by unfold_locales (rule nr_step_inv)

section \<open>The start of the reader\<close>

lemma list_interfaces_same: "list_interfaces s = Inr s' \<Longrightarrow> s' = s"
  by (auto simp: list_interfaces_def ntc_rm_devctl_def split: if_splits)

lemma watch_interface_same: "watch_interface s = Inr s' \<Longrightarrow> \<exists>is. s' = s\<lparr>ntc_ifs := is\<rparr>"
  by (auto simp: watch_interface_def ntc_rm_devctl_def set_interest_def split: option.splits) (metis ntc.surjective ntc.update_convs(1))

definition allowed :: "nic list \<Rightarrow> (u32 \<times> u16) list" where
  "allowed ns = rev (map mac_of (filter (\<lambda>n. n_closed (NCard n) = 0) ns))"

lemma allow_cards_listed:
  assumes "allow_cards ns s = Inr s'" "listed_cards s cs"
  shows "listed_cards s' (allowed ns @ cs) \<and> pktq s' = pktq s \<and> num_packets s' = num_packets s \<and> pkt_log_limit s' = pkt_log_limit s \<and>
    num_pkt_missed s' = num_pkt_missed s"
  using assms
proof (induction ns arbitrary: s cs)
  case (Cons n ns)
  show ?case
  proof (cases "n_closed (NCard n) = 0")
    case True
    from add_block_listed [OF Cons.prems(2), of "mac_of n"] obtain s1 where s1: "add_block True (mac_of n) s = Ok s1" "listed_cards s1 (mac_of n # cs)" by blast
    with Cons.prems(1) True have "allow_cards ns s1 = Inr s'"
      by (auto simp: ntc_rm_devctl_def mac_of_def split: if_splits)
    from Cons.IH [OF this s1(2)] add_block_frame [OF s1(1)] True show ?thesis by (simp add: allowed_def)
  next
    case False
    with Cons show ?thesis by (simp add: allowed_def)
  qed
qed (simp add: allowed_def)

lemma read_cards_empty: "read_cards junk as rows ns = Inr ns' \<Longrightarrow> \<forall>n \<in> set ns. LOG n = [] \<Longrightarrow> \<forall>n \<in> set ns'. LOG n = []"
  by (induction rows arbitrary: ns) (auto simp: bind_reader_Inr_iff split: option.splits)

text \<open>Before the reader starts no card is listed and nothing is logged.\<close>

lemma before_reader:
  assumes "ntc_inv (Some (s, h))" "cards h = []" "kept h = []" "got h = []" "\<forall>ev \<in> set es. network_event ev" "ntc.run (Some (s, h)) es = Some (s', h')"
  shows "ntc_inv (Some (s', h')) \<and> cards h' = [] \<and> kept h' = [] \<and> got h' = []"
  using assms
proof (induction es arbitrary: s h)
  case (Cons ev es)
  have "kept_known h {}" by (simp add: kept_known_def Cons.prems(3))
  from network_step [OF Cons.prems(1) _ this, of ev] Cons.prems(2,4,5) obtain s1 h1 where 1: "ntc_step (Some (s, h)) ev = Some (s1, h1)"
    "ntc_inv (Some (s1, h1))" "cards h1 = []" "got h1 = []" "kept_known h1 {}" by (auto simp del: ntc_inv.simps ntc_step.simps)
  from 1(5) have "frame_known {} x \<Longrightarrow> False" for x by (cases x) simp
  with 1(5) have "kept h1 = []" by (cases "kept h1") (auto simp: kept_known_def)
  from Cons.IH [OF 1(2,3) this 1(4)] Cons.prems(5,6) 1(1) show ?case by (simp del: ntc_inv.simps ntc_step.simps)
qed simp

lemma reader_start_inv:
  assumes "ntc_inv (Some (s, h))" "cards h = []" "kept h = []" "got h = []" "answers_fine e"
    and "reader_start ok junk db dev s = Inr (r, s1)"
  shows "nr_inv e (Inr (s1, h\<lparr>cards := allowed (nics r)\<rparr>, r, []))"
proof -
  from assms(6) obtain as ns s2 s3 where st: "read_cards junk as (card_rows db) [] = Inr ns" "list_interfaces s = Inr s2" "watch_interface s2 = Inr s3"
    "allow_cards ns s3 = Inr s1" "nics r = ns" by (auto simp: reader_start_def bind_reader_Inr_iff split: if_splits)
  from watch_interface_same [OF st(3)] list_interfaces_same [OF st(2)] obtain ifs where s3: "s3 = s\<lparr>ntc_ifs := ifs\<rparr>" by blast
  from allow_cards_listed [OF st(4), of "[]"] assms(1,2) have l: "listed_cards s1 (allowed ns)" "pktq s1 = pktq s" "num_packets s1 = num_packets s"
    "pkt_log_limit s1 = pkt_log_limit s" "num_pkt_missed s1 = num_pkt_missed s" by (simp_all add: s3)
  have "ntc_inv (Some (s1, h\<lparr>cards := allowed ns\<rparr>))" using same_queue [OF l(2-4)] l(1,5) assms(1) by simp
  moreover have e: "\<forall>n \<in> set ns. LOG n = []" using read_cards_empty [OF st(1)] by simp
  then have "pending ns = []" "nics_ok ns" by (auto simp: pending_def nics_ok_def sessions_ok_def)
  moreover have "set (allowed ns) \<subseteq> set (map mac_of ns)" by (auto simp: allowed_def)
  ultimately show ?thesis using assms(3-5) by (simp add: st(5) kept_known_def packet_total_def del: ntc_inv.simps)
qed

text \<open>C30: Filter and reader together. The filter is started and passes packets, then the reader starts and lists the cards of
  the database, and from then on frames and rounds of the reader follow each other in any order, the database accepting every call. The
  reader never meets a frame of an unknown card, nor stops otherwise; and for each card and each combination of protocols, addresses and
  ports, in both directions, the bytes in the sessions of the log table and of those not yet written are
  the sum, modulo 2 to the power 32, of the lengths of the packets that were read.\<close>

theorem reader_accounts_every_packet:
  assumes "ntc_init reg pat (Some q) thr = Some s0" "length q = MAX_PACKETS_LOGGED" "\<forall>x \<in> set q. length (pk_headers x) = PKT_LOG_SIZE"
    and "\<forall>ev \<in> set es0. network_event ev" "ntc.run (Some (s0, no_history)) es0 = Some (s, h)"
    and "reader_start ok junk db dev s = Inr (r, s1)" "answers_fine e"
    and "nr.run_ok e (Inr (s1, h\<lparr>cards := allowed (nics r)\<rparr>, r, [])) es"
  shows "\<exists>s' h' r' cs. nr.run e (Inr (s1, h\<lparr>cards := allowed (nics r)\<rparr>, r, [])) es = Inr (s', h', r', cs) \<and>
    (\<forall>inc k. session_total inc k (written cs @ pending (nics r')) = packet_total (nics r') inc k (got h'))"
proof -
  have "cards no_history = []" "kept no_history = []" "got no_history = []" by (simp_all add: no_history_def)
  from before_reader [OF init_inv [OF assms(1-3)] this assms(4,5)] have b: "ntc_inv (Some (s, h))" "cards h = []" "kept h = []" "got h = []" by blast+
  from nr.run_inv [OF reader_start_inv [OF b assms(7,6)] assms(8)] show ?thesis
    by (cases "nr.run e (Inr (s1, h\<lparr>cards := allowed (nics r)\<rparr>, r, [])) es") (auto simp del: split_paired_All session_total_simps)
qed

text \<open>A database with one account and one open card, and a frame of that card between two rounds of the reader.\<close>

definition a_reader_db :: reader_db where
  "a_reader_db = \<lparr>account_rows = [replicate 56 0], account_end = QBASE_E_LASTROW, card_rows = [replicate 18 0], card_end = QBASE_E_LASTROW\<rparr>"

definition a_reader_env :: reader_env where
  "a_reader_env = \<lparr>rfp = \<lparr>price = \<lambda>n p. p, dbl_plus = \<lambda>x y. x\<rparr>, ranswer = \<lambda>cs c. QBASE_E_OK, day_name = \<lambda>now. [100, 0]\<rparr>"

lemma a_reader_starts: "\<exists>r s1. reader_start (\<lambda>c. True) (replicate 60 0) a_reader_db True a_counter = Inr (r, s1)"
  by (simp add: reader_start_def a_reader_db_def reader_start_calls_def copied_row_def account_of_def card_of_def get32_def
      list_interfaces_def watch_interface_def ntc_rm_devctl_def a_counter_facts set_interest_def add_block_def MAC_ADDR_LENGTH_def bindo_def Let_def flip: replicate_add)

theorem reader_accounts_every_packet_witness:
  "\<exists>r s1 s' h' r' cs. reader_start (\<lambda>c. True) (replicate 60 0) a_reader_db True a_counter = Inr (r, s1) \<and>
     nr.run a_reader_env (Inr (s1, no_history\<lparr>cards := allowed (nics r)\<rparr>, r, []))
       [ReaderRound 0, Net (FrameUp 0 0 0 (replicate 14 0) (replicate 60 0)), ReaderRound 1] = Inr (s', h', r', cs) \<and>
     session_total True (0, 0, 0, 0, 0, 0, 0) (written cs @ pending (nics r')) = packet_total (nics r') True (0, 0, 0, 0, 0, 0, 0) (got h')"
proof -
  from a_reader_starts obtain r s1 where st: "reader_start (\<lambda>c. True) (replicate 60 0) a_reader_db True a_counter = Inr (r, s1)" by blast
  let ?es = "[ReaderRound 0, Net (FrameUp 0 0 0 (replicate 14 0) (replicate 60 0)), ReaderRound 1]"
  have "nr_event_ok s ev" if "ev \<in> set ?es" for s ev using that by (cases s) auto
  then have ok: "nr.run_ok a_reader_env s ?es" for s by simp
  have "\<forall>ev \<in> set []. network_event ev" "ntc.run (Some (a_counter, no_history)) [] = Some (a_counter, no_history)" by simp_all
  from reader_accounts_every_packet [OF a_counter_init a_queue_ok this st _ ok] st show ?thesis
    by (fastforce simp: answers_fine_def a_reader_env_def)
qed

end
