(* ===== verification/AvScanner.thy ===== *)
theory AvScanner
  imports MailSpooler
begin

text \<open>
  \<open>QX-avird/qavird.c\<close>: the virus scanner of the mail server, a resource manager around the library ClamAV. The library is a parameter:
  the type of an engine, what a directory of bases gives, and what an engine finds in a file. An engine lives at a numbered address
  until \<open>cl_free\<close>. The requests are first given as whole functions; then the threads of the pool run them as
  the locks cut them. Messages on the screen are left out.
\<close>

section \<open>State\<close>

record av_info =
  signum :: int
  virfound :: u32
  fdone :: u32
  startup :: u32
  base_time :: u32
  m_ver :: int
  m_sig :: int
  m_fl :: int
  m_btime :: u32
  d_ver :: int
  d_sig :: int
  d_fl :: int
  d_btime :: u32

definition sizeof_Qavird_info :: nat where "sizeof_Qavird_info = 52"

text \<open>The header of a base.\<close>

record cvd =
  cvd_version :: int
  cvd_sigs :: int
  cvd_fl :: int
  cvd_stime :: u32

text \<open>What \<open>cl_loaddbdir\<close>, \<open>cl_build\<close>, \<open>cl_cvdhead\<close> for the two bases, and \<open>time\<close> answer.\<close>

record 'e av_bases =
  load_errno :: int
  loaded :: 'e
  load_signum :: int
  build_errno :: int
  built :: 'e
  main_cvd :: "cvd option"
  daily_cvd :: "cvd option"
  load_time :: u32

record 'e av_state =
  cl_root_node :: nat
  engines :: "nat \<Rightarrow> 'e option"
  engine_top :: nat
  state_info :: av_info

datatype av_found = CL_VIRUS bytes | CL_CLEAN | CL_ERROR bytes

text \<open>The codes are those that the mail server knows; it has no case for \<open>QAV_DATA\<close>.\<close>

definition QAV_DATA :: av_result where "QAV_DATA = QAV_OTHER"

section \<open>Requests\<close>

definition cl_free :: "nat \<Rightarrow> 'e av_state \<Rightarrow> 'e av_state outcome" where
  "cl_free a s = (case engines s a of None \<Rightarrow> Crash UseAfterFree | Some x \<Rightarrow> Ok (s\<lparr>engines := (engines s)(a := None)\<rparr>))"

text \<open>The numbers that are read from the headers.\<close>

definition with_headers :: "cvd \<Rightarrow> cvd \<Rightarrow> av_info \<Rightarrow> av_info" where
  "with_headers m d i = i\<lparr>m_ver := cvd_version m, m_sig := cvd_sigs m, m_fl := cvd_fl m, m_btime := cvd_stime m,
     d_ver := cvd_version d, d_sig := cvd_sigs d, d_fl := cvd_fl d, d_btime := cvd_stime d\<rparr>"

text \<open>Step 1 of a reload. \<open>junk\<close> is what the new information holds before.\<close>

definition reload_load :: "av_info \<Rightarrow> 'e av_bases \<Rightarrow> 'e av_state \<Rightarrow> (nat \<times> av_info) option \<times> 'e av_state" where
  "reload_load junk b s =
     (if load_errno b \<noteq> 0 then (None, s)
      else let a = engine_top s; s = s\<lparr>engine_top := a + 1\<rparr> in
        if build_errno b \<noteq> 0 then (None, s)
        else (case (main_cvd b, daily_cvd b) of
            (Some m, Some d) \<Rightarrow> (Some (a, with_headers m d (junk\<lparr>signum := load_signum b, base_time := load_time b\<rparr>)),
              s\<lparr>engines := (engines s)(a \<mapsto> built b)\<rparr>)
          | _ \<Rightarrow> (None, s)))"

definition reload_switch :: "nat \<times> av_info \<Rightarrow> 'e av_state \<Rightarrow> 'e av_state" where
  "reload_switch r s = s\<lparr>cl_root_node := fst r,
     state_info := (snd r)\<lparr>virfound := virfound (state_info s), fdone := fdone (state_info s), startup := startup (state_info s)\<rparr>\<rparr>"

definition cl_scanfile :: "('e \<Rightarrow> bytes \<Rightarrow> av_found) \<Rightarrow> bytes \<Rightarrow> nat \<Rightarrow> 'e av_state \<Rightarrow> av_found outcome" where
  "cl_scanfile lib nm a s = (case engines s a of None \<Rightarrow> Crash UseAfterFree | Some x \<Rightarrow> Ok (lib x nm))"

definition count_scan :: "av_found \<Rightarrow> 'e av_state \<Rightarrow> 'e av_state" where
  "count_scan f s = s\<lparr>state_info := (state_info s)\<lparr>virfound := (case f of CL_VIRUS nm \<Rightarrow> virfound (state_info s) + 1 | _ \<Rightarrow> virfound (state_info s)),
     fdone := fdone (state_info s) + 1\<rparr>\<rparr>"

text \<open>The name of the virus or the text of the error, cut to the size of the answer, with its terminator.\<close>

definition answer_text :: "bytes \<Rightarrow> nat \<Rightarrow> bytes \<Rightarrow> bytes outcome" where
  "answer_text nm nbytes data =
     (let t = take (nbytes - 1) nm @ [0] in
      if length data < length t then Crash OutOfBounds
      else Ok (take (if length nm < nbytes then length nm + 1 else nbytes) (blit data 0 t)))"

definition scan_answer :: "av_found \<Rightarrow> nat \<Rightarrow> bytes \<Rightarrow> (av_result \<times> bytes) outcome" where
  "scan_answer f nbytes data =
     (case f of
        CL_VIRUS nm \<Rightarrow> bindo (answer_text nm nbytes data) (\<lambda>t. Ok (QAV_VIRUS, t))
      | CL_CLEAN \<Rightarrow> Ok (QAV_CLEAN, [])
      | CL_ERROR nm \<Rightarrow> bindo (answer_text nm nbytes data) (\<lambda>t. Ok (QAV_INTERNAL, t)))"

datatype 'e av_cmd = QAVIRD_CMD_INFO | QAVIRD_CMD_AVBASERELOAD av_info "'e av_bases" | QAVIRD_CMD_SCANFILE | QAVIRD_CMD_OTHER

datatype av_reply = AvNothing | AvInfo av_info | AvText bytes

text \<open>\<open>data\<close> is the buffer of the message from the data of the request on.\<close>

definition Qavird_devctl :: "('e \<Rightarrow> bytes \<Rightarrow> av_found) \<Rightarrow> 'e av_cmd \<Rightarrow> bytes \<Rightarrow> nat \<Rightarrow> 'e av_state \<Rightarrow> (av_result \<times> av_reply \<times> 'e av_state) outcome" where
  "Qavird_devctl lib cmd data nbytes s =
     (case cmd of
        QAVIRD_CMD_INFO \<Rightarrow>
          if nbytes < sizeof_Qavird_info then Ok (QAV_DATA, AvNothing, s) else Ok (QAV_CLEAN, AvInfo (state_info s), s)
      | QAVIRD_CMD_AVBASERELOAD junk b \<Rightarrow>
          (case reload_load junk b s of
             (None, s1) \<Rightarrow> Ok (QAV_INTERNAL, AvNothing, s1)
           | (Some r, s1) \<Rightarrow> bindo (cl_free (cl_root_node s) (reload_switch r s1)) (\<lambda>s2. Ok (QAV_CLEAN, AvNothing, s2)))
      | QAVIRD_CMD_SCANFILE \<Rightarrow>
          if nbytes < 3 then Ok (QAV_DATA, AvNothing, s)
          else if 0 \<notin> set data then Crash OutOfBounds
          else bindo (cl_scanfile lib (cstr data) (cl_root_node s) s) (\<lambda>f.
               bindo (scan_answer f nbytes data) (\<lambda>(r, t). Ok (r, AvText t, count_scan f s)))
      | QAVIRD_CMD_OTHER \<Rightarrow> Ok (ScanFailed, AvNothing, s))"

text \<open>The start: the dispatch structure, the pool and the device, then the bases.\<close>

definition av_start :: "bool \<Rightarrow> bool \<Rightarrow> bool \<Rightarrow> u32 \<Rightarrow> 'e av_bases \<Rightarrow> 'e av_state option" where
  "av_start dispatch_ok pool_ok attach_ok clock b =
     (let i = \<lparr>signum = 0, virfound = 0, fdone = 0, startup = clock, base_time = 0, m_ver = 0, m_sig = 0, m_fl = 0, m_btime = 0,
                d_ver = 0, d_sig = 0, d_fl = 0, d_btime = 0\<rparr> in
      if \<not> dispatch_ok \<or> \<not> pool_ok \<or> \<not> attach_ok \<or> load_errno b \<noteq> 0 \<or> build_errno b \<noteq> 0 then None
      else (case (main_cvd b, daily_cvd b) of
          (Some m, Some d) \<Rightarrow> Some \<lparr>cl_root_node = 0, engines = (\<lambda>a. None)(0 \<mapsto> built b), engine_top = 1,
            state_info = with_headers m d (i\<lparr>signum := load_signum b, base_time := load_time b\<rparr>)\<rparr>
        | _ \<Rightarrow> None))"

section \<open>Threads\<close>

text \<open>A scan holds the lock for reading from its begin to its end. A reload reads the pointer without a lock, and takes
  the lock for writing only for the switch, which is one step and waits until no scan is inside.\<close>

datatype av_phase = Waiting | Scanning nat bytes | Loading nat | Loaded nat nat av_info | Switched nat

record 'e av_threads =
  av_shared :: "'e av_state"
  av_phase_of :: "nat \<Rightarrow> av_phase"
  scans :: "av_found list"

fun scanning :: "av_phase \<Rightarrow> bool" where
  "scanning (Scanning a nm) \<longleftrightarrow> True"
| "scanning p \<longleftrightarrow> False"

fun reloading :: "av_phase \<Rightarrow> bool" where
  "reloading Waiting \<longleftrightarrow> False"
| "reloading (Scanning a nm) \<longleftrightarrow> False"
| "reloading p \<longleftrightarrow> True"

definition av_set :: "nat \<Rightarrow> av_phase \<Rightarrow> 'e av_state \<Rightarrow> 'e av_threads \<Rightarrow> 'e av_threads" where
  "av_set t p sh s = s\<lparr>av_phase_of := (av_phase_of s)(t := p), av_shared := sh\<rparr>"

inductive av_trans :: "('e \<Rightarrow> bytes \<Rightarrow> av_found) \<Rightarrow> 'e av_threads \<Rightarrow> 'e av_threads outcome \<Rightarrow> bool" for lib where
  scan_begin: "av_phase_of s t = Waiting \<Longrightarrow> av_trans lib s (Ok (av_set t (Scanning (cl_root_node (av_shared s)) nm) (av_shared s) s))"
| scan_end: "av_phase_of s t = Scanning a nm \<Longrightarrow> cl_scanfile lib nm a (av_shared s) = Ok f \<Longrightarrow>
    av_trans lib s (Ok (av_set t Waiting (count_scan f (av_shared s)) (s\<lparr>scans := f # scans s\<rparr>)))"
| scan_crash: "av_phase_of s t = Scanning a nm \<Longrightarrow> cl_scanfile lib nm a (av_shared s) = Crash x \<Longrightarrow> av_trans lib s (Crash x)"
| reload_begin: "av_phase_of s t = Waiting \<Longrightarrow> av_trans lib s (Ok (av_set t (Loading (cl_root_node (av_shared s))) (av_shared s) s))"
| load_fails: "av_phase_of s t = Loading old \<Longrightarrow> reload_load junk b (av_shared s) = (None, sh) \<Longrightarrow> av_trans lib s (Ok (av_set t Waiting sh s))"
| load: "av_phase_of s t = Loading old \<Longrightarrow> reload_load junk b (av_shared s) = (Some (a, i), sh) \<Longrightarrow>
    av_trans lib s (Ok (av_set t (Loaded old a i) sh s))"
| switch: "av_phase_of s t = Loaded old a i \<Longrightarrow> \<forall>u. \<not> scanning (av_phase_of s u) \<Longrightarrow>
    av_trans lib s (Ok (av_set t (Switched old) (reload_switch (a, i) (av_shared s)) s))"
| free_old: "av_phase_of s t = Switched old \<Longrightarrow> cl_free old (av_shared s) = Ok sh \<Longrightarrow> av_trans lib s (Ok (av_set t Waiting sh s))"
| free_crash: "av_phase_of s t = Switched old \<Longrightarrow> cl_free old (av_shared s) = Crash x \<Longrightarrow> av_trans lib s (Crash x)"

text \<open>Runs whose states, as long as they go on, satisfy \<open>g\<close>.\<close>

inductive av_reach :: "('e \<Rightarrow> bytes \<Rightarrow> av_found) \<Rightarrow> ('e av_threads \<Rightarrow> bool) \<Rightarrow> 'e av_threads \<Rightarrow> 'e av_threads outcome \<Rightarrow> bool" for lib g s0 where
  start: "av_reach lib g s0 (Ok s0)"
| further: "av_reach lib g s0 (Ok s) \<Longrightarrow> g s \<Longrightarrow> av_trans lib s r \<Longrightarrow> av_reach lib g s0 r"

definition av_begin :: "'e av_state \<Rightarrow> 'e av_threads" where
  "av_begin sh = \<lparr>av_shared = sh, av_phase_of = (\<lambda>t. Waiting), scans = []\<rparr>"

definition one_reload :: "'e av_threads \<Rightarrow> bool" where
  "one_reload s \<longleftrightarrow> (\<forall>t u. reloading (av_phase_of s t) \<longrightarrow> reloading (av_phase_of s u) \<longrightarrow> t = u)"

section \<open>The invariant of the threads\<close>

definition viruses :: "av_found list \<Rightarrow> nat" where
  "viruses fs = length (filter (\<lambda>f. case f of CL_VIRUS nm \<Rightarrow> True | _ \<Rightarrow> False) fs)"

definition av_counts :: "av_info \<Rightarrow> 'e av_threads \<Rightarrow> bool" where
  "av_counts i0 s \<longleftrightarrow> fdone (state_info (av_shared s)) = fdone i0 + word_of_nat (length (scans s)) \<and>
     virfound (state_info (av_shared s)) = virfound i0 + word_of_nat (viruses (scans s)) \<and> startup (state_info (av_shared s)) = startup i0"

fun phase_ok :: "'e av_state \<Rightarrow> av_phase \<Rightarrow> bool" where
  "phase_ok sh Waiting \<longleftrightarrow> True"
| "phase_ok sh (Scanning a nm) \<longleftrightarrow> a = cl_root_node sh"
| "phase_ok sh (Loading old) \<longleftrightarrow> old = cl_root_node sh"
| "phase_ok sh (Loaded old a i) \<longleftrightarrow> old = cl_root_node sh \<and> a \<noteq> old \<and> engines sh a \<noteq> None"
| "phase_ok sh (Switched old) \<longleftrightarrow> old \<noteq> cl_root_node sh \<and> engines sh old \<noteq> None"

text \<open>The engines that a thread holds besides the one in use.\<close>

fun held :: "av_phase \<Rightarrow> nat set" where
  "held (Loaded old a i) = {a}"
| "held (Switched old) = {old}"
| "held p = {}"

definition av_inv :: "'e av_threads \<Rightarrow> bool" where
  "av_inv s \<longleftrightarrow> engines (av_shared s) (cl_root_node (av_shared s)) \<noteq> None \<and> (\<forall>a \<ge> engine_top (av_shared s). engines (av_shared s) a = None) \<and>
     (\<forall>t. phase_ok (av_shared s) (av_phase_of s t)) \<and>
     dom (engines (av_shared s)) = insert (cl_root_node (av_shared s)) (\<Union>t. held (av_phase_of s t))"

lemma av_set_simps [simp]: "av_shared (av_set t p sh s) = sh" "scans (av_set t p sh s) = scans s"
  "av_phase_of (av_set t p sh s) u = (if u = t then p else av_phase_of s u)"
  by (simp_all add: av_set_def)

lemma count_scan_counts: "av_counts i0 s \<Longrightarrow> av_counts i0 (av_set t p (count_scan f (av_shared s)) (s\<lparr>scans := f # scans s\<rparr>))"
  by (cases f) (simp_all add: av_counts_def count_scan_def viruses_def)

lemma av_trans_counts:
  assumes "av_trans lib s r" "av_counts i0 s" "r = Ok s'"
  shows "av_counts i0 s'"
  using assms(1)
proof (cases rule: av_trans.cases)
  case (scan_end t a nm f)
  from scan_end(1) assms(3) have "s' = av_set t Waiting (count_scan f (av_shared s)) (s\<lparr>scans := f # scans s\<rparr>)" by simp
  with count_scan_counts [OF assms(2)] show ?thesis by (simp only:)
qed (use assms(2,3) in \<open>auto simp: av_counts_def reload_switch_def reload_load_def cl_free_def Let_def split: if_splits option.splits\<close>)

lemma held_set: "(\<Union>u. held (av_phase_of (av_set t p sh s) u)) = held p \<union> (\<Union>u \<in> - {t}. held (av_phase_of s u))"
  by (auto split: if_splits)

lemma held_split: "(\<Union>u. held (av_phase_of s u)) = held (av_phase_of s t) \<union> (\<Union>u \<in> - {t}. held (av_phase_of s u))"
  by blast

lemma held_reloading: "\<not> reloading p \<Longrightarrow> held p = {}"
  by (cases p) auto

lemma others_wait:
  assumes "one_reload s" "reloading (av_phase_of s t)" "u \<noteq> t"
  shows "\<not> reloading (av_phase_of s u)"
  using assms by (auto simp: one_reload_def)

lemma others_hold_nothing: "one_reload s \<Longrightarrow> reloading (av_phase_of s t) \<Longrightarrow> (\<Union>u \<in> - {t}. held (av_phase_of s u)) = {}"
  using others_wait held_reloading by fastforce

lemma reload_load_None: "reload_load junk b sh = (None, sh') \<Longrightarrow> engines sh' = engines sh \<and> cl_root_node sh' = cl_root_node sh \<and> engine_top sh \<le> engine_top sh'"
  by (auto simp: reload_load_def Let_def split: if_splits option.splits)

lemma reload_load_Some: "reload_load junk b sh = (Some (a, i), sh') \<Longrightarrow>
    engines sh' = (engines sh)(a \<mapsto> built b) \<and> cl_root_node sh' = cl_root_node sh \<and> engine_top sh' = a + 1 \<and> a = engine_top sh"
  by (auto simp: reload_load_def Let_def split: if_splits option.splits)


lemma phase_ok_others: "\<not> reloading p \<Longrightarrow> phase_ok sh p \<Longrightarrow> cl_root_node sh' = cl_root_node sh \<Longrightarrow> phase_ok sh' p"
  by (cases p) auto

lemma phase_ok_info: "phase_ok sh p \<Longrightarrow> phase_ok (sh\<lparr>state_info := i\<rparr>) p"
  by (cases p) auto

lemma av_invD:
  assumes "av_inv s"
  shows "engines (av_shared s) (cl_root_node (av_shared s)) \<noteq> None" "engine_top (av_shared s) \<le> a \<Longrightarrow> engines (av_shared s) a = None"
    "phase_ok (av_shared s) (av_phase_of s t)"
    "dom (engines (av_shared s)) = insert (cl_root_node (av_shared s)) (held (av_phase_of s t) \<union> (\<Union>u \<in> - {t}. held (av_phase_of s u)))"
  using assms held_split [of s t] unfolding av_inv_def by auto

lemma av_inv_set:
  assumes "engines sh (cl_root_node sh) \<noteq> None" "\<And>a. engine_top sh \<le> a \<Longrightarrow> engines sh a = None" "phase_ok sh p"
    and "\<And>u. u \<noteq> t \<Longrightarrow> phase_ok sh (av_phase_of s u)"
    and "dom (engines sh) = insert (cl_root_node sh) (held p \<union> (\<Union>u \<in> - {t}. held (av_phase_of s u)))"
  shows "av_inv (av_set t p sh s)"
  using assms unfolding av_inv_def held_set by simp

lemma av_trans_inv:
  assumes "av_trans lib s r" "av_inv s" "one_reload s"
  shows "\<exists>s'. r = Ok s' \<and> av_inv s'"
  using assms(1)
proof (cases rule: av_trans.cases)
  case (scan_begin t nm)
  show ?thesis unfolding scan_begin(1) using av_invD [OF assms(2)] av_invD(4) [OF assms(2), of t] scan_begin(2)
    by (auto intro!: av_inv_set)
next
  case (reload_begin t)
  show ?thesis unfolding reload_begin(1) using av_invD [OF assms(2)] av_invD(4) [OF assms(2), of t] reload_begin(2)
    by (auto intro!: av_inv_set)
next
  case (scan_end t a nm f)
  let ?s = "s\<lparr>scans := f # scans s\<rparr>"
  have i: "av_inv ?s" using assms(2) by (simp add: av_inv_def)
  have "av_inv (av_set t Waiting (count_scan f (av_shared s)) ?s)"
    using av_invD(1-3) [OF i] av_invD(4) [OF i, of t] scan_end(2) by (intro av_inv_set) (simp_all add: count_scan_def phase_ok_info)
  then show ?thesis unfolding scan_end(1) by blast
next
  case (scan_crash t a nm x)
  with av_invD(1) [OF assms(2)] av_invD(3) [OF assms(2), of t] show ?thesis by (auto simp: cl_scanfile_def)
next
  case (load_fails t old junk b sh)
  note sh = reload_load_None [OF load_fails(3)]
  have r: "reloading (av_phase_of s t)" by (simp add: load_fails(2))
  have "phase_ok sh (av_phase_of s u)" if "u \<noteq> t" for u
    using phase_ok_others [OF others_wait [OF assms(3) r that] av_invD(3) [OF assms(2)]] sh by blast
  then have "av_inv (av_set t Waiting sh s)"
    using sh av_invD(1,2) [OF assms(2)] av_invD(4) [OF assms(2), of t] load_fails(2) by (intro av_inv_set) simp_all
  then show ?thesis unfolding load_fails(1) by blast
next
  case (load t old junk b a i sh)
  note sh = reload_load_Some [OF load(3)]
  have r: "reloading (av_phase_of s t)" by (simp add: load(2))
  have a: "a \<noteq> cl_root_node (av_shared s)" "engines (av_shared s) a = None" using av_invD(1,2) [OF assms(2)] sh by auto
  have "phase_ok sh (Loaded old a i)" using sh a av_invD(3) [OF assms(2), of t] load(2) by auto
  moreover have "phase_ok sh (av_phase_of s u)" if "u \<noteq> t" for u
    using phase_ok_others [OF others_wait [OF assms(3) r that] av_invD(3) [OF assms(2)]] sh by blast
  ultimately have "av_inv (av_set t (Loaded old a i) sh s)"
    using sh a av_invD(1,2) [OF assms(2)] av_invD(4) [OF assms(2), of t] load(2) by (intro av_inv_set) auto
  then show ?thesis unfolding load(1) by blast
next
  case (switch t old a i)
  let ?sh = "reload_switch (a, i) (av_shared s)"
  have r: "reloading (av_phase_of s t)" by (simp add: switch(2))
  from av_invD(3) [OF assms(2), of t] switch(2) have o: "old = cl_root_node (av_shared s)" "a \<noteq> old" "engines (av_shared s) a \<noteq> None" by auto
  have w: "av_phase_of s u = Waiting" if "u \<noteq> t" for u
    using others_wait [OF assms(3) r that] switch(3) by (cases "av_phase_of s u") (auto dest: spec [of _ u])
  have e: "engines ?sh = engines (av_shared s)" "cl_root_node ?sh = a" "engine_top ?sh = engine_top (av_shared s)" by (simp_all add: reload_switch_def)
  have "av_inv (av_set t (Switched old) ?sh s)"
    using o w e av_invD(1,2) [OF assms(2)] av_invD(4) [OF assms(2), of t] others_hold_nothing [OF assms(3) r] switch(2)
    by (intro av_inv_set) auto
  then show ?thesis unfolding switch(1) by blast
next
  case (free_old t old sh)
  have r: "reloading (av_phase_of s t)" by (simp add: free_old(2))
  from av_invD(3) [OF assms(2), of t] free_old(2,3) have o: "old \<noteq> cl_root_node (av_shared s)" "sh = (av_shared s)\<lparr>engines := (engines (av_shared s))(old := None)\<rparr>"
    by (auto simp: cl_free_def)
  have "phase_ok sh (av_phase_of s u)" if "u \<noteq> t" for u
    using phase_ok_others [OF others_wait [OF assms(3) r that] av_invD(3) [OF assms(2)], of sh] o by simp
  then have "av_inv (av_set t Waiting sh s)"
    using o av_invD(1,2) [OF assms(2)] av_invD(4) [OF assms(2), of t] others_hold_nothing [OF assms(3) r] free_old(2)
    by (intro av_inv_set) auto
  then show ?thesis unfolding free_old(1) by blast
next
  case (free_crash t old x)
  with av_invD(3) [OF assms(2), of t] show ?thesis by (auto simp: cl_free_def)
qed


lemma av_begin_inv:
  assumes "av_start d p a clock b = Some sh"
  shows "av_inv (av_begin sh)" "av_counts (state_info sh) (av_begin sh)" "fdone (state_info sh) = 0" "virfound (state_info sh) = 0"
  using assms by (auto simp: av_start_def av_begin_def av_inv_def av_counts_def viruses_def with_headers_def Let_def split: if_splits option.splits)

lemma av_reach_inv:
  "av_reach lib one_reload s0 r \<Longrightarrow> av_inv s0 \<Longrightarrow> av_counts i0 s0 \<Longrightarrow> \<exists>s. r = Ok s \<and> av_inv s \<and> av_counts i0 s"
proof (induction rule: av_reach.induct)
  case (further s r)
  then have s: "av_inv s" "av_counts i0 s" by auto
  from av_trans_inv [OF further.hyps(3) s(1) further.hyps(2)] av_trans_counts [OF further.hyps(3) s(2)] show ?case by auto
qed simp

section \<open>What the scanner does\<close>

text \<open>C34: The scanner with any number of threads, from its start, as long as no two reloads of the bases overlap: no engine is
  used or freed after it was freed, scans that go on while the bases are reloaded use the engine that was in use when they
  began, when no reload is in progress exactly one engine is in memory, and the numbers of scans and of viruses that the scanner reports
  are those of all scans since the start, modulo 2 to the power 32, whatever was reloaded in between.\<close>

theorem engine_in_use_stays:
  assumes "av_start dispatch_ok pool_ok attach_ok clock b = Some sh" "av_reach lib one_reload (av_begin sh) r"
  shows "\<exists>s. r = Ok s \<and>
    (\<forall>t a nm. av_phase_of s t = Scanning a nm \<longrightarrow> a = cl_root_node (av_shared s) \<and> engines (av_shared s) a \<noteq> None) \<and>
    ((\<forall>t. \<not> reloading (av_phase_of s t)) \<longrightarrow> dom (engines (av_shared s)) = {cl_root_node (av_shared s)}) \<and>
    fdone (state_info (av_shared s)) = word_of_nat (length (scans s)) \<and> virfound (state_info (av_shared s)) = word_of_nat (viruses (scans s))"
proof -
  note b = av_begin_inv [OF assms(1)]
  from av_reach_inv [OF assms(2) b(1,2)] obtain s where s: "r = Ok s" "av_inv s" "av_counts (state_info sh) s" by blast
  have "a = cl_root_node (av_shared s) \<and> engines (av_shared s) a \<noteq> None" if "av_phase_of s t = Scanning a nm" for t a nm
    using av_invD(1) [OF s(2)] av_invD(3) [OF s(2), of t] that by simp
  moreover have "dom (engines (av_shared s)) = {cl_root_node (av_shared s)}" if "\<forall>t. \<not> reloading (av_phase_of s t)"
    using s(2) that held_reloading unfolding av_inv_def by simp
  ultimately show ?thesis using s(1,3) b(3,4) by (intro exI [of _ s]) (auto simp: av_counts_def)
qed

text \<open>A directory of bases from which an engine can be built.\<close>

definition good_bases :: "'e av_bases \<Rightarrow> bool" where
  "good_bases b \<longleftrightarrow> load_errno b = 0 \<and> build_errno b = 0 \<and> main_cvd b \<noteq> None \<and> daily_cvd b \<noteq> None"

lemma good_reload:
  assumes "good_bases b"
  obtains i where "reload_load junk b sh = (Some (engine_top sh, i), sh\<lparr>engine_top := engine_top sh + 1, engines := (engines sh)(engine_top sh \<mapsto> built b)\<rparr>)"
  using assms by (auto simp: reload_load_def good_bases_def Let_def)

lemma reload_thread:
  fixes b :: "'e av_bases" and s :: "'e av_threads"
  assumes "good_bases b" "av_phase_of s t = Loading old" "\<forall>u. \<not> scanning (av_phase_of s u)" "av_reach lib (\<lambda>s. True) s0 (Ok s)"
  shows "\<exists>sh. av_reach lib (\<lambda>s. True) s0 (Ok (av_set t (Switched old) sh s)) \<and> (\<forall>a < engine_top (av_shared s). engines sh a = engines (av_shared s) a) \<and>
    engine_top (av_shared s) \<le> engine_top sh"
proof -
  from good_reload [OF assms(1)] obtain i where l: "reload_load undefined b (av_shared s) = (Some (engine_top (av_shared s), i),
    (av_shared s)\<lparr>engine_top := engine_top (av_shared s) + 1, engines := (engines (av_shared s))(engine_top (av_shared s) \<mapsto> built b)\<rparr>)" by blast
  let ?a = "engine_top (av_shared s)"
  let ?s1 = "av_set t (Loaded old ?a i) (snd (reload_load undefined b (av_shared s))) s"
  from av_reach.further [OF assms(4) TrueI av_trans.load [OF assms(2) l]] have 1: "av_reach lib (\<lambda>s. True) s0 (Ok ?s1)" by (simp add: l)
  have "av_phase_of ?s1 t = Loaded old ?a i" "\<forall>u. \<not> scanning (av_phase_of ?s1 u)" using assms(3) by simp_all
  from av_reach.further [OF 1 TrueI av_trans.switch [OF this]] have
    "av_reach lib (\<lambda>s. True) s0 (Ok (av_set t (Switched old) (reload_switch (?a, i) (av_shared ?s1)) ?s1))" by simp
  moreover have "av_set t (Switched old) sh ?s1 = av_set t (Switched old) sh s" for sh by (simp add: av_set_def)
  ultimately show ?thesis by (intro exI [of _ "reload_switch (?a, i) (av_shared ?s1)"]) (simp add: l reload_switch_def)
qed

text \<open>C35: The pointer to the engine in use is read before the new one is loaded, without the lock. When a
  second request to reload begins before the first one has switched, both free the same old engine, the second time after it is gone,
  for any two sets of bases that can be loaded.\<close>

theorem overlapping_reloads_free_twice:
  fixes b b1 b2 :: "'e av_bases"
  assumes "av_start dispatch_ok pool_ok attach_ok clock b = Some sh" "good_bases b1" "good_bases b2"
  shows "av_reach lib (\<lambda>s. True) (av_begin sh) (Crash UseAfterFree)"
proof -
  let ?g = "\<lambda>s. True" and ?s0 = "av_begin sh"
  have r: "cl_root_node sh = 0" "engine_top sh = 1" using assms(1) by (auto simp: av_start_def Let_def split: if_splits option.splits)
  have w: "av_phase_of ?s0 t = Waiting" for t by (simp add: av_begin_def)
  let ?s1 = "av_set 0 (Loading 0) sh ?s0" let ?s2 = "av_set 1 (Loading 0) sh ?s1"
  from av_reach.further [where g = ?g, OF av_reach.start TrueI av_trans.reload_begin [OF w [of 0]]] have 1: "av_reach lib ?g ?s0 (Ok ?s1)" by (simp add: av_begin_def r)
  from av_reach.further [OF 1 TrueI av_trans.reload_begin [of _ 1]] have 2: "av_reach lib ?g ?s0 (Ok ?s2)" by (simp add: w r)
  have p2: "av_phase_of ?s2 0 = Loading 0" "\<forall>u. \<not> scanning (av_phase_of ?s2 u)" "av_shared ?s2 = sh" by (auto simp: w)
  from reload_thread [OF assms(2) p2(1,2) 2] obtain sh3 where 3: "av_reach lib ?g ?s0 (Ok (av_set 0 (Switched 0) sh3 ?s2))" "1 \<le> engine_top sh3"
    unfolding p2(3) r by blast
  have p3: "av_phase_of (av_set 0 (Switched 0) sh3 ?s2) 1 = Loading 0" "\<forall>u. \<not> scanning (av_phase_of (av_set 0 (Switched 0) sh3 ?s2) u)"
    using p2(2) by simp_all
  from reload_thread [OF assms(3) p3 3(1)] obtain sh4 where 4: "av_reach lib ?g ?s0 (Ok (av_set 1 (Switched 0) sh4 (av_set 0 (Switched 0) sh3 ?s2)))"
    by blast
  let ?s4 = "av_set 1 (Switched 0) sh4 (av_set 0 (Switched 0) sh3 ?s2)"
  show ?thesis
  proof (cases "cl_free 0 sh4")
    case (Ok sh5)
    then have g: "cl_free 0 sh5 = Crash UseAfterFree" by (auto simp: cl_free_def split: option.splits)
    from av_reach.further [OF 4 TrueI av_trans.free_old [of _ 0 0 sh5]] Ok have 5: "av_reach lib ?g ?s0 (Ok (av_set 0 Waiting sh5 ?s4))" by simp
    from av_reach.further [OF 5 TrueI av_trans.free_crash [of _ 1 0]] g show ?thesis by simp
  next
    case (Crash x)
    then have "x = UseAfterFree" by (auto simp: cl_free_def split: option.splits)
    with av_reach.further [OF 4 TrueI av_trans.free_crash [of _ 0 0]] Crash show ?thesis by simp
  qed
qed

section \<open>Examples\<close>

definition some_bases :: "nat av_bases" where
  "some_bases = (let c = \<lparr>cvd_version = 1, cvd_sigs = 2, cvd_fl = 3, cvd_stime = 4\<rparr> in
     \<lparr>load_errno = 0, loaded = 0, load_signum = 2, build_errno = 0, built = 7, main_cvd = Some c, daily_cvd = Some c, load_time = 5\<rparr>)"

definition a_scanner :: "nat av_state" where
  "a_scanner = the (av_start True True True 0 some_bases)"

lemma a_scanner_starts: "av_start True True True 0 some_bases = Some a_scanner"
  by (simp add: a_scanner_def av_start_def some_bases_def Let_def)

theorem engine_in_use_stays_witness:
  "\<exists>s. av_reach (\<lambda>e nm. CL_VIRUS [1]) one_reload (av_begin a_scanner) (Ok s) \<and> length (scans s) = 1 \<and> fdone (state_info (av_shared s)) = 1"
proof -
  let ?lib = "\<lambda>e nm. CL_VIRUS [1]" let ?s0 = "av_begin a_scanner" let ?s1 = "av_set 0 (Scanning 0 [47]) a_scanner ?s0"
  have r: "cl_root_node a_scanner = 0" "engines a_scanner 0 = Some 7" by (simp_all add: a_scanner_def av_start_def some_bases_def Let_def)
  have w: "av_phase_of ?s0 t = Waiting" for t by (simp add: av_begin_def)
  have o: "one_reload ?s0" "one_reload ?s1" by (auto simp: one_reload_def w)
  from av_reach.further [where lib = ?lib and g = one_reload, OF av_reach.start o(1) av_trans.scan_begin [OF w [of 0], of _ "[47]"]] have 1: "av_reach ?lib one_reload ?s0 (Ok ?s1)"
    by (simp add: av_begin_def r)
  let ?s2 = "av_set 0 Waiting (count_scan (CL_VIRUS [1]) a_scanner) (?s1\<lparr>scans := CL_VIRUS [1] # scans ?s1\<rparr>)"
  from av_reach.further [OF 1 o(2) av_trans.scan_end [of _ 0 0 "[47]" _ "CL_VIRUS [1]"]] have 2: "av_reach ?lib one_reload ?s0 (Ok ?s2)"
    by (simp add: cl_scanfile_def r)
  have "length (scans ?s2) = 1" by (simp add: av_begin_def)
  with engine_in_use_stays [OF a_scanner_starts 2] 2 show ?thesis by (intro exI [of _ ?s2]) simp
qed

theorem overlapping_reloads_free_twice_witness:
  "good_bases some_bases \<and> av_reach (\<lambda>e nm. CL_CLEAN) (\<lambda>s. True) (av_begin a_scanner) (Crash UseAfterFree)"
proof -
  have g: "good_bases some_bases" by (simp add: good_bases_def some_bases_def Let_def)
  with overlapping_reloads_free_twice [OF a_scanner_starts g g] show ?thesis by blast
qed

end
