(* ===== verification/SerialLine.thy ===== *)
theory SerialLine
  imports MailPop
begin

text \<open>
  \<open>devn-ser/main.c\<close>: a network driver over a serial line. A frame goes over the line in a block of fixed size,
  behind its length; the receiving thread collects blocks from whatever pieces \<open>read\<close> gives. Calls of \<open>io-net\<close> answer by arguments; what
  is passed up is a list. The log file is only opened.
\<close>

section \<open>State\<close>

definition DEF_PKT_SIZE :: nat where "DEF_PKT_SIZE = 1520"

record nic_t =
  nic_media_rate :: nat
  nic_mtu :: nat
  nic_node :: u16
  nic_mac_length :: nat
  nic_address :: bytes
  nic_description :: bytes

record en_ser =
  se_cell :: u16
  se_endpoint :: u16
  bytes_txed :: u32
  bytes_rxed :: u32
  pkt_size :: nat
  se_mac :: bytes
  se_nic :: nic_t
  stop_receive :: u32

section \<open>Start\<close>

definition default_device :: bytes where "default_device = bytes_of ''/dev/ser1''"

record advert =
  ad_mtu :: nat
  ad_up_type :: bytes
  ad_nlen :: nat
  ad_data :: bytes

text \<open>The hardware address is copied behind the name, over its terminator; the rest of the message is zero.\<close>

definition advert_of :: "en_ser \<Rightarrow> advert" where
  "advert_of s =
     (let nm = bytes_of ''en'' @ dec_text (unat (se_endpoint s)) in
      \<lparr>ad_mtu = pkt_size s - 4, ad_up_type = nm @ [0], ad_nlen = length nm, ad_data = nm @ take 6 (se_mac s) @ [0]\<rparr>)"

definition devn_advertise :: "bool \<Rightarrow> bool \<Rightarrow> en_ser \<Rightarrow> advert option" where
  "devn_advertise alloc_ok reg_ok s = (if alloc_ok \<and> reg_ok then Some (advert_of s) else None)"

text \<open>\<open>opt\<close> is the value of the option \<open>fd\<close> when it is given, \<open>place\<close> the cell and endpoint of the registration, \<open>rnd\<close> the product of the
  random number with the numbers of process and thread.\<close>

definition devn_init :: "bool \<Rightarrow> bytes option option \<Rightarrow> (bytes \<Rightarrow> bool) \<Rightarrow> (u16 \<times> u16) option \<Rightarrow> u32 \<Rightarrow> bool \<Rightarrow> bool \<Rightarrow> bool \<Rightarrow> (en_ser \<times> advert option) option outcome" where
  "devn_init log_ok opt opens place rnd alloc_ok reg_ok thread_ok =
     (if \<not> log_ok then Crash NullPointer
      else let dev = (case opt of None \<Rightarrow> Some default_device | Some v \<Rightarrow> (case v of None \<Rightarrow> None | Some w \<Rightarrow> if cstr w = [] then None else Some (cstr w))) in
      case dev of
        None \<Rightarrow> Ok None
      | Some d \<Rightarrow>
          if \<not> opens d then Ok None
          else (case place of
              None \<Rightarrow> Ok None
            | Some (cell, endpoint) \<Rightarrow>
                let mac = put32 (put16 (replicate 8 0) 0 0x0100) 2 rnd;
                    n = \<lparr>nic_media_rate = 115, nic_mtu = DEF_PKT_SIZE - 4, nic_node = endpoint, nic_mac_length = 6, nic_address = take 6 mac,
                         nic_description = bytes_of ''Serial pseudo device''\<rparr>;
                    s = \<lparr>se_cell = cell, se_endpoint = endpoint, bytes_txed = 0, bytes_rxed = 0, pkt_size = DEF_PKT_SIZE, se_mac = mac,
                         se_nic = n, stop_receive = 0\<rparr>
                in if thread_ok then Ok (Some (s, devn_advertise alloc_ok reg_ok s)) else Ok None))"

definition devn_shutdown1 :: "en_ser \<Rightarrow> en_ser" where
  "devn_shutdown1 s = s\<lparr>stop_receive := stop_receive s + 1\<rparr>"

datatype devn_dcmd = DCMD_IO_NET_NICINFO | DCMD_IO_NET_TXRX_COUNT | DCMD_OTHER

datatype devn_reply = NicInfo nic_t nat | TxRxCount u32 u32 nat | NotSupported

text \<open>The number is that of the bytes of the structure that are copied.\<close>

definition devn_devctl :: "devn_dcmd \<Rightarrow> nat \<Rightarrow> nat \<Rightarrow> en_ser \<Rightarrow> devn_reply" where
  "devn_devctl cmd sizeof_reply n s =
     (case cmd of
        DCMD_IO_NET_NICINFO \<Rightarrow> NicInfo (se_nic s) (min sizeof_reply n)
      | DCMD_IO_NET_TXRX_COUNT \<Rightarrow> TxRxCount (bytes_txed s) (bytes_rxed s) (min sizeof_reply n)
      | DCMD_OTHER \<Rightarrow> NotSupported)"

section \<open>Sending\<close>

text \<open>\<open>kept\<close> says that the packet is still in memory after \<open>tx_done\<close>.\<close>

record down_pkt =
  framelen :: u32
  dp_data :: bytes
  kept_after_done :: bool

datatype tx_result = TX_DOWN_OK | TX_DOWN_FAILED

text \<open>\<open>wr\<close> answers a \<open>write\<close> when the given bytes are on the line. The buffer is the same for all packets of a chain.\<close>

fun tx_packets :: "(bytes \<Rightarrow> int) \<Rightarrow> down_pkt list \<Rightarrow> bytes \<Rightarrow> bytes \<Rightarrow> en_ser \<Rightarrow> (tx_result \<times> bytes \<times> en_ser) outcome" where
  "tx_packets wr [] txbuf line s = Ok (TX_DOWN_OK, line, s)"
| "tx_packets wr (p # ps) txbuf line s =
     (let len = unat (framelen p);
          copied = take len (dp_data p);
          buf = put32 txbuf 0 (framelen p)
      in if length txbuf < 4 + length copied then Crash OutOfBounds
         else let buf = blit buf 4 copied in
           if length copied \<noteq> len then Ok (TX_DOWN_FAILED, line, s)
           else let n = wr line; line = line @ take (nat n) buf in
             if n \<noteq> int (pkt_size s) then Ok (TX_DOWN_FAILED, line, s)
             else if \<not> kept_after_done p then Crash UseAfterFree
             else tx_packets wr ps buf line (s\<lparr>bytes_txed := bytes_txed s + framelen p\<rparr>))"

datatype devn_down = DownMsg | DownPkts "down_pkt list"

definition devn_rx_down :: "(bytes \<Rightarrow> int) \<Rightarrow> bytes option \<Rightarrow> devn_down \<Rightarrow> bytes \<Rightarrow> en_ser \<Rightarrow> (tx_result \<times> bytes \<times> en_ser) outcome" where
  "devn_rx_down wr txbuf d line s =
     (case d of
        DownMsg \<Rightarrow> Ok (TX_DOWN_OK, line, s)
      | DownPkts ps \<Rightarrow> (case txbuf of None \<Rightarrow> Ok (TX_DOWN_FAILED, line, s) | Some b \<Rightarrow> tx_packets wr ps b line s))"

section \<open>Receiving\<close>

record receiver =
  r_line :: bytes
  recv_buf :: bytes
  read_bytes :: nat
  upward :: "bytes list"
  r_ser :: en_ser

datatype rx_state = Receiving receiver | ThreadExit receiver

text \<open>The head of the outer loop.\<close>

definition loop_top :: "receiver \<Rightarrow> rx_state" where
  "loop_top r = (if stop_receive (r_ser r) = 0 then Receiving (r\<lparr>read_bytes := 0\<rparr>) else ThreadExit r)"

text \<open>A full block. The answers are those to the allocation of the packet and to its registration.\<close>

definition devn_block :: "bool \<Rightarrow> bool \<Rightarrow> receiver \<Rightarrow> receiver outcome" where
  "devn_block mem_ok reg_ok r =
     (let len = get32 (recv_buf r) 0;
          r = r\<lparr>r_ser := (r_ser r)\<lparr>bytes_rxed := bytes_rxed (r_ser r) + len\<rparr>\<rparr>
      in if \<not> mem_ok then Ok r
         else if length (recv_buf r) < 4 + unat len then Crash OutOfBounds
         else if \<not> reg_ok then Ok r
         else Ok (r\<lparr>upward := upward r @ [take (unat len) (drop 4 (recv_buf r))]\<rparr>))"

text \<open>A piece of at most \<open>k\<close> bytes, or an error of \<open>read\<close> that is \<open>EBADF\<close> or another one.\<close>

datatype line_read = Chunk nat bool bool | ReadError bool

fun devn_read :: "line_read \<Rightarrow> receiver \<Rightarrow> rx_state outcome" where
  "devn_read (ReadError ebadf) r = Ok (if ebadf then loop_top r else Receiving r)"
| "devn_read (Chunk k mem_ok reg_ok) r =
     (let n = min k (min (pkt_size (r_ser r) - read_bytes r) (length (r_line r)));
          r = r\<lparr>recv_buf := blit (recv_buf r) (read_bytes r) (take n (r_line r)), r_line := drop n (r_line r), read_bytes := read_bytes r + n\<rparr>
      in if read_bytes r \<noteq> pkt_size (r_ser r) then Ok (Receiving r)
         else bindo (devn_block mem_ok reg_ok r) (\<lambda>r. Ok (loop_top r)))"

definition receiver_start :: "bytes option \<Rightarrow> en_ser \<Rightarrow> receiver option" where
  "receiver_start buf s = map_option (\<lambda>b. \<lparr>r_line = [], recv_buf = b, read_bytes = 0, upward = [], r_ser = s\<rparr>) buf"

section \<open>Two ends of a line\<close>

text \<open>A driver that sends, the line to the other end, and the receiving thread there. The line
  keeps what is written. \<open>sent\<close> is the history of the frames whose blocks were written.\<close>

record serial_link =
  tx_end :: en_ser
  rx_end :: rx_state
  sent :: "bytes list"

fun rx_of :: "rx_state \<Rightarrow> receiver" where
  "rx_of (Receiving r) = r"
| "rx_of (ThreadExit r) = r"

fun set_rx :: "rx_state \<Rightarrow> receiver \<Rightarrow> rx_state" where
  "set_rx (Receiving r0) r = Receiving r"
| "set_rx (ThreadExit r0) r = ThreadExit r"

text \<open>A frame is what is copied of a packet.\<close>

definition payload :: "down_pkt \<Rightarrow> bytes" where
  "payload p = take (unat (framelen p)) (dp_data p)"

fun frames_of :: "devn_down \<Rightarrow> bytes list" where
  "frames_of DownMsg = []"
| "frames_of (DownPkts ps) = map payload ps"

text \<open>The environment chooses what each write answers, whether the buffer for sending can be allocated, the pieces that
  are read, and whether memory for a received packet can be allocated and the packet registered.\<close>

datatype link_event = Down "bytes \<Rightarrow> int" "bytes option" devn_down | Read line_read | Shutdown

fun link_step :: "serial_link outcome \<Rightarrow> link_event \<Rightarrow> serial_link outcome" where
  "link_step (Crash x) ev = Crash x"
| "link_step (Ok l) (Down wr txbuf d) =
     (let before = r_line (rx_of (rx_end l)) in
      bindo (devn_rx_down wr txbuf d before (tx_end l)) (\<lambda>(res, line, s).
       Ok (l\<lparr>tx_end := s, rx_end := set_rx (rx_end l) ((rx_of (rx_end l))\<lparr>r_line := line\<rparr>),
             sent := sent l @ take ((length line - length before) div DEF_PKT_SIZE) (frames_of d)\<rparr>)))"
| "link_step (Ok l) (Read ev) =
     (case rx_end l of
        ThreadExit r \<Rightarrow> Ok l
      | Receiving r \<Rightarrow> bindo (devn_read ev r) (\<lambda>x. Ok (l\<lparr>rx_end := x\<rparr>)))"
| "link_step (Ok l) Shutdown =
     Ok (l\<lparr>rx_end := set_rx (rx_end l) ((rx_of (rx_end l))\<lparr>r_ser := devn_shutdown1 (r_ser (rx_of (rx_end l)))\<rparr>)\<rparr>)"

text \<open>A frame that fits a block.\<close>

definition fitting :: "down_pkt \<Rightarrow> bool" where
  "fitting p \<longleftrightarrow> length (payload p) \<le> DEF_PKT_SIZE - 4"

fun frames_fit :: "devn_down \<Rightarrow> bool" where
  "frames_fit DownMsg \<longleftrightarrow> True"
| "frames_fit (DownPkts ps) \<longleftrightarrow> list_all fitting ps"

text \<open>All packets stay in memory after \<open>tx_done\<close>.\<close>

fun packets_stay :: "link_event \<Rightarrow> bool" where
  "packets_stay (Down wr txbuf (DownPkts ps)) \<longleftrightarrow> list_all kept_after_done ps"
| "packets_stay ev \<longleftrightarrow> True"

fun link_ok :: "serial_link outcome \<Rightarrow> link_event \<Rightarrow> bool" where
  "link_ok l (Down wr txbuf d) \<longleftrightarrow> (\<forall>line. wr line = int DEF_PKT_SIZE \<or> wr line \<le> 0) \<and>
     (\<forall>b. txbuf = Some b \<longrightarrow> length b = DEF_PKT_SIZE) \<and> frames_fit d"
| "link_ok l (Read (Chunk k mem_ok reg_ok)) \<longleftrightarrow> mem_ok \<and> reg_ok"
| "link_ok l (Read (ReadError ebadf)) \<longleftrightarrow> (ebadf \<longrightarrow> (\<exists>x. l = Ok x \<and> stop_receive (r_ser (rx_of (rx_end x))) \<noteq> 0))"
| "link_ok l Shutdown \<longleftrightarrow> True"

section \<open>Blocks\<close>

definition block_of :: "bytes \<Rightarrow> bytes \<Rightarrow> bool" where
  "block_of f b \<longleftrightarrow> length b = DEF_PKT_SIZE \<and> length f \<le> DEF_PKT_SIZE - 4 \<and> get32 b 0 = word_of_nat (length f) \<and> take (length f) (drop 4 b) = f"

definition total_length :: "bytes list \<Rightarrow> u32" where
  "total_length fs = (\<Sum>f \<leftarrow> fs. word_of_nat (length f))"

lemma total_length_simps [simp]: "total_length [] = 0" "total_length (fs @ gs) = total_length fs + total_length gs"
  "total_length (f # fs) = word_of_nat (length f) + total_length fs"
  by (simp_all add: total_length_def)

lemma unat_small: "n \<le> DEF_PKT_SIZE \<Longrightarrow> unat (word_of_nat n :: u32) = n"
  by (simp add: DEF_PKT_SIZE_def unat_of_nat take_bit_nat_eq_self)

lemma block_written:
  assumes "length txbuf = DEF_PKT_SIZE" "length f \<le> DEF_PKT_SIZE - 4"
  shows "block_of f (blit (put32 txbuf 0 (word_of_nat (length f))) 4 f)"
proof -
  let ?b = "put32 txbuf 0 (word_of_nat (length f))"
  have l: "length ?b = DEF_PKT_SIZE" "4 + length f \<le> DEF_PKT_SIZE" "4 \<le> DEF_PKT_SIZE" using assms by (simp_all add: codec_simps DEF_PKT_SIZE_def)
  have "get32 (blit ?b 4 f) 0 = get32 ?b 0" by (rule le32.rd_blit_before) (use l in auto)
  also have "\<dots> = word_of_nat (length f)" using l assms(1) by (intro le32.rd_wr) simp
  finally show ?thesis using l assms(2) slice_blit [of 4 ?b "length f" f] by (simp add: block_of_def length_blit)
qed

text \<open>The blocks of the first packets of a chain, up to one that fails.\<close>

definition chain_sent :: "(tx_result \<times> bytes \<times> en_ser) outcome \<Rightarrow> down_pkt list \<Rightarrow> bytes \<Rightarrow> en_ser \<Rightarrow> bool" where
  "chain_sent r ps line s \<longleftrightarrow>
     (case r of
        Crash x \<Rightarrow> x = UseAfterFree \<and> \<not> list_all kept_after_done ps
      | Ok (res, line', s') \<Rightarrow> \<exists>k bs. k \<le> length ps \<and> list_all2 block_of (take k (map payload ps)) bs \<and> line' = line @ concat bs \<and>
          s' = s\<lparr>bytes_txed := bytes_txed s + total_length (take k (map payload ps))\<rparr>)"

lemma chain_stops: "chain_sent (Ok (res, line, s)) ps line s"
  by (auto simp: chain_sent_def intro!: exI [of _ 0] exI [of _ "[]"])

lemma tx_packets_blocks:
  assumes "length txbuf = DEF_PKT_SIZE" "list_all fitting ps" "pkt_size s = DEF_PKT_SIZE" "\<forall>line. wr line = int DEF_PKT_SIZE \<or> wr line \<le> 0"
  shows "chain_sent (tx_packets wr ps txbuf line s) ps line s"
  using assms(1-3)
proof (induction ps arbitrary: txbuf line s)
  case Nil
  then show ?case by (simp add: chain_stops)
next
  case (Cons p ps)
  let ?b = "blit (put32 txbuf 0 (framelen p)) 4 (payload p)"
  have p: "length (payload p) \<le> DEF_PKT_SIZE - 4" using Cons.prems(2) by (simp add: fitting_def)
  then have room: "\<not> length txbuf < 4 + length (payload p)" using Cons.prems(1) by (simp add: DEF_PKT_SIZE_def)
  have eq: "tx_packets wr (p # ps) txbuf line s =
      (if length (payload p) \<noteq> unat (framelen p) then Ok (TX_DOWN_FAILED, line, s)
       else if wr line \<noteq> int DEF_PKT_SIZE then Ok (TX_DOWN_FAILED, line @ take (nat (wr line)) ?b, s)
       else if \<not> kept_after_done p then Crash UseAfterFree
       else tx_packets wr ps ?b (line @ take DEF_PKT_SIZE ?b) (s\<lparr>bytes_txed := bytes_txed s + framelen p\<rparr>))"
    using room Cons.prems(3) by (auto simp: Let_def payload_def)
  consider "length (payload p) \<noteq> unat (framelen p) \<or> wr line \<noteq> int DEF_PKT_SIZE" | "length (payload p) = unat (framelen p)" "wr line = int DEF_PKT_SIZE" "\<not> kept_after_done p"
    | "length (payload p) = unat (framelen p)" "wr line = int DEF_PKT_SIZE" "kept_after_done p" by blast
  then show ?case
  proof cases
    case 1
    moreover have "take (nat (wr line)) ?b = []" if "wr line \<noteq> int DEF_PKT_SIZE" using assms(4) that by (simp add: nat_eq_iff2) (metis nat_0_iff take0)
    ultimately have "\<exists>res. tx_packets wr (p # ps) txbuf line s = Ok (res, line, s)" unfolding eq by auto
    then show ?thesis using chain_stops by metis
  next
    case 2
    then show ?thesis unfolding eq by (simp add: chain_sent_def)
  next
    case 3
    have len: "framelen p = word_of_nat (length (payload p))" by (simp add: 3(1))
    have b: "block_of (payload p) ?b" unfolding len by (rule block_written [OF Cons.prems(1) p])
    then have l: "length ?b = DEF_PKT_SIZE" by (simp add: block_of_def)
    let ?s = "s\<lparr>bytes_txed := bytes_txed s + framelen p\<rparr>"
    have rest: "chain_sent (tx_packets wr ps ?b (line @ ?b) ?s) ps (line @ ?b) ?s" using Cons.IH [OF l] Cons.prems(2,3) by simp
    have run: "tx_packets wr (p # ps) txbuf line s = tx_packets wr ps ?b (line @ ?b) ?s" unfolding eq using 3 l by simp
    show ?thesis
    proof (cases "tx_packets wr ps ?b (line @ ?b) ?s")
      case (Crash x)
      with rest show ?thesis unfolding run by (auto simp: chain_sent_def)
    next
      case (Ok v)
      obtain res line' s' where v: "v = (res, line', s')" by (cases v) auto
      from rest obtain k bs where "k \<le> length ps" "list_all2 block_of (take k (map payload ps)) bs" "line' = (line @ ?b) @ concat bs"
        "s' = ?s\<lparr>bytes_txed := bytes_txed ?s + total_length (take k (map payload ps))\<rparr>" by (auto simp: Ok v chain_sent_def)
      with b len have "Suc k \<le> length (p # ps) \<and> list_all2 block_of (take (Suc k) (map payload (p # ps))) (?b # bs) \<and> line' = line @ concat (?b # bs) \<and>
        s' = s\<lparr>bytes_txed := bytes_txed s + total_length (take (Suc k) (map payload (p # ps)))\<rparr>" by (simp add: add.assoc)
      then have "chain_sent (Ok (res, line', s')) (p # ps) line s" unfolding chain_sent_def outcome.case prod.case by blast
      then show ?thesis unfolding run Ok v .
    qed
  qed
qed

lemma blocks_length: "list_all2 block_of fs bs \<Longrightarrow> length (concat bs) = length fs * DEF_PKT_SIZE"
  by (induction rule: list_all2_induct) (simp_all add: block_of_def)

section \<open>The invariant of the line\<close>

definition on_the_way :: "bytes list \<Rightarrow> receiver \<Rightarrow> bool" where
  "on_the_way fs r \<longleftrightarrow> length (recv_buf r) = DEF_PKT_SIZE \<and> pkt_size (r_ser r) = DEF_PKT_SIZE \<and> read_bytes r < DEF_PKT_SIZE \<and>
     (\<exists>bs. list_all2 block_of fs bs \<and> take (read_bytes r) (recv_buf r) @ r_line r = concat bs)"

fun rx_inv :: "bytes list \<Rightarrow> rx_state \<Rightarrow> bool" where
  "rx_inv fs (Receiving r) \<longleftrightarrow> (\<exists>ws. fs = upward r @ ws \<and> on_the_way ws r) \<and> bytes_rxed (r_ser r) = total_length (upward r)"
| "rx_inv fs (ThreadExit r) \<longleftrightarrow> (\<exists>ws. fs = upward r @ ws) \<and> bytes_rxed (r_ser r) = total_length (upward r)"

fun link_inv :: "serial_link outcome \<Rightarrow> bool" where
  "link_inv (Crash x) \<longleftrightarrow> x = UseAfterFree"
| "link_inv (Ok l) \<longleftrightarrow> pkt_size (tx_end l) = DEF_PKT_SIZE \<and> bytes_txed (tx_end l) = total_length (sent l) \<and> rx_inv (sent l) (rx_end l)"

lemma blocks_nonempty: "block_of f b \<Longrightarrow> b \<noteq> []"
  by (auto simp: block_of_def DEF_PKT_SIZE_def)

lemma first_block:
  assumes "list_all2 block_of fs bs" "concat bs = b @ rest" "length b = DEF_PKT_SIZE"
  obtains f gs cs where "fs = f # gs" "bs = b # cs" "block_of f b" "list_all2 block_of gs cs" "rest = concat cs"
proof (cases bs)
  case Nil
  with assms(2,3) show ?thesis by (simp add: DEF_PKT_SIZE_def)
next
  case (Cons c cs)
  with assms(1) obtain f gs where f: "fs = f # gs" "block_of f c" "list_all2 block_of gs cs" by (auto simp: list_all2_Cons2)
  from f(2) assms(3) have "length c = length b" by (simp add: block_of_def)
  with assms(2) Cons have "c = b" "concat cs = rest" by simp_all
  with f Cons show ?thesis by (intro that [of f gs cs]) simp_all
qed

lemma devn_block_passes:
  assumes "block_of f (recv_buf r)" "bytes_rxed (r_ser r) = total_length (upward r)"
  shows "\<exists>r'. devn_block True True r = Ok r' \<and> upward r' = upward r @ [f] \<and> recv_buf r' = recv_buf r \<and> r_line r' = r_line r \<and>
    pkt_size (r_ser r') = pkt_size (r_ser r) \<and> bytes_rxed (r_ser r') = total_length (upward r')"
proof -
  have f: "length f \<le> DEF_PKT_SIZE - 4" using assms(1) by (simp add: block_of_def)
  then have "unat (word_of_nat (length f) :: u32) = length f" using unat_small [of "length f"] by simp
  with assms f show ?thesis by (auto simp: devn_block_def Let_def block_of_def DEF_PKT_SIZE_def)
qed

lemma loop_top_inv: "(\<exists>ws. fs = upward r @ ws \<and> on_the_way ws (r\<lparr>read_bytes := 0\<rparr>)) \<Longrightarrow> bytes_rxed (r_ser r) = total_length (upward r) \<Longrightarrow> rx_inv fs (loop_top r)"
  by (auto simp: loop_top_def)

lemma chunk_moves:
  assumes "n \<le> length (r_line r)" "read_bytes r + n \<le> length (recv_buf r)"
  shows "take (read_bytes r + n) (blit (recv_buf r) (read_bytes r) (take n (r_line r))) @ drop n (r_line r) = take (read_bytes r) (recv_buf r) @ r_line r"
  using assms by (simp add: blit_def min_absorb1 min_absorb2)

lemma chunk_step:
  assumes "rx_inv fs (Receiving r)"
  shows "\<exists>x. devn_read (Chunk k True True) r = Ok x \<and> rx_inv fs x"
proof -
  define n where "n = min k (min (pkt_size (r_ser r) - read_bytes r) (length (r_line r)))"
  define r1 where "r1 = r\<lparr>recv_buf := blit (recv_buf r) (read_bytes r) (take n (r_line r)), r_line := drop n (r_line r), read_bytes := read_bytes r + n\<rparr>"
  from assms obtain ws bs where w: "fs = upward r @ ws" "on_the_way ws r" "list_all2 block_of ws bs" "take (read_bytes r) (recv_buf r) @ r_line r = concat bs"
    "bytes_rxed (r_ser r) = total_length (upward r)" by (auto simp: on_the_way_def)
  from w(2) have l: "length (recv_buf r) = DEF_PKT_SIZE" "pkt_size (r_ser r) = DEF_PKT_SIZE" "read_bytes r < DEF_PKT_SIZE" by (simp_all add: on_the_way_def)
  have n: "n \<le> length (r_line r)" "read_bytes r + n \<le> DEF_PKT_SIZE" using l by (auto simp: n_def)
  have c: "take (read_bytes r1) (recv_buf r1) @ r_line r1 = concat bs" using chunk_moves [of n r] n l w(4) by (simp add: r1_def)
  have l1: "length (recv_buf r1) = DEF_PKT_SIZE" using n l by (simp add: r1_def length_blit)
  have e: "devn_read (Chunk k True True) r = (if read_bytes r1 \<noteq> DEF_PKT_SIZE then Ok (Receiving r1) else bindo (devn_block True True r1) (\<lambda>r. Ok (loop_top r)))"
    using l(2) by (simp add: Let_def n_def r1_def)
  show ?thesis
  proof (cases "read_bytes r1 = DEF_PKT_SIZE")
    case False
    have "on_the_way ws r1" unfolding on_the_way_def using w(3) c l1 l n False by (auto simp: r1_def)
    with False w(1,5) show ?thesis unfolding e by (auto simp: r1_def)
  next
    case True
    from c True l1 have "concat bs = recv_buf r1 @ r_line r1" by simp
    from first_block [OF w(3) this l1] obtain f gs cs where f: "ws = f # gs" "block_of f (recv_buf r1)" "list_all2 block_of gs cs" "r_line r1 = concat cs" by metis
    have "bytes_rxed (r_ser r1) = total_length (upward r1)" using w(5) by (simp add: r1_def)
    from devn_block_passes [OF f(2) this] obtain r' where r': "devn_block True True r1 = Ok r'" "upward r' = upward r1 @ [f]" "recv_buf r' = recv_buf r1"
      "r_line r' = r_line r1" "pkt_size (r_ser r') = pkt_size (r_ser r1)" "bytes_rxed (r_ser r') = total_length (upward r')" by blast
    have "on_the_way gs (r'\<lparr>read_bytes := 0\<rparr>)" unfolding on_the_way_def using f(3,4) r' l1 l by (auto simp: r1_def DEF_PKT_SIZE_def)
    moreover have "fs = upward r' @ gs" using w(1) f(1) r'(2) by (simp add: r1_def)
    ultimately have "rx_inv fs (loop_top r')" using r'(6) by (intro loop_top_inv) auto
    with True r'(1) show ?thesis unfolding e by simp
  qed
qed


lemma down_inv: "rx_inv fs x \<Longrightarrow> list_all2 block_of gs bs \<Longrightarrow> rx_inv (fs @ gs) (set_rx x ((rx_of x)\<lparr>r_line := r_line (rx_of x) @ concat bs\<rparr>))"
proof (cases x)
  case (Receiving r)
  assume a: "rx_inv fs x" "list_all2 block_of gs bs"
  then obtain ws where w: "fs = upward r @ ws" "on_the_way ws r" "bytes_rxed (r_ser r) = total_length (upward r)" by (auto simp: Receiving)
  then obtain cs where "list_all2 block_of ws cs" "take (read_bytes r) (recv_buf r) @ r_line r = concat cs" by (auto simp: on_the_way_def)
  with a(2) have "list_all2 block_of (ws @ gs) (cs @ bs)" "take (read_bytes r) (recv_buf r) @ r_line r @ concat bs = concat (cs @ bs)"
    by (auto intro: list_all2_appendI simp flip: append_assoc)
  with w show ?thesis by (auto simp: Receiving on_the_way_def)
qed auto

lemma shutdown_inv: "rx_inv fs x \<Longrightarrow> rx_inv fs (set_rx x ((rx_of x)\<lparr>r_ser := devn_shutdown1 (r_ser (rx_of x))\<rparr>))"
  by (cases x) (auto simp: devn_shutdown1_def on_the_way_def)

text \<open>One event: the invariant holds again, or the sender has read a packet that was gone.\<close>

lemma down_step:
  assumes "link_inv (Ok k)" "link_ok (Ok k) (Down wr txbuf d)"
  shows "link_inv (link_step (Ok k) (Down wr txbuf d)) \<and> (packets_stay (Down wr txbuf d) \<longrightarrow> (\<exists>l. link_step (Ok k) (Down wr txbuf d) = Ok l))"
proof -
  from assms(1) have l: "pkt_size (tx_end k) = DEF_PKT_SIZE" "bytes_txed (tx_end k) = total_length (sent k)" "rx_inv (sent k) (rx_end k)" by simp_all
  let ?line = "r_line (rx_of (rx_end k))"
  show ?thesis
  proof (cases "d = DownMsg \<or> txbuf = None")
    case True
    then have "\<exists>res. devn_rx_down wr txbuf d ?line (tx_end k) = Ok (res, ?line, tx_end k)" by (cases d) (auto simp: devn_rx_down_def)
    then obtain res where "devn_rx_down wr txbuf d ?line (tx_end k) = Ok (res, ?line, tx_end k)" ..
    moreover have "rx_inv (sent k) (set_rx (rx_end k) ((rx_of (rx_end k))\<lparr>r_line := ?line\<rparr>))" using down_inv [OF l(3), of "[]" "[]"] by simp
    ultimately show ?thesis using l by (simp add: Let_def)
  next
    case False
    then obtain b ps where d: "txbuf = Some b" "d = DownPkts ps" by (cases d) auto
    with assms(2) have a: "length b = DEF_PKT_SIZE" "list_all fitting ps" "\<forall>line. wr line = int DEF_PKT_SIZE \<or> wr line \<le> 0" by simp_all
    have c: "chain_sent (devn_rx_down wr txbuf d ?line (tx_end k)) ps ?line (tx_end k)"
      using tx_packets_blocks [OF a(1,2) l(1) a(3)] by (simp add: devn_rx_down_def d)
    show ?thesis
    proof (cases "devn_rx_down wr txbuf d ?line (tx_end k)")
      case (Crash x)
      with c show ?thesis by (simp add: Let_def chain_sent_def d)
    next
      case (Ok v)
      obtain res line' s' where v: "v = (res, line', s')" by (cases v) auto
      from c obtain n bs where n: "n \<le> length ps" "list_all2 block_of (take n (map payload ps)) bs" "line' = ?line @ concat bs"
        "s' = (tx_end k)\<lparr>bytes_txed := bytes_txed (tx_end k) + total_length (take n (map payload ps))\<rparr>" by (auto simp: Ok v chain_sent_def)
      have "(length line' - length ?line) div DEF_PKT_SIZE = n" using blocks_length [OF n(2)] n(1,3) by (simp add: DEF_PKT_SIZE_def)
      with down_inv [OF l(3) n(2)] l(1,2) n(3,4) show ?thesis by (simp add: Let_def Ok [unfolded d v] d)
    qed
  qed
qed

lemma link_step_cases: "link_inv (Ok k) \<Longrightarrow> link_ok (Ok k) ev \<Longrightarrow>
    link_inv (link_step (Ok k) ev) \<and> (packets_stay ev \<longrightarrow> (\<exists>l. link_step (Ok k) ev = Ok l))"
proof -
  assume a: "link_inv (Ok k)" "link_ok (Ok k) ev"
  then have l: "pkt_size (tx_end k) = DEF_PKT_SIZE" "bytes_txed (tx_end k) = total_length (sent k)" "rx_inv (sent k) (rx_end k)" by simp_all
  show ?thesis
  proof (cases ev)
    case (Down wr txbuf d)
    with a show ?thesis using down_step by blast
  next
    case (Read rd)
    show ?thesis
    proof (cases "rx_end k")
      case (Receiving r)
      show ?thesis
      proof (cases rd)
        case (Chunk n m g)
        with a(2) Read have "m" "g" by simp_all
        with chunk_step [of "sent k" r n] l Receiving Chunk show ?thesis by (auto simp: Read simp del: devn_read.simps)
      next
        case (ReadError ebadf)
        with a(2) l Receiving show ?thesis by (auto simp: Read loop_top_def)
      qed
    qed (use l Read in simp)
  next
    case Shutdown
    with l shutdown_inv [OF l(3)] show ?thesis by simp
  qed
qed

interpretation link: machine link_step link_ok link_inv
proof
  fix s ev
  assume "link_inv s" "link_ok s ev"
  then show "link_inv (link_step s ev)" using link_step_cases by (cases s) auto
qed

lemma run_stays: "link_inv (Ok k) \<Longrightarrow> link.run_ok (Ok k) es \<Longrightarrow> \<forall>ev \<in> set es. packets_stay ev \<Longrightarrow> \<exists>l. link.run (Ok k) es = Ok l"
proof (induction es arbitrary: k)
  case (Cons ev es)
  from Cons.prems have "link_ok (Ok k) ev" "packets_stay ev" by simp_all
  with link_step_cases [OF Cons.prems(1)] obtain l where "link_step (Ok k) ev = Ok l" "link_inv (Ok l)" by metis
  with Cons.IH [of l] Cons.prems(2,3) show ?case by simp
qed simp

section \<open>What the driver does\<close>

definition new_link :: "en_ser \<Rightarrow> receiver \<Rightarrow> serial_link" where
  "new_link s r = \<lparr>tx_end = s, rx_end = Receiving r, sent = []\<rparr>"

lemma devn_init_facts: "devn_init log_ok opt opens place rnd alloc_ok reg_ok thread_ok = Ok (Some (s, ad)) \<Longrightarrow>
    pkt_size s = DEF_PKT_SIZE \<and> bytes_txed s = 0 \<and> bytes_rxed s = 0 \<and> stop_receive s = 0"
  by (auto simp: devn_init_def Let_def split: if_splits option.splits)

lemma new_link_inv:
  assumes "devn_init l1 o1 f1 p1 n1 a1 g1 t1 = Ok (Some (s1, ad1))" "devn_init l2 o2 f2 p2 n2 a2 g2 t2 = Ok (Some (s2, ad2))"
    and "receiver_start (Some buf) s2 = Some r" "length buf = DEF_PKT_SIZE"
  shows "link_inv (Ok (new_link s1 r))"
  using devn_init_facts [OF assms(1)] devn_init_facts [OF assms(2)] assms(3,4)
  by (auto simp: new_link_def receiver_start_def on_the_way_def DEF_PKT_SIZE_def)


text \<open>A frame of more than 1516 bytes is copied behind the buffer of the sender, and a block whose first four bytes say more
  than 1516, which any disturbance of the line can bring about, is copied from behind the buffer of the receiver.\<close>

theorem long_frames_leave_the_buffers:
  assumes "DEF_PKT_SIZE - 4 < length (dp_data p)" "unat (framelen p) = length (dp_data p)" "length txbuf = DEF_PKT_SIZE"
    and "length (recv_buf r) = DEF_PKT_SIZE" "DEF_PKT_SIZE - 4 < unat (get32 (recv_buf r) 0)"
  shows "devn_rx_down wr (Some txbuf) (DownPkts (p # ps)) line s = Crash OutOfBounds \<and> devn_block True reg_ok r = Crash OutOfBounds"
  using assms by (auto simp: devn_rx_down_def devn_block_def Let_def DEF_PKT_SIZE_def)

text \<open>The name in the advertisement is not followed by a terminator, but the hardware address behind it begins with one, so that a filter like
  \<open>nfm-ntc\<close> reads the name as \<open>en\<close> with the number of the endpoint.\<close>

lemma digits_no_nul: "0 \<notin> set (dec_text n)"
proof (induction n rule: dec_text.induct)
  case (1 n)
  have "48 + word_of_nat m \<noteq> (0 :: byte)" if "m < 10" for m
  proof
    assume "48 + word_of_nat m = (0 :: byte)"
    then have "unat (48 + word_of_nat m :: byte) = 0" by simp
    moreover have "unat (48 + word_of_nat m :: byte) = 48 + m" using that by (simp add: unat_word_ariths unat_byte_of_nat)
    ultimately show False by simp
  qed
  with 1 show ?case by (subst dec_text.simps) auto
qed

lemma advertised_name:
  assumes "devn_init log_ok opt opens place rnd alloc_ok reg_ok thread_ok = Ok (Some (s, Some ad))"
  shows "cstr (ad_data ad) = bytes_of ''en'' @ dec_text (unat (se_endpoint s))"
proof -
  from assms have ad: "ad = advert_of s" "se_mac s ! 0 = 0" "length (se_mac s) = 8"
    by (auto simp: devn_init_def devn_advertise_def put32_def put16_def Let_def split: if_splits option.splits)
  then have m: "take 6 (se_mac s) = 0 # take 5 (tl (se_mac s))" by (cases "se_mac s") auto
  have "\<forall>b \<in> set (bytes_of ''en'' @ dec_text (unat (se_endpoint s))). b \<noteq> 0" using digits_no_nul by (auto simp: bytes_of_def)
  from takeWhile_stop [OF this, of 0 "take 5 (tl (se_mac s)) @ [0]"] show ?thesis
    unfolding cstr_def ad(1) advert_of_def Let_def by (simp add: m)
qed


section \<open>Examples\<close>

definition a_driver :: en_ser where
  "a_driver = (case devn_init True None (\<lambda>d. True) (Some (0, 1)) 77 True True True of Ok (Some (s, ad)) \<Rightarrow> s | _ \<Rightarrow> undefined)"

lemma a_driver_init: "\<exists>ad. devn_init True None (\<lambda>d. True) (Some (0, 1)) 77 True True True = Ok (Some (a_driver, ad))"
  by (simp add: a_driver_def devn_init_def Let_def)

definition a_packet :: down_pkt where
  "a_packet = \<lparr>framelen = 3, dp_data = [1, 2, 3], kept_after_done = True\<rparr>"


theorem long_frames_leave_the_buffers_witness:
  "devn_rx_down (\<lambda>line. 1520) (Some (replicate 1520 0)) (DownPkts [\<lparr>framelen = 1517, dp_data = replicate 1517 1, kept_after_done = True\<rparr>]) [] a_driver = Crash OutOfBounds"
  using long_frames_leave_the_buffers [of "\<lparr>framelen = 1517, dp_data = replicate 1517 1, kept_after_done = True\<rparr>" "replicate 1520 0"
    "\<lparr>r_line = [], recv_buf = replicate 1520 255, read_bytes = 1520, upward = [], r_ser = a_driver\<rparr>" "\<lambda>line. 1520" "[]" "[]" a_driver True]
  by (simp add: DEF_PKT_SIZE_def get32_def)

end
