(* ===== verification/Spec2Isabelle.thy ===== *)
theory Spec2Isabelle
  imports QBasePersist QBaseClient QBaseConfig QBaseResize DnsThreads DnsOrder VpnCalls VpnConfig MailDelivery MailMain BillLog BillCheck NtcTotals AvScanner SerialLine
begin

text \<open>
  The servers of \<open>QNXstuff\<close>, a collection of programs for QNX 6 on 32-bit little-endian x86. They
  are separate processes; what they have in common is the reader of configuration files, the layout of memory and the manner
  in which resource managers, thread pools and sockets are used. This library models them in the order of the
  list below. A definition has the name of the function of the code where it is a whole function, and a name of its own
  where it is a part of one; the comment before it says which part.

  \<^bold>\<open>Shared.\<close> \<open>QXPrelude\<close>: bytes and words, the little-endian accesses that the code makes
  through pointers, C strings, \<open>toupper\<close>, \<open>stricmp\<close>; the locale \<open>le_codec\<close> for the laws of such accesses,
  interpreted for 16 and 32 bits, and the locale \<open>machine\<close>, whose lemma lifts an invariant from one step to all runs. Each
  server below that has an invariant is an interpretation of it.

  \<^bold>\<open>Configuration.\<close> \<open>ConfReader\<close> is \<open>getconf/GetConf.c\<close>. Its state is the rest of the file, the line buffer
  and the position of the next token. \<open>ConfRealm\<close> holds the loops over lines and realms that the servers have in common.
  Theorems: which words are read, and what a last line without a newline leads to.

  \<^bold>\<open>QX-base\<close>, a database as a resource manager. \<open>QBaseTypes\<close>: descriptors and result codes
  (\<open>qbase_common.h\<close>, \<open>qbase_errors.h\<close>), files and memory. \<open>QBaseFilter\<close>: comparison and update of fields
  (\<open>qbase_filterfunc.c\<close> and the update loop of \<open>qbase_iofunc.c\<close>). \<open>QBasePages\<close>: the pool of pages
  (\<open>qbase_filefunc.c\<close>, \<open>LockTablePage\<close>). \<open>QBaseServer\<close> and \<open>QBaseDevctl\<close>: connections and requests
  (\<open>qbase_iofunc.c\<close>). \<open>QBaseClient\<close>: \<open>qbase_client.c\<close>, composed with the server. \<open>QBaseConfig\<close>:
  \<open>qbase_rm.c\<close>. A table is abstracted to the list of its rows (\<open>QBaseStore\<close>); \<open>QBaseRows\<close>, \<open>QBaseScan\<close> and
  \<open>QBaseSeek\<close> show that write, read, update, delete and seek act on that list, \<open>QBasePersist\<close> that a table that is
  released and selected again has the same rows, \<open>QBaseSystem\<close> that the reference counts are right in every run.
  \<open>QBaseTables\<close> is how programs describe a table column by column, and \<open>QBaseResize\<close> is \<open>qxb_resize.c\<close>, the tool that
  changes the columns of a table: what becomes of its rows and of its files.

  \<^bold>\<open>QX-dns\<close>, a name server and proxy. \<open>DnsNames\<close> and \<open>DnsMaster\<close>: \<open>master.c\<close>; \<open>DnsCache\<close>:
  \<open>cache.c\<close>; \<open>DnsServer\<close> and \<open>DnsConfig\<close>: \<open>main.c\<close>. Buffers are at numbered addresses and linked by
  \<open>next\<close> and \<open>prev\<close>; \<open>DnsQueue\<close> relates the links to lists. \<open>DnsProxy\<close> and \<open>DnsLoop\<close> follow a query and its
  response, \<open>DnsInvariant\<close> shows that no buffer is lost in a run, \<open>DnsThreads\<close> has the pool as interleaved steps,
  \<open>DnsOrder\<close> goes from the configuration file to the order in which the servers are asked.

  \<^bold>\<open>QX-vpn\<close>, a PPTP server. \<open>VpnControl\<close>: \<open>qx_vpn_cc.c\<close>; \<open>VpnServer\<close>: \<open>qx_vpn_ppp.c\<close> and the
  callbacks of \<open>qx_vpn_main.c\<close>; \<open>VpnConfig\<close>: the rest of that file; \<open>VpnCalls\<close>: the invariant of the client
  records and the ways in which it does not reach far enough.

  \<^bold>\<open>QX-mail\<close>, POP3 and SMTP. \<open>MailGeneral\<close>: \<open>general.c\<close>, with \<open>MailCodec\<close> on Base64, MD5 and the line
  reader. \<open>MailPop\<close>: \<open>pop3.c\<close>, with \<open>MailSessions\<close> on all sessions together. \<open>MailSmtp\<close>: \<open>smtp.c\<close>, with
  \<open>MailRelay\<close> on what gets into the spool. \<open>MailSpooler\<close>: \<open>spooler.c\<close>, with \<open>MailDelivery\<close> on what becomes of a
  message: which local mailboxes get a copy, one transfer for each domain, the question for its exchanger (which is compared with
  the encoding of names of \<open>QX-dns\<close>), the dialogue. \<open>MailMain\<close>: \<open>main.c\<close>, with the queue of accepted connections.

  \<^bold>\<open>QX-billing\<close>, the packet filter that charges traffic. \<open>BillRules\<close>: \<open>qxc_rules.c\<close>, with the tree of
  client rules in an array; \<open>BillFilter\<close>: \<open>qxc_logging.c\<close>, \<open>qxc_main.c\<close>, \<open>qxc_rm.c\<close>; \<open>BillAccount\<close>: the tree
  decides as the set of rules, and every taxed packet that passes is in the log and is fetched once; \<open>BillLog\<close>: the
  same for threads that store entries at the same time, as a step relation.
  The logger on top of the database: \<open>BillLedger\<close> is the loop of \<open>qxl_main.c\<close>, which hands the rules of the database to
  the filter, fetches its log and charges the sessions. The calls to the database are recorded, and \<open>BillBook\<close> says what they
  do to its tables when they are applied one after the other: a seek chooses the current row of a connection, an update changes the sum of
  that row. The theorems are about the tables after the calls, so that a seek to a wrong account counts. \<open>BillMoney\<close> composes
  filter and logger and shows that every session gets its row and its price is taken once, by the tariff under which it was
  logged, and when the process fails; \<open>BillDaily\<close> is the start of \<open>qxl_main.c\<close> and \<open>qxl_eod.c\<close>, with the columns of the log
  table by the client library (\<open>QBaseTables\<close>) and the daily part of the monthly taxes; \<open>BillCheck\<close> is the tool
  \<open>qxl_consistency.c\<close>, with the corrected rows and the prices that move between accounts.

  \<^bold>\<open>The packet counter.\<close> \<open>NtcFilter\<close> is \<open>nfm-ntc\<close> (\<open>main.c\<close>, \<open>ntc_rm.c\<close>), a filter that passes the frames of
  listed cards and keeps their headers in a queue, with the list as linked nodes; \<open>NtcLog\<close> relates it to the list of cards and
  shows which frames pass (ARP is meant to pass always, but its frames are not recognised) and that each logged one is read once, also what
  deleting a card does. \<open>NtcReader\<close> is \<open>ntcread.c\<close>, which sums the queue up in sessions
  and writes them to the database, and \<open>NtcTotals\<close> composes the two: no byte of a packet that was read is lost or
  counted twice. The handlers of the filter are taken as atomic.

  \<^bold>\<open>Two smaller programs.\<close> \<open>AvScanner\<close> is \<open>QX-avird/qavird.c\<close>, the virus scanner that the spooler of \<open>QX-mail\<close> asks: its
  requests, and its threads as a step relation cut at the lock, with the invariant that the engine in use stays in memory while no two
  reloads overlap. \<open>SerialLine\<close> is \<open>devn-ser\<close>, a network driver over a serial line: two of them and the line between as one machine,
  in which the frames passed up are those whose blocks were written, unless the sender reads a packet that it has given back.

  \<^bold>\<open>Conventions.\<close> An access outside a buffer or through a null pointer is the value \<open>Crash\<close> of the type \<open>outcome\<close>.
  A loop that may not end is a \<open>partial_function (option)\<close>: no value means that the thread does not return, and that a
  loop returns is proved as such. All other loops are structural or have a measure, so that no fuel is used anywhere. Integers of
  the code that can wrap are words; lengths and counters that are bounded by a buffer are natural numbers. Memory that is not
  initialised is an argument with arbitrary contents.

  \<^bold>\<open>Parameters.\<close> The results of socket calls, of \<open>malloc\<close> where a failure is handled, of \<open>mkstemp\<close>,
  \<open>time\<close>, \<open>rand\<close>, of the resolver, of the virus scanner and of the resource manager framework; floating-point
  arithmetic; the magnitude of the result of \<open>memcmp\<close>, of which only the sign is known.

  \<^bold>\<open>Not modelled.\<close> Log functions, which print only; \<open>qx_vpn_lcp.c\<close> and \<open>qx_vpn_ipcp.c\<close>, which hold no
  function; the console programs of \<open>QX-base\<close> and \<open>QX-avird\<close>; the superseded copies of files, and the small test programs.
\<close>

end
